(* ===== verification/Prelude.thy ===== *)
theory Prelude
  imports Main "HOL-Library.Word" "HOL-Library.Finite_Map" "HOL-Library.List_Lexorder"
    "HOL-Library.Char_ord" "HOL-Library.Product_Lexorder" "HOL-Library.Multiset"
begin

text \<open>
  Shared vocabulary of the development: Go strings and bytes, the parts of the Go
  standard library the source leans on (\<open>strings.ToLower\<close>, \<open>strings.TrimSpace\<close>,
  \<open>strings.Contains\<close>, \<open>encoding/binary.BigEndian\<close>), results with errors, and the
  interface locales (codec, byte-stream machine, invariant of a step relation) that the
  components instantiate.
\<close>

named_theorems go_simps \<open>unfolding rules for the Go standard library helpers\<close>
named_theorems inv_intros \<open>one preservation rule per operation\<close>

subsection \<open>Basic types\<close>

text \<open>A Go string is a byte sequence: an Isabelle \<open>char\<close> is one byte.\<close>

type_synonym byte = "8 word"

type_synonym time = int   \<comment> \<open>nanoseconds; 0 is Go's zero \<open>time.Time\<close>\<close>

text \<open>A Go map that is only ranged over through its keys: finite, with extensional equality.\<close>

type_synonym ('k, 'v) gomap = "('k, 'v) fmap"

definition gomap_len :: "('k, 'v) gomap \<Rightarrow> nat" where
  "gomap_len m = fcard (fmdom m)"

lemma gomap_len_empty [simp]: "gomap_len fmempty = 0"
  by (simp add: gomap_len_def)

lemma gomap_len_zero [simp]: "gomap_len m = 0 \<longleftrightarrow> m = fmempty"
proof
  assume "gomap_len m = 0"
  then have "fmdom m = {||}" by (simp add: gomap_len_def)
  then show "m = fmempty"
    by (intro fmap_ext) (metis fmdom_notD fempty_iff fmempty_lookup)
qed (simp add: gomap_len_def)

lemma fmlookup_in_dom: "fmlookup m k = Some v \<Longrightarrow> k |\<in>| fmdom m"
  by (rule fmdomI)

lemma fmlookup_not_dom: "k |\<notin>| fmdom m \<longleftrightarrow> fmlookup m k = None"
  by (auto dest: fmdomI fmdom_notD intro: fmdom_notI)

lemma finite_keys [simp]: "finite {k. fmlookup m k \<noteq> None}"
proof -
  have "{k. fmlookup m k \<noteq> None} = fset (fmdom m)"
    by (auto simp: fmlookup_not_dom [symmetric])
  then show ?thesis by simp
qed

subsection \<open>Results\<close>

fun is_ok :: "'e + 'a \<Rightarrow> bool" where
  "is_ok (Inl _) = False"
| "is_ok (Inr _) = True"

lemma is_okE: "is_ok r \<Longrightarrow> (\<And>x. r = Inr x \<Longrightarrow> P) \<Longrightarrow> P"
  by (cases r) auto

subsection \<open>Strings of the Go standard library\<close>

definition ord8 :: "char \<Rightarrow> nat" where
  "ord8 c = of_char c"

definition is_ascii :: "string \<Rightarrow> bool" where
  "is_ascii s = list_all (\<lambda>c. ord8 c < 128) s"

definition lower_char :: "char \<Rightarrow> char" where
  "lower_char c = (if 65 \<le> ord8 c \<and> ord8 c \<le> 90 then char_of (ord8 c + 32) else c)"

text \<open>
  \<open>strings.ToLower\<close>: ASCII strings are folded byte by byte; for the others the result
  depends on the Unicode tables, and is the parameter \<open>ul\<close>.
\<close>

definition to_lower :: "(string \<Rightarrow> string) \<Rightarrow> string \<Rightarrow> string" where
  "to_lower ul s = (if is_ascii s then map lower_char s else ul s)"

text \<open>\<open>strings.Contains s sub\<close> and \<open>strings.HasPrefix s p\<close>, \<open>strings.HasSuffix s p\<close>.\<close>

fun has_prefix :: "'a list \<Rightarrow> 'a list \<Rightarrow> bool" where
  "has_prefix s [] = True"
| "has_prefix [] (p # ps) = False"
| "has_prefix (c # cs) (p # ps) = (c = p \<and> has_prefix cs ps)"

definition has_suffix :: "'a list \<Rightarrow> 'a list \<Rightarrow> bool" where
  "has_suffix s p = has_prefix (rev s) (rev p)"

fun contains :: "'a list \<Rightarrow> 'a list \<Rightarrow> bool" where
  "contains [] sub = (sub = [])"
| "contains (c # cs) sub = (has_prefix (c # cs) sub \<or> contains cs sub)"

lemma has_prefix_iff: "has_prefix s p \<longleftrightarrow> (\<exists>t. s = p @ t)"
  by (induction s p rule: has_prefix.induct) auto

lemma has_prefix_take: "has_prefix s p \<longleftrightarrow> take (length p) s = p"
  by (induction s p rule: has_prefix.induct) auto

lemma has_suffix_iff: "has_suffix s p \<longleftrightarrow> (\<exists>t. s = t @ p)"
proof -
  have "has_suffix s p \<longleftrightarrow> (\<exists>t. rev s = rev p @ t)"
    by (simp add: has_suffix_def has_prefix_iff)
  also have "\<dots> \<longleftrightarrow> (\<exists>t. s = t @ p)"
    by (metis rev_append rev_rev_ident)
  finally show ?thesis .
qed

lemma contains_iff: "contains s sub \<longleftrightarrow> (\<exists>u v. s = u @ sub @ v)"
proof (induction s)
  case Nil
  then show ?case by auto
next
  case (Cons c cs)
  show ?case
    by (simp add: Cons has_prefix_iff) (metis append_Cons append_Nil neq_Nil_conv list.inject)
qed

lemma contains_length: "contains s sub \<Longrightarrow> length sub \<le> length s"
  by (auto simp: contains_iff)

lemma contains_iff_take:
  "contains s sub \<longleftrightarrow> (\<exists>i \<le> length s - length sub. length sub \<le> length s \<and> take (length sub) (drop i s) = sub)"
proof
  assume "contains s sub"
  then obtain u v where "s = u @ sub @ v" by (auto simp: contains_iff)
  then show "\<exists>i \<le> length s - length sub. length sub \<le> length s \<and> take (length sub) (drop i s) = sub"
    by (intro exI [of _ "length u"]) auto
next
  assume "\<exists>i \<le> length s - length sub. length sub \<le> length s \<and> take (length sub) (drop i s) = sub"
  then obtain i where "take (length sub) (drop i s) = sub" by blast
  then have "s = take i s @ sub @ drop (length sub) (drop i s)"
    by (metis append_take_drop_id)
  then show "contains s sub" by (auto simp: contains_iff)
qed

text \<open>
  \<open>strings.TrimSpace\<close>. \<open>unicode.IsSpace\<close> holds of the six ASCII blanks and of
  the code points below, whose UTF-8 encodings are listed; a Go string that starts
  (ends) with one of them has that rune as its first (last) rune.
\<close>

definition bytes_str :: "nat list \<Rightarrow> string" where
  "bytes_str = map char_of"

definition space_runes :: "string list" where
  "space_runes = map bytes_str ([[9], [10], [11], [12], [13], [32], [194, 133], [194, 160],
     [225, 154, 128], [226, 128, 168], [226, 128, 169], [226, 128, 175], [226, 129, 159],
     [227, 128, 128]] @ map (\<lambda>i. [226, 128, i]) [128..<139])"

definition strip_space_rune :: "string list \<Rightarrow> string \<Rightarrow> string option" where
  "strip_space_rune rs s =
     (case filter (has_prefix s) rs of [] \<Rightarrow> None | r # _ \<Rightarrow> Some (drop (length r) s))"

function trim_left_by :: "string list \<Rightarrow> string \<Rightarrow> string" where
  "trim_left_by rs s = (case strip_space_rune rs s of
     None \<Rightarrow> s
   | Some t \<Rightarrow> if length t < length s then trim_left_by rs t else s)"
  by pat_completeness auto
termination
  by (relation "measure (\<lambda>(rs, s). length s)") auto

declare trim_left_by.simps [simp del]

definition trim_space :: "string \<Rightarrow> string" where
  "trim_space s = rev (trim_left_by (map rev space_runes) (rev (trim_left_by space_runes s)))"

lemma trim_left_by_suffix: "\<exists>u. s = u @ trim_left_by rs s"
proof (induction rs s rule: trim_left_by.induct)
  case (1 rs s)
  show ?case
  proof (cases "strip_space_rune rs s")
    case None
    then show ?thesis by (simp add: trim_left_by.simps [of rs s])
  next
    case (Some t)
    then obtain r :: string where t: "t = drop (length r) s"
      by (auto simp: strip_space_rune_def split: list.splits)
    show ?thesis
    proof (cases "length t < length s")
      case True
      with 1 Some obtain u where "t = u @ trim_left_by rs t" by blast
      then have "s = (take (length r) s @ u) @ trim_left_by rs t"
        using t by (metis append.assoc append_take_drop_id)
      moreover have "trim_left_by rs s = trim_left_by rs t"
        using Some True by (simp add: trim_left_by.simps [of rs s])
      ultimately show ?thesis by metis
    next
      case False
      with Some show ?thesis by (simp add: trim_left_by.simps [of rs s])
    qed
  qed
qed

lemma trim_space_contained: "contains s (trim_space s)"
proof -
  obtain u where u: "s = u @ trim_left_by space_runes s"
    using trim_left_by_suffix by blast
  let ?t = "trim_left_by space_runes s"
  obtain v where "rev ?t = v @ trim_left_by (map rev space_runes) (rev ?t)"
    using trim_left_by_suffix by blast
  then have "?t = trim_space s @ rev v"
    by (metis rev_append rev_rev_ident trim_space_def)
  with u have "s = u @ trim_space s @ rev v" by simp
  then show ?thesis unfolding contains_iff by blast
qed

subsection \<open>Big-endian byte strings\<close>

text \<open>\<open>binary.BigEndian\<close> and the 16-byte identifiers: base 256, most significant byte first.\<close>

fun be_bytes :: "nat \<Rightarrow> nat \<Rightarrow> byte list" where
  "be_bytes 0 n = []"
| "be_bytes (Suc k) n = of_nat (n div 256 ^ k) # be_bytes k n"

fun be_num :: "byte list \<Rightarrow> nat" where
  "be_num [] = 0"
| "be_num (b # bs) = unat b * 256 ^ length bs + be_num bs"

lemma length_be_bytes [simp]: "length (be_bytes k n) = k"
  by (induction k) auto

lemma unat_byte_lt [simp]: "unat (b :: byte) < 256"
  using unsigned_less [of b] by simp

lemma unat_of_nat_byte: "unat (of_nat n :: byte) = n mod 256"
  by (simp add: unat_of_nat)

lemma be_num_bound: "be_num bs < 256 ^ length bs"
proof (induction bs)
  case (Cons b bs)
  have "unat b \<le> 255" using unat_byte_lt [of b] by linarith
  then have "unat b * 256 ^ length bs \<le> 255 * 256 ^ length bs"
    by (rule mult_le_mono1)
  then have "unat b * 256 ^ length bs + be_num bs < 255 * 256 ^ length bs + 256 ^ length bs"
    using Cons by linarith
  then show ?case by simp
qed simp

lemma be_num_be_bytes: "be_num (be_bytes k n) = n mod 256 ^ k"
proof (induction k)
  case (Suc k)
  have "n mod (256 * 256 ^ k) = 256 ^ k * (n div 256 ^ k mod 256) + n mod 256 ^ k"
    by (metis mod_mult2_eq mult.commute)
  then show ?case
    by (simp add: Suc unat_of_nat_byte mult.commute)
qed simp

lemma be_bytes_add: "be_bytes k (a * 256 ^ k + n) = be_bytes k n"
proof (induction k arbitrary: a)
  case (Suc k)
  have eq: "a * 256 ^ Suc k + n = (a * 256) * 256 ^ k + n" by simp
  have "(a * 256 ^ Suc k + n) div 256 ^ k = a * 256 + n div 256 ^ k"
    unfolding eq by (subst div_mult_self3) simp_all
  then have "(of_nat ((a * 256 ^ Suc k + n) div 256 ^ k) :: byte) = of_nat (n div 256 ^ k)"
    by (simp del: of_nat_add of_nat_mult add: word_unat_eq_iff unat_of_nat_byte)
  then show ?case
    using Suc [of "a * 256"] by (simp only: be_bytes.simps eq)
qed simp

lemma be_bytes_be_num: "be_bytes (length bs) (be_num bs) = bs"
proof (induction bs)
  case (Cons b bs)
  have "(unat b * 256 ^ length bs + be_num bs) div 256 ^ length bs = unat b"
    using be_num_bound [of bs] by simp
  then show ?case using Cons by (simp add: be_bytes_add)
qed simp

text \<open>\<open>bytes.Compare\<close> on byte strings of the same length is the order of the numbers they spell.\<close>

fun byte_less :: "byte list \<Rightarrow> byte list \<Rightarrow> bool" where
  "byte_less (a # as) (b # bs) = (if a \<noteq> b then a < b else byte_less as bs)"
| "byte_less as bs = False"

lemma byte_less_be_num:
  "length as = length bs \<Longrightarrow> byte_less as bs \<longleftrightarrow> be_num as < be_num bs"
proof (induction as bs rule: byte_less.induct)
  case (1 a as b bs)
  let ?p = "256 ^ length bs :: nat"
  have la: "be_num as < ?p" and lb: "be_num bs < ?p"
    using be_num_bound [of as] be_num_bound [of bs] 1 by simp_all
  have step: "x * ?p + m < y * ?p + n" if "x < y" "m < ?p" for x y m n
  proof -
    from that have "Suc x * ?p \<le> y * ?p" by (intro mult_le_mono1) simp
    with that show ?thesis by simp
  qed
  consider "a = b" | "unat a < unat b" "a \<noteq> b" | "unat b < unat a" "a \<noteq> b"
    by (metis linorder_neqE_nat word_unat_eq_iff)
  then show ?case
  proof cases
    case 2
    then show ?thesis using step [OF 2(1) la] 1(2) by (simp add: word_less_nat_alt)
  next
    case 3
    then show ?thesis using step [OF 3(1) lb, of "be_num as"] 1(2)
      by (simp add: word_less_nat_alt)
  qed (use 1 in simp)
qed auto

subsection \<open>Interfaces\<close>

text \<open>An encoder and a decoder; the law makes the encoding injective on the accepted values.\<close>

locale codec =
  fixes enc :: "'a \<Rightarrow> 'b" and dec :: "'b \<Rightarrow> 'e + 'a" and ok :: "'a \<Rightarrow> bool"
  assumes dec_enc: "ok a \<Longrightarrow> dec (enc a) = Inr a"
begin

lemma enc_inj: "ok a \<Longrightarrow> ok b \<Longrightarrow> enc a = enc b \<Longrightarrow> a = b"
  by (metis dec_enc sum.inject(2))

lemma dec_error_not_enc: "dec x = Inl e \<Longrightarrow> ok a \<Longrightarrow> x \<noteq> enc a"
  by (auto simp: dec_enc)

end

text \<open>
  A machine that consumes bytes and emits output and replies: feeding a chunk is feeding
  its bytes one after the other, so the result does not depend on how the input is cut.
\<close>

locale byte_machine =
  fixes run :: "'s \<Rightarrow> 'b list \<Rightarrow> 's \<times> 'o list \<times> 'r list"
  assumes run_nil: "run s [] = (s, [], [])"
    and run_cons: "run s (b # bs) =
      (let (s1, o1, r1) = run s [b]; (s2, o2, r2) = run s1 bs in (s2, o1 @ o2, r1 @ r2))"
begin

lemma run_append:
  "run s (xs @ ys) =
    (let (s1, o1, r1) = run s xs; (s2, o2, r2) = run s1 ys in (s2, o1 @ o2, r1 @ r2))"
proof (induction xs arbitrary: s)
  case Nil
  then show ?case by (simp add: run_nil split: prod.splits)
next
  case (Cons b xs)
  show ?case
    unfolding append_Cons
    by (subst (1 2) run_cons) (simp add: Cons split: prod.splits)
qed

lemma run_chunks:
  "run s (concat xss) =
    fold (\<lambda>xs (s, os, rs). let (s', o', r') = run s xs in (s', os @ o', rs @ r')) xss (s, [], [])"
proof -
  have "(let (s1, o1, r1) = run s (concat xss) in (s1, os @ o1, rs @ r1)) =
    fold (\<lambda>xs (s, os, rs). let (s', o', r') = run s xs in (s', os @ o', rs @ r')) xss (s, os, rs)"
    for os rs
  proof (induction xss arbitrary: s os rs)
    case Nil
    then show ?case by (simp add: run_nil)
  next
    case (Cons xs xss)
    obtain s1 o1 r1 where r: "run s xs = (s1, o1, r1)" by (metis prod_cases3)
    show ?case
      using Cons [of s1 "os @ o1" "rs @ r1"] by (simp add: run_append r split: prod.splits)
  qed
  from this [of "[]" "[]"] show ?thesis by (simp split: prod.splits)
qed

lemma out_length:
  assumes one: "\<And>s b. length (fst (snd (run s [b]))) \<le> 1"
  shows "length (fst (snd (run s bs))) \<le> length bs"
proof (induction bs arbitrary: s)
  case Nil
  then show ?case by (simp add: run_nil)
next
  case (Cons b bs)
  obtain s1 o1 r1 where r: "run s [b] = (s1, o1, r1)" by (metis prod_cases3)
  obtain s2 o2 r2 where r2: "run s1 bs = (s2, o2, r2)" by (metis prod_cases3)
  have "length o1 \<le> 1" using one [of s b] r by simp
  moreover have "length o2 \<le> length bs" using Cons [of s1] r2 by simp
  ultimately show ?case by (subst run_cons) (simp add: r r2)
qed

end

text \<open>A step relation with an invariant, and the states it reaches.\<close>

inductive reach :: "('s \<Rightarrow> bool) \<Rightarrow> ('s \<Rightarrow> 's \<Rightarrow> bool) \<Rightarrow> 's \<Rightarrow> bool"
  for init step where
  reach_init: "init s \<Longrightarrow> reach init step s"
| reach_step: "reach init step s \<Longrightarrow> step s t \<Longrightarrow> reach init step t"

locale invariant_system =
  fixes init :: "'s \<Rightarrow> bool" and step :: "'s \<Rightarrow> 's \<Rightarrow> bool" and inv :: "'s \<Rightarrow> bool"
  assumes inv_init: "init s \<Longrightarrow> inv s"
    and inv_step: "inv s \<Longrightarrow> step s t \<Longrightarrow> inv t"
begin

lemma reach_inv: "reach init step s \<Longrightarrow> inv s"
  by (induction rule: reach.induct) (auto intro: inv_init inv_step)

end

end
