(* ===== verification/Ident.thy ===== *)
theory Ident
  imports Prelude
begin

text \<open>
  \<open>internal/domain/types.go\<close>, the identifiers: a 128-bit value with its 16 bytes, most
  significant first; generation (version and variant bits), parsing and printing as a
  hyphenated UUID, and the byte order used to break ties.
\<close>

type_synonym ID = "128 word"

definition NilID :: ID where
  "NilID = 0"

text \<open>The 16 bytes of an identifier and back.\<close>

definition id_bytes :: "ID \<Rightarrow> byte list" where
  "id_bytes i = be_bytes 16 (unat i)"

definition id_of_bytes :: "byte list \<Rightarrow> ID" where
  "id_of_bytes b = of_nat (be_num b)"

lemma length_id_bytes [simp]: "length (id_bytes i) = 16"
  by (simp add: id_bytes_def)

lemma be_num_id_bytes [simp]: "be_num (id_bytes i) = unat i"
proof -
  have "unat i < 2 ^ 128" using unsigned_less [of i] by simp
  then show ?thesis by (simp add: id_bytes_def be_num_be_bytes)
qed

lemma id_of_bytes_id_bytes [simp]: "id_of_bytes (id_bytes i) = i"
  by (simp add: id_of_bytes_def)

lemma id_bytes_id_of_bytes: "length b = 16 \<Longrightarrow> id_bytes (id_of_bytes b) = b"
proof -
  assume l: "length b = 16"
  have "be_num b < 256 ^ 16" using be_num_bound [of b] l by simp
  then have "unat (id_of_bytes b) = be_num b"
    by (simp add: id_of_bytes_def unat_of_nat)
  then show ?thesis using be_bytes_be_num [of b] l by (simp add: id_bytes_def)
qed

text \<open>\<open>NewID\<close>: \<open>rnd\<close> is what \<open>rand.Read\<close> put in the array.\<close>

unbundle bit_operations_syntax

definition NewID :: "ID \<Rightarrow> ID" where
  "NewID rnd = (let b = id_bytes rnd;
     b1 = b[6 := (b ! 6 AND 0x0f) OR 0x40];
     b2 = b1[8 := (b1 ! 8 AND 0x3f) OR 0x80]
   in id_of_bytes b2)"

text \<open>Comparison of the byte arrays (\<open>bytes.Compare(a, b) < 0\<close> in \<open>walkFrom\<close>).\<close>

definition id_less :: "ID \<Rightarrow> ID \<Rightarrow> bool" where
  "id_less a b = byte_less (id_bytes a) (id_bytes b)"

lemma id_less_iff: "id_less a b \<longleftrightarrow> a < b"
  by (simp add: id_less_def byte_less_be_num word_less_nat_alt)

subsection \<open>Printing and parsing\<close>

definition hex_digit :: "nat \<Rightarrow> char" where
  "hex_digit n = (if n < 10 then char_of (48 + n) else char_of (87 + n))"

text \<open>\<open>encoding/hex\<close>: both cases are read, lower case is written.\<close>

definition hex_val :: "char \<Rightarrow> nat option" where
  "hex_val c = (let n = ord8 c in
     if 48 \<le> n \<and> n \<le> 57 then Some (n - 48)
     else if 97 \<le> n \<and> n \<le> 102 then Some (n - 87)
     else if 65 \<le> n \<and> n \<le> 70 then Some (n - 55)
     else None)"

fun hex_encode :: "byte list \<Rightarrow> string" where
  "hex_encode [] = []"
| "hex_encode (b # bs) =
     hex_digit (unat b div 16) # hex_digit (unat b mod 16) # hex_encode bs"

fun hex_decode :: "string \<Rightarrow> byte list option" where
  "hex_decode [] = Some []"
| "hex_decode [c] = None"
| "hex_decode (c # d # s) =
     (case (hex_val c, hex_val d, hex_decode s) of
        (Some h, Some l, Some bs) \<Rightarrow> Some (of_nat (16 * h + l) # bs)
      | _ \<Rightarrow> None)"

definition id_String :: "ID \<Rightarrow> string" where
  "id_String i = (let b = id_bytes i in
     hex_encode (take 4 b) @ ''-'' @ hex_encode (take 2 (drop 4 b)) @ ''-'' @
     hex_encode (take 2 (drop 6 b)) @ ''-'' @ hex_encode (take 2 (drop 8 b)) @ ''-'' @
     hex_encode (drop 10 b))"

datatype id_error = EmptyIDString | InvalidIDLength string | InvalidIDHex string

definition ParseID :: "string \<Rightarrow> id_error + ID" where
  "ParseID s =
     (if s = '''' then Inl EmptyIDString
      else let clean = filter (\<lambda>c. c \<noteq> CHR ''-'') s in
        if length clean \<noteq> 32 then Inl (InvalidIDLength s)
        else case hex_decode clean of
            None \<Rightarrow> Inl (InvalidIDHex s)
          | Some b \<Rightarrow>
              if length b \<noteq> 16 then Inl (InvalidIDLength s) else Inr (id_of_bytes b))"

lemma hex_val_digit: "n < 16 \<Longrightarrow> hex_val (hex_digit n) = Some n"
  by (simp add: hex_val_def hex_digit_def ord8_def Let_def)

lemma hex_digit_no_hyphen: "n < 16 \<Longrightarrow> hex_digit n \<noteq> CHR ''-''"
proof
  assume "n < 16" and "hex_digit n = CHR ''-''"
  then have "hex_val CHR ''-'' = Some n" using hex_val_digit by metis
  then show False by (simp add: hex_val_def ord8_def)
qed

lemma hex_encode_append: "hex_encode (xs @ ys) = hex_encode xs @ hex_encode ys"
  by (induction xs) auto

lemma length_hex_encode: "length (hex_encode bs) = 2 * length bs"
  by (induction bs) auto

lemma hex_decode_encode: "hex_decode (hex_encode bs) = Some bs"
proof (induction bs)
  case (Cons b bs)
  have "unat b div 16 < 16" using unat_byte_lt [of b] by linarith
  then show ?case by (simp add: Cons hex_val_digit)
qed simp

lemma filter_hyphen_hex: "filter (\<lambda>c. c \<noteq> CHR ''-'') (hex_encode bs) = hex_encode bs"
proof (induction bs)
  case (Cons b bs)
  have "unat b div 16 < 16" using unat_byte_lt [of b] by linarith
  then show ?case by (simp add: Cons hex_digit_no_hyphen)
qed simp

lemma id_String_clean: "filter (\<lambda>c. c \<noteq> CHR ''-'') (id_String i) = hex_encode (id_bytes i)"
proof -
  let ?b = "id_bytes i"
  have "take 4 ?b @ take 2 (drop 4 ?b) @ take 2 (drop 6 ?b) @ take 2 (drop 8 ?b) @ drop 10 ?b = ?b"
    using append_take_drop_id [of 4 ?b] append_take_drop_id [of 2 "drop 4 ?b"]
      append_take_drop_id [of 2 "drop 6 ?b"] append_take_drop_id [of 2 "drop 8 ?b"]
    by (simp add: drop_drop del: append_take_drop_id)
  then show ?thesis
    by (simp add: id_String_def Let_def filter_hyphen_hex flip: hex_encode_append)
qed

lemma id_String_nonempty [simp]: "id_String i \<noteq> ''''"
  by (simp add: id_String_def Let_def)

lemma ParseID_String [simp]: "ParseID (id_String i) = Inr i"
  by (simp add: ParseID_def Let_def id_String_clean length_hex_encode hex_decode_encode)

interpretation id_codec: codec id_String ParseID "\<lambda>_. True"
  by unfold_locales simp

lemma id_String_inj: "id_String i = id_String j \<longleftrightarrow> i = j"
  using id_codec.enc_inj [OF TrueI TrueI] by blast

text \<open>\<open>MarshalJSON\<close> and \<open>UnmarshalJSON\<close> are these two behind the JSON string quotes.\<close>

lemma ParseID_length: "ParseID s = Inr i \<Longrightarrow> length (filter (\<lambda>c. c \<noteq> CHR ''-'') s) = 32"
  by (auto simp: ParseID_def Let_def split: if_splits)

end
