(* ===== verification/Nodes.thy ===== *)
theory Nodes
  imports Ident
begin

text \<open>
  \<open>internal/domain/types.go\<close> and \<open>sdk/credential/credential.go\<close>: the data of the domain
  model. A Go slice is a list (the source only takes its length and ranges over it, so nil
  and empty are one value); a Go map that the source compares with nil is an \<open>option\<close>.
  Port numbers are \<open>int\<close>: they are copied and compared, never computed with.
\<close>

subsection \<open>Values and references\<close>

text \<open>The dynamic values of a settings bag (\<open>map[string]any\<close>).\<close>

datatype anyval =
    AnyNil | AnyBool bool | AnyInt int | AnyString string
  | AnyList "anyval list" | AnyMap "(string \<times> anyval) list"

type_synonym settings = "(string, anyval) gomap option"
type_synonym hints = "(string, string) gomap option"

definition map_len :: "('k, 'v) gomap option \<Rightarrow> nat" where
  "map_len m = (case m of None \<Rightarrow> 0 | Some f \<Rightarrow> gomap_len f)"

lemma map_len_simps [simp]:
  "map_len None = 0" "map_len (Some fmempty) = 0" "map_len (Some (fmupd k v f)) \<noteq> 0"
  "map_len m = 0 \<longleftrightarrow> m = None \<or> m = Some fmempty"
proof -
  show "map_len None = 0" "map_len (Some fmempty) = 0" by (simp_all add: map_len_def)
  have "fmlookup (fmupd k v f) k \<noteq> fmlookup fmempty k" by simp
  then have "fmupd k v f \<noteq> fmempty" by metis
  then show "map_len (Some (fmupd k v f)) \<noteq> 0" by (simp add: map_len_def)
  show "map_len m = 0 \<longleftrightarrow> m = None \<or> m = Some fmempty"
    by (simp add: map_len_def split: option.splits)
qed

lemma fmupd_not_empty [simp]: "fmupd k v f \<noteq> fmempty" "fmempty \<noteq> fmupd k v f"
  using map_len_simps(3) [of k v f] by (auto simp: map_len_def)

type_synonym AuthMethod = string

definition AuthNone :: AuthMethod where "AuthNone = ''none''"
definition AuthPassword :: AuthMethod where "AuthPassword = ''password''"
definition AuthPublicKey :: AuthMethod where "AuthPublicKey = ''publickey''"
definition AuthAgent :: AuthMethod where "AuthAgent = ''agent''"

record Reference =
  ProviderID :: string
  EntryID :: string
  Hints :: hints

definition zero_ref :: Reference where
  "zero_ref = \<lparr>ProviderID = '''', EntryID = '''', Hints = None\<rparr>"

subsection \<open>Nodes\<close>

datatype Field =
    FieldProtocolID | FieldHost | FieldPort | FieldUsername | FieldAuthMethod
  | FieldCredentialRef | FieldSettings | FieldTags | FieldColor | FieldIcon
  | FieldEnvironment | FieldDescription

record InheritanceProfile =
  Explicit :: "Field \<rightharpoonup> bool"
  Inherit :: "Field \<rightharpoonup> bool"

definition zero_profile :: InheritanceProfile where
  "zero_profile = \<lparr>Explicit = Map.empty, Inherit = Map.empty\<rparr>"

record ConnectionNode =
  c_ID :: ID
  c_ParentID :: ID
  c_Name :: string
  c_ProtocolID :: string
  c_Host :: string
  c_Port :: int
  c_Username :: string
  c_AuthMethod :: AuthMethod
  c_CredentialRef :: Reference
  c_Settings :: settings
  c_Tags :: "string list"
  c_Color :: string
  c_Icon :: string
  c_Environment :: string
  c_Favorite :: bool
  c_Description :: string
  c_Inheritance :: InheritanceProfile
  c_CreatedAt :: time
  c_UpdatedAt :: time

record FolderDefaults =
  d_ProtocolID :: string
  d_Host :: string
  d_Port :: int
  d_Username :: string
  d_AuthMethod :: AuthMethod
  d_CredentialRef :: Reference
  d_Settings :: settings
  d_Tags :: "string list"
  d_Color :: string
  d_Icon :: string
  d_Environment :: string
  d_Description :: string

record FolderNode =
  f_ID :: ID
  f_ParentID :: ID
  f_Name :: string
  f_Description :: string
  f_Defaults :: FolderDefaults
  f_Tags :: "string list"
  f_Color :: string
  f_Icon :: string
  f_CreatedAt :: time
  f_UpdatedAt :: time

definition zero_conn :: ConnectionNode where
  "zero_conn = \<lparr>c_ID = NilID, c_ParentID = NilID, c_Name = '''', c_ProtocolID = '''',
     c_Host = '''', c_Port = 0, c_Username = '''', c_AuthMethod = '''',
     c_CredentialRef = zero_ref, c_Settings = None, c_Tags = [], c_Color = '''',
     c_Icon = '''', c_Environment = '''', c_Favorite = False, c_Description = '''',
     c_Inheritance = zero_profile, c_CreatedAt = 0, c_UpdatedAt = 0\<rparr>"

definition zero_defaults :: FolderDefaults where
  "zero_defaults = \<lparr>d_ProtocolID = '''', d_Host = '''', d_Port = 0, d_Username = '''',
     d_AuthMethod = '''', d_CredentialRef = zero_ref, d_Settings = None, d_Tags = [],
     d_Color = '''', d_Icon = '''', d_Environment = '''', d_Description = ''''\<rparr>"

definition zero_folder :: FolderNode where
  "zero_folder = \<lparr>f_ID = NilID, f_ParentID = NilID, f_Name = '''', f_Description = '''',
     f_Defaults = zero_defaults, f_Tags = [], f_Color = '''', f_Icon = '''',
     f_CreatedAt = 0, f_UpdatedAt = 0\<rparr>"

subsection \<open>Templates\<close>

record ConnectionTemplate =
  t_ID :: ID
  t_Name :: string
  t_Description :: string
  t_ProtocolID :: string
  t_Port :: int
  t_Username :: string
  t_AuthMethod :: AuthMethod
  t_Settings :: settings
  t_Tags :: "string list"
  t_Color :: string
  t_Icon :: string
  t_Environment :: string

text \<open>\<open>Apply\<close> fills the zero fields only; the settings are copied when the node has none.\<close>

definition Apply_node :: "ConnectionTemplate \<Rightarrow> ConnectionNode \<Rightarrow> ConnectionNode" where
  "Apply_node t n = n\<lparr>
     c_ProtocolID := (if c_ProtocolID n = '''' then t_ProtocolID t else c_ProtocolID n),
     c_Port := (if c_Port n = 0 then t_Port t else c_Port n),
     c_Username := (if c_Username n = '''' then t_Username t else c_Username n),
     c_AuthMethod := (if c_AuthMethod n = '''' then t_AuthMethod t else c_AuthMethod n),
     c_Settings := (if c_Settings n = None \<and> map_len (t_Settings t) > 0
                    then t_Settings t else c_Settings n),
     c_Tags := (if length (c_Tags n) = 0 \<and> length (t_Tags t) > 0
                then c_Tags n @ t_Tags t else c_Tags n),
     c_Color := (if c_Color n = '''' then t_Color t else c_Color n),
     c_Icon := (if c_Icon n = '''' then t_Icon t else c_Icon n),
     c_Environment := (if c_Environment n = '''' then t_Environment t else c_Environment n)\<rparr>"

definition Apply :: "ConnectionTemplate \<Rightarrow> ConnectionNode option \<Rightarrow> ConnectionNode option" where
  "Apply t n = (case n of None \<Rightarrow> None | Some n \<Rightarrow> Some (Apply_node t n))"

lemma Apply_node_idem: "Apply_node t (Apply_node t n) = Apply_node t n"
  by (simp add: Apply_node_def)

lemma Apply_node_keeps:
  "c_ID (Apply_node t n) = c_ID n" "c_ParentID (Apply_node t n) = c_ParentID n"
  "c_Name (Apply_node t n) = c_Name n" "c_Host (Apply_node t n) = c_Host n"
  "c_CredentialRef (Apply_node t n) = c_CredentialRef n"
  "c_Inheritance (Apply_node t n) = c_Inheritance n"
  "c_Favorite (Apply_node t n) = c_Favorite n"
  "c_Description (Apply_node t n) = c_Description n"
  by (simp_all add: Apply_node_def)

subsection \<open>Workspace\<close>

record OpenTab =
  tab_ConnectionID :: ID
  tab_Label :: string
  tab_Color :: string

record WindowBounds =
  b_X :: int
  b_Y :: int
  b_Width :: int
  b_Height :: int

record WorkspaceLayout =
  w_Bounds :: WindowBounds
  w_DockLayoutJSON :: string
  w_OpenTabs :: "OpenTab list"
  w_FocusedTab :: ID

definition zero_workspace :: WorkspaceLayout where
  "zero_workspace = \<lparr>w_Bounds = \<lparr>b_X = 0, b_Y = 0, b_Width = 0, b_Height = 0\<rparr>,
     w_DockLayoutJSON = '''', w_OpenTabs = [], w_FocusedTab = NilID\<rparr>"

end
