(* ===== verification/NodeTree.thy ===== *)
theory NodeTree
  imports Nodes
begin

text \<open>
  \<open>internal/domain/tree.go\<close>: the tree of folders and connections, with its two node maps
  and its two child indexes, and every operation on it. Operations that check everything
  before they write return an error or the new tree; \<open>Remove\<close> can stop half way and
  returns the tree it leaves with the error. A loop that follows parent links is bounded by
  the number of folders: \<open>None\<close> (\<open>WLoop\<close> in a walk) says that the loop of the
  source does not return, which only happens on a cyclic parent relation.
\<close>

record Tree =
  folders :: "(ID, FolderNode) gomap"
  connections :: "(ID, ConnectionNode) gomap"
  folderChildren :: "ID \<Rightarrow> ID list"
  connectionChildren :: "ID \<Rightarrow> ID list"

definition NewTree :: Tree where
  "NewTree = \<lparr>folders = fmempty, connections = fmempty,
     folderChildren = (\<lambda>_. []), connectionChildren = (\<lambda>_. [])\<rparr>"

abbreviation folder_at :: "Tree \<Rightarrow> ID \<Rightarrow> FolderNode option" where
  "folder_at t \<equiv> fmlookup (folders t)"

abbreviation conn_at :: "Tree \<Rightarrow> ID \<Rightarrow> ConnectionNode option" where
  "conn_at t \<equiv> fmlookup (connections t)"

subsection \<open>Errors\<close>

text \<open>One constructor per error the source builds; \<open>sentinel_of\<close> is what \<open>errors.Is\<close> sees.\<close>

datatype sentinel = ErrNotFound | ErrCycle | ErrParentNotFolder | ErrDuplicateID

datatype tree_error =
    NilFolder | FolderIDRequired | DuplicateFolder ID | FolderIDIsConnection ID
  | FolderParentMissing ID
  | NilConnection | ConnectionIDRequired | DuplicateConnection ID | ConnectionIDIsFolder ID
  | ConnectionParentMissing ID
  | CannotMoveRoot | MoveParentMissing ID | MoveCycle | CannotRemoveRoot
  | NodeMissing ID | FolderMissing ID | ConnectionMissing ID | AncestorMissing ID

fun sentinel_of :: "tree_error \<Rightarrow> sentinel option" where
  "sentinel_of (DuplicateFolder _) = Some ErrDuplicateID"
| "sentinel_of (FolderIDIsConnection _) = Some ErrDuplicateID"
| "sentinel_of (FolderParentMissing _) = Some ErrNotFound"
| "sentinel_of (DuplicateConnection _) = Some ErrDuplicateID"
| "sentinel_of (ConnectionIDIsFolder _) = Some ErrDuplicateID"
| "sentinel_of (ConnectionParentMissing _) = Some ErrParentNotFolder"
| "sentinel_of CannotMoveRoot = Some ErrNotFound"
| "sentinel_of (MoveParentMissing _) = Some ErrParentNotFolder"
| "sentinel_of MoveCycle = Some ErrCycle"
| "sentinel_of CannotRemoveRoot = Some ErrNotFound"
| "sentinel_of (NodeMissing _) = Some ErrNotFound"
| "sentinel_of (FolderMissing _) = Some ErrNotFound"
| "sentinel_of (ConnectionMissing _) = Some ErrNotFound"
| "sentinel_of (AncestorMissing _) = Some ErrNotFound"
| "sentinel_of _ = None"

subsection \<open>Insertion\<close>

definition append_child :: "ID \<Rightarrow> ID \<Rightarrow> (ID \<Rightarrow> ID list) \<Rightarrow> (ID \<Rightarrow> ID list)" where
  "append_child p i m = m(p := m p @ [i])"

fun removeID :: "ID list \<Rightarrow> ID \<Rightarrow> ID list" where
  "removeID [] i = []"
| "removeID (x # xs) i = (if x = i then xs else x # removeID xs i)"

definition drop_child :: "ID \<Rightarrow> ID \<Rightarrow> (ID \<Rightarrow> ID list) \<Rightarrow> (ID \<Rightarrow> ID list)" where
  "drop_child p i m = m(p := removeID (m p) i)"

definition AddFolder :: "FolderNode option \<Rightarrow> Tree \<Rightarrow> tree_error + Tree" where
  "AddFolder fo t = (case fo of None \<Rightarrow> Inl NilFolder | Some f \<Rightarrow>
     if f_ID f = NilID then Inl FolderIDRequired
     else if folder_at t (f_ID f) \<noteq> None then Inl (DuplicateFolder (f_ID f))
     else if conn_at t (f_ID f) \<noteq> None then Inl (FolderIDIsConnection (f_ID f))
     else if f_ParentID f \<noteq> NilID \<and> folder_at t (f_ParentID f) = None
     then Inl (FolderParentMissing (f_ParentID f))
     else Inr (t\<lparr>folders := fmupd (f_ID f) f (folders t),
                folderChildren := append_child (f_ParentID f) (f_ID f) (folderChildren t)\<rparr>))"

definition AddConnection :: "ConnectionNode option \<Rightarrow> Tree \<Rightarrow> tree_error + Tree" where
  "AddConnection co t = (case co of None \<Rightarrow> Inl NilConnection | Some c \<Rightarrow>
     if c_ID c = NilID then Inl ConnectionIDRequired
     else if conn_at t (c_ID c) \<noteq> None then Inl (DuplicateConnection (c_ID c))
     else if folder_at t (c_ID c) \<noteq> None then Inl (ConnectionIDIsFolder (c_ID c))
     else if c_ParentID c \<noteq> NilID \<and> folder_at t (c_ParentID c) = None
     then Inl (ConnectionParentMissing (c_ParentID c))
     else Inr (t\<lparr>connections := fmupd (c_ID c) c (connections t),
                connectionChildren :=
                  append_child (c_ParentID c) (c_ID c) (connectionChildren t)\<rparr>))"

subsection \<open>Parent chains\<close>

text \<open>
  The loops that follow parent links visit a folder at most once unless the links form a
  cycle, so \<open>tree_fuel\<close> iterations decide whether they return.
\<close>

definition tree_fuel :: "Tree \<Rightarrow> nat" where
  "tree_fuel t = gomap_len (folders t) + 2"

fun descendant_loop :: "nat \<Rightarrow> Tree \<Rightarrow> ID \<Rightarrow> ID \<Rightarrow> bool option" where
  "descendant_loop 0 t ancestor cur = None"
| "descendant_loop (Suc n) t ancestor cur =
     (if cur = NilID then Some False
      else if cur = ancestor then Some True
      else case folder_at t cur of
          None \<Rightarrow> Some False
        | Some f \<Rightarrow> descendant_loop n t ancestor (f_ParentID f))"

definition isDescendantFolder :: "Tree \<Rightarrow> ID \<Rightarrow> ID \<Rightarrow> bool option" where
  "isDescendantFolder t maybeChild ancestor =
     (if maybeChild = NilID \<or> ancestor = NilID then Some False
      else descendant_loop (tree_fuel t) t ancestor maybeChild)"

definition Move :: "ID \<Rightarrow> ID \<Rightarrow> Tree \<Rightarrow> (tree_error + Tree) option" where
  "Move i newParent t =
     (if i = NilID then Some (Inl CannotMoveRoot)
      else if newParent \<noteq> NilID \<and> folder_at t newParent = None
      then Some (Inl (MoveParentMissing newParent))
      else case folder_at t i of
        Some f \<Rightarrow>
          if newParent = i then Some (Inl MoveCycle)
          else (case isDescendantFolder t newParent i of
              None \<Rightarrow> None
            | Some True \<Rightarrow> Some (Inl MoveCycle)
            | Some False \<Rightarrow> Some (Inr
                (t\<lparr>folderChildren := append_child newParent i
                      (drop_child (f_ParentID f) i (folderChildren t)),
                   folders := fmupd i (f\<lparr>f_ParentID := newParent\<rparr>) (folders t)\<rparr>)))
      | None \<Rightarrow> (case conn_at t i of
          Some c \<Rightarrow> Some (Inr
            (t\<lparr>connectionChildren := append_child newParent i
                  (drop_child (c_ParentID c) i (connectionChildren t)),
               connections := fmupd i (c\<lparr>c_ParentID := newParent\<rparr>) (connections t)\<rparr>))
        | None \<Rightarrow> Some (Inl (NodeMissing i))))"

subsection \<open>Removal\<close>

type_synonym removal = "(tree_error option \<times> Tree) option"

fun remove_node :: "nat \<Rightarrow> ID \<Rightarrow> Tree \<Rightarrow> removal"
  and remove_subs :: "nat \<Rightarrow> ID list \<Rightarrow> Tree \<Rightarrow> removal" where
  "remove_node 0 i t = None"
| "remove_node (Suc n) i t =
     (if i = NilID then Some (Some CannotRemoveRoot, t)
      else case folder_at t i of
        Some f \<Rightarrow>
          (let t1 = t\<lparr>connections := fold fmdrop (connectionChildren t i) (connections t),
                      connectionChildren := (connectionChildren t)(i := [])\<rparr>
           in case remove_subs n (folderChildren t1 i) t1 of
                None \<Rightarrow> None
              | Some (Some e, t2) \<Rightarrow> Some (Some e, t2)
              | Some (None, t2) \<Rightarrow>
                  Some (None, t2\<lparr>folderChildren :=
                       drop_child (f_ParentID f) i ((folderChildren t2)(i := [])),
                     folders := fmdrop i (folders t2)\<rparr>))
      | None \<Rightarrow> (case conn_at t i of
          Some c \<Rightarrow>
            Some (None, t\<lparr>connectionChildren :=
                (if c_ParentID c \<noteq> NilID
                 then drop_child (c_ParentID c) i (connectionChildren t)
                 else connectionChildren t),
              connections := fmdrop i (connections t)\<rparr>)
        | None \<Rightarrow> Some (Some (NodeMissing i), t)))"
| "remove_subs n [] t = Some (None, t)"
| "remove_subs n (s # ss) t =
     (case remove_node n s t of
        Some (None, t') \<Rightarrow> remove_subs n ss t'
      | r \<Rightarrow> r)"

definition Remove :: "ID \<Rightarrow> Tree \<Rightarrow> removal" where
  "Remove i t = remove_node (tree_fuel t) i t"

subsection \<open>Lookup\<close>

text \<open>A value of the interface \<open>Node\<close>; the last two are the typed nil pointers.\<close>

datatype node = NFolder FolderNode | NConn ConnectionNode | NNilFolder | NNilConn

datatype node_kind = NodeKindFolder | NodeKindConnection

text \<open>\<open>NodeID\<close>, \<open>NodeParent\<close> dereference their receiver: \<open>None\<close> is the panic.\<close>

fun NodeID :: "node \<Rightarrow> ID option" where
  "NodeID (NFolder f) = Some (f_ID f)"
| "NodeID (NConn c) = Some (c_ID c)"
| "NodeID _ = None"

fun NodeParent :: "node \<Rightarrow> ID option" where
  "NodeParent (NFolder f) = Some (f_ParentID f)"
| "NodeParent (NConn c) = Some (c_ParentID c)"
| "NodeParent _ = None"

fun NodeKind :: "node \<Rightarrow> node_kind" where
  "NodeKind (NFolder f) = NodeKindFolder"
| "NodeKind NNilFolder = NodeKindFolder"
| "NodeKind (NConn c) = NodeKindConnection"
| "NodeKind NNilConn = NodeKindConnection"

definition FindByID :: "ID \<Rightarrow> Tree \<Rightarrow> tree_error + node" where
  "FindByID i t = (case folder_at t i of Some f \<Rightarrow> Inr (NFolder f)
     | None \<Rightarrow> (case conn_at t i of Some c \<Rightarrow> Inr (NConn c)
                | None \<Rightarrow> Inl (NodeMissing i)))"

definition Folder :: "ID \<Rightarrow> Tree \<Rightarrow> tree_error + FolderNode" where
  "Folder i t = (case folder_at t i of Some f \<Rightarrow> Inr f | None \<Rightarrow> Inl (FolderMissing i))"

definition Connection :: "ID \<Rightarrow> Tree \<Rightarrow> tree_error + ConnectionNode" where
  "Connection i t = (case conn_at t i of Some c \<Rightarrow> Inr c | None \<Rightarrow> Inl (ConnectionMissing i))"

definition ReverseFolders :: "FolderNode list \<Rightarrow> FolderNode list" where
  "ReverseFolders fs = rev fs"

fun ancestors_loop :: "nat \<Rightarrow> Tree \<Rightarrow> ID \<Rightarrow> FolderNode list \<Rightarrow>
    (tree_error + FolderNode list) option" where
  "ancestors_loop 0 t parent acc = None"
| "ancestors_loop (Suc n) t parent acc =
     (if parent = NilID then Some (Inr (ReverseFolders acc))
      else case folder_at t parent of
          None \<Rightarrow> Some (Inl (AncestorMissing parent))
        | Some f \<Rightarrow> ancestors_loop n t (f_ParentID f) (acc @ [f]))"

definition Ancestors :: "ID \<Rightarrow> Tree \<Rightarrow> (tree_error + FolderNode list) option" where
  "Ancestors i t =
     (case folder_at t i of
        Some f \<Rightarrow> ancestors_loop (tree_fuel t) t (f_ParentID f) []
      | None \<Rightarrow> (case conn_at t i of
          Some c \<Rightarrow> ancestors_loop (tree_fuel t) t (c_ParentID c) []
        | None \<Rightarrow> Some (Inl (NodeMissing i))))"

subsection \<open>Walking\<close>

text \<open>
  A visitor may stop the walk with an error, may panic, and may change the tree it is
  walking (\<open>DuplicateNode\<close> does): its state \<open>'s\<close> is threaded through and \<open>g\<close>
  reads the tree out of it. \<open>sort.Slice\<close> with two or more IDs dereferences every one of
  them: it panics when one has no node.
\<close>

datatype ('e, 's) walk_result = WDone 's | WStop 'e 's | WPanic 's | WLoop

type_synonym ('e, 's) visitor = "node \<Rightarrow> 's \<Rightarrow> ('e, 's) walk_result"

definition sort_ids :: "(ID \<Rightarrow> (string \<times> ID) option) \<Rightarrow> ID list \<Rightarrow> ID list option" where
  "sort_ids key ids =
     (if length ids < 2 then Some ids
      else if list_all (\<lambda>i. key i \<noteq> None) ids then Some (sort_key (\<lambda>i. the (key i)) ids)
      else None)"

definition folder_key :: "Tree \<Rightarrow> ID \<Rightarrow> (string \<times> ID) option" where
  "folder_key t i = map_option (\<lambda>f. (f_Name f, f_ID f)) (folder_at t i)"

definition conn_key :: "Tree \<Rightarrow> ID \<Rightarrow> (string \<times> ID) option" where
  "conn_key t i = map_option (\<lambda>c. (c_Name c, c_ID c)) (conn_at t i)"

definition folder_node :: "Tree \<Rightarrow> ID \<Rightarrow> node" where
  "folder_node t i = (case folder_at t i of None \<Rightarrow> NNilFolder | Some f \<Rightarrow> NFolder f)"

definition conn_node :: "Tree \<Rightarrow> ID \<Rightarrow> node" where
  "conn_node t i = (case conn_at t i of None \<Rightarrow> NNilConn | Some c \<Rightarrow> NConn c)"

fun walk_conns :: "('s \<Rightarrow> Tree) \<Rightarrow> ('e, 's) visitor \<Rightarrow> ID list \<Rightarrow> 's \<Rightarrow> ('e, 's) walk_result" where
  "walk_conns g v [] s = WDone s"
| "walk_conns g v (c # cs) s =
     (case v (conn_node (g s) c) s of WDone s' \<Rightarrow> walk_conns g v cs s' | r \<Rightarrow> r)"

fun walkFrom :: "nat \<Rightarrow> ('s \<Rightarrow> Tree) \<Rightarrow> ('e, 's) visitor \<Rightarrow> ID \<Rightarrow> 's \<Rightarrow> ('e, 's) walk_result"
  and walk_folders :: "nat \<Rightarrow> ('s \<Rightarrow> Tree) \<Rightarrow> ('e, 's) visitor \<Rightarrow> ID list \<Rightarrow> 's \<Rightarrow>
    ('e, 's) walk_result" where
  "walkFrom 0 g v parent s = WLoop"
| "walkFrom (Suc n) g v parent s =
     (case sort_ids (folder_key (g s)) (folderChildren (g s) parent) of
        None \<Rightarrow> WPanic s
      | Some folderIDs \<Rightarrow>
          (case walk_folders n g v folderIDs s of
             WDone s1 \<Rightarrow>
               (case sort_ids (conn_key (g s1)) (connectionChildren (g s1) parent) of
                  None \<Rightarrow> WPanic s1
                | Some connIDs \<Rightarrow> walk_conns g v connIDs s1)
           | r \<Rightarrow> r))"
| "walk_folders n g v [] s = WDone s"
| "walk_folders n g v (fid # fids) s =
     (case v (folder_node (g s) fid) s of
        WDone s1 \<Rightarrow>
          (case walkFrom n g v fid s1 of
             WDone s2 \<Rightarrow> walk_folders n g v fids s2
           | r \<Rightarrow> r)
      | r \<Rightarrow> r)"

definition Walk :: "('s \<Rightarrow> Tree) \<Rightarrow> ('e, 's) visitor \<Rightarrow> 's \<Rightarrow> ('e, 's) walk_result" where
  "Walk g v s = walkFrom (tree_fuel (g s)) g v NilID s"

end
