(* ===== verification/TreeInv.thy ===== *)
theory TreeInv
  imports NodeTree
begin

text \<open>
  The well-formedness invariant of the tree and the proof that the operations keep it:
  both maps are keyed by the nodes' own IDs, no ID names a folder and a connection, every
  parent chain ends at the root, and each child index lists exactly the children, once.
  \<open>Remove\<close> of a folder is shown to cut exactly its subtree.
\<close>

subsection \<open>Parent chains\<close>

type_synonym fmapF = "(ID, FolderNode) gomap"

inductive rooted :: "fmapF \<Rightarrow> nat \<Rightarrow> ID \<Rightarrow> bool" for F where
  rooted_nil: "rooted F 0 NilID"
| rooted_folder: "fmlookup F i = Some f \<Longrightarrow> i \<noteq> NilID \<Longrightarrow> rooted F d (f_ParentID f) \<Longrightarrow>
    rooted F (Suc d) i"

inductive_cases rooted_zeroE: "rooted F 0 i"
inductive_cases rooted_SucE: "rooted F (Suc d) i"
inductive_simps rooted_Nil_simp: "rooted F d NilID"

inductive under :: "fmapF \<Rightarrow> ID \<Rightarrow> ID \<Rightarrow> bool" for F a where
  under_refl: "under F a a"
| under_step: "fmlookup F i = Some f \<Longrightarrow> i \<noteq> NilID \<Longrightarrow> under F a (f_ParentID f) \<Longrightarrow> under F a i"

declare under_refl [simp]

lemma under_unfold:
  "under F a i \<longleftrightarrow> i = a \<or> (\<exists>f. fmlookup F i = Some f \<and> i \<noteq> NilID \<and> under F a (f_ParentID f))"
  by (subst under.simps) auto

lemma under_Nil [simp]: "under F a NilID \<longleftrightarrow> a = NilID"
  by (subst under_unfold) auto

lemma under_parent:
  "under F a i \<Longrightarrow> i \<noteq> a \<Longrightarrow> fmlookup F i = Some f \<Longrightarrow> under F a (f_ParentID f)"
  by (subst (asm) under_unfold) auto

lemma under_trans: "under F b i \<Longrightarrow> under F a b \<Longrightarrow> under F a i"
  by (induction rule: under.induct) (auto intro: under_step)

lemma under_linear: "under F a i \<Longrightarrow> under F b i \<Longrightarrow> under F a b \<or> under F b a"
proof (induction rule: under.induct)
  case (under_step i f)
  then show ?case using under_parent [of F b i f] under.under_step [of F i f a] by auto
qed simp

lemma rooted_unique: "rooted F d i \<Longrightarrow> rooted F e i \<Longrightarrow> d = e"
proof (induction arbitrary: e rule: rooted.induct)
  case rooted_nil
  then show ?case by (auto simp: rooted_Nil_simp)
next
  case (rooted_folder i f d)
  from rooted_folder.prems rooted_folder.hyps show ?case
    by (cases rule: rooted.cases) (auto dest: rooted_folder.IH)
qed

lemma under_depth: "under F a i \<Longrightarrow> rooted F d i \<Longrightarrow> \<exists>e. rooted F e a \<and> (e < d \<or> a = i)"
proof (induction arbitrary: d rule: under.induct)
  case (under_step i f)
  from under_step.prems under_step.hyps(1,2) obtain d' where "d = Suc d'" "rooted F d' (f_ParentID f)"
    by (auto elim: rooted.cases)
  with under_step.IH show ?case using less_Suc_eq by blast
qed auto

lemma under_same_depth: "under F a i \<Longrightarrow> rooted F d i \<Longrightarrow> rooted F d a \<Longrightarrow> a = i"
  using under_depth rooted_unique by blast

lemma under_siblings:
  assumes "under F a i" "under F b i" "rooted F d a" "rooted F d b"
  shows "a = b"
  using under_linear [OF assms(1,2)] under_same_depth assms(3,4) by blast

lemma under_Nil_root: "rooted F d i \<Longrightarrow> under F NilID i"
  by (induction rule: rooted.induct) (auto intro: under_step)

lemma under_known: "under F a i \<Longrightarrow> a \<noteq> i \<Longrightarrow> \<exists>f. fmlookup F i = Some f"
  by (erule under.cases) auto

text \<open>A chain has distinct folders, so its length is bounded by their number.\<close>

lemma rooted_chain:
  "rooted F d i \<Longrightarrow> \<exists>S. finite S \<and> card S = d \<and> S \<subseteq> fset (fmdom F) \<and> (\<forall>s \<in> S. \<exists>e \<le> d. rooted F e s)"
proof (induction rule: rooted.induct)
  case rooted_nil
  show ?case by (intro exI [of _ "{}"]) simp
next
  case (rooted_folder i f d)
  then obtain S where S: "finite S" "card S = d" "S \<subseteq> fset (fmdom F)"
    "\<forall>s \<in> S. \<exists>e \<le> d. rooted F e s" by blast
  have r: "rooted F (Suc d) i"
    using rooted_folder.hyps by (rule rooted.rooted_folder)
  have "i \<notin> S"
  proof
    assume "i \<in> S"
    with S(4) obtain e where "e \<le> d" "rooted F e i" by blast
    with r rooted_unique show False by fastforce
  qed
  moreover have "i \<in> fset (fmdom F)" using rooted_folder.hyps(1) by (simp add: fmlookup_in_dom)
  moreover have "\<forall>s \<in> insert i S. \<exists>e \<le> Suc d. rooted F e s"
    using S(4) r le_SucI by blast
  ultimately show ?case using S(1-3) by (intro exI [of _ "insert i S"]) simp
qed

lemma rooted_bound: "rooted F d i \<Longrightarrow> d \<le> gomap_len F"
proof -
  assume "rooted F d i"
  from rooted_chain [OF this] obtain S where "card S = d" "S \<subseteq> fset (fmdom F)" by blast
  moreover from this(2) have "card S \<le> card (fset (fmdom F))"
    by (rule card_mono [rotated]) simp
  ultimately show ?thesis by (simp add: gomap_len_def fcard.rep_eq)
qed

subsection \<open>The invariant\<close>

definition folders_ok :: "Tree \<Rightarrow> bool" where
  "folders_ok t \<longleftrightarrow> (\<forall>i f. folder_at t i = Some f \<longrightarrow>
     f_ID f = i \<and> i \<noteq> NilID \<and> (\<exists>d. rooted (folders t) d i))"

definition conns_ok :: "Tree \<Rightarrow> bool" where
  "conns_ok t \<longleftrightarrow> (\<forall>i c. conn_at t i = Some c \<longrightarrow>
     c_ID c = i \<and> i \<noteq> NilID \<and> folder_at t i = None \<and>
     (c_ParentID c = NilID \<or> folder_at t (c_ParentID c) \<noteq> None))"

text \<open>A child index \<open>m\<close> of the nodes in \<open>L\<close>: every parent's list holds its children, once.\<close>

definition child_index :: "(ID \<Rightarrow> 'a option) \<Rightarrow> ('a \<Rightarrow> ID) \<Rightarrow> (ID \<Rightarrow> ID list) \<Rightarrow> bool" where
  "child_index L par m \<longleftrightarrow> (\<forall>p. distinct (m p) \<and> set (m p) = {i. \<exists>x. L i = Some x \<and> par x = p})"

lemma removeID_filter: "distinct xs \<Longrightarrow> removeID xs i = filter (\<lambda>x. x \<noteq> i) xs"
proof (induction xs)
  case (Cons x xs)
  have "filter (\<lambda>y. y \<noteq> i) xs = xs" if "i \<notin> set xs"
    using that by (auto simp: filter_id_conv)
  then show ?case using Cons by auto
qed simp

lemma child_index_add:
  assumes "child_index L par m" "L i = None"
  shows "child_index (L(i \<mapsto> x)) par (append_child (par x) i m)"
proof -
  have "i \<notin> set (m p)" for p using assms by (auto simp: child_index_def)
  then show ?thesis using assms by (auto simp: child_index_def append_child_def)
qed

lemma child_index_drop:
  assumes "child_index L par m" "L i = Some x"
  shows "child_index (L(i := None)) par (drop_child (par x) i m)"
  using assms by (auto simp: child_index_def drop_child_def removeID_filter)

lemma child_index_move:
  assumes "child_index L par m" "L i = Some x"
  shows "child_index (L(i \<mapsto> y)) par (append_child (par y) i (drop_child (par x) i m))"
proof -
  have "child_index ((L(i := None))(i \<mapsto> y)) par (append_child (par y) i (drop_child (par x) i m))"
    by (rule child_index_add [OF child_index_drop [OF assms]]) simp
  then show ?thesis by simp
qed

lemma fmupd_fun: "fmlookup (fmupd k v m) = (fmlookup m)(k \<mapsto> v)"
  by auto

lemma fmdrop_fun: "fmlookup (fmdrop k m) = (fmlookup m)(k := None)"
  by auto

definition index_ok :: "Tree \<Rightarrow> bool" where
  "index_ok t \<longleftrightarrow> child_index (folder_at t) f_ParentID (folderChildren t)"

definition conn_index_ok :: "Tree \<Rightarrow> bool" where
  "conn_index_ok t \<longleftrightarrow> child_index (conn_at t) c_ParentID (connectionChildren t)"

definition wf_tree :: "Tree \<Rightarrow> bool" where
  "wf_tree t \<longleftrightarrow> folders_ok t \<and> conns_ok t \<and> index_ok t \<and> conn_index_ok t"

lemmas wf_defs = wf_tree_def folders_ok_def conns_ok_def index_ok_def conn_index_ok_def child_index_def

lemma wf_folder:
  assumes "wf_tree t" "folder_at t i = Some f"
  shows "f_ID f = i" "i \<noteq> NilID" "\<exists>d. rooted (folders t) (Suc d) i \<and> rooted (folders t) d (f_ParentID f)"
proof -
  show "f_ID f = i" "i \<noteq> NilID" using assms by (auto simp: wf_defs)
  from assms obtain d where "rooted (folders t) d i" by (auto simp: wf_defs)
  then show "\<exists>d. rooted (folders t) (Suc d) i \<and> rooted (folders t) d (f_ParentID f)"
    using assms(2) \<open>i \<noteq> NilID\<close> by (cases rule: rooted.cases) (auto intro: rooted_folder)
qed

lemma wf_conn:
  assumes "wf_tree t" "conn_at t i = Some c"
  shows "c_ID c = i" "i \<noteq> NilID" "folder_at t i = None"
    "c_ParentID c = NilID \<or> folder_at t (c_ParentID c) \<noteq> None"
  using assms by (auto simp: wf_defs)

lemma wf_folder_not_conn: "wf_tree t \<Longrightarrow> folder_at t i = Some f \<Longrightarrow> conn_at t i = None"
  using wf_conn(3) by (metis option.exhaust option.distinct(1))

lemma wf_no_nil [simp]: "wf_tree t \<Longrightarrow> folder_at t NilID = None" "wf_tree t \<Longrightarrow> conn_at t NilID = None"
  using wf_folder(2) wf_conn(2) by (metis not_None_eq)+

lemma wf_folderChildren: "wf_tree t \<Longrightarrow> i \<in> set (folderChildren t p) \<longleftrightarrow>
    (\<exists>f. folder_at t i = Some f \<and> f_ParentID f = p)"
  by (auto simp: wf_defs)

lemma wf_connectionChildren: "wf_tree t \<Longrightarrow> i \<in> set (connectionChildren t p) \<longleftrightarrow>
    (\<exists>c. conn_at t i = Some c \<and> c_ParentID c = p)"
  by (auto simp: wf_defs)

lemma wf_distinct: "wf_tree t \<Longrightarrow> distinct (folderChildren t p)"
    "wf_tree t \<Longrightarrow> distinct (connectionChildren t p)"
  by (auto simp: wf_defs)

lemma wf_rooted:
  assumes "wf_tree t" "p = NilID \<or> folder_at t p \<noteq> None"
  shows "\<exists>d. rooted (folders t) d p"
  using assms wf_folder(3) [OF assms(1)] rooted_nil by (metis option.exhaust)

lemma wf_NewTree: "wf_tree NewTree"
  by (simp add: wf_defs NewTree_def)

subsection \<open>Insertion keeps the invariant\<close>

lemma rooted_add:
  "rooted F d j \<Longrightarrow> fmlookup F i = None \<Longrightarrow> rooted (fmupd i f F) d j"
proof (induction rule: rooted.induct)
  case (rooted_folder j g d)
  then have "fmlookup (fmupd i f F) j = Some g" by auto
  then show ?case using rooted_folder by (blast intro: rooted.rooted_folder)
qed (rule rooted_nil)

lemma AddFolder_ok_iff:
  "is_ok (AddFolder fo t) \<longleftrightarrow> (\<exists>f. fo = Some f \<and> f_ID f \<noteq> NilID \<and> folder_at t (f_ID f) = None \<and>
     conn_at t (f_ID f) = None \<and> (f_ParentID f = NilID \<or> folder_at t (f_ParentID f) \<noteq> None))"
  by (auto simp: AddFolder_def split: option.splits)

lemma AddConnection_ok_iff:
  "is_ok (AddConnection co t) \<longleftrightarrow> (\<exists>c. co = Some c \<and> c_ID c \<noteq> NilID \<and> conn_at t (c_ID c) = None \<and>
     folder_at t (c_ID c) = None \<and> (c_ParentID c = NilID \<or> folder_at t (c_ParentID c) \<noteq> None))"
  by (auto simp: AddConnection_def split: option.splits)

lemma AddFolder_result:
  "AddFolder fo t = Inr t' \<Longrightarrow> \<exists>f. fo = Some f \<and>
     t' = t\<lparr>folders := fmupd (f_ID f) f (folders t),
            folderChildren := append_child (f_ParentID f) (f_ID f) (folderChildren t)\<rparr>"
  by (auto simp: AddFolder_def split: option.splits if_splits)

lemma AddConnection_result:
  "AddConnection co t = Inr t' \<Longrightarrow> \<exists>c. co = Some c \<and>
     t' = t\<lparr>connections := fmupd (c_ID c) c (connections t),
            connectionChildren := append_child (c_ParentID c) (c_ID c) (connectionChildren t)\<rparr>"
  by (auto simp: AddConnection_def split: option.splits if_splits)

lemma AddFolder_wf [inv_intros]:
  assumes wf: "wf_tree t" and ok: "AddFolder fo t = Inr t'"
  shows "wf_tree t'"
proof -
  have "is_ok (AddFolder fo t)" using ok by simp
  then obtain f where f: "fo = Some f" "f_ID f \<noteq> NilID" "folder_at t (f_ID f) = None"
    "conn_at t (f_ID f) = None" "f_ParentID f = NilID \<or> folder_at t (f_ParentID f) \<noteq> None"
    unfolding AddFolder_ok_iff by blast
  let ?F = "fmupd (f_ID f) f (folders t)"
  have t': "t' = t\<lparr>folders := ?F,
      folderChildren := append_child (f_ParentID f) (f_ID f) (folderChildren t)\<rparr>"
    using AddFolder_result [OF ok] f(1) by auto
  obtain d where d: "rooted (folders t) d (f_ParentID f)"
    using wf_rooted [OF wf f(5)] by blast
  have new: "rooted ?F (Suc d) (f_ID f)"
    by (rule rooted_folder [where f = f]) (use f rooted_add [OF d] in auto)
  have "folders_ok t'" unfolding folders_ok_def
  proof (intro allI impI)
    fix i g assume g: "folder_at t' i = Some g"
    show "f_ID g = i \<and> i \<noteq> NilID \<and> (\<exists>d. rooted (folders t') d i)"
    proof (cases "i = f_ID f")
      case True
      then show ?thesis using g f(2) new by (auto simp: t')
    next
      case False
      then have "folder_at t i = Some g" using g by (simp add: t')
      from wf_folder [OF wf this] show ?thesis using rooted_add [OF _ f(3)] by (auto simp: t')
    qed
  qed
  moreover have "conns_ok t'" using wf f(3,4) by (auto simp: conns_ok_def wf_tree_def t')
  moreover have "index_ok t'"
    using wf f(3) by (simp add: index_ok_def wf_tree_def t' fmupd_fun child_index_add)
  moreover have "conn_index_ok t'" using wf by (simp add: conn_index_ok_def wf_tree_def t')
  ultimately show ?thesis by (simp add: wf_tree_def)
qed

lemma AddConnection_wf [inv_intros]:
  assumes wf: "wf_tree t" and ok: "AddConnection co t = Inr t'"
  shows "wf_tree t'"
proof -
  have "is_ok (AddConnection co t)" using ok by simp
  then obtain c where c: "co = Some c" "c_ID c \<noteq> NilID" "conn_at t (c_ID c) = None"
    "folder_at t (c_ID c) = None" "c_ParentID c = NilID \<or> folder_at t (c_ParentID c) \<noteq> None"
    unfolding AddConnection_ok_iff by blast
  have t': "t' = t\<lparr>connections := fmupd (c_ID c) c (connections t),
      connectionChildren := append_child (c_ParentID c) (c_ID c) (connectionChildren t)\<rparr>"
    using AddConnection_result [OF ok] c(1) by auto
  have "folders_ok t'" "index_ok t'"
    using wf by (simp_all add: folders_ok_def index_ok_def wf_tree_def t')
  moreover have "conns_ok t'" using wf c(2,4,5) by (auto simp: conns_ok_def wf_tree_def t')
  moreover have "conn_index_ok t'"
    using wf c(3) by (simp add: conn_index_ok_def wf_tree_def t' fmupd_fun child_index_add)
  ultimately show ?thesis by (simp add: wf_tree_def)
qed

subsection \<open>Moving keeps the invariant\<close>

lemma descendant_loop_spec:
  "rooted (folders t) d cur \<Longrightarrow> d < n \<Longrightarrow> ancestor \<noteq> NilID \<Longrightarrow>
    descendant_loop n t ancestor cur = Some (under (folders t) ancestor cur)"
proof (induction arbitrary: n rule: rooted.induct)
  case rooted_nil
  then show ?case by (cases n) auto
next
  case (rooted_folder i f d)
  then obtain m where n: "n = Suc m" "d < m" by (cases n) auto
  show ?case
    using rooted_folder n by (subst under_unfold) auto
qed

lemma isDescendantFolder_spec:
  assumes "wf_tree t" "p = NilID \<or> folder_at t p \<noteq> None" "i \<noteq> NilID"
  shows "isDescendantFolder t p i = Some (under (folders t) i p)"
proof (cases "p = NilID")
  case True
  then show ?thesis using assms(3) by (simp add: isDescendantFolder_def)
next
  case False
  obtain d where d: "rooted (folders t) d p" using wf_rooted [OF assms(1,2)] by blast
  then have "d < tree_fuel t" using rooted_bound [OF d] by (simp add: tree_fuel_def)
  with descendant_loop_spec [OF d] False assms(3) show ?thesis
    by (simp add: isDescendantFolder_def)
qed

lemma rooted_move_other:
  "rooted F d j \<Longrightarrow> \<not> under F i j \<Longrightarrow> rooted (fmupd i g F) d j"
proof (induction rule: rooted.induct)
  case (rooted_folder j h d)
  then have "j \<noteq> i" "\<not> under F i (f_ParentID h)" by (auto intro: under_step)
  then have "fmlookup (fmupd i g F) j = Some h" "rooted (fmupd i g F) d (f_ParentID h)"
    using rooted_folder by auto
  then show ?case using rooted_folder.hyps(2) by (blast intro: rooted.rooted_folder)
qed (rule rooted_nil)

lemma rooted_move:
  assumes "i \<noteq> NilID" "\<not> under F i np" "rooted F dn np"
  shows "rooted F d j \<Longrightarrow> \<exists>e. rooted (fmupd i (f\<lparr>f_ParentID := np\<rparr>) F) e j"
proof (induction rule: rooted.induct)
  case rooted_nil
  show ?case using rooted.rooted_nil by blast
next
  case (rooted_folder j h d)
  let ?F = "fmupd i (f\<lparr>f_ParentID := np\<rparr>) F"
  show ?case
  proof (cases "j = i")
    case True
    have "rooted ?F (Suc dn) i"
      by (rule rooted.rooted_folder [where f = "f\<lparr>f_ParentID := np\<rparr>"])
        (use assms rooted_move_other in auto)
    with True show ?thesis by blast
  next
    case False
    then have "fmlookup ?F j = Some h" using rooted_folder.hyps(1) by simp
    with rooted_folder show ?thesis by (blast intro: rooted.rooted_folder)
  qed
qed

lemma Move_folder_result:
  assumes "wf_tree t" "folder_at t i = Some f" "p = NilID \<or> folder_at t p \<noteq> None"
  shows "Move i p t = Some (if under (folders t) i p then Inl MoveCycle else Inr
    (t\<lparr>folderChildren := append_child p i (drop_child (f_ParentID f) i (folderChildren t)),
       folders := fmupd i (f\<lparr>f_ParentID := p\<rparr>) (folders t)\<rparr>))"
proof -
  have "i \<noteq> NilID" using wf_folder(2) [OF assms(1,2)] .
  with isDescendantFolder_spec [OF assms(1,3)] assms(2,3) show ?thesis
    by (auto simp: Move_def)
qed

lemma Move_returns:
  assumes "wf_tree t" shows "Move i p t \<noteq> None"
proof (cases "(p = NilID \<or> folder_at t p \<noteq> None) \<and> folder_at t i \<noteq> None")
  case True
  then show ?thesis using Move_folder_result [OF assms] by auto
next
  case False
  then show ?thesis by (auto simp: Move_def split: option.splits)
qed

lemma Move_wf [inv_intros]:
  assumes wf: "wf_tree t" and mv: "Move i p t = Some (Inr t')"
  shows "wf_tree t'"
proof -
  have p: "p = NilID \<or> folder_at t p \<noteq> None" and i: "i \<noteq> NilID"
    using mv by (auto simp: Move_def split: if_splits)
  obtain dn where dn: "rooted (folders t) dn p" using wf_rooted [OF wf p] by blast
  show ?thesis
  proof (cases "folder_at t i")
    case (Some f)
    let ?F = "fmupd i (f\<lparr>f_ParentID := p\<rparr>) (folders t)"
    have nu: "\<not> under (folders t) i p"
      and t': "t' = t\<lparr>folderChildren :=
        append_child p i (drop_child (f_ParentID f) i (folderChildren t)), folders := ?F\<rparr>"
      using mv Move_folder_result [OF wf Some p] by (auto split: if_splits)
    have "folders_ok t'" unfolding folders_ok_def
    proof (intro allI impI)
      fix j g assume g: "folder_at t' j = Some g"
      then obtain h where h: "folder_at t j = Some h" "f_ID g = f_ID h"
        using Some by (auto simp: t' split: if_splits)
      from wf_folder [OF wf h(1)] rooted_move [OF i nu dn] h(2)
      show "f_ID g = j \<and> j \<noteq> NilID \<and> (\<exists>d. rooted (folders t') d j)"
        by (auto simp: t')
    qed
    moreover have "conns_ok t'"
      using wf Some wf_folder_not_conn [OF wf Some] by (auto simp: conns_ok_def wf_tree_def t')
    moreover have "index_ok t'"
      using wf child_index_move [of "folder_at t" f_ParentID "folderChildren t" i f
          "f\<lparr>f_ParentID := p\<rparr>"] Some
      by (simp add: index_ok_def wf_tree_def t' fmupd_fun)
    moreover have "conn_index_ok t'"
      using wf by (simp add: conn_index_ok_def wf_tree_def t')
    ultimately show ?thesis by (simp add: wf_tree_def)
  next
    case None
    then obtain c where c: "conn_at t i = Some c"
      and t': "t' = t\<lparr>connectionChildren :=
        append_child p i (drop_child (c_ParentID c) i (connectionChildren t)),
        connections := fmupd i (c\<lparr>c_ParentID := p\<rparr>) (connections t)\<rparr>"
      using mv p i by (auto simp: Move_def split: option.splits)
    have "folders_ok t'" "index_ok t'"
      using wf by (simp_all add: folders_ok_def index_ok_def wf_tree_def t')
    moreover have "conns_ok t'"
      using wf c p None by (auto simp: conns_ok_def wf_tree_def t')
    moreover have "conn_index_ok t'"
      using wf child_index_move [of "conn_at t" c_ParentID "connectionChildren t" i c
          "c\<lparr>c_ParentID := p\<rparr>"] c
      by (simp add: conn_index_ok_def wf_tree_def t' fmupd_fun)
    ultimately show ?thesis by (simp add: wf_tree_def)
  qed
qed

end
