(* ===== verification/TreeRemove.thy ===== *)
theory TreeRemove
  imports TreeInv
begin

text \<open>
  What \<open>Remove\<close> of a folder does: it returns, and the tree it leaves is the old one with
  the folder's subtree pruned (its folders, the connections in them, and their index
  entries); everything else is untouched.
\<close>

definition below :: "fmapF \<Rightarrow> ID set \<Rightarrow> ID \<Rightarrow> bool" where
  "below F S j \<longleftrightarrow> (\<exists>s \<in> S. under F s j)"

definition prune :: "ID set \<Rightarrow> Tree \<Rightarrow> Tree" where
  "prune S t = t\<lparr>
     folders := fmfilter (\<lambda>j. \<not> below (folders t) S j) (folders t),
     connections := fmfilter (\<lambda>k. case conn_at t k of
         Some c \<Rightarrow> \<not> below (folders t) S (c_ParentID c) | None \<Rightarrow> True) (connections t),
     folderChildren := (\<lambda>p. if below (folders t) S p then []
                            else filter (\<lambda>j. j \<notin> S) (folderChildren t p)),
     connectionChildren := (\<lambda>p. if below (folders t) S p then [] else connectionChildren t p)\<rparr>"

lemma folder_at_prune:
  "folder_at (prune S t) j = (if below (folders t) S j then None else folder_at t j)"
  by (simp add: prune_def)

lemma conn_at_prune: "conn_at (prune S t) k =
    (case conn_at t k of None \<Rightarrow> None
     | Some c \<Rightarrow> if below (folders t) S (c_ParentID c) then None else Some c)"
  by (simp add: prune_def split: option.splits)

lemma below_Nil: "NilID \<notin> S \<Longrightarrow> \<not> below F S NilID"
  by (auto simp: below_def)

lemma below_self: "j \<in> S \<Longrightarrow> below F S j"
  unfolding below_def using under_refl by blast

lemma below_child:
  "fmlookup F j = Some f \<Longrightarrow> j \<noteq> NilID \<Longrightarrow> below F S j \<longleftrightarrow> j \<in> S \<or> below F S (f_ParentID f)"
  unfolding below_def using under_refl under_step under_parent by metis

lemma below_insert: "below F (insert s S) j \<longleftrightarrow> under F s j \<or> below F S j"
  by (auto simp: below_def)

lemma rooted_prune:
  "rooted (folders t) d j \<Longrightarrow> \<not> below (folders t) S j \<Longrightarrow> rooted (folders (prune S t)) d j"
proof (induction rule: rooted.induct)
  case (rooted_folder j f d)
  then have "\<not> below (folders t) S (f_ParentID f)" by (simp add: below_child)
  with rooted_folder show ?case
    by (intro rooted.rooted_folder [where f = f]) (simp_all add: folder_at_prune)
qed (rule rooted_nil)

lemma under_prune:
  assumes "\<not> under (folders t) s j"
  shows "under (folders (prune {s} t)) a j \<longleftrightarrow> under (folders t) a j"
proof
  show "under (folders (prune {s} t)) a j \<Longrightarrow> under (folders t) a j"
    by (induction rule: under.induct)
      (auto simp: folder_at_prune intro: under_step split: if_splits)
  assume "under (folders t) a j"
  then show "under (folders (prune {s} t)) a j" using assms
  proof (induction rule: under.induct)
    case (under_step i f)
    then have "\<not> under (folders t) s (f_ParentID f)" by (auto intro: under.under_step)
    moreover have "folder_at (prune {s} t) i = Some f"
      using under_step by (simp add: folder_at_prune below_def)
    ultimately show ?case using under_step by (blast intro: under.under_step)
  qed simp
qed

lemma wf_prune:
  assumes wf: "wf_tree t" and nil: "NilID \<notin> S"
  shows "wf_tree (prune S t)"
proof -
  let ?t = "prune S t"
  have "folders_ok ?t" unfolding folders_ok_def
  proof (intro allI impI)
    fix i g assume "folder_at ?t i = Some g"
    then have g: "folder_at t i = Some g" and nb: "\<not> below (folders t) S i"
      by (simp_all add: folder_at_prune split: if_splits)
    from wf_folder [OF wf g] rooted_prune [OF _ nb]
    show "f_ID g = i \<and> i \<noteq> NilID \<and> (\<exists>d. rooted (folders ?t) d i)" by blast
  qed
  moreover have "conns_ok ?t" unfolding conns_ok_def
    using wf below_Nil [OF nil]
    by (auto simp: folder_at_prune conn_at_prune wf_tree_def conns_ok_def
        split: if_splits option.splits)
  moreover have "index_ok ?t" unfolding index_ok_def child_index_def
  proof (intro allI conjI)
    fix p
    show "distinct (folderChildren ?t p)" using wf by (simp add: prune_def wf_distinct)
    show "set (folderChildren ?t p) = {i. \<exists>f. folder_at ?t i = Some f \<and> f_ParentID f = p}"
      using wf_folderChildren [OF wf] wf_folder(2) [OF wf]
      by (auto simp: prune_def below_child below_self)
  qed
  moreover have "conn_index_ok ?t" unfolding conn_index_ok_def child_index_def
  proof (intro allI conjI)
    fix p
    show "distinct (connectionChildren ?t p)" using wf by (simp add: prune_def wf_distinct)
    show "set (connectionChildren ?t p) = {i. \<exists>c. conn_at ?t i = Some c \<and> c_ParentID c = p}"
      using wf_connectionChildren [OF wf] by (auto simp: prune_def)
  qed
  ultimately show ?thesis by (simp add: wf_tree_def)
qed

lemma prune_empty: "prune {} t = t"
proof -
  have "fmfilter (\<lambda>k. case conn_at t k of None \<Rightarrow> True | Some c \<Rightarrow> True) (connections t) = connections t"
    by (rule fmap_ext) (simp split: option.splits)
  then show ?thesis by (simp add: prune_def below_def)
qed

lemma Tree_eqI:
  fixes s t :: Tree
  assumes "\<And>i. folder_at s i = folder_at t i" "\<And>i. conn_at s i = conn_at t i"
    "\<And>p. folderChildren s p = folderChildren t p"
    "\<And>p. connectionChildren s p = connectionChildren t p"
  shows "s = t"
  by (intro Tree.equality fmap_ext ext) (simp_all add: assms)

lemma folderChildren_prune: "folderChildren (prune S t) p =
    (if below (folders t) S p then [] else filter (\<lambda>j. j \<notin> S) (folderChildren t p))"
  and connectionChildren_prune: "connectionChildren (prune S t) p =
    (if below (folders t) S p then [] else connectionChildren t p)"
  by (simp_all add: prune_def)

lemma below_one: "below F {s} j \<longleftrightarrow> under F s j"
  by (simp add: below_def)

lemmas prune_sels = folder_at_prune conn_at_prune folderChildren_prune connectionChildren_prune

lemma below_prune:
  "\<not> under (folders t) s j \<Longrightarrow> below (folders (prune {s} t)) S j = below (folders t) S j"
  by (simp add: below_def under_prune)

lemma below_insert_cases: "below F (insert s S) j = (if under F s j then True else below F S j)"
  by (simp add: below_insert)

lemma prune_prune:
  "prune S (prune {s} t) = prune (insert s S) t"
proof (rule Tree_eqI)
  fix i
  show "folder_at (prune S (prune {s} t)) i = folder_at (prune (insert s S) t) i"
  proof (cases "under (folders t) s i")
    case False
    then show ?thesis
      by (simp only: folder_at_prune below_prune [OF False] below_one below_insert_cases [where S = S] if_False)
  qed (simp only: folder_at_prune below_one below_insert_cases [where S = S] if_True if_cancel)
  show "conn_at (prune S (prune {s} t)) i = conn_at (prune (insert s S) t) i"
  proof (cases "conn_at t i")
    case (Some c)
    show ?thesis
    proof (cases "under (folders t) s (c_ParentID c)")
      case False
      with Some show ?thesis
        by (simp only: conn_at_prune below_prune [OF False] below_one below_insert_cases [where S = S] if_False option.case)
    next
      case True
      with Some show ?thesis
        by (simp only: conn_at_prune below_one below_insert_cases [where S = S] if_True option.case)
    qed
  qed (simp only: conn_at_prune option.case)
  show "folderChildren (prune S (prune {s} t)) i = folderChildren (prune (insert s S) t) i"
  proof (cases "under (folders t) s i")
    case False
    have "filter (\<lambda>j. j \<notin> S) (filter (\<lambda>j. j \<notin> {s}) xs) = filter (\<lambda>j. j \<notin> insert s S) xs" for xs
      by (induction xs) auto
    with False show ?thesis
      by (simp only: folderChildren_prune below_prune [OF False] below_one below_insert_cases [where S = S] if_False)
  qed (simp only: folderChildren_prune below_one below_insert_cases [where S = S] if_True filter.simps if_cancel)
  show "connectionChildren (prune S (prune {s} t)) i = connectionChildren (prune (insert s S) t) i"
  proof (cases "under (folders t) s i")
    case False
    then show ?thesis
      by (simp only: connectionChildren_prune below_prune [OF False] below_one below_insert_cases [where S = S] if_False)
  qed (simp only: connectionChildren_prune below_one below_insert_cases [where S = S] if_True if_cancel)
qed

subsection \<open>The recursion computes the pruned tree\<close>

lemma under_via_child:
  "under F i j \<Longrightarrow> j = i \<or> (\<exists>s f. fmlookup F s = Some f \<and> f_ParentID f = i \<and> s \<noteq> NilID \<and> under F s j)"
proof (induction rule: under.induct)
  case (under_step j f)
  from under_step.IH show ?case
  proof
    assume "f_ParentID f = i"
    with under_step.hyps show ?thesis using under_refl by blast
  next
    assume "\<exists>s g. fmlookup F s = Some g \<and> f_ParentID g = i \<and> s \<noteq> NilID \<and> under F s (f_ParentID f)"
    with under_step.hyps under.under_step show ?thesis by blast
  qed
qed simp

lemma below_children:
  assumes wf: "wf_tree t"
  shows "under (folders t) i j \<longleftrightarrow> j = i \<or> below (folders t) (set (folderChildren t i)) j"
proof
  assume "under (folders t) i j"
  then have "j = i \<or> (\<exists>s f. folder_at t s = Some f \<and> f_ParentID f = i \<and> under (folders t) s j)"
    using under_via_child by blast
  then show "j = i \<or> below (folders t) (set (folderChildren t i)) j"
    unfolding below_def using wf_folderChildren [OF wf] by blast
next
  assume "j = i \<or> below (folders t) (set (folderChildren t i)) j"
  then show "under (folders t) i j"
  proof
    assume "below (folders t) (set (folderChildren t i)) j"
    then obtain s f where s: "folder_at t s = Some f" "f_ParentID f = i" "under (folders t) s j"
      unfolding below_def using wf_folderChildren [OF wf] by blast
    have "under (folders t) i s"
      using s(1,2) wf_folder(2) [OF wf s(1)] under_step [of "folders t" s f i] under_refl by simp
    with s(3) show ?thesis by (rule under_trans)
  qed (simp add: under_refl)
qed

lemma fold_fmdrop_lookup:
  "fmlookup (fold fmdrop ks m) k = (if k \<in> set ks then None else fmlookup m k)"
  by (induction ks arbitrary: m) auto

text \<open>The first half of a folder's removal: its own connections.\<close>

definition drop_conns :: "ID \<Rightarrow> Tree \<Rightarrow> Tree" where
  "drop_conns i t = t\<lparr>connections := fold fmdrop (connectionChildren t i) (connections t),
     connectionChildren := (connectionChildren t)(i := [])\<rparr>"

lemma drop_conns_simps [simp]:
  "folders (drop_conns i t) = folders t" "folderChildren (drop_conns i t) = folderChildren t"
  by (simp_all add: drop_conns_def)

lemma wf_drop_conns:
  assumes "wf_tree t"
  shows "wf_tree (drop_conns i t)"
    and "conn_at (drop_conns i t) k =
      (case conn_at t k of None \<Rightarrow> None | Some c \<Rightarrow> if c_ParentID c = i then None else Some c)"
proof -
  show c: "conn_at (drop_conns i t) k =
      (case conn_at t k of None \<Rightarrow> None | Some c \<Rightarrow> if c_ParentID c = i then None else Some c)" for k
    using wf_connectionChildren [OF assms, of k i]
    by (auto simp: drop_conns_def fold_fmdrop_lookup split: option.splits)
  have cc: "connectionChildren (drop_conns i t) p = (if p = i then [] else connectionChildren t p)" for p
    by (simp add: drop_conns_def)
  have "conns_ok (drop_conns i t)" unfolding conns_ok_def
    using wf_conn [OF assms] by (auto simp: c split: option.splits if_splits)
  moreover have "conn_index_ok (drop_conns i t)" unfolding conn_index_ok_def child_index_def
  proof (intro allI conjI)
    fix p
    show "distinct (connectionChildren (drop_conns i t) p)"
      using wf_distinct(2) [OF assms] by (simp add: cc)
    show "set (connectionChildren (drop_conns i t) p) =
        {k. \<exists>d. conn_at (drop_conns i t) k = Some d \<and> c_ParentID d = p}"
      using wf_connectionChildren [OF assms] by (auto simp: c cc split: option.splits if_splits)
  qed
  moreover have "folders_ok (drop_conns i t)" "index_ok (drop_conns i t)"
    using assms by (simp_all add: wf_tree_def folders_ok_def index_ok_def)
  ultimately show "wf_tree (drop_conns i t)" by (simp add: wf_tree_def)
qed

lemma remove_folder_step:
  assumes "i \<noteq> NilID" "folder_at t i = Some f"
    and "remove_subs n (folderChildren t i) (drop_conns i t) = Some (None, t2)"
  shows "remove_node (Suc n) i t = Some (None, t2\<lparr>folderChildren :=
      drop_child (f_ParentID f) i ((folderChildren t2)(i := [])), folders := fmdrop i (folders t2)\<rparr>)"
  using assms by (simp add: drop_conns_def Let_def)

lemma prune_assemble:
  assumes wf: "wf_tree t" and f: "folder_at t i = Some f"
  defines "t2 \<equiv> prune (set (folderChildren t i)) (drop_conns i t)"
  shows "t2\<lparr>folderChildren := drop_child (f_ParentID f) i ((folderChildren t2)(i := [])),
      folders := fmdrop i (folders t2)\<rparr> = prune {i} t" (is "?l = _")
proof -
  let ?S = "set (folderChildren t i)"
  have b: "below (folders t) {i} j \<longleftrightarrow> j = i \<or> below (folders t) ?S j" for j
    unfolding below_one by (rule below_children [OF wf])
  have keep: "filter (\<lambda>j. j \<notin> ?S) (folderChildren t p) = folderChildren t p" if "p \<noteq> i" for p
    using that wf_folderChildren [OF wf] by (auto simp: filter_id_conv)
  have other: "filter (\<lambda>j. j \<noteq> i) (folderChildren t p) = folderChildren t p" if "p \<noteq> f_ParentID f" for p
    using that f wf_folderChildren [OF wf] by (auto simp: filter_id_conv)
  have t2: "folder_at t2 j = (if below (folders t) ?S j then None else folder_at t j)"
    "folderChildren t2 j = (if below (folders t) ?S j then [] else filter (\<lambda>j. j \<notin> ?S) (folderChildren t j))"
    "connectionChildren t2 j = (if below (folders t) ?S j \<or> j = i then [] else connectionChildren t j)"
    "conn_at t2 j = conn_at (prune {i} t) j" for j
  proof -
    show "folder_at t2 j = (if below (folders t) ?S j then None else folder_at t j)"
      unfolding t2_def folder_at_prune by simp
    show "folderChildren t2 j = (if below (folders t) ?S j then [] else filter (\<lambda>j. j \<notin> ?S) (folderChildren t j))"
      unfolding t2_def folderChildren_prune by simp
    show "connectionChildren t2 j = (if below (folders t) ?S j \<or> j = i then [] else connectionChildren t j)"
      unfolding t2_def connectionChildren_prune by (simp add: drop_conns_def)
    show "conn_at t2 j = conn_at (prune {i} t) j"
      unfolding t2_def conn_at_prune wf_drop_conns(2) [OF wf] by (simp add: b split: option.split)
  qed
  show ?thesis
  proof (rule Tree_eqI)
    fix j
    show "folder_at ?l j = folder_at (prune {i} t) j"
      by (simp add: folder_at_prune b t2)
    show "conn_at ?l j = conn_at (prune {i} t) j" by (simp add: t2)
    show "connectionChildren ?l j = connectionChildren (prune {i} t) j"
      by (simp add: connectionChildren_prune b t2)
    have fc: "folderChildren ?l j = (if j = f_ParentID f then removeID (if j = i then []
        else folderChildren t2 j) i else if j = i then [] else folderChildren t2 j)"
      by (simp add: drop_child_def)
    have rm: "removeID (folderChildren t j) i = filter (\<lambda>j. j \<notin> {i}) (folderChildren t j)"
      using removeID_filter [OF wf_distinct(1) [OF wf]] by simp
    show "folderChildren ?l j = folderChildren (prune {i} t) j"
    proof (cases "j = i \<or> below (folders t) ?S j")
      case True
      then show ?thesis unfolding fc t2(2) folderChildren_prune b by auto
    next
      case False
      then have "folderChildren ?l j = (if j = f_ParentID f then removeID (folderChildren t j) i
          else folderChildren t j)" unfolding fc t2(2) using keep [of j]
        by (cases "j = f_ParentID f") auto
      moreover have "folderChildren (prune {i} t) j = filter (\<lambda>j. j \<notin> {i}) (folderChildren t j)"
        using False by (simp add: folderChildren_prune b)
      ultimately show ?thesis using rm other [of j] by (cases "j = f_ParentID f") auto
    qed
  qed
qed

lemma gomap_len_prune: "gomap_len (folders (prune S t)) \<le> gomap_len (folders t)"
proof -
  have "fmdom (folders (prune S t)) |\<subseteq>| fmdom (folders t)" by (auto simp: prune_def)
  then show ?thesis unfolding gomap_len_def by (rule fcard_mono)
qed

lemma remove_spec:
  shows "wf_tree t \<Longrightarrow> folder_at t i = Some f \<Longrightarrow> rooted (folders t) d i \<Longrightarrow>
      gomap_len (folders t) < n + d \<Longrightarrow> remove_node n i t = Some (None, prune {i} t)"
    and "wf_tree t \<Longrightarrow> distinct ss \<Longrightarrow> rooted (folders t) d p \<Longrightarrow>
      (\<forall>s \<in> set ss. \<exists>f. folder_at t s = Some f \<and> f_ParentID f = p) \<Longrightarrow>
      gomap_len (folders t) < n + Suc d \<Longrightarrow> remove_subs n ss t = Some (None, prune (set ss) t)"
proof (induction n i t and n ss t arbitrary: f d and d p rule: remove_node_remove_subs.induct)
  case (1 i t)
  then have False using rooted_bound [OF 1(3)] by linarith
  then show ?case ..
next
  case (2 n i t)
  note wf = "2.prems"(1) and f = "2.prems"(2) and r = "2.prems"(3)
  have i: "i \<noteq> NilID" using wf_folder(2) [OF wf f] .
  have eq: "drop_conns i t = t\<lparr>connections := fold fmdrop (connectionChildren t i) (connections t),
      connectionChildren := (connectionChildren t)(i := [])\<rparr>" by (simp add: drop_conns_def)
  have "remove_subs n (folderChildren (drop_conns i t) i) (drop_conns i t) =
      Some (None, prune (set (folderChildren (drop_conns i t) i)) (drop_conns i t))"
  proof (rule "2.IH" [OF i f eq, of d i])
    show "wf_tree (drop_conns i t)" by (rule wf_drop_conns(1) [OF wf])
    show "distinct (folderChildren (drop_conns i t) i)" using wf_distinct(1) [OF wf] by simp
    show "rooted (folders (drop_conns i t)) d i" using r by simp
    show "\<forall>s \<in> set (folderChildren (drop_conns i t) i).
        \<exists>f. folder_at (drop_conns i t) s = Some f \<and> f_ParentID f = i"
      using wf_folderChildren [OF wf] by simp
    show "gomap_len (folders (drop_conns i t)) < n + Suc d" using "2.prems"(4) by simp
  qed
  then have "remove_subs n (folderChildren t i) (drop_conns i t) =
      Some (None, prune (set (folderChildren t i)) (drop_conns i t))" by simp
  from remove_folder_step [OF i f this] prune_assemble [OF wf f] show ?case by simp
next
  case (3 n t)
  then show ?case by (simp add: prune_empty)
next
  case (4 n s ss t)
  note wf = "4.prems"(1) and p = "4.prems"(3)
  obtain f where f: "folder_at t s = Some f" "f_ParentID f = p" using "4.prems"(4) by auto
  have s: "s \<noteq> NilID" using wf_folder(2) [OF wf f(1)] .
  have rs: "rooted (folders t) (Suc d) s" using rooted_folder [of "folders t" s f d] f s p by simp
  have one: "remove_node n s t = Some (None, prune {s} t)"
    using "4.IH"(1) [OF wf f(1) rs] "4.prems"(5) by simp
  let ?t = "prune {s} t"
  have wf': "wf_tree ?t" using wf_prune [OF wf] s by simp
  have np: "\<not> under (folders t) s p"
  proof
    assume "under (folders t) s p"
    from under_depth [OF this p] obtain e where e: "rooted (folders t) e s" "e < d \<or> s = p" by blast
    have "e = Suc d" using rooted_unique [OF e(1) rs] .
    moreover have "e = d" if "s = p" using e(1) p that rooted_unique by blast
    ultimately show False using e(2) by auto
  qed
  have sib: "\<not> under (folders t) s u" if "u \<in> set ss" for u
  proof
    assume u: "under (folders t) s u"
    from that "4.prems"(4) have "\<exists>g. folder_at t u = Some g \<and> f_ParentID g = p" by simp
    then obtain g where g: "folder_at t u = Some g" "f_ParentID g = p" by blast
    then have "rooted (folders t) (Suc d) u"
      using rooted_folder [of "folders t" u g d] wf_folder(2) [OF wf] p by blast
    then have "s = u" using under_same_depth [OF u _ rs] by blast
    then show False using that "4.prems"(2) by simp
  qed
  have "remove_subs n ss ?t = Some (None, prune (set ss) ?t)"
  proof (rule "4.IH"(2) [OF one refl refl wf' _ _ _, of d p])
    show "distinct ss" using "4.prems"(2) by simp
    show "rooted (folders ?t) d p" using rooted_prune [OF p] np by (simp add: below_def)
    show "\<forall>u \<in> set ss. \<exists>f. folder_at ?t u = Some f \<and> f_ParentID f = p"
      using "4.prems"(4) sib by (simp add: folder_at_prune below_def)
    show "gomap_len (folders ?t) < n + Suc d"
      using "4.prems"(5) gomap_len_prune [of "{s}" t] by linarith
  qed
  with one show ?case by (simp add: prune_prune)
qed

lemma Remove_folder:
  assumes "wf_tree t" "folder_at t i = Some f"
  shows "Remove i t = Some (None, prune {i} t)"
proof -
  obtain d where "rooted (folders t) d i" using wf_folder(3) [OF assms] by blast
  then show ?thesis
    unfolding Remove_def by (rule remove_spec(1) [OF assms]) (simp add: tree_fuel_def)
qed

lemma Remove_conn:
  assumes "wf_tree t" "conn_at t i = Some c"
  shows "Remove i t = Some (None, t\<lparr>connectionChildren :=
      (if c_ParentID c \<noteq> NilID then drop_child (c_ParentID c) i (connectionChildren t)
       else connectionChildren t), connections := fmdrop i (connections t)\<rparr>)"
  using wf_conn [OF assms] assms(2) by (simp add: Remove_def tree_fuel_def numeral_2_eq_2)

lemma Remove_missing:
  "i \<noteq> NilID \<Longrightarrow> folder_at t i = None \<Longrightarrow> conn_at t i = None \<Longrightarrow>
    Remove i t = Some (Some (NodeMissing i), t)"
  by (simp add: Remove_def tree_fuel_def numeral_2_eq_2)

lemma Remove_returns: "wf_tree t \<Longrightarrow> Remove i t \<noteq> None"
proof -
  assume wf: "wf_tree t"
  consider "i = NilID" | f where "folder_at t i = Some f" | c where "conn_at t i = Some c"
    | "i \<noteq> NilID" "folder_at t i = None" "conn_at t i = None" by fastforce
  then show ?thesis
  proof cases
    case 1
    then show ?thesis by (simp add: Remove_def tree_fuel_def numeral_2_eq_2)
  qed (simp_all add: Remove_folder [OF wf] Remove_conn [OF wf] Remove_missing)
qed

text \<open>A connection at the root is the exception: its entry in the root's index stays.\<close>

definition root_conn :: "Tree \<Rightarrow> ID \<Rightarrow> bool" where
  "root_conn t i \<longleftrightarrow> (\<exists>c. conn_at t i = Some c \<and> c_ParentID c = NilID)"

lemma Remove_wf [inv_intros]:
  assumes wf: "wf_tree t" and rm: "Remove i t = Some (None, t')" and "\<not> root_conn t i"
  shows "wf_tree t'"
proof (cases "folder_at t i")
  case (Some f)
  then show ?thesis using Remove_folder [OF wf Some] rm wf_prune [OF wf] wf_folder(2) [OF wf Some]
    by auto
next
  case None
  obtain c where c: "conn_at t i = Some c"
    using rm None Remove_missing [of i t] by (cases "conn_at t i")
      (auto simp: Remove_def tree_fuel_def numeral_2_eq_2 split: if_splits)
  then have "c_ParentID c \<noteq> NilID" using assms(3) by (auto simp: root_conn_def)
  with rm Remove_conn [OF wf c] have t': "t' = t\<lparr>connectionChildren :=
      drop_child (c_ParentID c) i (connectionChildren t), connections := fmdrop i (connections t)\<rparr>"
    by simp
  have "conn_index_ok t'"
    using wf child_index_drop [of "conn_at t" c_ParentID "connectionChildren t" i c] c
    by (simp add: conn_index_ok_def wf_tree_def t' fmdrop_fun)
  moreover have "conns_ok t'" using wf by (simp add: conns_ok_def wf_tree_def t')
  moreover have "folders_ok t'" "index_ok t'"
    using wf by (simp_all add: folders_ok_def index_ok_def wf_tree_def t')
  ultimately show ?thesis by (simp add: wf_tree_def)
qed

subsection \<open>Every reachable tree is well-formed\<close>

text \<open>Callers also edit a node through the pointer they looked up, never its ID or its parent.\<close>

definition put_folder :: "FolderNode \<Rightarrow> Tree \<Rightarrow> Tree" where
  "put_folder f t = t\<lparr>folders := fmupd (f_ID f) f (folders t)\<rparr>"

definition put_conn :: "ConnectionNode \<Rightarrow> Tree \<Rightarrow> Tree" where
  "put_conn c t = t\<lparr>connections := fmupd (c_ID c) c (connections t)\<rparr>"

lemma rooted_put:
  "rooted F d j \<Longrightarrow> fmlookup F i = Some g \<Longrightarrow> f_ParentID f = f_ParentID g \<Longrightarrow>
    rooted (fmupd i f F) d j"
proof (induction rule: rooted.induct)
  case (rooted_folder j h d)
  show ?case
  proof (cases "j = i")
    case True
    with rooted_folder show ?thesis
      by (intro rooted.rooted_folder [where f = f]) auto
  next
    case False
    with rooted_folder show ?thesis
      by (intro rooted.rooted_folder [where f = h]) auto
  qed
qed (rule rooted_nil)

lemma child_index_put:
  assumes "child_index L par m" "L i = Some x" "par y = par x"
  shows "child_index (L(i \<mapsto> y)) par m"
  using assms by (auto simp: child_index_def)

lemma put_folder_wf [inv_intros]:
  assumes wf: "wf_tree t" and g: "folder_at t (f_ID f) = Some g" "f_ParentID f = f_ParentID g"
  shows "wf_tree (put_folder f t)"
proof -
  have "folders_ok (put_folder f t)" unfolding folders_ok_def
  proof (intro allI impI)
    fix i h assume h: "folder_at (put_folder f t) i = Some h"
    then obtain k where k: "folder_at t i = Some k" "f_ID h = i"
      using wf_folder(1) [OF wf] g(1) by (auto simp: put_folder_def split: if_splits)
    from wf_folder [OF wf k(1)] rooted_put [OF _ g] k(2)
    show "f_ID h = i \<and> i \<noteq> NilID \<and> (\<exists>d. rooted (folders (put_folder f t)) d i)"
      by (auto simp: put_folder_def)
  qed
  moreover have "conns_ok (put_folder f t)"
    using wf g(1) wf_folder_not_conn [OF wf g(1)] by (auto simp: conns_ok_def wf_tree_def put_folder_def)
  moreover have "index_ok (put_folder f t)"
    using wf g child_index_put [of "folder_at t" f_ParentID "folderChildren t" "f_ID f" g f]
    by (simp add: index_ok_def wf_tree_def put_folder_def fmupd_fun)
  moreover have "conn_index_ok (put_folder f t)"
    using wf by (simp add: conn_index_ok_def wf_tree_def put_folder_def)
  ultimately show ?thesis by (simp add: wf_tree_def)
qed

lemma put_conn_wf [inv_intros]:
  assumes wf: "wf_tree t" and g: "conn_at t (c_ID c) = Some g" "c_ParentID c = c_ParentID g"
  shows "wf_tree (put_conn c t)"
proof -
  have "folders_ok (put_conn c t)" "index_ok (put_conn c t)"
    using wf by (simp_all add: folders_ok_def index_ok_def wf_tree_def put_conn_def)
  moreover have "conns_ok (put_conn c t)" unfolding conns_ok_def
  proof (intro allI impI)
    fix i h assume h: "conn_at (put_conn c t) i = Some h"
    then consider "i = c_ID c" "h = c" | "conn_at t i = Some h"
      by (cases "i = c_ID c") (simp_all add: put_conn_def)
    then show "c_ID h = i \<and> i \<noteq> NilID \<and> folder_at (put_conn c t) i = None \<and>
        (c_ParentID h = NilID \<or> folder_at (put_conn c t) (c_ParentID h) \<noteq> None)"
    proof cases
      case 1
      then show ?thesis using wf_conn [OF wf g(1)] g(2) by (simp add: put_conn_def)
    next
      case 2
      then show ?thesis using wf_conn [OF wf 2] by (simp add: put_conn_def)
    qed
  qed
  moreover have "conn_index_ok (put_conn c t)"
    using wf g child_index_put [of "conn_at t" c_ParentID "connectionChildren t" "c_ID c" g c]
    by (simp add: conn_index_ok_def wf_tree_def put_conn_def fmupd_fun)
  ultimately show ?thesis by (simp add: wf_tree_def)
qed

inductive tree_step :: "Tree \<Rightarrow> Tree \<Rightarrow> bool" where
  step_add_folder: "AddFolder fo t = Inr t' \<Longrightarrow> tree_step t t'"
| step_add_connection: "AddConnection co t = Inr t' \<Longrightarrow> tree_step t t'"
| step_move: "Move i p t = Some (Inr t') \<Longrightarrow> tree_step t t'"
| step_remove: "Remove i t = Some (None, t') \<Longrightarrow> \<not> root_conn t i \<Longrightarrow> tree_step t t'"
| step_edit_folder: "folder_at t (f_ID f) = Some g \<Longrightarrow> f_ParentID f = f_ParentID g \<Longrightarrow>
    tree_step t (put_folder f t)"
| step_edit_conn: "conn_at t (c_ID c) = Some d \<Longrightarrow> c_ParentID c = c_ParentID d \<Longrightarrow>
    tree_step t (put_conn c t)"

interpretation tree_sys: invariant_system "\<lambda>t. t = NewTree" tree_step wf_tree
proof
  show "t = NewTree \<Longrightarrow> wf_tree t" for t by (simp add: wf_NewTree)
  show "wf_tree t \<Longrightarrow> tree_step t t' \<Longrightarrow> wf_tree t'" for t t'
    by (erule tree_step.cases) (auto intro: inv_intros)
qed

text \<open>What the exception leaves behind: the root's index still names the connection.\<close>

lemma Remove_root_conn:
  assumes wf: "wf_tree t" and c: "conn_at t i = Some c" "c_ParentID c = NilID"
  shows "Remove i t = Some (None, t\<lparr>connections := fmdrop i (connections t)\<rparr>)"
    and "i \<in> set (connectionChildren t NilID)"
  using Remove_conn [OF wf c(1)] c wf_connectionChildren [OF wf] by auto

end
