(* ===== verification/TreeWalk.thy ===== *)
theory TreeWalk
  imports TreeRemove
begin

text \<open>
  The walk of a well-formed tree: \<open>Walk\<close> hands the nodes of \<open>preorder\<close> to the visitor, one
  after the other, and stops with its first error; it never panics and always returns. Every
  node is visited exactly once, a folder before what it holds. \<open>Search\<close> is the filter of
  that list and \<open>Ancestors\<close> the chain from the root.
\<close>

subsection \<open>Search\<close>

text \<open>A predicate may dereference a nil node: \<open>None\<close> is its panic.\<close>

type_synonym predicate = "node \<Rightarrow> bool option"

definition Search :: "predicate option \<Rightarrow> Tree \<Rightarrow> (unit, node list) walk_result" where
  "Search pred t = Walk (\<lambda>_. t) (\<lambda>n out.
     case (case pred of None \<Rightarrow> Some True | Some p \<Rightarrow> p n) of
       None \<Rightarrow> WPanic out
     | Some b \<Rightarrow> WDone (if b then out @ [n] else out)) []"

subsection \<open>The pre-order\<close>

definition sorted_folders :: "Tree \<Rightarrow> ID \<Rightarrow> ID list" where
  "sorted_folders t p = sort_key (\<lambda>i. the (folder_key t i)) (folderChildren t p)"

definition sorted_conns :: "Tree \<Rightarrow> ID \<Rightarrow> ID list" where
  "sorted_conns t p = sort_key (\<lambda>i. the (conn_key t i)) (connectionChildren t p)"

fun pre :: "nat \<Rightarrow> Tree \<Rightarrow> ID \<Rightarrow> node list" where
  "pre 0 t p = []"
| "pre (Suc n) t p = concat (map (\<lambda>i. folder_node t i # pre n t i) (sorted_folders t p)) @
     map (conn_node t) (sorted_conns t p)"

definition preorder :: "Tree \<Rightarrow> node list" where
  "preorder t = pre (tree_fuel t) t NilID"

fun visit_all :: "('e, 's) visitor \<Rightarrow> node list \<Rightarrow> 's \<Rightarrow> ('e, 's) walk_result" where
  "visit_all v [] s = WDone s"
| "visit_all v (n # ns) s = (case v n s of WDone s' \<Rightarrow> visit_all v ns s' | r \<Rightarrow> r)"

lemma visit_all_append:
  "visit_all v (xs @ ys) s = (case visit_all v xs s of WDone s' \<Rightarrow> visit_all v ys s' | r \<Rightarrow> r)"
  by (induction xs arbitrary: s) (auto split: walk_result.splits)

text \<open>A visitor that leaves the tree alone.\<close>

definition read_only :: "('s \<Rightarrow> Tree) \<Rightarrow> ('e, 's) visitor \<Rightarrow> bool" where
  "read_only g v \<longleftrightarrow> (\<forall>n s s'. v n s = WDone s' \<longrightarrow> g s' = g s)"

lemma read_only_visit_all:
  "read_only g v \<Longrightarrow> visit_all v ns s = WDone s' \<Longrightarrow> g s' = g s"
  by (induction ns arbitrary: s) (auto simp: read_only_def split: walk_result.splits)

lemma sort_ids_known:
  assumes "\<forall>i \<in> set ids. key i \<noteq> None"
  shows "sort_ids key ids = Some (sort_key (\<lambda>i. the (key i)) ids)"
proof (cases "length ids < 2")
  case True
  then consider "ids = []" | x where "ids = [x]" by (cases ids; cases "tl ids") auto
  then show ?thesis by cases (simp_all add: sort_ids_def)
next
  case False
  with assms show ?thesis by (simp add: sort_ids_def list_all_iff)
qed

lemma sort_ids_folders:
  "wf_tree t \<Longrightarrow> sort_ids (folder_key t) (folderChildren t p) = Some (sorted_folders t p)"
  unfolding sorted_folders_def
  by (rule sort_ids_known) (auto simp: folder_key_def wf_folderChildren)

lemma sort_ids_conns:
  "wf_tree t \<Longrightarrow> sort_ids (conn_key t) (connectionChildren t p) = Some (sorted_conns t p)"
  unfolding sorted_conns_def
  by (rule sort_ids_known) (auto simp: conn_key_def wf_connectionChildren)

lemma walk_conns_visit_all:
  "read_only g v \<Longrightarrow> g s = t \<Longrightarrow> walk_conns g v ids s = visit_all v (map (conn_node t) ids) s"
  by (induction ids arbitrary: s) (auto simp: read_only_def split: walk_result.splits)

lemma walk_folders_visit_all:
  assumes ro: "read_only g v"
    and sub: "\<And>i s. i \<in> set ids \<Longrightarrow> g s = t \<Longrightarrow> walkFrom n g v i s = visit_all v (pre n t i) s"
  shows "g s = t \<Longrightarrow> walk_folders n g v ids s =
    visit_all v (concat (map (\<lambda>i. folder_node t i # pre n t i) ids)) s"
  using sub
proof (induction ids arbitrary: s)
  case (Cons i ids)
  show ?case
  proof (cases "v (folder_node t i) s")
    case (WDone s1)
    with ro Cons.prems(1) have s1: "g s1 = t" by (auto simp: read_only_def)
    have w: "walkFrom n g v i s1 = visit_all v (pre n t i) s1" using Cons.prems(2) s1 by simp
    show ?thesis
    proof (cases "visit_all v (pre n t i) s1")
      case (WDone s2)
      with read_only_visit_all [OF ro this] s1 have "g s2 = t" by simp
      then show ?thesis using Cons WDone \<open>v (folder_node t i) s = WDone s1\<close> w
        by (simp add: visit_all_append)
    qed (use Cons.prems WDone w in \<open>simp_all add: visit_all_append\<close>)
  qed (use Cons.prems in simp_all)
qed simp

lemma set_sorted [simp]:
  "set (sorted_folders t p) = set (folderChildren t p)"
  "set (sorted_conns t p) = set (connectionChildren t p)"
  by (simp_all add: sorted_folders_def sorted_conns_def)

lemma child_rooted:
  assumes "wf_tree t" "rooted (folders t) d p" "i \<in> set (folderChildren t p)"
  shows "rooted (folders t) (Suc d) i"
proof -
  obtain f where f: "folder_at t i = Some f" "f_ParentID f = p"
    using assms(1,3) by (auto simp: wf_folderChildren)
  with wf_folder(2) [OF assms(1) f(1)] assms(2) show ?thesis
    using rooted_folder [of "folders t" i f d] by simp
qed

lemma child_not_above:
  assumes wf: "wf_tree t" and r: "rooted (folders t) d p" and i: "i \<in> set (folderChildren t p)"
  shows "\<not> under (folders t) i p"
proof
  assume "under (folders t) i p"
  from under_depth [OF this r] obtain e where e: "rooted (folders t) e i" "e < d \<or> i = p" by blast
  have "e = Suc d" using rooted_unique [OF e(1) child_rooted [OF wf r i]] .
  moreover have "e = d" if "i = p" using e(1) r that rooted_unique by blast
  ultimately show False using e(2) by auto
qed

lemma walkFrom_visit_all:
  assumes wf: "wf_tree t" and ro: "read_only g v"
  shows "rooted (folders t) d p \<Longrightarrow> gomap_len (folders t) < n + d \<Longrightarrow> g s = t \<Longrightarrow>
    walkFrom n g v p s = visit_all v (pre n t p) s"
proof (induction n arbitrary: d p s)
  case 0
  then show ?case using rooted_bound by fastforce
next
  case (Suc n)
  let ?fs = "concat (map (\<lambda>i. folder_node t i # pre n t i) (sorted_folders t p))"
  have sub: "walkFrom n g v i s' = visit_all v (pre n t i) s'"
    if "i \<in> set (sorted_folders t p)" "g s' = t" for i s'
    using Suc.IH [OF child_rooted [OF wf Suc.prems(1)], of i s'] that Suc.prems(2) by simp
  have fs: "walk_folders n g v (sorted_folders t p) s = visit_all v ?fs s"
    by (rule walk_folders_visit_all [OF ro sub Suc.prems(3)])
  show ?case
  proof (cases "visit_all v ?fs s")
    case (WDone s1)
    with read_only_visit_all [OF ro this] Suc.prems(3) have s1: "g s1 = t" by simp
    show ?thesis using fs WDone s1 walk_conns_visit_all [OF ro s1]
      by (simp add: Suc.prems(3) sort_ids_folders [OF wf] sort_ids_conns [OF wf] visit_all_append)
  qed (use fs in \<open>simp_all add: Suc.prems(3) sort_ids_folders [OF wf] visit_all_append\<close>)
qed

theorem Walk_preorder:
  assumes "wf_tree (g s)" "read_only g v"
  shows "Walk g v s = visit_all v (preorder (g s)) s"
  unfolding Walk_def preorder_def
  by (rule walkFrom_visit_all [OF assms rooted_nil]) (simp_all add: tree_fuel_def)

subsection \<open>The nodes of the walk\<close>

definition nodes_below :: "Tree \<Rightarrow> ID \<Rightarrow> node set" where
  "nodes_below t p =
     {NFolder f | f i. folder_at t i = Some f \<and> i \<noteq> p \<and> under (folders t) p i} \<union>
     {NConn c | c k. conn_at t k = Some c \<and> under (folders t) p (c_ParentID c)}"

lemma folder_node_known: "folder_at t i = Some f \<Longrightarrow> folder_node t i = NFolder f"
  by (simp add: folder_node_def)

lemma conn_node_known: "conn_at t i = Some c \<Longrightarrow> conn_node t i = NConn c"
  by (simp add: conn_node_def)

lemma nodes_below_unfold:
  assumes wf: "wf_tree t" and r: "rooted (folders t) d p"
  shows "nodes_below t p =
    (\<Union>i \<in> set (folderChildren t p). insert (folder_node t i) (nodes_below t i)) \<union>
    conn_node t ` set (connectionChildren t p)" (is "_ = ?U \<union> ?C")
proof (intro equalityI subsetI)
  fix n assume "n \<in> nodes_below t p"
  then consider f i where "n = NFolder f" "folder_at t i = Some f" "i \<noteq> p" "under (folders t) p i"
    | c k where "n = NConn c" "conn_at t k = Some c" "under (folders t) p (c_ParentID c)"
    by (auto simp: nodes_below_def)
  then show "n \<in> ?U \<union> ?C"
  proof cases
    case (1 f i)
    then obtain s where s: "s \<in> set (folderChildren t p)" "under (folders t) s i"
      using below_children [OF wf, of p i] by (auto simp: below_def)
    have "n \<in> insert (folder_node t s) (nodes_below t s)"
      using 1(1,2) s(2) by (cases "s = i") (auto simp: folder_node_known nodes_below_def)
    with s(1) show ?thesis by blast
  next
    case (2 c k)
    consider "c_ParentID c = p" | s where "s \<in> set (folderChildren t p)" "under (folders t) s (c_ParentID c)"
      using below_children [OF wf, of p "c_ParentID c"] 2(3) by (auto simp: below_def)
    then show ?thesis
    proof cases
      case 1
      then have "k \<in> set (connectionChildren t p)" using 2(2) wf_connectionChildren [OF wf] by blast
      then show ?thesis using conn_node_known [OF 2(2)] 2(1) by force
    next
      case (2 s)
      then have "n \<in> nodes_below t s" using \<open>n = NConn c\<close> \<open>conn_at t k = Some c\<close>
        by (auto simp: nodes_below_def)
      with 2(1) show ?thesis by blast
    qed
  qed
next
  fix n assume "n \<in> ?U \<union> ?C"
  then consider s where "s \<in> set (folderChildren t p)" "n \<in> insert (folder_node t s) (nodes_below t s)"
    | k where "k \<in> set (connectionChildren t p)" "n = conn_node t k" by auto
  then show "n \<in> nodes_below t p"
  proof cases
    case (1 s)
    obtain f where f: "folder_at t s = Some f" "f_ParentID f = p"
      using 1(1) wf_folderChildren [OF wf] by blast
    have u: "under (folders t) p s"
      using under_step [of "folders t" s f p] f wf_folder(2) [OF wf f(1)] by simp
    have sp: "s \<noteq> p" using child_rooted [OF wf r 1(1)] r rooted_unique by fastforce
    have "i \<noteq> p" if "under (folders t) s i" for i
      using that under_depth [OF _ r] child_rooted [OF wf r 1(1)] sp rooted_unique
      by (metis Suc_n_not_le_n less_imp_le_nat)
    with 1(2) f u sp under_trans [of "folders t"] show ?thesis
      by (auto simp: folder_node_known nodes_below_def) blast+
  next
    case (2 k)
    then show ?thesis using wf_connectionChildren [OF wf, of k p]
      by (auto simp: conn_node_known nodes_below_def)
  qed
qed

lemma set_pre:
  assumes wf: "wf_tree t"
  shows "rooted (folders t) d p \<Longrightarrow> gomap_len (folders t) < n + d \<Longrightarrow> set (pre n t p) = nodes_below t p"
proof (induction n arbitrary: d p)
  case 0
  then show ?case using rooted_bound by fastforce
next
  case (Suc n)
  have "set (pre n t i) = nodes_below t i" if "i \<in> set (folderChildren t p)" for i
    using Suc.IH [OF child_rooted [OF wf Suc.prems(1) that]] Suc.prems(2) by simp
  then show ?case by (auto simp: nodes_below_unfold [OF wf Suc.prems(1)])
qed

theorem set_preorder:
  assumes "wf_tree t"
  shows "set (preorder t) = {NFolder f | f i. folder_at t i = Some f} \<union>
    {NConn c | c k. conn_at t k = Some c}"
proof -
  have "set (preorder t) = nodes_below t NilID"
    unfolding preorder_def by (rule set_pre [OF assms rooted_nil]) (simp add: tree_fuel_def)
  moreover have "under (folders t) NilID i" if "folder_at t i = Some f" for i f
    using wf_folder(3) [OF assms that] under_Nil_root by blast
  moreover have "under (folders t) NilID (c_ParentID c)" if "conn_at t k = Some c" for k c
    using wf_conn(4) [OF assms that] wf_rooted [OF assms, of "c_ParentID c"] under_Nil_root by blast
  ultimately show ?thesis unfolding nodes_below_def using wf_folder(2) [OF assms] by blast
qed

text \<open>The folder a node hangs below (itself, for a folder): siblings have disjoint subtrees.\<close>

fun anchor :: "node \<Rightarrow> ID" where
  "anchor (NFolder f) = f_ID f"
| "anchor (NConn c) = c_ParentID c"
| "anchor _ = NilID"

lemma anchor_below:
  "wf_tree t \<Longrightarrow> n \<in> nodes_below t i \<Longrightarrow> under (folders t) i (anchor n)"
  by (auto simp: nodes_below_def dest: wf_folder(1))

lemma anchor_folder_node:
  "wf_tree t \<Longrightarrow> folder_at t i = Some f \<Longrightarrow> anchor (folder_node t i) = i"
  by (simp add: folder_node_known wf_folder(1))

lemma distinct_concat_blocks:
  "distinct ids \<Longrightarrow> (\<And>i. i \<in> set ids \<Longrightarrow> distinct (h i)) \<Longrightarrow>
    (\<And>i j. i \<in> set ids \<Longrightarrow> j \<in> set ids \<Longrightarrow> i \<noteq> j \<Longrightarrow> set (h i) \<inter> set (h j) = {}) \<Longrightarrow>
    distinct (concat (map h ids))"
proof (induction ids)
  case (Cons i ids)
  have "set (h i) \<inter> set (h j) = {}" if "j \<in> set ids" for j
    using Cons.prems(1,3) that by (metis distinct.simps(2) list.set_intros(1,2))
  then show ?case using Cons by auto
qed simp

lemma distinct_pre:
  assumes wf: "wf_tree t"
  shows "rooted (folders t) d p \<Longrightarrow> gomap_len (folders t) < n + d \<Longrightarrow> distinct (pre n t p)"
proof (induction n arbitrary: d p)
  case (Suc n)
  let ?h = "\<lambda>i. folder_node t i # pre n t i" and ?ids = "sorted_folders t p"
  note child = child_rooted [OF wf Suc.prems(1)]
  have known: "\<exists>f. folder_at t i = Some f" if "i \<in> set ?ids" for i
    using that wf_folderChildren [OF wf] by auto
  have sub: "set (pre n t i) = nodes_below t i" if "i \<in> set ?ids" for i
    using set_pre [OF wf child, of i n] that Suc.prems(2) by simp
  have anc: "under (folders t) i (anchor m)" if "i \<in> set ?ids" "m \<in> set (?h i)" for i m
  proof (cases "m = folder_node t i")
    case True
    then show ?thesis using known [OF that(1)] anchor_folder_node [OF wf] under_refl by auto
  next
    case False
    then have "m \<in> nodes_below t i" using that sub by simp
    then show ?thesis by (rule anchor_below [OF wf])
  qed
  have blocks: "distinct (?h i)" if i: "i \<in> set ?ids" for i
  proof -
    obtain f where f: "folder_at t i = Some f" using known [OF i] by blast
    have "i' = i" if "folder_at t i' = Some f" for i'
      using wf_folder(1) [OF wf f] wf_folder(1) [OF wf that] by simp
    then have "folder_node t i \<notin> nodes_below t i"
      unfolding nodes_below_def folder_node_known [OF f] by blast
    moreover have "distinct (pre n t i)" using Suc.IH [OF child, of i] i Suc.prems(2) by simp
    ultimately show ?thesis using sub [OF i] by simp
  qed
  have disjoint: "set (?h i) \<inter> set (?h j) = {}" if "i \<in> set ?ids" "j \<in> set ?ids" "i \<noteq> j" for i j
  proof (rule ccontr)
    assume "set (?h i) \<inter> set (?h j) \<noteq> {}"
    then obtain m where "m \<in> set (?h i)" "m \<in> set (?h j)" by blast
    with anc that have "under (folders t) i (anchor m)" "under (folders t) j (anchor m)" by blast+
    from under_siblings [OF this child child] that show False by simp
  qed
  have cs: "distinct (map (conn_node t) (sorted_conns t p))"
  proof -
    have "inj_on (conn_node t) (set (connectionChildren t p))"
    proof (rule inj_onI)
      fix k l assume "k \<in> set (connectionChildren t p)" "l \<in> set (connectionChildren t p)"
      then obtain c d where c: "conn_at t k = Some c" "conn_at t l = Some d"
        using wf_connectionChildren [OF wf] by blast
      assume "conn_node t k = conn_node t l"
      with c have "c = d" by (simp add: conn_node_known)
      with wf_conn(1) [OF wf c(1)] wf_conn(1) [OF wf c(2)] show "k = l" by simp
    qed
    then show ?thesis using wf_distinct(2) [OF wf]
      by (simp add: distinct_map sorted_conns_def)
  qed
  have sep: "set (?h i) \<inter> conn_node t ` set (connectionChildren t p) = {}" if i: "i \<in> set ?ids" for i
  proof (rule ccontr)
    assume "set (?h i) \<inter> conn_node t ` set (connectionChildren t p) \<noteq> {}"
    then obtain k where k: "k \<in> set (connectionChildren t p)" "conn_node t k \<in> set (?h i)" by blast
    from k(1) have "anchor (conn_node t k) = p"
      by (auto simp: wf_connectionChildren [OF wf] conn_node_known)
    with anc [OF i k(2)] have "under (folders t) i p" by simp
    moreover have "\<not> under (folders t) i p"
      using i child_not_above [OF wf Suc.prems(1), of i] by simp
    ultimately show False by blast
  qed
  have "distinct (concat (map ?h ?ids))"
    using wf_distinct(1) [OF wf] blocks disjoint
    by (intro distinct_concat_blocks) (simp_all add: sorted_folders_def)
  moreover have "set (concat (map ?h ?ids)) \<inter> set (map (conn_node t) (sorted_conns t p)) = {}"
    using sep unfolding set_concat set_map set_sorted(2) by blast
  ultimately show ?case using cs by (simp only: pre.simps distinct_append)
qed simp

theorem preorder_once:
  assumes wf: "wf_tree t"
  shows "distinct (map NodeID (preorder t))"
proof -
  have d: "distinct (preorder t)"
    unfolding preorder_def by (rule distinct_pre [OF wf rooted_nil]) (simp add: tree_fuel_def)
  have "inj_on NodeID (set (preorder t))"
    unfolding set_preorder [OF wf]
    using wf_folder(1) [OF wf] wf_conn(1,3) [OF wf] by (intro inj_onI) auto
  with d show ?thesis by (simp add: distinct_map)
qed

subsection \<open>Parents first\<close>

text \<open>Every node of the list has its parent among \<open>S\<close> and the folders before it.\<close>

fun parents_first :: "ID set \<Rightarrow> node list \<Rightarrow> bool" where
  "parents_first S [] = True"
| "parents_first S (NFolder f # ns) = (f_ParentID f \<in> S \<and> parents_first (insert (f_ID f) S) ns)"
| "parents_first S (NConn c # ns) = (c_ParentID c \<in> S \<and> parents_first S ns)"
| "parents_first S (n # ns) = False"

fun folder_ids :: "node list \<Rightarrow> ID set" where
  "folder_ids [] = {}"
| "folder_ids (NFolder f # ns) = insert (f_ID f) (folder_ids ns)"
| "folder_ids (n # ns) = folder_ids ns"

lemma parents_first_append:
  "parents_first S (xs @ ys) \<longleftrightarrow> parents_first S xs \<and> parents_first (S \<union> folder_ids xs) ys"
  by (induction S xs rule: parents_first.induct) (auto simp: insert_commute)

lemma parents_first_mono: "parents_first S xs \<Longrightarrow> S \<subseteq> T \<Longrightarrow> parents_first T xs"
proof (induction S xs arbitrary: T rule: parents_first.induct)
  case (2 S f ns)
  then show ?case using 2(1) [of "insert (f_ID f) T"] by auto
qed auto

lemma parents_first_concat:
  "(\<And>i. i \<in> set ids \<Longrightarrow> parents_first S (h i)) \<Longrightarrow> parents_first S (concat (map h ids))"
proof (induction ids)
  case (Cons i ids)
  then show ?case using parents_first_mono [of S "concat (map h ids)"]
    by (simp add: parents_first_append)
qed simp

lemma parents_first_conns:
  "(\<And>k. k \<in> set ks \<Longrightarrow> \<exists>c. conn_at t k = Some c \<and> c_ParentID c \<in> S) \<Longrightarrow>
    parents_first S (map (conn_node t) ks)"
proof (induction ks)
  case (Cons k ks)
  from Cons.prems [of k] obtain c where "conn_at t k = Some c" "c_ParentID c \<in> S" by auto
  with Cons show ?case by (simp add: conn_node_known)
qed simp

lemma parents_first_pre:
  assumes wf: "wf_tree t"
  shows "parents_first {p} (pre n t p)"
proof (induction n arbitrary: p)
  case (Suc n)
  have block: "parents_first {p} (folder_node t i # pre n t i)" if "i \<in> set (sorted_folders t p)" for i
  proof -
    obtain f where f: "folder_at t i = Some f" "f_ParentID f = p"
      using \<open>i \<in> set (sorted_folders t p)\<close> wf_folderChildren [OF wf] by auto
    with Suc.IH [of i] parents_first_mono [of "{i}" _ "{i, p}"] show ?thesis
      by (simp add: folder_node_known wf_folder(1) [OF wf f(1)])
  qed
  have conns: "parents_first {p} (map (conn_node t) (sorted_conns t p))"
    using wf_connectionChildren [OF wf] by (intro parents_first_conns) auto
  have "parents_first {p} (concat (map (\<lambda>i. folder_node t i # pre n t i) (sorted_folders t p)))"
    by (rule parents_first_concat [OF block])
  then show ?case
    using parents_first_mono [OF conns] by (simp add: parents_first_append)
qed simp

theorem preorder_parents_first: "wf_tree t \<Longrightarrow> parents_first {NilID} (preorder t)"
  unfolding preorder_def by (rule parents_first_pre)

subsection \<open>Search and Ancestors\<close>

definition total_pred :: "predicate option \<Rightarrow> bool" where
  "total_pred pred \<longleftrightarrow> (case pred of None \<Rightarrow> True
     | Some p \<Rightarrow> (\<forall>f. p (NFolder f) \<noteq> None) \<and> (\<forall>c. p (NConn c) \<noteq> None))"

definition matches :: "predicate option \<Rightarrow> node \<Rightarrow> bool" where
  "matches pred n = (case pred of None \<Rightarrow> True | Some p \<Rightarrow> p n = Some True)"

lemma Search_filter:
  assumes wf: "wf_tree t" and tp: "total_pred pred"
  shows "Search pred t = WDone (filter (matches pred) (preorder t))"
proof -
  let ?v = "\<lambda>n out. case (case pred of None \<Rightarrow> Some True | Some p \<Rightarrow> p n) of
      None \<Rightarrow> WPanic out | Some b \<Rightarrow> WDone (if b then out @ [n] else out)"
  have one: "?v n out = (WDone (if matches pred n then out @ [n] else out) :: (unit, _) walk_result)"
    if "n \<in> set (preorder t)" for n out
  proof -
    from that consider f where "n = NFolder f" | c where "n = NConn c"
      by (auto simp: set_preorder [OF wf])
    then have "pred = None \<or> (\<exists>p b. pred = Some p \<and> p n = Some b)"
      using tp by cases (auto simp: total_pred_def split: option.splits)
    then show ?thesis by (auto simp: matches_def)
  qed
  have all: "set ns \<subseteq> set (preorder t) \<Longrightarrow>
      visit_all ?v ns out = (WDone (out @ filter (matches pred) ns) :: (unit, _) walk_result)" for ns out
    using one by (induction ns arbitrary: out) auto
  have "Search pred t = visit_all ?v (preorder t) []"
    unfolding Search_def by (rule Walk_preorder) (simp_all add: wf read_only_def)
  with all [of "preorder t" "[]"] show ?thesis by simp
qed

inductive chain :: "fmapF \<Rightarrow> ID \<Rightarrow> FolderNode list \<Rightarrow> bool" for F where
  chain_root: "chain F NilID []"
| chain_folder: "fmlookup F p = Some f \<Longrightarrow> p \<noteq> NilID \<Longrightarrow> chain F (f_ParentID f) fs \<Longrightarrow>
    chain F p (fs @ [f])"

lemma ancestors_loop_chain:
  "rooted (folders t) d p \<Longrightarrow> d < n \<Longrightarrow>
    \<exists>fs. chain (folders t) p fs \<and> ancestors_loop n t p acc = Some (Inr (fs @ rev acc))"
proof (induction arbitrary: n acc rule: rooted.induct)
  case rooted_nil
  then show ?case using chain_root by (cases n) (auto simp: ReverseFolders_def)
next
  case (rooted_folder i f d)
  then obtain m where m: "n = Suc m" "d < m" by (cases n) auto
  from rooted_folder.IH [OF m(2), of "acc @ [f]"] obtain fs where
    "chain (folders t) (f_ParentID f) fs"
    "ancestors_loop m t (f_ParentID f) (acc @ [f]) = Some (Inr (fs @ rev (acc @ [f])))" by blast
  with chain_folder [OF rooted_folder.hyps(1,2)] rooted_folder.hyps(1,2) m(1) show ?case by auto
qed

lemma ancestors_loop_ok:
  assumes "wf_tree t" "p = NilID \<or> folder_at t p \<noteq> None"
  shows "\<exists>fs. chain (folders t) p fs \<and> ancestors_loop (tree_fuel t) t p [] = Some (Inr fs)"
proof -
  obtain d where d: "rooted (folders t) d p" using wf_rooted [OF assms] by blast
  with ancestors_loop_chain [OF d, of "tree_fuel t" "[]"] rooted_bound [OF d] show ?thesis
    by (simp add: tree_fuel_def)
qed

end
