(* ===== verification/SearchPred.thy ===== *)
theory SearchPred
  imports TreeWalk
begin

text \<open>
  \<open>internal/domain/search.go\<close>: the node predicates and their combinators. A predicate
  value is an \<open>option\<close> (the interface may be nil); applying one to a nil node panics.
\<close>

definition MatchAll :: predicate where "MatchAll n = Some True"
definition MatchNone :: predicate where "MatchNone n = Some False"

text \<open>The inner loop of \<open>containsFoldASCII\<close>, at the position where the window starts.\<close>

fun fold_match :: "string \<Rightarrow> string \<Rightarrow> bool" where
  "fold_match s [] = True"
| "fold_match [] (d # ds) = False"
| "fold_match (c # cs) (d # ds) = (if lower_char c \<noteq> d then False else fold_match cs ds)"

definition containsFoldASCII :: "(string \<Rightarrow> string) \<Rightarrow> string \<Rightarrow> string \<Rightarrow> bool" where
  "containsFoldASCII ul s substr =
     (if length substr = 0 then True
      else if length s < length substr then False
      else if is_ascii s
      then list_ex (\<lambda>i. fold_match (drop i s) substr) [0..<length s - length substr + 1]
      else contains (to_lower ul s) substr)"

definition MatchName :: "(string \<Rightarrow> string) \<Rightarrow> string \<Rightarrow> predicate" where
  "MatchName ul substr n = (let needle = to_lower ul substr in case n of
     NFolder v \<Rightarrow> Some (containsFoldASCII ul (f_Name v) needle)
   | NConn v \<Rightarrow> Some (containsFoldASCII ul (c_Name v) needle)
   | _ \<Rightarrow> None)"

fun has_tag :: "(string \<Rightarrow> string) \<Rightarrow> string \<Rightarrow> string list \<Rightarrow> bool" where
  "has_tag ul want [] = False"
| "has_tag ul want (t # ts) = (if to_lower ul t = want then True else has_tag ul want ts)"

definition MatchTag :: "(string \<Rightarrow> string) \<Rightarrow> string \<Rightarrow> predicate" where
  "MatchTag ul tag n = (let want = to_lower ul tag in case n of
     NFolder v \<Rightarrow> Some (has_tag ul want (f_Tags v))
   | NConn v \<Rightarrow> Some (has_tag ul want (c_Tags v))
   | _ \<Rightarrow> None)"

text \<open>A nil connection still has the dynamic type the assertion asks for: its field is read.\<close>

definition MatchProtocol :: "string \<Rightarrow> predicate" where
  "MatchProtocol i n = (case n of
     NConn c \<Rightarrow> Some (c_ProtocolID c = i) | NNilConn \<Rightarrow> None | _ \<Rightarrow> Some False)"

fun And :: "predicate option list \<Rightarrow> predicate" where
  "And [] n = Some True"
| "And (None # ps) n = And ps n"
| "And (Some p # ps) n =
     (case p n of None \<Rightarrow> None | Some False \<Rightarrow> Some False | Some True \<Rightarrow> And ps n)"

fun Or :: "predicate option list \<Rightarrow> predicate" where
  "Or [] n = Some False"
| "Or (None # ps) n = Or ps n"
| "Or (Some p # ps) n =
     (case p n of None \<Rightarrow> None | Some True \<Rightarrow> Some True | Some False \<Rightarrow> Or ps n)"

definition Not :: "predicate option \<Rightarrow> predicate" where
  "Not inner n = (case inner of None \<Rightarrow> Some True | Some p \<Rightarrow> map_option HOL.Not (p n))"

subsection \<open>The window scan is containment of the folded string\<close>

lemma fold_match_iff: "fold_match s sub \<longleftrightarrow> has_prefix (map lower_char s) sub"
  by (induction s sub rule: fold_match.induct) auto

lemma list_ex_window:
  assumes "length sub \<le> length s"
  shows "list_ex (\<lambda>i. has_prefix (drop i s) sub) [0..<length s - length sub + 1] = contains s sub"
proof -
  have "list_ex (\<lambda>i. has_prefix (drop i s) sub) [0..<length s - length sub + 1] \<longleftrightarrow>
      (\<exists>i \<le> length s - length sub. has_prefix (drop i s) sub)"
    unfolding list_ex_iff set_upt by (metis Suc_eq_plus1 atLeastLessThan_iff le0 less_Suc_eq_le)
  then show ?thesis using assms by (simp add: contains_iff_take has_prefix_take)
qed

lemma to_lower_length_ascii: "is_ascii s \<Longrightarrow> length (to_lower ul s) = length s"
  by (simp add: to_lower_def)

lemma containsFoldASCII_spec:
  "containsFoldASCII ul s sub \<longleftrightarrow>
    sub = [] \<or> length sub \<le> length s \<and> contains (to_lower ul s) sub"
proof -
  have "list_ex (\<lambda>i. fold_match (drop i s) sub) [0..<length s - length sub + 1] =
      contains (map lower_char s) sub" if "length sub \<le> length s"
    using list_ex_window [of sub "map lower_char s"] that by (simp add: fold_match_iff drop_map)
  then show ?thesis by (auto simp: containsFoldASCII_def to_lower_def)
qed

lemma has_tag_iff: "has_tag ul want ts \<longleftrightarrow> (\<exists>t \<in> set ts. to_lower ul t = want)"
  by (induction ts) auto

lemma contains_refl [simp]: "contains s s"
  unfolding contains_iff by (intro exI [of _ "[]"]) simp

text \<open>On non-nil nodes the combinators are the Boolean ones.\<close>

lemma And_spec:
  "(\<forall>p \<in> set ps. \<forall>q. p = Some q \<longrightarrow> q n \<noteq> None) \<Longrightarrow>
    And ps n = Some (\<forall>p \<in> set ps. matches p n)"
  by (induction ps n rule: And.induct) (auto simp: matches_def split: option.splits bool.splits)

lemma Or_spec:
  "(\<forall>p \<in> set ps. \<forall>q. p = Some q \<longrightarrow> q n \<noteq> None) \<Longrightarrow>
    Or ps n = Some (\<exists>p \<in> set ps. p \<noteq> None \<and> matches p n)"
  by (induction ps n rule: Or.induct) (auto simp: matches_def split: option.splits bool.splits)

lemma total_preds:
  "total_pred (Some (MatchName ul x))" "total_pred (Some (MatchTag ul x))"
  "total_pred (Some (MatchProtocol x))" "total_pred (Some MatchAll)" "total_pred (Some MatchNone)"
  by (simp_all add: total_pred_def MatchName_def MatchTag_def MatchProtocol_def MatchAll_def
      MatchNone_def Let_def)

lemma total_And: "list_all total_pred ps \<Longrightarrow> total_pred (Some (And ps))"
  by (auto simp: total_pred_def list_all_iff And_spec split: option.splits)

lemma total_Or: "list_all total_pred ps \<Longrightarrow> total_pred (Some (Or ps))"
  by (auto simp: total_pred_def list_all_iff Or_spec split: option.splits)

lemma total_Not: "total_pred p \<Longrightarrow> total_pred (Some (Not p))"
  by (auto simp: total_pred_def Not_def split: option.splits)

lemma real_nodes:
  assumes "wf_tree t" "n \<in> set (preorder t)" "total_pred p"
  shows "\<forall>q. p = Some q \<longrightarrow> q n \<noteq> None"
  using assms by (auto simp: set_preorder total_pred_def split: option.splits)

lemma matches_And:
  assumes "wf_tree t" "n \<in> set (preorder t)" "list_all total_pred ps"
  shows "matches (Some (And ps)) n \<longleftrightarrow> (\<forall>p \<in> set ps. matches p n)"
proof -
  have "And ps n = Some (\<forall>p \<in> set ps. matches p n)"
    by (rule And_spec) (use real_nodes [OF assms(1,2)] assms(3) in \<open>unfold list_all_iff, blast\<close>)
  then show ?thesis unfolding matches_def [of "Some (And ps)"] by simp
qed

lemma matches_Or:
  assumes "wf_tree t" "n \<in> set (preorder t)" "list_all total_pred ps"
  shows "matches (Some (Or ps)) n \<longleftrightarrow> (\<exists>p \<in> set ps. p \<noteq> None \<and> matches p n)"
proof -
  have "Or ps n = Some (\<exists>p \<in> set ps. p \<noteq> None \<and> matches p n)"
    by (rule Or_spec) (use real_nodes [OF assms(1,2)] assms(3) in \<open>unfold list_all_iff, blast\<close>)
  then show ?thesis unfolding matches_def [of "Some (Or ps)"] by simp
qed

lemma matches_Not:
  assumes "wf_tree t" "n \<in> set (preorder t)" "total_pred p"
  shows "matches (Some (Not p)) n \<longleftrightarrow> p = None \<or> \<not> matches p n"
  using real_nodes [OF assms] by (cases p) (force simp: matches_def Not_def)+

end
