(* ===== verification/Inheritance.thy ===== *)
theory Inheritance
  imports Nodes
begin

text \<open>
  \<open>internal/domain/inheritance.go\<close>: how the effective value of every inheritable field of a
  connection is found along its folders, and where it came from.
\<close>

definition AllInheritableFields :: "Field list" where
  "AllInheritableFields = [FieldProtocolID, FieldHost, FieldPort, FieldUsername, FieldAuthMethod,
     FieldCredentialRef, FieldSettings, FieldTags, FieldColor, FieldIcon, FieldEnvironment,
     FieldDescription]"

definition SetExplicit :: "Field \<Rightarrow> InheritanceProfile \<Rightarrow> InheritanceProfile" where
  "SetExplicit f p = p\<lparr>Explicit := (Explicit p)(f \<mapsto> True), Inherit := (Inherit p)(f := None)\<rparr>"

definition SetInherit :: "Field \<Rightarrow> InheritanceProfile \<Rightarrow> InheritanceProfile" where
  "SetInherit f p = p\<lparr>Inherit := (Inherit p)(f \<mapsto> True), Explicit := (Explicit p)(f := None)\<rparr>"

text \<open>Reading an absent key of a \<open>map[Field]bool\<close> gives false.\<close>

definition flag :: "(Field \<rightharpoonup> bool) \<Rightarrow> Field \<Rightarrow> bool" where
  "flag m f = (m f = Some True)"

datatype ProvenanceSource = ProvenanceNode | ProvenanceFolder | ProvenanceDefault

record Provenance =
  pv_Field :: Field
  pv_Source :: ProvenanceSource
  pv_FolderID :: ID

record ResolvedConnection =
  rc_node :: ConnectionNode
  rc_Trace :: "Field \<rightharpoonup> Provenance"

subsection \<open>Zero tests and copies, field by field\<close>

definition isRefZero :: "Reference \<Rightarrow> bool" where
  "isRefZero r = (ProviderID r = '''' \<and> EntryID r = '''' \<and> map_len (Hints r) = 0)"

definition cloneRef :: "Reference \<Rightarrow> Reference" where
  "cloneRef r = \<lparr>ProviderID = ProviderID r, EntryID = EntryID r,
     Hints = (if map_len (Hints r) > 0 then Hints r else None)\<rparr>"

definition cloneSettings :: "settings \<Rightarrow> settings" where
  "cloneSettings m = (if map_len m = 0 then None else m)"

definition cloneTags :: "string list \<Rightarrow> string list" where
  "cloneTags t = (if length t = 0 then [] else t)"

fun isNodeFieldZero :: "ConnectionNode \<Rightarrow> Field \<Rightarrow> bool" where
  "isNodeFieldZero n FieldProtocolID = (c_ProtocolID n = '''')"
| "isNodeFieldZero n FieldHost = (c_Host n = '''')"
| "isNodeFieldZero n FieldPort = (c_Port n = 0)"
| "isNodeFieldZero n FieldUsername = (c_Username n = '''')"
| "isNodeFieldZero n FieldAuthMethod = (c_AuthMethod n = '''')"
| "isNodeFieldZero n FieldCredentialRef = isRefZero (c_CredentialRef n)"
| "isNodeFieldZero n FieldSettings = (map_len (c_Settings n) = 0)"
| "isNodeFieldZero n FieldTags = (length (c_Tags n) = 0)"
| "isNodeFieldZero n FieldColor = (c_Color n = '''')"
| "isNodeFieldZero n FieldIcon = (c_Icon n = '''')"
| "isNodeFieldZero n FieldEnvironment = (c_Environment n = '''')"
| "isNodeFieldZero n FieldDescription = (c_Description n = '''')"

fun isDefaultZero :: "FolderDefaults \<Rightarrow> Field \<Rightarrow> bool" where
  "isDefaultZero d FieldProtocolID = (d_ProtocolID d = '''')"
| "isDefaultZero d FieldHost = (d_Host d = '''')"
| "isDefaultZero d FieldPort = (d_Port d = 0)"
| "isDefaultZero d FieldUsername = (d_Username d = '''')"
| "isDefaultZero d FieldAuthMethod = (d_AuthMethod d = '''')"
| "isDefaultZero d FieldCredentialRef = isRefZero (d_CredentialRef d)"
| "isDefaultZero d FieldSettings = (map_len (d_Settings d) = 0)"
| "isDefaultZero d FieldTags = (length (d_Tags d) = 0)"
| "isDefaultZero d FieldColor = (d_Color d = '''')"
| "isDefaultZero d FieldIcon = (d_Icon d = '''')"
| "isDefaultZero d FieldEnvironment = (d_Environment d = '''')"
| "isDefaultZero d FieldDescription = (d_Description d = '''')"

definition isFolderDefaultZero :: "FolderNode \<Rightarrow> Field \<Rightarrow> bool" where
  "isFolderDefaultZero f fd = isDefaultZero (f_Defaults f) fd"

fun copyNodeField :: "ConnectionNode \<Rightarrow> ConnectionNode \<Rightarrow> Field \<Rightarrow> ConnectionNode" where
  "copyNodeField dst src FieldProtocolID = dst\<lparr>c_ProtocolID := c_ProtocolID src\<rparr>"
| "copyNodeField dst src FieldHost = dst\<lparr>c_Host := c_Host src\<rparr>"
| "copyNodeField dst src FieldPort = dst\<lparr>c_Port := c_Port src\<rparr>"
| "copyNodeField dst src FieldUsername = dst\<lparr>c_Username := c_Username src\<rparr>"
| "copyNodeField dst src FieldAuthMethod = dst\<lparr>c_AuthMethod := c_AuthMethod src\<rparr>"
| "copyNodeField dst src FieldCredentialRef = dst\<lparr>c_CredentialRef := cloneRef (c_CredentialRef src)\<rparr>"
| "copyNodeField dst src FieldSettings = dst\<lparr>c_Settings := cloneSettings (c_Settings src)\<rparr>"
| "copyNodeField dst src FieldTags = dst\<lparr>c_Tags := cloneTags (c_Tags src)\<rparr>"
| "copyNodeField dst src FieldColor = dst\<lparr>c_Color := c_Color src\<rparr>"
| "copyNodeField dst src FieldIcon = dst\<lparr>c_Icon := c_Icon src\<rparr>"
| "copyNodeField dst src FieldEnvironment = dst\<lparr>c_Environment := c_Environment src\<rparr>"
| "copyNodeField dst src FieldDescription = dst\<lparr>c_Description := c_Description src\<rparr>"

fun copyDefaultField :: "ConnectionNode \<Rightarrow> FolderDefaults \<Rightarrow> Field \<Rightarrow> ConnectionNode" where
  "copyDefaultField dst d FieldProtocolID = dst\<lparr>c_ProtocolID := d_ProtocolID d\<rparr>"
| "copyDefaultField dst d FieldHost = dst\<lparr>c_Host := d_Host d\<rparr>"
| "copyDefaultField dst d FieldPort = dst\<lparr>c_Port := d_Port d\<rparr>"
| "copyDefaultField dst d FieldUsername = dst\<lparr>c_Username := d_Username d\<rparr>"
| "copyDefaultField dst d FieldAuthMethod = dst\<lparr>c_AuthMethod := d_AuthMethod d\<rparr>"
| "copyDefaultField dst d FieldCredentialRef = dst\<lparr>c_CredentialRef := cloneRef (d_CredentialRef d)\<rparr>"
| "copyDefaultField dst d FieldSettings = dst\<lparr>c_Settings := cloneSettings (d_Settings d)\<rparr>"
| "copyDefaultField dst d FieldTags = dst\<lparr>c_Tags := cloneTags (d_Tags d)\<rparr>"
| "copyDefaultField dst d FieldColor = dst\<lparr>c_Color := d_Color d\<rparr>"
| "copyDefaultField dst d FieldIcon = dst\<lparr>c_Icon := d_Icon d\<rparr>"
| "copyDefaultField dst d FieldEnvironment = dst\<lparr>c_Environment := d_Environment d\<rparr>"
| "copyDefaultField dst d FieldDescription = dst\<lparr>c_Description := d_Description d\<rparr>"

definition copyFolderField :: "ConnectionNode \<Rightarrow> FolderNode \<Rightarrow> Field \<Rightarrow> ConnectionNode" where
  "copyFolderField dst a f = copyDefaultField dst (f_Defaults a) f"

fun zeroNodeField :: "ConnectionNode \<Rightarrow> Field \<Rightarrow> ConnectionNode" where
  "zeroNodeField n FieldProtocolID = n\<lparr>c_ProtocolID := ''''\<rparr>"
| "zeroNodeField n FieldHost = n\<lparr>c_Host := ''''\<rparr>"
| "zeroNodeField n FieldPort = n\<lparr>c_Port := 0\<rparr>"
| "zeroNodeField n FieldUsername = n\<lparr>c_Username := ''''\<rparr>"
| "zeroNodeField n FieldAuthMethod = n\<lparr>c_AuthMethod := ''''\<rparr>"
| "zeroNodeField n FieldCredentialRef = n\<lparr>c_CredentialRef := zero_ref\<rparr>"
| "zeroNodeField n FieldSettings = n\<lparr>c_Settings := None\<rparr>"
| "zeroNodeField n FieldTags = n\<lparr>c_Tags := []\<rparr>"
| "zeroNodeField n FieldColor = n\<lparr>c_Color := ''''\<rparr>"
| "zeroNodeField n FieldIcon = n\<lparr>c_Icon := ''''\<rparr>"
| "zeroNodeField n FieldEnvironment = n\<lparr>c_Environment := ''''\<rparr>"
| "zeroNodeField n FieldDescription = n\<lparr>c_Description := ''''\<rparr>"

subsection \<open>Resolution\<close>

text \<open>The ancestors are root-first, with nil entries skipped; the scan runs from the end.\<close>

fun nearest :: "Field \<Rightarrow> FolderNode option list \<Rightarrow> FolderNode option" where
  "nearest f [] = None"
| "nearest f (None # as) = nearest f as"
| "nearest f (Some a # as) = (if \<not> isFolderDefaultZero a f then Some a else nearest f as)"

definition resolveInto :: "InheritanceProfile \<Rightarrow> ConnectionNode \<Rightarrow> Field \<Rightarrow> ConnectionNode \<Rightarrow>
    FolderNode option list \<Rightarrow> ConnectionNode \<times> ProvenanceSource \<times> ID" where
  "resolveInto p out f node ancestors =
     (let forceExplicit = flag (Explicit p) f; forceInherit = flag (Inherit p) f in
      if forceExplicit then (copyNodeField out node f, ProvenanceNode, NilID)
      else if \<not> forceInherit \<and> \<not> isNodeFieldZero node f
      then (copyNodeField out node f, ProvenanceNode, NilID)
      else case nearest f (rev ancestors) of
          Some a \<Rightarrow> (copyFolderField out a f, ProvenanceFolder, f_ID a)
        | None \<Rightarrow>
            if forceInherit then (zeroNodeField out f, ProvenanceDefault, NilID)
            else (copyNodeField out node f, ProvenanceDefault, NilID))"

fun resolve_fields :: "InheritanceProfile \<Rightarrow> ConnectionNode \<Rightarrow> FolderNode option list \<Rightarrow>
    Field list \<Rightarrow> ResolvedConnection \<Rightarrow> ResolvedConnection" where
  "resolve_fields p node ancestors [] res = res"
| "resolve_fields p node ancestors (f # fs) res =
     (let (out, src, folderID) = resolveInto p (rc_node res) f node ancestors
      in resolve_fields p node ancestors fs
           \<lparr>rc_node = out, rc_Trace = (rc_Trace res)(f \<mapsto>
              \<lparr>pv_Field = f, pv_Source = src, pv_FolderID = folderID\<rparr>)\<rparr>)"

definition Resolve :: "InheritanceProfile \<Rightarrow> ConnectionNode option \<Rightarrow> FolderNode option list \<Rightarrow>
    ResolvedConnection" where
  "Resolve p node ancestors = (case node of
     None \<Rightarrow> \<lparr>rc_node = zero_conn, rc_Trace = Map.empty\<rparr>
   | Some n \<Rightarrow> resolve_fields p n ancestors AllInheritableFields
       \<lparr>rc_node = n, rc_Trace = Map.empty\<rparr>)"

subsection \<open>Specification: a field as a value\<close>

datatype fval = FStr string | FInt int | FRef Reference | FMap settings | FTags "string list"

fun node_field :: "ConnectionNode \<Rightarrow> Field \<Rightarrow> fval" where
  "node_field n FieldProtocolID = FStr (c_ProtocolID n)"
| "node_field n FieldHost = FStr (c_Host n)"
| "node_field n FieldPort = FInt (c_Port n)"
| "node_field n FieldUsername = FStr (c_Username n)"
| "node_field n FieldAuthMethod = FStr (c_AuthMethod n)"
| "node_field n FieldCredentialRef = FRef (c_CredentialRef n)"
| "node_field n FieldSettings = FMap (c_Settings n)"
| "node_field n FieldTags = FTags (c_Tags n)"
| "node_field n FieldColor = FStr (c_Color n)"
| "node_field n FieldIcon = FStr (c_Icon n)"
| "node_field n FieldEnvironment = FStr (c_Environment n)"
| "node_field n FieldDescription = FStr (c_Description n)"

fun default_field :: "FolderDefaults \<Rightarrow> Field \<Rightarrow> fval" where
  "default_field d FieldProtocolID = FStr (d_ProtocolID d)"
| "default_field d FieldHost = FStr (d_Host d)"
| "default_field d FieldPort = FInt (d_Port d)"
| "default_field d FieldUsername = FStr (d_Username d)"
| "default_field d FieldAuthMethod = FStr (d_AuthMethod d)"
| "default_field d FieldCredentialRef = FRef (d_CredentialRef d)"
| "default_field d FieldSettings = FMap (d_Settings d)"
| "default_field d FieldTags = FTags (d_Tags d)"
| "default_field d FieldColor = FStr (d_Color d)"
| "default_field d FieldIcon = FStr (d_Icon d)"
| "default_field d FieldEnvironment = FStr (d_Environment d)"
| "default_field d FieldDescription = FStr (d_Description d)"

text \<open>The clones turn an empty map into nil; \<open>fnorm\<close> is that on a field value.\<close>

fun fnorm :: "fval \<Rightarrow> fval" where
  "fnorm (FRef r) = FRef (cloneRef r)"
| "fnorm (FMap m) = FMap (cloneSettings m)"
| "fnorm v = v"

fun fzero :: "fval \<Rightarrow> bool" where
  "fzero (FStr s) = (s = '''')"
| "fzero (FInt i) = (i = 0)"
| "fzero (FRef r) = isRefZero r"
| "fzero (FMap m) = (map_len m = 0)"
| "fzero (FTags t) = (t = [])"

fun zero_of :: "Field \<Rightarrow> fval" where
  "zero_of FieldPort = FInt 0"
| "zero_of FieldCredentialRef = FRef zero_ref"
| "zero_of FieldSettings = FMap None"
| "zero_of FieldTags = FTags []"
| "zero_of _ = FStr ''''"

text \<open>The effective value of a field and its origin: the rules of the documentation.\<close>

definition effective :: "InheritanceProfile \<Rightarrow> ConnectionNode \<Rightarrow> FolderNode list \<Rightarrow> Field \<Rightarrow>
    fval \<times> Provenance" where
  "effective p n as f =
     (let own = fnorm (node_field n f);
          prov = (\<lambda>src fid. \<lparr>pv_Field = f, pv_Source = src, pv_FolderID = fid\<rparr>);
          explicit = flag (Explicit p) f; inherit = flag (Inherit p) f
      in if explicit \<or> (\<not> inherit \<and> \<not> fzero own) then (own, prov ProvenanceNode NilID)
         else case find (\<lambda>a. \<not> fzero (default_field (f_Defaults a) f)) (rev as) of
             Some a \<Rightarrow> (fnorm (default_field (f_Defaults a) f), prov ProvenanceFolder (f_ID a))
           | None \<Rightarrow> (zero_of f, prov ProvenanceDefault NilID))"

text \<open>The fields that are not inheritable.\<close>

definition identity_of :: "ConnectionNode \<Rightarrow>
    ID \<times> ID \<times> string \<times> bool \<times> InheritanceProfile \<times> time \<times> time" where
  "identity_of n = (c_ID n, c_ParentID n, c_Name n, c_Favorite n, c_Inheritance n,
     c_CreatedAt n, c_UpdatedAt n)"

lemma conn_ext:
  "identity_of m = identity_of n \<Longrightarrow> (\<And>f. node_field m f = node_field n f) \<Longrightarrow>
    m = (n :: ConnectionNode)"
proof -
  assume i: "identity_of m = identity_of n" and f: "\<And>f. node_field m f = node_field n f"
  show ?thesis
    using i f [of FieldProtocolID] f [of FieldHost] f [of FieldPort] f [of FieldUsername]
      f [of FieldAuthMethod] f [of FieldCredentialRef] f [of FieldSettings] f [of FieldTags]
      f [of FieldColor] f [of FieldIcon] f [of FieldEnvironment] f [of FieldDescription]
    by (simp add: identity_of_def)
qed

lemma Fields_all: "set AllInheritableFields = UNIV" "distinct AllInheritableFields"
proof -
  have "f \<in> set AllInheritableFields" for f by (cases f) (simp_all add: AllInheritableFields_def)
  then show "set AllInheritableFields = UNIV" by blast
qed (simp add: AllInheritableFields_def)

lemma cloneTags_id [simp]: "cloneTags t = t"
  by (simp add: cloneTags_def)

lemma isNodeFieldZero_fzero: "isNodeFieldZero n f = fzero (node_field n f)"
  by (cases f) simp_all

lemma isFolderDefaultZero_fzero: "isFolderDefaultZero a f = fzero (default_field (f_Defaults a) f)"
  by (cases f) (simp_all add: isFolderDefaultZero_def)

lemma copyNodeField_field:
  "node_field (copyNodeField dst src f) g = (if g = f then fnorm (node_field src f) else node_field dst g)"
  by (cases f; cases g; simp)

lemma copyFolderField_field:
  "node_field (copyFolderField dst a f) g =
    (if g = f then fnorm (default_field (f_Defaults a) f) else node_field dst g)"
  by (cases f; cases g; simp add: copyFolderField_def)

lemma zeroNodeField_field:
  "node_field (zeroNodeField n f) g = (if g = f then zero_of f else node_field n g)"
  by (cases f; cases g; simp)

lemma identity_writes [simp]:
  "identity_of (copyNodeField dst src f) = identity_of dst"
  "identity_of (copyFolderField dst a f) = identity_of dst"
  "identity_of (zeroNodeField dst f) = identity_of dst"
  by (cases f; simp add: identity_of_def copyFolderField_def)+

lemma cloneRef_zero: "isRefZero (cloneRef r) = isRefZero r"
  by (simp add: isRefZero_def cloneRef_def)

lemma fzero_fnorm [simp]: "fzero (fnorm v) = fzero v"
  by (cases v) (simp_all add: cloneRef_zero cloneSettings_def)

lemma fnorm_zero: "fzero (node_field n f) \<Longrightarrow> fnorm (node_field n f) = zero_of f"
  by (cases f) (auto simp: isRefZero_def cloneRef_def zero_ref_def cloneSettings_def)

lemma fnorm_idem [simp]: "fnorm (fnorm v) = fnorm v" "fnorm (zero_of f) = zero_of f"
  by (cases v; simp add: cloneRef_def cloneSettings_def)
    (cases f; simp add: cloneRef_def zero_ref_def cloneSettings_def)

lemma fzero_zero_of [simp]: "fzero (zero_of f)"
  by (cases f) (simp_all add: isRefZero_def zero_ref_def)

lemma nearest_find:
  "nearest f as = find (\<lambda>a. \<not> fzero (default_field (f_Defaults a) f)) (map the (filter (\<lambda>a. a \<noteq> None) as))"
  by (induction f as rule: nearest.induct) (auto simp: isFolderDefaultZero_fzero)

definition present :: "FolderNode option list \<Rightarrow> FolderNode list" where
  "present as = map the (filter (\<lambda>a. a \<noteq> None) as)"

lemma present_Some [simp]: "present (map Some fs) = fs"
  by (induction fs) (simp_all add: present_def)

lemma resolveInto_effective:
  assumes "resolveInto p out f n as = (out', src, fid)"
  shows "node_field out' f = fst (effective p n (present as) f)"
    and "\<lparr>pv_Field = f, pv_Source = src, pv_FolderID = fid\<rparr> = snd (effective p n (present as) f)"
    and "g \<noteq> f \<Longrightarrow> node_field out' g = node_field out g"
    and "identity_of out' = identity_of out"
  using assms
  by (auto simp: resolveInto_def effective_def Let_def isNodeFieldZero_fzero nearest_find rev_filter
      rev_map present_def copyNodeField_field copyFolderField_field zeroNodeField_field fnorm_zero
      split: if_splits option.splits)

lemma resolve_fields_effective:
  assumes "distinct fs"
  shows "node_field (rc_node (resolve_fields p n as fs res)) g =
      (if g \<in> set fs then fst (effective p n (present as) g) else node_field (rc_node res) g) \<and>
    rc_Trace (resolve_fields p n as fs res) g =
      (if g \<in> set fs then Some (snd (effective p n (present as) g)) else rc_Trace res g) \<and>
    identity_of (rc_node (resolve_fields p n as fs res)) = identity_of (rc_node res)"
  using assms
proof (induction fs arbitrary: res)
  case (Cons f fs)
  obtain out src fid where r: "resolveInto p (rc_node res) f n as = (out, src, fid)"
    by (metis prod_cases3)
  note eff = resolveInto_effective [OF r]
  let ?res = "\<lparr>rc_node = out, rc_Trace = (rc_Trace res)(f \<mapsto>
      \<lparr>pv_Field = f, pv_Source = src, pv_FolderID = fid\<rparr>)\<rparr>"
  have "resolve_fields p n as (f # fs) res = resolve_fields p n as fs ?res" by (simp add: r)
  then show ?case using Cons.IH [of ?res] Cons.prems eff by (cases "g = f") auto
qed simp

lemma Resolve_effective:
  "node_field (rc_node (Resolve p (Some n) as)) f = fst (effective p n (present as) f)"
  "rc_Trace (Resolve p (Some n) as) f = Some (snd (effective p n (present as) f))"
  "identity_of (rc_node (Resolve p (Some n) as)) = identity_of n"
  using resolve_fields_effective [OF Fields_all(2), of p n as "\<lparr>rc_node = n, rc_Trace = Map.empty\<rparr>" f]
  by (simp_all add: Resolve_def Fields_all)

text \<open>Resolving what was resolved changes nothing more.\<close>

lemma find_holds: "find P xs = Some x \<Longrightarrow> P x"
  by (induction xs) (auto split: if_splits)

lemma effective_idem:
  assumes "node_field m f = fst (effective p n as f)"
  shows "fst (effective p m as f) = fst (effective p n as f)"
  using assms by (auto simp: effective_def Let_def split: option.splits dest: find_holds)

lemma Resolve_idem:
  "rc_node (Resolve p (Some (rc_node (Resolve p (Some n) as))) as) = rc_node (Resolve p (Some n) as)"
  by (rule conn_ext) (simp_all add: Resolve_effective effective_idem)

end
