(* ===== verification/Samples.thy ===== *)
theory Samples
  imports SearchPred Inheritance
begin

text \<open>
  Concrete inputs on which the properties are evaluated: a tree with the folders 1 and 2
  (2 inside 1), a connection 3 in folder 2 and a connection 4 at the root.
\<close>

definition folder_1 :: FolderNode where
  "folder_1 = zero_folder\<lparr>f_ID := 1, f_Name := ''prod'',
     f_Defaults := zero_defaults\<lparr>d_Username := ''root'', d_Port := 22\<rparr>\<rparr>"

definition folder_2 :: FolderNode where
  "folder_2 = zero_folder\<lparr>f_ID := 2, f_ParentID := 1, f_Name := ''db'',
     f_Defaults := zero_defaults\<lparr>d_Port := 2222\<rparr>\<rparr>"

definition conn_3 :: ConnectionNode where
  "conn_3 = zero_conn\<lparr>c_ID := 3, c_ParentID := 2, c_Name := ''DB-1'', c_Host := ''10.0.0.1''\<rparr>"

definition conn_4 :: ConnectionNode where
  "conn_4 = zero_conn\<lparr>c_ID := 4, c_Name := ''jump'', c_Host := ''10.0.0.2''\<rparr>"

definition ok_or :: "'a \<Rightarrow> 'e + 'a \<Rightarrow> 'a" where
  "ok_or d r = (case r of Inl _ \<Rightarrow> d | Inr x \<Rightarrow> x)"

lemmas node_defs = folder_1_def folder_2_def conn_3_def conn_4_def zero_folder_def zero_conn_def
  zero_defaults_def zero_ref_def zero_profile_def NilID_def

definition tree_2 :: Tree where
  "tree_2 = \<lparr>folders = fmupd 2 folder_2 (fmupd 1 folder_1 fmempty), connections = fmempty,
     folderChildren = (\<lambda>_. [])(0 := [1], 1 := [2]), connectionChildren = (\<lambda>_. [])\<rparr>"

definition sample_tree :: Tree where
  "sample_tree = \<lparr>folders = fmupd 2 folder_2 (fmupd 1 folder_1 fmempty),
     connections = fmupd 4 conn_4 (fmupd 3 conn_3 fmempty),
     folderChildren = (\<lambda>_. [])(0 := [1], 1 := [2]),
     connectionChildren = (\<lambda>_. [])(2 := [3], 0 := [4])\<rparr>"

lemma sample_ids [simp]:
  "f_ID folder_1 = 1" "f_ParentID folder_1 = 0" "f_ID folder_2 = 2" "f_ParentID folder_2 = 1"
  "c_ID conn_3 = 3" "c_ParentID conn_3 = 2" "c_ID conn_4 = 4" "c_ParentID conn_4 = 0"
  by (simp_all add: node_defs)

lemma sample_steps:
  "\<exists>t. AddFolder (Some folder_1) NewTree = Inr t \<and> AddFolder (Some folder_2) t = Inr tree_2"
  "\<exists>t. AddConnection (Some conn_3) tree_2 = Inr t \<and> AddConnection (Some conn_4) t = Inr sample_tree"
  by (simp_all add: AddFolder_def AddConnection_def append_child_def tree_2_def sample_tree_def
      NewTree_def NilID_def fun_upd_twist)

lemma wf_tree_2: "wf_tree tree_2"
  using sample_steps(1) AddFolder_wf wf_NewTree by blast

lemma wf_sample: "wf_tree sample_tree"
  using sample_steps(2) AddConnection_wf wf_tree_2 by blast

lemma sample_lookup [simp]:
  "folder_at sample_tree 1 = Some folder_1" "folder_at sample_tree 2 = Some folder_2"
  "folder_at sample_tree 3 = None" "folder_at sample_tree 4 = None"
  "conn_at sample_tree 3 = Some conn_3" "conn_at sample_tree 4 = Some conn_4"
  "conn_at sample_tree 1 = None" "conn_at sample_tree 2 = None"
  by (simp_all add: sample_tree_def)

lemma sample_reach: "reach (\<lambda>t. t = NewTree) tree_step sample_tree"
proof -
  have "reach (\<lambda>t. t = NewTree) tree_step NewTree" by (rule reach_init) simp
  moreover obtain t u where "tree_step NewTree t" "tree_step t tree_2" "tree_step tree_2 u"
      "tree_step u sample_tree"
    using sample_steps step_add_folder step_add_connection by blast
  ultimately show ?thesis using reach_step [of "\<lambda>t. t = NewTree" tree_step] by blast
qed

end
