(* ===== verification/Inventory.thy ===== *)
theory Inventory
  imports TreeWalk
begin

text \<open>
  \<open>internal/persistence/codec.go\<close>: the tree as two flat arrays and back. Decoding sorts
  the folders topologically by repeated passes; it is shown to rebuild the tree from the
  arrays in whatever order they are stored.
\<close>

record inventoryFile =
  inv_Folders :: "FolderNode option list"
  inv_Connections :: "ConnectionNode option list"

definition zero_inventory :: inventoryFile where
  "zero_inventory = \<lparr>inv_Folders = [], inv_Connections = []\<rparr>"

text \<open>The visitor keeps a nil node as a nil entry.\<close>

fun collect :: "(unit, inventoryFile) visitor" where
  "collect (NFolder f) s = WDone (s\<lparr>inv_Folders := inv_Folders s @ [Some f]\<rparr>)"
| "collect NNilFolder s = WDone (s\<lparr>inv_Folders := inv_Folders s @ [None]\<rparr>)"
| "collect (NConn c) s = WDone (s\<lparr>inv_Connections := inv_Connections s @ [Some c]\<rparr>)"
| "collect NNilConn s = WDone (s\<lparr>inv_Connections := inv_Connections s @ [None]\<rparr>)"

definition encodeInventory :: "Tree option \<Rightarrow> (unit, inventoryFile) walk_result" where
  "encodeInventory to = (case to of None \<Rightarrow> WDone zero_inventory
     | Some t \<Rightarrow> Walk (\<lambda>_. t) collect zero_inventory)"

datatype decode_error =
    AddFolderFailed ID tree_error | FoldersOrphaned nat | AddConnectionFailed ID tree_error

text \<open>One pass over the remaining folders: what it leaves, and whether it made progress.\<close>

fun decode_pass :: "Tree \<Rightarrow> ID set \<Rightarrow> FolderNode list \<Rightarrow>
    decode_error + Tree \<times> ID set \<times> FolderNode list \<times> bool" where
  "decode_pass t added [] = Inr (t, added, [], False)"
| "decode_pass t added (f # fs) =
     (if f_ParentID f = NilID \<or> f_ParentID f \<in> added then
        (case AddFolder (Some f) t of
           Inl e \<Rightarrow> Inl (AddFolderFailed (f_ID f) e)
         | Inr t' \<Rightarrow> (case decode_pass t' (insert (f_ID f) added) fs of
             Inl e \<Rightarrow> Inl e
           | Inr (t2, added2, next, progress) \<Rightarrow> Inr (t2, added2, next, True)))
      else (case decode_pass t added fs of
          Inl e \<Rightarrow> Inl e
        | Inr (t2, added2, next, progress) \<Rightarrow> Inr (t2, added2, f # next, progress)))"

lemma decode_pass_length:
  "decode_pass t added fs = Inr (t', added', next, progress) \<Longrightarrow>
    length next \<le> length fs \<and> (progress \<longrightarrow> length next < length fs)"
proof (induction fs arbitrary: t added t' added' "next" progress)
  case (Cons f fs)
  from Cons.prems show ?case
    by (auto split: if_splits sum.splits prod.splits dest!: Cons.IH)
qed simp

function decode_folders :: "Tree \<Rightarrow> ID set \<Rightarrow> FolderNode list \<Rightarrow> decode_error + Tree" where
  "decode_folders t added remaining =
     (if length remaining = 0 then Inr t
      else case decode_pass t added remaining of
          Inl e \<Rightarrow> Inl e
        | Inr (t', added', next, progress) \<Rightarrow>
            if \<not> progress then Inl (FoldersOrphaned (length next))
            else decode_folders t' added' next)"
  by pat_completeness auto
termination
  by (relation "measure (\<lambda>(t, added, remaining). length remaining)")
    (auto dest: decode_pass_length)

declare decode_folders.simps [simp del]

fun decode_connections :: "Tree \<Rightarrow> ConnectionNode option list \<Rightarrow> decode_error + Tree" where
  "decode_connections t [] = Inr t"
| "decode_connections t (None # cs) = decode_connections t cs"
| "decode_connections t (Some c # cs) = (case AddConnection (Some c) t of
     Inl e \<Rightarrow> Inl (AddConnectionFailed (c_ID c) e)
   | Inr t' \<Rightarrow> decode_connections t' cs)"

definition decodeInventory :: "inventoryFile \<Rightarrow> decode_error + Tree" where
  "decodeInventory file =
     (case decode_folders NewTree {} (List.map_filter id (inv_Folders file)) of
        Inl e \<Rightarrow> Inl e
      | Inr t \<Rightarrow> decode_connections t (inv_Connections file))"

lemma decode_nothing: "decodeInventory zero_inventory = Inr NewTree"
  by (subst decodeInventory_def) (subst decode_folders.simps, simp add: zero_inventory_def)

subsection \<open>What comes out is well-formed\<close>

lemma decode_pass_wf:
  "decode_pass t added fs = Inr (t', added', next, progress) \<Longrightarrow> wf_tree t \<Longrightarrow> wf_tree t'"
proof (induction fs arbitrary: t added t' added' "next" progress)
  case (Cons f fs)
  from Cons.prems show ?case
    by (auto split: if_splits sum.splits prod.splits intro: inv_intros dest!: Cons.IH)
qed simp

lemma decode_folders_wf: "decode_folders t added fs = Inr t' \<Longrightarrow> wf_tree t \<Longrightarrow> wf_tree t'"
proof (induction t added fs rule: decode_folders.induct)
  case (1 t added remaining)
  show ?case
  proof (cases "remaining = []")
    case True
    with 1 show ?thesis by (simp add: decode_folders.simps)
  next
    case False
    with 1(2) obtain t1 added1 nxt where p: "decode_pass t added remaining = Inr (t1, added1, nxt, True)"
      "decode_folders t1 added1 nxt = Inr t'"
      by (auto simp: decode_folders.simps [of t added remaining] split: sum.splits prod.splits if_splits)
    with 1(1) False decode_pass_wf [OF p(1) 1(3)] show ?thesis by auto
  qed
qed

lemma decode_connections_wf: "decode_connections t cs = Inr t' \<Longrightarrow> wf_tree t \<Longrightarrow> wf_tree t'"
  by (induction t cs arbitrary: t' rule: decode_connections.induct)
    (auto split: sum.splits intro: inv_intros)

lemma decodeInventory_wf: "decodeInventory file = Inr t \<Longrightarrow> wf_tree t"
  unfolding decodeInventory_def
  using decode_folders_wf wf_NewTree decode_connections_wf by (fastforce split: sum.splits)

subsection \<open>Decoding rebuilds the tree\<close>

text \<open>
  State of the topological sort for the folders \<open>F\<close> of a well-formed tree: what is
  inserted, and what remains.
\<close>

definition sort_state :: "fmapF \<Rightarrow> Tree \<Rightarrow> ID set \<Rightarrow> FolderNode list \<Rightarrow> bool" where
  "sort_state F t added rem \<longleftrightarrow> wf_tree t \<and> connections t = fmempty \<and> distinct (map f_ID rem) \<and>
     (\<forall>f \<in> set rem. fmlookup F (f_ID f) = Some f \<and> f_ID f \<noteq> NilID) \<and>
     (\<forall>i. i \<in> added \<longleftrightarrow> folder_at t i \<noteq> None) \<and>
     (\<forall>i f. fmlookup F i = Some f \<longleftrightarrow> folder_at t i = Some f \<or> f \<in> set rem \<and> f_ID f = i) \<and>
     (\<forall>f \<in> set rem. f_ID f \<notin> added)"

lemma sort_state_add:
  assumes st: "sort_state F t added (f # rem)" and p: "f_ParentID f = NilID \<or> f_ParentID f \<in> added"
  shows "\<exists>t'. AddFolder (Some f) t = Inr t' \<and> sort_state F t' (insert (f_ID f) added) rem"
proof -
  have "is_ok (AddFolder (Some f) t)"
    using st p by (auto simp: AddFolder_ok_iff sort_state_def)
  then obtain t' where t': "AddFolder (Some f) t = Inr t'" by (auto elim: is_okE)
  note res = AddFolder_result [OF t']
  have "wf_tree t'" using AddFolder_wf [OF _ t'] st by (simp add: sort_state_def)
  moreover have "connections t' = fmempty" "folder_at t' = (folder_at t)(f_ID f \<mapsto> f)"
    using res st by (auto simp: sort_state_def)
  moreover have "folder_at t (f_ID f) = None" using st by (auto simp: sort_state_def)
  ultimately have "sort_state F t' (insert (f_ID f) added) rem"
    using st unfolding sort_state_def by (auto split: if_splits simp: image_iff)
  with t' show ?thesis by blast
qed

lemma sort_state_swap:
  "sort_state F t added (xs @ f # ys) \<longleftrightarrow> sort_state F t added (f # xs @ ys)"
  unfolding sort_state_def by auto

definition ready :: "ID set \<Rightarrow> FolderNode \<Rightarrow> bool" where
  "ready added f \<longleftrightarrow> f_ParentID f = NilID \<or> f_ParentID f \<in> added"

lemma decode_pass_sort:
  "sort_state F t added (keep @ fs) \<Longrightarrow> \<exists>t' added' next progress.
    decode_pass t added fs = Inr (t', added', next, progress) \<and>
    sort_state F t' added' (keep @ next) \<and> ((\<exists>f \<in> set fs. ready added f) \<longrightarrow> progress)"
proof (induction fs arbitrary: t added keep)
  case (Cons f fs)
  show ?case
  proof (cases "ready added f")
    case True
    then have p: "f_ParentID f = NilID \<or> f_ParentID f \<in> added" by (simp add: ready_def)
    from sort_state_add [OF _ p, of F t "keep @ fs"] Cons.prems obtain t1 where
      t1: "AddFolder (Some f) t = Inr t1" "sort_state F t1 (insert (f_ID f) added) (keep @ fs)"
      by (auto simp: sort_state_swap)
    from Cons.IH [OF t1(2)] t1(1) p show ?thesis by fastforce
  next
    case False
    then have np: "\<not> (f_ParentID f = NilID \<or> f_ParentID f \<in> added)" by (simp add: ready_def)
    from Cons.prems have "sort_state F t added ((keep @ [f]) @ fs)" by simp
    from Cons.IH [OF this] obtain t1 a1 nx pr where r:
      "decode_pass t added fs = Inr (t1, a1, nx, pr)" "sort_state F t1 a1 (keep @ f # nx)"
      "(\<exists>f \<in> set fs. ready added f) \<longrightarrow> pr" by auto
    moreover have "decode_pass t added (f # fs) = Inr (t1, a1, f # nx, pr)" using np r(1) by simp
    moreover have "(\<exists>g \<in> set (f # fs). ready added g) \<longrightarrow> pr" using r(3) False by simp
    ultimately show ?thesis by blast
  qed
next
  case Nil
  then show ?case by (intro exI [of _ t] exI [of _ added] exI [of _ "[]"] exI [of _ False]) simp
qed

text \<open>While folders remain, the shallowest one is ready.\<close>

lemma some_ready:
  assumes wf: "wf_tree T" and st: "sort_state (folders T) t added rem" and ne: "rem \<noteq> []"
  shows "\<exists>f \<in> set rem. ready added f"
proof -
  have dep: "\<exists>d. rooted (folders T) (Suc d) (f_ID f) \<and> rooted (folders T) d (f_ParentID f)"
    if "f \<in> set rem" for f
    using wf_folder(3) [OF wf, of "f_ID f" f] st that by (simp add: sort_state_def)
  define dp where "dp = (\<lambda>f :: FolderNode. LEAST d. rooted (folders T) d (f_ID f))"
  have dp: "dp f = Suc d \<and> rooted (folders T) d (f_ParentID f)"
    if "f \<in> set rem" "rooted (folders T) (Suc d) (f_ID f)" for f d
  proof -
    have "dp f = Suc d" unfolding dp_def
      by (rule Least_equality) (use that(2) rooted_unique in fastforce)+
    with dep [OF that(1)] that(2) rooted_unique show ?thesis by blast
  qed
  obtain f where f: "f \<in> set rem" "\<forall>g \<in> set rem. dp f \<le> dp g"
    using ne arg_min_if_finite(1) [of "set rem" dp] arg_min_least [of "set rem" _ dp]
    by (metis List.finite_set set_empty)
  obtain d where d: "rooted (folders T) (Suc d) (f_ID f)" "rooted (folders T) d (f_ParentID f)"
    using dep [OF f(1)] by blast
  have "ready added f"
  proof (cases "f_ParentID f = NilID")
    case False
    have "fmlookup (folders T) (f_ID f) = Some f" using st f(1) by (simp add: sort_state_def)
    from d(2) False obtain g where g: "fmlookup (folders T) (f_ParentID f) = Some g"
      by (auto elim: rooted.cases)
    have "\<not> (g \<in> set rem \<and> f_ID g = f_ParentID f)"
    proof
      assume a: "g \<in> set rem \<and> f_ID g = f_ParentID f"
      with d(2) False obtain e where "d = Suc e" by (auto elim: rooted.cases)
      with a dp [of g e] dp [OF f(1) d(1)] d(2) have "dp g < dp f" by simp
      with f(2) a show False using leD by blast
    qed
    with g st have "folder_at t (f_ParentID f) \<noteq> None" unfolding sort_state_def by blast
    with st show ?thesis by (simp add: ready_def sort_state_def)
  qed (simp add: ready_def)
  with f(1) show ?thesis by blast
qed

lemma decode_folders_sort:
  assumes wf: "wf_tree T"
  shows "sort_state (folders T) t added rem \<Longrightarrow> \<exists>t'. decode_folders t added rem = Inr t' \<and>
    wf_tree t' \<and> folders t' = folders T \<and> connections t' = fmempty"
proof (induction t added rem rule: decode_folders.induct)
  case (1 t added rem)
  show ?case
  proof (cases "rem = []")
    case True
    have "folders t = folders T"
    proof (rule fmap_ext)
      fix i
      have "fmlookup (folders T) i = Some f \<longleftrightarrow> folder_at t i = Some f" for f
        using 1(2) True by (simp add: sort_state_def)
      then show "folder_at t i = folder_at T i" by (metis option.exhaust)
    qed
    with True 1(2) show ?thesis by (simp add: decode_folders.simps sort_state_def)
  next
    case False
    from decode_pass_sort [of "folders T" t added "[]" rem] 1(2) some_ready [OF wf 1(2) False]
    obtain t1 a1 nx where p: "decode_pass t added rem = Inr (t1, a1, nx, True)"
      "sort_state (folders T) t1 a1 nx" by auto
    with 1(1) [OF _ p(1)] False show ?thesis by (simp add: decode_folders.simps [of t added rem])
  qed
qed

definition conn_state :: "Tree \<Rightarrow> Tree \<Rightarrow> ConnectionNode list \<Rightarrow> bool" where
  "conn_state T t rem \<longleftrightarrow> wf_tree t \<and> folders t = folders T \<and> distinct (map c_ID rem) \<and>
     (\<forall>c \<in> set rem. conn_at T (c_ID c) = Some c \<and> conn_at t (c_ID c) = None) \<and>
     (\<forall>k c. conn_at T k = Some c \<longleftrightarrow> conn_at t k = Some c \<or> c \<in> set rem \<and> c_ID c = k)"

lemma decode_connections_state:
  assumes wf: "wf_tree T"
  shows "conn_state T t (List.map_filter id cs) \<Longrightarrow> \<exists>t'. decode_connections t cs = Inr t' \<and>
    wf_tree t' \<and> folders t' = folders T \<and> connections t' = connections T"
proof (induction cs arbitrary: t)
  case Nil
  have "connections t = connections T"
  proof (rule fmap_ext)
    fix i
    have "conn_at T i = Some c \<longleftrightarrow> conn_at t i = Some c" for c
      using Nil by (simp add: conn_state_def)
    then show "conn_at t i = conn_at T i" by (metis option.exhaust)
  qed
  with Nil show ?case by (simp add: conn_state_def)
next
  case (Cons co cs)
  show ?case
  proof (cases co)
    case None
    with Cons show ?thesis by simp
  next
    case (Some c)
    note st = Cons.prems [unfolded Some]
    have c: "conn_at T (c_ID c) = Some c" "conn_at t (c_ID c) = None" and t: "wf_tree t" "folders t = folders T"
      using st by (simp_all add: conn_state_def)
    have "is_ok (AddConnection (Some c) t)"
      using wf_conn [OF wf c(1)] c(2) t(2) by (simp add: AddConnection_ok_iff)
    then obtain t1 where t1: "AddConnection (Some c) t = Inr t1" by (auto elim: is_okE)
    note res = AddConnection_result [OF t1]
    have "wf_tree t1" using AddConnection_wf [OF t(1) t1] .
    moreover have "folders t1 = folders T" "conn_at t1 = (conn_at t)(c_ID c \<mapsto> c)"
      using res t(2) by auto
    ultimately have "conn_state T t1 (List.map_filter id cs)"
      using st unfolding conn_state_def by (auto simp: image_iff)
    from Cons.IH [OF this] show ?thesis by (simp add: Some t1)
  qed
qed

text \<open>The file lists every node of the tree once, in any order, possibly with nil entries.\<close>

definition lists_tree :: "inventoryFile \<Rightarrow> Tree \<Rightarrow> bool" where
  "lists_tree file t \<longleftrightarrow>
     (let fs = List.map_filter id (inv_Folders file); cs = List.map_filter id (inv_Connections file)
      in distinct (map f_ID fs) \<and> distinct (map c_ID cs) \<and>
         (\<forall>i f. folder_at t i = Some f \<longleftrightarrow> f \<in> set fs \<and> f_ID f = i) \<and>
         (\<forall>k c. conn_at t k = Some c \<longleftrightarrow> c \<in> set cs \<and> c_ID c = k))"

lemma decode_lists_tree:
  assumes wf: "wf_tree T" and l: "lists_tree file T"
  shows "\<exists>t'. decodeInventory file = Inr t' \<and> wf_tree t' \<and>
    folders t' = folders T \<and> connections t' = connections T"
proof -
  let ?fs = "List.map_filter id (inv_Folders file)"
  have "f_ID f \<noteq> NilID" if "f \<in> set ?fs" for f
  proof -
    have "folder_at T (f_ID f) = Some f" using l that by (simp add: lists_tree_def Let_def)
    then show ?thesis using wf_folder(2) [OF wf] by blast
  qed
  then have "sort_state (folders T) NewTree {} ?fs"
    using l wf_NewTree by (auto simp: sort_state_def lists_tree_def Let_def NewTree_def)
  from decode_folders_sort [OF wf this] obtain t1 where t1:
    "decode_folders NewTree {} ?fs = Inr t1" "wf_tree t1" "folders t1 = folders T" "connections t1 = fmempty"
    by blast
  have "conn_state T t1 (List.map_filter id (inv_Connections file))"
    using l t1(2-4) by (auto simp: conn_state_def lists_tree_def Let_def)
  from decode_connections_state [OF wf this] t1(1) show ?thesis by (simp add: decodeInventory_def)
qed

subsection \<open>Encoding lists the tree\<close>

fun folder_of :: "node \<Rightarrow> FolderNode option" where
  "folder_of (NFolder f) = Some f"
| "folder_of _ = None"

fun conn_of :: "node \<Rightarrow> ConnectionNode option" where
  "conn_of (NConn c) = Some c"
| "conn_of _ = None"

definition real :: "node \<Rightarrow> bool" where
  "real n \<longleftrightarrow> n \<noteq> NNilFolder \<and> n \<noteq> NNilConn"

lemma visit_collect:
  "list_all real ns \<Longrightarrow> visit_all collect ns s = WDone
    \<lparr>inv_Folders = inv_Folders s @ map Some (List.map_filter folder_of ns),
     inv_Connections = inv_Connections s @ map Some (List.map_filter conn_of ns)\<rparr>"
proof (induction ns arbitrary: s)
  case (Cons n ns)
  then show ?case by (cases n) (auto simp: real_def)
qed simp

lemma preorder_real: "wf_tree t \<Longrightarrow> list_all real (preorder t)"
  by (auto simp: list_all_iff set_preorder real_def)

lemma encode_preorder:
  assumes "wf_tree t"
  shows "encodeInventory (Some t) = WDone
    \<lparr>inv_Folders = map Some (List.map_filter folder_of (preorder t)),
     inv_Connections = map Some (List.map_filter conn_of (preorder t))\<rparr>"
proof -
  have "encodeInventory (Some t) = visit_all collect (preorder t) zero_inventory"
    unfolding encodeInventory_def option.case
    by (rule Walk_preorder) (simp_all add: assms read_only_def)
  also have "\<dots> = WDone \<lparr>inv_Folders = inv_Folders zero_inventory @ map Some (List.map_filter folder_of (preorder t)),
     inv_Connections = inv_Connections zero_inventory @ map Some (List.map_filter conn_of (preorder t))\<rparr>"
    by (rule visit_collect) (rule preorder_real [OF assms])
  finally show ?thesis by (simp add: zero_inventory_def)
qed

lemma map_filter_id [simp]: "List.map_filter id (map Some xs) = xs"
  by (induction xs) simp_all

lemma set_map_filter: "x \<in> set (List.map_filter g ns) \<longleftrightarrow> (\<exists>n \<in> set ns. g n = Some x)"
  by (induction ns) (auto split: option.splits)

lemma distinct_map_filter:
  assumes k: "\<And>n x. g n = Some x \<Longrightarrow> NodeID n = Some (key x)"
  shows "distinct (map NodeID ns) \<Longrightarrow> distinct (map key (List.map_filter g ns))"
proof (induction ns)
  case (Cons n ns)
  show ?case
  proof (cases "g n")
    case (Some x)
    have "key y \<noteq> key x" if y: "y \<in> set (List.map_filter g ns)" for y
    proof -
      from y obtain m where "m \<in> set ns" "g m = Some y" by (auto simp: set_map_filter)
      with Cons.prems k [OF Some] k [of m y] show ?thesis by (auto simp: image_iff)
    qed
    then have "key x \<notin> key ` set (List.map_filter g ns)" by (metis imageE)
    with Cons Some show ?thesis by simp
  qed (use Cons in simp)
qed simp

lemma encode_lists_tree:
  assumes wf: "wf_tree t" and e: "encodeInventory (Some t) = WDone file"
  shows "lists_tree file t"
proof -
  have fe: "file = \<lparr>inv_Folders = map Some (List.map_filter folder_of (preorder t)),
     inv_Connections = map Some (List.map_filter conn_of (preorder t))\<rparr>"
    using e encode_preorder [OF wf] by simp
  have fo: "folder_of n = Some f \<longleftrightarrow> n = NFolder f" for n f by (cases n) auto
  have co: "conn_of n = Some c \<longleftrightarrow> n = NConn c" for n c by (cases n) auto
  have "distinct (map f_ID (List.map_filter folder_of (preorder t)))"
    by (rule distinct_map_filter [OF _ preorder_once [OF wf]]) (simp add: fo)
  moreover have "distinct (map c_ID (List.map_filter conn_of (preorder t)))"
    by (rule distinct_map_filter [OF _ preorder_once [OF wf]]) (simp add: co)
  moreover have "f \<in> set (List.map_filter folder_of (preorder t)) \<longleftrightarrow> (\<exists>i. folder_at t i = Some f)" for f
    by (auto simp: set_map_filter fo set_preorder [OF wf])
  moreover have "c \<in> set (List.map_filter conn_of (preorder t)) \<longleftrightarrow> (\<exists>i. conn_at t i = Some c)" for c
    by (auto simp: set_map_filter co set_preorder [OF wf])
  ultimately show ?thesis
    using wf_folder(1) [OF wf] wf_conn(1) [OF wf]
    unfolding lists_tree_def Let_def fe by (simp, blast)
qed

text \<open>Two well-formed trees with the same nodes are walked in the same order.\<close>

lemma sort_key_same:
  assumes "distinct xs" "distinct ys" "set xs = set ys" "inj_on k (set xs)"
  shows "sort_key k xs = sort_key k ys"
  by (rule map_sorted_distinct_set_unique [of k]) (use assms in \<open>simp_all add: distinct_map\<close>)

lemma preorder_same_nodes:
  assumes s: "wf_tree s" and t: "wf_tree t" and f: "folders s = folders t" and c: "connections s = connections t"
  shows "preorder s = preorder t"
proof -
  have fk: "folder_key s = folder_key t" and ck: "conn_key s = conn_key t"
    and fn: "folder_node s = folder_node t" and cn: "conn_node s = conn_node t"
    using f c by (simp_all add: fun_eq_iff folder_key_def conn_key_def folder_node_def conn_node_def)
  have "sorted_folders s p = sorted_folders t p" for p
    unfolding sorted_folders_def fk
  proof (rule sort_key_same)
    show "set (folderChildren s p) = set (folderChildren t p)"
      using wf_folderChildren [OF s, of _ p] wf_folderChildren [OF t, of _ p] f by (intro set_eqI) simp
    show "inj_on (\<lambda>i. the (folder_key t i)) (set (folderChildren s p))"
    proof (rule inj_onI)
      fix i j assume "i \<in> set (folderChildren s p)" "j \<in> set (folderChildren s p)"
      then obtain a b where a: "folder_at t i = Some a" and b: "folder_at t j = Some b"
        using wf_folderChildren [OF s] f by auto
      assume "the (folder_key t i) = the (folder_key t j)"
      with a b have "f_ID a = f_ID b" by (simp add: folder_key_def)
      then show "i = j" using wf_folder(1) [OF t a] wf_folder(1) [OF t b] by simp
    qed
  qed (use wf_distinct s t in blast)+
  moreover have "sorted_conns s p = sorted_conns t p" for p
    unfolding sorted_conns_def ck
  proof (rule sort_key_same)
    show "set (connectionChildren s p) = set (connectionChildren t p)"
      using wf_connectionChildren [OF s, of _ p] wf_connectionChildren [OF t, of _ p] c by (intro set_eqI) simp
    show "inj_on (\<lambda>i. the (conn_key t i)) (set (connectionChildren s p))"
    proof (rule inj_onI)
      fix i j assume "i \<in> set (connectionChildren s p)" "j \<in> set (connectionChildren s p)"
      then obtain a b where a: "conn_at t i = Some a" and b: "conn_at t j = Some b"
        using wf_connectionChildren [OF s] c by auto
      assume "the (conn_key t i) = the (conn_key t j)"
      with a b have "c_ID a = c_ID b" by (simp add: conn_key_def)
      then show "i = j" using wf_conn(1) [OF t a] wf_conn(1) [OF t b] by simp
    qed
  qed (use wf_distinct s t in blast)+
  ultimately have "pre n s p = pre n t p" for n p
    using fn cn by (induction n arbitrary: p) (simp_all cong: map_cong)
  moreover have "tree_fuel s = tree_fuel t" using f by (simp add: tree_fuel_def)
  ultimately show ?thesis by (simp add: preorder_def)
qed

lemma inventory_roundtrip:
  assumes wf: "wf_tree t"
  shows "\<exists>file t'. encodeInventory (Some t) = WDone file \<and> decodeInventory file = Inr t' \<and>
    wf_tree t' \<and> folders t' = folders t \<and> connections t' = connections t \<and> preorder t' = preorder t"
proof -
  obtain fl where e: "encodeInventory (Some t) = WDone fl" using encode_preorder [OF wf] by blast
  from decode_lists_tree [OF wf encode_lists_tree [OF wf e]] obtain t' where
    "decodeInventory fl = Inr t'" "wf_tree t'" "folders t' = folders t" "connections t' = connections t"
    by blast
  with e preorder_same_nodes [OF _ wf, of t'] show ?thesis by blast
qed

end
