(* ===== verification/Integrity.thy ===== *)
theory Integrity
  imports Inventory
begin

text \<open>
  \<open>internal/persistence/integrity.go\<close> and the \<open>Snapshot\<close> of \<open>store.go\<close>: every inconsistency
  of a snapshot, with its severity. A snapshot of a well-formed tree has no error, and flat
  arrays without an error are exactly what the decoder can turn into a tree.
\<close>

subsection \<open>Snapshot\<close>

record Meta =
  m_Version :: int
  m_CreatedAt :: time
  m_UpdatedAt :: time
  m_AppVersion :: string

record Snapshot =
  s_Tree :: "Tree option"
  s_Templates :: "ConnectionTemplate list"
  s_Workspace :: WorkspaceLayout
  s_Meta :: Meta

subsection \<open>Issues\<close>

datatype Severity = SeverityWarn | SeverityError

instantiation Severity :: linorder
begin

definition less_eq_Severity :: "Severity \<Rightarrow> Severity \<Rightarrow> bool" where
  "less_eq_Severity a b \<longleftrightarrow> a = SeverityWarn \<or> b = SeverityError"

definition less_Severity :: "Severity \<Rightarrow> Severity \<Rightarrow> bool" where
  "less_Severity a b \<longleftrightarrow> a = SeverityWarn \<and> b = SeverityError"

instance
  by standard (auto simp: less_eq_Severity_def less_Severity_def intro: Severity.exhaust)

end

datatype Code =
    CodeMissingFolderParent | CodeMissingConnectionParent | CodeDuplicateID
  | CodeFolderCycle | CodeOrphanWorkspaceTab | CodeOrphanFocusedTab

record ValidationIssue =
  vi_Severity :: Severity
  vi_Code :: Code
  vi_Message :: string
  vi_RelatedIDs :: "ID list"

definition issue :: "Severity \<Rightarrow> Code \<Rightarrow> string \<Rightarrow> ID list \<Rightarrow> ValidationIssue" where
  "issue s c m ids = \<lparr>vi_Severity = s, vi_Code = c, vi_Message = m, vi_RelatedIDs = ids\<rparr>"

subsection \<open>Cycles\<close>

text \<open>Insertion sort by adjacent swaps: \<open>sift\<close> moves the new ID down the reversed prefix.\<close>

fun sift :: "ID \<Rightarrow> ID list \<Rightarrow> ID list" where
  "sift x [] = [x]"
| "sift x (y # ys) = (if id_less x y then y # sift x ys else x # y # ys)"

definition sortIDs :: "ID list \<Rightarrow> ID list" where
  "sortIDs ids = rev (fold sift ids [])"

definition cycleKey :: "ID list \<Rightarrow> byte list" where
  "cycleKey ids = concat (map id_bytes (sortIDs ids))"

fun cycle_loop :: "nat \<Rightarrow> fmapF \<Rightarrow> (ID \<rightharpoonup> nat) \<Rightarrow> ID list \<Rightarrow> ID \<Rightarrow> ID list option option" where
  "cycle_loop 0 index seen order cur = None"
| "cycle_loop (Suc n) index seen order cur =
     (if cur = NilID then Some None
      else case seen cur of
          Some idx \<Rightarrow> Some (Some (drop idx order))
        | None \<Rightarrow> (case fmlookup index cur of
            None \<Rightarrow> Some None
          | Some parent \<Rightarrow>
              cycle_loop n index (seen(cur \<mapsto> length order)) (order @ [cur]) (f_ParentID parent)))"

text \<open>Every iteration but the last adds a new key of the index: \<open>gomap_len index + 1\<close> suffice.\<close>

definition folderCycle :: "FolderNode \<Rightarrow> fmapF \<Rightarrow> ID list option option" where
  "folderCycle f index =
     cycle_loop (gomap_len index + 1) index [f_ID f \<mapsto> 0] [f_ID f] (f_ParentID f)"

subsection \<open>The checks\<close>

fun dup_folders :: "(ID \<rightharpoonup> string) \<Rightarrow> FolderNode list \<Rightarrow> ValidationIssue list \<times> (ID \<rightharpoonup> string)" where
  "dup_folders seen [] = ([], seen)"
| "dup_folders seen (f # fs) = (case seen (f_ID f) of
     Some prev \<Rightarrow> (let (is, seen') = dup_folders seen fs in
       (issue SeverityError CodeDuplicateID
          (''duplicate id '' @ id_String (f_ID f) @ '' (folder conflicts with '' @ prev @ '')'')
          [f_ID f] # is, seen'))
   | None \<Rightarrow> dup_folders (seen(f_ID f \<mapsto> ''folder'')) fs)"

fun dup_conns :: "(ID \<rightharpoonup> string) \<Rightarrow> ConnectionNode list \<Rightarrow> ValidationIssue list \<times> (ID \<rightharpoonup> string)" where
  "dup_conns seen [] = ([], seen)"
| "dup_conns seen (c # cs) = (case seen (c_ID c) of
     Some prev \<Rightarrow> (let (is, seen') = dup_conns seen cs in
       (issue SeverityError CodeDuplicateID
          (''duplicate id '' @ id_String (c_ID c) @ '' (connection conflicts with '' @ prev @ '')'')
          [c_ID c] # is, seen'))
   | None \<Rightarrow> dup_conns (seen(c_ID c \<mapsto> ''connection'')) cs)"

definition folder_index :: "FolderNode list \<Rightarrow> fmapF" where
  "folder_index fs = fold (\<lambda>f m. fmupd (f_ID f) f m) fs fmempty"

definition conn_index :: "ConnectionNode list \<Rightarrow> (ID, ConnectionNode) gomap" where
  "conn_index cs = fold (\<lambda>c m. fmupd (c_ID c) c m) cs fmempty"

definition missing_folder_parents :: "fmapF \<Rightarrow> FolderNode list \<Rightarrow> ValidationIssue list" where
  "missing_folder_parents index fs = concat (map (\<lambda>f.
     if f_ParentID f = NilID then []
     else if fmlookup index (f_ParentID f) = None
     then [issue SeverityError CodeMissingFolderParent
            (''folder '' @ id_String (f_ID f) @ '' references missing parent '' @ id_String (f_ParentID f))
            [f_ID f, f_ParentID f]]
     else []) fs)"

definition missing_conn_parents :: "fmapF \<Rightarrow> ConnectionNode list \<Rightarrow> ValidationIssue list" where
  "missing_conn_parents index cs = concat (map (\<lambda>c.
     if c_ParentID c = NilID then []
     else if fmlookup index (c_ParentID c) = None
     then [issue SeverityError CodeMissingConnectionParent
            (''connection '' @ id_String (c_ID c) @ '' references missing parent '' @ id_String (c_ParentID c))
            [c_ID c, c_ParentID c]]
     else []) cs)"

fun folder_cycles :: "fmapF \<Rightarrow> byte list set \<Rightarrow> FolderNode list \<Rightarrow> ValidationIssue list option" where
  "folder_cycles index reported [] = Some []"
| "folder_cycles index reported (f # fs) = (case folderCycle f index of
     None \<Rightarrow> None
   | Some None \<Rightarrow> folder_cycles index reported fs
   | Some (Some cyc) \<Rightarrow>
       if cycleKey cyc \<in> reported then folder_cycles index reported fs
       else (case folder_cycles index (insert (cycleKey cyc) reported) fs of
           None \<Rightarrow> None
         | Some is \<Rightarrow> Some (issue SeverityError CodeFolderCycle
              (''folder '' @ id_String (f_ID f) @ '' participates in a cycle'') cyc # is)))"

definition orphan_tabs :: "(ID, ConnectionNode) gomap \<Rightarrow> WorkspaceLayout \<Rightarrow> ValidationIssue list" where
  "orphan_tabs index ws = concat (map (\<lambda>tab.
     if tab_ConnectionID tab = NilID then []
     else if fmlookup index (tab_ConnectionID tab) = None
     then [issue SeverityWarn CodeOrphanWorkspaceTab
            (''workspace tab references missing connection '' @ id_String (tab_ConnectionID tab))
            [tab_ConnectionID tab]]
     else []) (w_OpenTabs ws))"

definition orphan_focus :: "(ID, ConnectionNode) gomap \<Rightarrow> WorkspaceLayout \<Rightarrow> ValidationIssue list" where
  "orphan_focus index ws =
     (if w_FocusedTab ws \<noteq> NilID \<and> fmlookup index (w_FocusedTab ws) = None
      then [issue SeverityWarn CodeOrphanFocusedTab
             (''workspace focus references missing connection '' @ id_String (w_FocusedTab ws))
             [w_FocusedTab ws]]
      else [])"

text \<open>The snapshot is only read for its workspace. \<open>None\<close>: the cycle search does not return.\<close>

definition validateFlat :: "FolderNode list \<Rightarrow> ConnectionNode list \<Rightarrow> WorkspaceLayout option \<Rightarrow>
    ValidationIssue list option" where
  "validateFlat fs cs snap =
     (let (df, seen) = dup_folders Map.empty fs; (dc, seen') = dup_conns seen cs;
          fi = folder_index fs; ci = conn_index cs
      in case folder_cycles fi {} fs of
           None \<Rightarrow> None
         | Some cycles \<Rightarrow> Some (df @ dc @ missing_folder_parents fi fs @ missing_conn_parents fi cs @
             cycles @ (case snap of None \<Rightarrow> [] | Some ws \<Rightarrow> orphan_tabs ci ws @ orphan_focus ci ws)))"

record RawSnapshot =
  r_Folders :: "FolderNode list"
  r_Connections :: "ConnectionNode list"
  r_Workspace :: WorkspaceLayout

definition ValidateRawSnapshot :: "RawSnapshot \<Rightarrow> ValidationIssue list option" where
  "ValidateRawSnapshot r = validateFlat (r_Folders r) (r_Connections r) (Some (r_Workspace r))"

definition flattenSnapshotTree :: "Tree option \<Rightarrow> (unit, inventoryFile) walk_result" where
  "flattenSnapshotTree to = (case to of None \<Rightarrow> WDone zero_inventory
     | Some t \<Rightarrow> Walk (\<lambda>_. t) collect zero_inventory)"

text \<open>\<open>None\<close>: a nil node of the walk is dereferenced, or the walk itself panics.\<close>

definition Validate :: "Snapshot option \<Rightarrow> ValidationIssue list option" where
  "Validate so = (case so of None \<Rightarrow> Some []
     | Some snap \<Rightarrow> (case flattenSnapshotTree (s_Tree snap) of
         WDone file \<Rightarrow>
           if None \<in> set (inv_Folders file) \<or> None \<in> set (inv_Connections file) then None
           else validateFlat (map the (inv_Folders file)) (map the (inv_Connections file))
                  (Some (s_Workspace snap))
       | _ \<Rightarrow> None))"

subsection \<open>The cycle search\<close>

lemma sift_sorted: "sorted (rev ys) \<Longrightarrow> sorted (rev (sift x ys))"
proof (induction ys)
  case (Cons y ys)
  have "set (sift x ys) = insert x (set ys)" by (induction ys) auto
  with Cons show ?case by (auto simp: sorted_append id_less_iff)
qed simp

lemma sift_mset: "mset (sift x ys) = add_mset x (mset ys)"
  by (induction ys) auto

lemma sortIDs_sort: "sortIDs ids = sort ids"
proof -
  have "sorted (rev (fold sift ids acc)) \<and> mset (fold sift ids acc) = mset ids + mset acc"
    if "sorted (rev acc)" for acc
    using that by (induction ids arbitrary: acc) (simp_all add: sift_sorted sift_mset)
  from this [of "[]"] show ?thesis
    unfolding sortIDs_def by (intro properties_for_sort [symmetric]) simp_all
qed

lemma cycle_loop_returns:
  "distinct order \<Longrightarrow> order \<noteq> [] \<Longrightarrow> dom seen = set order \<Longrightarrow> set (tl order) \<subseteq> fset (fmdom index) \<Longrightarrow>
    gomap_len index < n + length (tl order) \<Longrightarrow> cycle_loop n index seen order cur \<noteq> None"
proof (induction n arbitrary: seen order cur)
  case 0
  have "card (set (tl order)) \<le> card (fset (fmdom index))"
    using 0(4) by (intro card_mono) simp_all
  moreover have "card (set (tl order)) = length (tl order)"
    using 0(1) by (simp add: distinct_tl distinct_card)
  ultimately show ?case using 0(5) by (simp add: gomap_len_def fcard.rep_eq)
next
  case (Suc n)
  show ?case
  proof (cases "cur = NilID \<or> seen cur \<noteq> None \<or> fmlookup index cur = None")
    case True
    then show ?thesis by (auto split: option.splits)
  next
    case False
    then obtain g where g: "fmlookup index cur = Some g" "seen cur = None" "cur \<noteq> NilID" by auto
    then have "cur \<notin> set order" using Suc.prems(3) by (metis domIff)
    then have "cycle_loop n index (seen(cur \<mapsto> length order)) (order @ [cur]) (f_ParentID g) \<noteq> None"
    proof (intro Suc.IH)
      show "dom (seen(cur \<mapsto> length order)) = set (order @ [cur])"
        unfolding dom_fun_upd using Suc.prems(3) by simp
      show "gomap_len index < n + length (tl (order @ [cur]))" using Suc.prems(2,5) by (cases order) simp_all
    qed (use Suc.prems g(1) \<open>cur \<notin> set order\<close> in \<open>auto simp: fmlookup_in_dom\<close>)
    with g show ?thesis by simp
  qed
qed

lemma folderCycle_returns: "folderCycle f index \<noteq> None"
  unfolding folderCycle_def by (rule cycle_loop_returns) simp_all

definition closed_index :: "fmapF \<Rightarrow> bool" where
  "closed_index F \<longleftrightarrow> (\<forall>i f. fmlookup F i = Some f \<longrightarrow> f_ParentID f = NilID \<or> fmlookup F (f_ParentID f) \<noteq> None)"

lemma cycle_loop_rooted:
  "cycle_loop n index seen order cur = Some None \<Longrightarrow> closed_index index \<Longrightarrow>
    cur = NilID \<or> fmlookup index cur \<noteq> None \<Longrightarrow> \<exists>d. rooted index d cur"
proof (induction n arbitrary: seen order cur)
  case (Suc n)
  show ?case
  proof (cases "cur = NilID")
    case True
    then show ?thesis using rooted_nil by blast
  next
    case False
    then obtain g where g: "fmlookup index cur = Some g" using Suc.prems(3) by auto
    moreover have "seen cur = None" using Suc.prems(1) False by (auto split: option.splits)
    ultimately have "cycle_loop n index (seen(cur \<mapsto> length order)) (order @ [cur]) (f_ParentID g) = Some None"
      using Suc.prems(1) False by simp
    from Suc.IH [OF this Suc.prems(2)] g Suc.prems(2) have "\<exists>d. rooted index d (f_ParentID g)"
      unfolding closed_index_def by blast
    with g False show ?thesis using rooted_folder by blast
  qed
qed simp

lemma cycle_loop_none:
  "rooted index d cur \<Longrightarrow> (\<forall>s \<in> dom seen. \<not> under index s cur) \<Longrightarrow> d < n \<Longrightarrow>
    cycle_loop n index seen order cur = Some None"
proof (induction arbitrary: n seen order rule: rooted.induct)
  case rooted_nil
  then show ?case by (cases n) auto
next
  case (rooted_folder i f d)
  then obtain m where m: "n = Suc m" "d < m" by (cases n) auto
  have "seen i = None" using rooted_folder.prems(1) under_refl by (metis domIff)
  moreover have "\<not> under index s (f_ParentID f)" if "s \<in> dom seen" for s
    using rooted_folder.prems(1) that under_step [OF rooted_folder.hyps(1,2)] by blast
  moreover have "\<not> under index i (f_ParentID f)"
  proof
    assume "under index i (f_ParentID f)"
    from under_depth [OF this rooted_folder.hyps(3)] obtain e
      where e: "rooted index e i" "e < d \<or> i = f_ParentID f" by blast
    have r: "rooted index (Suc d) i" using rooted.rooted_folder [OF rooted_folder.hyps] .
    from e rooted_unique [OF e(1) r] rooted_unique [OF r, of d] rooted_folder.hyps(3) show False by auto
  qed
  ultimately have "cycle_loop m index (seen(i \<mapsto> length order)) (order @ [i]) (f_ParentID f) = Some None"
    by (intro rooted_folder.IH m(2), unfold dom_fun_upd) simp
  with \<open>seen i = None\<close> rooted_folder.hyps(1,2) m(1) show ?case by simp
qed

subsection \<open>No error: the decoder accepts the arrays\<close>

definition no_errors :: "ValidationIssue list \<Rightarrow> bool" where
  "no_errors is \<longleftrightarrow> (\<forall>i \<in> set is. vi_Severity i < SeverityError)"

lemma no_errors_append [simp]: "no_errors (xs @ ys) \<longleftrightarrow> no_errors xs \<and> no_errors ys"
  by (auto simp: no_errors_def)

lemma no_errors_simps [simp]:
  "no_errors []" "\<not> no_errors (issue SeverityError c m ids # is)"
  by (simp_all add: no_errors_def issue_def less_Severity_def)

lemma dup_folders_spec:
  "dom (snd (dup_folders seen fs)) = dom seen \<union> f_ID ` set fs \<and>
   (no_errors (fst (dup_folders seen fs)) \<longleftrightarrow> distinct (map f_ID fs) \<and> dom seen \<inter> f_ID ` set fs = {})"
proof (induction fs arbitrary: seen)
  case (Cons f fs)
  show ?case
  proof (cases "seen (f_ID f)")
    case None
    let ?s = "seen(f_ID f \<mapsto> ''folder'')"
    have "dom (snd (dup_folders ?s fs)) = dom ?s \<union> f_ID ` set fs \<and>
      (no_errors (fst (dup_folders ?s fs)) \<longleftrightarrow> distinct (map f_ID fs) \<and> dom ?s \<inter> f_ID ` set fs = {})"
      by (rule Cons)
    with None show ?thesis unfolding dom_fun_upd by auto
  next
    case (Some prev)
    obtain iss s' where r: "dup_folders seen fs = (iss, s')" by (metis surj_pair)
    then have "dom s' = dom seen \<union> f_ID ` set fs" using Cons [of seen] by simp
    moreover have "f_ID f \<in> dom seen" using Some by blast
    ultimately show ?thesis using r Some by (simp add: Let_def) blast
  qed
qed simp

lemma dup_conns_spec:
  "dom (snd (dup_conns seen cs)) = dom seen \<union> c_ID ` set cs \<and>
   (no_errors (fst (dup_conns seen cs)) \<longleftrightarrow> distinct (map c_ID cs) \<and> dom seen \<inter> c_ID ` set cs = {})"
proof (induction cs arbitrary: seen)
  case (Cons c cs)
  show ?case
  proof (cases "seen (c_ID c)")
    case None
    let ?s = "seen(c_ID c \<mapsto> ''connection'')"
    have "dom (snd (dup_conns ?s cs)) = dom ?s \<union> c_ID ` set cs \<and>
      (no_errors (fst (dup_conns ?s cs)) \<longleftrightarrow> distinct (map c_ID cs) \<and> dom ?s \<inter> c_ID ` set cs = {})"
      by (rule Cons)
    with None show ?thesis unfolding dom_fun_upd by auto
  next
    case (Some prev)
    obtain iss s' where r: "dup_conns seen cs = (iss, s')" by (metis surj_pair)
    then have "dom s' = dom seen \<union> c_ID ` set cs" using Cons [of seen] by simp
    moreover have "c_ID c \<in> dom seen" using Some by blast
    ultimately show ?thesis using r Some by (simp add: Let_def) blast
  qed
qed simp

lemma missing_folder_parents_spec:
  "no_errors (missing_folder_parents F fs) \<longleftrightarrow>
    (\<forall>f \<in> set fs. f_ParentID f = NilID \<or> fmlookup F (f_ParentID f) \<noteq> None)"
  by (induction fs) (auto simp: missing_folder_parents_def)

lemma missing_conn_parents_spec:
  "no_errors (missing_conn_parents F cs) \<longleftrightarrow>
    (\<forall>c \<in> set cs. c_ParentID c = NilID \<or> fmlookup F (c_ParentID c) \<noteq> None)"
  by (induction cs) (auto simp: missing_conn_parents_def)

lemma orphans_no_error: "no_errors (orphan_tabs ci ws)" "no_errors (orphan_focus ci ws)"
  by (auto simp: no_errors_def orphan_tabs_def orphan_focus_def issue_def less_Severity_def split: if_splits)

lemma folder_cycles_spec:
  "\<exists>is. folder_cycles F rep fs = Some is \<and>
    (rep = {} \<longrightarrow> no_errors is = (\<forall>f \<in> set fs. folderCycle f F = Some None))"
proof -
  have ret: "\<exists>is. folder_cycles F rep fs = Some is" for rep
    using folderCycle_returns [of _ F]
    by (induction F rep fs rule: folder_cycles.induct) (auto split: option.splits)
  have "folder_cycles F {} fs = Some is \<Longrightarrow> no_errors is = (\<forall>f \<in> set fs. folderCycle f F = Some None)" for "is"
  proof (induction fs)
    case (Cons f fs)
    then show ?case
    proof (cases "folderCycle f F")
      case (Some r)
      with Cons show ?thesis by (cases r) (auto split: option.splits)
    qed (use folderCycle_returns in blast)
  qed simp
  with ret show ?thesis by metis
qed

lemma folder_index_lookup:
  "distinct (map f_ID fs) \<Longrightarrow> fmlookup (folder_index fs) i = Some f \<longleftrightarrow> f \<in> set fs \<and> f_ID f = i"
proof -
  have "distinct (map f_ID fs) \<Longrightarrow> (\<And>f. f \<in> set fs \<Longrightarrow> fmlookup m (f_ID f) = None) \<Longrightarrow>
      fmlookup (fold (\<lambda>f m. fmupd (f_ID f) f m) fs m) i = Some f \<longleftrightarrow>
      f \<in> set fs \<and> f_ID f = i \<or> fmlookup m i = Some f" for m
  proof (induction fs arbitrary: m)
    case (Cons g fs)
    have "fmlookup (fmupd (f_ID g) g m) (f_ID h) = None" if "h \<in> set fs" for h
      using Cons.prems that by (auto simp: image_iff)
    from Cons.IH [OF _ this] Cons.prems show ?case by (auto simp: image_iff)
  qed simp
  then show "distinct (map f_ID fs) \<Longrightarrow> ?thesis" by (simp add: folder_index_def)
qed

lemma conn_index_lookup:
  "distinct (map c_ID cs) \<Longrightarrow> fmlookup (conn_index cs) i = Some c \<longleftrightarrow> c \<in> set cs \<and> c_ID c = i"
proof -
  have "distinct (map c_ID cs) \<Longrightarrow> (\<And>c. c \<in> set cs \<Longrightarrow> fmlookup m (c_ID c) = None) \<Longrightarrow>
      fmlookup (fold (\<lambda>c m. fmupd (c_ID c) c m) cs m) i = Some c \<longleftrightarrow>
      c \<in> set cs \<and> c_ID c = i \<or> fmlookup m i = Some c" for m
  proof (induction cs arbitrary: m)
    case (Cons g cs)
    have "fmlookup (fmupd (c_ID g) g m) (c_ID h) = None" if "h \<in> set cs" for h
      using Cons.prems that by (auto simp: image_iff)
    from Cons.IH [OF _ this] Cons.prems show ?case by (auto simp: image_iff)
  qed simp
  then show "distinct (map c_ID cs) \<Longrightarrow> ?thesis" by (simp add: conn_index_def)
qed

definition flat_file :: "FolderNode list \<Rightarrow> ConnectionNode list \<Rightarrow> inventoryFile" where
  "flat_file fs cs = \<lparr>inv_Folders = map Some fs, inv_Connections = map Some cs\<rparr>"

text \<open>The tree that arrays without an error describe.\<close>

definition flat_tree :: "FolderNode list \<Rightarrow> ConnectionNode list \<Rightarrow> Tree" where
  "flat_tree fs cs = \<lparr>folders = folder_index fs, connections = conn_index cs,
     folderChildren = (\<lambda>p. map f_ID (filter (\<lambda>f. f_ParentID f = p) fs)),
     connectionChildren = (\<lambda>p. map c_ID (filter (\<lambda>c. c_ParentID c = p) cs))\<rparr>"

definition flat_ok :: "FolderNode list \<Rightarrow> ConnectionNode list \<Rightarrow> bool" where
  "flat_ok fs cs \<longleftrightarrow> distinct (map f_ID fs) \<and> distinct (map c_ID cs) \<and> f_ID ` set fs \<inter> c_ID ` set cs = {} \<and>
     (\<forall>f \<in> set fs. f_ParentID f = NilID \<or> fmlookup (folder_index fs) (f_ParentID f) \<noteq> None) \<and>
     (\<forall>c \<in> set cs. c_ParentID c = NilID \<or> fmlookup (folder_index fs) (c_ParentID c) \<noteq> None) \<and>
     (\<forall>f \<in> set fs. folderCycle f (folder_index fs) = Some None)"

lemma validateFlat_errors:
  "\<exists>is. validateFlat fs cs ws = Some is \<and> (no_errors is \<longleftrightarrow> flat_ok fs cs)"
proof -
  obtain df seen where df: "dup_folders Map.empty fs = (df, seen)" by (metis surj_pair)
  obtain dc seen' where dc: "dup_conns seen cs = (dc, seen')" by (metis surj_pair)
  obtain cy where cy: "folder_cycles (folder_index fs) {} fs = Some cy"
    "no_errors cy = (\<forall>f \<in> set fs. folderCycle f (folder_index fs) = Some None)"
    using folder_cycles_spec [of "folder_index fs" "{}" fs] by auto
  have "no_errors df \<longleftrightarrow> distinct (map f_ID fs)" "dom seen = f_ID ` set fs"
    using dup_folders_spec [of Map.empty fs] df by simp_all
  moreover have "no_errors dc \<longleftrightarrow> distinct (map c_ID cs) \<and> dom seen \<inter> c_ID ` set cs = {}"
    using dup_conns_spec [of seen cs] dc by simp
  ultimately show ?thesis
    unfolding validateFlat_def df dc cy(1) prod.case option.case Let_def
    using cy(2) orphans_no_error
    by (auto simp: flat_ok_def missing_folder_parents_spec missing_conn_parents_spec split: option.split)
qed

lemma flat_tree_lists:
  assumes "distinct (map f_ID fs)" "distinct (map c_ID cs)"
  shows "lists_tree (flat_file fs cs) (flat_tree fs cs)"
  unfolding lists_tree_def Let_def flat_file_def flat_tree_def
  using assms by (simp add: folder_index_lookup conn_index_lookup)

lemma flat_tree_wf:
  assumes ok: "flat_ok fs cs" and nil: "NilID \<notin> f_ID ` set fs" "NilID \<notin> c_ID ` set cs"
  shows "wf_tree (flat_tree fs cs)"
proof -
  let ?F = "folder_index fs"
  have d: "distinct (map f_ID fs)" "distinct (map c_ID cs)" using ok by (simp_all add: flat_ok_def)
  note F = folder_index_lookup [OF d(1)] and C = conn_index_lookup [OF d(2)]
  have closed: "closed_index ?F" using ok F unfolding closed_index_def flat_ok_def by blast
  have parents: "\<exists>e. rooted ?F e (f_ParentID f)" if f: "f \<in> set fs" for f
  proof -
    have "folderCycle f ?F = Some None" "f_ParentID f = NilID \<or> fmlookup ?F (f_ParentID f) \<noteq> None"
      using ok f by (simp_all add: flat_ok_def)
    then show ?thesis unfolding folderCycle_def using cycle_loop_rooted [OF _ closed] by blast
  qed
  have "folders_ok (flat_tree fs cs)" unfolding folders_ok_def
  proof (intro allI impI)
    fix i f assume "folder_at (flat_tree fs cs) i = Some f"
    then have f: "f \<in> set fs" "f_ID f = i" "fmlookup ?F i = Some f" by (simp_all add: flat_tree_def F)
    then have "i \<noteq> NilID" using nil(1) imageI [OF f(1), of f_ID] by auto
    with f parents [OF f(1)] rooted_folder [OF f(3)]
    show "f_ID f = i \<and> i \<noteq> NilID \<and> (\<exists>d. rooted (folders (flat_tree fs cs)) d i)"
      by (auto simp: flat_tree_def)
  qed
  moreover have "conns_ok (flat_tree fs cs)" unfolding conns_ok_def
  proof (intro allI impI)
    fix i c assume "conn_at (flat_tree fs cs) i = Some c"
    then have c: "c \<in> set cs" "c_ID c = i" by (simp_all add: flat_tree_def C)
    have "fmlookup ?F i = None"
    proof (rule ccontr)
      assume "fmlookup ?F i \<noteq> None"
      then obtain f where "f \<in> set fs" "f_ID f = i" using F by blast
      with c ok show False unfolding flat_ok_def by blast
    qed
    moreover have "i \<noteq> NilID" using c(2) nil(2) imageI [OF c(1), of c_ID] by auto
    ultimately show "c_ID c = i \<and> i \<noteq> NilID \<and> folder_at (flat_tree fs cs) i = None \<and>
        (c_ParentID c = NilID \<or> folder_at (flat_tree fs cs) (c_ParentID c) \<noteq> None)"
      using c ok by (auto simp: flat_tree_def flat_ok_def)
  qed
  moreover have "index_ok (flat_tree fs cs)"
    unfolding index_ok_def child_index_def using F d(1)
    by (auto simp: flat_tree_def distinct_map inj_on_def)
  moreover have "conn_index_ok (flat_tree fs cs)"
    unfolding conn_index_ok_def child_index_def using C d(2)
    by (auto simp: flat_tree_def distinct_map inj_on_def)
  ultimately show ?thesis by (simp add: wf_tree_def)
qed

lemma no_errors_decodes:
  assumes "validateFlat fs cs ws = Some is" "no_errors is"
    and nil: "NilID \<notin> f_ID ` set fs" "NilID \<notin> c_ID ` set cs"
  shows "\<exists>t. decodeInventory (flat_file fs cs) = Inr t \<and> wf_tree t \<and> lists_tree (flat_file fs cs) t"
proof -
  have ok: "flat_ok fs cs" using validateFlat_errors [of fs cs ws] assms(1,2) by auto
  then have l: "lists_tree (flat_file fs cs) (flat_tree fs cs)"
    by (intro flat_tree_lists) (simp_all add: flat_ok_def)
  from decode_lists_tree [OF flat_tree_wf [OF ok nil] l] obtain t where
    "decodeInventory (flat_file fs cs) = Inr t" "wf_tree t"
    "folders t = folders (flat_tree fs cs)" "connections t = connections (flat_tree fs cs)" by blast
  with l show ?thesis by (auto simp: lists_tree_def)
qed

text \<open>Conversely, the arrays of a well-formed tree have no error.\<close>

lemma lists_tree_flat_ok:
  assumes wf: "wf_tree t" and l: "lists_tree (flat_file fs cs) t"
  shows "flat_ok fs cs"
proof -
  have d: "distinct (map f_ID fs)" "distinct (map c_ID cs)"
    and F: "\<And>i f. folder_at t i = Some f \<longleftrightarrow> f \<in> set fs \<and> f_ID f = i"
    and C: "\<And>k c. conn_at t k = Some c \<longleftrightarrow> c \<in> set cs \<and> c_ID c = k"
    using l by (simp_all add: lists_tree_def flat_file_def Let_def)
  have fi: "folder_index fs = folders t"
  proof (rule fmap_ext)
    fix i
    have "fmlookup (folder_index fs) i = Some f \<longleftrightarrow> folder_at t i = Some f" for f
      by (simp add: F folder_index_lookup [OF d(1)])
    then show "fmlookup (folder_index fs) i = folder_at t i" by (metis option.exhaust)
  qed
  have par: "f_ParentID f = NilID \<or> folder_at t (f_ParentID f) \<noteq> None" if "f \<in> set fs" for f
  proof -
    have "folder_at t (f_ID f) = Some f" using F [of "f_ID f" f] that by simp
    then obtain e where "rooted (folders t) e (f_ParentID f)" using wf_folder(3) [OF wf] by blast
    then show ?thesis by cases simp_all
  qed
  have cyc: "folderCycle f (folders t) = Some None" if "f \<in> set fs" for f
  proof -
    have f: "folder_at t (f_ID f) = Some f" using F [of "f_ID f" f] that by simp
    obtain e where e: "rooted (folders t) (Suc e) (f_ID f)" "rooted (folders t) e (f_ParentID f)"
      using wf_folder(3) [OF wf f] by blast
    have "f_ID f \<in> set (folderChildren t (f_ParentID f))" using f wf_folderChildren [OF wf] by blast
    then have "\<not> under (folders t) (f_ID f) (f_ParentID f)" by (rule child_not_above [OF wf e(2)])
    then show ?thesis unfolding folderCycle_def
      by (intro cycle_loop_none [OF e(2)]) (use rooted_bound [OF e(2)] in simp_all)
  qed
  have "f_ID f \<noteq> c_ID c" if "f \<in> set fs" "c \<in> set cs" for f c
  proof
    assume eq: "f_ID f = c_ID c"
    have "folder_at t (f_ID f) = Some f" using F [of "f_ID f" f] that(1) by simp
    from wf_folder_not_conn [OF wf this] have "conn_at t (c_ID c) = None" using eq by simp
    then show False using C [of "c_ID c" c] that(2) by simp
  qed
  then have dis: "f_ID ` set fs \<inter> c_ID ` set cs = {}" by auto
  have cp: "c_ParentID c = NilID \<or> folder_at t (c_ParentID c) \<noteq> None" if "c \<in> set cs" for c
    using wf_conn(4) [OF wf, of "c_ID c" c] C [of "c_ID c" c] that by simp
  show ?thesis unfolding flat_ok_def fi using d par cyc dis cp by simp
qed

lemma Validate_wf:
  assumes wf: "wf_tree t" and s: "s_Tree snap = Some t"
  shows "\<exists>is. Validate (Some snap) = Some is \<and> no_errors is"
proof -
  obtain fl where e: "encodeInventory (Some t) = WDone fl" using encode_preorder [OF wf] by blast
  let ?fs = "map the (inv_Folders fl)" and ?cs = "map the (inv_Connections fl)"
  have n: "None \<notin> set (inv_Folders fl)" "None \<notin> set (inv_Connections fl)" and fl: "fl = flat_file ?fs ?cs"
    using e encode_preorder [OF wf] by (auto simp: flat_file_def comp_def)
  have ok: "flat_ok ?fs ?cs"
    using lists_tree_flat_ok [OF wf] encode_lists_tree [OF wf e] fl by simp
  obtain "is" where "validateFlat ?fs ?cs (Some (s_Workspace snap)) = Some is" "no_errors is"
    using validateFlat_errors ok by blast
  moreover have "Validate (Some snap) = validateFlat ?fs ?cs (Some (s_Workspace snap))"
    using e n s by (simp add: Validate_def flattenSnapshotTree_def encodeInventory_def)
  ultimately show ?thesis by simp
qed

end
