(* ===== verification/Store.thy ===== *)
theory Store
  imports Integrity
begin

text \<open>
  \<open>internal/persistence\<close>: the migrator of \<open>migrate.go\<close>, the atomic write of \<open>atomic.go\<close> and
  \<open>Load\<close>/\<open>Save\<close> of \<open>store.go\<close>. The encodings of \<open>encoding/json\<close> are a record of functions;
  a theorem that needs them to be inverse says so for the values at hand. System calls can
  fail: \<open>ok\<close> tells which of them succeed.
\<close>

definition CurrentVersion :: int where
  "CurrentVersion = 1"

definition FileInventory :: string where "FileInventory = ''inventory.json''"
definition FileTemplates :: string where "FileTemplates = ''templates.json''"
definition FileWorkspace :: string where "FileWorkspace = ''workspace.json''"
definition FileMeta :: string where "FileMeta = ''meta.json''"

definition known_files :: "string list" where
  "known_files = [FileMeta, FileInventory, FileTemplates, FileWorkspace]"

lemmas file_names = FileInventory_def FileTemplates_def FileWorkspace_def FileMeta_def

subsection \<open>Migration\<close>

text \<open>
  The files are listed in the order in which \<open>range\<close> yields them. \<open>um\<close> and \<open>mi\<close> are
  \<open>json.Unmarshal\<close> into \<open>any\<close> and \<open>json.MarshalIndent\<close>.
\<close>

type_synonym files = "(string \<times> byte list) list"
type_synonym 'j raw = "(string, 'j) gomap"

record 'j Migration =
  mig_From :: int
  mig_To :: int
  mig_Migrate :: "('j raw \<Rightarrow> string + 'j raw) option"

datatype migrate_error =
    NilMeta | NewerVersion int | ParseFailed string | ChainGap int int | NoMigrateFunc int int
  | StepFailed int int string | NoPath int | ReencodeFailed string

definition identityMigration :: "'j raw \<Rightarrow> string + 'j raw" where
  "identityMigration raw = Inr raw"

definition DefaultMigrator :: "'j Migration list" where
  "DefaultMigrator = [\<lparr>mig_From = 0, mig_To = 1, mig_Migrate = Some identityMigration\<rparr>]"

definition rawKey :: "string \<Rightarrow> string" where
  "rawKey name = (if length name > 5 \<and> has_suffix name ''.json'' then take (length name - 5) name
     else name)"

fun toRaw :: "(byte list \<Rightarrow> 'j option) \<Rightarrow> files \<Rightarrow> 'j raw \<Rightarrow> migrate_error + 'j raw" where
  "toRaw um [] out = Inr out"
| "toRaw um ((name, data) # fs) out =
     (if length data = 0 then toRaw um fs out
      else case um data of
          None \<Rightarrow> Inl (ParseFailed name)
        | Some v \<Rightarrow> toRaw um fs (fmupd (rawKey name) v out))"

fun emit_known :: "('j \<Rightarrow> byte list option) \<Rightarrow> string list \<Rightarrow> 'j raw \<Rightarrow> files \<Rightarrow>
    migrate_error + 'j raw \<times> files" where
  "emit_known mi [] raw out = Inr (raw, out)"
| "emit_known mi (name # names) raw out = (case fmlookup raw (rawKey name) of
     None \<Rightarrow> emit_known mi names raw out
   | Some v \<Rightarrow> (case mi v of
       None \<Rightarrow> Inl (ReencodeFailed name)
     | Some data \<Rightarrow> emit_known mi names (fmdrop (rawKey name) raw) (out @ [(name, data)])))"

fun emit_rest :: "('j \<Rightarrow> byte list option) \<Rightarrow> string list \<Rightarrow> 'j raw \<Rightarrow> files \<Rightarrow> migrate_error + files" where
  "emit_rest mi [] raw out = Inr out"
| "emit_rest mi (key # keys) raw out = (case fmlookup raw key of
     None \<Rightarrow> emit_rest mi keys raw out
   | Some v \<Rightarrow> (case mi v of
       None \<Rightarrow> Inl (ReencodeFailed key)
     | Some data \<Rightarrow> emit_rest mi keys raw (out @ [(key @ ''.json'', data)])))"

text \<open>The residual keys are visited in increasing order; the source's map order is arbitrary.\<close>

definition fromRaw :: "('j \<Rightarrow> byte list option) \<Rightarrow> 'j raw \<Rightarrow> migrate_error + files" where
  "fromRaw mi raw = (case emit_known mi known_files raw [] of
     Inl e \<Rightarrow> Inl e
   | Inr (rest, out) \<Rightarrow> emit_rest mi (sorted_list_of_fset (fmdom rest)) rest out)"

fun run_steps :: "'j Migration list \<Rightarrow> 'j raw \<Rightarrow> int \<Rightarrow> migrate_error + 'j raw \<times> int" where
  "run_steps [] raw current = Inr (raw, current)"
| "run_steps (step # steps) raw current =
     (if mig_From step < current then run_steps steps raw current
      else if mig_From step \<noteq> current then Inl (ChainGap current (mig_From step))
      else case mig_Migrate step of
          None \<Rightarrow> Inl (NoMigrateFunc (mig_From step) (mig_To step))
        | Some mig \<Rightarrow> (case mig raw of
            Inl e \<Rightarrow> Inl (StepFailed (mig_From step) (mig_To step) e)
          | Inr out \<Rightarrow>
              if mig_To step = CurrentVersion then Inr (out, mig_To step)
              else run_steps steps out (mig_To step)))"

text \<open>The files and the meta record after the call, and the error.\<close>

definition Run :: "(byte list \<Rightarrow> 'j option) \<Rightarrow> ('j \<Rightarrow> byte list option) \<Rightarrow> 'j Migration list \<Rightarrow>
    Meta option \<Rightarrow> files \<Rightarrow> files \<times> Meta option \<times> migrate_error option" where
  "Run um mi steps mo fs = (case mo of
     None \<Rightarrow> (fs, None, Some NilMeta)
   | Some meta \<Rightarrow>
       if m_Version meta = CurrentVersion then (fs, Some meta, None)
       else if m_Version meta > CurrentVersion then (fs, Some meta, Some (NewerVersion (m_Version meta)))
       else (case toRaw um fs fmempty of
           Inl e \<Rightarrow> (fs, Some meta, Some e)
         | Inr raw \<Rightarrow> (case run_steps steps raw (m_Version meta) of
             Inl e \<Rightarrow> (fs, Some meta, Some e)
           | Inr (raw', current) \<Rightarrow>
               if current \<noteq> CurrentVersion then (fs, Some meta, Some (NoPath (m_Version meta)))
               else (case fromRaw mi raw' of
                   Inl e \<Rightarrow> (fs, Some meta, Some e)
                 | Inr fs' \<Rightarrow> (fs', Some (meta\<lparr>m_Version := CurrentVersion\<rparr>), None)))))"

lemma Run_rollback: "Run um mi steps mo fs = (fs', mo', Some e) \<Longrightarrow> fs' = fs \<and> mo' = mo"
  by (auto simp: Run_def split: option.splits if_splits sum.splits prod.splits)

lemma Run_current: "Run um mi steps (Some m) fs = (fs', Some m', None) \<Longrightarrow>
    m_Version m' = CurrentVersion \<and> m' = m\<lparr>m_Version := CurrentVersion\<rparr>"
  by (auto simp: Run_def split: if_splits sum.splits prod.splits)

lemma Run_meta: "fst (snd (Run um mi steps (Some m) fs)) \<noteq> None"
  by (simp add: Run_def split: option.split sum.split prod.split)

subsection \<open>Atomic writes\<close>

record disk =
  d_files :: "string \<rightharpoonup> byte list"
  d_temps :: "(string \<times> byte list) list"

datatype wcall = MkdirDir | CreateTemp | WriteTemp | SyncTemp | CloseTemp | RenameTemp | OpenDir

datatype store_error =
    ContextDone | NilSnapshot | MkdirStore | WriteFailed string wcall | MarshalFailed string
  | ReadFailed string | TooLarge string | DecodeFailed string | MigrationFailed migrate_error
  | TreeFailed decode_error | WalkPanicked

text \<open>
  The steps on the disk in order; a failed one removes the temporary file. \<open>part\<close> is what a
  failed write put into it. An error of the directory's \<open>Sync\<close> is swallowed, one of
  opening the directory is not.
\<close>

definition WriteAtomic :: "(wcall \<Rightarrow> bool) \<Rightarrow> byte list \<Rightarrow> string \<Rightarrow> byte list \<Rightarrow> disk \<Rightarrow>
    (wcall option \<times> disk) \<times> disk list" where
  "WriteAtomic ok part path data d =
     (let tmp = ''.tmp-'' @ path;
          with_tmp = (\<lambda>b. d\<lparr>d_temps := (tmp, b) # d_temps d\<rparr>);
          renamed = d\<lparr>d_files := (d_files d)(path \<mapsto> data)\<rparr>
      in if \<not> ok MkdirDir then ((Some MkdirDir, d), [d])
         else if \<not> ok CreateTemp then ((Some CreateTemp, d), [d])
         else if \<not> ok WriteTemp then ((Some WriteTemp, d), [d, with_tmp [], with_tmp part])
         else if \<not> ok SyncTemp then ((Some SyncTemp, d), [d, with_tmp [], with_tmp data])
         else if \<not> ok CloseTemp then ((Some CloseTemp, d), [d, with_tmp [], with_tmp data])
         else if \<not> ok RenameTemp then ((Some RenameTemp, d), [d, with_tmp [], with_tmp data])
         else if \<not> ok OpenDir
         then ((Some OpenDir, renamed), [d, with_tmp [], with_tmp data, renamed])
         else ((None, renamed), [d, with_tmp [], with_tmp data, renamed]))"

lemma WriteAtomic_states:
  assumes "WriteAtomic ok part path data d = ((e, d'), states)" "s \<in> set states"
  shows "d_files s = d_files d \<or> d_files s = (d_files d)(path \<mapsto> data)"
  using assms by (auto simp: WriteAtomic_def Let_def split: if_splits)

lemma WriteAtomic_result:
  assumes "WriteAtomic ok part path data d = ((e, d'), states)"
  shows "d_temps d' = d_temps d \<and>
    d_files d' = (if e = None \<or> e = Some OpenDir then (d_files d)(path \<mapsto> data) else d_files d)"
  using assms by (auto simp: WriteAtomic_def Let_def split: if_splits)

subsection \<open>Save\<close>

record 'j json =
  mi_inv :: "inventoryFile \<Rightarrow> byte list option"
  mi_tpl :: "ConnectionTemplate list \<Rightarrow> byte list option"
  mi_ws :: "WorkspaceLayout \<Rightarrow> byte list option"
  mi_meta :: "Meta \<Rightarrow> byte list option"
  um_inv :: "byte list \<Rightarrow> inventoryFile option"
  um_tpl :: "byte list \<Rightarrow> ConnectionTemplate list option"
  um_ws :: "byte list \<Rightarrow> WorkspaceLayout option"
  um_meta :: "byte list \<Rightarrow> Meta option"
  um_any :: "byte list \<Rightarrow> 'j option"
  mi_any :: "'j \<Rightarrow> byte list option"

text \<open>Writing a list of files in order: the first failure stops.\<close>

fun write_all :: "(string \<Rightarrow> wcall \<Rightarrow> bool) \<Rightarrow> (string \<times> byte list option) list \<Rightarrow> disk \<Rightarrow>
    store_error option \<times> disk" where
  "write_all ok [] d = (None, d)"
| "write_all ok ((name, None) # ws) d = (Some (MarshalFailed name), d)"
| "write_all ok ((name, Some data) # ws) d =
     (case WriteAtomic (ok name) [] name data d of
        ((None, d'), _) \<Rightarrow> write_all ok ws d'
      | ((Some c, d'), _) \<Rightarrow> (Some (WriteFailed name c), d'))"

definition stamp :: "time \<Rightarrow> Meta \<Rightarrow> Meta" where
  "stamp now m = m\<lparr>m_Version := CurrentVersion,
     m_CreatedAt := (if m_CreatedAt m = 0 then now else m_CreatedAt m), m_UpdatedAt := now\<rparr>"

definition Save :: "'j json \<Rightarrow> bool \<Rightarrow> (string \<Rightarrow> wcall \<Rightarrow> bool) \<Rightarrow> bool \<Rightarrow> time \<Rightarrow> Snapshot option \<Rightarrow>
    disk \<Rightarrow> store_error option \<times> Snapshot option \<times> disk" where
  "Save J ctx ok mkdir_ok now so d =
     (if \<not> ctx then (Some ContextDone, so, d)
      else case so of None \<Rightarrow> (Some NilSnapshot, None, d)
      | Some snap \<Rightarrow>
          if \<not> mkdir_ok then (Some MkdirStore, so, d)
          else (let meta = stamp now (s_Meta snap) in
            case encodeInventory (s_Tree snap) of
              WDone file \<Rightarrow>
                (case write_all ok [(FileInventory, mi_inv J file), (FileTemplates, mi_tpl J (s_Templates snap)),
                     (FileWorkspace, mi_ws J (s_Workspace snap)), (FileMeta, mi_meta J meta)] d of
                   (Some e, d') \<Rightarrow> (Some e, so, d')
                 | (None, d') \<Rightarrow> (None, Some (snap\<lparr>s_Meta := meta\<rparr>), d'))
            | _ \<Rightarrow> (Some WalkPanicked, so, d)))"

subsection \<open>Load\<close>

definition maxReadFileBytes :: nat where
  "maxReadFileBytes = 100 * 2 ^ 20"

fun read_all :: "(string \<Rightarrow> bool) \<Rightarrow> string list \<Rightarrow> disk \<Rightarrow> store_error + files" where
  "read_all ok [] d = Inr []"
| "read_all ok (name # names) d =
     (if \<not> ok name then Inl (ReadFailed name)
      else case d_files d name of
          None \<Rightarrow> read_all ok names d
        | Some data \<Rightarrow>
            if length data > maxReadFileBytes then Inl (TooLarge name)
            else (case read_all ok names d of
                Inl e \<Rightarrow> Inl e | Inr fs \<Rightarrow> Inr ((name, data) # fs)))"

definition decodeJSON :: "string \<Rightarrow> (byte list \<Rightarrow> 'a option) \<Rightarrow> 'a \<Rightarrow> byte list option \<Rightarrow> store_error + 'a" where
  "decodeJSON name um zero data = (case data of
     None \<Rightarrow> Inr zero
   | Some b \<Rightarrow> if length b = 0 then Inr zero
       else (case um b of None \<Rightarrow> Inl (DecodeFailed name) | Some v \<Rightarrow> Inr v))"

definition zero_meta :: Meta where
  "zero_meta = \<lparr>m_Version = 0, m_CreatedAt = 0, m_UpdatedAt = 0, m_AppVersion = ''''\<rparr>"

definition load_files :: "'j json \<Rightarrow> Meta \<Rightarrow> files \<Rightarrow> store_error + Snapshot" where
  "load_files J meta fs =
     (case decodeJSON FileInventory (um_inv J) zero_inventory (map_of fs FileInventory) of
        Inl e \<Rightarrow> Inl e
      | Inr file \<Rightarrow> (case decodeInventory file of
          Inl e \<Rightarrow> Inl (TreeFailed e)
        | Inr tree \<Rightarrow> (case decodeJSON FileTemplates (um_tpl J) [] (map_of fs FileTemplates) of
            Inl e \<Rightarrow> Inl e
          | Inr tpl \<Rightarrow> (case decodeJSON FileWorkspace (um_ws J) zero_workspace (map_of fs FileWorkspace) of
              Inl e \<Rightarrow> Inl e
            | Inr ws \<Rightarrow> Inr \<lparr>s_Tree = Some tree, s_Templates = tpl, s_Workspace = ws, s_Meta = meta\<rparr>))))"

definition Load :: "'j json \<Rightarrow> bool \<Rightarrow> (string \<Rightarrow> bool) \<Rightarrow> disk \<Rightarrow> store_error + Snapshot" where
  "Load J ctx ok d =
     (if \<not> ctx then Inl ContextDone
      else case read_all ok known_files d of
          Inl e \<Rightarrow> Inl e
        | Inr fs \<Rightarrow> (case decodeJSON FileMeta (um_meta J) zero_meta (map_of fs FileMeta) of
            Inl e \<Rightarrow> Inl e
          | Inr meta0 \<Rightarrow>
              (let meta = (if m_Version meta0 = 0 \<and> length fs = 0
                           then meta0\<lparr>m_Version := CurrentVersion\<rparr> else meta0) in
               if m_Version meta = CurrentVersion then load_files J meta fs
               else (case Run (um_any J) (mi_any J) DefaultMigrator (Some meta) fs of
                   (fs', Some meta', None) \<Rightarrow> load_files J meta' fs'
                 | (_, _, Some e) \<Rightarrow> Inl (MigrationFailed e)
                 | (fs', None, None) \<Rightarrow> Inl (MigrationFailed NilMeta)))))"

subsection \<open>A failed save leaves a prefix of the new files\<close>

definition written :: "(string \<times> byte list option) list \<Rightarrow> (string \<rightharpoonup> byte list) \<Rightarrow> (string \<rightharpoonup> byte list)" where
  "written ws m = fold (\<lambda>(name, data) m. m(name := data)) ws m"

lemma write_all_prefix:
  "write_all ok ws d = (e, d') \<Longrightarrow> \<exists>k \<le> length ws. d_files d' = written (take k ws) (d_files d) \<and>
    d_temps d' = d_temps d \<and> (e = None \<longrightarrow> k = length ws)"
proof (induction ok ws d arbitrary: e d' rule: write_all.induct)
  case (3 ok name data ws d)
  obtain c d1 st where w: "WriteAtomic (ok name) [] name data d = ((c, d1), st)" by (metis surj_pair)
  note res = WriteAtomic_result [OF w]
  show ?case
  proof (cases c)
    case None
    with 3(1) [OF w [symmetric] refl] 3(2) w obtain k where "k \<le> length ws"
      "d_files d' = written (take k ws) (d_files d1)" "d_temps d' = d_temps d1" "e = None \<longrightarrow> k = length ws"
      by auto
    then show ?thesis using res None
      by (intro exI [of _ "Suc k"]) (simp add: written_def)
  next
    case (Some x)
    with 3(2) w have "d' = d1" "e \<noteq> None" by auto
    then show ?thesis using res Some
      by (intro exI [of _ "if x = OpenDir then 1 else 0"]) (auto simp: written_def)
  qed
qed (auto simp: written_def)

lemma written_lookup:
  "distinct (map fst ws) \<Longrightarrow> written ws m name = (case map_of ws name of None \<Rightarrow> m name | Some v \<Rightarrow> v)"
proof (induction ws arbitrary: m)
  case (Cons w ws)
  obtain n v where w: "w = (n, v)" by fastforce
  with Cons show ?case by (cases "name = n") (force simp: written_def split: option.splits dest: map_of_SomeD)+
qed (simp add: written_def)

lemma known_distinct [simp]:
  "FileInventory \<noteq> FileTemplates" "FileInventory \<noteq> FileWorkspace" "FileInventory \<noteq> FileMeta"
  "FileTemplates \<noteq> FileWorkspace" "FileTemplates \<noteq> FileMeta" "FileWorkspace \<noteq> FileMeta"
  "FileTemplates \<noteq> FileInventory" "FileWorkspace \<noteq> FileInventory" "FileMeta \<noteq> FileInventory"
  "FileWorkspace \<noteq> FileTemplates" "FileMeta \<noteq> FileTemplates" "FileMeta \<noteq> FileWorkspace"
  by (simp_all add: file_names)

text \<open>What was encoded is decoded again, for the four documents of one snapshot.\<close>

definition faithful :: "'j json \<Rightarrow> inventoryFile \<Rightarrow> Snapshot \<Rightarrow> Meta \<Rightarrow> bool" where
  "faithful J file snap meta \<longleftrightarrow> (\<exists>bi bt bw bm.
     mi_inv J file = Some bi \<and> um_inv J bi = Some file \<and>
     mi_tpl J (s_Templates snap) = Some bt \<and> um_tpl J bt = Some (s_Templates snap) \<and>
     mi_ws J (s_Workspace snap) = Some bw \<and> um_ws J bw = Some (s_Workspace snap) \<and>
     mi_meta J meta = Some bm \<and> um_meta J bm = Some meta \<and>
     list_all (\<lambda>b. b \<noteq> [] \<and> length b \<le> maxReadFileBytes) [bi, bt, bw, bm])"

lemma Save_then_Load:
  assumes wf: "wf_tree t" and tree: "s_Tree snap = Some t"
    and e: "encodeInventory (Some t) = WDone file"
    and J: "faithful J file snap (stamp now (s_Meta snap))"
    and ok: "\<forall>n c. ok n c" and rd: "\<forall>n. rok n"
  shows "\<exists>d' t'. Save J True ok True now (Some snap) d = (None, Some (snap\<lparr>s_Meta := stamp now (s_Meta snap)\<rparr>), d') \<and>
    Load J True rok d' = Inr (snap\<lparr>s_Tree := Some t', s_Meta := stamp now (s_Meta snap)\<rparr>) \<and>
    wf_tree t' \<and> folders t' = folders t \<and> connections t' = connections t"
proof -
  let ?m = "stamp now (s_Meta snap)"
  obtain bi bt bw bm where b: "mi_inv J file = Some bi" "um_inv J bi = Some file"
    "mi_tpl J (s_Templates snap) = Some bt" "um_tpl J bt = Some (s_Templates snap)"
    "mi_ws J (s_Workspace snap) = Some bw" "um_ws J bw = Some (s_Workspace snap)"
    "mi_meta J ?m = Some bm" "um_meta J bm = Some ?m"
    and len: "bi \<noteq> []" "bt \<noteq> []" "bw \<noteq> []" "bm \<noteq> []" "length bi \<le> maxReadFileBytes"
      "length bt \<le> maxReadFileBytes" "length bw \<le> maxReadFileBytes" "length bm \<le> maxReadFileBytes"
    using J unfolding faithful_def by auto
  let ?ws = "[(FileInventory, Some bi), (FileTemplates, Some bt), (FileWorkspace, Some bw), (FileMeta, Some bm)]"
  obtain er d' where w: "write_all ok ?ws d = (er, d')" by fastforce
  have "er = None" using w ok by (auto simp: WriteAtomic_def Let_def)
  with write_all_prefix [OF w] have d': "d_files d' = written ?ws (d_files d)" by auto
  have files: "d_files d' FileInventory = Some bi" "d_files d' FileTemplates = Some bt"
    "d_files d' FileWorkspace = Some bw" "d_files d' FileMeta = Some bm"
    unfolding d' by (simp_all add: written_lookup)
  have read: "read_all rok known_files d' =
      Inr [(FileMeta, bm), (FileInventory, bi), (FileTemplates, bt), (FileWorkspace, bw)]"
    using files len rd by (simp add: known_files_def)
  obtain t' where t': "decodeInventory file = Inr t'" "wf_tree t'" "folders t' = folders t"
    "connections t' = connections t"
    using decode_lists_tree [OF wf encode_lists_tree [OF wf e]] by blast
  have v: "m_Version ?m = CurrentVersion" by (simp add: stamp_def)
  have "Load J True rok d' = Inr (snap\<lparr>s_Tree := Some t', s_Meta := ?m\<rparr>)"
    using read b len t'(1) v by (simp add: Load_def load_files_def decodeJSON_def Let_def)
  moreover have "Save J True ok True now (Some snap) d = (None, Some (snap\<lparr>s_Meta := ?m\<rparr>), d')"
    using w \<open>er = None\<close> b e tree by (simp add: Save_def Let_def del: write_all.simps)
  ultimately show ?thesis using t' by blast
qed

lemma Load_wf: "Load J ctx rok d = Inr snap \<Longrightarrow> \<exists>t. s_Tree snap = Some t \<and> wf_tree t"
proof -
  assume "Load J ctx rok d = Inr snap"
  then obtain meta fs where "load_files J meta fs = Inr snap"
    by (auto simp: Load_def Let_def split: if_splits sum.splits prod.splits option.splits)
  then show ?thesis
    using decodeInventory_wf by (auto simp: load_files_def split: sum.splits)
qed

lemma Load_version: "Load J ctx rok d = Inr snap \<Longrightarrow> m_Version (s_Meta snap) = CurrentVersion"
proof -
  assume l: "Load J ctx rok d = Inr snap"
  have meta: "load_files J meta fs = Inr snap \<Longrightarrow> s_Meta snap = meta" for meta fs
    by (auto simp: load_files_def split: sum.splits)
  from l show ?thesis
    by (auto simp: Load_def Let_def split: if_splits sum.splits prod.splits option.splits
        dest!: meta Run_current)
qed

end
