(* ===== verification/RestoreGuard.thy ===== *)
theory RestoreGuard
  imports Integrity
begin

text \<open>
  \<open>internal/persistence/backup.go\<close>: the size limits and the path checks of a restore, the
  retention of old archives, the choice of a fresh archive name, and the swap of the
  directories with its rollback. Paths are those of a Unix system (\<open>ToSlash\<close> and
  \<open>FromSlash\<close> are the identity); sizes and limits are 64-bit words as in the source.
\<close>

subsection \<open>Paths of the standard library\<close>

fun split_on :: "char \<Rightarrow> string \<Rightarrow> string list" where
  "split_on c [] = [[]]"
| "split_on c (x # xs) =
     (if x = c then [] # split_on c xs
      else case split_on c xs of [] \<Rightarrow> [[x]] | s # ss \<Rightarrow> (x # s) # ss)"

fun join_with :: "string \<Rightarrow> string list \<Rightarrow> string" where
  "join_with sep [] = []"
| "join_with sep [s] = s"
| "join_with sep (s # t # ss) = s @ sep @ join_with sep (t # ss)"

text \<open>\<open>filepath.Clean\<close>: the components that remain, the output kept in reverse.\<close>

fun clean_step :: "bool \<Rightarrow> string list \<Rightarrow> string \<Rightarrow> string list" where
  "clean_step absolute out c =
     (if c = '''' \<or> c = ''.'' then out
      else if c = ''..'' then
        (case out of
           t # ts \<Rightarrow> if t = ''..'' then c # out else ts
         | [] \<Rightarrow> if absolute then [] else [c])
      else c # out)"

definition is_rooted :: "string \<Rightarrow> bool" where
  "is_rooted p = has_prefix p ''/''"

definition clean_comps :: "string \<Rightarrow> string list" where
  "clean_comps p = rev (foldl (clean_step (is_rooted p)) [] (split_on CHR ''/'' p))"

definition path_Clean :: "string \<Rightarrow> string" where
  "path_Clean p = (let s = (if is_rooted p then ''/'' else '''') @ join_with ''/'' (clean_comps p)
     in if s = '''' then ''.'' else s)"

subsection \<open>Path checks\<close>

datatype path_error = EmptyRestorePath | PathEscapesRoot

definition sanitizeRestorePath :: "string \<Rightarrow> path_error + string" where
  "sanitizeRestorePath name =
     (let clean = path_Clean name in
      if clean = ''.'' \<or> clean = '''' \<or> clean = ''/'' then Inl EmptyRestorePath
      else if has_prefix clean ''../'' \<or> contains clean ''/../'' \<or> has_prefix clean ''/''
      then Inl PathEscapesRoot
      else Inr clean)"

text \<open>
  \<open>filepath.Join\<close>, \<open>filepath.Rel\<close> on a cleaned absolute base: \<open>base\<close> is the list of its
  components (\<open>Abs\<close> of the restore directory).
\<close>

definition join_comps :: "string list \<Rightarrow> string \<Rightarrow> string list" where
  "join_comps base rel = rev (foldl (clean_step True) (rev base) (split_on CHR ''/'' rel))"

fun rel_comps :: "string list \<Rightarrow> string list \<Rightarrow> string list" where
  "rel_comps (b # bs) (d # ds) =
     (if b = d then rel_comps bs ds else map (\<lambda>_. ''..'') (b # bs) @ d # ds)"
| "rel_comps bs ds = map (\<lambda>_. ''..'') bs @ ds"

definition safeJoinWithinRoot :: "string list \<Rightarrow> string \<Rightarrow> path_error + string list" where
  "safeJoinWithinRoot base rel =
     (let dest = join_comps base rel; up = rel_comps base dest;
          relToRoot = (if up = [] then ''.'' else join_with ''/'' up) in
      if relToRoot = ''..'' \<or> has_prefix relToRoot ''../'' then Inl PathEscapesRoot
      else Inr dest)"

subsection \<open>Archive limits\<close>

record zip_entry =
  z_Name :: string
  z_IsDir :: bool
  z_Size :: "64 word"
  z_Data :: "byte list"

record limits =
  maxRestoreEntries :: nat
  maxRestoreBytes :: "64 word"
  maxRestoreFileBytes :: "64 word"

definition default_limits :: limits where
  "default_limits = \<lparr>maxRestoreEntries = 256, maxRestoreBytes = 64 * 2 ^ 20,
     maxRestoreFileBytes = 16 * 2 ^ 20\<rparr>"

datatype archive_error = TooManyEntries nat | EntryTooLarge string | TotalTooLarge

fun archive_loop :: "limits \<Rightarrow> 64 word \<Rightarrow> zip_entry list \<Rightarrow> archive_error option" where
  "archive_loop lim acc [] = None"
| "archive_loop lim acc (f # fs) =
     (if z_IsDir f then archive_loop lim acc fs
      else if z_Size f > maxRestoreFileBytes lim then Some (EntryTooLarge (z_Name f))
      else if acc > maxRestoreBytes lim - z_Size f then Some TotalTooLarge
      else archive_loop lim (acc + z_Size f) fs)"

definition validateRestoreArchive :: "limits \<Rightarrow> zip_entry list \<Rightarrow> archive_error option" where
  "validateRestoreArchive lim fs =
     (if length fs > maxRestoreEntries lim then Some (TooManyEntries (length fs))
      else archive_loop lim 0 fs)"

definition checkedCopyLimits :: "64 word \<Rightarrow> (64 word \<times> 64 word) option" where
  "checkedCopyLimits maxBytes =
     (if maxBytes \<ge> 2 ^ 63 - 1 then None else Some (maxBytes, maxBytes + 1))"

text \<open>
  \<open>copyZipEntry\<close>: the reader delivers \<open>src\<close> and then an error or EOF; what was written,
  and the error.
\<close>

datatype copy_error = LimitTooLarge | EntryExceedsLimit | ReadFailed

definition copyZipEntry :: "byte list \<Rightarrow> bool \<Rightarrow> 64 word \<Rightarrow> byte list \<times> copy_error option" where
  "copyZipEntry src read_err maxBytes =
     (case checkedCopyLimits maxBytes of
        None \<Rightarrow> ([], Some LimitTooLarge)
      | Some (maxCopyBytes, limit) \<Rightarrow>
          (let out = take (unat limit) src; n = length out in
           if n > unat maxCopyBytes then (out, Some EntryExceedsLimit)
           else if read_err \<and> length src < unat limit then (out, Some ReadFailed)
           else (out, None)))"

subsection \<open>Retention\<close>

record dir_entry =
  e_Name :: string
  e_IsDir :: bool
  e_ModTime :: time

definition DefaultBackupRetention :: nat where
  "DefaultBackupRetention = 10"

text \<open>\<open>rm\<close> tells which removals succeed; the result is the directory left, and the error.\<close>

fun remove_files :: "(string \<Rightarrow> bool) \<Rightarrow> string list \<Rightarrow> dir_entry list \<Rightarrow>
    dir_entry list \<times> string option" where
  "remove_files rm [] es = (es, None)"
| "remove_files rm (n # ns) es =
     (if rm n then remove_files rm ns (filter (\<lambda>e. e_Name e \<noteq> n) es) else (es, Some n))"

definition is_archive :: "dir_entry \<Rightarrow> bool" where
  "is_archive e \<longleftrightarrow> \<not> e_IsDir e \<and> has_suffix (e_Name e) ''.zip''"

definition pruneBackups :: "(string \<Rightarrow> bool) \<Rightarrow> nat \<Rightarrow> dir_entry list \<Rightarrow>
    dir_entry list \<times> string option" where
  "pruneBackups rm keep es =
     (let zips = filter is_archive es in
      if length zips \<le> keep then (es, None)
      else let sorted = sort_key (\<lambda>e. (e_ModTime e, e_Name e)) zips
           in remove_files rm (map e_Name (take (length zips - keep) sorted)) es)"

text \<open>A fresh archive name: the timestamp, then the timestamp with a counter.\<close>

fun decimal :: "nat \<Rightarrow> string" where
  "decimal n = (if n < 10 then [char_of (48 + n)]
     else decimal (n div 10) @ [char_of (48 + n mod 10)])"

declare decimal.simps [simp del]

definition backup_name :: "string \<Rightarrow> nat \<Rightarrow> string" where
  "backup_name ts i = (if i = 0 then ts @ ''.zip'' else ts @ ''-'' @ decimal i @ ''.zip'')"

fun name_loop :: "nat \<Rightarrow> string set \<Rightarrow> string \<Rightarrow> nat \<Rightarrow> string option" where
  "name_loop 0 present ts i = None"
| "name_loop (Suc n) present ts i =
     (if backup_name ts i \<notin> present then Some (backup_name ts i) else name_loop n present ts (i + 1))"

definition fresh_name :: "string list \<Rightarrow> string \<Rightarrow> string option" where
  "fresh_name present ts = name_loop (length present + 1) (set present) ts 0"

subsection \<open>The path checks keep an extraction inside its directory\<close>

definition plain :: "string \<Rightarrow> bool" where
  "plain c \<longleftrightarrow> c \<noteq> '''' \<and> c \<noteq> ''.'' \<and> c \<noteq> ''..''"

lemma clean_fold:
  "\<exists>ns k. out = ns @ replicate k ''..'' \<and> list_all plain ns \<and> (absolute \<longrightarrow> k = 0) \<Longrightarrow>
   \<exists>ns k. foldl (clean_step absolute) out cs = ns @ replicate k ''..'' \<and> list_all plain ns \<and>
     (absolute \<longrightarrow> k = 0)"
proof (induction cs arbitrary: out)
  case (Cons c cs)
  from Cons.prems obtain ns k where o: "out = ns @ replicate k ''..''" "list_all plain ns"
    "absolute \<longrightarrow> k = 0" by blast
  have "\<exists>ns k. clean_step absolute out c = ns @ replicate k ''..'' \<and> list_all plain ns \<and>
      (absolute \<longrightarrow> k = 0)"
  proof (cases "c = '''' \<or> c = ''.''")
    case True
    with o show ?thesis by auto
  next
    case False
    show ?thesis
    proof (cases "c = ''..''")
      case dots: True
      show ?thesis
      proof (cases ns)
        case Nil
        show ?thesis
        proof (cases k)
          case 0
          with Nil o(1) dots show ?thesis
            by (intro exI [of _ "[]"] exI [of _ "if absolute then 0 else 1"]) simp
        next
          case (Suc m)
          with Nil o dots show ?thesis
            by (intro exI [of _ "[]"] exI [of _ "Suc k"]) simp
        qed
      next
        case (Cons t ts)
        with o dots show ?thesis by (intro exI [of _ ts] exI [of _ k]) (auto simp: plain_def)
      qed
    next
      case no: False
      with False o show ?thesis by (intro exI [of _ "c # ns"] exI [of _ k]) (auto simp: plain_def)
    qed
  qed
  from Cons.IH [OF this] show ?case by simp
qed simp

lemma clean_comps_shape:
  "\<exists>k ns. clean_comps p = replicate k ''..'' @ ns \<and> list_all plain ns \<and> (is_rooted p \<longrightarrow> k = 0)"
proof -
  have "\<exists>ns k. [] = ns @ replicate k ''..'' \<and> list_all plain ns \<and> (is_rooted p \<longrightarrow> k = (0::nat))"
    by (intro exI [of _ "[]"] exI [of _ 0]) simp
  from clean_fold [OF this, of "split_on CHR ''/'' p"] obtain ns k where
    "foldl (clean_step (is_rooted p)) [] (split_on CHR ''/'' p) = ns @ replicate k ''..''"
    "list_all plain ns" "is_rooted p \<longrightarrow> k = 0" by blast
  then show ?thesis
    unfolding clean_comps_def by (intro exI [of _ k] exI [of _ "rev ns"]) simp
qed

lemma join_dots:
  "length cs \<ge> 2 \<Longrightarrow> has_prefix (join_with ''/'' (''..'' # tl cs)) ''../''"
  by (cases cs; cases "tl cs") (auto simp: has_prefix_iff)

lemma sanitize_shape:
  assumes "sanitizeRestorePath name = Inr p"
  shows "\<not> is_rooted name \<and> p = join_with ''/'' (clean_comps name) \<and>
    (clean_comps name = [''..''] \<or> list_all plain (clean_comps name) \<and> clean_comps name \<noteq> [])"
proof -
  have p: "p = path_Clean name" and c: "path_Clean name \<noteq> ''.''" "path_Clean name \<noteq> ''/''"
    "\<not> has_prefix (path_Clean name) ''../''" "\<not> has_prefix (path_Clean name) ''/''"
    using assms by (auto simp: sanitizeRestorePath_def Let_def split: if_splits)
  have nr: "\<not> is_rooted name"
    using c(4) by (auto simp: path_Clean_def Let_def)
  obtain k ns where k: "clean_comps name = replicate k ''..'' @ ns" "list_all plain ns"
    using clean_comps_shape by blast
  have pc: "path_Clean name = join_with ''/'' (clean_comps name)"
    using c(1) nr by (auto simp: path_Clean_def Let_def split: if_splits)
  have ne: "clean_comps name \<noteq> []" using c(1) nr by (auto simp: path_Clean_def)
  have "clean_comps name = [''..'']" if nz: "k \<noteq> 0"
  proof (rule ccontr)
    assume "clean_comps name \<noteq> [''..'']"
    moreover obtain ts where t: "clean_comps name = ''..'' # ts" using k(1) nz by (cases k) auto
    ultimately have "length (clean_comps name) \<ge> 2" by (cases ts) auto
    from join_dots [OF this] t pc c(3) show False by simp
  qed
  then show ?thesis using nr p pc ne k by (cases "k = 0") auto
qed

lemma rel_comps_inside:
  "\<not> has_prefix ds bs \<Longrightarrow> \<exists>ts. rel_comps bs ds = ''..'' # ts"
proof (induction bs arbitrary: ds)
  case (Cons b bs)
  then show ?case by (cases ds) auto
qed simp

lemma safeJoin_inside:
  assumes "safeJoinWithinRoot base rel = Inr dest"
  shows "\<exists>c. dest = base @ c"
proof (rule ccontr)
  assume "\<nexists>c. dest = base @ c"
  then have "\<not> has_prefix dest base" by (auto simp: has_prefix_iff)
  then obtain ts where r: "rel_comps base dest = ''..'' # ts" using rel_comps_inside by blast
  have "dest = join_comps base rel" using assms by (auto simp: safeJoinWithinRoot_def Let_def split: if_splits)
  with assms r show False
    by (cases ts) (auto simp: safeJoinWithinRoot_def Let_def split: if_splits)
qed

subsection \<open>Limits\<close>

definition file_sizes :: "zip_entry list \<Rightarrow> nat list" where
  "file_sizes fs = map (\<lambda>f. unat (z_Size f)) (filter (\<lambda>f. \<not> z_IsDir f) fs)"

lemma archive_loop_iff:
  assumes "unat (maxRestoreFileBytes lim) \<le> unat (maxRestoreBytes lim)"
  shows "unat acc \<le> unat (maxRestoreBytes lim) \<Longrightarrow> archive_loop lim acc fs = None \<longleftrightarrow>
    (\<forall>n \<in> set (file_sizes fs). n \<le> unat (maxRestoreFileBytes lim)) \<and>
    unat acc + sum_list (file_sizes fs) \<le> unat (maxRestoreBytes lim)"
proof (induction fs arbitrary: acc)
  case Nil
  then show ?case by (simp add: file_sizes_def)
next
  case (Cons f fs)
  let ?M = "maxRestoreBytes lim" and ?z = "z_Size f"
  show ?case
  proof (cases "z_IsDir f \<or> ?z > maxRestoreFileBytes lim")
    case True
    with Cons show ?thesis by (auto simp: file_sizes_def word_less_nat_alt)
  next
    case False
    then have z: "unat ?z \<le> unat (maxRestoreFileBytes lim)" "\<not> z_IsDir f"
      by (simp_all add: word_less_nat_alt)
    have d: "unat (?M - ?z) = unat ?M - unat ?z"
      using z(1) assms by (intro unat_sub) (simp add: word_le_nat_alt)
    show ?thesis
    proof (cases "acc > ?M - ?z")
      case True
      then have "unat ?M < unat acc + unat ?z" using d by (simp add: word_less_nat_alt)
      moreover have "archive_loop lim acc (f # fs) = Some TotalTooLarge" using False True by simp
      ultimately show ?thesis using z(2) by (simp add: file_sizes_def)
    next
      case le: False
      then have s: "unat acc + unat ?z \<le> unat ?M"
        using d z assms by (simp add: word_less_nat_alt)
      also have "\<dots> < 2 ^ LENGTH(64)" by (rule unsigned_less)
      finally have a: "unat (acc + ?z) = unat acc + unat ?z" by (rule unat_add_lem [THEN iffD1])
      from Cons.IH [of "acc + ?z"] s a False le z show ?thesis by (simp add: file_sizes_def add.assoc)
    qed
  qed
qed

lemma validateRestoreArchive_iff:
  assumes "unat (maxRestoreFileBytes lim) \<le> unat (maxRestoreBytes lim)"
  shows "validateRestoreArchive lim fs = None \<longleftrightarrow> length fs \<le> maxRestoreEntries lim \<and>
    (\<forall>n \<in> set (file_sizes fs). n \<le> unat (maxRestoreFileBytes lim)) \<and>
    sum_list (file_sizes fs) \<le> unat (maxRestoreBytes lim)"
  using archive_loop_iff [OF assms, of 0 fs] by (auto simp: validateRestoreArchive_def)

lemma checkedCopyLimits_no_wrap:
  "checkedCopyLimits m = Some (a, b) \<Longrightarrow> a = m \<and> unat b = unat m + 1 \<and> unat b < 2 ^ 63"
proof -
  assume c: "checkedCopyLimits m = Some (a, b)"
  then have m: "m < 2 ^ 63 - 1" "a = m" "b = m + 1"
    by (auto simp: checkedCopyLimits_def split: if_splits)
  then have lt: "unat m < 2 ^ 63 - 1" by (simp add: word_less_nat_alt)
  then have "unat (m + 1) = unat m + 1"
    by (subst unat_add_lem [THEN iffD1]) simp_all
  with m lt show ?thesis by simp
qed

lemma copyZipEntry_bound:
  assumes "copyZipEntry src read_err m = (out, e)"
  shows "length out \<le> unat m + 1 \<and> has_prefix src out \<and>
    (e = None \<longrightarrow> length src \<le> unat m \<and> out = src \<and> \<not> read_err)"
proof (cases "checkedCopyLimits m")
  case None
  with assms show ?thesis by (auto simp: copyZipEntry_def)
next
  case (Some p)
  obtain a b where p: "p = (a, b)" by fastforce
  note l = checkedCopyLimits_no_wrap [OF Some [unfolded p]]
  show ?thesis
    using assms l by (auto simp: copyZipEntry_def Some p Let_def has_prefix_take min_def split: if_splits)
qed

subsection \<open>Retention keeps the newest archives\<close>

lemma remove_files_all:
  "(\<forall>n. rm n) \<Longrightarrow> remove_files rm ns es = (filter (\<lambda>e. e_Name e \<notin> set ns) es, None)"
  by (induction ns arbitrary: es) (auto simp: conj_commute)

lemma pruneBackups_keeps_newest:
  assumes rm: "\<forall>n. rm n" and d: "distinct (map e_Name es)" and more: "keep < length (filter is_archive es)"
  shows "\<exists>gone. pruneBackups rm keep es = (filter (\<lambda>e. e \<notin> gone) es, None) \<and>
    gone \<subseteq> set (filter is_archive es) \<and> card gone = length (filter is_archive es) - keep \<and>
    (\<forall>e \<in> gone. \<forall>e' \<in> set (filter is_archive es) - gone. e_ModTime e \<le> e_ModTime e')"
proof -
  let ?z = "filter is_archive es"
  define s where "s = sort_key (\<lambda>e. (e_ModTime e, e_Name e)) ?z"
  define n where "n = length ?z - keep"
  have ss: "set s = set ?z" "distinct s" "length s = length ?z"
    using d by (auto simp: s_def distinct_map)
  have "sorted (map (\<lambda>e. (e_ModTime e, e_Name e)) s)" by (simp add: s_def)
  then have le: "(e_ModTime e, e_Name e) \<le> (e_ModTime e', e_Name e')"
    if "e \<in> set (take n s)" "e' \<in> set (drop n s)" for e e'
    using that by (metis (no_types, lifting) append_take_drop_id imageI map_append set_map sorted_append)
  have inj: "inj_on e_Name (set es)" using d by (simp add: distinct_map)
  have names: "e_Name e \<in> set (map e_Name (take n s)) \<longleftrightarrow> e \<in> set (take n s)" if "e \<in> set es" for e
    using inj that ss(1) set_take_subset [of n s] by (auto simp: inj_on_def)
  have "pruneBackups rm keep es = remove_files rm (map e_Name (take n s)) es"
    using more by (simp add: pruneBackups_def Let_def s_def n_def)
  also have "\<dots> = (filter (\<lambda>e. e \<notin> set (take n s)) es, None)"
    unfolding remove_files_all [OF rm] using names by (simp cong: filter_cong)
  finally have p: "pruneBackups rm keep es = (filter (\<lambda>e. e \<notin> set (take n s)) es, None)" .
  have "set (take n s) \<subseteq> set ?z" using set_take_subset ss(1) by metis
  moreover have "card (set (take n s)) = length ?z - keep"
    using ss by (simp add: distinct_card n_def)
  moreover have "e_ModTime e \<le> e_ModTime e'"
    if "e \<in> set (take n s)" "e' \<in> set ?z - set (take n s)" for e e'
  proof -
    have "e' \<in> set (drop n s)" using that(2) ss(1) by (metis DiffE Un_iff append_take_drop_id set_append)
    from le [OF that(1) this] show ?thesis by (auto simp: less_eq_prod_def)
  qed
  ultimately show ?thesis using p by blast
qed

subsection \<open>A fresh name is found\<close>

lemma decimal_inj: "decimal m = decimal n \<Longrightarrow> m = n"
proof (induction m arbitrary: n rule: less_induct)
  case (less m)
  have ne: "decimal k \<noteq> []" for k by (subst decimal.simps) simp
  have last: "last (decimal k) = char_of (48 + k mod 10)" for k by (subst decimal.simps) simp
  have but: "butlast (decimal k) = (if k < 10 then [] else decimal (k div 10))" for k
    by (subst decimal.simps) simp
  have "(char_of (48 + m mod 10) :: char) = char_of (48 + n mod 10)"
    using less.prems last by metis
  then have "(of_char (char_of (48 + m mod 10) :: char) :: nat) = of_char (char_of (48 + n mod 10) :: char)"
    by simp
  then have "m mod 10 = n mod 10" by simp
  moreover have "m div 10 = n div 10"
  proof -
    have b: "(if m < 10 then [] else decimal (m div 10)) = (if n < 10 then [] else decimal (n div 10))"
      using but [of m] but [of n] less.prems by simp
    consider "m < 10" "n < 10" | "m \<ge> 10" "n \<ge> 10" using b ne by (metis not_less)
    then show ?thesis
    proof cases
      case 2
      with b have "decimal (m div 10) = decimal (n div 10)" by simp
      with less.IH [of "m div 10"] 2 show ?thesis by simp
    qed simp
  qed
  ultimately show ?case by (metis div_mult_mod_eq)
qed

lemma backup_name_inj: "backup_name ts i = backup_name ts j \<Longrightarrow> i = j"
  by (auto simp: backup_name_def decimal_inj split: if_splits)

lemma name_loop_none:
  "name_loop n P ts i = None \<Longrightarrow> k < n \<Longrightarrow> backup_name ts (i + k) \<in> P"
proof (induction n arbitrary: i k)
  case (Suc n)
  then have P: "backup_name ts i \<in> P" "name_loop n P ts (i + 1) = None" by (auto split: if_splits)
  show ?case using P Suc.IH [OF P(2), of "k - 1"] Suc.prems(2) by (cases k) auto
qed simp

lemma name_loop_fresh: "name_loop n P ts i = Some p \<Longrightarrow> p \<notin> P"
  by (induction n P ts i rule: name_loop.induct) (auto split: if_splits)

lemma fresh_name_found: "\<exists>p. fresh_name present ts = Some p \<and> p \<notin> set present"
proof (cases "fresh_name present ts")
  case None
  let ?N = "backup_name ts ` {..length present}"
  have "?N \<subseteq> set present"
    using name_loop_none [OF None [unfolded fresh_name_def]] by (auto simp: less_Suc_eq_le)
  then have "card ?N \<le> card (set present)" by (simp add: card_mono)
  also have "\<dots> \<le> length present" by (rule card_length)
  finally have "card ?N \<le> length present" .
  moreover have "card ?N = Suc (length present)"
    by (subst card_image) (auto simp: inj_on_def dest: backup_name_inj)
  ultimately show ?thesis by simp
next
  case (Some p)
  then show ?thesis using name_loop_fresh [OF Some [unfolded fresh_name_def]] by blast
qed

subsection \<open>Restore\<close>

text \<open>
  What a restore sees of the file system: the live directory, and the two siblings it
  creates. A directory is its files (path components and contents) and its \<open>backups\<close>
  subdirectory. \<open>ok\<close> tells, for each system call that can fail, whether it succeeds.
\<close>

record store_dir =
  files :: "(string list \<times> byte list) list"
  backups :: "dir_entry list option"

record restore_fs =
  live :: "store_dir option"
  restore_new :: "store_dir option"
  restore_old :: "store_dir option"

datatype syscall =
    SafetyBackup | OpenArchive | MkdirTemp | RenameLiveToOld | RenameNewToLive | RenameOldToLive
  | StatBackups | RenameBackups | RemoveNew | RemoveOld | CleanNew | CleanOld

datatype restore_error =
    SafetyBackupFailed | OpenFailed | BadArchive archive_error | UnsafePath string
  | NestedBackups string | MkdirFailed | ExtractFailed string | RenameStoreFailed
  | RollbackFailed | RenameNewFailed | PreserveBackupsFailed

fun check_names :: "zip_entry list \<Rightarrow> restore_error option" where
  "check_names [] = None"
| "check_names (f # fs) = (case sanitizeRestorePath (z_Name f) of
     Inl _ \<Rightarrow> Some (UnsafePath (z_Name f))
   | Inr clean \<Rightarrow>
       if has_prefix clean ''backups/'' \<or> clean = ''backups'' then Some (NestedBackups (z_Name f))
       else check_names fs)"

text \<open>
  \<open>extractZipEntry\<close> for the directory \<open>root\<close>: \<open>io f\<close> says that creating, opening, syncing
  and closing succeed, \<open>rd f\<close> that the reader delivers the data without an error. A file with
  the same path is replaced.
\<close>

definition put_file :: "string list \<Rightarrow> byte list \<Rightarrow> store_dir \<Rightarrow> store_dir" where
  "put_file path data d = d\<lparr>files := filter (\<lambda>(p, _). p \<noteq> path) (files d) @ [(path, data)]\<rparr>"

definition extractZipEntry :: "limits \<Rightarrow> (zip_entry \<Rightarrow> bool) \<Rightarrow> (zip_entry \<Rightarrow> bool) \<Rightarrow> string list \<Rightarrow>
    zip_entry \<Rightarrow> store_dir \<Rightarrow> restore_error + store_dir" where
  "extractZipEntry lim io rd root f d = (case sanitizeRestorePath (z_Name f) of
     Inl _ \<Rightarrow> Inl (UnsafePath (z_Name f))
   | Inr clean \<Rightarrow> (case safeJoinWithinRoot root clean of
       Inl _ \<Rightarrow> Inl (UnsafePath (z_Name f))
     | Inr dest \<Rightarrow>
         if \<not> io f then Inl (ExtractFailed (z_Name f))
         else if z_IsDir f then Inr d
         else (case copyZipEntry (z_Data f) (\<not> rd f) (maxRestoreFileBytes lim) of
             (out, Some e) \<Rightarrow> Inl (ExtractFailed (z_Name f))
           | (out, None) \<Rightarrow> Inr (put_file dest out d))))"

fun extract_all :: "(zip_entry \<Rightarrow> store_dir \<Rightarrow> restore_error + store_dir) \<Rightarrow> zip_entry list \<Rightarrow>
    store_dir \<Rightarrow> restore_error + store_dir" where
  "extract_all ex [] d = Inr d"
| "extract_all ex (f # fs) d = (case ex f d of
     Inl _ \<Rightarrow> Inl (ExtractFailed (z_Name f)) | Inr d' \<Rightarrow> extract_all ex fs d')"

definition empty_dir :: store_dir where
  "empty_dir = \<lparr>files = [], backups = None\<rparr>"

text \<open>What is left of a directory that is removed: \<open>rest\<close> when the removal fails.\<close>

definition after_RemoveAll :: "bool \<Rightarrow> store_dir \<Rightarrow> store_dir option \<Rightarrow> store_dir option" where
  "after_RemoveAll ok rest d = (if ok \<or> d = None then None else Some rest)"

text \<open>A directory can be renamed to a name that is free, or that is an empty directory.\<close>

definition no_dir :: "store_dir option \<Rightarrow> bool" where
  "no_dir d \<longleftrightarrow> (case d of None \<Rightarrow> True | Some x \<Rightarrow> x = empty_dir)"

text \<open>
  The swap of the directories, from the rename of the live one on. The old backups are moved when \<open>os.Stat\<close> finds
  them; an error of \<open>os.Stat\<close> counts as \<open>there are none\<close>, and they are removed with the old directory.
\<close>

definition swap_dirs :: "(syscall \<Rightarrow> bool) \<Rightarrow> (syscall \<Rightarrow> store_dir) \<Rightarrow> restore_fs \<Rightarrow> restore_error option \<times> restore_fs" where
  "swap_dirs ok rest fs =
     (if \<not> (ok RenameLiveToOld \<and> live fs \<noteq> None \<and> no_dir (restore_old fs)) then
        (Some RenameStoreFailed, fs\<lparr>restore_new := after_RemoveAll (ok CleanNew) (rest CleanNew) (restore_new fs)\<rparr>)
      else let fs1 = fs\<lparr>restore_old := live fs, live := None\<rparr> in
        if \<not> ok RenameNewToLive then
          (if \<not> ok RenameOldToLive then (Some RollbackFailed, fs1)
           else (Some RenameNewFailed, fs1\<lparr>live := restore_old fs1, restore_old := None\<rparr>))
        else let fs2 = fs1\<lparr>live := restore_new fs1, restore_new := None\<rparr>;
               finish = (\<lambda>fs. (None, fs\<lparr>restore_old := after_RemoveAll (ok CleanOld) (rest CleanOld) (restore_old fs)\<rparr>)) in
          (case (live fs2, restore_old fs2) of
             (Some new, Some old) \<Rightarrow>
               (case (if ok StatBackups then backups old else None) of
                  None \<Rightarrow> finish fs2
                | Some b \<Rightarrow>
                    if \<not> (ok RenameBackups \<and> (backups new = None \<or> backups new = Some [])) then (Some PreserveBackupsFailed, fs2)
                    else finish (fs2\<lparr>live := Some (new\<lparr>backups := Some b\<rparr>), restore_old := Some (old\<lparr>backups := None\<rparr>)\<rparr>))
           | _ \<Rightarrow> finish fs2))"

text \<open>
  \<open>backup\<close> is the effect of the safety backup on the live directory, failed or not. Siblings of an interrupted restore
  are removed first; what cannot be removed is extracted into, or stops the swap.
\<close>

definition restore_base :: "(syscall \<Rightarrow> bool) \<Rightarrow> (syscall \<Rightarrow> store_dir) \<Rightarrow> restore_fs \<Rightarrow> store_dir" where
  "restore_base ok rest fs = (case after_RemoveAll (ok RemoveNew) (rest RemoveNew) (restore_new fs) of None \<Rightarrow> empty_dir | Some d \<Rightarrow> d)"

definition Restore :: "limits \<Rightarrow> (syscall \<Rightarrow> bool) \<Rightarrow> (syscall \<Rightarrow> store_dir) \<Rightarrow> (store_dir \<Rightarrow> store_dir) \<Rightarrow>
    (zip_entry \<Rightarrow> store_dir \<Rightarrow> restore_error + store_dir) \<Rightarrow> zip_entry list \<Rightarrow>
    restore_fs \<Rightarrow> restore_error option \<times> restore_fs" where
  "Restore lim ok rest backup ex archive fs0 =
     (let fs = fs0\<lparr>live := map_option backup (live fs0)\<rparr> in
      if \<not> ok SafetyBackup then (Some SafetyBackupFailed, fs)
      else if \<not> ok OpenArchive then (Some OpenFailed, fs)
      else case validateRestoreArchive lim archive of
          Some e \<Rightarrow> (Some (BadArchive e), fs)
        | None \<Rightarrow> (case check_names archive of
            Some e \<Rightarrow> (Some e, fs)
          | None \<Rightarrow>
              (let fs1 = fs\<lparr>restore_new := after_RemoveAll (ok RemoveNew) (rest RemoveNew) (restore_new fs),
                 restore_old := after_RemoveAll (ok RemoveOld) (rest RemoveOld) (restore_old fs)\<rparr> in
               if \<not> ok MkdirTemp then (Some MkdirFailed, fs1)
               else case extract_all ex archive (restore_base ok rest fs0) of
                   Inl e \<Rightarrow> (Some e, fs1\<lparr>restore_new := (if ok CleanNew then None else Some (rest CleanNew))\<rparr>)
                 | Inr d \<Rightarrow> swap_dirs ok rest (fs1\<lparr>restore_new := Some d\<rparr>))))"

lemma swap_dirs_live:
  assumes "swap_dirs ok rest fs = (Some e, fs')"
  shows "live fs' = live fs \<or>
    e = RollbackFailed \<and> live fs' = None \<and> restore_old fs' = live fs \<or>
    e = PreserveBackupsFailed \<and> live fs' = restore_new fs \<and> restore_old fs' = live fs"
  using assms by (auto simp: swap_dirs_def Let_def split: if_splits option.splits)

lemma swap_dirs_done:
  assumes "swap_dirs ok rest fs = (None, fs')" "live fs = Some old" "restore_new fs = Some new"
  shows "live fs' = Some (case (if ok StatBackups then backups old else None) of None \<Rightarrow> new | Some b \<Rightarrow> new\<lparr>backups := Some b\<rparr>)"
  using assms by (auto simp: swap_dirs_def Let_def split: if_splits option.splits)

text \<open>When \<open>os.Stat\<close> fails on the old backups, the restore succeeds and they are gone.\<close>

lemma stat_error_loses_backups:
  assumes "live fs = Some old" "restore_new fs = Some new" "restore_old fs = None"
  shows "\<exists>fs'. swap_dirs (\<lambda>c. c \<noteq> StatBackups) rest fs = (None, fs') \<and> live fs' = Some new \<and> restore_old fs' = None"
  using assms by (simp add: swap_dirs_def no_dir_def after_RemoveAll_def Let_def)

lemma Restore_error_live:
  assumes "Restore lim ok rest backup ex archive fs = (Some e, fs')"
  shows "live fs' = map_option backup (live fs) \<or>
    (e = RollbackFailed \<or> e = PreserveBackupsFailed) \<and> restore_old fs' = map_option backup (live fs)"
  using assms
  by (auto simp: Restore_def Let_def split: if_splits option.splits sum.splits dest!: swap_dirs_live)

lemma Restore_ok_live:
  assumes "Restore lim ok rest backup ex archive fs = (None, fs')" "live fs = Some d"
  shows "validateRestoreArchive lim archive = None \<and> check_names archive = None \<and>
    (\<exists>new. extract_all ex archive (restore_base ok rest fs) = Inr new \<and>
      live fs' = Some (case (if ok StatBackups then backups (backup d) else None) of None \<Rightarrow> new | Some b \<Rightarrow> new\<lparr>backups := Some b\<rparr>))"
  using assms swap_dirs_done [of ok rest _ fs' "backup d"]
  by (auto simp: Restore_def Let_def split: if_splits option.splits sum.splits)

lemma extract_all_inside:
  assumes "extract_all (extractZipEntry lim io rd root) archive d = Inr d'"
    "\<forall>(p, data) \<in> set (files d). \<exists>c. p = root @ c"
  shows "\<forall>(p, data) \<in> set (files d'). (\<exists>c. p = root @ c)"
  using assms
proof (induction archive arbitrary: d)
  case (Cons f fs)
  from Cons.prems(1) obtain d1 where d1: "extractZipEntry lim io rd root f d = Inr d1"
    "extract_all (extractZipEntry lim io rd root) fs d1 = Inr d'" by (auto split: sum.splits)
  have "\<forall>(p, data) \<in> set (files d1). \<exists>c. p = root @ c"
    using d1(1) Cons.prems(2) safeJoin_inside
    by (auto simp: extractZipEntry_def put_file_def split: sum.splits if_splits prod.splits option.splits)
      blast+
  with Cons.IH d1(2) show ?case by blast
qed simp

end
