(* ===== verification/Telnet.thy ===== *)
theory Telnet
  imports Prelude
begin

text \<open>
  \<open>plugins/protocol-telnet\<close>: the byte-level negotiation machine, the escaping of the data
  channel, window sizes, the reads and writes of the wrapped connection and the login
  handshake. A chunk of input can end anywhere: the machine is an instance of the
  \<open>byte_machine\<close> interface.
\<close>

subsection \<open>Commands and options\<close>

definition IAC :: byte where "IAC = 255"
definition DONT :: byte where "DONT = 254"
definition DO :: byte where "DO = 253"
definition WONT :: byte where "WONT = 252"
definition WILL :: byte where "WILL = 251"
definition SB :: byte where "SB = 250"
definition SE :: byte where "SE = 240"

definition OptBINARY :: byte where "OptBINARY = 0"
definition OptECHO :: byte where "OptECHO = 1"
definition OptSGA :: byte where "OptSGA = 3"
definition OptTTYPE :: byte where "OptTTYPE = 24"
definition OptNAWS :: byte where "OptNAWS = 31"

definition ttypeIS :: byte where "ttypeIS = 0"
definition ttypeSEND :: byte where "ttypeSEND = 1"

lemmas telnet_bytes [go_simps] = IAC_def DONT_def DO_def WONT_def WILL_def SB_def SE_def
lemmas telnet_opts [go_simps] = OptBINARY_def OptECHO_def OptSGA_def OptTTYPE_def OptNAWS_def
  ttypeIS_def ttypeSEND_def

datatype mode = stNormal | stIAC | stWill | stWont | stDo | stDont | stSB | stSBData | stSBIAC

record negState =
  ng_termType :: "byte list"
  ng_cols :: int
  ng_rows :: int
  ng_mode :: mode
  ng_sbOpt :: byte
  ng_sbBuf :: "byte list"

subsection \<open>Escaping\<close>

definition maxInt :: int where
  "maxInt = 2 ^ 63 - 1"

fun count_IAC :: "byte list \<Rightarrow> nat" where
  "count_IAC [] = 0"
| "count_IAC (b # bs) = (if b = IAC then Suc (count_IAC bs) else count_IAC bs)"

definition escapedIACCapacity :: "byte list \<Rightarrow> (nat \<times> bool) option" where
  "escapedIACCapacity p =
     (let count = count_IAC p in
      if count = 0 then Some (length p, False)
      else if int count > maxInt - int (length p) then None
      else Some (length p + count, True))"

fun double_IAC :: "byte list \<Rightarrow> byte list" where
  "double_IAC [] = []"
| "double_IAC (b # bs) = (if b = IAC then [IAC, IAC] else [b]) @ double_IAC bs"

definition escapeIAC :: "byte list \<Rightarrow> byte list option" where
  "escapeIAC p = (case escapedIACCapacity p of
     None \<Rightarrow> None | Some (cap, hasIAC) \<Rightarrow> Some (if \<not> hasIAC then p else double_IAC p))"

lemma double_IAC_none: "count_IAC p = 0 \<Longrightarrow> double_IAC p = p"
  by (induction p) (auto split: if_splits)

lemma double_IAC_length: "length (double_IAC p) = length p + count_IAC p"
  by (induction p) auto

lemma escapeIAC_some: "escapeIAC p = Some q \<Longrightarrow> q = double_IAC p"
  by (auto simp: escapeIAC_def escapedIACCapacity_def Let_def double_IAC_none split: if_splits)

lemma escapeIAC_total: "int (2 * length p) \<le> maxInt \<Longrightarrow> escapeIAC p = Some (double_IAC p)"
proof -
  assume l: "int (2 * length p) \<le> maxInt"
  have "count_IAC p \<le> length p" by (induction p) auto
  with l show ?thesis
    by (auto simp: escapeIAC_def escapedIACCapacity_def Let_def double_IAC_none)
qed

subsection \<open>Window size\<close>

definition clamp16 :: "int \<Rightarrow> int" where
  "clamp16 n = (let n = (if n < 0 then 0 else n) in if n > 0xFFFF then 0xFFFF else n)"

definition naws_params :: "int \<Rightarrow> int \<Rightarrow> byte list" where
  "naws_params cols rows = [word_of_int (cols div 256), word_of_int (cols mod 256),
     word_of_int (rows div 256), word_of_int (rows mod 256)]"

definition buildNAWS :: "int \<Rightarrow> int \<Rightarrow> byte list" where
  "buildNAWS cols rows =
     [IAC, SB, OptNAWS] @ double_IAC (naws_params (clamp16 cols) (clamp16 rows)) @ [IAC, SE]"

definition parseNAWS :: "byte list \<Rightarrow> (int \<times> int) option" where
  "parseNAWS sb =
     (if length sb \<noteq> 4 then None
      else Some (uint (sb ! 0) * 256 + uint (sb ! 1), uint (sb ! 2) * 256 + uint (sb ! 3)))"

subsection \<open>The machine\<close>

definition handleWill :: "byte \<Rightarrow> byte list" where
  "handleWill opt =
     (if opt = OptECHO then [IAC, DO, OptECHO]
      else if opt = OptSGA then [IAC, DO, OptSGA]
      else if opt = OptBINARY then [IAC, DO, OptBINARY]
      else [IAC, DONT, opt])"

definition handleDo :: "negState \<Rightarrow> byte \<Rightarrow> byte list" where
  "handleDo s opt =
     (if opt = OptECHO then [IAC, WONT, OptECHO]
      else if opt = OptSGA then [IAC, WILL, OptSGA]
      else if opt = OptTTYPE then [IAC, WILL, OptTTYPE]
      else if opt = OptNAWS then [IAC, WILL, OptNAWS] @ buildNAWS (ng_cols s) (ng_rows s)
      else if opt = OptBINARY then [IAC, WILL, OptBINARY]
      else [IAC, WONT, opt])"

definition handleSB :: "negState \<Rightarrow> byte list" where
  "handleSB s =
     (if ng_sbOpt s = OptTTYPE then
        (case ng_sbBuf s of
           b # _ \<Rightarrow> if b = ttypeSEND then
               (case escapeIAC (ng_termType s) of
                  None \<Rightarrow> []
                | Some escaped \<Rightarrow> [IAC, SB, OptTTYPE, ttypeIS] @ escaped @ [IAC, SE])
             else []
         | [] \<Rightarrow> [])
      else [])"

text \<open>One byte: the new state, the application bytes and the reply bytes.\<close>

definition feed_byte :: "negState \<Rightarrow> byte \<Rightarrow> negState \<times> byte list \<times> byte list" where
  "feed_byte s b = (case ng_mode s of
     stNormal \<Rightarrow> if b = IAC then (s\<lparr>ng_mode := stIAC\<rparr>, [], []) else (s, [b], [])
   | stIAC \<Rightarrow>
       if b = IAC then (s\<lparr>ng_mode := stNormal\<rparr>, [0xFF], [])
       else if b = WILL then (s\<lparr>ng_mode := stWill\<rparr>, [], [])
       else if b = WONT then (s\<lparr>ng_mode := stWont\<rparr>, [], [])
       else if b = DO then (s\<lparr>ng_mode := stDo\<rparr>, [], [])
       else if b = DONT then (s\<lparr>ng_mode := stDont\<rparr>, [], [])
       else if b = SB then (s\<lparr>ng_mode := stSB\<rparr>, [], [])
       else (s\<lparr>ng_mode := stNormal\<rparr>, [], [])
   | stWill \<Rightarrow> (s\<lparr>ng_mode := stNormal\<rparr>, [], handleWill b)
   | stWont \<Rightarrow> (s\<lparr>ng_mode := stNormal\<rparr>, [], [])
   | stDo \<Rightarrow> (s\<lparr>ng_mode := stNormal\<rparr>, [], handleDo s b)
   | stDont \<Rightarrow> (s\<lparr>ng_mode := stNormal\<rparr>, [], [])
   | stSB \<Rightarrow> (s\<lparr>ng_sbOpt := b, ng_sbBuf := [], ng_mode := stSBData\<rparr>, [], [])
   | stSBData \<Rightarrow>
       if b = IAC then (s\<lparr>ng_mode := stSBIAC\<rparr>, [], [])
       else (s\<lparr>ng_sbBuf := ng_sbBuf s @ [b]\<rparr>, [], [])
   | stSBIAC \<Rightarrow>
       if b = IAC then (s\<lparr>ng_sbBuf := ng_sbBuf s @ [0xFF], ng_mode := stSBData\<rparr>, [], [])
       else if b = SE then (s\<lparr>ng_mode := stNormal\<rparr>, [], handleSB s)
       else (s\<lparr>ng_mode := stNormal\<rparr>, [], []))"

fun feed :: "negState \<Rightarrow> byte list \<Rightarrow> negState \<times> byte list \<times> byte list" where
  "feed s [] = (s, [], [])"
| "feed s (b # bs) =
     (let (s1, o1, r1) = feed_byte s b; (s2, o2, r2) = feed s1 bs in (s2, o1 @ o2, r1 @ r2))"

interpretation telnet: byte_machine feed
  by unfold_locales (auto split: prod.splits)

lemma feed_one: "feed s [b] = feed_byte s b"
  by (simp split: prod.splits)

lemma handleSB_cong:
  "ng_sbOpt s = ng_sbOpt t \<Longrightarrow> ng_sbBuf s = ng_sbBuf t \<Longrightarrow> ng_termType s = ng_termType t \<Longrightarrow>
    handleSB s = handleSB t"
  by (simp add: handleSB_def split: list.split)

lemma feed_byte_out: "length (fst (snd (feed_byte s b))) \<le> 1"
  by (simp add: feed_byte_def split: mode.split)

lemma feed_length: "length (fst (snd (feed s bs))) \<le> length bs"
  by (rule telnet.out_length) (simp only: feed_one feed_byte_out)

text \<open>What never changes while feeding.\<close>

lemma feed_byte_keeps: "feed_byte s b = (s', os, rs) \<Longrightarrow>
    ng_termType s' = ng_termType s \<and> ng_cols s' = ng_cols s \<and> ng_rows s' = ng_rows s"
  by (auto simp: feed_byte_def split: mode.splits if_splits)

subsection \<open>Round trips\<close>

lemma feed_double:
  "ng_mode s = stNormal \<Longrightarrow> feed s (double_IAC p) = (s, p, [])"
proof (induction p)
  case (Cons b p)
  then show ?case by (cases s) (auto simp: feed_byte_def telnet_bytes)
qed simp

lemma feed_sb_data:
  "ng_mode s = stSBData \<Longrightarrow> feed s (double_IAC p) = (s\<lparr>ng_sbBuf := ng_sbBuf s @ p\<rparr>, [], [])"
proof (induction p arbitrary: s)
  case (Cons b p)
  let ?s = "s\<lparr>ng_sbBuf := ng_sbBuf s @ [b]\<rparr>"
  have "feed ?s (double_IAC p) = (?s\<lparr>ng_sbBuf := ng_sbBuf ?s @ p\<rparr>, [], [])"
    using Cons.prems by (intro Cons.IH) simp
  then show ?case using Cons.prems
    by (cases s) (auto simp: feed_byte_def telnet_bytes)
qed simp

text \<open>A subnegotiation block of option \<open>opt\<close> with the payload \<open>p\<close>.\<close>

definition sb_block :: "byte \<Rightarrow> byte list \<Rightarrow> byte list" where
  "sb_block opt p = [IAC, SB, opt] @ double_IAC p @ [IAC, SE]"

lemma feed_sb_block:
  assumes "ng_mode s = stNormal"
  shows "feed s (sb_block opt p) =
    (s\<lparr>ng_sbOpt := opt, ng_sbBuf := p\<rparr>, [], handleSB (s\<lparr>ng_sbOpt := opt, ng_sbBuf := p\<rparr>))"
proof -
  let ?s1 = "s\<lparr>ng_sbOpt := opt, ng_sbBuf := [], ng_mode := stSBData\<rparr>"
  have a: "feed s [IAC, SB, opt] = (?s1, [], [])"
    using assms by (simp add: feed_byte_def telnet_bytes)
  have b: "feed ?s1 (double_IAC p) = (?s1\<lparr>ng_sbBuf := p\<rparr>, [], [])"
    by (subst feed_sb_data) simp_all
  have c: "feed (?s1\<lparr>ng_sbBuf := p\<rparr>) [IAC, SE] =
      (s\<lparr>ng_sbOpt := opt, ng_sbBuf := p\<rparr>, [], handleSB (s\<lparr>ng_sbOpt := opt, ng_sbBuf := p\<rparr>))"
  proof -
    let ?s2 = "?s1\<lparr>ng_sbBuf := p, ng_mode := stSBIAC\<rparr>"
    have "feed_byte (?s1\<lparr>ng_sbBuf := p\<rparr>) IAC = (?s2, [], [])" by (simp add: feed_byte_def)
    moreover have "feed_byte ?s2 SE = (s\<lparr>ng_sbOpt := opt, ng_sbBuf := p\<rparr>, [], handleSB ?s2)"
      using assms by (cases s) (simp add: feed_byte_def telnet_bytes)
    moreover have "handleSB ?s2 = handleSB (s\<lparr>ng_sbOpt := opt, ng_sbBuf := p\<rparr>)"
      by (rule handleSB_cong) simp_all
    ultimately show ?thesis by simp
  qed
  show ?thesis
    unfolding sb_block_def telnet.run_append a Let_def prod.case b c by simp
qed

lemma buildNAWS_block: "buildNAWS c r = sb_block OptNAWS (naws_params (clamp16 c) (clamp16 r))"
  by (simp add: buildNAWS_def sb_block_def)

lemma clamp16_range: "0 \<le> clamp16 n \<and> clamp16 n \<le> 0xFFFF"
  by (simp add: clamp16_def Let_def)

lemma parse_params:
  assumes "0 \<le> c" "c \<le> 0xFFFF" "0 \<le> r" "r \<le> 0xFFFF"
  shows "parseNAWS (naws_params c r) = Some (c, r)"
proof -
  have "c div 256 < 256" "r div 256 < 256" using assms by linarith+
  then have "uint (word_of_int (c div 256) :: byte) = c div 256" "uint (word_of_int (r div 256) :: byte) = r div 256"
    using assms by (simp_all add: uint_word_of_int)
  then show ?thesis by (simp add: parseNAWS_def naws_params_def uint_word_of_int)
qed

lemma naws_roundtrip:
  assumes "ng_mode s = stNormal"
  shows "\<exists>s'. feed s (buildNAWS c r) = (s', [], []) \<and> ng_mode s' = stNormal \<and>
    ng_sbOpt s' = OptNAWS \<and> parseNAWS (ng_sbBuf s') = Some (clamp16 c, clamp16 r)"
  using feed_sb_block [OF assms, of OptNAWS] assms parse_params clamp16_range
  by (auto simp: buildNAWS_block handleSB_def telnet_opts)

subsection \<open>Replies carry no data\<close>

text \<open>
  A reply is silent when a peer machine in its normal state reads it to the end without
  seeing one application byte.
\<close>

definition silent :: "byte list \<Rightarrow> bool" where
  "silent rs \<longleftrightarrow> (\<forall>s. ng_mode s = stNormal \<longrightarrow>
     (\<exists>s' r. feed s rs = (s', [], r) \<and> ng_mode s' = stNormal))"

lemma silent_nil: "silent []"
  by (simp add: silent_def)

lemma silent_append: "silent xs \<Longrightarrow> silent ys \<Longrightarrow> silent (xs @ ys)"
  unfolding silent_def telnet.run_append by (fastforce split: prod.splits)

lemma silent_block: "silent (sb_block opt p)"
  unfolding silent_def by (simp add: feed_sb_block)

lemma silent_option: "cmd \<in> {WILL, WONT, DO, DONT} \<Longrightarrow> silent [IAC, cmd, opt]"
  by (auto simp: silent_def feed_byte_def telnet_bytes)

lemma silent_handlers: "silent (handleWill b)" "silent (handleDo s b)" "silent (handleSB s)"
proof -
  show "silent (handleWill b)" by (auto simp: handleWill_def intro: silent_option)
  show "silent (handleDo s b)"
  proof (cases "b = OptNAWS")
    case True
    have "silent ([IAC, WILL, OptNAWS] @ buildNAWS (ng_cols s) (ng_rows s))"
      unfolding buildNAWS_block by (intro silent_append silent_option silent_block) simp
    with True show ?thesis by (simp add: handleDo_def telnet_opts)
  next
    case False
    then show ?thesis by (auto simp: handleDo_def intro: silent_option)
  qed
  show "silent (handleSB s)"
  proof (cases "handleSB s = []")
    case True
    then show ?thesis by (simp add: silent_nil)
  next
    case False
    then obtain q where q: "escapeIAC (ng_termType s) = Some q"
      "handleSB s = [IAC, SB, OptTTYPE, ttypeIS] @ q @ [IAC, SE]"
      by (auto simp: handleSB_def split: list.splits if_splits option.splits)
    have "handleSB s = sb_block OptTTYPE (ttypeIS # ng_termType s)"
      using q escapeIAC_some by (auto simp: sb_block_def telnet_bytes telnet_opts)
    then show ?thesis by (simp add: silent_block)
  qed
qed

lemma feed_silent: "feed s bs = (s', os, rs) \<Longrightarrow> silent rs"
proof (induction bs arbitrary: s s' os rs)
  case (Cons b bs)
  obtain s1 o1 r1 where f: "feed_byte s b = (s1, o1, r1)" by (metis prod_cases3)
  obtain s2 o2 r2 where g: "feed s1 bs = (s2, o2, r2)" by (metis prod_cases3)
  have "silent r1" using f silent_handlers silent_nil
    by (auto simp: feed_byte_def split: mode.splits if_splits)
  with Cons.prems f g Cons.IH [OF g] silent_append show ?case by auto
qed (simp add: silent_nil)

subsection \<open>The wrapped connection\<close>

text \<open>
  What the connection still delivers: chunks of bytes, each perhaps with an error. \<open>wok\<close>
  tells whether the reply of the n-th read can be written.
\<close>

type_synonym 'e conn_read = "byte list \<times> 'e option"

fun Read_loop :: "(nat \<Rightarrow> 'e option) \<Rightarrow> nat \<Rightarrow> negState \<Rightarrow> 'e conn_read list \<Rightarrow> byte list \<Rightarrow>
    (byte list \<times> 'e option \<times> negState \<times> 'e conn_read list \<times> byte list) option" where
  "Read_loop werr n s [] sent = None"
| "Read_loop werr n s ((chunk, err) # rest) sent =
     (let (s', out, reply) = feed s chunk;
          err' = (if reply \<noteq> [] \<and> err = None then werr n else err);
          sent' = (if reply \<noteq> [] \<and> werr n = None then sent @ reply else sent)
      in if out \<noteq> [] \<or> err' \<noteq> None then Some (out, err', s', rest, sent')
         else Read_loop werr (Suc n) s' rest sent')"

text \<open>\<open>None\<close>: the read blocks, the connection delivers nothing more.\<close>

definition Negotiator_Read :: "(nat \<Rightarrow> 'e option) \<Rightarrow> nat \<Rightarrow> negState \<Rightarrow> 'e conn_read list \<Rightarrow>
    (byte list \<times> 'e option \<times> negState \<times> 'e conn_read list \<times> byte list) option" where
  "Negotiator_Read werr plen s conn =
     (if plen = 0 then Some ([], None, s, conn, []) else Read_loop werr 0 s conn [])"

text \<open>\<open>writeRaw\<close>: each write takes some bytes or fails; the bytes on the wire, and the error.\<close>

fun writeRaw :: "(nat \<times> 'e option) list \<Rightarrow> byte list \<Rightarrow> (byte list \<times> 'e option) option" where
  "writeRaw ws [] = Some ([], None)"
| "writeRaw [] p = None"
| "writeRaw ((nw, Some e) # ws) p = Some (take nw p, Some e)"
| "writeRaw ((nw, None) # ws) p =
     (case writeRaw ws (drop nw p) of None \<Rightarrow> None | Some (out, e) \<Rightarrow> Some (take nw p @ out, e))"

datatype 'e write_error = PayloadTooLarge | WireError 'e

definition Negotiator_Write :: "(nat \<times> 'e option) list \<Rightarrow> byte list \<Rightarrow>
    (nat \<times> byte list \<times> 'e write_error option) option" where
  "Negotiator_Write ws p = (case escapeIAC p of
     None \<Rightarrow> Some (0, [], Some PayloadTooLarge)
   | Some escaped \<Rightarrow> (case writeRaw ws escaped of
       None \<Rightarrow> None
     | Some (out, Some e) \<Rightarrow> Some (0, out, Some (WireError e))
     | Some (out, None) \<Rightarrow> Some (length p, out, None)))"

definition NewNegotiator :: "byte list \<Rightarrow> int \<Rightarrow> int \<Rightarrow> negState" where
  "NewNegotiator termType cols rows =
     \<lparr>ng_termType = (if termType = [] then [120, 116, 101, 114, 109] else termType),
      ng_cols = cols, ng_rows = rows, ng_mode = stNormal, ng_sbOpt = 0, ng_sbBuf = []\<rparr>"

definition SendNAWS :: "int \<Rightarrow> int \<Rightarrow> (nat \<times> 'e option) list \<Rightarrow> negState \<Rightarrow>
    negState \<times> (byte list \<times> 'e option) option" where
  "SendNAWS cols rows ws s = (s\<lparr>ng_cols := cols, ng_rows := rows\<rparr>, writeRaw ws (buildNAWS cols rows))"

lemma writeRaw_prefix: "writeRaw ws p = Some (out, e) \<Longrightarrow> has_prefix p out \<and> (e = None \<longrightarrow> out = p)"
proof (induction ws p arbitrary: out e rule: writeRaw.induct)
  case (4 nw ws v va)
  then obtain out' where "writeRaw ws (drop nw (v # va)) = Some (out', e)"
    "out = take nw (v # va) @ out'" by (auto split: option.splits)
  with 4(1) [OF this(1)] show ?case
    unfolding has_prefix_iff by (metis append.assoc append_take_drop_id)
qed (auto simp: has_prefix_iff, metis append_take_drop_id)

text \<open>What \<open>Write\<close> puts on the wire is what the peer's machine reads back as data.\<close>

lemma Write_then_feed:
  assumes "Negotiator_Write ws p = Some (n, wire, None)" "ng_mode s = stNormal"
  shows "n = length p \<and> feed s wire = (s, p, [])"
proof -
  from assms(1) obtain q where q: "escapeIAC p = Some q" "writeRaw ws q = Some (wire, None)" "n = length p"
    by (auto simp: Negotiator_Write_def split: option.splits)
  with writeRaw_prefix [OF q(2)] escapeIAC_some [OF q(1)] feed_double [OF assms(2)] show ?thesis by simp
qed

text \<open>A read returns the first chunk that carries data or an error; before it, only replies.\<close>

lemma Read_loop_spec:
  "Read_loop werr n s conn sent = Some (out, err, s', rest, sent') \<Longrightarrow>
    \<exists>k < length conn. rest = drop (Suc k) conn \<and> (\<exists>rs. feed s (concat (map fst (take (Suc k) conn))) = (s', out, rs)) \<and>
      (out \<noteq> [] \<or> err \<noteq> None)"
proof (induction conn arbitrary: n s sent)
  case (Cons c conn)
  obtain chunk e where c: "c = (chunk, e)" by fastforce
  obtain s1 o1 r1 where f: "feed s chunk = (s1, o1, r1)" by (metis prod_cases3)
  let ?e = "if r1 \<noteq> [] \<and> e = None then werr n else e"
  show ?case
  proof (cases "o1 \<noteq> [] \<or> ?e \<noteq> None")
    case True
    with Cons.prems c f have "out = o1" "err = ?e" "s' = s1" "rest = conn"
      by (auto simp: Let_def split: if_splits)
    with True c f show ?thesis by (intro exI [of _ 0]) auto
  next
    case False
    with Cons.prems c f obtain sent1 where
      "Read_loop werr (Suc n) s1 conn sent1 = Some (out, err, s', rest, sent')"
      by (auto simp: Let_def split: if_splits)
    from Cons.IH [OF this] obtain k rs where k: "k < length conn" "rest = drop (Suc k) conn"
      "feed s1 (concat (map fst (take (Suc k) conn))) = (s', out, rs)" "out \<noteq> [] \<or> err \<noteq> None" by blast
    with False c f show ?thesis
      by (intro exI [of _ "Suc k"]) (simp add: telnet.run_append)
  qed
qed simp

subsection \<open>The login handshake\<close>

definition lower_byte :: "byte \<Rightarrow> byte" where
  "lower_byte c = (if 65 \<le> c \<and> c \<le> 90 then c + 32 else c)"

datatype expect_result = PromptSeen | ExpectCtx | ExpectWrite | ExpectRead | PromptNotSeen

text \<open>
  The reader yields one byte or none, perhaps with an error; \<open>ctx\<close> and \<open>wok\<close> tell, by the
  number of bytes scanned, whether the context is live and the mirror can be written. The
  result: outcome, what was mirrored, what the reader still has.
\<close>

definition push_window :: "nat \<Rightarrow> 'a \<Rightarrow> 'a list \<Rightarrow> 'a list" where
  "push_window cap c window = (if length window = cap then tl window else window) @ [c]"

fun expect_loop :: "byte list \<Rightarrow> nat \<Rightarrow> nat \<Rightarrow> (nat \<Rightarrow> bool) \<Rightarrow> (nat \<Rightarrow> bool) \<Rightarrow> nat \<Rightarrow> byte list \<Rightarrow>
    byte list \<Rightarrow> (byte option \<times> bool) list \<Rightarrow>
    (expect_result \<times> byte list \<times> (byte option \<times> bool) list) option" where
  "expect_loop needle cap limit ctx wok scanned window w [] =
     (if scanned \<ge> limit then Some (PromptNotSeen, w, [])
      else if \<not> ctx scanned then Some (ExpectCtx, w, [])
      else None)"
| "expect_loop needle cap limit ctx wok scanned window w ((bo, err) # reads) =
     (if scanned \<ge> limit then Some (PromptNotSeen, w, (bo, err) # reads)
      else if \<not> ctx scanned then Some (ExpectCtx, w, (bo, err) # reads)
      else case bo of
          None \<Rightarrow> if err then Some (ExpectRead, w, reads)
                 else expect_loop needle cap limit ctx wok scanned window w reads
        | Some c \<Rightarrow>
            if \<not> wok scanned then Some (ExpectWrite, w, reads)
            else (let window' = push_window cap (lower_byte c) window in
              if contains window' needle then Some (PromptSeen, w @ [c], reads)
              else if err then Some (ExpectRead, w @ [c], reads)
              else expect_loop needle cap limit ctx wok (Suc scanned) window' (w @ [c]) reads))"

definition expectPrompt :: "byte list \<Rightarrow> nat \<Rightarrow> (nat \<Rightarrow> bool) \<Rightarrow> (nat \<Rightarrow> bool) \<Rightarrow>
    (byte option \<times> bool) list \<Rightarrow> (expect_result \<times> byte list \<times> (byte option \<times> bool) list) option" where
  "expectPrompt needle limit ctx wok reads =
     (let needle = map lower_byte needle; windowCap = max (2 * length needle) 64 in
      expect_loop needle windowCap limit ctx wok 0 [] [] reads)"

text \<open>The window is the lower-cased tail of what was scanned.\<close>

definition tail :: "nat \<Rightarrow> 'a list \<Rightarrow> 'a list" where
  "tail n xs = drop (length xs - n) xs"

lemma push_window_tail:
  "0 < cap \<Longrightarrow> push_window cap c (tail cap xs) = tail cap (xs @ [c])"
proof -
  assume cap: "0 < cap"
  show ?thesis
  proof (cases "cap \<le> length xs")
    case True
    then have "Suc (length xs - cap) = Suc (length xs) - cap" by simp
    with True cap show ?thesis by (simp add: push_window_def tail_def tl_drop drop_Suc [symmetric])
  next
    case False
    then show ?thesis by (simp add: push_window_def tail_def)
  qed
qed

lemma contains_snoc:
  assumes "n \<noteq> []"
  shows "contains (xs @ [c]) n \<longleftrightarrow> contains xs n \<or> has_suffix (xs @ [c]) n"
proof
  assume "contains (xs @ [c]) n"
  then obtain u v where uv: "xs @ [c] = u @ n @ v" by (auto simp: contains_iff)
  show "contains xs n \<or> has_suffix (xs @ [c]) n"
  proof (cases v rule: rev_cases)
    case Nil
    with uv show ?thesis by (auto simp: has_suffix_iff)
  next
    case (snoc v' d)
    with uv have "xs @ [c] = (u @ n @ v') @ [d]" by simp
    then have "xs = u @ n @ v'" unfolding append1_eq_conv by simp
    then show ?thesis unfolding contains_iff by blast
  qed
next
  assume "contains xs n \<or> has_suffix (xs @ [c]) n"
  then show "contains (xs @ [c]) n"
  proof
    assume "contains xs n"
    then obtain u v where "xs = u @ n @ v" by (auto simp: contains_iff)
    then have "xs @ [c] = u @ n @ (v @ [c])" by simp
    then show ?thesis unfolding contains_iff by blast
  next
    assume "has_suffix (xs @ [c]) n"
    then obtain u where "xs @ [c] = u @ n @ []" by (auto simp: has_suffix_iff)
    then show ?thesis unfolding contains_iff by blast
  qed
qed

lemma has_suffix_tail: "length n \<le> k \<Longrightarrow> has_suffix (tail k xs) n = has_suffix xs n"
proof -
  assume k: "length n \<le> k"
  have split: "xs = take (length xs - k) xs @ tail k xs" by (simp add: tail_def)
  have len: "length (tail k xs) = min k (length xs)" by (simp add: tail_def)
  show ?thesis
  proof
    assume "has_suffix (tail k xs) n"
    then obtain t where "tail k xs = t @ n" by (auto simp: has_suffix_iff)
    with split show "has_suffix xs n" unfolding has_suffix_iff by (metis append.assoc)
  next
    assume "has_suffix xs n"
    then obtain t where t: "xs = t @ n" by (auto simp: has_suffix_iff)
    then have "tail k xs = drop (length xs - k) t @ n" using k by (simp add: tail_def)
    then show "has_suffix (tail k xs) n" unfolding has_suffix_iff by blast
  qed
qed

lemma contains_tail_snoc:
  assumes n: "n \<noteq> []" "length n \<le> cap" and no: "\<not> contains (tail cap xs) n"
  shows "contains (tail cap (xs @ [c])) n \<longleftrightarrow> has_suffix (xs @ [c]) n"
proof -
  let ?t = "if length (tail cap xs) = cap then tl (tail cap xs) else tail cap xs"
  have "0 < cap" using n by (cases n) auto
  then have t: "tail cap (xs @ [c]) = ?t @ [c]"
    using push_window_tail [of cap c xs] by (simp add: push_window_def)
  have "\<not> contains ?t n"
  proof
    assume "contains ?t n"
    then obtain u v where uv: "?t = u @ n @ v" by (auto simp: contains_iff)
    have "\<exists>w. tail cap xs = w @ ?t"
    proof (cases "length (tail cap xs) = cap")
      case True
      then obtain a as where "tail cap xs = a # as" using \<open>0 < cap\<close> by (cases "tail cap xs") auto
      then show ?thesis using True by (intro exI [of _ "[a]"]) simp
    qed simp
    then obtain w where "tail cap xs = (w @ u) @ n @ v" using uv by auto
    with no show False unfolding contains_iff by blast
  qed
  then show ?thesis unfolding t contains_snoc [OF n(1)] using has_suffix_tail [OF n(2), of "xs @ [c]"] t by simp
qed

text \<open>\<open>prompt_at n xs k\<close>: the first \<open>k\<close> bytes end with the needle, ignoring ASCII case.\<close>

definition prompt_at :: "byte list \<Rightarrow> byte list \<Rightarrow> nat \<Rightarrow> bool" where
  "prompt_at n xs k \<longleftrightarrow> k \<le> length xs \<and> has_suffix (map lower_byte (take k xs)) n"

lemma expect_loop_found:
  assumes n: "n \<noteq> []" "length n \<le> cap"
    and k: "prompt_at n (xs @ ys) (length xs + k)" "\<forall>j < length xs + k. \<not> prompt_at n (xs @ ys) j"
    and lim: "length xs + k \<le> limit" and live: "\<forall>j. ctx j" "\<forall>j. wok j"
    and no: "\<not> contains (tail cap (map lower_byte xs)) n"
  shows "expect_loop n cap limit ctx wok (length xs) (tail cap (map lower_byte xs)) xs
      (map (\<lambda>b. (Some b, False)) ys) =
    Some (PromptSeen, xs @ take k ys, map (\<lambda>b. (Some b, False)) (drop k ys))"
  using k lim no
proof (induction ys arbitrary: xs k)
  case Nil
  then have "prompt_at n xs (length xs)" by (simp add: prompt_at_def)
  then have "has_suffix (tail cap (map lower_byte xs)) n"
    using n(2) by (simp add: prompt_at_def has_suffix_tail)
  then obtain t where "tail cap (map lower_byte xs) = t @ n @ []" by (auto simp: has_suffix_iff)
  with Nil.prems(4) show ?case unfolding contains_iff by blast
next
  case (Cons y ys)
  have k0: "k \<noteq> 0"
  proof
    assume "k = 0"
    with Cons.prems(1) have "has_suffix (tail cap (map lower_byte xs)) n"
      using n(2) by (simp add: prompt_at_def has_suffix_tail)
    then obtain t where "tail cap (map lower_byte xs) = t @ n @ []" by (auto simp: has_suffix_iff)
    with Cons.prems(4) show False unfolding contains_iff by blast
  qed
  have cap: "0 < cap" using n by (cases n) auto
  let ?w = "tail cap (map lower_byte (xs @ [y]))"
  have w: "push_window cap (lower_byte y) (tail cap (map lower_byte xs)) = ?w"
    using push_window_tail [OF cap] by simp
  have cw: "contains ?w n \<longleftrightarrow> prompt_at n (xs @ y # ys) (Suc (length xs))"
    using contains_tail_snoc [OF n Cons.prems(4), of "lower_byte y"] by (simp add: prompt_at_def)
  show ?case
  proof (cases "k = 1")
    case True
    with cw Cons.prems(1,3) live w show ?thesis by (simp add: Let_def)
  next
    case False
    then have nc: "\<not> contains ?w n" using cw Cons.prems(2) k0 by simp
    have "expect_loop n cap limit ctx wok (length (xs @ [y])) ?w (xs @ [y]) (map (\<lambda>b. (Some b, False)) ys) =
        Some (PromptSeen, (xs @ [y]) @ take (k - 1) ys, map (\<lambda>b. (Some b, False)) (drop (k - 1) ys))"
      using Cons.prems k0 nc by (intro Cons.IH) auto
    with False k0 nc Cons.prems(3) live(1) [rule_format, of "length xs"]
      live(2) [rule_format, of "length xs"] w show ?thesis
      by (cases k) (simp_all add: Let_def)
  qed
qed

lemma expectPrompt_found:
  assumes "needle \<noteq> []" "prompt_at (map lower_byte needle) s k"
    "\<forall>j < k. \<not> prompt_at (map lower_byte needle) s j" "k \<le> limit" "\<forall>j. ctx j" "\<forall>j. wok j"
  shows "expectPrompt needle limit ctx wok (map (\<lambda>b. (Some b, False)) s) =
    Some (PromptSeen, take k s, map (\<lambda>b. (Some b, False)) (drop k s))"
  using expect_loop_found [of "map lower_byte needle" "max (2 * length needle) 64" "[]" s k limit ctx wok] assms
  by (simp add: expectPrompt_def Let_def tail_def contains_iff)

end
