(* ===== verification/Frame.thy ===== *)
theory Frame
  imports Prelude
begin

text \<open>
  \<open>proto/plugin/v1/frame.go\<close>: length-prefixed frames between the host and a plugin. The JSON
  encoding of the envelope is a pair of functions; the framing around it is the code's.
\<close>

record Frame =
  fr_Method :: string
  fr_ID :: "64 word"
  fr_Payload :: "byte list"
  fr_Error :: string

definition maxFrameSize :: nat where
  "maxFrameSize = 4 * 2 ^ 20"

datatype frame_error =
    MarshalFrame | FrameTooLarge int | WriteHeader | WriteBody
  | ReadHeader | FrameExceedsLimit nat | FrameExceedsPlatform nat | ReadBody | UnmarshalFrame

definition checkedFrameLen :: "nat \<Rightarrow> 32 word \<Rightarrow> frame_error + nat" where
  "checkedFrameLen intSize sz =
     (if unat sz > maxFrameSize then Inl (FrameExceedsLimit (unat sz))
      else if intSize = 32 \<and> unat sz > 2 ^ 31 - 1 then Inl (FrameExceedsPlatform (unat sz))
      else Inr (unat sz))"

definition checkedFrameSize :: "int \<Rightarrow> frame_error + 32 word" where
  "checkedFrameSize sz =
     (if sz < 0 then Inl (FrameTooLarge sz)
      else if sz > int maxFrameSize then Inl (FrameTooLarge sz)
      else if sz > 2 ^ 32 - 1 then Inl (FrameTooLarge sz)
      else Inr (word_of_int sz))"

text \<open>\<open>PutUint32\<close> and \<open>Uint32\<close>.\<close>

definition put_uint32 :: "32 word \<Rightarrow> byte list" where
  "put_uint32 w = be_bytes 4 (unat w)"

definition get_uint32 :: "byte list \<Rightarrow> 32 word" where
  "get_uint32 b = of_nat (be_num b)"

lemma get_put_uint32 [simp]: "get_uint32 (put_uint32 w) = w"
proof -
  have "unat w < 2 ^ 32" using unsigned_less [of w] by simp
  then show ?thesis by (simp add: get_uint32_def put_uint32_def be_num_be_bytes)
qed

text \<open>What reaches the wire, and the error: \<open>hok\<close>, \<open>bok\<close> tell whether the two writes succeed.\<close>

definition WriteFrame :: "(Frame \<Rightarrow> byte list option) \<Rightarrow> bool \<Rightarrow> bool \<Rightarrow> Frame \<Rightarrow>
    byte list \<times> frame_error option" where
  "WriteFrame marshal hok bok f = (case marshal f of
     None \<Rightarrow> ([], Some MarshalFrame)
   | Some data \<Rightarrow> (case checkedFrameSize (int (length data)) of
       Inl e \<Rightarrow> ([], Some e)
     | Inr frameSize \<Rightarrow>
         if \<not> hok then ([], Some WriteHeader)
         else if \<not> bok then (put_uint32 frameSize, Some WriteBody)
         else (put_uint32 frameSize @ data, None)))"

text \<open>\<open>io.ReadFull\<close> on the bytes the peer has sent (and then closed).\<close>

definition read_full :: "nat \<Rightarrow> byte list \<Rightarrow> (byte list \<times> byte list) option" where
  "read_full n s = (if length s < n then None else Some (take n s, drop n s))"

definition ReadFrame :: "nat \<Rightarrow> (byte list \<Rightarrow> Frame option) \<Rightarrow> byte list \<Rightarrow>
    frame_error + Frame \<times> byte list" where
  "ReadFrame intSize unmarshal s = (case read_full 4 s of
     None \<Rightarrow> Inl ReadHeader
   | Some (hdr, s1) \<Rightarrow> (case checkedFrameLen intSize (get_uint32 hdr) of
       Inl e \<Rightarrow> Inl e
     | Inr frameLen \<Rightarrow> (case read_full frameLen s1 of
         None \<Rightarrow> Inl ReadBody
       | Some (buf, s2) \<Rightarrow> (case unmarshal buf of
           None \<Rightarrow> Inl UnmarshalFrame | Some f \<Rightarrow> Inr (f, s2)))))"

lemma checkedFrameSize_ok:
  "n \<le> maxFrameSize \<Longrightarrow> \<exists>w. checkedFrameSize (int n) = Inr w \<and> unat w = n"
proof -
  assume n: "n \<le> maxFrameSize"
  then have "unat (word_of_nat n :: 32 word) = n"
    by (simp add: unat_of_nat maxFrameSize_def)
  with n show ?thesis by (simp add: checkedFrameSize_def maxFrameSize_def)
qed

lemma WriteFrame_ok_iff:
  "snd (WriteFrame m True True f) = None \<longleftrightarrow> (\<exists>data. m f = Some data \<and> length data \<le> maxFrameSize)"
  using checkedFrameSize_ok
  by (auto simp: WriteFrame_def checkedFrameSize_def maxFrameSize_def split: option.splits sum.splits if_splits)

lemma WriteFrame_data:
  assumes "m f = Some data" "length data \<le> maxFrameSize"
  shows "\<exists>w. unat w = length data \<and> WriteFrame m True True f = (put_uint32 w @ data, None)"
  using checkedFrameSize_ok [of "length data"] assms by (auto simp: WriteFrame_def)

lemma read_write_frame:
  assumes m: "m f = Some data" "length data \<le> maxFrameSize" and u: "u data = Some f"
  shows "ReadFrame is u (fst (WriteFrame m True True f) @ rest) = Inr (f, rest)"
proof -
  obtain w where w: "unat w = length data" "WriteFrame m True True f = (put_uint32 w @ data, None)"
    using WriteFrame_data [of m f data, OF m] by blast
  have l: "length (put_uint32 w) = 4" by (simp add: put_uint32_def)
  have c: "checkedFrameLen is w = Inr (length data)"
    using m(2) w(1) by (simp add: checkedFrameLen_def maxFrameSize_def)
  show ?thesis
    using l c u by (simp add: ReadFrame_def read_full_def w(2))
qed

text \<open>A stream of frames is read back one by one.\<close>

fun read_frames :: "nat \<Rightarrow> nat \<Rightarrow> (byte list \<Rightarrow> Frame option) \<Rightarrow> byte list \<Rightarrow>
    frame_error + Frame list \<times> byte list" where
  "read_frames 0 is u s = Inr ([], s)"
| "read_frames (Suc n) is u s = (case ReadFrame is u s of
     Inl e \<Rightarrow> Inl e
   | Inr (f, s1) \<Rightarrow> (case read_frames n is u s1 of
       Inl e \<Rightarrow> Inl e | Inr (fs, s2) \<Rightarrow> Inr (f # fs, s2)))"

definition frame_ok :: "(Frame \<Rightarrow> byte list option) \<Rightarrow> (byte list \<Rightarrow> Frame option) \<Rightarrow> Frame \<Rightarrow> bool" where
  "frame_ok m u f \<longleftrightarrow> (\<exists>data. m f = Some data \<and> length data \<le> maxFrameSize \<and> u data = Some f)"

lemma read_frames_concat:
  "list_all (frame_ok m u) fs \<Longrightarrow>
    read_frames (length fs) is u (concat (map (\<lambda>f. fst (WriteFrame m True True f)) fs) @ rest) = Inr (fs, rest)"
proof (induction fs)
  case (Cons f fs)
  then obtain data where d: "m f = Some data" "length data \<le> maxFrameSize" "u data = Some f"
    by (auto simp: frame_ok_def)
  from Cons read_write_frame [of m f data u "is", OF d] show ?case by simp
qed simp

text \<open>A connection on which one frame was written and then closed.\<close>

definition ReadOne :: "nat \<Rightarrow> (byte list \<Rightarrow> Frame option) \<Rightarrow> byte list \<Rightarrow> frame_error + Frame" where
  "ReadOne is u s = (case ReadFrame is u s of Inl e \<Rightarrow> Inl e | Inr (f, _) \<Rightarrow> Inr f)"

interpretation frame_codec: codec "\<lambda>f. fst (WriteFrame m True True f)" "ReadOne is u" "frame_ok m u" for m u "is"
proof
  fix f assume "frame_ok m u f"
  then obtain data where d: "m f = Some data" "length data \<le> maxFrameSize" "u data = Some f"
    by (auto simp: frame_ok_def)
  show "ReadOne is u (fst (WriteFrame m True True f)) = Inr f"
    using read_write_frame [of m f data u "is" "[]", OF d] by (simp add: ReadOne_def)
qed

text \<open>No reader ever allocates more than the limit, whatever the four bytes say.\<close>

lemma ReadFrame_limit:
  assumes "ReadFrame is u s = Inr (f, rest)"
  shows "\<exists>body. length body \<le> maxFrameSize \<and> u body = Some f \<and> drop 4 s = body @ rest"
proof -
  from assms obtain n where r: "4 \<le> length s" "checkedFrameLen is (get_uint32 (take 4 s)) = Inr n"
    "n \<le> length (drop 4 s)" "u (take n (drop 4 s)) = Some f" "rest = drop n (drop 4 s)"
    by (auto simp: ReadFrame_def read_full_def split: if_splits sum.splits option.splits)
  then have "n \<le> maxFrameSize" by (auto simp: checkedFrameLen_def split: if_splits)
  moreover have "drop 4 s = take n (drop 4 s) @ rest"
    unfolding r(5) by (rule append_take_drop_id [symmetric])
  ultimately show ?thesis using r(4) by (intro exI [of _ "take n (drop 4 s)"]) simp
qed

end
