(* ===== verification/EventBus.thy ===== *)
theory EventBus
  imports Prelude "HOL-Library.Sublist"
begin

text \<open>
  \<open>internal/eventbus/bus.go\<close>: subscribers, publication with drops, and the two ways a
  subscription ends, with the interleavings the mutex allows. \<open>Publish\<close> holds the lock as a reader: it
  is one step that takes the lock, one for each subscriber, and one that gives the lock back, and several of
  them run at the same time. \<open>Subscribe\<close>, the removal and \<open>Close\<close> hold it as writers, so they wait for every
  publication that is under way; \<open>removeSub\<close> and \<open>Close\<close> release it before they close channels. Closing a closed
  channel, or sending on one, is the panic of the runtime: \<open>panicked\<close>.
\<close>

record 'a subscription =
  cap :: nat
  buf :: "'a list"
  received :: "'a list"
  ch_closed :: bool
  sub_dropped :: nat
  joined :: nat

record 'a bus =
  subs :: "nat set"
  closed :: bool
  done_closed :: bool
  chan :: "nat \<Rightarrow> (nat \<times> 'a) subscription option"
  removing :: "nat set"
  closing :: "nat set option"
  publishing :: "nat \<rightharpoonup> 'a \<times> nat set"
  log :: "(nat \<times> 'a) list"
  dropped :: nat
  panicked :: bool

text \<open>
  \<open>publishing p\<close>: the goroutine \<open>p\<close> is in \<open>Publish\<close> and has still to serve these subscribers. The fields
  \<open>received\<close>, \<open>joined\<close> and \<open>log\<close>, and the publisher beside each event, record the history; the counters are unbounded.
\<close>

definition New_bus :: "'a bus" where
  "New_bus = \<lparr>subs = {}, closed = False, done_closed = False, chan = (\<lambda>_. None), removing = {},
     closing = None, publishing = Map.empty, log = [], dropped = 0, panicked = False\<rparr>"

text \<open>\<open>n\<close> is the new subscription's address.\<close>

definition Subscribe :: "nat \<Rightarrow> int \<Rightarrow> 'a bus \<Rightarrow> 'a bus" where
  "Subscribe n buffer b =
     (let buffer = (if buffer < 0 then 0 else buffer);
          s = \<lparr>cap = nat buffer, buf = [], received = [], ch_closed = False, sub_dropped = 0,
               joined = length (log b)\<rparr>
      in if closed b then b\<lparr>chan := (chan b)(n \<mapsto> s\<lparr>ch_closed := True\<rparr>)\<rparr>
         else b\<lparr>subs := insert n (subs b), chan := (chan b)(n \<mapsto> s)\<rparr>)"

definition close_chan :: "nat \<Rightarrow> 'a bus \<Rightarrow> 'a bus" where
  "close_chan n b = (case chan b n of
     None \<Rightarrow> b
   | Some s \<Rightarrow> if ch_closed s then b\<lparr>panicked := True\<rparr>
       else b\<lparr>chan := (chan b)(n \<mapsto> s\<lparr>ch_closed := True\<rparr>)\<rparr>)"

definition removeSub_lock :: "nat \<Rightarrow> 'a bus \<Rightarrow> 'a bus" where
  "removeSub_lock n b =
     (if n \<notin> subs b then b
      else b\<lparr>subs := subs b - {n}, removing := (if closed b then removing b else insert n (removing b))\<rparr>)"

definition removeSub_close :: "nat \<Rightarrow> 'a bus \<Rightarrow> 'a bus" where
  "removeSub_close n b = close_chan n (b\<lparr>removing := removing b - {n}\<rparr>)"

text \<open>
  The select of one subscriber: the event is taken when the buffer has room or a receiver
  waits (\<open>ready\<close>), which for a waiting receiver means that it gets it at once.
\<close>

definition deliver :: "bool \<Rightarrow> 'a \<Rightarrow> 'a subscription \<Rightarrow> 'a subscription" where
  "deliver ready ev s =
     (if ready \<and> buf s = [] then s\<lparr>received := received s @ [ev]\<rparr>
      else if length (buf s) < cap s then s\<lparr>buf := buf s @ [ev]\<rparr>
      else s\<lparr>sub_dropped := sub_dropped s + 1\<rparr>)"

definition takes :: "bool \<Rightarrow> 'a subscription \<Rightarrow> bool" where
  "takes ready s \<longleftrightarrow> ready \<and> buf s = [] \<or> length (buf s) < cap s"

definition Publish_lock :: "nat \<Rightarrow> bool \<Rightarrow> 'a \<Rightarrow> 'a bus \<Rightarrow> 'a bus" where
  "Publish_lock p ctx ev b =
     (if \<not> ctx then b
      else if closed b then b
      else b\<lparr>log := log b @ [(p, ev)], publishing := (publishing b)(p \<mapsto> (ev, subs b))\<rparr>)"

definition Publish_one :: "nat \<Rightarrow> nat \<Rightarrow> bool \<Rightarrow> 'a bus \<Rightarrow> 'a bus" where
  "Publish_one p n ready b = (case (publishing b p, chan b n) of
     (Some (ev, R), Some s) \<Rightarrow>
       b\<lparr>publishing := (publishing b)(p \<mapsto> (ev, R - {n})), chan := (chan b)(n \<mapsto> deliver ready (p, ev) s),
         dropped := dropped b + (if takes ready s then 0 else 1), panicked := panicked b \<or> ch_closed s\<rparr>
   | _ \<Rightarrow> b)"

definition Publish_unlock :: "nat \<Rightarrow> 'a bus \<Rightarrow> 'a bus" where
  "Publish_unlock p b = b\<lparr>publishing := (publishing b)(p := None)\<rparr>"

definition Close_lock :: "'a bus \<Rightarrow> 'a bus" where
  "Close_lock b = (if closed b then b else b\<lparr>closed := True, subs := {}, closing := Some (subs b)\<rparr>)"

definition Close_done :: "'a bus \<Rightarrow> 'a bus" where
  "Close_done b = b\<lparr>done_closed := True, panicked := (panicked b \<or> done_closed b)\<rparr>"

definition Close_chan :: "nat \<Rightarrow> 'a bus \<Rightarrow> 'a bus" where
  "Close_chan n b = close_chan n (b\<lparr>closing := map_option (\<lambda>c. c - {n}) (closing b)\<rparr>)"

definition receive :: "nat \<Rightarrow> 'a bus \<Rightarrow> 'a bus" where
  "receive n b = (case chan b n of
     Some s \<Rightarrow> (case buf s of
         [] \<Rightarrow> b
       | e # es \<Rightarrow> b\<lparr>chan := (chan b)(n \<mapsto> s\<lparr>buf := es, received := received s @ [e]\<rparr>)\<rparr>)
   | None \<Rightarrow> b)"

definition Stats :: "'a bus \<Rightarrow> nat \<times> nat \<times> nat" where
  "Stats b = (card (subs b), length (log b), dropped b)"

text \<open>A writer gets the lock when no publication is under way.\<close>

definition no_reader :: "'a bus \<Rightarrow> bool" where
  "no_reader b \<longleftrightarrow> publishing b = Map.empty"

inductive bus_step :: "'a bus \<Rightarrow> 'a bus \<Rightarrow> bool" where
  subscribe: "no_reader b \<Longrightarrow> chan b n = None \<Longrightarrow> bus_step b (Subscribe n buffer b)"
| remove_lock: "no_reader b \<Longrightarrow> bus_step b (removeSub_lock n b)"
| remove_close: "n \<in> removing b \<Longrightarrow> bus_step b (removeSub_close n b)"
| publish_lock: "publishing b p = None \<Longrightarrow> bus_step b (Publish_lock p ctx ev b)"
| publish_one: "publishing b p = Some (ev, R) \<Longrightarrow> n \<in> R \<Longrightarrow> bus_step b (Publish_one p n ready b)"
| publish_unlock: "publishing b p = Some (ev, {}) \<Longrightarrow> bus_step b (Publish_unlock p b)"
| close_lock: "no_reader b \<Longrightarrow> bus_step b (Close_lock b)"
| close_done: "closing b = Some c \<Longrightarrow> \<not> done_closed b \<Longrightarrow> bus_step b (Close_done b)"
| close_chan: "closing b = Some c \<Longrightarrow> done_closed b \<Longrightarrow> n \<in> c \<Longrightarrow> bus_step b (Close_chan n b)"
| recv: "bus_step b (receive n b)"

inductive_cases bus_stepE: "bus_step b b'"

subsection \<open>Invariant\<close>

definition closing_set :: "'a bus \<Rightarrow> nat set" where
  "closing_set b = (case closing b of None \<Rightarrow> {} | Some c \<Rightarrow> c)"

definition open_chan :: "'a bus \<Rightarrow> nat \<Rightarrow> bool" where
  "open_chan b n \<longleftrightarrow> (\<exists>s. chan b n = Some s \<and> \<not> ch_closed s)"

text \<open>The publications of one goroutine, and the goroutines that have still to serve a subscriber.\<close>

definition by_publisher :: "nat \<Rightarrow> (nat \<times> 'a) list \<Rightarrow> (nat \<times> 'a) list" where
  "by_publisher p es = filter (\<lambda>e. fst e = p) es"

definition underway :: "'a bus \<Rightarrow> nat \<Rightarrow> nat set" where
  "underway b n = {p. \<exists>ev R. publishing b p = Some (ev, R) \<and> n \<in> R}"

lemma by_publisher_simps [simp]:
  "by_publisher p [] = []" "by_publisher p (es @ fs) = by_publisher p es @ by_publisher p fs"
  "by_publisher p [e] = (if fst e = p then [e] else [])"
  by (simp_all add: by_publisher_def)

text \<open>What a subscriber was offered by \<open>p\<close> so far: the publications of \<open>p\<close> since it joined, but for the one that
  has still to come to it.\<close>

definition offered :: "(nat \<times> 'a) list \<Rightarrow> nat set \<Rightarrow> (nat \<times> 'a) subscription \<Rightarrow> nat \<Rightarrow> (nat \<times> 'a) list" where
  "offered es W s p = (let l = by_publisher p (drop (joined s) es) in if p \<in> W then butlast l else l)"

definition history_ok :: "(nat \<times> 'a) list \<Rightarrow> nat set \<Rightarrow> (nat \<times> 'a) subscription \<Rightarrow> bool" where
  "history_ok es W s \<longleftrightarrow> joined s \<le> length es \<and> length (buf s) \<le> cap s \<and>
     (\<forall>p. subseq (by_publisher p (received s @ buf s)) (offered es W s p))"

definition counted :: "(nat \<times> 'a) list \<Rightarrow> nat set \<Rightarrow> (nat \<times> 'a) subscription \<Rightarrow> bool" where
  "counted es W s \<longleftrightarrow> length (received s) + length (buf s) + sub_dropped s + card W = length es - joined s"

definition sets_ok :: "'a bus \<Rightarrow> bool" where
  "sets_ok b \<longleftrightarrow> (closed b \<longrightarrow> subs b = {}) \<and> (\<not> closed b \<longrightarrow> closing b = None) \<and>
     subs b \<inter> removing b = {} \<and> subs b \<inter> closing_set b = {} \<and> removing b \<inter> closing_set b = {}"

text \<open>The channels somebody still has to close.\<close>

definition owners :: "'a bus \<Rightarrow> nat set" where
  "owners b = subs b \<union> removing b \<union> closing_set b"

text \<open>Only subscribers of the bus are served, and the event that is to come is the publisher's last.\<close>

definition readers_ok :: "'a bus \<Rightarrow> bool" where
  "readers_ok b \<longleftrightarrow> finite (dom (publishing b)) \<and> (\<forall>p ev R. publishing b p = Some (ev, R) \<longrightarrow> R \<subseteq> subs b \<and>
     (\<forall>n s. n \<in> R \<longrightarrow> chan b n = Some s \<longrightarrow> (\<exists>l. by_publisher p (drop (joined s) (log b)) = l @ [(p, ev)])))"

definition bus_inv :: "'a bus \<Rightarrow> bool" where
  "bus_inv b \<longleftrightarrow> \<not> panicked b \<and> sets_ok b \<and> readers_ok b \<and> (\<forall>n \<in> owners b. open_chan b n) \<and>
     (\<forall>n s. chan b n = Some s \<longrightarrow> history_ok (log b) (underway b n) s) \<and>
     (\<forall>n s. n \<in> subs b \<longrightarrow> chan b n = Some s \<longrightarrow> counted (log b) (underway b n) s)"

lemma bus_invI:
  assumes "\<not> panicked b" "sets_ok b" "readers_ok b" "\<And>n. n \<in> owners b \<Longrightarrow> open_chan b n"
    "\<And>n s. chan b n = Some s \<Longrightarrow> history_ok (log b) (underway b n) s"
    "\<And>n s. n \<in> subs b \<Longrightarrow> chan b n = Some s \<Longrightarrow> counted (log b) (underway b n) s"
  shows "bus_inv b"
  using assms by (simp add: bus_inv_def)

lemma bus_invD:
  assumes "bus_inv b"
  shows "\<not> panicked b" "sets_ok b" "n \<in> owners b \<Longrightarrow> open_chan b n"
    "chan b n = Some s \<Longrightarrow> history_ok (log b) (underway b n) s"
    "n \<in> subs b \<Longrightarrow> chan b n = Some s \<Longrightarrow> counted (log b) (underway b n) s" "readers_ok b"
  using assms by (simp_all add: bus_inv_def)

lemma readers_okD:
  assumes "readers_ok b" "publishing b p = Some (ev, R)"
  shows "R \<subseteq> subs b" "n \<in> R \<Longrightarrow> chan b n = Some s \<Longrightarrow> \<exists>l. by_publisher p (drop (joined s) (log b)) = l @ [(p, ev)]"
  using assms unfolding readers_ok_def by blast+

lemma underway_finite: "readers_ok b \<Longrightarrow> finite (underway b n)"
  by (rule finite_subset [of _ "dom (publishing b)"]) (auto simp: readers_ok_def underway_def)

lemma underway_eq: "publishing c = publishing b \<Longrightarrow> underway c n = underway b n"
  by (simp add: underway_def)

lemma no_reader_facts: "no_reader b \<Longrightarrow> underway b n = {}" "no_reader b \<Longrightarrow> readers_ok b"
  by (simp_all add: no_reader_def underway_def readers_ok_def)

lemma close_chan_open:
  assumes "chan b n = Some s" "\<not> ch_closed s"
  shows "close_chan n b = b\<lparr>chan := (chan b)(n \<mapsto> s\<lparr>ch_closed := True\<rparr>)\<rparr>"
  using assms by (simp add: close_chan_def)

lemma history_closed [simp]: "history_ok es W (s\<lparr>ch_closed := c\<rparr>) = history_ok es W s"
  "counted es W (s\<lparr>ch_closed := c\<rparr>) = counted es W s"
  by (simp_all add: history_ok_def counted_def offered_def)

text \<open>A step that changes neither the log nor a channel nor a publication, and owns no new channel.\<close>

lemma bus_inv_sets:
  assumes i: "bus_inv b" and c: "chan c = chan b" "log c = log b" "panicked c = panicked b" "publishing c = publishing b"
    and s: "sets_ok c" "owners c \<subseteq> owners b" "subs c \<subseteq> subs b" "no_reader b \<or> subs c = subs b"
  shows "bus_inv c"
proof (rule bus_invI)
  note p = underway_eq [OF c(4)]
  show "\<not> panicked c" using bus_invD(1) [OF i] c(3) by simp
  show "sets_ok c" by (rule s(1))
  show "readers_ok c"
  proof (cases "no_reader b")
    case True
    then show ?thesis by (intro no_reader_facts(2)) (simp add: no_reader_def c(4))
  next
    case False
    with s(4) bus_invD(6) [OF i] show ?thesis by (simp add: readers_ok_def c)
  qed
  show "open_chan c n" if "n \<in> owners c" for n
    using bus_invD(3) [OF i, of n] s(2) that c(1) by (auto simp: open_chan_def)
  show "history_ok (log c) (underway c n) t" if "chan c n = Some t" for n t
    using bus_invD(4) [OF i, of n t] that c p by simp
  show "counted (log c) (underway c n) t" if "n \<in> subs c" "chan c n = Some t" for n t
    using bus_invD(5) [OF i, of n t] that c s(3) p by auto
qed

lemma Subscribe_inv [inv_intros]:
  assumes i: "bus_inv b" and q: "no_reader b" and n: "chan b n = None"
  shows "bus_inv (Subscribe n buffer b)"
proof -
  define s :: "(nat \<times> 'a) subscription" where "s = \<lparr>cap = nat (if buffer < 0 then 0 else buffer), buf = [],
    received = [], ch_closed = closed b, sub_dropped = 0, joined = length (log b)\<rparr>"
  let ?b = "b\<lparr>subs := (if closed b then subs b else insert n (subs b)), chan := (chan b)(n \<mapsto> s)\<rparr>"
  have eq: "Subscribe n buffer b = ?b" by (simp add: Subscribe_def s_def Let_def)
  have no: "n \<notin> owners b" using bus_invD(3) [OF i, of n] n by (auto simp: open_chan_def)
  have q': "no_reader ?b" using q by (simp add: no_reader_def)
  note pe = no_reader_facts(1) [OF q] no_reader_facts(1) [OF q']
  show ?thesis unfolding eq
  proof (rule bus_invI)
    show "\<not> panicked ?b" using bus_invD(1) [OF i] by simp
    show "sets_ok ?b" using bus_invD(2) [OF i] no by (auto simp: sets_ok_def owners_def closing_set_def)
    show "readers_ok ?b" by (rule no_reader_facts(2) [OF q'])
    show "open_chan ?b m" if "m \<in> owners ?b" for m
    proof (cases "m = n")
      case True
      with that no show ?thesis
        by (cases "closed b") (simp_all add: owners_def open_chan_def s_def closing_set_def)
    next
      case False
      with that have "m \<in> owners b" by (auto simp: owners_def closing_set_def split: if_splits)
      from bus_invD(3) [OF i this] False show ?thesis by (simp add: open_chan_def)
    qed
    show "history_ok (log ?b) (underway ?b m) t" if "chan ?b m = Some t" for m t
      using that bus_invD(4) [OF i, of m t] unfolding pe by (cases "m = n") (auto simp: s_def history_ok_def offered_def)
    show "counted (log ?b) (underway ?b m) t" if "m \<in> subs ?b" "chan ?b m = Some t" for m t
    proof (cases "m = n")
      case True
      with that show ?thesis unfolding pe by (auto simp: s_def counted_def)
    next
      case False
      with that bus_invD(5) [OF i, of m t] show ?thesis unfolding pe by (simp split: if_splits)
    qed
  qed
qed

lemma removeSub_lock_inv [inv_intros]:
  assumes i: "bus_inv b" and q: "no_reader b" shows "bus_inv (removeSub_lock n b)"
proof (cases "n \<in> subs b")
  case True
  show ?thesis
    by (rule bus_inv_sets [OF i]) (use True q bus_invD(2) [OF i] in
      \<open>auto simp: removeSub_lock_def sets_ok_def owners_def closing_set_def\<close>)
qed (simp add: removeSub_lock_def i)

text \<open>A step that changes one channel, but not when its owner joined.\<close>

lemma readers_ok_chan:
  assumes "readers_ok b" "chan b n = Some s" "joined t = joined s" "chan c = (chan b)(n \<mapsto> t)" "subs c = subs b" "log c = log b"
    "publishing c = publishing b"
  shows "readers_ok c"
  unfolding readers_ok_def
proof (intro conjI allI impI)
  show "finite (dom (publishing c))" using assms by (simp add: readers_ok_def)
  fix p ev R assume p: "publishing c p = Some (ev, R)"
  with assms(7) have p': "publishing b p = Some (ev, R)" by simp
  show "R \<subseteq> subs c" using readers_okD(1) [OF assms(1) p'] assms(5) by simp
  fix m u assume m: "m \<in> R" "chan c m = Some u"
  show "\<exists>l. by_publisher p (drop (joined u) (log c)) = l @ [(p, ev)]"
    using readers_okD(2) [OF assms(1) p' m(1)] m(2) assms by (cases "m = n") auto
qed

lemma close_member_inv:
  assumes i: "bus_inv b" and n: "n \<in> owners b" "n \<notin> subs b"
    and c: "chan c = chan b" "subs c = subs b" "log c = log b" "panicked c = panicked b" "publishing c = publishing b"
      "sets_ok c" "owners c = owners b - {n}"
  shows "bus_inv (close_chan n c)"
proof -
  obtain s where s: "chan b n = Some s" "\<not> ch_closed s"
    using bus_invD(3) [OF i n(1)] by (auto simp: open_chan_def)
  let ?c = "c\<lparr>chan := (chan b)(n \<mapsto> s\<lparr>ch_closed := True\<rparr>)\<rparr>"
  have "close_chan n c = ?c" using close_chan_open [of c n s] s c(1) by simp
  moreover have p: "underway ?c m = underway b m" for m by (rule underway_eq) (simp add: c(5))
  have "bus_inv ?c"
  proof (rule bus_invI)
    show "\<not> panicked ?c" using bus_invD(1) [OF i] c(4) by simp
    show "sets_ok ?c" using c(6) by (simp add: sets_ok_def closing_set_def)
    show "readers_ok ?c" by (rule readers_ok_chan [OF bus_invD(6) [OF i] s(1)]) (simp_all add: c)
    show "open_chan ?c m" if "m \<in> owners ?c" for m
    proof -
      have m: "m \<in> owners b" "m \<noteq> n" using that c(7) by (auto simp: owners_def closing_set_def)
      from bus_invD(3) [OF i m(1)] m(2) show ?thesis by (simp add: open_chan_def)
    qed
    show "history_ok (log ?c) (underway ?c m) t" if "chan ?c m = Some t" for m t
      using that bus_invD(4) [OF i, of m t] bus_invD(4) [OF i s(1)] c(3) by (cases "m = n") (auto simp: p)
    show "counted (log ?c) (underway ?c m) t" if "m \<in> subs ?c" "chan ?c m = Some t" for m t
    proof -
      have "m \<noteq> n" using that(1) n(2) c(2) by auto
      with that bus_invD(5) [OF i, of m t] c show ?thesis by (simp add: p)
    qed
  qed
  ultimately show ?thesis by simp
qed

lemma removeSub_close_inv [inv_intros]:
  assumes i: "bus_inv b" and n: "n \<in> removing b"
  shows "bus_inv (removeSub_close n b)"
proof -
  have s: "sets_ok b" by (rule bus_invD(2) [OF i])
  show ?thesis unfolding removeSub_close_def
    by (rule close_member_inv [OF i]) (use n s in \<open>auto simp: sets_ok_def owners_def closing_set_def\<close>)
qed

lemma Close_chan_inv [inv_intros]:
  assumes i: "bus_inv b" and c: "closing b = Some c" "n \<in> c"
  shows "bus_inv (Close_chan n b)"
proof -
  have s: "sets_ok b" by (rule bus_invD(2) [OF i])
  show ?thesis unfolding Close_chan_def
    by (rule close_member_inv [OF i]) (use c s in \<open>auto simp: sets_ok_def owners_def closing_set_def\<close>)
qed

lemma Close_lock_inv [inv_intros]:
  assumes i: "bus_inv b" and q: "no_reader b" shows "bus_inv (Close_lock b)"
proof (cases "closed b")
  case False
  show ?thesis
    by (rule bus_inv_sets [OF i]) (use False q bus_invD(2) [OF i] in
      \<open>auto simp: Close_lock_def sets_ok_def owners_def closing_set_def\<close>)
qed (simp add: Close_lock_def i)

lemma Close_done_inv [inv_intros]:
  assumes i: "bus_inv b" and d: "\<not> done_closed b" shows "bus_inv (Close_done b)"
proof (rule bus_inv_sets [OF i])
  show "sets_ok (Close_done b)"
    using bus_invD(2) [OF i] unfolding Close_done_def sets_ok_def closing_set_def by simp
qed (simp_all add: Close_done_def owners_def closing_set_def d)

lemma receive_inv [inv_intros]:
  assumes i: "bus_inv b" shows "bus_inv (receive n b)"
proof (cases "\<exists>s e es. chan b n = Some s \<and> buf s = e # es")
  case True
  then obtain s e es where s: "chan b n = Some s" "buf s = e # es" by blast
  let ?s = "s\<lparr>buf := es, received := received s @ [e]\<rparr>"
  let ?b = "b\<lparr>chan := (chan b)(n \<mapsto> ?s)\<rparr>"
  have p: "underway ?b m = underway b m" for m by (rule underway_eq) simp
  have h: "history_ok (log b) (underway b n) ?s"
    using bus_invD(4) [OF i s(1)] s(2) by (simp add: history_ok_def offered_def by_publisher_def)
  have "bus_inv ?b"
  proof (rule bus_invI)
    show "\<not> panicked ?b" using bus_invD(1) [OF i] by simp
    show "sets_ok ?b" using bus_invD(2) [OF i] by (simp add: sets_ok_def closing_set_def)
    show "readers_ok ?b" by (rule readers_ok_chan [OF bus_invD(6) [OF i] s(1)]) simp_all
    show "open_chan ?b m" if "m \<in> owners ?b" for m
    proof -
      have "m \<in> owners b" using that by (simp add: owners_def closing_set_def)
      from bus_invD(3) [OF i this] s(1) show ?thesis by (auto simp: open_chan_def)
    qed
    show "history_ok (log ?b) (underway ?b m) t" if "chan ?b m = Some t" for m t
      using that h bus_invD(4) [OF i, of m t] by (cases "m = n") (auto simp: p)
    show "counted (log ?b) (underway ?b m) t" if "m \<in> subs ?b" "chan ?b m = Some t" for m t
      using that s bus_invD(5) [OF i, of m] by (cases "m = n") (auto simp: counted_def p)
  qed
  with s show ?thesis by (simp add: receive_def)
next
  case False
  then have "receive n b = b" by (auto simp: receive_def split: option.splits list.splits)
  with i show ?thesis by simp
qed

lemma Publish_lock_inv [inv_intros]:
  assumes i: "bus_inv b" and p: "publishing b p = None" shows "bus_inv (Publish_lock p ctx ev b)"
proof (cases "ctx \<and> \<not> closed b")
  case True
  let ?b = "b\<lparr>log := log b @ [(p, ev)], publishing := (publishing b)(p \<mapsto> (ev, subs b))\<rparr>"
  have eq: "Publish_lock p ctx ev b = ?b" using True by (simp add: Publish_lock_def)
  have no: "p \<notin> underway b n" for n using p by (simp add: underway_def)
  have pe: "underway ?b n = (if n \<in> subs b then insert p (underway b n) else underway b n)" for n
    using p by (auto simp: underway_def)
  show ?thesis unfolding eq
  proof (rule bus_invI)
    show "\<not> panicked ?b" using bus_invD(1) [OF i] by simp
    show "sets_ok ?b" using bus_invD(2) [OF i] by (simp add: sets_ok_def closing_set_def)
    show "open_chan ?b n" if "n \<in> owners ?b" for n
      using bus_invD(3) [OF i, of n] that by (simp add: owners_def open_chan_def closing_set_def)
    have j: "joined s \<le> length (log b)" if "chan b n = Some s" for n s
      using bus_invD(4) [OF i that] by (simp add: history_ok_def)
    show "readers_ok ?b" unfolding readers_ok_def
    proof (intro conjI allI impI)
      show "finite (dom (publishing ?b))" using bus_invD(6) [OF i] by (simp add: readers_ok_def)
      fix q ev' R assume q: "publishing ?b q = Some (ev', R)"
      show "R \<subseteq> subs ?b" using q readers_okD(1) [OF bus_invD(6) [OF i], of q ev' R] by (cases "q = p") auto
      fix n s assume n: "n \<in> R" "chan ?b n = Some s"
      show "\<exists>l. by_publisher q (drop (joined s) (log ?b)) = l @ [(q, ev')]"
        using q n j [of n s] readers_okD(2) [OF bus_invD(6) [OF i], of q ev' R n s] by (cases "q = p") auto
    qed
    show "history_ok (log ?b) (underway ?b n) s" if "chan ?b n = Some s" for n s
    proof -
      have s: "chan b n = Some s" using that by simp
      have "subseq (by_publisher q (received s @ buf s)) (offered (log ?b) (underway ?b n) s q)" for q
      proof (cases "q = p")
        case True
        have "subseq (by_publisher p (received s @ buf s)) (by_publisher p (drop (joined s) (log b)))"
        proof -
          have "subseq (by_publisher p (received s @ buf s)) (offered (log b) (underway b n) s p)"
            using bus_invD(4) [OF i s] unfolding history_ok_def by blast
          then show ?thesis using no [of n] by (simp add: offered_def del: by_publisher_simps)
        qed
        then have z: "subseq (by_publisher p (received s @ buf s)) (by_publisher p (drop (joined s) (log b)) @ zs)" for zs
          by (rule list_emb_prefix)
        from z [of "[]"] z [of "[(p, ev)]"] show ?thesis using True j [OF s] no [of n] by (auto simp: offered_def Let_def pe)
      next
        case False
        then have "offered (log ?b) (underway ?b n) s q = offered (log b) (underway b n) s q"
          using j [OF s] unfolding pe by (simp add: offered_def)
        moreover have "subseq (by_publisher q (received s @ buf s)) (offered (log b) (underway b n) s q)"
          using bus_invD(4) [OF i s] unfolding history_ok_def by blast
        ultimately show ?thesis by simp
      qed
      then show ?thesis using bus_invD(4) [OF i s] by (simp add: history_ok_def)
    qed
    show "counted (log ?b) (underway ?b n) s" if "n \<in> subs ?b" "chan ?b n = Some s" for n s
    proof -
      have s: "n \<in> subs b" "chan b n = Some s" using that by simp_all
      show ?thesis using bus_invD(5) [OF i s] j [OF s(2)] no [of n] underway_finite [OF bus_invD(6) [OF i], of n] s(1)
        by (simp add: counted_def pe Suc_diff_le)
    qed
  qed
qed (auto simp: Publish_lock_def i)

lemma deliver_keeps [simp]: "joined (deliver r e s) = joined s" "ch_closed (deliver r e s) = ch_closed s"
  by (simp_all add: deliver_def)

text \<open>The event that was underway comes to the subscriber, or is dropped for it.\<close>

lemma deliver_ok:
  assumes h: "history_ok es W s" and p: "p \<in> W" "by_publisher p (drop (joined s) es) = l @ [(p, ev)]"
  shows "history_ok es (W - {p}) (deliver r (p, ev) s)"
    and "finite W \<Longrightarrow> counted es W s \<Longrightarrow> counted es (W - {p}) (deliver r (p, ev) s)"
proof -
  let ?t = "deliver r (p, ev) s"
  have one: "subseq (by_publisher p (received s @ buf s)) l"
    using h p by (auto simp: history_ok_def offered_def dest: spec [of _ p])
  then have two: "subseq (by_publisher p (received s @ buf s) @ [(p, ev)]) (l @ [(p, ev)])"
    by (rule list_emb_append_mono) simp
  have three: "subseq (by_publisher p (received s @ buf s)) (l @ [(p, ev)])"
    using one by (rule list_emb_prefix)
  have "subseq (by_publisher q (received ?t @ buf ?t)) (offered es (W - {p}) ?t q)" for q
  proof (cases "q = p")
    case True
    then show ?thesis using p two three by (auto simp: offered_def deliver_def)
  next
    case False
    have "by_publisher q (received ?t @ buf ?t) = by_publisher q (received s @ buf s)"
      using False by (simp add: deliver_def)
    moreover have "offered es (W - {p}) ?t q = offered es W s q" using False by (simp add: offered_def)
    ultimately show ?thesis using h by (simp only: history_ok_def)
  qed
  then show "history_ok es (W - {p}) ?t" using h by (auto simp: history_ok_def deliver_def)
  show "counted es (W - {p}) ?t" if "finite W" "counted es W s"
  proof -
    have "card W = Suc (card (W - {p}))" using that(1) p(1) by (rule card.remove)
    then show ?thesis using that(2) by (auto simp: counted_def deliver_def)
  qed
qed

lemma Publish_one_inv [inv_intros]:
  assumes i: "bus_inv b" and p: "publishing b p = Some (ev, R)" "n \<in> R"
  shows "bus_inv (Publish_one p n ready b)"
proof -
  note r = bus_invD(6) [OF i]
  have sub: "n \<in> subs b" using readers_okD(1) [OF r p(1)] p(2) by blast
  then obtain s where s: "chan b n = Some s" "\<not> ch_closed s"
    using bus_invD(3) [OF i, of n] by (auto simp: owners_def open_chan_def)
  obtain l where l: "by_publisher p (drop (joined s) (log b)) = l @ [(p, ev)]"
    using readers_okD(2) [OF r p s(1)] by blast
  let ?t = "deliver ready (p, ev) s"
  let ?b = "b\<lparr>publishing := (publishing b)(p \<mapsto> (ev, R - {n})), chan := (chan b)(n \<mapsto> ?t),
    dropped := dropped b + (if takes ready s then 0 else 1), panicked := panicked b \<or> ch_closed s\<rparr>"
  have eq: "Publish_one p n ready b = ?b" using p s by (simp add: Publish_one_def)
  have pe: "underway ?b m = (if m = n then underway b n - {p} else underway b m)" for m
    using p by (auto simp: underway_def)
  have mem: "p \<in> underway b n" using p by (simp add: underway_def)
  show ?thesis unfolding eq
  proof (rule bus_invI)
    show "\<not> panicked ?b" using bus_invD(1) [OF i] s(2) by simp
    show "sets_ok ?b" using bus_invD(2) [OF i] by (simp add: sets_ok_def closing_set_def)
    show "open_chan ?b m" if "m \<in> owners ?b" for m
      using bus_invD(3) [OF i, of m] that s by (auto simp: owners_def open_chan_def closing_set_def)
    show "readers_ok ?b" unfolding readers_ok_def
    proof (intro conjI allI impI)
      show "finite (dom (publishing ?b))" using r by (simp add: readers_ok_def)
      fix q ev' R' assume q: "publishing ?b q = Some (ev', R')"
      then obtain R0 where q': "publishing b q = Some (ev', R0)" "R' \<subseteq> R0" using p(1) by (cases "q = p") auto
      show "R' \<subseteq> subs ?b" using readers_okD(1) [OF r q'(1)] q'(2) by auto
      fix m u assume m: "m \<in> R'" "chan ?b m = Some u"
      then show "\<exists>l. by_publisher q (drop (joined u) (log ?b)) = l @ [(q, ev')]"
        using readers_okD(2) [OF r q'(1), of m] q'(2) s(1) by (cases "m = n") auto
    qed
    show "history_ok (log ?b) (underway ?b m) u" if "chan ?b m = Some u" for m u
      using that deliver_ok(1) [OF bus_invD(4) [OF i s(1)] mem l, of ready] bus_invD(4) [OF i, of m u] unfolding pe
      by (cases "m = n") auto
    show "counted (log ?b) (underway ?b m) u" if "m \<in> subs ?b" "chan ?b m = Some u" for m u
      using that deliver_ok(2) [OF bus_invD(4) [OF i s(1)] mem l underway_finite [OF r] bus_invD(5) [OF i sub s(1)], of ready]
        bus_invD(5) [OF i, of m u] unfolding pe
      by (cases "m = n") auto
  qed
qed

lemma Publish_unlock_inv [inv_intros]:
  assumes i: "bus_inv b" and p: "publishing b p = Some (ev, {})" shows "bus_inv (Publish_unlock p b)"
proof -
  let ?b = "Publish_unlock p b"
  note d = Publish_unlock_def
  have pe: "underway ?b n = underway b n" for n using p by (auto simp: underway_def d split: if_splits)
  show ?thesis
  proof (rule bus_invI)
    show "\<not> panicked ?b" using bus_invD(1) [OF i] by (simp add: d)
    show "sets_ok ?b" using bus_invD(2) [OF i] by (simp add: sets_ok_def closing_set_def d)
    show "readers_ok ?b" using bus_invD(6) [OF i] by (auto simp: readers_ok_def d)
    show "open_chan ?b n" if "n \<in> owners ?b" for n
      using bus_invD(3) [OF i, of n] that by (simp add: owners_def open_chan_def closing_set_def d)
    show "history_ok (log ?b) (underway ?b n) s" if "chan ?b n = Some s" for n s
      using that bus_invD(4) [OF i, of n s] unfolding pe by (simp add: d)
    show "counted (log ?b) (underway ?b n) s" if "n \<in> subs ?b" "chan ?b n = Some s" for n s
      using that bus_invD(5) [OF i, of n s] unfolding pe by (simp add: d)
  qed
qed

interpretation bus_sys: invariant_system "\<lambda>b. b = New_bus" bus_step bus_inv
proof
  show "b = New_bus \<Longrightarrow> bus_inv b" for b :: "'a bus"
    by (simp add: bus_inv_def sets_ok_def owners_def New_bus_def closing_set_def readers_ok_def)
  show "bus_inv b \<Longrightarrow> bus_step b c \<Longrightarrow> bus_inv c" for b c :: "'a bus"
    by (erule bus_stepE) (auto intro: inv_intros)
qed

lemma by_publisher_drop: "subseq (by_publisher p (drop k es)) (by_publisher p es)"
proof -
  have "subseq (by_publisher p (drop k es)) (by_publisher p (take k es) @ by_publisher p (drop k es))"
    by (intro list_emb_append2) simp
  then show ?thesis by (simp flip: by_publisher_simps(2))
qed

lemma history_ok_subseq:
  assumes "history_ok es W s"
  shows "subseq (by_publisher p (received s @ buf s)) (by_publisher p (drop (joined s) es))"
proof -
  have "subseq (by_publisher p (received s @ buf s)) (offered es W s p)"
    using assms unfolding history_ok_def by blast
  moreover have "subseq (offered es W s p) (by_publisher p (drop (joined s) es))"
    by (cases "by_publisher p (drop (joined s) es)" rule: rev_cases) (auto simp: offered_def Let_def intro: list_emb_prefix)
  ultimately show ?thesis by (rule subseq_order.trans)
qed

text \<open>Two publications at the same time can come to two subscribers in different orders.\<close>

definition crossing_bus :: "nat bus" where
  "crossing_bus = Publish_one 0 1 False (Publish_one 1 1 False (Publish_one 1 0 False (Publish_one 0 0 False
     (Publish_lock 1 True 8 (Publish_lock 0 True 7 (Subscribe 1 2 (Subscribe 0 2 New_bus)))))))"

lemma crossing_reach: "reach (\<lambda>b. b = New_bus) bus_step crossing_bus"
proof -
  note d = New_bus_def Subscribe_def no_reader_def Publish_lock_def Publish_one_def
  have "reach (\<lambda>b. b = New_bus) bus_step (New_bus :: nat bus)" by (rule reach_init) simp
  then have "reach (\<lambda>b. b = New_bus) bus_step (Subscribe 0 2 New_bus :: nat bus)"
    by (rule reach_step) (rule subscribe; simp add: d)
  then have "reach (\<lambda>b. b = New_bus) bus_step (Subscribe 1 2 (Subscribe 0 2 New_bus) :: nat bus)" (is "reach _ _ ?b2")
    by (rule reach_step) (rule subscribe; simp add: d)
  then have "reach (\<lambda>b. b = New_bus) bus_step (Publish_lock 0 True 7 ?b2)"
    by (rule reach_step) (rule publish_lock; simp add: d)
  then have "reach (\<lambda>b. b = New_bus) bus_step (Publish_lock 1 True 8 (Publish_lock 0 True 7 ?b2))" (is "reach _ _ ?b4")
    by (rule reach_step) (rule publish_lock; simp add: d)
  then have "reach (\<lambda>b. b = New_bus) bus_step (Publish_one 0 0 False ?b4)" (is "reach _ _ ?b5")
    by (rule reach_step) (rule publish_one [where ev = 7 and R = "{0, 1}"]; auto simp: d)
  then have "reach (\<lambda>b. b = New_bus) bus_step (Publish_one 1 0 False ?b5)" (is "reach _ _ ?b6")
    by (rule reach_step) (rule publish_one [where ev = 8 and R = "{0, 1}"]; auto simp: d)
  then have "reach (\<lambda>b. b = New_bus) bus_step (Publish_one 1 1 False ?b6)" (is "reach _ _ ?b7")
    by (rule reach_step) (rule publish_one [where ev = 8 and R = "{1}"]; auto simp: d)
  then have "reach (\<lambda>b. b = New_bus) bus_step (Publish_one 0 1 False ?b7)"
    by (rule reach_step) (rule publish_one [where ev = 7 and R = "{1}"]; auto simp: d)
  then show ?thesis by (simp only: crossing_bus_def)
qed

lemma crossing_orders:
  "map_option buf (chan crossing_bus 0) = Some [(0, 7), (1, 8)]" "map_option buf (chan crossing_bus 1) = Some [(1, 8), (0, 7)]"
  by (simp_all add: crossing_bus_def New_bus_def Subscribe_def Publish_lock_def Publish_one_def deliver_def)

end
