(* ===== verification/PluginHost.thy ===== *)
theory PluginHost
  imports Prelude
begin

text \<open>
  \<open>sdk/plugin/plugin.go\<close>, \<open>sdk/plugin/trust.go\<close> and \<open>host/plugin/host.go\<close>: manifest validation,
  signature policy, version and platform gates, and the registry of plugins. A registration
  releases the lock while \<open>Init\<close> runs, so it is two steps; any number of them interleave with
  each other and with unregistrations. A module is a value of type \<open>'m\<close>; \<open>lifecycle\<close> tells
  which modules implement \<open>Init\<close> and \<open>Shutdown\<close>.
\<close>

subsection \<open>Manifests\<close>

type_synonym Capability = string

definition KindProtocol :: string where "KindProtocol = ''protocol''"
definition KindCredential :: string where "KindCredential = ''credential''"

definition TrustCore :: string where "TrustCore = ''core''"
definition TrustVerified :: string where "TrustVerified = ''verified''"
definition TrustCommunity :: string where "TrustCommunity = ''community''"
definition TrustUntrusted :: string where "TrustUntrusted = ''untrusted''"

definition CapProcessSpawn :: Capability where "CapProcessSpawn = ''process.spawn''"
definition CapExternalLauncher :: Capability where "CapExternalLauncher = ''ui.external_launcher''"

record Manifest =
  mf_ID :: string
  mf_Name :: string
  mf_Description :: string
  mf_Kind :: string
  mf_Version :: string
  mf_APIVersion :: string
  mf_Capabilities :: "Capability list"
  mf_Platforms :: "string list"
  mf_Trust :: string
  mf_SignatureB64 :: string
  mf_Status :: string
  mf_Publisher :: string
  mf_Homepage :: string
  mf_License :: string

datatype manifest_error =
    ManifestNil | IDRequired | NameRequired | BadKind string | VersionRequired
  | APIVersionRequired | EmptyCapability | ForbiddenCapability Capability

fun first_forbidden :: "Capability list \<Rightarrow> Capability option" where
  "first_forbidden [] = None"
| "first_forbidden (c # cs) =
     (if c = CapProcessSpawn \<or> c = CapExternalLauncher then Some c else first_forbidden cs)"

definition Manifest_Validate :: "Manifest option \<Rightarrow> manifest_error option" where
  "Manifest_Validate mo = (case mo of None \<Rightarrow> Some ManifestNil | Some m \<Rightarrow>
     if mf_ID m = '''' then Some IDRequired
     else if mf_Name m = '''' then Some NameRequired
     else if mf_Kind m \<noteq> KindProtocol \<and> mf_Kind m \<noteq> KindCredential then Some (BadKind (mf_Kind m))
     else if mf_Version m = '''' then Some VersionRequired
     else if mf_APIVersion m = '''' then Some APIVersionRequired
     else if '''' \<in> set (mf_Capabilities m) then Some EmptyCapability
     else if mf_Kind m = KindProtocol
     then map_option ForbiddenCapability (first_forbidden (mf_Capabilities m))
     else None)"

definition HasCapability :: "Manifest \<Rightarrow> Capability \<Rightarrow> bool" where
  "HasCapability m c = list_ex (\<lambda>x. x = c) (mf_Capabilities m)"

lemma first_forbidden_none:
  "first_forbidden cs = None \<longleftrightarrow> CapProcessSpawn \<notin> set cs \<and> CapExternalLauncher \<notin> set cs"
  by (induction cs) auto

lemma Validate_ok:
  "Manifest_Validate (Some m) = None \<longleftrightarrow> mf_ID m \<noteq> '''' \<and> mf_Name m \<noteq> '''' \<and>
    mf_Kind m \<in> {KindProtocol, KindCredential} \<and> mf_Version m \<noteq> '''' \<and> mf_APIVersion m \<noteq> '''' \<and>
    '''' \<notin> set (mf_Capabilities m) \<and>
    (mf_Kind m = KindProtocol \<longrightarrow> \<not> HasCapability m CapProcessSpawn \<and> \<not> HasCapability m CapExternalLauncher)"
  by (auto simp: Manifest_Validate_def HasCapability_def list_ex_iff first_forbidden_none)

subsection \<open>Signatures\<close>

datatype Policy = PolicyPermissive | PolicyStrict

text \<open>The trusted keys by label; \<open>b64\<close>, \<open>body\<close> and \<open>ed\<close> are base64, JSON and Ed25519.\<close>

type_synonym 'k TrustStore = "(string \<times> 'k) list"

definition TrustStore_Add :: "string \<Rightarrow> 'k \<Rightarrow> 'k TrustStore \<Rightarrow> 'k TrustStore" where
  "TrustStore_Add label pub ts = (label, pub) # filter (\<lambda>(l, _). l \<noteq> label) ts"

datatype verify_error =
    VerifyNil | Unsigned string | BadEncoding string | BodyFailed string | NotVerified string

definition manifestBody :: "Manifest \<Rightarrow> Manifest" where
  "manifestBody m = m\<lparr>mf_SignatureB64 := '''', mf_Trust := ''''\<rparr>"

fun any_key :: "('k \<Rightarrow> byte list \<Rightarrow> byte list \<Rightarrow> bool) \<Rightarrow> 'k TrustStore \<Rightarrow> byte list \<Rightarrow> byte list \<Rightarrow> bool" where
  "any_key ed [] body sig = False"
| "any_key ed ((l, pub) # ks) body sig = (if ed pub body sig then True else any_key ed ks body sig)"

text \<open>The manifest after the call, and the error.\<close>

definition Verify :: "(string \<Rightarrow> byte list option) \<Rightarrow> (Manifest \<Rightarrow> byte list option) \<Rightarrow>
    ('k \<Rightarrow> byte list \<Rightarrow> byte list \<Rightarrow> bool) \<Rightarrow> 'k TrustStore \<Rightarrow> Policy \<Rightarrow> Manifest option \<Rightarrow>
    Manifest option \<times> verify_error option" where
  "Verify b64 json ed store policy mo = (case mo of None \<Rightarrow> (None, Some VerifyNil) | Some m \<Rightarrow>
     if mf_SignatureB64 m = '''' then
       (if policy = PolicyStrict then (Some m, Some (Unsigned (mf_ID m)))
        else (Some (m\<lparr>mf_Trust := TrustCommunity\<rparr>), None))
     else (case b64 (mf_SignatureB64 m) of
         None \<Rightarrow> (Some m, Some (BadEncoding (mf_ID m)))
       | Some sig \<Rightarrow> (case json (manifestBody m) of
           None \<Rightarrow> (Some m, Some (BodyFailed (mf_ID m)))
         | Some body \<Rightarrow>
             if any_key ed store body sig then (Some (m\<lparr>mf_Trust := TrustVerified\<rparr>), None)
             else (Some m, Some (NotVerified (mf_ID m))))))"

lemma any_key_iff: "any_key ed ks body sig \<longleftrightarrow> (\<exists>(l, pub) \<in> set ks. ed pub body sig)"
  by (induction ks) auto

lemma Verify_accepts:
  assumes "Verify b64 json ed store policy (Some m) = (Some m', None)"
  shows "m' = m\<lparr>mf_Trust := mf_Trust m'\<rparr> \<and>
    (mf_Trust m' = TrustVerified \<and> (\<exists>sig body l pub. b64 (mf_SignatureB64 m) = Some sig \<and>
        json (manifestBody m) = Some body \<and> (l, pub) \<in> set store \<and> ed pub body sig) \<or>
     mf_Trust m' = TrustCommunity \<and> mf_SignatureB64 m = '''' \<and> policy = PolicyPermissive)"
  using assms by (cases policy) (auto simp: Verify_def any_key_iff split: if_splits option.splits)

subsection \<open>Version and platform gates\<close>

definition digit_val :: "char \<Rightarrow> nat option" where
  "digit_val c = (if 48 \<le> ord8 c \<and> ord8 c \<le> 57 then Some (ord8 c - 48) else None)"

fun digits_val :: "nat \<Rightarrow> string \<Rightarrow> nat option" where
  "digits_val acc [] = Some acc"
| "digits_val acc (c # cs) = (case digit_val c of None \<Rightarrow> None | Some d \<Rightarrow> digits_val (acc * 10 + d) cs)"

text \<open>\<open>strconv.Atoi\<close>: an optional sign, decimal digits, and the range of a 64-bit \<open>int\<close>.\<close>

definition Atoi :: "string \<Rightarrow> int option" where
  "Atoi s = (case s of [] \<Rightarrow> None | c # cs \<Rightarrow>
     (let neg = (c = CHR ''-''); ds = (if neg \<or> c = CHR ''+'' then cs else s) in
      if ds = [] then None
      else case digits_val 0 ds of None \<Rightarrow> None | Some n \<Rightarrow>
        (let v = (if neg then - int n else int n) in
         if v < - (2 ^ 63) \<or> v > 2 ^ 63 - 1 then None else Some v)))"

fun upto_dot :: "string \<Rightarrow> string" where
  "upto_dot [] = []"
| "upto_dot (c # cs) = (if c = CHR ''.'' then [] else c # upto_dot cs)"

definition majorOf :: "string \<Rightarrow> int option" where
  "majorOf v = (let s = upto_dot (if has_prefix v ''v'' then tl v else v) in
     if s = '''' then None else Atoi s)"

definition CurrentAPIVersion :: string where
  "CurrentAPIVersion = ''1.0.0''"

definition checkAPIMajor :: "string \<Rightarrow> string \<Rightarrow> bool" where
  "checkAPIMajor pluginVer hostVer = (case majorOf pluginVer of None \<Rightarrow> False
     | Some pm \<Rightarrow> (case majorOf hostVer of None \<Rightarrow> False | Some hm \<Rightarrow> pm = hm))"

definition checkPlatform :: "string \<Rightarrow> string list \<Rightarrow> bool" where
  "checkPlatform goos supported = (if length supported = 0 then True else list_ex (\<lambda>p. p = goos) supported)"

subsection \<open>The host\<close>

datatype EventKind = EventLoaded | EventUnloaded | EventCrashed | EventQuarantined

record Event =
  ev_Kind :: EventKind
  ev_PluginID :: string
  ev_Err :: "string option"

record 'm Loaded =
  ld_Manifest :: Manifest
  ld_Module :: 'm
  ld_Trust :: string

record 'm HostConfig =
  approval :: "(Manifest \<Rightarrow> string \<Rightarrow> string option) option"
  goos :: string
  lifecycle :: "'m \<Rightarrow> bool"

datatype host_error =
    ModuleNil | InvalidManifest manifest_error | ErrAPIVersionMismatch | ErrPlatformUnsupported
  | ErrApprovalRequired | ApprovalRejected string | ErrAlreadyRegistered | InitFailed string
  | ErrNotRegistered | ShutdownFailed string | ErrCapabilityNotGranted

text \<open>\<open>pending\<close> holds, by goroutine, the registrations between the two critical sections;
  \<open>stopping\<close> the modules whose \<open>Shutdown\<close> runs.\<close>

record 'm Host =
  plugins :: "string \<rightharpoonup> 'm Loaded"
  registering :: "string set"
  pending :: "nat \<rightharpoonup> (Manifest \<times> 'm \<times> string)"
  stopping :: "nat \<rightharpoonup> (string \<times> 'm)"
  events :: "Event list"

definition New_host :: "'m Host" where
  "New_host = \<lparr>plugins = Map.empty, registering = {}, pending = Map.empty, stopping = Map.empty,
     events = []\<rparr>"

definition emit :: "EventKind \<Rightarrow> string \<Rightarrow> string option \<Rightarrow> 'm Host \<Rightarrow> 'm Host" where
  "emit k i e h = h\<lparr>events := events h @ [\<lparr>ev_Kind = k, ev_PluginID = i, ev_Err = e\<rparr>]\<rparr>"

definition approval_error :: "'m HostConfig \<Rightarrow> Manifest \<Rightarrow> string \<Rightarrow> host_error option" where
  "approval_error cfg m trust =
     (if trust = TrustCommunity \<or> trust = TrustUntrusted then
        (case approval cfg of
           None \<Rightarrow> Some ErrApprovalRequired
         | Some hook \<Rightarrow> map_option ApprovalRejected (hook m trust))
      else None)"

text \<open>The checks and the reservation: on success goroutine \<open>g\<close> goes on to \<open>Init\<close>.\<close>

definition Register_begin :: "'m HostConfig \<Rightarrow> nat \<Rightarrow> Manifest \<Rightarrow> 'm option \<Rightarrow> string \<Rightarrow> 'm Host \<Rightarrow>
    host_error + 'm Host" where
  "Register_begin cfg g m module trust h = (case module of None \<Rightarrow> Inl ModuleNil | Some x \<Rightarrow>
     (case Manifest_Validate (Some m) of Some e \<Rightarrow> Inl (InvalidManifest e) | None \<Rightarrow>
       if \<not> checkAPIMajor (mf_APIVersion m) CurrentAPIVersion then Inl ErrAPIVersionMismatch
       else if \<not> checkPlatform (goos cfg) (mf_Platforms m) then Inl ErrPlatformUnsupported
       else (case approval_error cfg m trust of Some e \<Rightarrow> Inl e | None \<Rightarrow>
         if plugins h (mf_ID m) \<noteq> None then Inl ErrAlreadyRegistered
         else if mf_ID m \<in> registering h then Inl ErrAlreadyRegistered
         else Inr (h\<lparr>registering := insert (mf_ID m) (registering h),
                     pending := (pending h)(g \<mapsto> (m, x, trust))\<rparr>))))"

text \<open>After \<open>Init\<close>: \<open>initErr\<close> is its error, a panic included.\<close>

definition Register_finish :: "'m HostConfig \<Rightarrow> nat \<Rightarrow> string option \<Rightarrow> 'm Host \<Rightarrow>
    host_error option \<times> 'm Host" where
  "Register_finish cfg g initErr h = (case pending h g of None \<Rightarrow> (None, h) | Some (m0, x, trust) \<Rightarrow>
     (let m = m0\<lparr>mf_Trust := trust\<rparr>; err = (if lifecycle cfg x then initErr else None);
          h1 = h\<lparr>registering := registering h - {mf_ID m}, pending := (pending h)(g := None)\<rparr>
      in case err of
           Some e \<Rightarrow> (Some (InitFailed e), emit EventCrashed (mf_ID m) (Some e) h1)
         | None \<Rightarrow>
             if plugins h1 (mf_ID m) \<noteq> None then (Some ErrAlreadyRegistered, h1)
             else (None, emit EventLoaded (mf_ID m) None
               (h1\<lparr>plugins := (plugins h1)(mf_ID m \<mapsto>
                  \<lparr>ld_Manifest = m, ld_Module = x, ld_Trust = trust\<rparr>)\<rparr>))))"

definition Unregister_begin :: "nat \<Rightarrow> string \<Rightarrow> 'm Host \<Rightarrow> host_error + 'm Host" where
  "Unregister_begin g i h = (case plugins h i of None \<Rightarrow> Inl ErrNotRegistered
     | Some l \<Rightarrow> Inr (h\<lparr>plugins := (plugins h)(i := None),
                        stopping := (stopping h)(g \<mapsto> (i, ld_Module l))\<rparr>))"

definition Unregister_finish :: "'m HostConfig \<Rightarrow> nat \<Rightarrow> string option \<Rightarrow> 'm Host \<Rightarrow>
    host_error option \<times> 'm Host" where
  "Unregister_finish cfg g shutErr h = (case stopping h g of None \<Rightarrow> (None, h) | Some (i, x) \<Rightarrow>
     (let h1 = h\<lparr>stopping := (stopping h)(g := None)\<rparr> in
      case (if lifecycle cfg x then shutErr else None) of
        Some e \<Rightarrow> (Some (ShutdownFailed e), emit EventCrashed i (Some e) h1)
      | None \<Rightarrow> (None, emit EventUnloaded i None h1)))"

definition Get :: "string \<Rightarrow> 'm Host \<Rightarrow> 'm Loaded option" where
  "Get i h = plugins h i"

definition EnforceCapability :: "string \<Rightarrow> Capability \<Rightarrow> 'm Host \<Rightarrow> host_error option" where
  "EnforceCapability i c h = (case Get i h of None \<Rightarrow> Some ErrNotRegistered
     | Some l \<Rightarrow> if \<not> HasCapability (ld_Manifest l) c then Some ErrCapabilityNotGranted else None)"

inductive host_step :: "'m HostConfig \<Rightarrow> 'm Host \<Rightarrow> 'm Host \<Rightarrow> bool" for cfg where
  begin_register: "pending h g = None \<Longrightarrow> Register_begin cfg g m module trust h = Inr h' \<Longrightarrow> host_step cfg h h'"
| finish_register: "pending h g \<noteq> None \<Longrightarrow> host_step cfg h (snd (Register_finish cfg g e h))"
| begin_unregister: "stopping h g = None \<Longrightarrow> Unregister_begin g i h = Inr h' \<Longrightarrow> host_step cfg h h'"
| finish_unregister: "stopping h g \<noteq> None \<Longrightarrow> host_step cfg h (snd (Unregister_finish cfg g e h))"

inductive_cases host_stepE: "host_step cfg h h'"

subsection \<open>Invariant\<close>

text \<open>What every gate has checked of a plugin before it is active.\<close>

definition admitted :: "'m HostConfig \<Rightarrow> Manifest \<Rightarrow> string \<Rightarrow> bool" where
  "admitted cfg m trust \<longleftrightarrow> Manifest_Validate (Some m) = None \<and>
     checkAPIMajor (mf_APIVersion m) CurrentAPIVersion \<and> checkPlatform (goos cfg) (mf_Platforms m) \<and>
     (trust \<in> {TrustCommunity, TrustUntrusted} \<longrightarrow> (\<exists>hook t. approval cfg = Some hook \<and>
        hook (m\<lparr>mf_Trust := t\<rparr>) trust = None))"

definition plugins_ok :: "'m HostConfig \<Rightarrow> 'm Host \<Rightarrow> bool" where
  "plugins_ok cfg h \<longleftrightarrow> (\<forall>i l. plugins h i = Some l \<longrightarrow> mf_ID (ld_Manifest l) = i \<and>
     mf_Trust (ld_Manifest l) = ld_Trust l \<and> admitted cfg (ld_Manifest l) (ld_Trust l))"

definition pending_ok :: "'m HostConfig \<Rightarrow> 'm Host \<Rightarrow> bool" where
  "pending_ok cfg h \<longleftrightarrow>
     (\<forall>g m x t. pending h g = Some (m, x, t) \<longrightarrow> mf_ID m \<in> registering h \<and> admitted cfg m t) \<and>
     (\<forall>g g' m x t m' x' t'. pending h g = Some (m, x, t) \<longrightarrow> pending h g' = Some (m', x', t') \<longrightarrow>
        mf_ID m = mf_ID m' \<longrightarrow> g = g') \<and>
     (\<forall>i \<in> registering h. plugins h i = None \<and> (\<exists>g m x t. pending h g = Some (m, x, t) \<and> mf_ID m = i))"

definition host_inv :: "'m HostConfig \<Rightarrow> 'm Host \<Rightarrow> bool" where
  "host_inv cfg h \<longleftrightarrow> plugins_ok cfg h \<and> pending_ok cfg h"

lemma admitted_trust:
  assumes "admitted cfg m t" shows "admitted cfg (m\<lparr>mf_Trust := t'\<rparr>) t"
proof -
  have "Manifest_Validate (Some (m\<lparr>mf_Trust := t'\<rparr>)) = Manifest_Validate (Some m)"
    by (simp add: Manifest_Validate_def)
  with assms show ?thesis unfolding admitted_def by simp
qed

lemma host_invI:
  assumes "\<And>i l. plugins h i = Some l \<Longrightarrow> mf_ID (ld_Manifest l) = i \<and>
      mf_Trust (ld_Manifest l) = ld_Trust l \<and> admitted cfg (ld_Manifest l) (ld_Trust l)"
    and "\<And>g m x t. pending h g = Some (m, x, t) \<Longrightarrow> mf_ID m \<in> registering h \<and> admitted cfg m t"
    and "\<And>g g' m x t m' x' t'. pending h g = Some (m, x, t) \<Longrightarrow> pending h g' = Some (m', x', t') \<Longrightarrow>
      mf_ID m = mf_ID m' \<Longrightarrow> g = g'"
    and "\<And>i. i \<in> registering h \<Longrightarrow> plugins h i = None"
    and "\<And>i. i \<in> registering h \<Longrightarrow> \<exists>g m x t. pending h g = Some (m, x, t) \<and> mf_ID m = i"
  shows "host_inv cfg h"
proof -
  have "plugins_ok cfg h" unfolding plugins_ok_def using assms(1) by blast
  moreover have "pending_ok cfg h" unfolding pending_ok_def
    by (intro conjI allI impI ballI) (use assms(2-5) in blast)+
  ultimately show ?thesis by (simp add: host_inv_def)
qed

lemma host_invD:
  assumes "host_inv cfg h"
  shows "plugins h i = Some l \<Longrightarrow> mf_ID (ld_Manifest l) = i \<and>
      mf_Trust (ld_Manifest l) = ld_Trust l \<and> admitted cfg (ld_Manifest l) (ld_Trust l)"
    and "pending h g = Some (m, x, t) \<Longrightarrow> mf_ID m \<in> registering h \<and> admitted cfg m t"
    and "pending h g = Some (m, x, t) \<Longrightarrow> pending h g' = Some (m', x', t') \<Longrightarrow> mf_ID m = mf_ID m' \<Longrightarrow> g = g'"
    and "i \<in> registering h \<Longrightarrow> plugins h i = None"
    and "i \<in> registering h \<Longrightarrow> \<exists>g m x t. pending h g = Some (m, x, t) \<and> mf_ID m = i"
  using assms unfolding host_inv_def plugins_ok_def pending_ok_def by blast+

lemma host_inv_cong:
  assumes "host_inv cfg h" "plugins h' = plugins h" "registering h' = registering h" "pending h' = pending h"
  shows "host_inv cfg h'"
  using assms(1) unfolding host_inv_def plugins_ok_def pending_ok_def assms(2-4) .

lemma emit_fields [simp]: "plugins (emit k i e h) = plugins h" "registering (emit k i e h) = registering h"
  "pending (emit k i e h) = pending h" "stopping (emit k i e h) = stopping h"
  by (simp_all add: emit_def)

lemma approval_error_none:
  "approval_error cfg m trust = None \<longleftrightarrow> (trust \<in> {TrustCommunity, TrustUntrusted} \<longrightarrow>
     (\<exists>hook. approval cfg = Some hook \<and> hook m trust = None))"
  by (auto simp: approval_error_def split: option.splits)

lemma admittedI:
  assumes "Manifest_Validate (Some m) = None" "checkAPIMajor (mf_APIVersion m) CurrentAPIVersion"
    "checkPlatform (goos cfg) (mf_Platforms m)" "approval_error cfg m trust = None"
  shows "admitted cfg m trust"
proof -
  have "m\<lparr>mf_Trust := mf_Trust m\<rparr> = m" by simp
  then have "\<exists>hook t. approval cfg = Some hook \<and> hook (m\<lparr>mf_Trust := t\<rparr>) trust = None"
    if "trust \<in> {TrustCommunity, TrustUntrusted}"
    using assms(4) [unfolded approval_error_none] that by metis
  with assms(1-3) show ?thesis unfolding admitted_def by blast
qed

lemma Register_begin_ok:
  assumes r: "Register_begin cfg g m module trust h = Inr h'"
  obtains x where "module = Some x" "admitted cfg m trust" "plugins h (mf_ID m) = None"
    "mf_ID m \<notin> registering h"
    "h' = h\<lparr>registering := insert (mf_ID m) (registering h), pending := (pending h)(g \<mapsto> (m, x, trust))\<rparr>"
proof -
  obtain x where x: "module = Some x" using r unfolding Register_begin_def by (cases module) simp_all
  note r1 = r [unfolded Register_begin_def x option.case]
  obtain v: "Manifest_Validate (Some m) = None"
    using r1 by (cases "Manifest_Validate (Some m)") simp_all
  note r2 = r1 [unfolded v option.case]
  have c: "checkAPIMajor (mf_APIVersion m) CurrentAPIVersion"
    by (rule ccontr) (use r2 in \<open>simp only: not_False_eq_True if_True Inl_Inr_False\<close>)
  note r3 = r2 [unfolded eqTrueI [OF c] not_True_eq_False if_False]
  have p: "checkPlatform (goos cfg) (mf_Platforms m)"
    by (rule ccontr) (use r3 in \<open>simp only: not_False_eq_True if_True Inl_Inr_False\<close>)
  note r4 = r3 [unfolded eqTrueI [OF p] not_True_eq_False if_False]
  have a: "approval_error cfg m trust = None"
    using r4 by (cases "approval_error cfg m trust") simp_all
  note r5 = r4 [unfolded a option.case]
  have l: "plugins h (mf_ID m) = None"
    by (rule ccontr) (use r5 in \<open>simp only: not_False_eq_True if_True Inl_Inr_False\<close>)
  note r6 = r5 [unfolded l]
  have n: "mf_ID m \<notin> registering h"
    by (rule ccontr) (use r6 in simp)
  show ?thesis
    by (rule that [OF x admittedI [OF v c p a] l n]) (use r6 n in simp)
qed

lemma Register_begin_inv [inv_intros]:
  assumes i: "host_inv cfg h" and g: "pending h g = None"
    and r: "Register_begin cfg g m module trust h = Inr h'"
  shows "host_inv cfg h'"
proof -
  obtain x where x: "admitted cfg m trust" "plugins h (mf_ID m) = None" "mf_ID m \<notin> registering h"
    and h': "h' = h\<lparr>registering := insert (mf_ID m) (registering h), pending := (pending h)(g \<mapsto> (m, x, trust))\<rparr>"
    using r by (rule Register_begin_ok)
  note d = host_invD [OF i]
  have old: "pending h k = Some (m', x', t') \<and> k \<noteq> g \<or> k = g \<and> m' = m \<and> t' = trust"
    if "pending h' k = Some (m', x', t')" for k m' x' t'
    using that by (simp add: h' split: if_splits)
  show ?thesis
  proof (rule host_invI, goal_cases)
    case (1 j l) then show ?case using d(1) [of j l] by (simp add: h')
  next
    case (2 k m' x' t')
    from old [OF 2] show ?case using d(2) [of k m' x' t'] x(1) by (auto simp: h')
  next
    case (3 k k' m1 x1 t1 m2 x2 t2)
    from old [OF 3(1)] old [OF 3(2)] show ?case
      using d(3) [of k m1 x1 t1 k' m2 x2 t2] d(2) [of k m1 x1 t1] d(2) [of k' m2 x2 t2] x(3) 3(3)
      by metis
  next
    case (4 j) then show ?case using d(4) [of j] x(2) by (auto simp: h')
  next
    case (5 j)
    show ?case
    proof (cases "j = mf_ID m")
      case True
      then show ?thesis by (intro exI [of _ g]) (simp add: h')
    next
      case False
      with 5 obtain k m' x' t' where k: "pending h k = Some (m', x', t')" "mf_ID m' = j"
        using d(5) [of j] by (auto simp: h')
      with g have "k \<noteq> g" by auto
      with k show ?thesis by (intro exI [of _ k]) (simp add: h')
    qed
  qed
qed

text \<open>Giving the reservation back, and what a plugin that passed \<open>Init\<close> adds.\<close>

lemma drop_pending_inv:
  assumes i: "host_inv cfg h" and g: "pending h g = Some (m, x, t)"
  shows "host_inv cfg (h\<lparr>registering := registering h - {mf_ID m}, pending := (pending h)(g := None)\<rparr>)"
proof (rule host_invI, goal_cases)
  note d = host_invD [OF i]
  case (1 j l) then show ?case using d(1) by simp
next
  note d = host_invD [OF i]
  case (2 k m' x' t')
  then show ?case using d(2) [of k m' x' t'] d(3) [of k m' x' t' g m x t] g by (auto split: if_splits)
next
  note d = host_invD [OF i]
  case (3 k k' m1 x1 t1 m2 x2 t2)
  then show ?case using d(3) [of k m1 x1 t1 k' m2 x2 t2] by (auto split: if_splits)
next
  note d = host_invD [OF i]
  case (4 j) then show ?case using d(4) by simp
next
  note d = host_invD [OF i]
  case (5 j)
  then obtain k m' x' t' where k: "pending h k = Some (m', x', t')" "mf_ID m' = j" "j \<noteq> mf_ID m"
    using d(5) [of j] by auto
  with g have "k \<noteq> g" by auto
  with k show ?case by (intro exI [of _ k]) simp
qed

lemma add_plugin_inv:
  assumes i: "host_inv cfg h" and a: "admitted cfg (ld_Manifest l) (ld_Trust l)"
    and m: "mf_ID (ld_Manifest l) \<notin> registering h" "mf_Trust (ld_Manifest l) = ld_Trust l"
  shows "host_inv cfg (h\<lparr>plugins := (plugins h)(mf_ID (ld_Manifest l) \<mapsto> l)\<rparr>)"
proof (rule host_invI, goal_cases)
  case (1 j k) then show ?case using host_invD(1) [OF i, of j k] a m by (auto split: if_splits)
next
  case (2 g m x t) then show ?case using host_invD(2) [OF i] by simp
next
  case (3 g g' m x t m' x' t') then show ?case using host_invD(3) [OF i] by simp
next
  case (4 j) then show ?case using host_invD(4) [OF i, of j] m(1) by auto
next
  case (5 j) then show ?case using host_invD(5) [OF i] by simp
qed

text \<open>
  A reserved ID stays free until its registration ends, so the second duplicate check never
  fires: after \<open>Init\<close> succeeds the plugin becomes active.
\<close>

lemma Register_finish_cases:
  assumes i: "host_inv cfg h" and g: "pending h g = Some (m, x, t)"
  defines "h1 \<equiv> h\<lparr>registering := registering h - {mf_ID m}, pending := (pending h)(g := None)\<rparr>"
  shows "Register_finish cfg g e h =
    (case (if lifecycle cfg x then e else None) of
       Some err \<Rightarrow> (Some (InitFailed err), emit EventCrashed (mf_ID m) (Some err) h1)
     | None \<Rightarrow> (None, emit EventLoaded (mf_ID m) None (h1\<lparr>plugins := (plugins h)(mf_ID m \<mapsto>
         \<lparr>ld_Manifest = m\<lparr>mf_Trust := t\<rparr>, ld_Module = x, ld_Trust = t\<rparr>)\<rparr>)))"
proof -
  have "plugins h (mf_ID m) = None"
    using host_invD(2) [OF i g] host_invD(4) [OF i] by blast
  with g show ?thesis
    by (cases "if lifecycle cfg x then e else None") (simp_all add: Register_finish_def h1_def Let_def)
qed

lemma Register_finish_inv [inv_intros]:
  assumes i: "host_inv cfg h"
  shows "host_inv cfg (snd (Register_finish cfg g e h))"
proof (cases "pending h g")
  case None
  with i show ?thesis by (simp add: Register_finish_def)
next
  case (Some p)
  then obtain m x t where p: "pending h g = Some (m, x, t)" by (cases p) auto
  let ?h = "h\<lparr>registering := registering h - {mf_ID m}, pending := (pending h)(g := None)\<rparr>"
  let ?l = "\<lparr>ld_Manifest = m\<lparr>mf_Trust := t\<rparr>, ld_Module = x, ld_Trust = t\<rparr>"
  have h1: "host_inv cfg ?h" by (rule drop_pending_inv [OF i p])
  have a: "admitted cfg (m\<lparr>mf_Trust := t\<rparr>) t"
    using host_invD(2) [OF i p] by (intro admitted_trust) simp
  have h2: "host_inv cfg (?h\<lparr>plugins := (plugins ?h)(mf_ID (ld_Manifest ?l) \<mapsto> ?l)\<rparr>)"
    by (rule add_plugin_inv [OF h1]) (simp_all add: a)
  show ?thesis
    unfolding Register_finish_cases [OF i p]
    using host_inv_cong [OF h1] host_inv_cong [OF h2] by (auto split: option.splits)
qed

lemma Unregister_begin_inv [inv_intros]:
  fixes h :: "'m Host"
  assumes i: "host_inv cfg h" and r: "Unregister_begin g j h = Inr h'"
  shows "host_inv cfg h'"
proof -
  from r obtain l where l: "plugins h j = Some l" by (cases "plugins h j") (simp_all add: Unregister_begin_def)
  with r have h': "h' = h\<lparr>plugins := (plugins h)(j := None),
      stopping := (stopping h)(g \<mapsto> (j, ld_Module l))\<rparr>"
    by (simp add: Unregister_begin_def)
  note d = host_invD [OF i]
  show ?thesis unfolding h'
  proof (rule host_invI, goal_cases)
    case (1 k l) then show ?case using d(1) [of k l] by (simp split: if_splits)
  next
    case (2 g m x t) then show ?case using d(2) by simp
  next
    case (3 g g' m x t m' x' t') then show ?case using d(3) by simp
  next
    case (4 k) then show ?case using d(4) by simp
  next
    case (5 k) then show ?case using d(5) by simp
  qed
qed

lemma Unregister_finish_inv [inv_intros]:
  assumes i: "host_inv cfg h" shows "host_inv cfg (snd (Unregister_finish cfg g e h))"
  by (rule host_inv_cong [OF i])
    (auto simp: Unregister_finish_def Let_def split: option.splits prod.splits)

interpretation host_sys: invariant_system "\<lambda>h. h = New_host" "host_step cfg" "host_inv cfg"
  for cfg :: "'m HostConfig"
proof
  show "h = New_host \<Longrightarrow> host_inv cfg h" for h :: "'m Host"
    by (rule host_invI) (simp_all add: New_host_def)
  show "host_inv cfg h \<Longrightarrow> host_step cfg h h' \<Longrightarrow> host_inv cfg h'" for h h' :: "'m Host"
    by (erule host_stepE) (auto intro: inv_intros)
qed

text \<open>A capability is granted exactly when an active plugin declares it.\<close>

lemma EnforceCapability_iff:
  "EnforceCapability i c h = None \<longleftrightarrow> (\<exists>l. plugins h i = Some l \<and> c \<in> set (mf_Capabilities (ld_Manifest l)))"
  by (auto simp: EnforceCapability_def Get_def HasCapability_def list_ex_iff split: option.splits)

subsection \<open>Registries on top of the host\<close>

text \<open>
  The credential and the protocol host keep a map of their own from IDs to modules, filled
  after \<open>Register\<close> returned (\<open>adding\<close>: the goroutines in between). What both rely on: only
  valid manifests of the registry's kind get in, under their own ID, and never a nil module.
\<close>

definition valid_manifest :: "string \<Rightarrow> Manifest \<Rightarrow> bool" where
  "valid_manifest kind m \<longleftrightarrow> mf_Kind m = kind \<and> Manifest_Validate (Some m) = None"

definition reg_inv :: "'m HostConfig \<Rightarrow> ('m \<Rightarrow> Manifest) \<Rightarrow> string \<Rightarrow> 'm Host \<Rightarrow> (nat \<rightharpoonup> 'm) \<Rightarrow>
    (string \<rightharpoonup> 'm option) \<Rightarrow> bool" where
  "reg_inv pc man kind p addg mods \<longleftrightarrow> host_inv pc p \<and>
     (\<forall>g m x t. pending p g = Some (m, x, t) \<longrightarrow> m = man x \<and> valid_manifest kind m) \<and>
     (\<forall>g x. addg g = Some x \<longrightarrow> valid_manifest kind (man x)) \<and>
     (\<forall>i q. mods i = Some q \<longrightarrow> (\<exists>x. q = Some x \<and> mf_ID (man x) = i \<and> valid_manifest kind (man x)))"

lemma reg_invI:
  assumes "host_inv pc p"
    "\<And>g m x t. pending p g = Some (m, x, t) \<Longrightarrow> m = man x \<and> valid_manifest kind m"
    "\<And>g x. addg g = Some x \<Longrightarrow> valid_manifest kind (man x)"
    "\<And>i q. mods i = Some q \<Longrightarrow> \<exists>x. q = Some x \<and> mf_ID (man x) = i \<and> valid_manifest kind (man x)"
  shows "reg_inv pc man kind p addg mods"
  unfolding reg_inv_def using assms by blast

lemma reg_invD:
  assumes "reg_inv pc man kind p addg mods"
  shows "host_inv pc p"
    and "pending p g = Some (m, x, t) \<Longrightarrow> m = man x \<and> valid_manifest kind m"
    and "addg g = Some x \<Longrightarrow> valid_manifest kind (man x)"
    and "mods i = Some q \<Longrightarrow> \<exists>x. q = Some x \<and> mf_ID (man x) = i \<and> valid_manifest kind (man x)"
  using assms unfolding reg_inv_def by blast+

lemma reg_inv_begin:
  assumes i: "reg_inv pc man kind p addg mods" and g: "pending p g = None"
    and r: "Register_begin pc g (man x) (Some x) trust p = Inr p'" and k: "mf_Kind (man x) = kind"
  shows "reg_inv pc man kind p' addg mods"
proof -
  obtain y where y: "Some x = Some y" "admitted pc (man x) trust"
    and p': "p' = p\<lparr>registering := insert (mf_ID (man x)) (registering p),
      pending := (pending p)(g \<mapsto> (man x, y, trust))\<rparr>"
    using r by (rule Register_begin_ok)
  have v: "valid_manifest kind (man x)" using k y(2) by (simp add: valid_manifest_def admitted_def)
  show ?thesis
  proof (rule reg_invI)
    show "host_inv pc p'" by (rule Register_begin_inv [OF reg_invD(1) [OF i] g r])
    show "m = man z \<and> valid_manifest kind m" if "pending p' h = Some (m, z, t)" for h m z t
      using that reg_invD(2) [OF i, of h m z t] v y(1) by (auto simp: p' split: if_splits)
  qed (use reg_invD(3,4) [OF i] in auto)
qed

text \<open>A step of the plugin host that starts no registration.\<close>

lemma reg_inv_ph:
  assumes i: "reg_inv pc man kind p addg mods" and p: "host_inv pc p'"
    and s: "\<And>g q. pending p' g = Some q \<Longrightarrow> pending p g = Some q"
  shows "reg_inv pc man kind p' addg mods"
proof (rule reg_invI)
  show "host_inv pc p'" by (rule p)
  show "m = man x \<and> valid_manifest kind m" if "pending p' g = Some (m, x, t)" for g m x t
    by (rule reg_invD(2) [OF i s [OF that]])
qed (use reg_invD(3,4) [OF i] in auto)

lemma Register_finish_pending:
  "pending (snd (Register_finish pc g e h)) k = Some q \<Longrightarrow> pending h k = Some q"
  by (auto simp: Register_finish_def Let_def split: option.splits if_splits prod.splits)

lemma Unregister_begin_pending:
  "Unregister_begin g j p = Inr p' \<Longrightarrow> pending p' k = Some q \<Longrightarrow> pending p k = Some q"
  by (cases "plugins p j") (auto simp: Unregister_begin_def)

lemma Unregister_finish_pending:
  "pending (snd (Unregister_finish pc g e p)) k = Some q \<Longrightarrow> pending p k = Some q"
  by (auto simp: Unregister_finish_def Let_def split: option.splits prod.splits)

lemma reg_inv_finish:
  assumes i: "reg_inv pc man kind p addg mods" and g: "pending p g = Some (m, x, t)"
  shows "reg_inv pc man kind (snd (Register_finish pc g e p)) addg mods"
    and "reg_inv pc man kind (snd (Register_finish pc g e p)) (addg(g \<mapsto> x)) mods"
proof -
  show r: "reg_inv pc man kind (snd (Register_finish pc g e p)) addg mods"
    by (rule reg_inv_ph [OF i Register_finish_inv [OF reg_invD(1) [OF i]]]) (rule Register_finish_pending)
  show "reg_inv pc man kind (snd (Register_finish pc g e p)) (addg(g \<mapsto> x)) mods"
    by (rule reg_invI [OF reg_invD(1,2) [OF r]])
      (use reg_invD(3,4) [OF i] reg_invD(2) [OF i g] in \<open>auto split: if_splits\<close>)
qed

lemma reg_inv_add:
  assumes i: "reg_inv pc man kind p addg mods" and x: "addg g = Some x"
  shows "reg_inv pc man kind p (addg(g := None)) (mods(mf_ID (man x) \<mapsto> Some x))"
  by (rule reg_invI [OF reg_invD(1,2) [OF i]])
    (use reg_invD(3,4) [OF i] reg_invD(3) [OF i x] in \<open>auto split: if_splits\<close>)

lemma reg_inv_remove:
  assumes i: "reg_inv pc man kind p addg mods"
  shows "reg_inv pc man kind p addg (mods(j := None))"
  by (rule reg_invI [OF reg_invD(1,2,3) [OF i]]) (use reg_invD(4) [OF i] in \<open>auto split: if_splits\<close>)

end
