(* ===== verification/CredentialHost.thy ===== *)
theory CredentialHost
  imports PluginHost Nodes
begin

text \<open>
  \<open>host/credential/host.go\<close>: providers on top of a plugin host, with panic isolation, failure
  counting and quarantine. A provider is a value of type \<open>'p\<close> whose manifest is \<open>man\<close>; what
  its methods do is the outcome handed to the second half of an operation, and a call that
  never returns stays in \<open>calls\<close>. Every critical section is one step; the plugin host is
  only used through this host. \<open>fail_log\<close> records the recorded failures and is read by no
  operation.
\<close>

subsection \<open>State\<close>

definition DefaultFailureWindow :: time where "DefaultFailureWindow = 60 * 10 ^ 9"
definition DefaultFailureThreshold :: int where "DefaultFailureThreshold = 3"
definition DefaultQuarantineFor :: time where "DefaultQuarantineFor = 5 * 60 * 10 ^ 9"
definition DefaultCallTimeout :: time where "DefaultCallTimeout = 10 * 10 ^ 9"

record CredConfig =
  failureThreshold :: int
  failureWindow :: time
  quarantineFor :: time

datatype Option =
    WithFailureThreshold int | WithFailureWindow time | WithQuarantineDuration time

fun apply_option :: "Option \<Rightarrow> CredConfig \<Rightarrow> CredConfig" where
  "apply_option (WithFailureThreshold n) c = (if n > 0 then c\<lparr>failureThreshold := n\<rparr> else c)"
| "apply_option (WithFailureWindow d) c = (if d > 0 then c\<lparr>failureWindow := d\<rparr> else c)"
| "apply_option (WithQuarantineDuration d) c = (if d > 0 then c\<lparr>quarantineFor := d\<rparr> else c)"

definition New_config :: "Option list \<Rightarrow> CredConfig" where
  "New_config opts = fold apply_option opts \<lparr>failureThreshold = DefaultFailureThreshold,
     failureWindow = DefaultFailureWindow, quarantineFor = DefaultQuarantineFor\<rparr>"

datatype AuditMsg =
    ResolveAttempt | ResolveDenied | ResolveDeniedNil | ResolveQuarantined | ResolveFailed | ResolveOk
  | UnlockDenied | UnlockFailed | UnlockOk | LockDenied | LockFailed | LockOk

record 'p CredHost =
  ph :: "'p Host"
  adding :: "nat \<rightharpoonup> 'p"
  providers :: "string \<rightharpoonup> 'p option"
  failures :: "string \<rightharpoonup> int"
  firstFailAt :: "string \<rightharpoonup> time"
  quarantined :: "string \<rightharpoonup> time"
  calls :: "nat \<rightharpoonup> Reference"
  audit :: "(AuditMsg \<times> string \<times> string) list"
  fail_log :: "(string \<times> time) list"

definition New_cred :: "'p CredHost" where
  "New_cred = \<lparr>ph = New_host, adding = Map.empty, providers = Map.empty, failures = Map.empty,
     firstFailAt = Map.empty, quarantined = Map.empty, calls = Map.empty, audit = [], fail_log = []\<rparr>"

datatype cred_error =
    ProviderNil | ErrWrongKind string string | PluginHostError host_error | EmptyProviderID
  | ErrProviderNotFound string | ErrQuarantined string time | ProviderError string

datatype 'a call_result = Returned 'a | Failed string | Panicked string

fun safeCall :: "'a call_result \<Rightarrow> string + 'a" where
  "safeCall (Returned x) = Inr x"
| "safeCall (Failed e) = Inl e"
| "safeCall (Panicked v) = Inl (''panic: '' @ v)"

definition log_audit :: "AuditMsg \<Rightarrow> string \<Rightarrow> string \<Rightarrow> 'p CredHost \<Rightarrow> 'p CredHost" where
  "log_audit msg i e h = h\<lparr>audit := audit h @ [(msg, i, e)]\<rparr>"

subsection \<open>Registration\<close>

definition cred_Register_begin :: "'p HostConfig \<Rightarrow> ('p \<Rightarrow> Manifest) \<Rightarrow> nat \<Rightarrow> 'p option \<Rightarrow> string \<Rightarrow>
    'p CredHost \<Rightarrow> cred_error + 'p CredHost" where
  "cred_Register_begin pc man g p trust h = (case p of None \<Rightarrow> Inl ProviderNil | Some x \<Rightarrow>
     (if mf_Kind (man x) \<noteq> KindCredential then Inl (ErrWrongKind (mf_ID (man x)) (mf_Kind (man x)))
      else (case Register_begin pc g (man x) (Some x) trust (ph h) of
          Inl e \<Rightarrow> Inl (PluginHostError e)
        | Inr ph' \<Rightarrow> Inr (h\<lparr>ph := ph'\<rparr>))))"

text \<open>The rest of \<open>ph.Register\<close>, for the provider \<open>x\<close> that goroutine \<open>g\<close> registers.\<close>

definition cred_Register_init :: "'p HostConfig \<Rightarrow> nat \<Rightarrow> 'p \<Rightarrow> string option \<Rightarrow> 'p CredHost \<Rightarrow>
    cred_error option \<times> 'p CredHost" where
  "cred_Register_init pc g x initErr h = (case Register_finish pc g initErr (ph h) of
       (Some e, ph') \<Rightarrow> (Some (PluginHostError e), h\<lparr>ph := ph'\<rparr>)
     | (None, ph') \<Rightarrow> (None, h\<lparr>ph := ph', adding := (adding h)(g \<mapsto> x)\<rparr>))"

definition cred_Register_add :: "('p \<Rightarrow> Manifest) \<Rightarrow> nat \<Rightarrow> 'p \<Rightarrow> 'p CredHost \<Rightarrow> 'p CredHost" where
  "cred_Register_add man g x h = h\<lparr>providers := (providers h)(mf_ID (man x) \<mapsto> Some x),
     adding := (adding h)(g := None)\<rparr>"

text \<open>\<open>Unregister\<close>: the host's own maps first, then \<open>ph.Unregister\<close>.\<close>

definition cred_Unregister_lock :: "string \<Rightarrow> 'p CredHost \<Rightarrow> 'p CredHost" where
  "cred_Unregister_lock i h = h\<lparr>providers := (providers h)(i := None), failures := (failures h)(i := None),
     firstFailAt := (firstFailAt h)(i := None), quarantined := (quarantined h)(i := None)\<rparr>"

definition Provider :: "string \<Rightarrow> 'p CredHost \<Rightarrow> 'p option option" where
  "Provider i h = providers h i"

definition Reinstate :: "string \<Rightarrow> 'p CredHost \<Rightarrow> 'p CredHost" where
  "Reinstate i h = h\<lparr>quarantined := (quarantined h)(i := None), failures := (failures h)(i := None),
     firstFailAt := (firstFailAt h)(i := None)\<rparr>"

subsection \<open>Resolving\<close>

definition isQuarantinedLocked :: "time \<Rightarrow> string \<Rightarrow> 'p CredHost \<Rightarrow> bool \<times> 'p CredHost" where
  "isQuarantinedLocked now i h = (case quarantined h i of
       None \<Rightarrow> (False, h)
     | Some until \<Rightarrow>
         if \<not> now < until then
           (False, h\<lparr>quarantined := (quarantined h)(i := None), failures := (failures h)(i := None),
                     firstFailAt := (firstFailAt h)(i := None)\<rparr>)
         else (True, h))"

text \<open>
  Up to the provider's call. The first component is the error \<open>Resolve\<close> returns at once, or
  the provider that goroutine \<open>g\<close> goes on to call with this timeout.
\<close>

definition call_timeout :: "time \<Rightarrow> time" where
  "call_timeout t = (if t \<le> 0 then DefaultCallTimeout else t)"

definition Resolve_begin :: "nat \<Rightarrow> time \<Rightarrow> Reference \<Rightarrow> time \<Rightarrow> 'p CredHost \<Rightarrow>
    (cred_error + 'p \<times> time) \<times> 'p CredHost" where
  "Resolve_begin g now ref timeout h0 = (let i = ProviderID ref; e = EntryID ref in
     if i = '''' then (Inl EmptyProviderID, h0)
     else (let h = log_audit ResolveAttempt i e h0 in
       case providers h i of
         None \<Rightarrow> (Inl (ErrProviderNotFound i), log_audit ResolveDenied i e h)
       | Some None \<Rightarrow> (Inl (ErrProviderNotFound i), log_audit ResolveDeniedNil i e h)
       | Some (Some p) \<Rightarrow>
           (let (q, h1) = isQuarantinedLocked now i h in
            if q then (Inl (ErrQuarantined i (the (quarantined h1 i))), log_audit ResolveQuarantined i e h1)
            else (Inr (p, call_timeout timeout), h1\<lparr>calls := (calls h1)(g \<mapsto> ref)\<rparr>))))"

definition recordSuccess :: "string \<Rightarrow> 'p CredHost \<Rightarrow> 'p CredHost" where
  "recordSuccess i h = h\<lparr>failures := (failures h)(i := None), firstFailAt := (firstFailAt h)(i := None)\<rparr>"

text \<open>\<open>time.Time.Sub\<close> saturates at the range of a 64-bit duration.\<close>

definition time_sub :: "time \<Rightarrow> time \<Rightarrow> time" where
  "time_sub t u = max (- (2 ^ 63)) (min (2 ^ 63 - 1) (t - u))"

definition bump_failure :: "CredConfig \<Rightarrow> time \<Rightarrow> string \<Rightarrow> 'p CredHost \<Rightarrow> 'p CredHost" where
  "bump_failure c now i h = (case firstFailAt h i of
       None \<Rightarrow> h\<lparr>failures := (failures h)(i \<mapsto> 1), firstFailAt := (firstFailAt h)(i \<mapsto> now)\<rparr>
     | Some first \<Rightarrow>
         if time_sub now first > failureWindow c
         then h\<lparr>failures := (failures h)(i \<mapsto> 1), firstFailAt := (firstFailAt h)(i \<mapsto> now)\<rparr>
         else h\<lparr>failures := (failures h)(i \<mapsto> (case failures h i of None \<Rightarrow> 0 | Some n \<Rightarrow> n) + 1)\<rparr>)"

definition recordFailure :: "CredConfig \<Rightarrow> time \<Rightarrow> string \<Rightarrow> string \<Rightarrow> 'p CredHost \<Rightarrow> 'p CredHost" where
  "recordFailure c now i cause h0 =
     (let h = bump_failure c now i (h0\<lparr>fail_log := fail_log h0 @ [(i, now)]\<rparr>) in
      if (case failures h i of None \<Rightarrow> 0 | Some n \<Rightarrow> n) \<ge> failureThreshold c
      then h\<lparr>quarantined := (quarantined h)(i \<mapsto> now + quarantineFor c),
             failures := (failures h)(i \<mapsto> 0), firstFailAt := (firstFailAt h)(i := None),
             ph := emit EventQuarantined i (Some cause) (ph h)\<rparr>
      else h)"

text \<open>After the provider's call returned, at time \<open>now\<close>.\<close>

definition Resolve_end :: "CredConfig \<Rightarrow> nat \<Rightarrow> time \<Rightarrow> 'm call_result \<Rightarrow> 'p CredHost \<Rightarrow>
    (cred_error + 'm) option \<times> 'p CredHost" where
  "Resolve_end c g now r h0 = (case calls h0 g of None \<Rightarrow> (None, h0) | Some ref \<Rightarrow>
     (let i = ProviderID ref; e = EntryID ref; h = h0\<lparr>calls := (calls h0)(g := None)\<rparr> in
      case safeCall r of
        Inl err \<Rightarrow> (Some (Inl (ProviderError err)), log_audit ResolveFailed i e (recordFailure c now i err h))
      | Inr m \<Rightarrow> (Some (Inr m), log_audit ResolveOk i e (recordSuccess i h))))"

subsection \<open>Forwarded operations\<close>

definition forward :: "AuditMsg \<Rightarrow> AuditMsg \<Rightarrow> AuditMsg \<Rightarrow> string \<Rightarrow> ('p option \<Rightarrow> unit call_result) \<Rightarrow>
    'p CredHost \<Rightarrow> cred_error option \<times> 'p CredHost" where
  "forward denied bad good i call h = (case Provider i h of
       None \<Rightarrow> (Some (ErrProviderNotFound i), log_audit denied i '''' h)
     | Some p \<Rightarrow> (case safeCall (call p) of
           Inl e \<Rightarrow> (Some (ProviderError e), log_audit bad i '''' h)
         | Inr _ \<Rightarrow> (None, log_audit good i '''' h)))"

definition Unlock :: "(string \<Rightarrow> time \<Rightarrow> 'p option \<Rightarrow> unit call_result) \<Rightarrow> string \<Rightarrow> string \<Rightarrow> time \<Rightarrow>
    'p CredHost \<Rightarrow> cred_error option \<times> 'p CredHost" where
  "Unlock call i pass timeout h = forward UnlockDenied UnlockFailed UnlockOk i (call pass (call_timeout timeout)) h"

definition Lock :: "(time \<Rightarrow> 'p option \<Rightarrow> unit call_result) \<Rightarrow> string \<Rightarrow> time \<Rightarrow>
    'p CredHost \<Rightarrow> cred_error option \<times> 'p CredHost" where
  "Lock call i timeout h = forward LockDenied LockFailed LockOk i (call (call_timeout timeout)) h"

definition StateNotConfigured :: string where "StateNotConfigured = ''not_configured''"
definition StateError :: string where "StateError = ''error''"

definition State :: "('p option \<Rightarrow> string call_result) \<Rightarrow> string \<Rightarrow> 'p CredHost \<Rightarrow> string" where
  "State call i h = (case Provider i h of None \<Rightarrow> StateNotConfigured
     | Some p \<Rightarrow> (case safeCall (call p) of Inl _ \<Rightarrow> StateError | Inr s \<Rightarrow> s))"

subsection \<open>Steps\<close>

inductive cred_step :: "'p HostConfig \<Rightarrow> CredConfig \<Rightarrow> ('p \<Rightarrow> Manifest) \<Rightarrow> 'p CredHost \<Rightarrow> 'p CredHost \<Rightarrow> bool"
  for pc c man where
  register: "pending (ph h) g = None \<Longrightarrow> adding h g = None \<Longrightarrow>
    cred_Register_begin pc man g p trust h = Inr h' \<Longrightarrow> cred_step pc c man h h'"
| init: "pending (ph h) g = Some (m, x, t) \<Longrightarrow> cred_step pc c man h (snd (cred_Register_init pc g x e h))"
| add: "adding h g = Some x \<Longrightarrow> cred_step pc c man h (cred_Register_add man g x h)"
| unregister: "cred_step pc c man h (cred_Unregister_lock i h)"
| ph_unregister: "stopping (ph h) g = None \<Longrightarrow> Unregister_begin g i (ph h) = Inr p \<Longrightarrow>
    cred_step pc c man h (h\<lparr>ph := p\<rparr>)"
| ph_shutdown: "stopping (ph h) g \<noteq> None \<Longrightarrow> cred_step pc c man h (h\<lparr>ph := snd (Unregister_finish pc g e (ph h))\<rparr>)"
| reinstate: "cred_step pc c man h (Reinstate i h)"
| check: "cred_step pc c man h (snd (isQuarantinedLocked now i h))"
| resolve: "calls h g = None \<Longrightarrow> cred_step pc c man h (snd (Resolve_begin g now ref timeout h))"
| answer: "calls h g \<noteq> None \<Longrightarrow> cred_step pc c man h (snd (Resolve_end c g now (r :: nat call_result) h))"
| unlock: "cred_step pc c man h (snd (Unlock ucall i pass timeout h))"
| lock: "cred_step pc c man h (snd (Lock lcall i timeout h))"

inductive_cases cred_stepE: "cred_step pc c man h h'"

subsection \<open>Invariant\<close>

lemma New_config_pos:
  "0 < failureThreshold (New_config opts) \<and> 0 < failureWindow (New_config opts) \<and> 0 < quarantineFor (New_config opts)"
proof -
  have "0 < failureThreshold (fold apply_option opts c) \<and> 0 < failureWindow (fold apply_option opts c) \<and>
      0 < quarantineFor (fold apply_option opts c)"
    if "0 < failureThreshold c \<and> 0 < failureWindow c \<and> 0 < quarantineFor c" for c
    using that
  proof (induction opts arbitrary: c)
    case (Cons p ps)
    then show ?case by (cases p) auto
  qed simp
  then show ?thesis
    by (simp add: New_config_def DefaultFailureThreshold_def DefaultFailureWindow_def DefaultQuarantineFor_def)
qed

text \<open>Who is registered: valid credential manifests only, under their own ID, never nil.\<close>

definition reg_ok :: "'p HostConfig \<Rightarrow> ('p \<Rightarrow> Manifest) \<Rightarrow> 'p CredHost \<Rightarrow> bool" where
  "reg_ok pc man h \<longleftrightarrow> reg_inv pc man KindCredential (ph h) (adding h) (providers h)"

text \<open>Failures of \<open>i\<close> at most a window after \<open>first\<close>.\<close>

definition recent :: "CredConfig \<Rightarrow> string \<Rightarrow> time \<Rightarrow> (string \<times> time) list \<Rightarrow> nat" where
  "recent c i first l = length (filter (\<lambda>(j, t). j = i \<and> time_sub t first \<le> failureWindow c) l)"

definition count_ok :: "CredConfig \<Rightarrow> (string \<times> time) list \<Rightarrow> string \<Rightarrow> time option \<Rightarrow> int option \<Rightarrow> bool" where
  "count_ok c l i first n \<longleftrightarrow> (case first of
       None \<Rightarrow> n = None \<or> n = Some 0
     | Some t \<Rightarrow> (\<exists>k. n = Some k \<and> 0 < k \<and> k < failureThreshold c \<and> k \<le> int (recent c i t l)))"

definition blame :: "CredConfig \<Rightarrow> (string \<times> time) list \<Rightarrow> string \<Rightarrow> time \<Rightarrow> bool" where
  "blame c l i until \<longleftrightarrow> (\<exists>first t. until = t + quarantineFor c \<and> (i, t) \<in> set l \<and>
     time_sub t first \<le> failureWindow c \<and> failureThreshold c \<le> int (recent c i first l))"

definition fail_ok :: "CredConfig \<Rightarrow> 'p CredHost \<Rightarrow> bool" where
  "fail_ok c h \<longleftrightarrow> (\<forall>i. count_ok c (fail_log h) i (firstFailAt h i) (failures h i)) \<and>
     (\<forall>i u. quarantined h i = Some u \<longrightarrow> blame c (fail_log h) i u)"

text \<open>Every attempt is answered by one audit record or still running.\<close>

definition outcomes :: "AuditMsg set" where
  "outcomes = {ResolveDenied, ResolveDeniedNil, ResolveQuarantined, ResolveFailed, ResolveOk}"

definition audit_ok :: "'p CredHost \<Rightarrow> bool" where
  "audit_ok h \<longleftrightarrow> finite (dom (calls h)) \<and>
     length (filter (\<lambda>(m, _). m = ResolveAttempt) (audit h)) =
     length (filter (\<lambda>(m, _). m \<in> outcomes) (audit h)) + card (dom (calls h))"

definition cred_inv :: "'p HostConfig \<Rightarrow> CredConfig \<Rightarrow> ('p \<Rightarrow> Manifest) \<Rightarrow> 'p CredHost \<Rightarrow> bool" where
  "cred_inv pc c man h \<longleftrightarrow> reg_ok pc man h \<and> fail_ok c h \<and> audit_ok h"

lemma reg_ok_cong:
  assumes "reg_ok pc man h" "ph h' = ph h" "adding h' = adding h" "providers h' = providers h"
  shows "reg_ok pc man h'"
  using assms(1) unfolding reg_ok_def assms(2-4) .

lemma fail_ok_cong:
  assumes "fail_ok c h" "failures h' = failures h" "firstFailAt h' = firstFailAt h"
    "quarantined h' = quarantined h" "fail_log h' = fail_log h"
  shows "fail_ok c h'"
  using assms(1) unfolding fail_ok_def assms(2-5) .

lemma audit_ok_cong:
  assumes "audit_ok h" "calls h' = calls h" "audit h' = audit h" shows "audit_ok h'"
  using assms(1) unfolding audit_ok_def assms(2-3) .

lemma fail_ok_clear:
  assumes "fail_ok c h" "failures h' = (failures h)(i := None)" "firstFailAt h' = (firstFailAt h)(i := None)"
    "quarantined h' = quarantined h \<or> quarantined h' = (quarantined h)(i := None)" "fail_log h' = fail_log h"
  shows "fail_ok c h'"
  using assms unfolding fail_ok_def by (auto simp: count_ok_def split: if_splits)

lemma log_audit_fields [simp]: "ph (log_audit m i e h) = ph h" "adding (log_audit m i e h) = adding h"
  "providers (log_audit m i e h) = providers h" "failures (log_audit m i e h) = failures h"
  "firstFailAt (log_audit m i e h) = firstFailAt h" "quarantined (log_audit m i e h) = quarantined h"
  "calls (log_audit m i e h) = calls h" "fail_log (log_audit m i e h) = fail_log h"
  "audit (log_audit m i e h) = audit h @ [(m, i, e)]"
  by (simp_all add: log_audit_def)

subsubsection \<open>Registration\<close>

lemma Register_begin_reg:
  assumes i: "reg_ok pc man h" and g: "pending (ph h) g = None"
    and r: "cred_Register_begin pc man g p trust h = Inr h'"
  shows "reg_ok pc man h'"
proof -
  obtain x ph' where x: "mf_Kind (man x) = KindCredential"
    "Register_begin pc g (man x) (Some x) trust (ph h) = Inr ph'" "h' = h\<lparr>ph := ph'\<rparr>"
    using r by (auto simp: cred_Register_begin_def split: option.splits if_splits sum.splits)
  with reg_inv_begin [OF i [unfolded reg_ok_def] g x(2,1)] show ?thesis by (simp add: reg_ok_def)
qed

lemma reg_ok_ph:
  assumes "reg_ok pc man h" "host_inv pc p"
    "\<And>g q. pending p g = Some q \<Longrightarrow> pending (ph h) g = Some q"
  shows "reg_ok pc man (h\<lparr>ph := p\<rparr>)"
  using reg_inv_ph [OF assms(1) [unfolded reg_ok_def] assms(2,3)] by (simp add: reg_ok_def)

lemma Register_init_reg:
  assumes i: "reg_ok pc man h" and g: "pending (ph h) g = Some (m, x, t)"
  shows "reg_ok pc man (snd (cred_Register_init pc g x e h))"
  using reg_inv_finish [OF i [unfolded reg_ok_def] g, of e]
  by (cases "Register_finish pc g e (ph h)") (auto simp: cred_Register_init_def reg_ok_def split: option.splits)

lemma Register_add_reg:
  assumes "reg_ok pc man h" "adding h g = Some x"
  shows "reg_ok pc man (cred_Register_add man g x h)"
  using reg_inv_add [OF assms [unfolded reg_ok_def]] by (simp add: cred_Register_add_def reg_ok_def)

lemma Unregister_lock_reg:
  assumes "reg_ok pc man h" shows "reg_ok pc man (cred_Unregister_lock j h)"
  using reg_inv_remove [OF assms [unfolded reg_ok_def]] by (simp add: cred_Unregister_lock_def reg_ok_def)

lemma emit_reg:
  assumes i: "reg_ok pc man h" shows "reg_ok pc man (h\<lparr>ph := emit k j e (ph h)\<rparr>)"
  by (rule reg_ok_ph [OF i host_inv_cong [OF reg_invD(1) [OF i [unfolded reg_ok_def]]]]) simp_all

subsubsection \<open>Counting\<close>

lemma recent_append [simp]:
  "recent c i first (l @ [(j, t)]) =
    recent c i first l + (if j = i \<and> time_sub t first \<le> failureWindow c then 1 else 0)"
  by (simp add: recent_def)

lemma count_ok_mono:
  assumes "count_ok c l j first n" shows "count_ok c (l @ [e]) j first n"
proof (cases e)
  case (Pair i t)
  with assms show ?thesis by (cases first) (auto simp: count_ok_def)
qed

lemma blame_mono: "blame c l j u \<Longrightarrow> blame c (l @ [e]) j u"
proof -
  assume "blame c l j u"
  then obtain first t where "u = t + quarantineFor c" "(j, t) \<in> set l"
    "time_sub t first \<le> failureWindow c" "failureThreshold c \<le> int (recent c j first l)"
    unfolding blame_def by blast
  then show ?thesis unfolding blame_def
    by (intro exI [of _ first] exI [of _ t]) (cases e, auto)
qed

text \<open>The counter after one more failure, before the threshold is tested.\<close>

lemma bump_failure_count:
  assumes pos: "0 < failureWindow c"
    and ok: "\<And>j. count_ok c l j (firstFailAt h j) (failures h j)"
    and b_def: "b = bump_failure c now i h"
  shows "\<exists>first k. firstFailAt b = (firstFailAt h)(i \<mapsto> first) \<and> failures b = (failures h)(i \<mapsto> k) \<and>
    0 < k \<and> k \<le> int (recent c i first (l @ [(i, now)])) \<and> time_sub now first \<le> failureWindow c \<and>
    k = (case failures h i of None \<Rightarrow> 1 | Some n \<Rightarrow>
      if firstFailAt h i = None \<or> time_sub now (the (firstFailAt h i)) > failureWindow c then 1 else n + 1)"
proof (cases "\<exists>first. firstFailAt h i = Some first \<and> \<not> time_sub now first > failureWindow c")
  case True
  then obtain first where f: "firstFailAt h i = Some first" "\<not> time_sub now first > failureWindow c" by blast
  with ok [of i] obtain n where n: "failures h i = Some n" "0 < n" "n \<le> int (recent c i first l)"
    by (auto simp: count_ok_def)
  have "(firstFailAt h)(i \<mapsto> first) = firstFailAt h" using f(1) by (simp add: map_upd_triv)
  with f n show ?thesis
    by (intro exI [of _ first] exI [of _ "n + 1"]) (simp add: b_def bump_failure_def)
next
  case False
  have z: "time_sub now now = 0" by (simp add: time_sub_def)
  have b: "b = h\<lparr>failures := (failures h)(i \<mapsto> 1), firstFailAt := (firstFailAt h)(i \<mapsto> now)\<rparr>"
    using False by (auto simp: b_def bump_failure_def split: option.splits)
  show ?thesis
    using False pos by (intro exI [of _ now] exI [of _ 1]) (auto simp: b z split: option.splits)
qed

lemma recordFailure_fail:
  assumes pos: "0 < failureThreshold c" "0 < failureWindow c" and i: "fail_ok c h"
  shows "fail_ok c (recordFailure c now j cause h)"
proof -
  let ?h = "h\<lparr>fail_log := fail_log h @ [(j, now)]\<rparr>"
  let ?b = "bump_failure c now j ?h"
  let ?l = "fail_log h @ [(j, now)]"
  have ok: "count_ok c (fail_log h) k (firstFailAt h k) (failures h k)"
    and q: "quarantined h k = Some u \<Longrightarrow> blame c (fail_log h) k u" for k u
    using i by (simp_all add: fail_ok_def)
  obtain first n where b: "firstFailAt ?b = (firstFailAt h)(j \<mapsto> first)" "failures ?b = (failures h)(j \<mapsto> n)"
    "0 < n" "n \<le> int (recent c j first ?l)" "time_sub now first \<le> failureWindow c"
    using bump_failure_count [where c = c and h = ?h and l = "fail_log h" and now = now and i = j, OF _ _ refl] pos(2) ok
    by auto
  have f: "quarantined ?b = quarantined h" "fail_log ?b = ?l"
    by (auto simp: bump_failure_def split: option.splits)
  show ?thesis
  proof (cases "n \<ge> failureThreshold c")
    case True
    have "blame c ?l j (now + quarantineFor c)" unfolding blame_def
      using True b by (intro exI [of _ first] exI [of _ now]) simp
    with True b f ok q pos show ?thesis
      by (auto simp: fail_ok_def recordFailure_def Let_def intro: count_ok_mono blame_mono)
        (simp add: count_ok_def)
  next
    case False
    have "count_ok c ?l j (Some first) (Some n)" using False b by (simp add: count_ok_def)
    with False b f ok q show ?thesis
      by (auto simp: fail_ok_def recordFailure_def Let_def intro: count_ok_mono blame_mono)
  qed
qed

lemma recordFailure_fields [simp]:
  "adding (recordFailure c now i e h) = adding h" "providers (recordFailure c now i e h) = providers h"
  "calls (recordFailure c now i e h) = calls h" "audit (recordFailure c now i e h) = audit h"
  by (auto simp: recordFailure_def bump_failure_def Let_def split: option.splits)

lemma recordFailure_ph:
  "ph (recordFailure c now i e h) = ph h \<or> ph (recordFailure c now i e h) = emit EventQuarantined i (Some e) (ph h)"
  by (auto simp: recordFailure_def bump_failure_def Let_def split: option.splits)

lemma recordFailure_reg:
  assumes i: "reg_ok pc man h" shows "reg_ok pc man (recordFailure c now j e h)"
proof -
  have "reg_ok pc man (h\<lparr>ph := ph (recordFailure c now j e h)\<rparr>)"
    using recordFailure_ph [of c now j e h] emit_reg [OF i] i by auto
  then show ?thesis by (rule reg_ok_cong) simp_all
qed

subsubsection \<open>Every step\<close>

lemma isQuarantinedLocked_fields [simp]:
  "ph (snd (isQuarantinedLocked now i h)) = ph h" "adding (snd (isQuarantinedLocked now i h)) = adding h"
  "providers (snd (isQuarantinedLocked now i h)) = providers h"
  "calls (snd (isQuarantinedLocked now i h)) = calls h" "audit (snd (isQuarantinedLocked now i h)) = audit h"
  by (auto simp: isQuarantinedLocked_def split: option.splits)

lemma isQuarantinedLocked_fail:
  assumes "fail_ok c h" shows "fail_ok c (snd (isQuarantinedLocked now i h))"
proof (cases "\<exists>u. quarantined h i = Some u \<and> \<not> now < u")
  case True
  then show ?thesis
    by (intro fail_ok_clear [OF assms, of _ i]) (auto simp: isQuarantinedLocked_def)
next
  case False
  then have "snd (isQuarantinedLocked now i h) = h"
    by (auto simp: isQuarantinedLocked_def split: option.splits)
  with assms show ?thesis by simp
qed

lemma Resolve_begin_cases:
  obtains (empty) "ProviderID ref = ''''" "snd (Resolve_begin g now ref t h) = h"
  | (denied) m where "m \<in> {ResolveDenied, ResolveDeniedNil}" "snd (Resolve_begin g now ref t h) =
      log_audit m (ProviderID ref) (EntryID ref) (log_audit ResolveAttempt (ProviderID ref) (EntryID ref) h)"
  | (stopped) h1 where "h1 = snd (isQuarantinedLocked now (ProviderID ref)
        (log_audit ResolveAttempt (ProviderID ref) (EntryID ref) h))"
      "snd (Resolve_begin g now ref t h) = log_audit ResolveQuarantined (ProviderID ref) (EntryID ref) h1"
  | (called) h1 where "h1 = snd (isQuarantinedLocked now (ProviderID ref)
        (log_audit ResolveAttempt (ProviderID ref) (EntryID ref) h))"
      "snd (Resolve_begin g now ref t h) = h1\<lparr>calls := (calls h1)(g \<mapsto> ref)\<rparr>"
proof -
  let ?i = "ProviderID ref"
  let ?h = "log_audit ResolveAttempt ?i (EntryID ref) h"
  obtain q h1 where q: "isQuarantinedLocked now ?i ?h = (q, h1)" by fastforce
  then have h1: "h1 = snd (isQuarantinedLocked now ?i ?h)" by simp
  consider "?i = ''''" | "?i \<noteq> ''''" "providers h ?i = None" | "?i \<noteq> ''''" "providers h ?i = Some None"
    | p where "?i \<noteq> ''''" "providers h ?i = Some (Some p)"
    by (cases "?i = ''''"; cases "providers h ?i") auto
  then show thesis
  proof cases
    case 1 then show thesis by (intro empty) (simp_all add: Resolve_begin_def Let_def)
  next
    case 2 then show thesis by (intro denied [of ResolveDenied]) (simp_all add: Resolve_begin_def Let_def)
  next
    case 3 then show thesis by (intro denied [of ResolveDeniedNil]) (simp_all add: Resolve_begin_def Let_def)
  next
    case 4
    show thesis
    proof (cases q)
      case True
      with 4 q show thesis by (intro stopped [OF h1]) (simp add: Resolve_begin_def Let_def)
    next
      case False
      with 4 q show thesis by (intro called [OF h1]) (simp add: Resolve_begin_def Let_def)
    qed
  qed
qed

lemma Resolve_begin_inv:
  assumes i: "cred_inv pc c man h" and g: "calls h g = None"
  shows "cred_inv pc c man (snd (Resolve_begin g now ref t h))"
proof -
  from i have r: "reg_ok pc man h" and f: "fail_ok c h" and a: "audit_ok h" by (simp_all add: cred_inv_def)
  let ?h = "log_audit ResolveAttempt (ProviderID ref) (EntryID ref) h"
  have f1: "fail_ok c (snd (isQuarantinedLocked now (ProviderID ref) ?h))"
    by (rule isQuarantinedLocked_fail, rule fail_ok_cong [OF f]) simp_all
  show ?thesis
  proof (cases rule: Resolve_begin_cases [of ref g now t h])
    case empty
    with i show ?thesis by simp
  next
    case (denied m)
    then show ?thesis unfolding cred_inv_def denied(2)
      by (intro conjI reg_ok_cong [OF r] fail_ok_cong [OF f])
        (use a in \<open>auto simp: audit_ok_def outcomes_def\<close>)
  next
    case (stopped h1)
    then show ?thesis unfolding cred_inv_def stopped(2)
      by (intro conjI reg_ok_cong [OF r] fail_ok_cong [OF f1])
        (use a in \<open>simp_all add: audit_ok_def outcomes_def\<close>)
  next
    case (called h1)
    have "card (insert g (dom (calls h))) = Suc (card (dom (calls h)))"
      using a g by (simp add: audit_ok_def domIff)
    then show ?thesis unfolding cred_inv_def called(2)
      by (intro conjI reg_ok_cong [OF r] fail_ok_cong [OF f1])
        (use a in \<open>simp_all add: audit_ok_def outcomes_def called(1)\<close>)
  qed
qed

lemma Resolve_end_inv:
  assumes pos: "0 < failureThreshold c" "0 < failureWindow c"
    and i: "cred_inv pc c man h" and g: "calls h g \<noteq> None"
  shows "cred_inv pc c man (snd (Resolve_end c g now r h))"
proof -
  from i have rg: "reg_ok pc man h" and f: "fail_ok c h" and a: "audit_ok h" by (simp_all add: cred_inv_def)
  from g obtain ref where ref: "calls h g = Some ref" by blast
  let ?h = "h\<lparr>calls := (calls h)(g := None)\<rparr>"
  have r1: "reg_ok pc man ?h" by (rule reg_ok_cong [OF rg]) simp_all
  have f1: "fail_ok c ?h" by (rule fail_ok_cong [OF f]) simp_all
  have n: "card (dom (calls h)) = Suc (card (dom (calls h) - {g}))"
    using a ref by (intro card.remove) (auto simp: audit_ok_def)
  show ?thesis
  proof (cases "safeCall r")
    case (Inl err)
    then have eq: "snd (Resolve_end c g now r h) = log_audit ResolveFailed (ProviderID ref) (EntryID ref)
        (recordFailure c now (ProviderID ref) err ?h)"
      by (simp add: Resolve_end_def ref Let_def)
    show ?thesis unfolding cred_inv_def eq
    proof (intro conjI)
      show "reg_ok pc man (log_audit ResolveFailed (ProviderID ref) (EntryID ref)
          (recordFailure c now (ProviderID ref) err ?h))"
        by (rule reg_ok_cong [OF recordFailure_reg [OF r1]]) simp_all
      show "fail_ok c (log_audit ResolveFailed (ProviderID ref) (EntryID ref)
          (recordFailure c now (ProviderID ref) err ?h))"
        by (rule fail_ok_cong [OF recordFailure_fail [OF pos f1]]) simp_all
    qed (use a n in \<open>simp add: audit_ok_def outcomes_def\<close>)
  next
    case (Inr m)
    then have eq: "snd (Resolve_end c g now r h) = log_audit ResolveOk (ProviderID ref) (EntryID ref)
        (recordSuccess (ProviderID ref) ?h)"
      by (simp add: Resolve_end_def ref Let_def)
    show ?thesis unfolding cred_inv_def eq
      by (intro conjI reg_ok_cong [OF r1] fail_ok_clear [OF f1, of _ "ProviderID ref"])
        (use a n in \<open>simp_all add: recordSuccess_def audit_ok_def outcomes_def\<close>)
  qed
qed

lemma forward_state:
  "\<exists>m \<in> {denied, bad, good}. snd (forward denied bad good i call h) = log_audit m i '''' h"
  by (auto simp: forward_def split: option.splits sum.splits)

lemma log_audit_inv:
  assumes "cred_inv pc c man h" "m \<notin> outcomes" "m \<noteq> ResolveAttempt"
  shows "cred_inv pc c man (log_audit m i e h)"
  using assms unfolding cred_inv_def
  by (auto simp: audit_ok_def intro: reg_ok_cong fail_ok_cong)

lemma forward_inv:
  assumes i: "cred_inv pc c man h" and m: "{denied, bad, good} \<inter> insert ResolveAttempt outcomes = {}"
  shows "cred_inv pc c man (snd (forward denied bad good j call h))"
proof -
  obtain k where "k \<in> {denied, bad, good}" "snd (forward denied bad good j call h) = log_audit k j '''' h"
    using forward_state [of denied bad good j call h] by blast
  with m log_audit_inv [OF i, of k] show ?thesis by auto
qed

lemma cred_step_inv:
  assumes pos: "0 < failureThreshold c" "0 < failureWindow c"
    and i: "cred_inv pc c man h" and s: "cred_step pc c man h h'"
  shows "cred_inv pc c man h'"
proof -
  from i have r: "reg_ok pc man h" and f: "fail_ok c h" and a: "audit_ok h" by (simp_all add: cred_inv_def)
  have ph: "cred_inv pc c man (h\<lparr>ph := p\<rparr>)"
    if "host_inv pc p" "\<And>g q. pending p g = Some q \<Longrightarrow> pending (ph h) g = Some q" for p
    unfolding cred_inv_def
    by (intro conjI reg_ok_ph [OF r] fail_ok_cong [OF f] audit_ok_cong [OF a]) (use that in auto)
  from s show ?thesis
  proof cases
    case (register g p trust)
    have "failures h' = failures h \<and> firstFailAt h' = firstFailAt h \<and> quarantined h' = quarantined h \<and>
        fail_log h' = fail_log h \<and> calls h' = calls h \<and> audit h' = audit h"
      using register(3) by (auto simp: cred_Register_begin_def split: option.splits if_splits sum.splits)
    with Register_begin_reg [OF r register(1,3)] show ?thesis
      by (auto simp: cred_inv_def intro: fail_ok_cong [OF f] audit_ok_cong [OF a])
  next
    case (init g m x t e)
    have "reg_ok pc man h'" unfolding init(1) by (rule Register_init_reg [OF r init(2)])
    then show ?thesis unfolding cred_inv_def init(1)
      by (auto simp: cred_Register_init_def split: prod.splits option.splits
          intro: fail_ok_cong [OF f] audit_ok_cong [OF a])
  next
    case (add g x)
    show ?thesis unfolding cred_inv_def add(1)
      by (intro conjI Register_add_reg [OF r add(2)] fail_ok_cong [OF f] audit_ok_cong [OF a])
        (simp_all add: cred_Register_add_def)
  next
    case (unregister j)
    show ?thesis unfolding cred_inv_def unregister
      by (intro conjI Unregister_lock_reg [OF r] fail_ok_clear [OF f, of _ j] audit_ok_cong [OF a])
        (simp_all add: cred_Unregister_lock_def)
  next
    case (ph_unregister g j p)
    show ?thesis unfolding ph_unregister(1)
      by (rule ph [OF Unregister_begin_inv [OF reg_invD(1) [OF r [unfolded reg_ok_def]] ph_unregister(3)]
            Unregister_begin_pending [OF ph_unregister(3)]])
  next
    case (ph_shutdown g e)
    show ?thesis unfolding ph_shutdown(1)
      by (rule ph [OF Unregister_finish_inv [OF reg_invD(1) [OF r [unfolded reg_ok_def]]] Unregister_finish_pending])
  next
    case (reinstate j)
    show ?thesis unfolding cred_inv_def reinstate
      by (intro conjI reg_ok_cong [OF r] fail_ok_clear [OF f, of _ j] audit_ok_cong [OF a])
        (simp_all add: Reinstate_def)
  next
    case (check now j)
    show ?thesis unfolding cred_inv_def check
      by (intro conjI reg_ok_cong [OF r] isQuarantinedLocked_fail [OF f] audit_ok_cong [OF a]) simp_all
  next
    case (resolve g now ref t)
    show ?thesis unfolding resolve(1) by (rule Resolve_begin_inv [OF i resolve(2)])
  next
    case (answer g now x)
    show ?thesis unfolding answer(1) by (rule Resolve_end_inv [OF pos i answer(2)])
  next
    case (unlock call j pass t)
    show ?thesis unfolding unlock Unlock_def by (rule forward_inv [OF i]) (simp add: outcomes_def)
  next
    case (lock call j t)
    show ?thesis unfolding lock Lock_def by (rule forward_inv [OF i]) (simp add: outcomes_def)
  qed
qed

interpretation cred_sys: invariant_system "\<lambda>h. h = New_cred" "cred_step pc (New_config opts) man"
    "cred_inv pc (New_config opts) man" for pc :: "'p HostConfig" and opts man
proof
  show "h = New_cred \<Longrightarrow> cred_inv pc (New_config opts) man h" for h :: "'p CredHost"
    using host_sys.inv_init [of New_host pc]
    by (auto simp: cred_inv_def reg_ok_def reg_inv_def fail_ok_def audit_ok_def New_cred_def count_ok_def New_host_def)
  show "cred_inv pc (New_config opts) man h \<Longrightarrow> cred_step pc (New_config opts) man h h' \<Longrightarrow>
      cred_inv pc (New_config opts) man h'" for h h' :: "'p CredHost"
    using cred_step_inv [of "New_config opts"] New_config_pos [of opts] by blast
qed

subsection \<open>Quarantine\<close>

text \<open>A registered provider is called exactly when no running quarantine stops it.\<close>

lemma Resolve_begin_gate:
  assumes "ProviderID ref = i" "i \<noteq> ''''" "providers h i = Some (Some p)"
  shows "fst (Resolve_begin g now ref t h) =
    (case quarantined h i of
       Some u \<Rightarrow> if now < u then Inl (ErrQuarantined i u) else Inr (p, call_timeout t)
     | None \<Rightarrow> Inr (p, call_timeout t))"
  using assms by (auto simp: Resolve_begin_def isQuarantinedLocked_def Let_def split: option.splits)

text \<open>Failures reported one after the other, with nothing between them.\<close>

definition fail_at :: "CredConfig \<Rightarrow> string \<Rightarrow> time list \<Rightarrow> 'p CredHost \<Rightarrow> 'p CredHost" where
  "fail_at c i ts h = fold (\<lambda>t. recordFailure c t i ''error'') ts h"

lemma recordFailure_first:
  assumes "firstFailAt h i = None" "1 < failureThreshold c"
  shows "failures (recordFailure c t i e h) i = Some 1" "firstFailAt (recordFailure c t i e h) i = Some t"
    "quarantined (recordFailure c t i e h) = quarantined h"
  using assms by (auto simp: recordFailure_def bump_failure_def Let_def)

lemma recordFailure_next:
  assumes "firstFailAt h i = Some t0" "failures h i = Some n" "time_sub t t0 \<le> failureWindow c"
  shows "n + 1 < failureThreshold c \<Longrightarrow> failures (recordFailure c t i e h) i = Some (n + 1) \<and>
      firstFailAt (recordFailure c t i e h) i = Some t0 \<and> quarantined (recordFailure c t i e h) = quarantined h"
    and "n + 1 \<ge> failureThreshold c \<Longrightarrow> quarantined (recordFailure c t i e h) i = Some (t + quarantineFor c)"
  using assms by (auto simp: recordFailure_def bump_failure_def Let_def)

lemma fail_at_quarantines_aux:
  assumes "firstFailAt h i = Some t0" "failures h i = Some n" "ts \<noteq> []"
    "\<And>t. t \<in> set ts \<Longrightarrow> time_sub t t0 \<le> failureWindow c" "n + int (length ts) = failureThreshold c"
  shows "quarantined (fail_at c i ts h) i = Some (last ts + quarantineFor c)"
  using assms
proof (induction ts arbitrary: h n)
  case (Cons t ts)
  have w: "time_sub t t0 \<le> failureWindow c" using Cons.prems(4) by simp
  show ?case
  proof (cases ts)
    case Nil
    then show ?thesis
      using recordFailure_next(2) [OF Cons.prems(1,2) w, of "''error''"] Cons.prems(5) by (simp add: fail_at_def)
  next
    case (Cons a as)
    let ?h = "recordFailure c t i ''error'' h"
    have "n + 1 < failureThreshold c" using Cons.prems(5) Cons by simp
    from recordFailure_next(1) [OF Cons.prems(1,2) w this, of "''error''"]
    have h: "firstFailAt ?h i = Some t0" "failures ?h i = Some (n + 1)" by simp_all
    have "quarantined (fail_at c i ts ?h) i = Some (last ts + quarantineFor c)"
      using Cons.prems Cons by (intro Cons.IH [OF h]) auto
    with Cons show ?thesis by (simp add: fail_at_def)
  qed
qed simp

text \<open>As many failures as the threshold, all within a window of the first, quarantine.\<close>

lemma fail_at_quarantines:
  assumes c: "firstFailAt h i = None" "int (length ts) = failureThreshold c" "1 < failureThreshold c"
    and w: "\<And>t. t \<in> set ts \<Longrightarrow> time_sub t (hd ts) \<le> failureWindow c"
  shows "quarantined (fail_at c i ts h) i = Some (last ts + quarantineFor c)"
proof -
  obtain t us where ts: "ts = t # us" "us \<noteq> []"
    using c(2,3) by (cases ts; cases "tl ts") auto
  let ?h = "recordFailure c t i ''error'' h"
  have "quarantined (fail_at c i us ?h) i = Some (last us + quarantineFor c)"
    using c w ts recordFailure_first(1,2) [OF c(1,3)]
    by (intro fail_at_quarantines_aux [where ?t0.0 = t and n = 1]) auto
  with ts show ?thesis by (simp add: fail_at_def)
qed

end
