(* ===== verification/ProtocolHost.thy ===== *)
theory ProtocolHost
  imports CredentialHost
begin

text \<open>
  \<open>host/protocol/host.go\<close>: protocol modules on top of a plugin host, and the session wrapper
  that turns panics into errors. A module is a value of type \<open>'m\<close>, a session of type \<open>'s\<close>;
  what their methods do is an outcome handed to the operation.
\<close>

record 'm ProtoHost =
  pph :: "'m Host"
  padding :: "nat \<rightharpoonup> 'm"
  modules :: "string \<rightharpoonup> 'm option"

definition New_proto :: "'m ProtoHost" where
  "New_proto = \<lparr>pph = New_host, padding = Map.empty, modules = Map.empty\<rparr>"

datatype proto_error =
    ModuleIsNil | NotProtocolKind string string | FromPluginHost host_error | EmptyProtocolID
  | ErrProtocolNotFound string | NilModule string | OpenFailed string string | NilSession string

definition proto_Register_begin :: "'m HostConfig \<Rightarrow> ('m \<Rightarrow> Manifest) \<Rightarrow> nat \<Rightarrow> 'm option \<Rightarrow> string \<Rightarrow>
    'm ProtoHost \<Rightarrow> proto_error + 'm ProtoHost" where
  "proto_Register_begin pc man g m trust h = (case m of None \<Rightarrow> Inl ModuleIsNil | Some x \<Rightarrow>
     (if mf_Kind (man x) \<noteq> KindProtocol then Inl (NotProtocolKind (mf_ID (man x)) (mf_Kind (man x)))
      else (case Register_begin pc g (man x) (Some x) trust (pph h) of
          Inl e \<Rightarrow> Inl (FromPluginHost e)
        | Inr p \<Rightarrow> Inr (h\<lparr>pph := p\<rparr>))))"

definition proto_Register_init :: "'m HostConfig \<Rightarrow> nat \<Rightarrow> 'm \<Rightarrow> string option \<Rightarrow> 'm ProtoHost \<Rightarrow>
    proto_error option \<times> 'm ProtoHost" where
  "proto_Register_init pc g x initErr h = (case Register_finish pc g initErr (pph h) of
       (Some e, p) \<Rightarrow> (Some (FromPluginHost e), h\<lparr>pph := p\<rparr>)
     | (None, p) \<Rightarrow> (None, h\<lparr>pph := p, padding := (padding h)(g \<mapsto> x)\<rparr>))"

definition proto_Register_add :: "('m \<Rightarrow> Manifest) \<Rightarrow> nat \<Rightarrow> 'm \<Rightarrow> 'm ProtoHost \<Rightarrow> 'm ProtoHost" where
  "proto_Register_add man g x h = h\<lparr>modules := (modules h)(mf_ID (man x) \<mapsto> Some x),
     padding := (padding h)(g := None)\<rparr>"

definition proto_Unregister_lock :: "string \<Rightarrow> 'm ProtoHost \<Rightarrow> 'm ProtoHost" where
  "proto_Unregister_lock i h = h\<lparr>modules := (modules h)(i := None)\<rparr>"

definition Module :: "string \<Rightarrow> 'm ProtoHost \<Rightarrow> 'm option option" where
  "Module i h = modules h i"

definition reportCrash :: "string \<Rightarrow> string \<Rightarrow> 'm ProtoHost \<Rightarrow> 'm ProtoHost" where
  "reportCrash i e h = h\<lparr>pph := emit EventCrashed i (Some e) (pph h)\<rparr>"

subsection \<open>Sessions\<close>

record 's safeSession =
  inner :: 's
  ss_pluginID :: string
  ss_closed :: bool

text \<open>\<open>r\<close> is the outcome of the module's \<open>Open\<close>; a \<open>nil\<close> session is \<open>None\<close>.\<close>

definition Open :: "string \<Rightarrow> ('m \<Rightarrow> 's option call_result) \<Rightarrow> 'm ProtoHost \<Rightarrow>
    (proto_error + 's safeSession) \<times> 'm ProtoHost" where
  "Open i r h = (if i = '''' then (Inl EmptyProtocolID, h) else
     (case modules h i of
        None \<Rightarrow> (Inl (ErrProtocolNotFound i), h)
      | Some None \<Rightarrow> (Inl (NilModule i), h)
      | Some (Some m) \<Rightarrow>
          (case safeCall (r m) of
             Inl e \<Rightarrow> (Inl (OpenFailed i e), reportCrash i e h)
           | Inr None \<Rightarrow> (Inl (NilSession i), h)
           | Inr (Some s) \<Rightarrow> (Inr \<lparr>inner = s, ss_pluginID = i, ss_closed = False\<rparr>, h))))"

definition isPanicErr :: "string option \<Rightarrow> bool" where
  "isPanicErr err = (case err of None \<Rightarrow> False
     | Some s \<Rightarrow> length s \<ge> length ''panic: '' \<and> take (length ''panic: '') s = ''panic: '')"

datatype session_error = Plain string | ErrSessionCrashed string

text \<open>\<open>Start\<close>, \<open>Resize\<close> and \<open>SendInput\<close> share this body; \<open>Close\<close> runs it once.\<close>

definition guarded :: "string \<Rightarrow> unit call_result \<Rightarrow> 'm ProtoHost \<Rightarrow> session_error option \<times> 'm ProtoHost" where
  "guarded i r h = (case safeCall r of
       Inr _ \<Rightarrow> (None, h)
     | Inl e \<Rightarrow> if isPanicErr (Some e) then (Some (ErrSessionCrashed e), reportCrash i e h)
                else (Some (Plain e), h))"

definition Start :: "('s \<Rightarrow> unit call_result) \<Rightarrow> 's safeSession \<Rightarrow> 'm ProtoHost \<Rightarrow>
    session_error option \<times> 'm ProtoHost" where
  "Start call s h = guarded (ss_pluginID s) (call (inner s)) h"

definition Resize :: "(nat \<times> nat \<Rightarrow> 's \<Rightarrow> unit call_result) \<Rightarrow> nat \<times> nat \<Rightarrow> 's safeSession \<Rightarrow> 'm ProtoHost \<Rightarrow>
    session_error option \<times> 'm ProtoHost" where
  "Resize call sz s h = guarded (ss_pluginID s) (call sz (inner s)) h"

definition SendInput :: "(byte list \<Rightarrow> 's \<Rightarrow> unit call_result) \<Rightarrow> byte list \<Rightarrow> 's safeSession \<Rightarrow> 'm ProtoHost \<Rightarrow>
    session_error option \<times> 'm ProtoHost" where
  "SendInput call bs s h = guarded (ss_pluginID s) (call bs (inner s)) h"

text \<open>The third component tells whether the inner session was closed by this call.\<close>

definition Close_session :: "('s \<Rightarrow> unit call_result) \<Rightarrow> 's safeSession \<times> 'm ProtoHost \<Rightarrow>
    session_error option \<times> bool \<times> ('s safeSession \<times> 'm ProtoHost)" where
  "Close_session call sh = (case sh of (s, h) \<Rightarrow>
     if ss_closed s then (None, False, (s, h))
     else (case guarded (ss_pluginID s) (call (inner s)) h of
         (e, h') \<Rightarrow> (e, True, (s\<lparr>ss_closed := True\<rparr>, h'))))"

definition RenderMode :: "('s \<Rightarrow> string call_result) \<Rightarrow> 's safeSession \<Rightarrow> string" where
  "RenderMode call s = (case safeCall (call (inner s)) of Inl _ \<Rightarrow> '''' | Inr m \<Rightarrow> m)"

text \<open>Whatever the calls do, the inner session is closed once.\<close>

fun Close_all :: "('s \<Rightarrow> unit call_result) list \<Rightarrow> 's safeSession \<times> 'm ProtoHost \<Rightarrow> bool list" where
  "Close_all [] sh = []"
| "Close_all (c # cs) sh = (case Close_session c sh of (_, b, sh') \<Rightarrow> b # Close_all cs sh')"

lemma Close_all_closed: "ss_closed (fst sh) \<Longrightarrow> Close_all cs sh = replicate (length cs) False"
  by (induction cs) (auto simp: Close_session_def split: prod.splits)

lemma Close_all_once:
  assumes "\<not> ss_closed s"
  shows "Close_all (c # cs) (s, h) = True # replicate (length cs) False"
proof -
  obtain e h' where g: "guarded (ss_pluginID s) (c (inner s)) h = (e, h')" by fastforce
  then show ?thesis
    using assms Close_all_closed [of "(s\<lparr>ss_closed := True\<rparr>, h')" cs] by (simp add: Close_session_def)
qed

text \<open>A crash is reported for a panic, and for an error that reads like one.\<close>

lemma isPanicErr_iff: "isPanicErr (Some e) \<longleftrightarrow> (\<exists>v. e = ''panic: '' @ v)"
proof -
  have "isPanicErr (Some e) \<longleftrightarrow> has_prefix e ''panic: ''"
    unfolding isPanicErr_def option.case has_prefix_take by (metis length_take min.absorb_iff2 min.cobounded1)
  then show ?thesis by (simp only: has_prefix_iff)
qed

lemma guarded_spec:
  "guarded i (Returned ()) h = (None, h)"
  "guarded i (Panicked v) h = (Some (ErrSessionCrashed (''panic: '' @ v)), reportCrash i (''panic: '' @ v) h)"
  "(\<nexists>v. e = ''panic: '' @ v) \<Longrightarrow> guarded i (Failed e) h = (Some (Plain e), h)"
  using isPanicErr_iff [of "''panic: '' @ v"] isPanicErr_iff [of e]
  by (simp_all only: guarded_def safeCall.simps sum.case if_True if_False simp_thms) auto

subsection \<open>Steps and invariant\<close>

inductive proto_step :: "'m HostConfig \<Rightarrow> ('m \<Rightarrow> Manifest) \<Rightarrow> 'm ProtoHost \<Rightarrow> 'm ProtoHost \<Rightarrow> bool"
  for pc man where
  register: "pending (pph h) g = None \<Longrightarrow> padding h g = None \<Longrightarrow>
    proto_Register_begin pc man g m trust h = Inr h' \<Longrightarrow> proto_step pc man h h'"
| init: "pending (pph h) g = Some (m, x, t) \<Longrightarrow> proto_step pc man h (snd (proto_Register_init pc g x e h))"
| add: "padding h g = Some x \<Longrightarrow> proto_step pc man h (proto_Register_add man g x h)"
| unregister: "proto_step pc man h (proto_Unregister_lock i h)"
| pph_unregister: "stopping (pph h) g = None \<Longrightarrow> Unregister_begin g i (pph h) = Inr p \<Longrightarrow>
    proto_step pc man h (h\<lparr>pph := p\<rparr>)"
| pph_shutdown: "stopping (pph h) g \<noteq> None \<Longrightarrow>
    proto_step pc man h (h\<lparr>pph := snd (Unregister_finish pc g e (pph h))\<rparr>)"
| crash: "proto_step pc man h (reportCrash i e h)"

inductive_cases proto_stepE: "proto_step pc man h h'"

definition proto_inv :: "'m HostConfig \<Rightarrow> ('m \<Rightarrow> Manifest) \<Rightarrow> 'm ProtoHost \<Rightarrow> bool" where
  "proto_inv pc man h \<longleftrightarrow> reg_inv pc man KindProtocol (pph h) (padding h) (modules h)"

text \<open>\<open>Open\<close> and the session calls change the host by reported crashes only.\<close>

lemma Open_step: "snd (Open i r h) = h \<or> (\<exists>e. snd (Open i r h) = reportCrash i e h)"
  by (auto simp: Open_def split: option.splits sum.splits)

lemma guarded_step: "snd (guarded i r h) = h \<or> (\<exists>e. snd (guarded i r h) = reportCrash i e h)"
  by (auto simp: guarded_def split: sum.splits)

lemma proto_step_inv:
  assumes i: "proto_inv pc man h" and s: "proto_step pc man h h'" shows "proto_inv pc man h'"
proof -
  note i' = i [unfolded proto_inv_def]
  from s show ?thesis
  proof cases
    case (register g m trust)
    then obtain x p where x: "mf_Kind (man x) = KindProtocol"
      "Register_begin pc g (man x) (Some x) trust (pph h) = Inr p" "h' = h\<lparr>pph := p\<rparr>"
      by (auto simp: proto_Register_begin_def split: option.splits if_splits sum.splits)
    with reg_inv_begin [OF i' register(1) x(2,1)] show ?thesis by (simp add: proto_inv_def)
  next
    case (init g m x t e)
    show ?thesis unfolding init(1) proto_inv_def
      using reg_inv_finish [OF i' init(2), of e]
      by (cases "Register_finish pc g e (pph h)") (auto simp: proto_Register_init_def split: option.splits)
  next
    case (add g x)
    show ?thesis using reg_inv_add [OF i' add(2)] by (simp add: add(1) proto_Register_add_def proto_inv_def)
  next
    case (unregister j)
    show ?thesis using reg_inv_remove [OF i'] by (simp add: unregister proto_Unregister_lock_def proto_inv_def)
  next
    case (pph_unregister g j p)
    have "reg_inv pc man KindProtocol p (padding h) (modules h)"
      by (rule reg_inv_ph [OF i' Unregister_begin_inv [OF reg_invD(1) [OF i'] pph_unregister(3)]
            Unregister_begin_pending [OF pph_unregister(3)]])
    then show ?thesis by (simp add: pph_unregister(1) proto_inv_def)
  next
    case (pph_shutdown g e)
    have "reg_inv pc man KindProtocol (snd (Unregister_finish pc g e (pph h))) (padding h) (modules h)"
      by (rule reg_inv_ph [OF i' Unregister_finish_inv [OF reg_invD(1) [OF i']] Unregister_finish_pending])
    then show ?thesis by (simp add: pph_shutdown(1) proto_inv_def)
  next
    case (crash j e)
    have "reg_inv pc man KindProtocol (emit EventCrashed j (Some e) (pph h)) (padding h) (modules h)"
      by (rule reg_inv_ph [OF i' host_inv_cong [OF reg_invD(1) [OF i']]]) simp_all
    then show ?thesis by (simp add: crash reportCrash_def proto_inv_def)
  qed
qed

interpretation proto_sys: invariant_system "\<lambda>h. h = New_proto" "proto_step pc man" "proto_inv pc man"
  for pc :: "'m HostConfig" and man
proof
  show "h = New_proto \<Longrightarrow> proto_inv pc man h" for h :: "'m ProtoHost"
    using host_sys.inv_init [of New_host pc]
    by (auto simp: proto_inv_def reg_inv_def New_proto_def New_host_def)
qed (rule proto_step_inv)

end
