(* ===== verification/Scenarios.thy ===== *)
theory Scenarios
  imports Samples Store RestoreGuard Telnet Frame EventBus ProtocolHost
begin

text \<open>
  Concrete inputs for the properties of the store, the codecs and the hosts: a snapshot with a
  trivial encoding, archives, a bus with one publication, and the steps of a registration on
  the plugin, protocol and credential hosts.
\<close>

definition sample_entry :: "string \<Rightarrow> zip_entry" where
  "sample_entry n = \<lparr>z_Name = n, z_IsDir = False, z_Size = 3, z_Data = [1, 2, 3]\<rparr>"

definition sample_backups :: "dir_entry list" where
  "sample_backups = [\<lparr>e_Name = ''a.zip'', e_IsDir = False, e_ModTime = 5\<rparr>,
     \<lparr>e_Name = ''b.zip'', e_IsDir = False, e_ModTime = 3\<rparr>]"

definition sample_snapshot :: Snapshot where
  "sample_snapshot = \<lparr>s_Tree = Some sample_tree, s_Templates = [], s_Workspace = zero_workspace,
     s_Meta = zero_meta\<rparr>"

definition sample_json :: "inventoryFile \<Rightarrow> unit json" where
  "sample_json file = \<lparr>mi_inv = (\<lambda>f. if f = file then Some [1] else None), mi_tpl = (\<lambda>_. Some [2]),
     mi_ws = (\<lambda>_. Some [3]), mi_meta = (\<lambda>_. Some [4]), um_inv = (\<lambda>_. Some file), um_tpl = (\<lambda>_. Some []),
     um_ws = (\<lambda>_. Some zero_workspace), um_meta = (\<lambda>_. Some (stamp 7 zero_meta)), um_any = (\<lambda>_. Some ()),
     mi_any = (\<lambda>_. Some [5])\<rparr>"

definition sample_frame :: Frame where
  "sample_frame = \<lparr>fr_Method = ''ping'', fr_ID = 1, fr_Payload = [], fr_Error = ''''\<rparr>"

definition sample_manifest :: "string \<Rightarrow> Manifest" where
  "sample_manifest kind = \<lparr>mf_ID = ''p'', mf_Name = ''P'', mf_Description = '''', mf_Kind = kind, mf_Version = ''1'',
     mf_APIVersion = ''1.2'', mf_Capabilities = [''net''], mf_Platforms = [], mf_Trust = '''',
     mf_SignatureB64 = '''', mf_Status = '''', mf_Publisher = '''', mf_Homepage = '''', mf_License = ''''\<rparr>"

definition sample_host :: "nat HostConfig" where
  "sample_host = \<lparr>approval = None, goos = ''linux'', lifecycle = (\<lambda>_. True)\<rparr>"

lemma sample_gates:
  assumes "kind = KindProtocol \<or> kind = KindCredential"
  shows "Manifest_Validate (Some (sample_manifest kind)) = None"
    and "checkAPIMajor (mf_APIVersion (sample_manifest kind)) CurrentAPIVersion"
    and "checkPlatform (goos sample_host) (mf_Platforms (sample_manifest kind))"
    and "approval_error sample_host m TrustCore = None"
proof -
  show "Manifest_Validate (Some (sample_manifest kind)) = None"
    using assms by (auto simp: Manifest_Validate_def sample_manifest_def KindProtocol_def KindCredential_def
        CapProcessSpawn_def CapExternalLauncher_def)
  show "checkAPIMajor (mf_APIVersion (sample_manifest kind)) CurrentAPIVersion"
    by (simp add: checkAPIMajor_def majorOf_def sample_manifest_def CurrentAPIVersion_def Atoi_def
        digit_val_def ord8_def)
  show "checkPlatform (goos sample_host) (mf_Platforms (sample_manifest kind))"
    by (simp add: checkPlatform_def sample_manifest_def)
  show "approval_error sample_host m TrustCore = None"
    by (simp add: approval_error_def TrustCore_def TrustCommunity_def TrustUntrusted_def)
qed

definition sample_pending :: "string \<Rightarrow> nat Host" where
  "sample_pending kind = New_host\<lparr>registering := {''p''}, pending := [0 \<mapsto> (sample_manifest kind, 7, TrustCore)]\<rparr>"

lemma sample_begin:
  assumes "kind = KindProtocol \<or> kind = KindCredential"
  shows "Register_begin sample_host 0 (sample_manifest kind) (Some 7) TrustCore New_host = Inr (sample_pending kind)"
  by (simp add: Register_begin_def sample_gates [OF assms] sample_pending_def New_host_def)
    (simp add: sample_manifest_def)

lemma sample_pending_reach:
  "reach (\<lambda>h. h = New_host) (host_step sample_host) (sample_pending KindProtocol)"
proof -
  have "reach (\<lambda>h. h = New_host) (host_step sample_host) New_host" by (rule reach_init) simp
  moreover have "host_step sample_host New_host (sample_pending KindProtocol)"
    by (rule host_step.begin_register [OF _ sample_begin]) (simp_all add: New_host_def)
  ultimately show ?thesis by (rule reach_step)
qed

definition sample_active :: "string \<Rightarrow> nat Host" where
  "sample_active kind = snd (Register_finish sample_host 0 None (sample_pending kind))"

definition sample_proto :: "nat ProtoHost" where
  "sample_proto = proto_Register_add (\<lambda>_. sample_manifest KindProtocol) 0 7
     (snd (proto_Register_init sample_host 0 7 None (New_proto\<lparr>pph := sample_pending KindProtocol\<rparr>)))"

lemma sample_proto_reach:
  "reach (\<lambda>h. h = New_proto) (proto_step sample_host (\<lambda>_. sample_manifest KindProtocol)) sample_proto"
proof -
  let ?step = "proto_step sample_host (\<lambda>_. sample_manifest KindProtocol)"
  let ?h1 = "New_proto\<lparr>pph := sample_pending KindProtocol\<rparr>"
  let ?h2 = "snd (proto_Register_init sample_host 0 7 None ?h1)"
  have "reach (\<lambda>h. h = New_proto) ?step New_proto" by (rule reach_init) simp
  moreover have "?step New_proto ?h1"
  proof (rule proto_step.register)
    show "proto_Register_begin sample_host (\<lambda>_. sample_manifest KindProtocol) 0 (Some 7) TrustCore New_proto = Inr ?h1"
      using sample_begin [of KindProtocol]
      by (simp add: proto_Register_begin_def New_proto_def) (simp add: sample_manifest_def)
  qed (simp_all add: New_proto_def New_host_def)
  ultimately have "reach (\<lambda>h. h = New_proto) ?step ?h1" by (rule reach_step)
  moreover have "?step ?h1 ?h2"
    by (rule proto_step.init [where m = "sample_manifest KindProtocol" and t = TrustCore])
      (simp add: sample_pending_def)
  ultimately have "reach (\<lambda>h. h = New_proto) ?step ?h2" by (rule reach_step)
  moreover have "?step ?h2 sample_proto" unfolding sample_proto_def
    by (rule proto_step.add)
      (simp add: proto_Register_init_def Register_finish_def sample_pending_def New_host_def)
  ultimately show ?thesis by (rule reach_step)
qed

abbreviation cred_reach :: "Option list \<Rightarrow> nat CredHost \<Rightarrow> bool" where
  "cred_reach opts \<equiv> reach (\<lambda>h. h = New_cred)
     (cred_step sample_host (New_config opts) (\<lambda>_. sample_manifest KindCredential))"

definition sample_registered :: "nat CredHost" where
  "sample_registered = New_cred\<lparr>ph := sample_active KindCredential, adding := [0 \<mapsto> 7]\<rparr>"

lemma sample_registered_reach: "cred_reach opts sample_registered"
proof -
  let ?step = "cred_step sample_host (New_config opts) (\<lambda>_. sample_manifest KindCredential)"
  let ?h1 = "New_cred\<lparr>ph := sample_pending KindCredential\<rparr>"
  have "cred_reach opts New_cred" by (rule reach_init) simp
  moreover have "?step New_cred ?h1"
  proof (rule cred_step.register)
    show "cred_Register_begin sample_host (\<lambda>_. sample_manifest KindCredential) 0 (Some 7) TrustCore New_cred = Inr ?h1"
      using sample_begin [of KindCredential]
      by (simp add: cred_Register_begin_def New_cred_def) (simp add: sample_manifest_def)
  qed (simp_all add: New_cred_def New_host_def)
  ultimately have "cred_reach opts ?h1" by (rule reach_step)
  moreover have "?step ?h1 (snd (cred_Register_init sample_host 0 7 None ?h1))"
    by (rule cred_step.init [where m = "sample_manifest KindCredential" and t = TrustCore])
      (simp add: sample_pending_def)
  moreover have "snd (cred_Register_init sample_host 0 7 None ?h1) = sample_registered"
    by (simp add: cred_Register_init_def sample_registered_def sample_active_def Register_finish_def
        sample_pending_def New_host_def New_cred_def)
  ultimately show ?thesis using reach_step by metis
qed

definition sample_failed :: "nat CredHost" where
  "sample_failed = snd (Resolve_end (New_config [WithFailureThreshold 1]) 0 20 (Failed ''no'' :: nat call_result)
     (snd (Resolve_begin 0 10 (zero_ref\<lparr>ProviderID := ''p''\<rparr>) 0
       (cred_Register_add (\<lambda>_. sample_manifest KindCredential) 0 7 sample_registered))))"

lemma sample_failed_reach: "cred_reach [WithFailureThreshold 1] sample_failed"
proof -
  let ?opts = "[WithFailureThreshold 1]"
  let ?step = "cred_step sample_host (New_config ?opts) (\<lambda>_. sample_manifest KindCredential)"
  let ?h1 = "cred_Register_add (\<lambda>_. sample_manifest KindCredential) 0 7 sample_registered"
  let ?h2 = "snd (Resolve_begin 0 10 (zero_ref\<lparr>ProviderID := ''p''\<rparr>) 0 ?h1)"
  have "?step sample_registered ?h1"
    by (rule cred_step.add) (simp add: sample_registered_def)
  with sample_registered_reach have "cred_reach ?opts ?h1" by (rule reach_step)
  moreover have "?step ?h1 ?h2"
    by (rule cred_step.resolve) (simp add: cred_Register_add_def sample_registered_def New_cred_def)
  ultimately have "cred_reach ?opts ?h2" by (rule reach_step)
  moreover have "?step ?h2 sample_failed" unfolding sample_failed_def
    by (rule cred_step.answer)
      (simp add: cred_Register_add_def sample_registered_def New_cred_def Resolve_begin_def
        isQuarantinedLocked_def log_audit_def sample_manifest_def Let_def)
  ultimately show ?thesis by (rule reach_step)
qed

definition sample_cred :: "nat CredHost" where
  "sample_cred = New_cred\<lparr>CredentialHost.providers := [''p'' \<mapsto> Some 7], quarantined := [''p'' \<mapsto> 100]\<rparr>"

end
