(* ===== verification/AppCore.thy ===== *)
theory AppCore
  imports SearchPred Inheritance Store
begin

text \<open>
  \<open>internal/app/commands.go\<close>, \<open>views.go\<close> and \<open>events.go\<close>: the commands that change the tree and
  the read-only projections. A command runs in one step: its lock covers the change, and what
  follows the unlock (\<open>markDirty\<close>, \<open>publish\<close>) touches no state that another command writes
  non-atomically. \<open>ctx\<close> says that the context is not done; \<open>now k\<close> is the result of the
  \<open>k\<close>-th call of the clock; random identifiers are the argument of \<open>NewID\<close>.
\<close>

subsection \<open>State and events\<close>

datatype AppEventKind =
    EventNodeCreated | EventNodeUpdated | EventNodeMoved | EventNodeDeleted
  | EventSessionOpened | EventSessionClosed | EventCredentialUnlocked | EventError

record AppEvent =
  ae_Kind :: AppEventKind
  ae_At :: time
  ae_NodeID :: ID
  ae_ParentID :: ID
  ae_OldParentID :: ID
  ae_NodeKind :: "node_kind option"
  ae_Name :: string
  ae_SessionID :: ID
  ae_ProviderID :: string
  ae_Where :: string
  ae_Err :: "string option"

definition node_event :: "AppEventKind \<Rightarrow> ID \<Rightarrow> ID \<Rightarrow> ID \<Rightarrow> node_kind \<Rightarrow> string \<Rightarrow> AppEvent" where
  "node_event k i p old kind name = \<lparr>ae_Kind = k, ae_At = 0, ae_NodeID = i, ae_ParentID = p,
     ae_OldParentID = old, ae_NodeKind = Some kind, ae_Name = name, ae_SessionID = NilID,
     ae_ProviderID = '''', ae_Where = '''', ae_Err = None\<rparr>"

text \<open>
  \<open>a_signal\<close>: the one-place channel \<open>persistSig\<close> holds a signal; \<open>a_sig_closed\<close>: it is closed;
  \<open>a_root_done\<close>: \<open>rootCtx\<close> is cancelled; \<open>a_events\<close>: what went to the event bus.
\<close>

record app =
  a_tree :: Tree
  a_templates :: "ConnectionTemplate list"
  a_workspace :: WorkspaceLayout
  a_meta :: Meta
  a_dirty :: bool
  a_signal :: bool
  a_sig_closed :: bool
  a_started :: bool
  a_stopped :: bool
  a_root_done :: bool
  a_events :: "AppEvent list"

datatype app_error =
    ContextErr | FolderNameRequired | ConnectionNameRequired | TreeErr tree_error | CannotDuplicateRoot
  | DuplicateFailed tree_error | NilConnectionID | NilFolderID | UnsupportedFormat string
  | ImportFailed string | MergeFailed tree_error | StoreErr store_error

text \<open>How a Go call ends: with results, with a panic, or not at all.\<close>

datatype 'r call = Returns 'r | Panics | Loops

text \<open>Sending on the closed channel panics, also in a \<open>select\<close> with a default.\<close>

definition markDirty :: "app \<Rightarrow> app call" where
  "markDirty a = (let a1 = a\<lparr>a_dirty := True\<rparr> in
     if \<not> a_started a then Returns a1
     else if a_sig_closed a then Panics
     else Returns (a1\<lparr>a_signal := True\<rparr>))"

definition publish_app :: "(nat \<Rightarrow> time) \<Rightarrow> nat \<Rightarrow> AppEvent \<Rightarrow> app \<Rightarrow> app" where
  "publish_app now k e a = (if a_root_done a then a
     else a\<lparr>a_events := a_events a @ [if ae_At e = 0 then e\<lparr>ae_At := now k\<rparr> else e]\<rparr>)"

text \<open>The end of a successful command: \<open>markDirty\<close>, \<open>publish\<close>, return.\<close>

definition commit :: "(nat \<Rightarrow> time) \<Rightarrow> nat \<Rightarrow> AppEvent \<Rightarrow> 'r \<Rightarrow> app \<Rightarrow> ((app_error + 'r) \<times> app) call" where
  "commit now k e r a = (case markDirty a of
     Returns a1 \<Rightarrow> Returns (Inr r, publish_app now k e a1) | Panics \<Rightarrow> Panics | Loops \<Rightarrow> Loops)"

definition fail :: "app_error \<Rightarrow> app \<Rightarrow> ((app_error + 'r) \<times> app) call" where
  "fail e a = Returns (Inl e, a)"

subsection \<open>Creation\<close>

record FolderOpts =
  fo_Description :: string
  fo_Tags :: "string list"
  fo_Icon :: string
  fo_Color :: string
  fo_Defaults :: FolderDefaults

record ConnectionOpts =
  co_Name :: string
  co_ProtocolID :: string
  co_Host :: string
  co_Port :: int
  co_Username :: string
  co_AuthMethod :: AuthMethod
  co_CredentialRef :: Reference
  co_Description :: string
  co_Tags :: "string list"
  co_Settings :: settings
  co_Icon :: string
  co_Color :: string
  co_Environment :: string
  co_Favorite :: bool
  co_Inheritance :: InheritanceProfile

definition app_cloneSettings :: "settings \<Rightarrow> settings" where
  "app_cloneSettings m = (if map_len m = 0 then None else m)"

definition new_folder :: "ID \<Rightarrow> (nat \<Rightarrow> time) \<Rightarrow> ID \<Rightarrow> string \<Rightarrow> FolderOpts \<Rightarrow> FolderNode" where
  "new_folder rnd now parent name opts = \<lparr>f_ID = NewID rnd, f_ParentID = parent, f_Name = name,
     f_Description = fo_Description opts, f_Defaults = fo_Defaults opts, f_Tags = fo_Tags opts,
     f_Color = fo_Color opts, f_Icon = fo_Icon opts, f_CreatedAt = now 0, f_UpdatedAt = now 1\<rparr>"

definition CreateFolder :: "bool \<Rightarrow> ID \<Rightarrow> (nat \<Rightarrow> time) \<Rightarrow> ID \<Rightarrow> string \<Rightarrow> FolderOpts \<Rightarrow> app \<Rightarrow>
    ((app_error + ID) \<times> app) call" where
  "CreateFolder ctx rnd now parent name opts a =
     (if \<not> ctx then fail ContextErr a
      else if name = '''' then fail FolderNameRequired a
      else (let f = new_folder rnd now parent name opts in
        case AddFolder (Some f) (a_tree a) of
          Inl e \<Rightarrow> fail (TreeErr e) a
        | Inr t \<Rightarrow> commit now 2 (node_event EventNodeCreated (f_ID f) (f_ParentID f) NilID NodeKindFolder (f_Name f))
            (f_ID f) (a\<lparr>a_tree := t\<rparr>)))"

definition new_conn :: "ID \<Rightarrow> (nat \<Rightarrow> time) \<Rightarrow> ID \<Rightarrow> ConnectionOpts \<Rightarrow> ConnectionNode" where
  "new_conn rnd now parent opts = \<lparr>c_ID = NewID rnd, c_ParentID = parent, c_Name = co_Name opts,
     c_ProtocolID = co_ProtocolID opts, c_Host = co_Host opts, c_Port = co_Port opts,
     c_Username = co_Username opts, c_AuthMethod = co_AuthMethod opts, c_CredentialRef = co_CredentialRef opts,
     c_Settings = app_cloneSettings (co_Settings opts), c_Tags = co_Tags opts, c_Color = co_Color opts,
     c_Icon = co_Icon opts, c_Environment = co_Environment opts, c_Favorite = co_Favorite opts,
     c_Description = co_Description opts, c_Inheritance = co_Inheritance opts,
     c_CreatedAt = now 0, c_UpdatedAt = now 1\<rparr>"

definition CreateConnection :: "bool \<Rightarrow> ID \<Rightarrow> (nat \<Rightarrow> time) \<Rightarrow> ID \<Rightarrow> ConnectionOpts \<Rightarrow> app \<Rightarrow>
    ((app_error + ID) \<times> app) call" where
  "CreateConnection ctx rnd now parent opts a =
     (if \<not> ctx then fail ContextErr a
      else if co_Name opts = '''' then fail ConnectionNameRequired a
      else (let c = new_conn rnd now parent opts in
        case AddConnection (Some c) (a_tree a) of
          Inl e \<Rightarrow> fail (TreeErr e) a
        | Inr t \<Rightarrow> commit now 2 (node_event EventNodeCreated (c_ID c) (c_ParentID c) NilID NodeKindConnection (c_Name c))
            (c_ID c) (a\<lparr>a_tree := t\<rparr>)))"

subsection \<open>Updates\<close>

record ConnectionPatch =
  cp_Name :: "string option"
  cp_ProtocolID :: "string option"
  cp_Host :: "string option"
  cp_Port :: "int option"
  cp_Username :: "string option"
  cp_AuthMethod :: "AuthMethod option"
  cp_CredentialRef :: "Reference option"
  cp_Description :: "string option"
  cp_Tags :: "string list option"
  cp_Settings :: "settings option"
  cp_Icon :: "string option"
  cp_Color :: "string option"
  cp_Environment :: "string option"
  cp_Favorite :: "bool option"
  cp_Inheritance :: "InheritanceProfile option"

record FolderPatch =
  fp_Name :: "string option"
  fp_Description :: "string option"
  fp_Tags :: "string list option"
  fp_Icon :: "string option"
  fp_Color :: "string option"
  fp_Defaults :: "FolderDefaults option"

definition or_old :: "'a option \<Rightarrow> 'a \<Rightarrow> 'a" where
  "or_old p old = (case p of None \<Rightarrow> old | Some v \<Rightarrow> v)"

definition patch_conn :: "ConnectionPatch \<Rightarrow> time \<Rightarrow> ConnectionNode \<Rightarrow> ConnectionNode" where
  "patch_conn p at c = c\<lparr>
     c_Name := or_old (cp_Name p) (c_Name c), c_ProtocolID := or_old (cp_ProtocolID p) (c_ProtocolID c),
     c_Host := or_old (cp_Host p) (c_Host c), c_Port := or_old (cp_Port p) (c_Port c),
     c_Username := or_old (cp_Username p) (c_Username c), c_AuthMethod := or_old (cp_AuthMethod p) (c_AuthMethod c),
     c_CredentialRef := or_old (cp_CredentialRef p) (c_CredentialRef c),
     c_Description := or_old (cp_Description p) (c_Description c), c_Tags := or_old (cp_Tags p) (c_Tags c),
     c_Settings := (case cp_Settings p of None \<Rightarrow> c_Settings c | Some m \<Rightarrow> app_cloneSettings m),
     c_Icon := or_old (cp_Icon p) (c_Icon c), c_Color := or_old (cp_Color p) (c_Color c),
     c_Environment := or_old (cp_Environment p) (c_Environment c),
     c_Favorite := or_old (cp_Favorite p) (c_Favorite c),
     c_Inheritance := or_old (cp_Inheritance p) (c_Inheritance c), c_UpdatedAt := at\<rparr>"

definition patch_folder :: "FolderPatch \<Rightarrow> time \<Rightarrow> FolderNode \<Rightarrow> FolderNode" where
  "patch_folder p at f = f\<lparr>
     f_Name := or_old (fp_Name p) (f_Name f), f_Description := or_old (fp_Description p) (f_Description f),
     f_Tags := or_old (fp_Tags p) (f_Tags f), f_Icon := or_old (fp_Icon p) (f_Icon f),
     f_Color := or_old (fp_Color p) (f_Color f), f_Defaults := or_old (fp_Defaults p) (f_Defaults f),
     f_UpdatedAt := at\<rparr>"

text \<open>The node is changed in place: the tree's entry for its key becomes the new value.\<close>

definition set_conn :: "ID \<Rightarrow> ConnectionNode \<Rightarrow> Tree \<Rightarrow> Tree" where
  "set_conn i c t = t\<lparr>connections := fmupd i c (connections t)\<rparr>"

definition set_folder :: "ID \<Rightarrow> FolderNode \<Rightarrow> Tree \<Rightarrow> Tree" where
  "set_folder i f t = t\<lparr>folders := fmupd i f (folders t)\<rparr>"

definition UpdateConnection :: "bool \<Rightarrow> (nat \<Rightarrow> time) \<Rightarrow> ID \<Rightarrow> ConnectionPatch \<Rightarrow> app \<Rightarrow>
    ((app_error + unit) \<times> app) call" where
  "UpdateConnection ctx now i patch a =
     (if \<not> ctx then fail ContextErr a
      else case Connection i (a_tree a) of
          Inl e \<Rightarrow> fail (TreeErr e) a
        | Inr c0 \<Rightarrow> (let c = patch_conn patch (now 0) c0 in
            commit now 1 (node_event EventNodeUpdated i (c_ParentID c) NilID NodeKindConnection (c_Name c)) ()
              (a\<lparr>a_tree := set_conn i c (a_tree a)\<rparr>)))"

definition ToggleFavorite :: "bool \<Rightarrow> (nat \<Rightarrow> time) \<Rightarrow> ID \<Rightarrow> app \<Rightarrow> ((app_error + bool) \<times> app) call" where
  "ToggleFavorite ctx now i a =
     (if \<not> ctx then fail ContextErr a
      else case Connection i (a_tree a) of
          Inl e \<Rightarrow> fail (TreeErr e) a
        | Inr c0 \<Rightarrow> (let c = c0\<lparr>c_Favorite := \<not> c_Favorite c0, c_UpdatedAt := now 0\<rparr> in
            commit now 1 (node_event EventNodeUpdated i (c_ParentID c) NilID NodeKindConnection (c_Name c))
              (c_Favorite c) (a\<lparr>a_tree := set_conn i c (a_tree a)\<rparr>)))"

definition UpdateFolder :: "bool \<Rightarrow> (nat \<Rightarrow> time) \<Rightarrow> ID \<Rightarrow> FolderPatch \<Rightarrow> app \<Rightarrow>
    ((app_error + unit) \<times> app) call" where
  "UpdateFolder ctx now i patch a =
     (if \<not> ctx then fail ContextErr a
      else case Folder i (a_tree a) of
          Inl e \<Rightarrow> fail (TreeErr e) a
        | Inr f0 \<Rightarrow> (let f = patch_folder patch (now 0) f0 in
            commit now 1 (node_event EventNodeUpdated i (f_ParentID f) NilID NodeKindFolder (f_Name f)) ()
              (a\<lparr>a_tree := set_folder i f (a_tree a)\<rparr>)))"

subsection \<open>Moves and removals\<close>

definition MoveNode :: "bool \<Rightarrow> (nat \<Rightarrow> time) \<Rightarrow> ID \<Rightarrow> ID \<Rightarrow> app \<Rightarrow> ((app_error + unit) \<times> app) call" where
  "MoveNode ctx now i newParent a =
     (if \<not> ctx then fail ContextErr a
      else case FindByID i (a_tree a) of
          Inl e \<Rightarrow> fail (TreeErr e) a
        | Inr n \<Rightarrow> (case NodeParent n of
            None \<Rightarrow> Panics
          | Some oldParent \<Rightarrow> (case Move i newParent (a_tree a) of
              None \<Rightarrow> Loops
            | Some (Inl e) \<Rightarrow> fail (TreeErr e) a
            | Some (Inr t) \<Rightarrow> commit now 0 (node_event EventNodeMoved i newParent oldParent (NodeKind n) '''') ()
                (a\<lparr>a_tree := t\<rparr>))))"

definition DeleteNode :: "bool \<Rightarrow> (nat \<Rightarrow> time) \<Rightarrow> ID \<Rightarrow> app \<Rightarrow> ((app_error + unit) \<times> app) call" where
  "DeleteNode ctx now i a =
     (if \<not> ctx then fail ContextErr a
      else case FindByID i (a_tree a) of
          Inl e \<Rightarrow> fail (TreeErr e) a
        | Inr n \<Rightarrow> (case NodeParent n of
            None \<Rightarrow> Panics
          | Some parent \<Rightarrow> (case Remove i (a_tree a) of
              None \<Rightarrow> Loops
            | Some (Some e, t) \<Rightarrow> fail (TreeErr e) (a\<lparr>a_tree := t\<rparr>)
            | Some (None, t) \<Rightarrow> commit now 0 (node_event EventNodeDeleted i parent NilID (NodeKind n) '''') ()
                (a\<lparr>a_tree := t\<rparr>))))"

subsection \<open>Duplication\<close>

definition cloneStringMap :: "hints \<Rightarrow> hints" where
  "cloneStringMap m = (if map_len m = 0 then None else m)"

text \<open>The fields the copies share with their originals are replaced by clones.\<close>

definition copy_folder :: "FolderNode \<Rightarrow> FolderNode" where
  "copy_folder f = (let d = f_Defaults f; r = d_CredentialRef d in
     f\<lparr>f_Defaults := d\<lparr>
        d_Settings := (if map_len (d_Settings d) > 0 then app_cloneSettings (d_Settings d) else d_Settings d),
        d_CredentialRef := r\<lparr>Hints := (if map_len (Hints r) > 0 then cloneStringMap (Hints r) else Hints r)\<rparr>\<rparr>\<rparr>)"

definition copy_conn :: "ConnectionNode \<Rightarrow> ConnectionNode" where
  "copy_conn c = (let r = c_CredentialRef c in
     c\<lparr>c_Settings := app_cloneSettings (c_Settings c),
       c_CredentialRef := r\<lparr>Hints := (if map_len (Hints r) > 0 then cloneStringMap (Hints r) else Hints r)\<rparr>\<rparr>)"

text \<open>What the visitor changes: the tree it walks, the map from old to new IDs, the number of
  IDs drawn, and the new root's ID, kind and name.\<close>

record dup_state =
  ds_tree :: Tree
  ds_idMap :: "ID \<rightharpoonup> ID"
  ds_count :: nat
  ds_root :: ID
  ds_kind :: "node_kind option"
  ds_name :: string

definition add_copy :: "node \<Rightarrow> dup_state \<Rightarrow> (tree_error, dup_state) walk_result" where
  "add_copy n s = (case (case n of
       NFolder f \<Rightarrow> AddFolder (Some f) (ds_tree s)
     | NConn c \<Rightarrow> AddConnection (Some c) (ds_tree s)
     | _ \<Rightarrow> Inr (ds_tree s)) of
       Inl e \<Rightarrow> WStop e s
     | Inr t \<Rightarrow> WDone (s\<lparr>ds_tree := t\<rparr>))"

definition dup_visit :: "(nat \<Rightarrow> ID) \<Rightarrow> ID \<Rightarrow> (tree_error, dup_state) visitor" where
  "dup_visit rnd i n s = (case n of
     NFolder f \<Rightarrow>
       (if f_ID f = i then
          (let new = NewID (rnd (ds_count s)); nf = (copy_folder f)\<lparr>f_ID := new, f_Name := f_Name f @ '' (copy)''\<rparr>
           in add_copy (NFolder nf) (s\<lparr>ds_idMap := (ds_idMap s)(i \<mapsto> new), ds_count := Suc (ds_count s),
                ds_root := new, ds_kind := Some NodeKindFolder, ds_name := f_Name nf\<rparr>))
        else case ds_idMap s (f_ParentID f) of
            None \<Rightarrow> WDone s
          | Some p \<Rightarrow> (let new = NewID (rnd (ds_count s)); nf = (copy_folder f)\<lparr>f_ID := new, f_ParentID := p\<rparr>
              in add_copy (NFolder nf) (s\<lparr>ds_idMap := (ds_idMap s)(f_ID f \<mapsto> new), ds_count := Suc (ds_count s)\<rparr>)))
   | NConn c \<Rightarrow>
       (if c_ID c = i then
          (let new = NewID (rnd (ds_count s)); nc = (copy_conn c)\<lparr>c_ID := new, c_Name := c_Name c @ '' (copy)''\<rparr>
           in add_copy (NConn nc) (s\<lparr>ds_idMap := (ds_idMap s)(i \<mapsto> new), ds_count := Suc (ds_count s),
                ds_root := new, ds_kind := Some NodeKindConnection, ds_name := c_Name nc\<rparr>))
        else case ds_idMap s (c_ParentID c) of
            None \<Rightarrow> WDone s
          | Some p \<Rightarrow> (let new = NewID (rnd (ds_count s)); nc = (copy_conn c)\<lparr>c_ID := new, c_ParentID := p\<rparr>
              in add_copy (NConn nc) (s\<lparr>ds_idMap := (ds_idMap s)(c_ID c \<mapsto> new), ds_count := Suc (ds_count s)\<rparr>)))
   | _ \<Rightarrow> WPanic s)"

definition dup_init :: "Tree \<Rightarrow> dup_state" where
  "dup_init t = \<lparr>ds_tree = t, ds_idMap = Map.empty, ds_count = 0, ds_root = NilID, ds_kind = None,
     ds_name = ''''\<rparr>"

definition DuplicateNode :: "bool \<Rightarrow> (nat \<Rightarrow> ID) \<Rightarrow> (nat \<Rightarrow> time) \<Rightarrow> ID \<Rightarrow> app \<Rightarrow>
    ((app_error + ID) \<times> app) call" where
  "DuplicateNode ctx rnd now i a =
     (if \<not> ctx then fail ContextErr a
      else if i = NilID then fail CannotDuplicateRoot a
      else case FindByID i (a_tree a) of
          Inl e \<Rightarrow> fail (TreeErr e) a
        | Inr n \<Rightarrow> (case NodeParent n of
            None \<Rightarrow> Panics
          | Some parentID \<Rightarrow> (case Walk ds_tree (dup_visit rnd i) (dup_init (a_tree a)) of
              WLoop \<Rightarrow> Loops
            | WPanic s \<Rightarrow> Panics
            | WStop e s \<Rightarrow> fail (DuplicateFailed e) (a\<lparr>a_tree := ds_tree s\<rparr>)
            | WDone s \<Rightarrow>
                commit now 0 ((node_event EventNodeCreated (ds_root s) parentID NilID NodeKindFolder (ds_name s))
                    \<lparr>ae_NodeKind := ds_kind s\<rparr>) (ds_root s) (a\<lparr>a_tree := ds_tree s\<rparr>))))"

subsection \<open>Import\<close>

text \<open>
  \<open>ImportMRemoteNG\<close> after the parse: \<open>res\<close> is what \<open>ImportXML\<close> or \<open>ImportCSV\<close> returned. The
  visitor adds the nodes of the imported tree to the application's; the pointers are shared.
\<close>

definition merge_visit :: "node \<Rightarrow> Tree \<times> Tree \<Rightarrow> (tree_error, Tree \<times> Tree) walk_result" where
  "merge_visit n s = (case s of (src, t) \<Rightarrow>
     (case (case n of
         NFolder f \<Rightarrow> AddFolder (Some f) t
       | NConn c \<Rightarrow> AddConnection (Some c) t
       | NNilFolder \<Rightarrow> AddFolder None t
       | NNilConn \<Rightarrow> AddConnection None t) of
       Inl e \<Rightarrow> WStop e s
     | Inr t' \<Rightarrow> WDone (src, t')))"

record 'w ImportResult =
  ir_Imported :: nat
  ir_Folders :: nat
  ir_Warnings :: "'w list"

record 'w parsed =
  pr_Tree :: Tree
  pr_Folders :: nat
  pr_Connections :: nat
  pr_Warnings :: "'w list"

definition ImportMRemoteNG :: "bool \<Rightarrow> string \<Rightarrow> (string \<Rightarrow> string + 'w parsed) \<Rightarrow> app \<Rightarrow>
    ((app_error \<times> 'w ImportResult) + 'w ImportResult) call \<times> app" where
  "ImportMRemoteNG ctx format parse a =
     (let none = \<lparr>ir_Imported = 0, ir_Folders = 0, ir_Warnings = []\<rparr> in
      if \<not> ctx then (Returns (Inl (ContextErr, none)), a)
      else if format \<noteq> ''xml'' \<and> format \<noteq> ''csv'' then (Returns (Inl (UnsupportedFormat format, none)), a)
      else case parse format of
          Inl e \<Rightarrow> (Returns (Inl (ImportFailed e, none)), a)
        | Inr res \<Rightarrow>
            (let out = \<lparr>ir_Imported = pr_Connections res, ir_Folders = pr_Folders res, ir_Warnings = []\<rparr> in
             case Walk fst merge_visit (pr_Tree res, a_tree a) of
               WLoop \<Rightarrow> (Loops, a)
             | WPanic (_, t) \<Rightarrow> (Panics, a\<lparr>a_tree := t\<rparr>)
             | WStop e (_, t) \<Rightarrow> (Returns (Inl (MergeFailed e, out)), a\<lparr>a_tree := t\<rparr>)
             | WDone (_, t) \<Rightarrow>
                 (case markDirty (a\<lparr>a_tree := t\<rparr>) of
                    Returns a' \<Rightarrow> (Returns (Inr (out\<lparr>ir_Warnings := pr_Warnings res\<rparr>)), a')
                  | Panics \<Rightarrow> (Panics, a\<lparr>a_tree := t\<rparr>)
                  | Loops \<Rightarrow> (Loops, a))))"

end
