(* ===== verification/TreeGrow.thy ===== *)
theory TreeGrow
  imports TreeWalk
begin

text \<open>
  Walking a tree that the visitor extends while it is walked. When the visitor only adds
  nodes beside the one it was handed or outside the original tree, the walk still visits
  exactly the original nodes, in the order of \<open>preorder\<close>.
\<close>

text \<open>The child lists of a folder, and the trees that agree on those of a set of folders.\<close>

definition same_lists :: "ID \<Rightarrow> Tree \<Rightarrow> Tree \<Rightarrow> bool" where
  "same_lists q t u \<longleftrightarrow> folderChildren t q = folderChildren u q \<and> connectionChildren t q = connectionChildren u q"

definition old_folder :: "Tree \<Rightarrow> ID \<Rightarrow> bool" where
  "old_folder t q \<longleftrightarrow> q = NilID \<or> folder_at t q \<noteq> None"

text \<open>The nodes of the first tree are those of the second.\<close>

definition extends :: "Tree \<Rightarrow> Tree \<Rightarrow> bool" where
  "extends t u \<longleftrightarrow> (\<forall>i f. folder_at t i = Some f \<longrightarrow> folder_at u i = Some f) \<and>
     (\<forall>i c. conn_at t i = Some c \<longrightarrow> conn_at u i = Some c)"

lemma extends_refl [simp]: "extends t t"
  by (simp add: extends_def)

text \<open>
  What the visitor may do when it is handed a node of \<open>t\<close>, under its own invariant \<open>J\<close>: of
  the original folders, only the node's parent gets a new child, of the node's kind.
\<close>

definition grows :: "Tree \<Rightarrow> ('s \<Rightarrow> Tree) \<Rightarrow> ('s \<Rightarrow> bool) \<Rightarrow> ('e, 's) visitor \<Rightarrow> bool" where
  "grows t g J v \<longleftrightarrow> (\<forall>s. J s \<longrightarrow> extends t (g s)) \<and>
     (\<forall>i f s s'. folder_at t i = Some f \<and> J s \<and> v (NFolder f) s = WDone s' \<longrightarrow> J s' \<and>
        (\<forall>q. old_folder t q \<and> q \<noteq> f_ParentID f \<longrightarrow> same_lists q (g s) (g s')) \<and>
        connectionChildren (g s') (f_ParentID f) = connectionChildren (g s) (f_ParentID f)) \<and>
     (\<forall>i c s s'. conn_at t i = Some c \<and> J s \<and> v (NConn c) s = WDone s' \<longrightarrow> J s' \<and>
        (\<forall>q. old_folder t q \<and> q \<noteq> c_ParentID c \<longrightarrow> same_lists q (g s) (g s')))"

lemma insort_key_agree:
  "(\<And>y. y \<in> insert x (set xs) \<Longrightarrow> h y = k y) \<Longrightarrow> insort_key h x xs = insort_key k x xs"
  by (induction xs) auto

lemma sort_key_agree: "(\<And>y. y \<in> set xs \<Longrightarrow> h y = k y) \<Longrightarrow> sort_key h xs = sort_key k xs"
proof (induction xs)
  case (Cons x xs)
  then have "sort_key h xs = sort_key k xs" by simp
  moreover have "insort_key h x (sort_key k xs) = insort_key k x (sort_key k xs)"
    by (rule insort_key_agree) (use Cons.prems in simp)
  ultimately show ?case by simp
qed simp

lemma sort_ids_agree:
  assumes "\<And>i. i \<in> set ids \<Longrightarrow> key i = key' i"
  shows "sort_ids key ids = sort_ids key' ids"
proof -
  have "sort_key (\<lambda>i. the (key i)) ids = sort_key (\<lambda>i. the (key' i)) ids"
    by (rule sort_key_agree) (use assms in auto)
  moreover have "list_all (\<lambda>i. key i \<noteq> None) ids = list_all (\<lambda>i. key' i \<noteq> None) ids"
    using assms by (auto simp: list_all_iff)
  ultimately show ?thesis by (simp add: sort_ids_def)
qed

lemma grown_folder_sort:
  assumes "wf_tree t" "extends t u" "folderChildren u p = folderChildren t p"
  shows "sort_ids (folder_key u) (folderChildren u p) = Some (sorted_folders t p)"
proof -
  have "sort_ids (folder_key u) (folderChildren t p) = sort_ids (folder_key t) (folderChildren t p)"
    by (rule sort_ids_agree) (use assms(1,2) in \<open>auto simp: wf_folderChildren folder_key_def extends_def\<close>)
  then show ?thesis by (simp add: assms(3) sort_ids_folders [OF assms(1)])
qed

lemma grown_conn_sort:
  assumes "wf_tree t" "extends t u" "connectionChildren u p = connectionChildren t p"
  shows "sort_ids (conn_key u) (connectionChildren u p) = Some (sorted_conns t p)"
proof -
  have "sort_ids (conn_key u) (connectionChildren t p) = sort_ids (conn_key t) (connectionChildren t p)"
    by (rule sort_ids_agree) (use assms(1,2) in \<open>auto simp: wf_connectionChildren conn_key_def extends_def\<close>)
  then show ?thesis by (simp add: assms(3) sort_ids_conns [OF assms(1)])
qed

lemma grows_folder:
  assumes "grows t g J v" "folder_at t i = Some f" "J s" "v (NFolder f) s = WDone s'"
  shows "J s'" "old_folder t q \<Longrightarrow> q \<noteq> f_ParentID f \<Longrightarrow> same_lists q (g s) (g s')"
    "connectionChildren (g s') (f_ParentID f) = connectionChildren (g s) (f_ParentID f)"
proof -
  note all = conjunct1 [OF conjunct2 [OF assms(1) [unfolded grows_def]], rule_format,
      of i f s s', OF conjI [OF assms(2) conjI [OF assms(3,4)]]]
  show "J s'" using all by (rule conjunct1)
  show "old_folder t q \<Longrightarrow> q \<noteq> f_ParentID f \<Longrightarrow> same_lists q (g s) (g s')"
    "connectionChildren (g s') (f_ParentID f) = connectionChildren (g s) (f_ParentID f)"
    using all by simp_all
qed

lemma grows_conn:
  assumes "grows t g J v" "conn_at t i = Some c" "J s" "v (NConn c) s = WDone s'"
  shows "J s'" "old_folder t q \<Longrightarrow> q \<noteq> c_ParentID c \<Longrightarrow> same_lists q (g s) (g s')"
proof -
  note all = conjunct2 [OF conjunct2 [OF assms(1) [unfolded grows_def]], rule_format,
      of i c s s', OF conjI [OF assms(2) conjI [OF assms(3,4)]]]
  show "J s'" using all by (rule conjunct1)
  show "old_folder t q \<Longrightarrow> q \<noteq> c_ParentID c \<Longrightarrow> same_lists q (g s) (g s')"
    using all by simp
qed

lemma grows_extends: "grows t g J v \<Longrightarrow> J s \<Longrightarrow> extends t (g s)"
  by (rule conjunct1 [OF iffD1 [OF grows_def], rule_format])

lemma same_lists_trans: "same_lists q t u \<Longrightarrow> same_lists q u w \<Longrightarrow> same_lists q t w"
  by (simp add: same_lists_def)

lemma same_lists_refl [simp]: "same_lists q t t"
  by (simp add: same_lists_def)

text \<open>The last part of a folder's walk: its connections.\<close>

lemma walk_conns_grow:
  assumes wf: "wf_tree t" and gr: "grows t g J v"
  shows "J s \<Longrightarrow> set ids \<subseteq> set (connectionChildren t p) \<Longrightarrow>
    walk_conns g v ids s = visit_all v (map (conn_node t) ids) s \<and>
    (\<forall>s'. visit_all v (map (conn_node t) ids) s = WDone s' \<longrightarrow>
       J s' \<and> (\<forall>q. old_folder t q \<and> q \<noteq> p \<longrightarrow> same_lists q (g s) (g s')))"
proof (induction ids arbitrary: s)
  case (Cons k ids)
  obtain c where c: "conn_at t k = Some c" "c_ParentID c = p"
    using Cons.prems(2) wf_connectionChildren [OF wf, of k p] by auto
  have n: "conn_node (g s) k = NConn c" "conn_node t k = NConn c"
    using c grows_extends [OF gr Cons.prems(1)] by (simp_all add: conn_node_def extends_def)
  show ?case
  proof (cases "v (NConn c) s")
    case (WDone s1)
    note st = grows_conn [OF gr c(1) Cons.prems(1) WDone]
    have sub: "set ids \<subseteq> set (connectionChildren t p)" using Cons.prems(2) by simp
    have ih1: "walk_conns g v ids s1 = visit_all v (map (conn_node t) ids) s1"
      using Cons.IH [OF st(1) sub] by blast
    have ih2: "J s' \<and> (\<forall>q. old_folder t q \<and> q \<noteq> p \<longrightarrow> same_lists q (g s1) (g s'))"
      if "visit_all v (map (conn_node t) ids) s1 = WDone s'" for s'
      using Cons.IH [OF st(1) sub] that by blast
    have "same_lists q (g s) (g s')"
      if "old_folder t q" "q \<noteq> p" "visit_all v (map (conn_node t) ids) s1 = WDone s'" for q s'
      using same_lists_trans [OF st(2) [of q]] ih2 [OF that(3)] that(1,2) c(2) by blast
    with ih1 ih2 show ?thesis unfolding walk_conns.simps list.map visit_all.simps n WDone by simp
  qed (simp_all add: n)
qed simp

text \<open>What is below one of the children of \<open>p\<close>, and what is not.\<close>

lemma under_sibling_apart:
  assumes wf: "wf_tree t" and r: "rooted (folders t) d p"
    and i: "i \<in> set (folderChildren t p)" and j: "j \<in> set (folderChildren t p)" "i \<noteq> j"
    and q: "under (folders t) i q"
  shows "\<not> under (folders t) j q"
  using under_siblings [OF q _ child_rooted [OF wf r i] child_rooted [OF wf r j(1)]] j(2) by blast

text \<open>The two parts of the induction: the state agrees with \<open>t\<close> on the lists of the folders the
  walk is still to read; the visits change no list outside the part of the tree they are in.\<close>

definition grown :: "Tree \<Rightarrow> ('s \<Rightarrow> Tree) \<Rightarrow> ('s \<Rightarrow> bool) \<Rightarrow> (ID \<Rightarrow> bool) \<Rightarrow> 's \<Rightarrow> ('e, 's) walk_result \<Rightarrow> bool" where
  "grown t g J X s r \<longleftrightarrow> (\<forall>s'. r = WDone s' \<longrightarrow>
     J s' \<and> (\<forall>q. old_folder t q \<and> \<not> X q \<longrightarrow> same_lists q (g s) (g s')))"

definition agrees :: "Tree \<Rightarrow> (ID \<Rightarrow> bool) \<Rightarrow> Tree \<Rightarrow> bool" where
  "agrees t X u \<longleftrightarrow> (\<forall>q. old_folder t q \<and> X q \<longrightarrow> same_lists q t u)"

lemma agrees_mono: "agrees t X u \<Longrightarrow> (\<And>q. Y q \<Longrightarrow> X q) \<Longrightarrow> agrees t Y u"
  by (simp add: agrees_def)

lemma grown_agrees:
  assumes "grown t g J X s (WDone s')" "agrees t Y (g s)" "\<And>q. Y q \<Longrightarrow> \<not> X q"
  shows "agrees t Y (g s')" "J s'"
  using assms same_lists_trans unfolding grown_def agrees_def by blast+

lemma walk_folders_grow:
  assumes wf: "wf_tree t" and gr: "grows t g J v" and r: "rooted (folders t) d p" and p: "old_folder t p"
    and sub: "\<And>i s. i \<in> set (folderChildren t p) \<Longrightarrow> J s \<Longrightarrow> agrees t (under (folders t) i) (g s) \<Longrightarrow>
      walkFrom n g v i s = visit_all v (pre n t i) s \<and>
      grown t g J (under (folders t) i) s (visit_all v (pre n t i) s)"
  shows "J s \<Longrightarrow> set ids \<subseteq> set (folderChildren t p) \<Longrightarrow> distinct ids \<Longrightarrow>
    (\<forall>i \<in> set ids. agrees t (under (folders t) i) (g s)) \<Longrightarrow>
    walk_folders n g v ids s = visit_all v (concat (map (\<lambda>i. folder_node t i # pre n t i) ids)) s \<and>
    grown t g J (\<lambda>q. under (folders t) p q) s
      (visit_all v (concat (map (\<lambda>i. folder_node t i # pre n t i) ids)) s) \<and>
    (\<forall>s'. visit_all v (concat (map (\<lambda>i. folder_node t i # pre n t i) ids)) s = WDone s' \<longrightarrow>
      connectionChildren (g s') p = connectionChildren (g s) p)"
proof (induction ids arbitrary: s)
  case Nil
  then show ?case by (simp add: grown_def)
next
  case (Cons i ids)
  have i: "i \<in> set (folderChildren t p)" using Cons.prems(2) by simp
  obtain f where f: "folder_at t i = Some f" "f_ParentID f = p"
    using i wf_folderChildren [OF wf, of i p] by auto
  have n: "folder_node (g s) i = NFolder f" "folder_node t i = NFolder f"
    using f grows_extends [OF gr Cons.prems(1)] by (simp_all add: folder_node_def extends_def)
  have pi: "under (folders t) p q" if "under (folders t) i q" for q
    using under_trans [OF that] under_step [of "folders t" i f p] f wf_folder(2) [OF wf f(1)] by simp
  have np: "\<not> under (folders t) k p" if "k \<in> set (folderChildren t p)" for k
    using child_not_above [OF wf r that] .
  show ?case
  proof (cases "v (NFolder f) s")
    case (WDone s1)
    note st = grows_folder [OF gr f(1) Cons.prems(1) WDone]
    have ag1: "agrees t (under (folders t) k) (g s1)" if k: "k \<in> set (i # ids)" for k
    proof -
      have ks: "k \<in> set (folderChildren t p)" using k Cons.prems(2) by auto
      have "agrees t (under (folders t) k) (g s)" using k Cons.prems(4) by blast
      then show ?thesis
        using st(2) f(2) np [OF ks] same_lists_trans unfolding agrees_def by blast
    qed
    have w: "walkFrom n g v i s1 = visit_all v (pre n t i) s1"
      "grown t g J (under (folders t) i) s1 (visit_all v (pre n t i) s1)"
      using sub [OF i st(1) ag1] by simp_all
    show ?thesis
    proof (cases "visit_all v (pre n t i) s1")
      case (WDone s2)
      have "\<not> under (folders t) i q" if "k \<in> set ids" "under (folders t) k q" for k q
        using under_sibling_apart [OF wf r, of k i q] that i Cons.prems(2,3) by auto
      then have ag2: "\<forall>k \<in> set ids. agrees t (under (folders t) k) (g s2)"
        using grown_agrees(1) [OF w(2) [unfolded WDone] ag1] by auto
      have J2: "J s2" using w(2) WDone by (simp add: grown_def)
      have "set ids \<subseteq> set (folderChildren t p)" "distinct ids" using Cons.prems(2,3) by simp_all
      from Cons.IH [OF J2 this ag2] have ih:
        "walk_folders n g v ids s2 = visit_all v (concat (map (\<lambda>i. folder_node t i # pre n t i) ids)) s2"
        "grown t g J (under (folders t) p) s2 (visit_all v (concat (map (\<lambda>i. folder_node t i # pre n t i) ids)) s2)"
        "visit_all v (concat (map (\<lambda>i. folder_node t i # pre n t i) ids)) s2 = WDone s' \<Longrightarrow>
           connectionChildren (g s') p = connectionChildren (g s2) p" for s'
        by simp_all
      have step: "same_lists q (g s) (g s2)" if "old_folder t q" "\<not> under (folders t) p q" for q
        using that st(2) [of q] w(2) WDone f(2) pi same_lists_trans under_refl unfolding grown_def by blast
      have cp: "connectionChildren (g s2) p = connectionChildren (g s) p"
        using st(3) f(2) w(2) WDone np [OF i] p unfolding grown_def same_lists_def by simp
      have "grown t g J (under (folders t) p) s
          (visit_all v (concat (map (\<lambda>i. folder_node t i # pre n t i) ids)) s2)"
        using ih(2) same_lists_trans [OF step] unfolding grown_def by simp
      then show ?thesis
        using ih cp w(1) \<open>v (NFolder f) s = WDone s1\<close> WDone by (simp add: n visit_all_append)
    qed (use w WDone in \<open>simp_all add: n visit_all_append grown_def\<close>)
  qed (simp_all add: n grown_def)
qed

lemma walkFrom_grow:
  assumes wf: "wf_tree t" and gr: "grows t g J v"
  shows "rooted (folders t) d p \<Longrightarrow> old_folder t p \<Longrightarrow> gomap_len (folders t) < n + d \<Longrightarrow> J s \<Longrightarrow>
    agrees t (under (folders t) p) (g s) \<Longrightarrow>
    walkFrom n g v p s = visit_all v (pre n t p) s \<and>
    grown t g J (under (folders t) p) s (visit_all v (pre n t p) s)"
proof (induction n arbitrary: d p s)
  case 0
  then show ?case using rooted_bound [OF 0(1)] by simp
next
  case (Suc n)
  let ?fs = "concat (map (\<lambda>i. folder_node t i # pre n t i) (sorted_folders t p))"
  have pp: "same_lists p t (g s)" using Suc.prems(2,5) by (simp add: agrees_def)
  have known: "old_folder t i" "under (folders t) p i" if mem: "i \<in> set (folderChildren t p)" for i
  proof -
    obtain f where f: "folder_at t i = Some f" "f_ParentID f = p"
      using iffD1 [OF wf_folderChildren [OF wf] mem] by blast
    then show "old_folder t i" by (simp add: old_folder_def)
    show "under (folders t) p i"
      by (rule under_step [OF f(1) wf_folder(2) [OF wf f(1)]]) (simp add: f(2))
  qed
  have sub: "walkFrom n g v i s = visit_all v (pre n t i) s \<and>
      grown t g J (under (folders t) i) s (visit_all v (pre n t i) s)"
    if "i \<in> set (folderChildren t p)" "J s" "agrees t (under (folders t) i) (g s)" for i s
    using Suc.IH [OF child_rooted [OF wf Suc.prems(1) that(1)] known(1) [OF that(1)] _ that(2,3)]
      Suc.prems(3) by simp
  have "agrees t (under (folders t) i) (g s)" if "i \<in> set (folderChildren t p)" for i
    by (rule agrees_mono [OF Suc.prems(5)]) (rule under_trans [OF _ known(2) [OF that]])
  then have fs: "walk_folders n g v (sorted_folders t p) s = visit_all v ?fs s"
    "grown t g J (under (folders t) p) s (visit_all v ?fs s)"
    "visit_all v ?fs s = WDone s1 \<Longrightarrow> connectionChildren (g s1) p = connectionChildren (g s) p" for s1
    using walk_folders_grow [OF wf gr Suc.prems(1,2) sub Suc.prems(4), of "sorted_folders t p"]
      wf_distinct(1) [OF wf] by (simp_all add: sorted_folders_def)
  have fsort: "sort_ids (folder_key (g s)) (folderChildren (g s) p) = Some (sorted_folders t p)"
    by (rule grown_folder_sort [OF wf grows_extends [OF gr Suc.prems(4)]]) (use pp in \<open>simp add: same_lists_def\<close>)
  show ?case
  proof (cases "visit_all v ?fs s")
    case (WDone s1)
    have J1: "J s1" and l1: "old_folder t q \<Longrightarrow> \<not> under (folders t) p q \<Longrightarrow> same_lists q (g s) (g s1)" for q
      using fs(2) WDone by (simp_all add: grown_def)
    have "connectionChildren (g s1) p = connectionChildren t p"
      using fs(3) [OF WDone] pp by (simp add: same_lists_def)
    then have csort: "sort_ids (conn_key (g s1)) (connectionChildren (g s1) p) = Some (sorted_conns t p)"
      using grown_conn_sort [OF wf grows_extends [OF gr J1]] by simp
    let ?cs = "visit_all v (map (conn_node t) (sorted_conns t p)) s1"
    note cs = walk_conns_grow [OF wf gr J1, of "sorted_conns t p" p, unfolded set_sorted, OF subset_refl]
    note cs1 = cs [THEN conjunct1] and cs2 = cs [THEN conjunct2, rule_format]
    have "same_lists q (g s) (g s2)" if "old_folder t q" "\<not> under (folders t) p q" "?cs = WDone s2" for q s2
    proof -
      have "q \<noteq> p" using that(2) by auto
      then have "same_lists q (g s1) (g s2)" using cs2 [OF that(3)] that(1) by simp
      with l1 [OF that(1,2)] show ?thesis by (rule same_lists_trans)
    qed
    moreover have "J s2" if "?cs = WDone s2" for s2 using cs2 [OF that] by (rule conjunct1)
    ultimately have "grown t g J (under (folders t) p) s ?cs" unfolding grown_def by simp
    moreover have "visit_all v (pre (Suc n) t p) s = ?cs" by (simp add: visit_all_append WDone)
    moreover have "walkFrom (Suc n) g v p s = ?cs" by (simp add: fsort fs(1) WDone csort cs1)
    ultimately show ?thesis by simp
  qed (simp_all add: visit_all_append grown_def fs(1) fsort)
qed

theorem Walk_grow:
  assumes "wf_tree t" "grows t g J v" "J s" "g s = t"
  shows "Walk g v s = visit_all v (preorder t) s"
proof -
  have "old_folder t NilID" "gomap_len (folders t) < tree_fuel t + 0" "agrees t (under (folders t) NilID) (g s)"
    using assms(4) by (simp_all add: old_folder_def tree_fuel_def agrees_def)
  from walkFrom_grow [OF assms(1,2) rooted_nil this(1,2) assms(3) this(3)]
  have "walkFrom (tree_fuel t) g v NilID s = visit_all v (pre (tree_fuel t) t NilID) s" by (rule conjunct1)
  then show ?thesis by (simp add: Walk_def preorder_def assms(4))
qed

text \<open>Visits that never stop, with an invariant of the nodes visited so far.\<close>

lemma visit_all_inv:
  assumes "\<And>xs n ys s. ns = xs @ n # ys \<Longrightarrow> D xs s \<Longrightarrow> \<exists>s'. v n s = WDone s' \<and> D (xs @ [n]) s'"
    and "D [] s"
  shows "\<exists>s'. visit_all v ns s = WDone s' \<and> D ns s'"
proof -
  have "\<exists>s'. visit_all v ys s = WDone s' \<and> D ns s'" if "ns = xs @ ys" "D xs s" for xs ys s
    using that
  proof (induction ys arbitrary: xs s)
    case (Cons n ys)
    obtain s1 where s1: "v n s = WDone s1" "D (xs @ [n]) s1"
      using assms(1) [OF Cons.prems] by blast
    with Cons.IH [OF _ s1(2)] Cons.prems(1) show ?case by simp
  qed simp
  from this [of "[]"] assms(2) show ?thesis by simp
qed

subsection \<open>Nodes by their accessors\<close>

text \<open>The totalised accessors of a non-nil node.\<close>

fun is_node :: "node \<Rightarrow> bool" where
  "is_node (NFolder f) = True"
| "is_node (NConn c) = True"
| "is_node _ = False"

fun nid :: "node \<Rightarrow> ID" where
  "nid (NFolder f) = f_ID f"
| "nid (NConn c) = c_ID c"
| "nid _ = NilID"

fun npar :: "node \<Rightarrow> ID" where
  "npar (NFolder f) = f_ParentID f"
| "npar (NConn c) = c_ParentID c"
| "npar _ = NilID"

fun nname :: "node \<Rightarrow> string" where
  "nname (NFolder f) = f_Name f"
| "nname (NConn c) = c_Name c"
| "nname _ = ''''"

lemma FindByID_kinds:
  "FindByID i t = Inr n \<Longrightarrow>
    (\<exists>f. folder_at t i = Some f \<and> n = NFolder f) \<or> (\<exists>c. conn_at t i = Some c \<and> folder_at t i = None \<and> n = NConn c)"
  by (auto simp: FindByID_def split: option.splits)

lemma preorder_node:
  assumes wf: "wf_tree t" and m: "m \<in> set (preorder t)"
  shows "is_node m" "FindByID (nid m) t = Inr m" "nid m \<noteq> NilID" "old_folder t (npar m)"
proof -
  from m consider f i where "m = NFolder f" "folder_at t i = Some f"
    | c k where "m = NConn c" "conn_at t k = Some c"
    by (auto simp: set_preorder [OF wf])
  then have "is_node m \<and> FindByID (nid m) t = Inr m \<and> nid m \<noteq> NilID \<and> old_folder t (npar m)"
  proof cases
    case (1 f i)
    obtain d where "rooted (folders t) d (f_ParentID f)" using wf_folder(3) [OF wf 1(2)] by blast
    then have "old_folder t (f_ParentID f)"
      by (cases rule: rooted.cases) (simp_all add: old_folder_def)
    with 1 wf_folder(1,2) [OF wf 1(2)] show ?thesis by (simp add: FindByID_def)
  next
    case (2 c k)
    with wf_conn [OF wf 2(2)] show ?thesis by (auto simp: FindByID_def old_folder_def)
  qed
  then show "is_node m" "FindByID (nid m) t = Inr m" "nid m \<noteq> NilID" "old_folder t (npar m)" by simp_all
qed

lemma find_preorder: "wf_tree t \<Longrightarrow> FindByID x t = Inr n \<Longrightarrow> n \<in> set (preorder t) \<and> nid n = x"
  by (drule FindByID_kinds) (auto simp: set_preorder dest: wf_folder(1) wf_conn(1))

lemma NodeID_nid: "is_node m \<Longrightarrow> NodeID m = Some (nid m)"
  by (cases m) simp_all

lemma folder_ids_set: "folder_ids xs = {f_ID g | g. NFolder g \<in> set xs}"
  by (induction xs rule: folder_ids.induct) auto

lemma before_parent:
  assumes "wf_tree t" "preorder t = xs @ n # ys"
  shows "nid n \<notin> nid ` set xs" "npar n = NilID \<or> (\<exists>g. NFolder g \<in> set xs \<and> f_ID g = npar n)"
proof -
  have nodes: "is_node m" if "m \<in> set (preorder t)" for m using preorder_node(1) [OF assms(1) that] .
  show "nid n \<notin> nid ` set xs"
  proof
    assume "nid n \<in> nid ` set xs"
    then obtain m where "m \<in> set xs" "nid m = nid n" by auto
    then have "NodeID n \<in> set (map NodeID xs)"
      using nodes assms(2) NodeID_nid [of m] NodeID_nid [of n] by force
    with preorder_once [OF assms(1)] assms(2) show False by simp
  qed
  have "parents_first (insert NilID (folder_ids xs)) (n # ys)"
    using preorder_parents_first [OF assms(1)] by (simp add: assms(2) parents_first_append)
  then have "npar n \<in> insert NilID (folder_ids xs)"
    using nodes [of n] assms(2) by (cases n) simp_all
  then show "npar n = NilID \<or> (\<exists>g. NFolder g \<in> set xs \<and> f_ID g = npar n)"
    by (auto simp: folder_ids_set)
qed

end
