(* ===== verification/AppInv.thy ===== *)
theory AppInv
  imports AppCore TreeGrow
begin

text \<open>
  What every command of the application keeps: the tree stays well-formed, a failing command
  changes nothing, a successful one leaves the state dirty, signals the persister and
  publishes one event. \<open>command\<close> is one call of one of the commands.
\<close>

subsection \<open>Walks with a visitor that keeps a property\<close>

fun res_all :: "('s \<Rightarrow> bool) \<Rightarrow> ('e, 's) walk_result \<Rightarrow> bool" where
  "res_all P (WDone s) = P s"
| "res_all P (WStop e s) = P s"
| "res_all P (WPanic s) = P s"
| "res_all P WLoop = True"

lemma walk_conns_all:
  assumes "\<And>n s. P s \<Longrightarrow> res_all P (v n s)"
  shows "P s \<Longrightarrow> res_all P (walk_conns g v ids s)"
proof (induction ids arbitrary: s)
  case (Cons i ids)
  then show ?case using assms [OF Cons.prems, of "conn_node (g s) i"]
    by (cases "v (conn_node (g s) i) s") simp_all
qed simp

definition keeps :: "('s \<Rightarrow> bool) \<Rightarrow> ('e, 's) visitor \<Rightarrow> bool" where
  "keeps P v \<longleftrightarrow> (\<forall>n s. P s \<longrightarrow> res_all P (v n s))"

lemma walkFrom_all:
  shows "keeps P v \<Longrightarrow> P s \<Longrightarrow> res_all P (walkFrom n g v p s)"
    and "keeps P v \<Longrightarrow> P s \<Longrightarrow> res_all P (walk_folders n g v ids s)"
proof (induction n g v p s and n g v ids s rule: walkFrom_walk_folders.induct)
  case (2 n g v p s)
  show ?case
  proof (cases "sort_ids (folder_key (g s)) (folderChildren (g s) p)")
    case (Some ids)
    with 2 have ih: "res_all P (walk_folders n g v ids s)" by simp
    show ?thesis
    proof (cases "walk_folders n g v ids s")
      case (WDone s1)
      with ih have "P s1" by simp
      then have "res_all P (walk_conns g v cids s1)" for cids
        using 2(2) by (intro walk_conns_all) (simp_all add: keeps_def)
      with Some WDone \<open>P s1\<close> show ?thesis
        by (simp split: option.split)
    qed (use Some ih in simp_all)
  qed (use 2 in simp)
next
  case (4 n g v i ids s)
  then have a: "res_all P (v (folder_node (g s) i) s)" by (simp add: keeps_def)
  show ?case
  proof (cases "v (folder_node (g s) i) s")
    case (WDone s1)
    with a 4(1,3) have b: "res_all P (walkFrom n g v i s1)" by simp
    show ?thesis
    proof (cases "walkFrom n g v i s1")
      case (WDone s2)
      with b 4(2,3) \<open>v (folder_node (g s) i) s = WDone s1\<close> show ?thesis by simp
    qed (use b \<open>v (folder_node (g s) i) s = WDone s1\<close> in simp_all)
  qed (use a in simp_all)
qed simp_all

lemma Walk_all: "keeps P v \<Longrightarrow> P s \<Longrightarrow> res_all P (Walk g v s)"
  unfolding Walk_def by (rule walkFrom_all(1))

subsection \<open>The visitors of the commands\<close>

lemma add_copy_wf: "wf_tree (ds_tree s) \<Longrightarrow> res_all (\<lambda>s. wf_tree (ds_tree s)) (add_copy n s)"
  by (auto simp: add_copy_def split: node.split sum.split intro: inv_intros)

lemma dup_visit_wf: "keeps (\<lambda>s. wf_tree (ds_tree s)) (dup_visit rnd i)"
  unfolding keeps_def
proof (intro allI impI)
  fix n and s :: dup_state assume s: "wf_tree (ds_tree s)"
  have "wf_tree (ds_tree (s\<lparr>ds_idMap := m, ds_count := k\<rparr>))"
    "wf_tree (ds_tree (s\<lparr>ds_idMap := m, ds_count := k, ds_root := r, ds_kind := q, ds_name := w\<rparr>))"
    for m k r q w using s by simp_all
  from this [THEN add_copy_wf] s show "res_all (\<lambda>s. wf_tree (ds_tree s)) (dup_visit rnd i n s)"
    by (simp add: dup_visit_def Let_def split: node.split option.split)
qed

lemma merge_visit_wf: "keeps (\<lambda>s. wf_tree (snd s)) merge_visit"
  by (auto simp: keeps_def merge_visit_def split: node.split sum.split intro: inv_intros)

subsection \<open>One call of a command\<close>

definition err_of :: "'e + 'r \<Rightarrow> 'e option" where
  "err_of r = (case r of Inl e \<Rightarrow> Some e | Inr _ \<Rightarrow> None)"

lemma err_of_simps [simp]: "err_of (Inl e) = Some e" "err_of (Inr x) = None"
  by (simp_all add: err_of_def)

text \<open>What a successful command leaves: the state is dirty, the persister (if any) signalled and
  one event published, unless the application is shut down; apart from the tree, nothing else.\<close>

definition committed :: "app \<Rightarrow> app \<Rightarrow> bool" where
  "committed a a' \<longleftrightarrow> (\<exists>es. a' = a\<lparr>a_tree := a_tree a', a_dirty := True,
     a_signal := a_signal a \<or> a_started a, a_events := a_events a @ es\<rparr> \<and>
     length es = (if a_root_done a then 0 else 1))"

lemma commit_result:
  assumes "commit now k e r (a\<lparr>a_tree := t\<rparr>) = Returns (r', a')"
  shows "r' = Inr r" "a_tree a' = t" "committed a a'"
proof -
  have m: "markDirty (a\<lparr>a_tree := t\<rparr>) = Returns
      (a\<lparr>a_tree := t, a_dirty := True, a_signal := a_signal a \<or> a_started a\<rparr>)" (is "_ = Returns ?a1")
    using assms by (auto simp: commit_def markDirty_def Let_def split: if_splits)
  then have r: "r' = Inr r" and a': "a' = publish_app now k e ?a1"
    using assms by (auto simp: commit_def)
  show "r' = Inr r" by (fact r)
  show "a_tree a' = t" by (simp add: a' publish_app_def)
  show "committed a a'" unfolding committed_def
    by (rule exI [of _ "if a_root_done a then [] else [if ae_At e = 0 then e\<lparr>ae_At := now k\<rparr> else e]"])
      (simp add: a' publish_app_def)
qed

lemma commit_shutdown:
  "a_started a \<Longrightarrow> a_sig_closed a \<Longrightarrow> commit now k e r a = Panics"
  by (simp add: commit_def markDirty_def Let_def)

text \<open>The two ways a command returns.\<close>

definition outcome :: "(Tree \<Rightarrow> bool) \<Rightarrow> app \<Rightarrow> app_error + 'r \<Rightarrow> app \<Rightarrow> bool" where
  "outcome Q a r a' \<longleftrightarrow> (case r of Inl e \<Rightarrow> a' = a | Inr _ \<Rightarrow> committed a a' \<and> Q (a_tree a'))"

lemma outcome_fail: "fail e a = Returns (r, a') \<Longrightarrow> outcome Q a r a'"
  by (auto simp: fail_def outcome_def)

lemma outcome_commit:
  "commit now k e r0 (a\<lparr>a_tree := t\<rparr>) = Returns (r, a') \<Longrightarrow> Q t \<Longrightarrow> outcome Q a r a'"
  by (frule commit_result(1); frule commit_result(2); drule commit_result(3)) (simp add: outcome_def)

lemma CreateFolder_outcome:
  assumes wf: "wf_tree (a_tree a)" and "CreateFolder ctx rnd now p name opts a = Returns (r, a')"
  shows "outcome wf_tree a r a'"
  using assms(2) AddFolder_wf [OF wf] unfolding CreateFolder_def Let_def
  by (auto split: if_splits sum.splits intro: outcome_fail elim!: outcome_commit)

lemma CreateConnection_outcome:
  assumes wf: "wf_tree (a_tree a)" and "CreateConnection ctx rnd now p opts a = Returns (r, a')"
  shows "outcome wf_tree a r a'"
  using assms(2) AddConnection_wf [OF wf] unfolding CreateConnection_def Let_def
  by (auto split: if_splits sum.splits intro: outcome_fail elim!: outcome_commit)

lemma set_conn_wf:
  assumes wf: "wf_tree t" and c: "Connection i t = Inr c0" and "c_ID c = c_ID c0" "c_ParentID c = c_ParentID c0"
  shows "wf_tree (set_conn i c t)"
proof -
  have c0: "conn_at t i = Some c0" using c by (simp add: Connection_def split: option.splits)
  then have "set_conn i c t = put_conn c t"
    using wf_conn(1) [OF wf c0] assms(3) by (simp add: set_conn_def put_conn_def)
  then show ?thesis using put_conn_wf [OF wf, of c c0] c0 wf_conn(1) [OF wf c0] assms(3,4) by simp
qed

lemma set_folder_wf:
  assumes wf: "wf_tree t" and f: "Folder i t = Inr f0" and "f_ID f = f_ID f0" "f_ParentID f = f_ParentID f0"
  shows "wf_tree (set_folder i f t)"
proof -
  have f0: "folder_at t i = Some f0" using f by (simp add: Folder_def split: option.splits)
  then have "set_folder i f t = put_folder f t"
    using wf_folder(1) [OF wf f0] assms(3) by (simp add: set_folder_def put_folder_def)
  then show ?thesis using put_folder_wf [OF wf, of f f0] f0 wf_folder(1) [OF wf f0] assms(3,4) by simp
qed

lemma UpdateConnection_outcome:
  assumes wf: "wf_tree (a_tree a)" and "UpdateConnection ctx now i patch a = Returns (r, a')"
  shows "outcome wf_tree a r a'"
  using assms(2) set_conn_wf [OF wf] unfolding UpdateConnection_def Let_def
  by (auto split: if_splits sum.splits intro: outcome_fail elim!: outcome_commit simp: patch_conn_def)

lemma ToggleFavorite_outcome:
  assumes wf: "wf_tree (a_tree a)" and "ToggleFavorite ctx now i a = Returns (r, a')"
  shows "outcome wf_tree a r a'"
  using assms(2) set_conn_wf [OF wf] unfolding ToggleFavorite_def Let_def
  by (auto split: if_splits sum.splits intro: outcome_fail elim!: outcome_commit)

lemma UpdateFolder_outcome:
  assumes wf: "wf_tree (a_tree a)" and "UpdateFolder ctx now i patch a = Returns (r, a')"
  shows "outcome wf_tree a r a'"
  using assms(2) set_folder_wf [OF wf] unfolding UpdateFolder_def Let_def
  by (auto split: if_splits sum.splits intro: outcome_fail elim!: outcome_commit simp: patch_folder_def)

lemma MoveNode_outcome:
  assumes wf: "wf_tree (a_tree a)" and "MoveNode ctx now i p a = Returns (r, a')"
  shows "outcome wf_tree a r a'"
  using assms(2) Move_wf [OF wf] unfolding MoveNode_def
  by (auto split: if_splits sum.splits option.splits intro: outcome_fail elim!: outcome_commit)

lemma Remove_known:
  assumes "wf_tree t" "FindByID i t = Inr n" "Remove i t = Some (eo, t')"
  shows "eo = None"
  using FindByID_kinds [OF assms(2)] Remove_folder [OF assms(1), of i] Remove_conn [OF assms(1), of i]
    assms(3) by auto

lemma DeleteNode_outcome:
  assumes wf: "wf_tree (a_tree a)" and nr: "\<not> root_conn (a_tree a) i"
    and d: "DeleteNode ctx now i a = Returns (r, a')"
  shows "outcome wf_tree a r a'"
proof (cases "\<not> ctx")
  case False
  show ?thesis
  proof (cases "FindByID i (a_tree a)")
    case (Inr n)
    then obtain p where p: "NodeParent n = Some p" by (auto dest: FindByID_kinds)
    obtain t where t: "Remove i (a_tree a) = Some (None, t)"
      using Remove_returns [OF wf, of i] Remove_known [OF wf Inr] by (cases "Remove i (a_tree a)") auto
    show ?thesis using d False Inr p t Remove_wf [OF wf t nr]
      by (auto simp: DeleteNode_def elim!: outcome_commit)
  qed (use d False in \<open>auto simp: DeleteNode_def intro: outcome_fail\<close>)
qed (use d in \<open>auto simp: DeleteNode_def intro: outcome_fail\<close>)

end

