(* ===== verification/AppDuplicate.thy ===== *)
theory AppDuplicate
  imports AppInv
begin

text \<open>
  \<open>DuplicateNode\<close> makes exactly one copy of every node of the subtree. The walk visits the
  original nodes although the visitor extends the tree; with identifiers that are new and
  distinct, no insertion fails, and the map of the identifiers is the renaming of the copy.
\<close>

subsection \<open>Copies of nodes\<close>

text \<open>The copy of a node with a new ID, a new parent and a suffix to its name.\<close>

fun clone :: "node \<Rightarrow> ID \<Rightarrow> ID \<Rightarrow> string \<Rightarrow> node" where
  "clone (NFolder f) y p sfx = NFolder ((copy_folder f)\<lparr>f_ID := y, f_ParentID := p, f_Name := f_Name f @ sfx\<rparr>)"
| "clone (NConn c) y p sfx = NConn ((copy_conn c)\<lparr>c_ID := y, c_ParentID := p, c_Name := c_Name c @ sfx\<rparr>)"
| "clone n y p sfx = n"

lemma clone_simps [simp]:
  "is_node (clone n y p sfx) = is_node n"
  "is_node n \<Longrightarrow> nid (clone n y p sfx) = y"
  "is_node n \<Longrightarrow> npar (clone n y p sfx) = p"
  "is_node n \<Longrightarrow> nname (clone n y p sfx) = nname n @ sfx"
  "NodeKind (clone n y p sfx) = NodeKind n"
  by (cases n; simp)+

text \<open>The copy under the renaming \<open>h\<close> of the subtree of \<open>i\<close>.\<close>

definition copied :: "(ID \<Rightarrow> ID) \<Rightarrow> ID \<Rightarrow> node \<Rightarrow> node" where
  "copied h i n = clone n (h (nid n)) (if nid n = i then npar n else h (npar n))
     (if nid n = i then '' (copy)'' else [])"

text \<open>The node belongs to what is duplicated.\<close>

definition in_subtree :: "Tree \<Rightarrow> ID \<Rightarrow> node \<Rightarrow> bool" where
  "in_subtree t i n \<longleftrightarrow> nid n = i \<or> under (folders t) i (npar n)"

lemma copy_folder_id [simp]: "f_ID (copy_folder f) = f_ID f" "f_ParentID (copy_folder f) = f_ParentID f"
    "f_Name (copy_folder f) = f_Name f"
  by (simp_all add: copy_folder_def Let_def)

lemma copy_conn_id [simp]: "c_ID (copy_conn c) = c_ID c" "c_ParentID (copy_conn c) = c_ParentID c"
    "c_Name (copy_conn c) = c_Name c"
  by (simp_all add: copy_conn_def Let_def)

lemma folder_same_update:
  "p = f_ParentID x \<Longrightarrow> x\<lparr>f_ID := y, f_ParentID := p, f_Name := w\<rparr> = x\<lparr>f_ID := y, f_Name := w\<rparr>"
  "w = f_Name x \<Longrightarrow> x\<lparr>f_ID := y, f_ParentID := p, f_Name := w\<rparr> = x\<lparr>f_ID := y, f_ParentID := p\<rparr>" for x :: FolderNode
  by simp_all

lemma conn_same_update:
  "p = c_ParentID x \<Longrightarrow> x\<lparr>c_ID := y, c_ParentID := p, c_Name := w\<rparr> = x\<lparr>c_ID := y, c_Name := w\<rparr>"
  "w = c_Name x \<Longrightarrow> x\<lparr>c_ID := y, c_ParentID := p, c_Name := w\<rparr> = x\<lparr>c_ID := y, c_ParentID := p\<rparr>" for x :: ConnectionNode
  by simp_all

lemma dup_visit_node:
  assumes "is_node n"
  shows "dup_visit rnd i n s = (let new = NewID (rnd (ds_count s)) in
    if nid n = i then add_copy (clone n new (npar n) '' (copy)'')
      (s\<lparr>ds_idMap := (ds_idMap s)(i \<mapsto> new), ds_count := Suc (ds_count s), ds_root := new,
         ds_kind := Some (NodeKind n), ds_name := nname n @ '' (copy)''\<rparr>)
    else case ds_idMap s (npar n) of
        None \<Rightarrow> WDone s
      | Some p \<Rightarrow> add_copy (clone n new p [])
          (s\<lparr>ds_idMap := (ds_idMap s)(nid n \<mapsto> new), ds_count := Suc (ds_count s)\<rparr>))"
proof (cases n)
  case (NFolder f)
  then show ?thesis by (simp add: dup_visit_def Let_def folder_same_update split: option.split)
next
  case (NConn c)
  then show ?thesis by (simp add: dup_visit_def Let_def conn_same_update split: option.split)
qed (use assms in simp_all)

subsection \<open>Inserting one copy\<close>

text \<open>The tree with one more node.\<close>

fun with_node :: "node \<Rightarrow> Tree \<Rightarrow> Tree" where
  "with_node (NFolder f) t = t\<lparr>folders := fmupd (f_ID f) f (folders t),
     folderChildren := append_child (f_ParentID f) (f_ID f) (folderChildren t)\<rparr>"
| "with_node (NConn c) t = t\<lparr>connections := fmupd (c_ID c) c (connections t),
     connectionChildren := append_child (c_ParentID c) (c_ID c) (connectionChildren t)\<rparr>"
| "with_node n t = t"

definition unknown :: "Tree \<Rightarrow> ID \<Rightarrow> bool" where
  "unknown t y \<longleftrightarrow> folder_at t y = None \<and> conn_at t y = None"

lemma add_copy_done:
  assumes "is_node n" "add_copy n s = WDone s'"
  shows "s' = s\<lparr>ds_tree := with_node n (ds_tree s)\<rparr>"
  using assms AddFolder_result AddConnection_result
  by (cases n) (auto simp: add_copy_def split: sum.splits dest!: AddFolder_result AddConnection_result)

lemma add_copy_ok:
  assumes wf: "wf_tree (ds_tree s)" and n: "is_node n" "nid n \<noteq> NilID" "unknown (ds_tree s) (nid n)"
    "old_folder (ds_tree s) (npar n)"
  shows "add_copy n s = WDone (s\<lparr>ds_tree := with_node n (ds_tree s)\<rparr>)" "wf_tree (with_node n (ds_tree s))"
proof -
  have "\<exists>s'. add_copy n s = WDone s'"
    using n by (cases n) (auto simp: add_copy_def AddFolder_def AddConnection_def unknown_def old_folder_def)
  then obtain s' where s': "add_copy n s = WDone s'" ..
  with add_copy_done [OF n(1) s'] show "add_copy n s = WDone (s\<lparr>ds_tree := with_node n (ds_tree s)\<rparr>)" by simp
  from add_copy_wf [OF wf, of n] s' add_copy_done [OF n(1) s'] show "wf_tree (with_node n (ds_tree s))" by simp
qed

lemma FindByID_with_node:
  assumes "is_node n" "unknown t (nid n)"
  shows "FindByID y (with_node n t) = (if y = nid n then Inr n else FindByID y t)"
  using assms by (cases n) (auto simp: FindByID_def unknown_def split: option.split)

lemma unknown_find: "unknown t y \<longleftrightarrow> (\<forall>n. FindByID y t \<noteq> Inr n)"
  by (auto simp: unknown_def FindByID_def split: option.splits)

lemma folder_at_with_node: "folder_at (with_node n t) y =
    (case n of NFolder f \<Rightarrow> if y = f_ID f then Some f else folder_at t y | _ \<Rightarrow> folder_at t y)"
  by (cases n) simp_all

lemma conn_at_with_node: "conn_at (with_node n t) y =
    (case n of NConn c \<Rightarrow> if y = c_ID c then Some c else conn_at t y | _ \<Rightarrow> conn_at t y)"
  by (cases n) simp_all

lemma same_lists_with_node: "q \<noteq> npar n \<Longrightarrow> same_lists q t (with_node n t)"
  by (cases n) (simp_all add: same_lists_def append_child_def)

lemma extends_with_node:
  "extends t u \<Longrightarrow> is_node n \<Longrightarrow> unknown t (nid n) \<Longrightarrow> extends t (with_node n u)"
  by (cases n) (auto simp: extends_def unknown_def)

subsection \<open>The walk visits the original tree\<close>

text \<open>The identifiers the random source yields are new, and distinct as far as they are drawn.\<close>

definition fresh_ids :: "Tree \<Rightarrow> (nat \<Rightarrow> ID) \<Rightarrow> bool" where
  "fresh_ids t rnd \<longleftrightarrow> (\<forall>k. NewID (rnd k) \<noteq> NilID \<and> unknown t (NewID (rnd k))) \<and>
     inj_on (\<lambda>k. NewID (rnd k)) {..<length (preorder t)}"

definition new_ids :: "Tree \<Rightarrow> dup_state \<Rightarrow> bool" where
  "new_ids t s \<longleftrightarrow> extends t (ds_tree s) \<and>
     (\<forall>x y. ds_idMap s x = Some y \<longrightarrow> y \<noteq> NilID \<and> unknown t y)"

lemma old_folder_not_new: "old_folder t q \<Longrightarrow> y \<noteq> NilID \<Longrightarrow> unknown t y \<Longrightarrow> q \<noteq> y"
  by (auto simp: old_folder_def unknown_def)

lemma dup_visit_grows_node:
  assumes fr: "fresh_ids t rnd" and n: "is_node n" and s: "new_ids t s"
    and v: "dup_visit rnd i n s = WDone s'"
  shows "new_ids t s'" "old_folder t q \<Longrightarrow> q \<noteq> npar n \<Longrightarrow> same_lists q (ds_tree s) (ds_tree s')"
    "n = NFolder f \<Longrightarrow> connectionChildren (ds_tree s') = connectionChildren (ds_tree s)"
proof -
  let ?new = "NewID (rnd (ds_count s))"
  have new: "?new \<noteq> NilID" "unknown t ?new" using fr by (simp_all add: fresh_ids_def)
  have ext: "extends t (ds_tree s)" using s by (simp add: new_ids_def)
  consider (skip) "s' = s"
    | (add) p sfx m where "p = npar n \<or> p \<noteq> NilID \<and> unknown t p"
        "ds_tree s' = with_node (clone n ?new p sfx) (ds_tree s)" "ds_idMap s' = (ds_idMap s)(m \<mapsto> ?new)"
  proof (cases "nid n = i")
    case True
    with v dup_visit_node [OF n, of rnd i s] have
      "add_copy (clone n ?new (npar n) '' (copy)'') (s\<lparr>ds_idMap := (ds_idMap s)(i \<mapsto> ?new),
         ds_count := Suc (ds_count s), ds_root := ?new, ds_kind := Some (NodeKind n),
         ds_name := nname n @ '' (copy)''\<rparr>) = WDone s'" by (simp add: Let_def)
    from add_copy_done [OF _ this] n show ?thesis by (intro add [of "npar n"]) simp_all
  next
    case False
    show ?thesis
    proof (cases "ds_idMap s (npar n)")
      case None
      with False v dup_visit_node [OF n, of rnd i s] show ?thesis by (intro skip) (simp add: Let_def)
    next
      case (Some p)
      with False v dup_visit_node [OF n, of rnd i s] have
        "add_copy (clone n ?new p []) (s\<lparr>ds_idMap := (ds_idMap s)(nid n \<mapsto> ?new),
           ds_count := Suc (ds_count s)\<rparr>) = WDone s'" by (simp add: Let_def)
      from add_copy_done [OF _ this] n s Some show ?thesis
        by (intro add [of p]) (simp_all add: new_ids_def)
    qed
  qed
  note step = this
  show "new_ids t s'" using step
  proof cases
    case add
    have "extends t (ds_tree s')" unfolding add(2)
      by (rule extends_with_node [OF ext]) (use n new in simp_all)
    then show ?thesis using s new by (simp add: new_ids_def add(3))
  qed (use s in simp)
  show "same_lists q (ds_tree s) (ds_tree s')" if "old_folder t q" "q \<noteq> npar n" using step
  proof cases
    case (add p)
    then have "q \<noteq> p" using that old_folder_not_new by blast
    then show ?thesis unfolding add(2) by (intro same_lists_with_node) (simp add: n)
  qed simp
  show "connectionChildren (ds_tree s') = connectionChildren (ds_tree s)" if "n = NFolder f" using step
    by cases (simp_all add: that)
qed

lemma dup_visit_grows: "fresh_ids t rnd \<Longrightarrow> grows t ds_tree (new_ids t) (dup_visit rnd i)"
  unfolding grows_def
proof (intro conjI allI impI; (elim conjE)?)
  show "extends t (ds_tree s)" if "new_ids t s" for s using that by (simp add: new_ids_def)
next
  fix j f s s' assume fr: "fresh_ids t rnd" and s: "new_ids t s" "dup_visit rnd i (NFolder f) s = WDone s'"
  note facts = dup_visit_grows_node [OF fr _ s]
  show "new_ids t s'" by (rule facts(1)) simp
  show "same_lists q (ds_tree s) (ds_tree s')" if "old_folder t q" "q \<noteq> f_ParentID f" for q
    by (rule facts(2)) (use that in simp_all)
  show "connectionChildren (ds_tree s') (f_ParentID f) = connectionChildren (ds_tree s) (f_ParentID f)"
    by (subst facts(3)) simp_all
next
  fix j c s s' assume fr: "fresh_ids t rnd" and s: "new_ids t s" "dup_visit rnd i (NConn c) s = WDone s'"
  note facts = dup_visit_grows_node [OF fr _ s]
  show "new_ids t s'" by (rule facts(1)) simp
  show "same_lists q (ds_tree s) (ds_tree s')" if "old_folder t q" "q \<noteq> c_ParentID c" for q
    by (rule facts(2)) (use that in simp_all)
qed

lemma dup_walk:
  assumes "wf_tree t" "fresh_ids t rnd"
  shows "Walk ds_tree (dup_visit rnd i) (dup_init t) = visit_all (dup_visit rnd i) (preorder t) (dup_init t)"
  by (rule Walk_grow [OF assms(1) dup_visit_grows [OF assms(2)]]) (simp_all add: new_ids_def dup_init_def)

subsection \<open>The state after each visit\<close>

lemma under_visited:
  assumes wf: "wf_tree t" and xs: "preorder t = xs @ n # ys" and i: "i \<noteq> NilID"
  shows "under (folders t) i (npar n) \<longleftrightarrow> npar n \<in> nid ` {m \<in> set xs. in_subtree t i m}"
proof
  assume u: "under (folders t) i (npar n)"
  then have "npar n \<noteq> NilID" using i by auto
  then obtain g where g: "NFolder g \<in> set xs" "f_ID g = npar n" using before_parent(2) [OF wf xs] by blast
  have "FindByID (npar n) t = Inr (NFolder g)"
    using preorder_node(2) [OF wf, of "NFolder g"] g xs by simp
  then have "folder_at t (npar n) = Some g" by (auto dest: FindByID_kinds)
  then have "in_subtree t i (NFolder g)"
    using under_parent [OF u] g(2) by (auto simp: in_subtree_def)
  with g show "npar n \<in> nid ` {m \<in> set xs. in_subtree t i m}" by force
next
  assume "npar n \<in> nid ` {m \<in> set xs. in_subtree t i m}"
  then obtain m where m: "m \<in> set xs" "in_subtree t i m" "nid m = npar n" by auto
  show "under (folders t) i (npar n)"
  proof (cases "npar n = i")
    case False
    have k: "FindByID (npar n) t = Inr m" "npar n \<noteq> NilID"
      using preorder_node(2,3) [OF wf, of m] m xs by simp_all
    moreover have "old_folder t (npar n)" using preorder_node(4) [OF wf, of n] xs by simp
    ultimately obtain g where "folder_at t (npar n) = Some g" "m = NFolder g"
      using FindByID_kinds [OF k(1)] by (auto simp: old_folder_def)
    then show ?thesis using under_step [of "folders t" "npar n" g i] k(2) m(2,3) False
      by (simp add: in_subtree_def)
  qed simp
qed

definition dup_inv :: "Tree \<Rightarrow> ID \<Rightarrow> (nat \<Rightarrow> ID) \<Rightarrow> node list \<Rightarrow> dup_state \<Rightarrow> bool" where
  "dup_inv t i rnd xs s \<longleftrightarrow> wf_tree (ds_tree s) \<and> ds_count s \<le> length xs \<and>
     dom (ds_idMap s) = nid ` {n \<in> set xs. in_subtree t i n} \<and>
     ran (ds_idMap s) \<subseteq> (\<lambda>k. NewID (rnd k)) ` {..<ds_count s} \<and>
     inj_on (ds_idMap s) (dom (ds_idMap s)) \<and>
     (\<forall>y n. FindByID y t = Inr n \<longrightarrow> FindByID y (ds_tree s) = Inr n) \<and>
     (\<forall>n \<in> set xs. in_subtree t i n \<longrightarrow> FindByID (the (ds_idMap s (nid n))) (ds_tree s) =
        Inr (copied (\<lambda>x. the (ds_idMap s x)) i n) \<and> (nid n \<noteq> i \<longrightarrow> npar n \<in> dom (ds_idMap s))) \<and>
     (\<forall>y. unknown t y \<and> y \<notin> ran (ds_idMap s) \<longrightarrow> unknown (ds_tree s) y) \<and>
     (\<forall>n \<in> set xs. nid n = i \<longrightarrow> ds_root s = the (ds_idMap s i) \<and> ds_kind s = Some (NodeKind n) \<and>
        ds_name s = nname n @ '' (copy)'')"

lemma dup_invD:
  assumes "dup_inv t i rnd xs s"
  shows "wf_tree (ds_tree s)" "ds_count s \<le> length xs"
    "dom (ds_idMap s) = nid ` {n \<in> set xs. in_subtree t i n}"
    "ran (ds_idMap s) \<subseteq> (\<lambda>k. NewID (rnd k)) ` {..<ds_count s}"
    "inj_on (ds_idMap s) (dom (ds_idMap s))"
    "FindByID y t = Inr m \<Longrightarrow> FindByID y (ds_tree s) = Inr m"
    "n \<in> set xs \<Longrightarrow> in_subtree t i n \<Longrightarrow> FindByID (the (ds_idMap s (nid n))) (ds_tree s) =
       Inr (copied (\<lambda>x. the (ds_idMap s x)) i n)"
    "n \<in> set xs \<Longrightarrow> in_subtree t i n \<Longrightarrow> nid n \<noteq> i \<Longrightarrow> npar n \<in> dom (ds_idMap s)"
    "unknown t y \<Longrightarrow> y \<notin> ran (ds_idMap s) \<Longrightarrow> unknown (ds_tree s) y"
    "n \<in> set xs \<Longrightarrow> nid n = i \<Longrightarrow> ds_root s = the (ds_idMap s i) \<and> ds_kind s = Some (NodeKind n) \<and>
       ds_name s = nname n @ '' (copy)''"
proof -
  have "wf_tree (ds_tree s) \<and> ds_count s \<le> length xs \<and>
    dom (ds_idMap s) = nid ` {n \<in> set xs. in_subtree t i n} \<and>
    ran (ds_idMap s) \<subseteq> (\<lambda>k. NewID (rnd k)) ` {..<ds_count s} \<and>
    inj_on (ds_idMap s) (dom (ds_idMap s))"
    using assms unfolding dup_inv_def by (elim conjE) (intro conjI)
  then show "wf_tree (ds_tree s)" "ds_count s \<le> length xs"
    "dom (ds_idMap s) = nid ` {n \<in> set xs. in_subtree t i n}"
    "ran (ds_idMap s) \<subseteq> (\<lambda>k. NewID (rnd k)) ` {..<ds_count s}"
    "inj_on (ds_idMap s) (dom (ds_idMap s))" by blast+
  show "FindByID y t = Inr m \<Longrightarrow> FindByID y (ds_tree s) = Inr m"
    using assms unfolding dup_inv_def by blast
  show "n \<in> set xs \<Longrightarrow> in_subtree t i n \<Longrightarrow> FindByID (the (ds_idMap s (nid n))) (ds_tree s) =
       Inr (copied (\<lambda>x. the (ds_idMap s x)) i n)"
    using assms unfolding dup_inv_def by blast
  show "n \<in> set xs \<Longrightarrow> in_subtree t i n \<Longrightarrow> nid n \<noteq> i \<Longrightarrow> npar n \<in> dom (ds_idMap s)"
    using assms unfolding dup_inv_def by blast
  show "unknown t y \<Longrightarrow> y \<notin> ran (ds_idMap s) \<Longrightarrow> unknown (ds_tree s) y"
    using assms unfolding dup_inv_def by blast
  show "n \<in> set xs \<Longrightarrow> nid n = i \<Longrightarrow> ds_root s = the (ds_idMap s i) \<and> ds_kind s = Some (NodeKind n) \<and>
       ds_name s = nname n @ '' (copy)''"
    using assms unfolding dup_inv_def by blast
qed

lemma dup_inv_init: "wf_tree t \<Longrightarrow> dup_inv t i rnd [] (dup_init t)"
  by (simp add: dup_inv_def dup_init_def)

lemma map_upd_inj:
  "inj_on m (dom m) \<Longrightarrow> y \<notin> ran m \<Longrightarrow> x \<notin> dom m \<Longrightarrow> inj_on (m(x \<mapsto> y)) (dom (m(x \<mapsto> y)))"
  by (auto simp: inj_on_def ran_def dom_def)

text \<open>One copy more.\<close>

lemma dup_inv_add:
  assumes wf: "wf_tree t" and fr: "fresh_ids t rnd" and i: "i \<noteq> NilID"
    and xs: "preorder t = xs @ n # ys" and inv: "dup_inv t i rnd xs s" and sub: "in_subtree t i n"
    and p: "p = (if nid n = i then npar n else the (ds_idMap s (npar n)))"
    and sfx: "sfx = (if nid n = i then '' (copy)'' else [])"
    and s1: "ds_tree s1 = ds_tree s" "ds_idMap s1 = (ds_idMap s)(nid n \<mapsto> NewID (rnd (ds_count s)))"
      "ds_count s1 = Suc (ds_count s)"
    and root: "if nid n = i then ds_root s1 = NewID (rnd (ds_count s)) \<and> ds_kind s1 = Some (NodeKind n) \<and>
        ds_name s1 = nname n @ '' (copy)''
      else ds_root s1 = ds_root s \<and> ds_kind s1 = ds_kind s \<and> ds_name s1 = ds_name s"
  shows "\<exists>s'. add_copy (clone n (NewID (rnd (ds_count s))) p sfx) s1 = WDone s' \<and>
    dup_inv t i rnd (xs @ [n]) s'"
proof -
  let ?y = "NewID (rnd (ds_count s))" and ?m = "ds_idMap s" and ?c = "clone n (NewID (rnd (ds_count s))) p sfx"
  have n: "is_node n" "FindByID (nid n) t = Inr n" "nid n \<noteq> NilID" "old_folder t (npar n)"
    using preorder_node [OF wf, of n] xs by simp_all
  note D = dup_invD [OF inv]
  note dom = D(3) and cnt = D(2)
  have nd: "nid n \<notin> dom ?m" using before_parent(1) [OF wf xs] dom by blast
  have ynew: "?y \<noteq> NilID" "unknown t ?y" using fr by (simp_all add: fresh_ids_def)
  have yr: "?y \<notin> ran ?m"
  proof
    assume "?y \<in> ran ?m"
    then obtain k where k: "k < ds_count s" "NewID (rnd k) = ?y" using D(4) by auto
    have "inj_on (\<lambda>k. NewID (rnd k)) {..<length (preorder t)}" using fr by (simp add: fresh_ids_def)
    from inj_onD [OF this k(2)] k(1) cnt xs show False by simp
  qed
  have par: "npar n \<in> dom ?m" if "nid n \<noteq> i"
    using sub that under_visited [OF wf xs i] dom by (simp add: in_subtree_def)
  have uy: "unknown (ds_tree s) ?y" by (rule D(9) [OF ynew(2) yr])
  note keep = D(6)
  have op: "old_folder (ds_tree s) p"
  proof (cases "nid n = i")
    case True
    then show ?thesis using n(4) p keep [of "npar n"] unfolding old_folder_def
      by (auto simp: FindByID_def split: option.splits)
  next
    case False
    then obtain g where g: "g \<in> set xs" "in_subtree t i g" "nid g = npar n" using par dom by auto
    have "FindByID (nid g) t = Inr g" "nid g \<noteq> NilID" using preorder_node(2,3) [OF wf, of g] g(1) xs by simp_all
    then obtain f where "g = NFolder f" using n(4) g(3) by (auto simp: old_folder_def FindByID_def)
    moreover have "FindByID p (ds_tree s) = Inr (copied (\<lambda>x. the (?m x)) i g)"
      using D(7) [OF g(1,2)] g(3) p False by simp
    ultimately show ?thesis by (auto simp: old_folder_def copied_def dest!: FindByID_kinds)
  qed
  have c: "is_node ?c" "nid ?c = ?y" "npar ?c = p" using n(1) by simp_all
  have wfs: "wf_tree (ds_tree s1)" using D(1) s1 by simp
  note ok = add_copy_ok [OF wfs c(1), unfolded c(2,3) s1(1), OF ynew(1) uy op]
  let ?s' = "s1\<lparr>ds_tree := with_node ?c (ds_tree s)\<rparr>" and ?m' = "?m(nid n \<mapsto> ?y)"
  have find: "FindByID z (with_node ?c (ds_tree s)) = (if z = ?y then Inr ?c else FindByID z (ds_tree s))" for z
    using FindByID_with_node [OF c(1), of "ds_tree s" z] c(2) uy by simp
  have m': "the (?m' (nid m)) = the (?m (nid m))" "the (?m (nid m)) \<noteq> ?y"
    "copied (\<lambda>x. the (?m' x)) i m = copied (\<lambda>x. the (?m x)) i m"
    if m: "m \<in> set xs" "in_subtree t i m" for m
  proof -
    have "nid m \<in> dom ?m" using m dom by blast
    then obtain z where z: "?m (nid m) = Some z" by blast
    have ne: "nid m \<noteq> nid n" using nd z by auto
    then show "the (?m' (nid m)) = the (?m (nid m))" by simp
    show "the (?m (nid m)) \<noteq> ?y" using yr z by (auto simp: ran_def)
    have "npar m \<noteq> nid n" if "nid m \<noteq> i" using D(8) [OF m that] nd by auto
    with ne show "copied (\<lambda>x. the (?m' x)) i m = copied (\<lambda>x. the (?m x)) i m" by (simp add: copied_def)
  qed
  have cn: "copied (\<lambda>x. the (?m' x)) i n = ?c"
    using par nd p sfx by (auto simp: copied_def)
  have nne: "nid m \<noteq> nid n" if "m \<in> set xs" for m
    using before_parent(1) [OF wf xs] that by (metis imageI)
  have "dup_inv t i rnd (xs @ [n]) ?s'" unfolding dup_inv_def
  proof (intro conjI)
    show "wf_tree (ds_tree ?s')" using ok(2) by simp
    show "ds_count ?s' \<le> length (xs @ [n])" using cnt s1(3) by simp
    show "dom (ds_idMap ?s') = nid ` {n' \<in> set (xs @ [n]). in_subtree t i n'}"
      using s1(2) sub dom by auto
    show "ran (ds_idMap ?s') \<subseteq> (\<lambda>k. NewID (rnd k)) ` {..<ds_count ?s'}"
      using D(4) nd s1(2,3) by (auto simp: less_Suc_eq ran_map_upd domIff)
    show "inj_on (ds_idMap ?s') (dom (ds_idMap ?s'))"
      using map_upd_inj [OF D(5) yr nd] s1(2) by simp
    show "\<forall>y m. FindByID y t = Inr m \<longrightarrow> FindByID y (ds_tree ?s') = Inr m"
      using keep ynew(2) by (auto simp: find unknown_find)
    show "\<forall>m \<in> set (xs @ [n]). in_subtree t i m \<longrightarrow> FindByID (the (ds_idMap ?s' (nid m))) (ds_tree ?s') =
        Inr (copied (\<lambda>x. the (ds_idMap ?s' x)) i m) \<and> (nid m \<noteq> i \<longrightarrow> npar m \<in> dom (ds_idMap ?s'))"
      using D(7,8) m' cn par s1(2) by (auto simp: find)
    show "\<forall>y. unknown t y \<and> y \<notin> ran (ds_idMap ?s') \<longrightarrow> unknown (ds_tree ?s') y"
      using D(9) s1(2) nd by (auto simp: unknown_find find ran_map_upd domIff)
    show "\<forall>m \<in> set (xs @ [n]). nid m = i \<longrightarrow> ds_root ?s' = the (ds_idMap ?s' i) \<and>
        ds_kind ?s' = Some (NodeKind m) \<and> ds_name ?s' = nname m @ '' (copy)''"
      using D(10) root s1(2) nne by (cases "nid n = i") auto
  qed
  with ok(1) show ?thesis by blast
qed

lemma dup_inv_skip:
  assumes "dup_inv t i rnd xs s" "\<not> in_subtree t i n"
  shows "dup_inv t i rnd (xs @ [n]) s"
  unfolding dup_inv_def
proof (intro conjI)
  note D = dup_invD [OF assms(1)]
  show "wf_tree (ds_tree s)" "inj_on (ds_idMap s) (dom (ds_idMap s))"
    "ran (ds_idMap s) \<subseteq> (\<lambda>k. NewID (rnd k)) ` {..<ds_count s}" by (fact D)+
  show "ds_count s \<le> length (xs @ [n])" using D(2) by simp
  show "dom (ds_idMap s) = nid ` {n' \<in> set (xs @ [n]). in_subtree t i n'}"
    using D(3) assms(2) by auto
  show "\<forall>y m. FindByID y t = Inr m \<longrightarrow> FindByID y (ds_tree s) = Inr m" using D(6) by blast
  show "\<forall>m \<in> set (xs @ [n]). in_subtree t i m \<longrightarrow> FindByID (the (ds_idMap s (nid m))) (ds_tree s) =
      Inr (copied (\<lambda>x. the (ds_idMap s x)) i m) \<and> (nid m \<noteq> i \<longrightarrow> npar m \<in> dom (ds_idMap s))"
    using D(7,8) assms(2) by auto
  show "\<forall>y. unknown t y \<and> y \<notin> ran (ds_idMap s) \<longrightarrow> unknown (ds_tree s) y" using D(9) by blast
  show "\<forall>m \<in> set (xs @ [n]). nid m = i \<longrightarrow> ds_root s = the (ds_idMap s i) \<and>
      ds_kind s = Some (NodeKind m) \<and> ds_name s = nname m @ '' (copy)''"
    using D(10) assms(2) by (auto simp: in_subtree_def)
qed

lemma dup_step:
  assumes wf: "wf_tree t" and fr: "fresh_ids t rnd" and i: "i \<noteq> NilID"
    and xs: "preorder t = xs @ n # ys" and inv: "dup_inv t i rnd xs s"
  shows "\<exists>s'. dup_visit rnd i n s = WDone s' \<and> dup_inv t i rnd (xs @ [n]) s'"
proof -
  have n: "is_node n" using preorder_node(1) [OF wf, of n] xs by simp
  note visit = dup_visit_node [OF n, of rnd i s, unfolded Let_def]
  note add = dup_inv_add [OF wf fr i xs inv]
  show ?thesis
  proof (cases "nid n = i")
    case True
    then have "in_subtree t i n" by (simp add: in_subtree_def)
    from add [OF this, of "npar n" "'' (copy)''" "s\<lparr>ds_idMap := (ds_idMap s)(i \<mapsto> NewID (rnd (ds_count s))),
        ds_count := Suc (ds_count s), ds_root := NewID (rnd (ds_count s)), ds_kind := Some (NodeKind n),
        ds_name := nname n @ '' (copy)''\<rparr>"] True
    show ?thesis unfolding visit by simp
  next
    case False
    have u: "in_subtree t i n \<longleftrightarrow> npar n \<in> dom (ds_idMap s)"
      using False under_visited [OF wf xs i] dup_invD(3) [OF inv] by (simp add: in_subtree_def)
    show ?thesis
    proof (cases "ds_idMap s (npar n)")
      case None
      with u have "\<not> in_subtree t i n" by (simp add: domIff)
      from dup_inv_skip [OF inv this] show ?thesis unfolding visit using False None by simp
    next
      case (Some p)
      with u have "in_subtree t i n" by auto
      from add [OF this, of p "[]" "s\<lparr>ds_idMap := (ds_idMap s)(nid n \<mapsto> NewID (rnd (ds_count s))),
          ds_count := Suc (ds_count s)\<rparr>"] False Some
      show ?thesis unfolding visit by simp
    qed
  qed
qed

text \<open>What a copy of the subtree of \<open>i\<close> under the renaming \<open>h\<close> is: the originals stay, every
  node of the subtree has its renamed copy, and there are no other nodes.\<close>

definition subtree_ids :: "Tree \<Rightarrow> ID \<Rightarrow> ID set" where
  "subtree_ids t i = {nid n | n. FindByID (nid n) t = Inr n \<and> in_subtree t i n}"

definition is_copy :: "Tree \<Rightarrow> ID \<Rightarrow> (ID \<Rightarrow> ID) \<Rightarrow> Tree \<Rightarrow> bool" where
  "is_copy t i h t' \<longleftrightarrow> wf_tree t' \<and> inj_on h (subtree_ids t i) \<and> (\<forall>x \<in> subtree_ids t i. unknown t (h x)) \<and>
     (\<forall>x n. FindByID x t = Inr n \<longrightarrow> FindByID x t' = Inr n) \<and>
     (\<forall>x n. FindByID x t = Inr n \<and> in_subtree t i n \<longrightarrow> FindByID (h x) t' = Inr (copied h i n)) \<and>
     (\<forall>y. unknown t y \<and> y \<notin> h ` subtree_ids t i \<longrightarrow> unknown t' y)"

lemma the_image_ran: "(\<lambda>x. the (m x)) ` dom m = ran m"
  by (auto simp: ran_def dom_def image_def)

theorem dup_result:
  assumes wf: "wf_tree t" and fr: "fresh_ids t rnd" and n: "FindByID i t = Inr n"
  shows "\<exists>s h. Walk ds_tree (dup_visit rnd i) (dup_init t) = WDone s \<and> is_copy t i h (ds_tree s) \<and>
    ds_root s = h i \<and> ds_kind s = Some (NodeKind n) \<and> ds_name s = nname n @ '' (copy)''"
proof -
  note pre = find_preorder [OF wf n]
  have i: "i \<noteq> NilID" using preorder_node(3) [OF wf] pre by blast
  have "\<exists>s. visit_all (dup_visit rnd i) (preorder t) (dup_init t) = WDone s \<and> dup_inv t i rnd (preorder t) s"
    by (rule visit_all_inv [where D = "dup_inv t i rnd", OF dup_step [OF wf fr i] dup_inv_init [OF wf]])
  then obtain s where s: "visit_all (dup_visit rnd i) (preorder t) (dup_init t) = WDone s"
    "dup_inv t i rnd (preorder t) s" by blast
  let ?h = "\<lambda>x. the (ds_idMap s x)"
  note D = dup_invD [OF s(2)]
  have "m \<in> set (preorder t) \<longleftrightarrow> FindByID (nid m) t = Inr m" for m
    using find_preorder [OF wf, of "nid m" m] preorder_node(2) [OF wf, of m] by blast
  then have ids: "dom (ds_idMap s) = subtree_ids t i"
    unfolding D(3) subtree_ids_def by blast
  have ran: "?h ` subtree_ids t i = ran (ds_idMap s)"
    unfolding ids [symmetric] by (rule the_image_ran)
  have "is_copy t i ?h (ds_tree s)" unfolding is_copy_def
  proof (intro conjI)
    show "wf_tree (ds_tree s)" by (fact D(1))
    show "inj_on ?h (subtree_ids t i)" using D(5) unfolding ids [symmetric]
      by (auto simp: inj_on_def dom_def)
    show "\<forall>x \<in> subtree_ids t i. unknown t (?h x)"
    proof
      fix x assume "x \<in> subtree_ids t i"
      then have "?h x \<in> (\<lambda>k. NewID (rnd k)) ` {..<ds_count s}" using D(4) ran by blast
      then obtain k where "?h x = NewID (rnd k)" by blast
      then show "unknown t (?h x)" using fr by (simp add: fresh_ids_def)
    qed
    show "\<forall>x n. FindByID x t = Inr n \<longrightarrow> FindByID x (ds_tree s) = Inr n" using D(6) by blast
    show "\<forall>x n. FindByID x t = Inr n \<and> in_subtree t i n \<longrightarrow> FindByID (?h x) (ds_tree s) = Inr (copied ?h i n)"
    proof (intro allI impI; elim conjE)
      fix x m assume m: "FindByID x t = Inr m" "in_subtree t i m"
      from D(7) [OF conjunct1 [OF find_preorder [OF wf m(1)]] m(2)] find_preorder [OF wf m(1)]
      show "FindByID (?h x) (ds_tree s) = Inr (copied ?h i m)" by simp
    qed
    show "\<forall>y. unknown t y \<and> y \<notin> ?h ` subtree_ids t i \<longrightarrow> unknown (ds_tree s) y"
      unfolding ran using D(9) by blast
  qed
  moreover have "Walk ds_tree (dup_visit rnd i) (dup_init t) = WDone s"
    using s(1) dup_walk [OF wf fr, of i] by simp
  ultimately show ?thesis using D(10) [of n] pre by blast
qed

lemma DuplicateNode_copies:
  assumes wf: "wf_tree (a_tree a)" and fr: "fresh_ids (a_tree a) rnd" and n: "FindByID i (a_tree a) = Inr n"
    and d: "DuplicateNode True rnd now i a = Returns (r, a')"
  shows "\<exists>h. r = Inr (h i) \<and> is_copy (a_tree a) i h (a_tree a') \<and> committed a a'"
proof -
  have i: "i \<noteq> NilID" using find_preorder [OF wf n] preorder_node(3) [OF wf] by blast
  obtain p where p: "NodeParent n = Some p" using FindByID_kinds [OF n] by auto
  obtain s h where s: "Walk ds_tree (dup_visit rnd i) (dup_init (a_tree a)) = WDone s"
    "is_copy (a_tree a) i h (ds_tree s)" "ds_root s = h i" using dup_result [OF wf fr n] by blast
  from d i n p s(1) obtain e where c: "commit now 0 e (ds_root s) (a\<lparr>a_tree := ds_tree s\<rparr>) = Returns (r, a')"
    by (auto simp: DuplicateNode_def)
  from commit_result [OF c] s(2,3) show ?thesis by auto
qed

lemma DuplicateNode_outcome:
  assumes wf: "wf_tree (a_tree a)" and fr: "fresh_ids (a_tree a) rnd"
    and d: "DuplicateNode ctx rnd now i a = Returns (r, a')"
  shows "outcome wf_tree a r a'"
proof (cases "ctx \<and> i \<noteq> NilID")
  case True
  show ?thesis
  proof (cases "FindByID i (a_tree a)")
    case (Inl e)
    then show ?thesis using d True by (auto simp: DuplicateNode_def intro: outcome_fail)
  next
    case (Inr n)
    have "DuplicateNode True rnd now i a = Returns (r, a')" using d True by simp
    from DuplicateNode_copies [OF wf fr Inr this] obtain h where
      "r = Inr (h i)" "wf_tree (a_tree a')" "committed a a'" by (auto simp: is_copy_def)
    then show ?thesis by (simp add: outcome_def)
  qed
next
  case False
  then have "\<exists>e. fail e a = Returns (r, a')"
    using d by (cases ctx) (auto simp: DuplicateNode_def)
  then show ?thesis by (auto intro: outcome_fail)
qed

subsection \<open>Every command\<close>

text \<open>
  A command that returns, with its error. Importing is not among them: it publishes no event.
\<close>

inductive command :: "app \<Rightarrow> app_error option \<Rightarrow> app \<Rightarrow> bool" where
  cmd_create_folder: "CreateFolder ctx rnd now p name o1 a = Returns (r1, a') \<Longrightarrow> command a (err_of r1) a'"
| cmd_create_conn: "CreateConnection ctx rnd now p o2 a = Returns (r1, a') \<Longrightarrow> command a (err_of r1) a'"
| cmd_update_conn: "UpdateConnection ctx now i p1 a = Returns (r2, a') \<Longrightarrow> command a (err_of r2) a'"
| cmd_favorite: "ToggleFavorite ctx now i a = Returns (r3, a') \<Longrightarrow> command a (err_of r3) a'"
| cmd_update_folder: "UpdateFolder ctx now i p2 a = Returns (r2, a') \<Longrightarrow> command a (err_of r2) a'"
| cmd_move: "MoveNode ctx now i p a = Returns (r2, a') \<Longrightarrow> command a (err_of r2) a'"
| cmd_delete: "DeleteNode ctx now i a = Returns (r2, a') \<Longrightarrow> \<not> root_conn (a_tree a) i \<Longrightarrow>
    command a (err_of r2) a'"
| cmd_duplicate: "DuplicateNode ctx draw now i a = Returns (r1, a') \<Longrightarrow> fresh_ids (a_tree a) draw \<Longrightarrow>
    command a (err_of r1) a'"

lemma command_outcome:
  assumes "command a eo a'" "wf_tree (a_tree a)"
  shows "case eo of Some e \<Rightarrow> a' = a | None \<Rightarrow> committed a a' \<and> wf_tree (a_tree a')"
proof -
  have o: "case err_of r of Some e \<Rightarrow> a' = a | None \<Rightarrow> committed a a' \<and> wf_tree (a_tree a')"
    if "outcome wf_tree a r a'" for r :: "app_error + 'r"
    using that by (cases r) (simp_all add: outcome_def)
  from assms(1) show ?thesis
  proof cases
    case cmd_create_folder
    then show ?thesis using o CreateFolder_outcome [OF assms(2)] by blast
  next
    case cmd_create_conn
    then show ?thesis using o CreateConnection_outcome [OF assms(2)] by blast
  next
    case cmd_update_conn
    then show ?thesis using o UpdateConnection_outcome [OF assms(2)] by blast
  next
    case cmd_favorite
    then show ?thesis using o ToggleFavorite_outcome [OF assms(2)] by blast
  next
    case cmd_update_folder
    then show ?thesis using o UpdateFolder_outcome [OF assms(2)] by blast
  next
    case cmd_move
    then show ?thesis using o MoveNode_outcome [OF assms(2)] by blast
  next
    case cmd_delete
    then show ?thesis using o DeleteNode_outcome [OF assms(2)] by blast
  next
    case cmd_duplicate
    then show ?thesis using o DuplicateNode_outcome [OF assms(2)] by blast
  qed
qed

interpretation app_sys: invariant_system "\<lambda>a. wf_tree (a_tree a)" "\<lambda>a a'. \<exists>e. command a e a'"
  "\<lambda>a. wf_tree (a_tree a)"
proof
  show "wf_tree (a_tree a')" if "wf_tree (a_tree a)" "\<exists>e. command a e a'" for a a'
    using that command_outcome by (fastforce split: option.splits)
qed

end
