(* ===== verification/AppViews.thy ===== *)
theory AppViews
  imports AppInv
begin

text \<open>
  \<open>internal/app/views.go\<close> and the queries of \<open>commands.go\<close>: the projections of the tree that
  the user interface receives. \<open>ListTree\<close> builds a tree of pointers; here a view is an index
  into the list of allocated views, with the children of each index beside it. A nil node
  that a damaged tree hands to a visitor is dereferenced: the call panics.
\<close>

subsection \<open>Node views\<close>

record NodeView =
  nv_ID :: string
  nv_Kind :: string
  nv_Name :: string
  nv_ParentID :: string
  nv_Description :: string
  nv_Tags :: "string list"
  nv_Icon :: string
  nv_Color :: string
  nv_Environment :: string
  nv_Favorite :: bool
  nv_Protocol :: string
  nv_Host :: string
  nv_Port :: int
  nv_Username :: string

definition kind_text :: "node_kind \<Rightarrow> string" where
  "kind_text k = (case k of NodeKindFolder \<Rightarrow> ''folder'' | NodeKindConnection \<Rightarrow> ''connection'')"

text \<open>\<open>root\<close>: the literal of \<open>ListTree\<close>.\<close>

definition root_view :: NodeView where
  "root_view = \<lparr>nv_ID = '''', nv_Kind = ''root'', nv_Name = '''', nv_ParentID = '''', nv_Description = '''',
     nv_Tags = [], nv_Icon = '''', nv_Color = '''', nv_Environment = '''', nv_Favorite = False,
     nv_Protocol = '''', nv_Host = '''', nv_Port = 0, nv_Username = ''''\<rparr>"

definition parent_text :: "ID \<Rightarrow> string" where
  "parent_text p = (if p \<noteq> NilID then id_String p else '''')"

definition connectionNodeView :: "ConnectionNode \<Rightarrow> NodeView" where
  "connectionNodeView c = \<lparr>nv_ID = id_String (c_ID c), nv_Kind = kind_text NodeKindConnection,
     nv_Name = c_Name c, nv_ParentID = parent_text (c_ParentID c), nv_Description = c_Description c,
     nv_Tags = c_Tags c, nv_Icon = c_Icon c, nv_Color = c_Color c, nv_Environment = c_Environment c,
     nv_Favorite = c_Favorite c, nv_Protocol = c_ProtocolID c, nv_Host = c_Host c, nv_Port = c_Port c,
     nv_Username = c_Username c\<rparr>"

definition folderNodeView :: "FolderNode \<Rightarrow> NodeView" where
  "folderNodeView f = root_view\<lparr>nv_ID := id_String (f_ID f), nv_Kind := kind_text NodeKindFolder,
     nv_Name := f_Name f, nv_ParentID := parent_text (f_ParentID f), nv_Description := f_Description f,
     nv_Tags := f_Tags f, nv_Icon := f_Icon f, nv_Color := f_Color f\<rparr>"

text \<open>The view of a node; \<open>None\<close> is the panic on a nil pointer.\<close>

fun node_view :: "node \<Rightarrow> NodeView option" where
  "node_view (NFolder f) = Some (folderNodeView f)"
| "node_view (NConn c) = Some (connectionNodeView c)"
| "node_view _ = None"

subsection \<open>The whole tree\<close>

text \<open>\<open>tv_views ! 0\<close> is the root; \<open>tv_kids k\<close> lists the children of the view \<open>k\<close>.\<close>

record TreeView =
  tv_views :: "NodeView list"
  tv_kids :: "nat \<Rightarrow> nat list"
  tv_byID :: "ID \<rightharpoonup> nat"
  tv_NodeMap :: "string \<rightharpoonup> nat"

definition list_visit :: "(unit, TreeView) visitor" where
  "list_visit n s = (case (node_view n, NodeParent n, NodeID n) of
     (Some nv, Some p, Some i) \<Rightarrow>
       (let k = length (tv_views s);
            parent = (case tv_byID s p of None \<Rightarrow> 0 | Some q \<Rightarrow> q)
        in WDone (s\<lparr>tv_views := tv_views s @ [nv],
             tv_kids := (tv_kids s)(parent := tv_kids s parent @ [k]),
             tv_byID := (tv_byID s)(i \<mapsto> k), tv_NodeMap := (tv_NodeMap s)(id_String i \<mapsto> k)\<rparr>))
   | _ \<Rightarrow> WPanic s)"

definition empty_view :: TreeView where
  "empty_view = \<lparr>tv_views = [root_view], tv_kids = (\<lambda>_. []), tv_byID = [NilID \<mapsto> 0], tv_NodeMap = Map.empty\<rparr>"

fun walk_call :: "('e, 's) walk_result \<Rightarrow> 's call" where
  "walk_call (WDone s) = Returns s"
| "walk_call (WStop e s) = Returns s"
| "walk_call (WPanic s) = Panics"
| "walk_call WLoop = Loops"

definition ListTree :: "app \<Rightarrow> TreeView call" where
  "ListTree a = walk_call (Walk (\<lambda>_. a_tree a) list_visit empty_view)"

subsection \<open>Favorites and search\<close>

text \<open>\<open>sort.Slice\<close> sorts by the lower-cased name and leaves the order of equal names open:
  \<open>srt\<close> is the sort, given the key. A done context yields the nil slice.\<close>

definition ListFavorites :: "(string \<Rightarrow> string) \<Rightarrow> ((NodeView \<Rightarrow> string) \<Rightarrow> NodeView list \<Rightarrow> NodeView list) \<Rightarrow>
    bool \<Rightarrow> app \<Rightarrow> NodeView list call" where
  "ListFavorites ul srt ctx a =
     (if \<not> ctx then Returns []
      else case walk_call (Walk (\<lambda>_. a_tree a) (\<lambda>n out. (case n of
             NConn c \<Rightarrow> WDone (if c_Favorite c then out @ [connectionNodeView c] else out)
           | NNilConn \<Rightarrow> WPanic out
           | _ \<Rightarrow> (WDone out :: (unit, NodeView list) walk_result))) []) of
          Returns out \<Rightarrow> Returns (srt (\<lambda>v. to_lower ul (nv_Name v)) out)
        | Panics \<Rightarrow> Panics | Loops \<Rightarrow> Loops)"

record SearchQuery =
  sq_Name :: string
  sq_Tag :: string
  sq_Protocol :: string

definition query_preds :: "(string \<Rightarrow> string) \<Rightarrow> SearchQuery \<Rightarrow> predicate option list" where
  "query_preds ul q =
     (if sq_Name q \<noteq> '''' then [Some (MatchName ul (sq_Name q))] else []) @
     (if sq_Tag q \<noteq> '''' then [Some (MatchTag ul (sq_Tag q))] else []) @
     (if sq_Protocol q \<noteq> '''' then [Some (MatchProtocol (sq_Protocol q))] else [])"

fun views_of :: "node list \<Rightarrow> NodeView list option" where
  "views_of [] = Some []"
| "views_of (n # ns) = (case (node_view n, views_of ns) of
     (Some v, Some vs) \<Rightarrow> Some (v # vs) | _ \<Rightarrow> None)"

definition SearchNodes :: "(string \<Rightarrow> string) \<Rightarrow> SearchQuery \<Rightarrow> app \<Rightarrow> NodeView list call" where
  "SearchNodes ul q a = (let preds = query_preds ul q;
       pred = (if length preds > 0 then And preds else MatchAll)
     in case walk_call (Search (Some pred) (a_tree a)) of
          Returns found \<Rightarrow> (case views_of found of Some vs \<Rightarrow> Returns vs | None \<Rightarrow> Panics)
        | Panics \<Rightarrow> Panics | Loops \<Rightarrow> Loops)"

subsection \<open>One connection, one folder\<close>

record CredentialRefView =
  rv_ProviderID :: string
  rv_EntryID :: string
  rv_Hints :: hints

definition zero_ref_view :: CredentialRefView where
  "zero_ref_view = \<lparr>rv_ProviderID = '''', rv_EntryID = '''', rv_Hints = None\<rparr>"

record ConnectionView =
  cv_ID :: string
  cv_ParentID :: string
  cv_Name :: string
  cv_Description :: string
  cv_Tags :: "string list"
  cv_Icon :: string
  cv_Color :: string
  cv_Environment :: string
  cv_Favorite :: bool
  cv_Protocol :: string
  cv_Host :: string
  cv_Port :: int
  cv_Username :: string
  cv_AuthMethod :: string
  cv_CredentialRef :: CredentialRefView
  cv_Settings :: settings
  cv_EffectiveProtocol :: string
  cv_EffectiveHost :: string
  cv_EffectivePort :: int
  cv_EffectiveUsername :: string

definition ref_view :: "Reference \<Rightarrow> CredentialRefView" where
  "ref_view r = (if ProviderID r \<noteq> '''' \<or> EntryID r \<noteq> '''' \<or> map_len (Hints r) > 0
     then \<lparr>rv_ProviderID = ProviderID r, rv_EntryID = EntryID r,
            rv_Hints = (if map_len (Hints r) > 0 then Hints r else None)\<rparr>
     else zero_ref_view)"

definition connection_view :: "ConnectionNode \<Rightarrow> ConnectionNode \<Rightarrow> ConnectionView" where
  "connection_view c resolved = \<lparr>cv_ID = id_String (c_ID c), cv_ParentID = parent_text (c_ParentID c),
     cv_Name = c_Name c, cv_Description = c_Description c, cv_Tags = c_Tags c, cv_Icon = c_Icon c,
     cv_Color = c_Color c, cv_Environment = c_Environment c, cv_Favorite = c_Favorite c,
     cv_Protocol = c_ProtocolID c, cv_Host = c_Host c, cv_Port = c_Port c, cv_Username = c_Username c,
     cv_AuthMethod = c_AuthMethod c, cv_CredentialRef = ref_view (c_CredentialRef c),
     cv_Settings = app_cloneSettings (c_Settings c), cv_EffectiveProtocol = c_ProtocolID resolved,
     cv_EffectiveHost = c_Host resolved, cv_EffectivePort = c_Port resolved,
     cv_EffectiveUsername = c_Username resolved\<rparr>"

definition GetConnection :: "bool \<Rightarrow> ID \<Rightarrow> app \<Rightarrow> (app_error + ConnectionView) call" where
  "GetConnection ctx i a =
     (if \<not> ctx then Returns (Inl ContextErr)
      else if i = NilID then Returns (Inl NilConnectionID)
      else case Connection i (a_tree a) of
          Inl e \<Rightarrow> Returns (Inl (TreeErr e))
        | Inr c \<Rightarrow> (case Ancestors i (a_tree a) of
            None \<Rightarrow> Loops
          | Some (Inl e) \<Rightarrow> Returns (Inl (TreeErr e))
          | Some (Inr ancestors) \<Rightarrow> Returns (Inr (connection_view c
              (rc_node (Resolve (c_Inheritance c) (Some c) (map Some ancestors)))))))"

record FolderView =
  fv_ID :: string
  fv_ParentID :: string
  fv_Name :: string
  fv_Description :: string
  fv_Tags :: "string list"
  fv_Icon :: string
  fv_Color :: string
  fv_Defaults :: FolderDefaults

definition cloneFolderDefaults :: "FolderDefaults \<Rightarrow> FolderDefaults" where
  "cloneFolderDefaults d = \<lparr>d_ProtocolID = d_ProtocolID d, d_Host = d_Host d, d_Port = d_Port d,
     d_Username = d_Username d, d_AuthMethod = d_AuthMethod d, d_CredentialRef = d_CredentialRef d,
     d_Settings = app_cloneSettings (d_Settings d), d_Tags = d_Tags d, d_Color = d_Color d,
     d_Icon = d_Icon d, d_Environment = d_Environment d, d_Description = d_Description d\<rparr>"

definition GetFolder :: "bool \<Rightarrow> ID \<Rightarrow> app \<Rightarrow> (app_error + FolderView) call" where
  "GetFolder ctx i a =
     (if \<not> ctx then Returns (Inl ContextErr)
      else if i = NilID then Returns (Inl NilFolderID)
      else case Folder i (a_tree a) of
          Inl e \<Rightarrow> Returns (Inl (TreeErr e))
        | Inr f \<Rightarrow> Returns (Inr \<lparr>fv_ID = id_String (f_ID f), fv_ParentID = parent_text (f_ParentID f),
            fv_Name = f_Name f, fv_Description = f_Description f, fv_Tags = f_Tags f, fv_Icon = f_Icon f,
            fv_Color = f_Color f, fv_Defaults = cloneFolderDefaults (f_Defaults f)\<rparr>))"

subsection \<open>The projection of a well-formed tree\<close>

lemma node_view_known: "is_node n \<Longrightarrow> \<exists>v. node_view n = Some v"
  by (cases n) simp_all

lemma NodeParent_npar: "is_node m \<Longrightarrow> NodeParent m = Some (npar m)"
  by (cases m) simp_all

text \<open>The IDs in the order of the views, and the children of one of them.\<close>

definition view_ids :: "node list \<Rightarrow> ID list" where
  "view_ids ns = NilID # map nid ns"

definition kids_of :: "node list \<Rightarrow> ID \<Rightarrow> nat list" where
  "kids_of ns p = map Suc (filter (\<lambda>k. npar (ns ! k) = p) [0..<length ns])"

definition projected :: "node list \<Rightarrow> TreeView \<Rightarrow> bool" where
  "projected ns v \<longleftrightarrow> tv_views v = root_view # map (the \<circ> node_view) ns \<and>
     (\<forall>k \<le> length ns. tv_kids v k = kids_of ns (view_ids ns ! k) \<and> tv_byID v (view_ids ns ! k) = Some k) \<and>
     (\<forall>k < length ns. tv_NodeMap v (id_String (nid (ns ! k))) = Some (Suc k)) \<and>
     dom (tv_NodeMap v) = (id_String \<circ> nid) ` set ns"

definition listing_inv :: "node list \<Rightarrow> TreeView \<Rightarrow> bool" where
  "listing_inv ns v \<longleftrightarrow> projected ns v \<and> (\<forall>k > length ns. tv_kids v k = []) \<and>
     (\<forall>m \<in> set ns. npar m \<in> set (view_ids ns))"

lemma kids_of_snoc: "kids_of (ns @ [n]) p = kids_of ns p @ (if npar n = p then [Suc (length ns)] else [])"
proof -
  have "filter (\<lambda>k. npar ((ns @ [n]) ! k) = p) [0..<length ns] = filter (\<lambda>k. npar (ns ! k) = p) [0..<length ns]"
    by (rule filter_cong) (simp_all add: nth_append)
  then show ?thesis by (simp add: kids_of_def)
qed

lemma kids_of_none: "p \<notin> npar ` set ns \<Longrightarrow> kids_of ns p = []"
  by (auto simp: kids_of_def filter_empty_conv)

lemma projectedD:
  assumes "projected ns v"
  shows "tv_views v = root_view # map (the \<circ> node_view) ns"
    "k \<le> length ns \<Longrightarrow> tv_kids v k = kids_of ns (view_ids ns ! k)"
    "k \<le> length ns \<Longrightarrow> tv_byID v (view_ids ns ! k) = Some k"
    "k < length ns \<Longrightarrow> tv_NodeMap v (id_String (nid (ns ! k))) = Some (Suc k)"
    "dom (tv_NodeMap v) = (id_String \<circ> nid) ` set ns"
  using assms unfolding projected_def by (elim conjE, simp)+

lemma length_view_ids [simp]: "length (view_ids ns) = Suc (length ns)"
  by (simp add: view_ids_def)

lemma view_ids_snoc: "view_ids (ns @ [n]) = view_ids ns @ [nid n]"
  by (simp add: view_ids_def)

lemma distinct_view_ids:
  assumes wf: "wf_tree t" and ns: "preorder t = xs @ ys"
  shows "distinct (view_ids xs)"
proof -
  have "map NodeID (preorder t) = map Some (map nid (preorder t))"
    using preorder_node(1) [OF wf] by (simp add: NodeID_nid)
  with preorder_once [OF wf] have "distinct (map Some (map nid (preorder t)))" by simp
  then have "distinct (map nid (preorder t))" by (rule conjunct1 [OF iffD1 [OF distinct_map]])
  moreover have "NilID \<notin> nid ` set xs" using preorder_node(3) [OF wf] ns by fastforce
  ultimately show ?thesis using ns by (simp add: view_ids_def)
qed

lemma listing_step:
  assumes wf: "wf_tree t" and ns: "preorder t = xs @ n # ys" and inv: "listing_inv xs v"
  shows "\<exists>v'. list_visit n v = WDone v' \<and> listing_inv (xs @ [n]) v'"
proof -
  have n: "is_node n" "nid n \<noteq> NilID" using preorder_node [OF wf, of n] ns by simp_all
  obtain w where w: "node_view n = Some w" using node_view_known [OF n(1)] by blast
  have dist: "distinct (view_ids xs)" using distinct_view_ids [OF wf ns] .
  have new: "nid n \<notin> set (view_ids xs)"
    using before_parent(1) [OF wf ns] n(2) by (auto simp: view_ids_def)
  have par: "npar n \<in> set (view_ids xs)"
    using before_parent(2) [OF wf ns] by (force simp: view_ids_def)
  then obtain q where q: "q \<le> length xs" "view_ids xs ! q = npar n"
    unfolding in_set_conv_nth by (auto simp: less_Suc_eq_le)
  from inv have pr: "projected xs v" and tail: "\<forall>k > length xs. tv_kids v k = []"
    and pars: "\<forall>m \<in> set xs. npar m \<in> set (view_ids xs)" by (simp_all add: listing_inv_def)
  have views: "tv_views v = root_view # map (the \<circ> node_view) xs"
    and kids: "k \<le> length xs \<Longrightarrow> tv_kids v k = kids_of xs (view_ids xs ! k)"
    and byID: "k \<le> length xs \<Longrightarrow> tv_byID v (view_ids xs ! k) = Some k"
    and nm: "k < length xs \<Longrightarrow> tv_NodeMap v (id_String (nid (xs ! k))) = Some (Suc k)"
    and dom: "dom (tv_NodeMap v) = (id_String \<circ> nid) ` set xs" for k
    using projectedD [OF pr] by blast+
  let ?k = "Suc (length xs)"
  let ?v' = "v\<lparr>tv_views := tv_views v @ [w], tv_kids := (tv_kids v)(q := tv_kids v q @ [?k]),
      tv_byID := (tv_byID v)(nid n \<mapsto> ?k), tv_NodeMap := (tv_NodeMap v)(id_String (nid n) \<mapsto> ?k)\<rparr>"
  have visit: "list_visit n v = WDone ?v'"
    using byID [OF q(1)] q(2) views n(1) w
    by (simp add: list_visit_def Let_def NodeParent_npar NodeID_nid)
  have old: "view_ids (xs @ [n]) ! k = view_ids xs ! k" if "k \<le> length xs" for k
    using that by (simp add: view_ids_snoc nth_append)
  have last: "view_ids (xs @ [n]) ! ?k = nid n" by (simp add: view_ids_snoc nth_append)
  have kk: "tv_kids ?v' k = kids_of (xs @ [n]) (view_ids (xs @ [n]) ! k)" if "k \<le> ?k" for k
  proof (cases "k = ?k")
    case True
    have "nid n \<notin> npar ` set (xs @ [n])" using pars par new by auto
    then have "kids_of (xs @ [n]) (nid n) = []" by (rule kids_of_none)
    then show ?thesis using True tail last q(1) by simp
  next
    case False
    then have k: "k \<le> length xs" using that by simp
    have "view_ids xs ! k = npar n \<longleftrightarrow> k = q"
      unfolding q(2) [symmetric] by (rule nth_eq_iff_index_eq [OF dist]) (use q(1) k in simp_all)
    then have "kids_of (xs @ [n]) (view_ids xs ! k) =
        kids_of xs (view_ids xs ! k) @ (if k = q then [?k] else [])" by (simp add: kids_of_snoc eq_commute)
    then show ?thesis using kids [OF k] by (cases "k = q") (simp_all add: old [OF k] old [OF q(1)])
  qed
  have ids: "tv_byID ?v' (view_ids (xs @ [n]) ! k) = Some k" if "k \<le> ?k" for k
  proof (cases "k = ?k")
    case False
    then have k: "k \<le> length xs" using that by simp
    then have "view_ids xs ! k \<in> set (view_ids xs)" by (intro nth_mem) simp
    then have "view_ids xs ! k \<noteq> nid n" using new by metis
    then show ?thesis using byID [OF k] by (simp add: old [OF k])
  qed (simp add: last)
  have nodes: "tv_NodeMap ?v' (id_String (nid ((xs @ [n]) ! k))) = Some (Suc k)" if "k < ?k" for k
  proof (cases "k = length xs")
    case False
    then have k: "k < length xs" using that by simp
    then have "nid (xs ! k) \<noteq> nid n" using before_parent(1) [OF wf ns] by (metis imageI nth_mem)
    then show ?thesis using nm [OF k] k by (simp add: nth_append id_String_inj)
  qed simp
  have "projected (xs @ [n]) ?v'" unfolding projected_def
    using views w kk ids nodes dom by simp
  moreover have "\<forall>k > length (xs @ [n]). tv_kids ?v' k = []" using tail q(1) by simp
  moreover have "\<forall>m \<in> set (xs @ [n]). npar m \<in> set (view_ids (xs @ [n]))"
    using pars par by (auto simp: view_ids_snoc)
  ultimately have "listing_inv (xs @ [n]) ?v'" unfolding listing_inv_def by blast
  with visit show ?thesis by blast
qed

lemma listing_init: "listing_inv [] empty_view"
  by (simp add: listing_inv_def projected_def empty_view_def kids_of_def view_ids_def)

theorem ListTree_projects:
  assumes wf: "wf_tree (a_tree a)"
  shows "\<exists>v. ListTree a = Returns v \<and> projected (preorder (a_tree a)) v"
proof -
  have ro: "read_only (\<lambda>_. a_tree a) list_visit" by (simp add: read_only_def)
  have "\<exists>v. visit_all list_visit (preorder (a_tree a)) empty_view = WDone v \<and>
      listing_inv (preorder (a_tree a)) v"
    by (rule visit_all_inv [where D = listing_inv, OF listing_step [OF wf] listing_init])
  then show ?thesis
    using Walk_preorder [where g = "\<lambda>_. a_tree a", OF wf ro] by (auto simp: ListTree_def listing_inv_def)
qed

subsection \<open>Queries\<close>

lemma views_of_nodes: "(\<And>n. n \<in> set ns \<Longrightarrow> is_node n) \<Longrightarrow> views_of ns = Some (map (the \<circ> node_view) ns)"
proof (induction ns)
  case (Cons n ns)
  then show ?case using node_view_known [of n] by auto
qed simp

text \<open>A filter that is left out (the empty text) accepts every node.\<close>

definition accepts :: "(string \<Rightarrow> string) \<Rightarrow> SearchQuery \<Rightarrow> node \<Rightarrow> bool" where
  "accepts ul q n \<longleftrightarrow> (sq_Name q \<noteq> '''' \<longrightarrow> MatchName ul (sq_Name q) n = Some True) \<and>
     (sq_Tag q \<noteq> '''' \<longrightarrow> MatchTag ul (sq_Tag q) n = Some True) \<and>
     (sq_Protocol q \<noteq> '''' \<longrightarrow> MatchProtocol (sq_Protocol q) n = Some True)"

lemma SearchNodes_filter:
  assumes wf: "wf_tree (a_tree a)"
  shows "SearchNodes ul q a = Returns (map (the \<circ> node_view) (filter (accepts ul q) (preorder (a_tree a))))"
proof -
  let ?ps = "query_preds ul q"
  let ?pred = "if length ?ps > 0 then And ?ps else MatchAll"
  have tot: "list_all total_pred ?ps" using total_preds by (auto simp: query_preds_def)
  have tp: "total_pred (Some ?pred)" using total_And [OF tot] total_preds by auto
  have eq: "matches (Some ?pred) n = accepts ul q n" if n: "n \<in> set (preorder (a_tree a))" for n
  proof (cases "?ps = []")
    case True
    then show ?thesis by (auto simp: query_preds_def accepts_def matches_def MatchAll_def split: if_splits)
  next
    case False
    then show ?thesis using matches_And [OF wf n tot]
      by (auto simp: query_preds_def accepts_def matches_def split: if_splits)
  qed
  have "Search (Some ?pred) (a_tree a) = WDone (filter (accepts ul q) (preorder (a_tree a)))"
    using Search_filter [OF wf tp] eq by (simp cong: filter_cong)
  moreover have "views_of (filter (accepts ul q) (preorder (a_tree a))) =
      Some (map (the \<circ> node_view) (filter (accepts ul q) (preorder (a_tree a))))"
    by (rule views_of_nodes) (simp add: preorder_node(1) [OF wf])
  ultimately show ?thesis unfolding SearchNodes_def Let_def by simp
qed

fun favorite :: "node \<Rightarrow> bool" where
  "favorite (NConn c) = c_Favorite c"
| "favorite _ = False"

lemma ListFavorites_filter:
  assumes wf: "wf_tree (a_tree a)"
  shows "ListFavorites ul srt True a = Returns (srt (\<lambda>v. to_lower ul (nv_Name v))
    (map (the \<circ> node_view) (filter favorite (preorder (a_tree a)))))"
proof -
  let ?v = "\<lambda>n out. case n of NConn c \<Rightarrow> WDone (if c_Favorite c then out @ [connectionNodeView c] else out)
      | NNilConn \<Rightarrow> WPanic out | _ \<Rightarrow> (WDone out :: (unit, NodeView list) walk_result)"
  have all: "(\<And>n. n \<in> set ns \<Longrightarrow> is_node n) \<Longrightarrow>
      visit_all ?v ns out = WDone (out @ map (the \<circ> node_view) (filter favorite ns))" for ns out
  proof (induction ns arbitrary: out)
    case (Cons n ns)
    then show ?case using Cons.prems [of n] by (cases n) auto
  qed simp
  have "Walk (\<lambda>_. a_tree a) ?v [] = visit_all ?v (preorder (a_tree a)) []"
    by (rule Walk_preorder [where g = "\<lambda>_. a_tree a"]) (simp_all add: wf read_only_def)
  then show ?thesis using all [of "preorder (a_tree a)" "[]"] preorder_node(1) [OF wf]
    by (simp add: ListFavorites_def)
qed

text \<open>The folders above a connection, from the root down, are found, and give its effective
  values.\<close>

lemma GetConnection_effective:
  assumes wf: "wf_tree (a_tree a)" and c: "conn_at (a_tree a) i = Some c"
  shows "\<exists>fs v. chain (folders (a_tree a)) (c_ParentID c) fs \<and> GetConnection True i a = Returns (Inr v) \<and>
    cv_ID v = id_String i \<and> cv_Name v = c_Name c \<and>
    FStr (cv_EffectiveProtocol v) = fst (effective (c_Inheritance c) c fs FieldProtocolID) \<and>
    FStr (cv_EffectiveHost v) = fst (effective (c_Inheritance c) c fs FieldHost) \<and>
    FInt (cv_EffectivePort v) = fst (effective (c_Inheritance c) c fs FieldPort) \<and>
    FStr (cv_EffectiveUsername v) = fst (effective (c_Inheritance c) c fs FieldUsername)"
proof -
  note wc = wf_conn [OF wf c]
  obtain fs where fs: "chain (folders (a_tree a)) (c_ParentID c) fs"
    "ancestors_loop (tree_fuel (a_tree a)) (a_tree a) (c_ParentID c) [] = Some (Inr fs)"
    using ancestors_loop_ok [OF wf wc(4)] by blast
  let ?r = "rc_node (Resolve (c_Inheritance c) (Some c) (map Some fs))"
  have "GetConnection True i a = Returns (Inr (connection_view c ?r))"
    using fs(2) c wc(2,3) by (simp add: GetConnection_def Connection_def Ancestors_def)
  moreover have "node_field ?r f = fst (effective (c_Inheritance c) c fs f)" for f
    by (simp add: Resolve_effective)
  from this [of FieldProtocolID] this [of FieldHost] this [of FieldPort] this [of FieldUsername]
  have "FStr (c_ProtocolID ?r) = fst (effective (c_Inheritance c) c fs FieldProtocolID)"
    "FStr (c_Host ?r) = fst (effective (c_Inheritance c) c fs FieldHost)"
    "FInt (c_Port ?r) = fst (effective (c_Inheritance c) c fs FieldPort)"
    "FStr (c_Username ?r) = fst (effective (c_Inheritance c) c fs FieldUsername)" by simp_all
  moreover let ?v = "connection_view c ?r"
  have "cv_ID ?v = id_String i" "cv_Name ?v = c_Name c" "cv_EffectiveProtocol ?v = c_ProtocolID ?r"
    "cv_EffectiveHost ?v = c_Host ?r" "cv_EffectivePort ?v = c_Port ?r" "cv_EffectiveUsername ?v = c_Username ?r"
    using wc(1) by (simp_all add: connection_view_def)
  ultimately show ?thesis using fs(1) by (intro exI [of _ fs] exI [of _ ?v] conjI) (assumption | simp only:)+
qed

lemma GetConnection_missing:
  "conn_at (a_tree a) i = None \<Longrightarrow> \<exists>e. GetConnection ctx i a = Returns (Inl e)"
  by (auto simp: GetConnection_def Connection_def)

end
