(* ===== verification/AppFaults.thy ===== *)
theory AppFaults
  imports AppDuplicate AppViews
begin

text \<open>
  Two ways the application breaks: after a connection at the root is deleted, its ID stays in
  the root's index, and every later walk hands the visitor a nil connection; after \<open>Shutdown\<close>
  every mutating command sends on the closed channel.
\<close>

subsection \<open>A walk over a dangling connection\<close>

text \<open>Two trees that differ only in the root's connections are walked alike below the root.\<close>

definition same_below :: "Tree \<Rightarrow> Tree \<Rightarrow> bool" where
  "same_below t u \<longleftrightarrow> folders t = folders u \<and> folderChildren t = folderChildren u \<and>
     (\<forall>p. NilID \<notin> set (folderChildren t p)) \<and>
     (\<forall>p. p \<noteq> NilID \<longrightarrow> connectionChildren t p = connectionChildren u p \<and>
        (\<forall>k \<in> set (connectionChildren t p). conn_at t k = conn_at u k))"

lemma walk_conns_same:
  "(\<And>k. k \<in> set ids \<Longrightarrow> conn_at t k = conn_at u k) \<Longrightarrow>
    walk_conns (\<lambda>_. t) v ids s = walk_conns (\<lambda>_. u) v ids s"
proof (induction ids arbitrary: s)
  case (Cons k ids)
  have "conn_node t k = conn_node u k" using Cons.prems by (simp add: conn_node_def)
  moreover have "walk_conns (\<lambda>_. t) v ids s' = walk_conns (\<lambda>_. u) v ids s'" for s'
    using Cons by simp
  ultimately show ?case by (simp split: walk_result.split)
qed simp

lemma walk_folders_same:
  assumes "\<And>i s. i \<noteq> NilID \<Longrightarrow> walkFrom n (\<lambda>_. t) v i s = walkFrom n (\<lambda>_. u) v i s" "folders t = folders u"
  shows "NilID \<notin> set ids \<Longrightarrow> walk_folders n (\<lambda>_. t) v ids s = walk_folders n (\<lambda>_. u) v ids s"
proof (induction ids arbitrary: s)
  case (Cons i ids)
  have n: "folder_node t i = folder_node u i" using assms(2) by (simp add: folder_node_def)
  have w: "walkFrom n (\<lambda>_. t) v i = walkFrom n (\<lambda>_. u) v i" using Cons.prems assms(1) [of i] by auto
  have f: "walk_folders n (\<lambda>_. t) v ids = walk_folders n (\<lambda>_. u) v ids"
    using Cons by auto
  show ?case unfolding walk_folders.simps n w f ..
qed simp

lemma sorted_same:
  assumes "same_below t u" "p \<noteq> NilID"
  shows "sort_ids (conn_key t) (connectionChildren t p) = sort_ids (conn_key u) (connectionChildren u p)"
  using assms sort_ids_agree [of "connectionChildren u p" "conn_key t" "conn_key u"]
  by (simp add: same_below_def conn_key_def)

lemma sort_ids_set: "sort_ids key ids = Some ids' \<Longrightarrow> set ids' = set ids"
  by (auto simp: sort_ids_def split: if_splits)

lemma walkFrom_same:
  assumes "same_below t u"
  shows "p \<noteq> NilID \<Longrightarrow> walkFrom n (\<lambda>_. t) v p s = walkFrom n (\<lambda>_. u) v p s"
proof (induction n arbitrary: p s)
  case (Suc n)
  have f: "folders t = folders u" "folderChildren t = folderChildren u" "NilID \<notin> set (folderChildren t p)"
    using assms unfolding same_below_def by blast+
  have k: "folder_key t = folder_key u" by (simp add: folder_key_def f(1) fun_eq_iff)
  show ?case
  proof (cases "sort_ids (folder_key u) (folderChildren u p)")
    case (Some ids)
    then have "NilID \<notin> set ids" using sort_ids_set [OF Some] f by simp
    then have w: "walk_folders n (\<lambda>_. t) v ids s = walk_folders n (\<lambda>_. u) v ids s"
      using walk_folders_same [of n t v u ids s] Suc.IH f(1) by blast
    have c: "walk_conns (\<lambda>_. t) v cids s' = walk_conns (\<lambda>_. u) v cids s'"
      if "sort_ids (conn_key u) (connectionChildren u p) = Some cids" for cids s'
    proof (rule walk_conns_same)
      fix k assume "k \<in> set cids"
      with sort_ids_set [OF that] assms Suc.prems show "conn_at t k = conn_at u k"
        by (simp add: same_below_def)
    qed
    show ?thesis
    proof (cases "walk_folders n (\<lambda>_. u) v ids s")
      case (WDone s1)
      then show ?thesis using Some f(2) k w c sorted_same [OF assms Suc.prems]
        by (simp split: option.split)
    qed (use Some f(2) k w in simp_all)
  qed (simp add: f(2) k)
qed simp

text \<open>A visitor that accepts every node and dereferences it.\<close>

definition dereferences :: "('e, 's) visitor \<Rightarrow> bool" where
  "dereferences v \<longleftrightarrow> (\<forall>n s. is_node n \<longrightarrow> (\<exists>s'. v n s = WDone s')) \<and> (\<forall>s. v NNilConn s = WPanic s)"

lemma visit_all_done:
  assumes "dereferences v"
  shows "(\<And>n. n \<in> set ns \<Longrightarrow> is_node n) \<Longrightarrow> \<exists>s'. visit_all v ns s = WDone s'"
proof (induction ns arbitrary: s)
  case (Cons n ns)
  then obtain s1 where "v n s = WDone s1" using assms unfolding dereferences_def by (meson list.set_intros(1))
  with Cons show ?case by simp
qed simp

lemma Walk_dangling:
  fixes v :: "('e, 's) visitor"
  assumes wf: "wf_tree t" and c: "conn_at t i = Some c" "c_ParentID c = NilID" and v: "dereferences v"
  shows "\<exists>s'. Walk (\<lambda>_. t\<lparr>connections := fmdrop i (connections t)\<rparr>) v s = WPanic s'"
proof -
  let ?t = "t\<lparr>connections := fmdrop i (connections t)\<rparr>"
  let ?n = "Suc (gomap_len (folders t))"
  have i: "i \<in> set (connectionChildren t NilID)" using c wf_connectionChildren [OF wf] by auto
  have same: "same_below ?t t"
    using wf_folderChildren [OF wf] wf_folder(2) [OF wf] wf_connectionChildren [OF wf] c
    by (fastforce simp: same_below_def)
  have fk: "folder_key ?t = folder_key t" by (simp add: folder_key_def fun_eq_iff)
  have sf: "sort_ids (folder_key t) (folderChildren t NilID) = Some (sorted_folders t NilID)"
    by (rule sort_ids_folders [OF wf])
  have "\<exists>s1. walk_folders ?n (\<lambda>_. t) v (sorted_folders t NilID) s = WDone s1"
  proof -
    obtain s1 where "Walk (\<lambda>_. t) v s = WDone s1"
      using Walk_preorder [where g = "\<lambda>_. t" and v = v and s = s, OF wf] visit_all_done [OF v] preorder_node(1) [OF wf]
      by (metis read_only_def)
    then show ?thesis using sf
      by (simp add: Walk_def tree_fuel_def numeral_2_eq_2 del: walk_folders.simps split: walk_result.splits)
  qed
  then obtain s1 where s1: "walk_folders ?n (\<lambda>_. ?t) v (sorted_folders t NilID) s = WDone s1"
  proof -
    have "NilID \<notin> set (sorted_folders t NilID)"
      using wf_folderChildren [OF wf] wf_folder(2) [OF wf] by auto
    then have "walk_folders ?n (\<lambda>_. ?t) v (sorted_folders t NilID) s = walk_folders ?n (\<lambda>_. t) v (sorted_folders t NilID) s"
      by (rule walk_folders_same [rotated 2]) (use walkFrom_same [OF same] in \<open>simp_all del: walkFrom.simps\<close>)
    with that show ?thesis using \<open>\<exists>s1. walk_folders ?n (\<lambda>_. t) v (sorted_folders t NilID) s = WDone s1\<close> by auto
  qed
  have key: "conn_key ?t i = None" by (simp add: conn_key_def)
  have "Walk (\<lambda>_. ?t) v s = (case sort_ids (conn_key ?t) (connectionChildren t NilID) of
      None \<Rightarrow> WPanic s1 | Some ids \<Rightarrow> walk_conns (\<lambda>_. ?t) v ids s1)"
    using s1 sf fk by (simp add: Walk_def tree_fuel_def numeral_2_eq_2 del: walk_folders.simps)
  moreover have "(case sort_ids (conn_key ?t) (connectionChildren t NilID) of
      None \<Rightarrow> WPanic s1 | Some ids \<Rightarrow> walk_conns (\<lambda>_. ?t) v ids s1) = WPanic s1"
  proof (cases "length (connectionChildren t NilID) < 2")
    case True
    then have "connectionChildren t NilID = [i]" using i
      by (cases "connectionChildren t NilID"; cases "tl (connectionChildren t NilID)") auto
    moreover have "conn_node ?t i = NNilConn" by (simp add: conn_node_def)
    ultimately show ?thesis using v by (simp add: sort_ids_def dereferences_def)
  next
    case False
    moreover have "\<not> list_all (\<lambda>k. conn_key ?t k \<noteq> None) (connectionChildren t NilID)"
      unfolding list_all_iff using i key by blast
    ultimately have "sort_ids (conn_key ?t) (connectionChildren t NilID) = None"
      by (simp add: sort_ids_def)
    then show ?thesis by simp
  qed
  ultimately have "Walk (\<lambda>_. ?t) v s = WPanic s1" by (rule trans)
  then show ?thesis by (rule exI)
qed

subsection \<open>Deleting a connection at the root\<close>

lemma DeleteNode_root_conn:
  assumes wf: "wf_tree (a_tree a)" and c: "conn_at (a_tree a) i = Some c" "c_ParentID c = NilID"
    and run: "\<not> (a_started a \<and> a_sig_closed a)"
  shows "\<exists>a'. DeleteNode True now i a = Returns (Inr (), a') \<and>
    a_tree a' = (a_tree a)\<lparr>connections := fmdrop i (connections (a_tree a))\<rparr>"
proof -
  have f: "folder_at (a_tree a) i = None" using wf_conn(3) [OF wf c(1)] .
  let ?t = "(a_tree a)\<lparr>connections := fmdrop i (connections (a_tree a))\<rparr>"
  let ?e = "node_event EventNodeDeleted i NilID NilID NodeKindConnection ''''"
  have "DeleteNode True now i a = commit now 0 ?e () (a\<lparr>a_tree := ?t\<rparr>)"
    using f c Remove_root_conn(1) [OF wf c] by (simp add: DeleteNode_def FindByID_def)
  moreover have "\<exists>r a'. commit now 0 ?e () (a\<lparr>a_tree := ?t\<rparr>) = Returns (r, a')"
    using run by (auto simp: commit_def markDirty_def Let_def)
  ultimately show ?thesis using commit_result by metis
qed

lemma list_visit_dereferences: "dereferences list_visit"
proof -
  have "\<exists>s'. list_visit n s = WDone s'" if "is_node n" for n s
    using that node_view_known [OF that] by (auto simp: list_visit_def NodeParent_npar NodeID_nid Let_def)
  then show ?thesis by (simp add: dereferences_def list_visit_def)
qed

lemma ListTree_after_delete:
  assumes "wf_tree t" "conn_at t i = Some c" "c_ParentID c = NilID"
    and "a_tree a' = t\<lparr>connections := fmdrop i (connections t)\<rparr>"
  shows "ListTree a' = Panics"
proof -
  obtain s where "Walk (\<lambda>_. t\<lparr>connections := fmdrop i (connections t)\<rparr>) list_visit empty_view = WPanic s"
    using Walk_dangling [OF assms(1-3) list_visit_dereferences] by blast
  then show ?thesis by (simp add: ListTree_def assms(4))
qed

subsection \<open>Commands after the shutdown\<close>

lemma commit_after_shutdown:
  assumes "a_started a" "a_sig_closed a"
  shows "commit now k e r (a\<lparr>a_tree := t\<rparr>) = Panics"
  using assms by (simp add: commit_def markDirty_def Let_def)

lemma ToggleFavorite_after_shutdown:
  assumes "a_started a" "a_sig_closed a" "conn_at (a_tree a) i = Some c"
  shows "ToggleFavorite True now i a = Panics"
  using assms commit_after_shutdown by (simp add: ToggleFavorite_def Connection_def Let_def)

lemma commit_returns:
  "\<not> (a_started a \<and> a_sig_closed a) \<Longrightarrow> \<exists>a'. commit now k e r (a\<lparr>a_tree := t\<rparr>) = Returns (Inr r, a')"
  by (auto simp: commit_def markDirty_def Let_def)

lemma DuplicateNode_returns:
  assumes wf: "wf_tree (a_tree a)" and fr: "fresh_ids (a_tree a) rnd" and n: "FindByID i (a_tree a) = Inr n"
    and run: "\<not> (a_started a \<and> a_sig_closed a)"
  shows "\<exists>r a'. DuplicateNode True rnd now i a = Returns (r, a')"
proof -
  have i: "i \<noteq> NilID" using find_preorder [OF wf n] preorder_node(3) [OF wf] by blast
  obtain p where p: "NodeParent n = Some p" using FindByID_kinds [OF n] by auto
  obtain s where s: "Walk ds_tree (dup_visit rnd i) (dup_init (a_tree a)) = WDone s"
    using dup_result [OF wf fr n] by blast
  show ?thesis using i n p s commit_returns [OF run, where r = "ds_root s"] by (simp add: DuplicateNode_def) blast
qed


subsection \<open>Commands return\<close>

definition returns :: "'r call \<Rightarrow> bool" where
  "returns r \<longleftrightarrow> (\<exists>x. r = Returns x)"

lemma returns_simps [simp]: "returns (Returns x)" "\<not> returns Panics" "\<not> returns Loops"
  "returns (fail e a)"
  by (simp_all add: returns_def fail_def)

lemma commit_running: "\<not> (a_started a \<and> a_sig_closed a) \<Longrightarrow> returns (commit now k e r (a\<lparr>a_tree := t\<rparr>))"
  using commit_returns [of a now k e r t] by (auto simp: returns_def)

lemma commands_run:
  assumes "wf_tree (a_tree a)" "\<not> (a_started a \<and> a_sig_closed a)"
  shows "returns (CreateFolder ctx new now p name o1 a)" "returns (CreateConnection ctx new now p o2 a)"
    "returns (UpdateConnection ctx now i p1 a)" "returns (ToggleFavorite ctx now i a)"
    "returns (UpdateFolder ctx now i p2 a)" "returns (MoveNode ctx now i p a)" "returns (DeleteNode ctx now i a)"
    "fresh_ids (a_tree a) rnd \<Longrightarrow> returns (DuplicateNode ctx rnd now i a)"
proof -
  note run = commit_running [OF assms(2)]
  show "returns (CreateFolder ctx new now p name o1 a)" "returns (CreateConnection ctx new now p o2 a)"
    "returns (UpdateConnection ctx now i p1 a)" "returns (ToggleFavorite ctx now i a)"
    "returns (UpdateFolder ctx now i p2 a)"
    by (simp_all add: CreateFolder_def CreateConnection_def UpdateConnection_def ToggleFavorite_def UpdateFolder_def
        run Let_def split: sum.split)
  have k: "NodeParent n \<noteq> None" if "FindByID i (a_tree a) = Inr n" for n using FindByID_kinds [OF that] by auto
  show "returns (MoveNode ctx now i p a)"
    using Move_returns [OF assms(1), of i p] k by (auto simp: MoveNode_def run split: sum.split option.split)
  show "returns (DeleteNode ctx now i a)"
    using Remove_returns [OF assms(1), of i] k by (auto simp: DeleteNode_def run split: sum.split option.split)
  show "returns (DuplicateNode ctx rnd now i a)" if fr: "fresh_ids (a_tree a) rnd"
  proof (cases "ctx \<and> i \<noteq> NilID \<and> (\<exists>n. FindByID i (a_tree a) = Inr n)")
    case True
    then obtain n where "FindByID i (a_tree a) = Inr n" by blast
    from DuplicateNode_returns [OF assms(1) fr this assms(2)] True show ?thesis by (auto simp: returns_def)
  qed (cases "FindByID i (a_tree a)"; auto simp: DuplicateNode_def)
qed

end
