(* ===== verification/ImportRaw.thy ===== *)
theory ImportRaw
  imports PluginHost Nodes "HOL-Library.AList"
begin

text \<open>
  \<open>internal/import/mremoteng\<close>: \<open>raw.go\<close>, \<open>xml.go\<close>, \<open>csv.go\<close> and the tables of \<open>mapper.go\<close>. The
  fields of \<open>rawConnection\<close> are all strings that are read and written through switches over
  attribute names; here they are a function on the names of the fields, and the switches are
  tables. The scanners of \<open>encoding/xml\<close> and \<open>encoding/csv\<close> are arguments.
\<close>

subsection \<open>Raw connections\<close>

datatype rawConnection = RawConnection
  (raw_field: "string \<Rightarrow> string") (raw_Unknown: "(string \<times> string) list") (raw_Children: "rawConnection list")

definition zero_raw :: rawConnection where
  "zero_raw = RawConnection (\<lambda>_. '''') [] []"

definition set_raw :: "string \<Rightarrow> string \<Rightarrow> rawConnection \<Rightarrow> rawConnection" where
  "set_raw f v r = RawConnection ((raw_field r)(f := v)) (raw_Unknown r) (raw_Children r)"

definition add_child :: "rawConnection \<Rightarrow> rawConnection \<Rightarrow> rawConnection" where
  "add_child c r = RawConnection (raw_field r) (raw_Unknown r) (raw_Children r @ [c])"

lemma raw_simps [simp]:
  "raw_field (set_raw f v r) = (raw_field r)(f := v)" "raw_Unknown (set_raw f v r) = raw_Unknown r"
  "raw_Children (set_raw f v r) = raw_Children r" "raw_field (add_child c r) = raw_field r"
  "raw_Unknown (add_child c r) = raw_Unknown r" "raw_Children (add_child c r) = raw_Children r @ [c]"
  by (simp_all add: set_raw_def add_child_def)

subsection \<open>Attributes\<close>

text \<open>The cases of \<open>assignRawAttr\<close>: the attribute and the field it is stored in.\<close>

definition structural_attrs :: "(string \<times> string) list" where
  "structural_attrs =
    [(''Name'', ''Name''), (''Type'', ''Type''), (''Id'', ''ID''), (''Descr'', ''Descr''),
     (''Icon'', ''Icon''), (''Panel'', ''Panel''), (''Hostname'', ''Hostname''),
     (''Protocol'', ''Protocol''), (''PuttySession'', ''PuttySession''), (''Port'', ''Port''),
     (''Username'', ''Username''), (''Domain'', ''Domain''), (''Password'', ''Password'')]"

definition setting_attrs :: "(string \<times> string) list" where
  "setting_attrs =
    [(''ConnectToConsole'', ''ConnectToConsole''), (''UseConsoleSession'', ''UseConsoleSession''),
     (''UseCredSsp'', ''UseCredSsp''), (''RenderingEngine'', ''RenderingEngine''),
     (''ICAEncryptionStrength'', ''ICAEncryptionStrength''),
     (''RDPAuthenticationLevel'', ''RDPAuthenticationLevel''),
     (''RDPMinutesIdleTimeout'', ''RDPMinutesIdleTimeout''),
     (''RDPAlertIdleTimeout'', ''RDPAlertIdleTimeout''), (''LoadBalanceInfo'', ''LoadBalanceInfo''),
     (''Colors'', ''Colors''), (''Resolution'', ''Resolution''),
     (''AutomaticResize'', ''AutomaticResize''), (''DisplayWallpaper'', ''DisplayWallpaper''),
     (''DisplayThemes'', ''DisplayThemes''), (''EnableFontSmoothing'', ''EnableFontSmoothing''),
     (''EnableDesktopComposition'', ''EnableDesktopComposition''), (''CacheBitmaps'', ''CacheBitmaps''),
     (''RedirectKeys'', ''RedirectKeys''), (''RedirectDiskDrives'', ''RedirectDiskDrives''),
     (''RedirectPrinters'', ''RedirectPrinters''), (''RedirectPorts'', ''RedirectPorts''),
     (''RedirectSmartCards'', ''RedirectSmartCards''), (''RedirectSound'', ''RedirectSound''),
     (''SoundQuality'', ''SoundQuality''), (''PreExtApp'', ''PreExtApp''),
     (''PostExtApp'', ''PostExtApp''), (''MacAddress'', ''MacAddress''), (''UserField'', ''UserField''),
     (''ExtApp'', ''ExtApp''), (''VNCCompression'', ''VNCCompression''),
     (''VNCEncoding'', ''VNCEncoding''), (''VNCAuthMode'', ''VNCAuthMode''),
     (''VNCProxyType'', ''VNCProxyType''), (''VNCProxyIP'', ''VNCProxyIP''),
     (''VNCProxyPort'', ''VNCProxyPort''), (''VNCProxyUsername'', ''VNCProxyUsername''),
     (''VNCProxyPassword'', ''VNCProxyPassword''), (''VNCColors'', ''VNCColors''),
     (''VNCSmartSizeMode'', ''VNCSmartSizeMode''), (''VNCViewOnly'', ''VNCViewOnly''),
     (''RDGatewayUsageMethod'', ''RDGatewayUsageMethod''),
     (''RDGatewayHostname'', ''RDGatewayHostname''),
     (''RDGatewayUseConnectionCredentials'', ''RDGatewayUseConnectionCreds''),
     (''RDGatewayUsername'', ''RDGatewayUsername''), (''RDGatewayPassword'', ''RDGatewayPassword''),
     (''RDGatewayDomain'', ''RDGatewayDomain'')]"

definition inherit_attrs :: "(string \<times> string) list" where
  "inherit_attrs =
    [(''InheritCacheBitmaps'', ''InheritCacheBitmaps''), (''InheritColors'', ''InheritColors''),
     (''InheritDescription'', ''InheritDescription''),
     (''InheritDisplayThemes'', ''InheritDisplayThemes''),
     (''InheritDisplayWallpaper'', ''InheritDisplayWallpaper''),
     (''InheritEnableFontSmoothing'', ''InheritEnableFontSmoothing''),
     (''InheritEnableDesktopComposition'', ''InheritEnableDesktopComposition''),
     (''InheritDomain'', ''InheritDomain''), (''InheritIcon'', ''InheritIcon''),
     (''InheritPanel'', ''InheritPanel''), (''InheritPassword'', ''InheritPassword''),
     (''InheritPort'', ''InheritPort''), (''InheritProtocol'', ''InheritProtocol''),
     (''InheritPuttySession'', ''InheritPuttySession''),
     (''InheritRDGatewayUsageMethod'', ''InheritRDGatewayUsageMethod''),
     (''InheritRDGatewayHostname'', ''InheritRDGatewayHostname''),
     (''InheritRDGatewayUseConnectionCredentials'', ''InheritRDGatewayUseConnectionCredentials''),
     (''InheritRDGatewayUsername'', ''InheritRDGatewayUsername''),
     (''InheritRDGatewayPassword'', ''InheritRDGatewayPassword''),
     (''InheritRDGatewayDomain'', ''InheritRDGatewayDomain''),
     (''InheritResolution'', ''InheritResolution''),
     (''InheritAutomaticResize'', ''InheritAutomaticResize''),
     (''InheritRedirectKeys'', ''InheritRedirectKeys''),
     (''InheritRedirectDiskDrives'', ''InheritRedirectDiskDrives''),
     (''InheritRedirectPrinters'', ''InheritRedirectPrinters''),
     (''InheritRedirectPorts'', ''InheritRedirectPorts''),
     (''InheritRedirectSmartCards'', ''InheritRedirectSmartCards''),
     (''InheritRedirectSound'', ''InheritRedirectSound''),
     (''InheritSoundQuality'', ''InheritSoundQuality''),
     (''InheritUseConsoleSession'', ''InheritUseConsoleSession''),
     (''InheritUseCredSsp'', ''InheritUseCredSsp''),
     (''InheritRenderingEngine'', ''InheritRenderingEngine''),
     (''InheritUsername'', ''InheritUsername''),
     (''InheritICAEncryptionStrength'', ''InheritICAEncryptionStrength''),
     (''InheritRDPAuthenticationLevel'', ''InheritRDPAuthenticationLevel''),
     (''InheritLoadBalanceInfo'', ''InheritLoadBalanceInfo''),
     (''InheritPreExtApp'', ''InheritPreExtApp''), (''InheritPostExtApp'', ''InheritPostExtApp''),
     (''InheritMacAddress'', ''InheritMacAddress''), (''InheritUserField'', ''InheritUserField''),
     (''InheritExtApp'', ''InheritExtApp''), (''InheritVNCCompression'', ''InheritVNCCompression''),
     (''InheritVNCEncoding'', ''InheritVNCEncoding''), (''InheritVNCAuthMode'', ''InheritVNCAuthMode''),
     (''InheritVNCProxyType'', ''InheritVNCProxyType''), (''InheritVNCProxyIP'', ''InheritVNCProxyIP''),
     (''InheritVNCProxyPort'', ''InheritVNCProxyPort''),
     (''InheritVNCProxyUsername'', ''InheritVNCProxyUsername''),
     (''InheritVNCProxyPassword'', ''InheritVNCProxyPassword''),
     (''InheritVNCColors'', ''InheritVNCColors''),
     (''InheritVNCSmartSizeMode'', ''InheritVNCSmartSizeMode''),
     (''InheritVNCViewOnly'', ''InheritVNCViewOnly''),
     (''InheritRDPMinutesIdleTimeout'', ''InheritRDPMinutesIdleTimeout''),
     (''InheritRDPAlertIdleTimeout'', ''InheritRDPAlertIdleTimeout'')]"

definition known_attrs :: "(string \<times> string) list" where
  "known_attrs = structural_attrs @ setting_attrs @ inherit_attrs"

text \<open>The attribute is stored, and whether it is known; unknown ones go to a map.\<close>

definition assignRawAttr :: "rawConnection \<Rightarrow> string \<Rightarrow> string \<Rightarrow> rawConnection \<times> bool" where
  "assignRawAttr r name v = (case map_of known_attrs name of
     Some f \<Rightarrow> (set_raw f v r, True)
   | None \<Rightarrow> (RawConnection (raw_field r) (AList.update name v (raw_Unknown r)) (raw_Children r), False))"

text \<open>The cases of \<open>inheritanceValue\<close> and \<open>perProtocolValue\<close>; other names give the empty string.\<close>

definition inheritanceValue_fields :: "(string \<times> string) list" where
  "inheritanceValue_fields =
    [(''InheritCacheBitmaps'', ''InheritCacheBitmaps''), (''InheritColors'', ''InheritColors''),
     (''InheritDescription'', ''InheritDescription''),
     (''InheritDisplayThemes'', ''InheritDisplayThemes''),
     (''InheritDisplayWallpaper'', ''InheritDisplayWallpaper''),
     (''InheritEnableFontSmoothing'', ''InheritEnableFontSmoothing''),
     (''InheritEnableDesktopComposition'', ''InheritEnableDesktopComposition''),
     (''InheritDomain'', ''InheritDomain''), (''InheritIcon'', ''InheritIcon''),
     (''InheritPanel'', ''InheritPanel''), (''InheritPassword'', ''InheritPassword''),
     (''InheritPort'', ''InheritPort''), (''InheritProtocol'', ''InheritProtocol''),
     (''InheritPuttySession'', ''InheritPuttySession''),
     (''InheritRDGatewayUsageMethod'', ''InheritRDGatewayUsageMethod''),
     (''InheritRDGatewayHostname'', ''InheritRDGatewayHostname''),
     (''InheritRDGatewayUseConnectionCredentials'', ''InheritRDGatewayUseConnectionCredentials''),
     (''InheritRDGatewayUsername'', ''InheritRDGatewayUsername''),
     (''InheritRDGatewayPassword'', ''InheritRDGatewayPassword''),
     (''InheritRDGatewayDomain'', ''InheritRDGatewayDomain''),
     (''InheritResolution'', ''InheritResolution''),
     (''InheritAutomaticResize'', ''InheritAutomaticResize''),
     (''InheritRedirectKeys'', ''InheritRedirectKeys''),
     (''InheritRedirectDiskDrives'', ''InheritRedirectDiskDrives''),
     (''InheritRedirectPrinters'', ''InheritRedirectPrinters''),
     (''InheritRedirectPorts'', ''InheritRedirectPorts''),
     (''InheritRedirectSmartCards'', ''InheritRedirectSmartCards''),
     (''InheritRedirectSound'', ''InheritRedirectSound''),
     (''InheritSoundQuality'', ''InheritSoundQuality''),
     (''InheritUseConsoleSession'', ''InheritUseConsoleSession''),
     (''InheritUseCredSsp'', ''InheritUseCredSsp''),
     (''InheritRenderingEngine'', ''InheritRenderingEngine''),
     (''InheritUsername'', ''InheritUsername''),
     (''InheritICAEncryptionStrength'', ''InheritICAEncryptionStrength''),
     (''InheritRDPAuthenticationLevel'', ''InheritRDPAuthenticationLevel''),
     (''InheritLoadBalanceInfo'', ''InheritLoadBalanceInfo''),
     (''InheritPreExtApp'', ''InheritPreExtApp''), (''InheritPostExtApp'', ''InheritPostExtApp''),
     (''InheritMacAddress'', ''InheritMacAddress''), (''InheritUserField'', ''InheritUserField''),
     (''InheritExtApp'', ''InheritExtApp''), (''InheritVNCCompression'', ''InheritVNCCompression''),
     (''InheritVNCEncoding'', ''InheritVNCEncoding''), (''InheritVNCAuthMode'', ''InheritVNCAuthMode''),
     (''InheritVNCProxyType'', ''InheritVNCProxyType''), (''InheritVNCProxyIP'', ''InheritVNCProxyIP''),
     (''InheritVNCProxyPort'', ''InheritVNCProxyPort''),
     (''InheritVNCProxyUsername'', ''InheritVNCProxyUsername''),
     (''InheritVNCProxyPassword'', ''InheritVNCProxyPassword''),
     (''InheritVNCColors'', ''InheritVNCColors''),
     (''InheritVNCSmartSizeMode'', ''InheritVNCSmartSizeMode''),
     (''InheritVNCViewOnly'', ''InheritVNCViewOnly''),
     (''InheritRDPMinutesIdleTimeout'', ''InheritRDPMinutesIdleTimeout''),
     (''InheritRDPAlertIdleTimeout'', ''InheritRDPAlertIdleTimeout'')]"

definition inheritanceValue :: "rawConnection \<Rightarrow> string \<Rightarrow> string" where
  "inheritanceValue r name = (case map_of inheritanceValue_fields name of
     Some f \<Rightarrow> raw_field r f | None \<Rightarrow> '''')"

definition perProtocolValue_fields :: "(string \<times> string) list" where
  "perProtocolValue_fields =
    [(''ConnectToConsole'', ''ConnectToConsole''), (''UseConsoleSession'', ''UseConsoleSession''),
     (''UseCredSsp'', ''UseCredSsp''), (''RenderingEngine'', ''RenderingEngine''),
     (''ICAEncryptionStrength'', ''ICAEncryptionStrength''),
     (''RDPAuthenticationLevel'', ''RDPAuthenticationLevel''),
     (''RDPMinutesIdleTimeout'', ''RDPMinutesIdleTimeout''),
     (''RDPAlertIdleTimeout'', ''RDPAlertIdleTimeout''), (''LoadBalanceInfo'', ''LoadBalanceInfo''),
     (''Colors'', ''Colors''), (''Resolution'', ''Resolution''),
     (''AutomaticResize'', ''AutomaticResize''), (''DisplayWallpaper'', ''DisplayWallpaper''),
     (''DisplayThemes'', ''DisplayThemes''), (''EnableFontSmoothing'', ''EnableFontSmoothing''),
     (''EnableDesktopComposition'', ''EnableDesktopComposition''), (''CacheBitmaps'', ''CacheBitmaps''),
     (''RedirectKeys'', ''RedirectKeys''), (''RedirectDiskDrives'', ''RedirectDiskDrives''),
     (''RedirectPrinters'', ''RedirectPrinters''), (''RedirectPorts'', ''RedirectPorts''),
     (''RedirectSmartCards'', ''RedirectSmartCards''), (''RedirectSound'', ''RedirectSound''),
     (''SoundQuality'', ''SoundQuality''), (''PreExtApp'', ''PreExtApp''),
     (''PostExtApp'', ''PostExtApp''), (''MacAddress'', ''MacAddress''), (''UserField'', ''UserField''),
     (''ExtApp'', ''ExtApp''), (''VNCCompression'', ''VNCCompression''),
     (''VNCEncoding'', ''VNCEncoding''), (''VNCAuthMode'', ''VNCAuthMode''),
     (''VNCProxyType'', ''VNCProxyType''), (''VNCProxyIP'', ''VNCProxyIP''),
     (''VNCProxyPort'', ''VNCProxyPort''), (''VNCProxyUsername'', ''VNCProxyUsername''),
     (''VNCProxyPassword'', ''VNCProxyPassword''), (''VNCColors'', ''VNCColors''),
     (''VNCSmartSizeMode'', ''VNCSmartSizeMode''), (''VNCViewOnly'', ''VNCViewOnly''),
     (''RDGatewayUsageMethod'', ''RDGatewayUsageMethod''),
     (''RDGatewayHostname'', ''RDGatewayHostname''),
     (''RDGatewayUseConnectionCredentials'', ''RDGatewayUseConnectionCreds''),
     (''RDGatewayUsername'', ''RDGatewayUsername''), (''RDGatewayPassword'', ''RDGatewayPassword''),
     (''RDGatewayDomain'', ''RDGatewayDomain''), (''PuttySession'', ''PuttySession''),
     (''Domain'', ''Domain'')]"

definition perProtocolValue :: "rawConnection \<Rightarrow> string \<Rightarrow> string" where
  "perProtocolValue r attr = (case map_of perProtocolValue_fields attr of
     Some f \<Rightarrow> raw_field r f | None \<Rightarrow> '''')"

subsection \<open>Tables of the mapper\<close>

definition perProtocolSettings :: "(string \<times> string) list" where
  "perProtocolSettings =
    [(''ConnectToConsole'', ''connect_to_console''), (''UseConsoleSession'', ''use_console_session''),
     (''UseCredSsp'', ''use_credssp''), (''RenderingEngine'', ''rendering_engine''),
     (''ICAEncryptionStrength'', ''ica_encryption_strength''),
     (''RDPAuthenticationLevel'', ''rdp_authentication_level''),
     (''RDPMinutesIdleTimeout'', ''rdp_minutes_idle_timeout''),
     (''RDPAlertIdleTimeout'', ''rdp_alert_idle_timeout''),
     (''LoadBalanceInfo'', ''load_balance_info''), (''Colors'', ''colors''),
     (''Resolution'', ''resolution''), (''AutomaticResize'', ''automatic_resize''),
     (''DisplayWallpaper'', ''display_wallpaper''), (''DisplayThemes'', ''display_themes''),
     (''EnableFontSmoothing'', ''enable_font_smoothing''),
     (''EnableDesktopComposition'', ''enable_desktop_composition''),
     (''CacheBitmaps'', ''cache_bitmaps''), (''RedirectKeys'', ''redirect_keys''),
     (''RedirectDiskDrives'', ''redirect_disk_drives''), (''RedirectPrinters'', ''redirect_printers''),
     (''RedirectPorts'', ''redirect_ports''), (''RedirectSmartCards'', ''redirect_smart_cards''),
     (''RedirectSound'', ''redirect_sound''), (''SoundQuality'', ''sound_quality''),
     (''PreExtApp'', ''pre_ext_app''), (''PostExtApp'', ''post_ext_app''),
     (''MacAddress'', ''mac_address''), (''UserField'', ''user_field''), (''ExtApp'', ''ext_app''),
     (''VNCCompression'', ''vnc_compression''), (''VNCEncoding'', ''vnc_encoding''),
     (''VNCAuthMode'', ''vnc_auth_mode''), (''VNCProxyType'', ''vnc_proxy_type''),
     (''VNCProxyIP'', ''vnc_proxy_ip''), (''VNCProxyPort'', ''vnc_proxy_port''),
     (''VNCProxyUsername'', ''vnc_proxy_username''), (''VNCColors'', ''vnc_colors''),
     (''VNCSmartSizeMode'', ''vnc_smart_size_mode''), (''VNCViewOnly'', ''vnc_view_only''),
     (''RDGatewayUsageMethod'', ''rd_gateway_usage_method''),
     (''RDGatewayHostname'', ''rd_gateway_hostname''),
     (''RDGatewayUseConnectionCredentials'', ''rd_gateway_use_connection_credentials''),
     (''RDGatewayUsername'', ''rd_gateway_username''), (''RDGatewayDomain'', ''rd_gateway_domain''),
     (''PuttySession'', ''putty_session''), (''Domain'', ''domain'')]"

definition encryptedPerProtocolSettings :: "(string \<times> string) list" where
  "encryptedPerProtocolSettings =
    [(''VNCProxyPassword'', ''legacy_vnc_proxy_password_blob''),
     (''RDGatewayPassword'', ''legacy_rd_gateway_password_blob'')]"

definition allInheritanceAttrs :: "string list" where
  "allInheritanceAttrs =
    [''InheritCacheBitmaps'', ''InheritColors'', ''InheritDescription'', ''InheritDisplayThemes'',
     ''InheritDisplayWallpaper'', ''InheritEnableFontSmoothing'', ''InheritEnableDesktopComposition'',
     ''InheritDomain'', ''InheritIcon'', ''InheritPanel'', ''InheritPassword'', ''InheritPort'',
     ''InheritProtocol'', ''InheritPuttySession'', ''InheritRDGatewayUsageMethod'',
     ''InheritRDGatewayHostname'', ''InheritRDGatewayUseConnectionCredentials'',
     ''InheritRDGatewayUsername'', ''InheritRDGatewayPassword'', ''InheritRDGatewayDomain'',
     ''InheritResolution'', ''InheritAutomaticResize'', ''InheritRedirectKeys'',
     ''InheritRedirectDiskDrives'', ''InheritRedirectPrinters'', ''InheritRedirectPorts'',
     ''InheritRedirectSmartCards'', ''InheritRedirectSound'', ''InheritSoundQuality'',
     ''InheritUseConsoleSession'', ''InheritUseCredSsp'', ''InheritRenderingEngine'',
     ''InheritUsername'', ''InheritICAEncryptionStrength'', ''InheritRDPAuthenticationLevel'',
     ''InheritLoadBalanceInfo'', ''InheritPreExtApp'', ''InheritPostExtApp'', ''InheritMacAddress'',
     ''InheritUserField'', ''InheritExtApp'', ''InheritVNCCompression'', ''InheritVNCEncoding'',
     ''InheritVNCAuthMode'', ''InheritVNCProxyType'', ''InheritVNCProxyIP'', ''InheritVNCProxyPort'',
     ''InheritVNCProxyUsername'', ''InheritVNCProxyPassword'', ''InheritVNCColors'',
     ''InheritVNCSmartSizeMode'', ''InheritVNCViewOnly'', ''InheritRDPMinutesIdleTimeout'',
     ''InheritRDPAlertIdleTimeout'']"

definition inheritanceFieldMap :: "(string \<times> Field) list" where
  "inheritanceFieldMap =
    [(''InheritProtocol'', FieldProtocolID), (''InheritPort'', FieldPort),
     (''InheritUsername'', FieldUsername), (''InheritPassword'', FieldCredentialRef),
     (''InheritDescription'', FieldDescription), (''InheritIcon'', FieldIcon),
     (''InheritPanel'', FieldEnvironment)]"

definition protocolMap :: "(string \<times> string) list" where
  "protocolMap =
    [(''ssh2'', ''io.goremote.protocol.ssh''), (''ssh1'', ''io.goremote.protocol.ssh''),
     (''ssh'', ''io.goremote.protocol.ssh''), (''telnet'', ''io.goremote.protocol.telnet''),
     (''rdp'', ''io.goremote.protocol.rdp''), (''vnc'', ''io.goremote.protocol.vnc''),
     (''rlogin'', ''io.goremote.protocol.rlogin''), (''raw'', ''io.goremote.protocol.rawsocket''),
     (''rawsocket'', ''io.goremote.protocol.rawsocket''), (''http'', ''io.goremote.protocol.http''),
     (''https'', ''io.goremote.protocol.http''), (''tn5250'', ''io.goremote.protocol.tn5250''),
     (''powershell'', ''io.goremote.protocol.powershell''),
     (''intapp'', ''io.goremote.protocol.external''),
     (''externaltool'', ''io.goremote.protocol.external'')]"

definition mapProtocol :: "(string \<Rightarrow> string) \<Rightarrow> string \<Rightarrow> string option" where
  "mapProtocol ul raw = (if raw = '''' then None else map_of protocolMap (to_lower ul raw))"

text \<open>\<open>None\<close>: the text is empty or not recognised.\<close>

definition parseBool :: "(string \<Rightarrow> string) \<Rightarrow> string \<Rightarrow> bool option" where
  "parseBool ul s = (let t = to_lower ul (trim_space s) in
     if t = ''true'' \<or> t = ''1'' \<or> t = ''yes'' then Some True
     else if t = ''false'' \<or> t = ''0'' \<or> t = ''no'' then Some False
     else None)"

definition parsePort :: "string \<Rightarrow> int" where
  "parsePort s = (let t = trim_space s in
     if t = '''' then 0
     else case Atoi t of None \<Rightarrow> 0 | Some n \<Rightarrow> if n < 0 \<or> n > 65535 then 0 else n)"

subsection \<open>XML\<close>

datatype xml_token = XStart string "(string \<times> string) list" | XEnd string | XOther

datatype import_error = EmptyDocument | XMLSyntax | WrongRoot string | CSVSyntax | EmptyCSV

text \<open>
  \<open>Decoder.Skip\<close>: to the end of the element whose start was read, over nested ones. \<open>None\<close> in
  this and the next function is the error of the decoder, or the end of the document.
\<close>

fun xml_Skip :: "nat \<Rightarrow> xml_token list \<Rightarrow> xml_token list option" where
  "xml_Skip d [] = None"
| "xml_Skip d (XStart n a # ts) = xml_Skip (Suc d) ts"
| "xml_Skip d (XEnd n # ts) = (case d of 0 \<Rightarrow> Some ts | Suc e \<Rightarrow> xml_Skip e ts)"
| "xml_Skip d (XOther # ts) = xml_Skip d ts"

lemma xml_Skip_shorter: "xml_Skip d ts = Some us \<Longrightarrow> length us < length ts"
  by (induction d ts rule: xml_Skip.induct) (auto split: nat.splits)

definition node_of_attrs :: "(string \<times> string) list \<Rightarrow> rawConnection" where
  "node_of_attrs attrs = fold (\<lambda>(a, v) r. fst (assignRawAttr r a v)) attrs zero_raw"

text \<open>The loop of \<open>decodeNode\<close> after the attributes.\<close>

function decodeNode_loop :: "rawConnection \<Rightarrow> xml_token list \<Rightarrow> (rawConnection \<times> xml_token list) option" where
  "decodeNode_loop r [] = None"
| "decodeNode_loop r (XStart n attrs # ts) =
     (if n = ''Node'' then
        (case decodeNode_loop (node_of_attrs attrs) ts of
           None \<Rightarrow> None
         | Some (child, us) \<Rightarrow> decodeNode_loop (add_child child r) us)
      else case xml_Skip 0 ts of None \<Rightarrow> None | Some us \<Rightarrow> decodeNode_loop r us)"
| "decodeNode_loop r (XEnd n # ts) = Some (r, ts)"
| "decodeNode_loop r (XOther # ts) = decodeNode_loop r ts"
  by pat_completeness auto

lemma decodeNode_loop_shorter:
  assumes "decodeNode_loop_dom (r, ts)"
  shows "decodeNode_loop r ts = Some (c, us) \<Longrightarrow> length us < length ts"
  using assms
proof (induction arbitrary: c us rule: decodeNode_loop.pinduct)
  case (2 r n attrs ts)
  show ?case
  proof (cases "n = ''Node''")
    case True
    with 2 obtain d vs where d: "decodeNode_loop (node_of_attrs attrs) ts = Some (d, vs)"
      "decodeNode_loop (add_child d r) vs = Some (c, us)"
      by (auto simp: decodeNode_loop.psimps split: option.splits)
    from 2(2) [OF True d(1)] 2(3) [OF True d(1) refl d(2)] show ?thesis by simp
  next
    case False
    with 2 obtain vs where d: "xml_Skip 0 ts = Some vs" "decodeNode_loop r vs = Some (c, us)"
      by (auto simp: decodeNode_loop.psimps split: option.splits)
    from xml_Skip_shorter [OF d(1)] 2(4) [OF False d] show ?thesis by simp
  qed
qed (auto simp: decodeNode_loop.psimps)

termination decodeNode_loop
  by (relation "measure (\<lambda>(r, ts). length ts)")
    (auto dest: decodeNode_loop_shorter xml_Skip_shorter)

lemma decodeNode_shorter: "decodeNode_loop r ts = Some (c, us) \<Longrightarrow> length us < length ts"
proof (induction r ts arbitrary: c us rule: decodeNode_loop.induct)
  case (2 r n attrs ts)
  then show ?case
    by (fastforce split: if_splits option.splits prod.splits dest: xml_Skip_shorter)
qed auto

definition decodeNode :: "(string \<times> string) list \<Rightarrow> xml_token list \<Rightarrow> (rawConnection \<times> xml_token list) option" where
  "decodeNode attrs ts = decodeNode_loop (node_of_attrs attrs) ts"

text \<open>\<open>eof\<close>: the token stream ends with the end of the document, not with an error.\<close>

fun seek_root :: "bool \<Rightarrow> xml_token list \<Rightarrow> import_error + xml_token list" where
  "seek_root eof [] = Inl (if eof then EmptyDocument else XMLSyntax)"
| "seek_root eof (XStart n a # ts) = (if n \<noteq> ''Connections'' then Inl (WrongRoot n) else Inr ts)"
| "seek_root eof (t # ts) = seek_root eof ts"

function xml_roots :: "bool \<Rightarrow> rawConnection list \<Rightarrow> xml_token list \<Rightarrow> import_error + rawConnection list" where
  "xml_roots eof roots [] = (if eof then Inr roots else Inl XMLSyntax)"
| "xml_roots eof roots (XStart n attrs # ts) =
     (if n \<noteq> ''Node'' then
        (case xml_Skip 0 ts of None \<Rightarrow> Inl XMLSyntax | Some us \<Rightarrow> xml_roots eof roots us)
      else case decodeNode attrs ts of
          None \<Rightarrow> Inl XMLSyntax
        | Some (node, us) \<Rightarrow> xml_roots eof (roots @ [node]) us)"
| "xml_roots eof roots (XEnd n # ts) = (if n = ''Connections'' then Inr roots else xml_roots eof roots ts)"
| "xml_roots eof roots (XOther # ts) = xml_roots eof roots ts"
  by pat_completeness auto
termination
  by (relation "measure (\<lambda>(e, r, ts). length ts)")
    (auto simp: decodeNode_def dest: decodeNode_shorter xml_Skip_shorter)

definition parseXML :: "bool \<Rightarrow> xml_token list \<Rightarrow> import_error + rawConnection list" where
  "parseXML eof ts = (case seek_root eof ts of Inl e \<Rightarrow> Inl e | Inr us \<Rightarrow> xml_roots eof [] us)"

subsection \<open>CSV\<close>

text \<open>\<open>Peek\<close> fails on fewer than three bytes.\<close>

definition stripBOM :: "byte list \<Rightarrow> byte list" where
  "stripBOM bs = (if take 3 bs = [0xEF, 0xBB, 0xBF] then drop 3 bs else bs)"

definition isBlankRow :: "string list \<Rightarrow> bool" where
  "isBlankRow row = list_all (\<lambda>v. trim_space v = '''') row"

text \<open>The loop over the cells stops at the end of the header.\<close>

definition row_raw :: "string list \<Rightarrow> string list \<Rightarrow> rawConnection" where
  "row_raw header row = fold (\<lambda>(h, v) r. let name = trim_space h in
     if name = '''' then r else fst (assignRawAttr r name v)) (zip header row) zero_raw"

fun csv_rows :: "string list \<Rightarrow> string list list \<Rightarrow> rawConnection list" where
  "csv_rows header [] = []"
| "csv_rows header (row # rows) =
     (if isBlankRow row then csv_rows header rows
      else (let rc0 = row_raw header row;
                rc = (if raw_field rc0 ''Type'' = '''' then set_raw ''Type'' ''Connection'' rc0 else rc0)
        in if raw_field rc ''Type'' \<noteq> ''Connection'' then csv_rows header rows
           else rc # csv_rows header rows))"

text \<open>\<open>csv\<close> is \<open>ReadAll\<close> of the library with the options of the source.\<close>

definition parseCSV :: "(byte list \<Rightarrow> string list list option) \<Rightarrow> byte list \<Rightarrow> import_error + rawConnection list" where
  "parseCSV csv bs = (case csv (stripBOM bs) of
     None \<Rightarrow> Inl CSVSyntax
   | Some [] \<Rightarrow> Inl EmptyCSV
   | Some (header # rows) \<Rightarrow> Inr (csv_rows header rows))"


subsection \<open>The switches agree\<close>

lemmas attr_tables = structural_attrs_def setting_attrs_def inherit_attrs_def
  inheritanceValue_fields_def perProtocolValue_fields_def

text \<open>The field of an attribute has the attribute's name, with two exceptions.\<close>

definition field_of :: "string \<Rightarrow> string" where
  "field_of a = (if a = ''Id'' then ''ID''
     else if a = ''RDGatewayUseConnectionCredentials'' then ''RDGatewayUseConnectionCreds'' else a)"

lemma known_fields: "list_all (\<lambda>(a, f). f = field_of a \<and> a \<noteq> ''ID'' \<and> a \<noteq> ''RDGatewayUseConnectionCreds'') known_attrs"
  by (simp add: attr_tables known_attrs_def field_of_def)

lemma value_tables: "inheritanceValue_fields = inherit_attrs"
  "perProtocolValue_fields = setting_attrs @ [(''PuttySession'', ''PuttySession''), (''Domain'', ''Domain'')]"
  by (simp_all add: attr_tables)

lemma known_subset: "set inheritanceValue_fields \<subseteq> set known_attrs" "set perProtocolValue_fields \<subseteq> set known_attrs"
proof -
  have "(''PuttySession'', ''PuttySession'') \<in> set structural_attrs" "(''Domain'', ''Domain'') \<in> set structural_attrs"
    by (simp_all add: structural_attrs_def)
  then show "set inheritanceValue_fields \<subseteq> set known_attrs" "set perProtocolValue_fields \<subseteq> set known_attrs"
    by (auto simp: value_tables known_attrs_def)
qed

lemma known_lookup:
  assumes "set tab \<subseteq> set known_attrs" "map_of tab b = Some f"
  shows "f = field_of b \<and> b \<noteq> ''ID'' \<and> b \<noteq> ''RDGatewayUseConnectionCreds''"
  using known_fields map_of_SomeD [OF assms(2)] assms(1) by (auto simp: list_all_iff)

text \<open>A value that was assigned to an attribute is the one that is read for it, whatever else was
  assigned in between: no two attributes share a field.\<close>

lemma read_table:
  assumes t: "set tab \<subseteq> set known_attrs" and b: "b \<in> fst ` set tab"
  shows "(case map_of tab b of Some f \<Rightarrow> raw_field (fst (assignRawAttr r a v)) f | None \<Rightarrow> '''') =
    (if a = b then v else case map_of tab b of Some f \<Rightarrow> raw_field r f | None \<Rightarrow> '''')"
proof -
  obtain f where f: "map_of tab b = Some f" using b by (metis domIff dom_map_of_conv_image_fst not_None_eq)
  note fb = known_lookup [OF t f]
  show ?thesis
  proof (cases "map_of known_attrs a")
    case None
    moreover have "b \<in> fst ` set known_attrs" using t b by blast
    ultimately have "a \<noteq> b" by (auto simp: map_of_eq_None_iff)
    then show ?thesis using f None by (simp add: assignRawAttr_def)
  next
    case (Some g)
    have "g = f \<longleftrightarrow> a = b" using fb known_lookup [OF order_refl Some] by (auto simp: field_of_def split: if_splits)
    then show ?thesis using f Some by (cases "a = b") (auto simp: assignRawAttr_def)
  qed
qed

lemma perProtocolValue_assign:
  "b \<in> fst ` set perProtocolValue_fields \<Longrightarrow> perProtocolValue (fst (assignRawAttr r a v)) b =
    (if a = b then v else perProtocolValue r b)"
  unfolding perProtocolValue_def by (rule read_table [OF known_subset(2)])

lemma inheritanceValue_assign:
  "b \<in> fst ` set inheritanceValue_fields \<Longrightarrow> inheritanceValue (fst (assignRawAttr r a v)) b =
    (if a = b then v else inheritanceValue r b)"
  unfolding inheritanceValue_def by (rule read_table [OF known_subset(1)])

lemma settings_read:
  "list_all (\<lambda>(attr, key). attr \<in> fst ` set perProtocolValue_fields) (perProtocolSettings @ encryptedPerProtocolSettings)"
  by (simp add: perProtocolSettings_def encryptedPerProtocolSettings_def perProtocolValue_fields_def)

lemma inherit_read: "allInheritanceAttrs = map fst inheritanceValue_fields"
  by (simp add: allInheritanceAttrs_def inheritanceValue_fields_def)

lemma parsePort_bounds: "0 \<le> parsePort s \<and> parsePort s \<le> 65535"
  by (auto simp: parsePort_def Let_def split: option.splits)

subsection \<open>The parser reads documents\<close>

text \<open>A document as a tree: text (and comments and the like), and elements.\<close>

datatype xitem = XText | XElem string "(string \<times> string) list" "xitem list"

fun xml_tokens :: "xitem \<Rightarrow> xml_token list" where
  "xml_tokens XText = [XOther]"
| "xml_tokens (XElem n a cs) = XStart n a # concat (map xml_tokens cs) @ [XEnd n]"

text \<open>The nodes that the importer sees; other elements are left out with all they contain.\<close>

fun raws_of :: "xitem \<Rightarrow> rawConnection list" where
  "raws_of XText = []"
| "raws_of (XElem n a cs) =
     (if n = ''Node'' then [fold add_child (concat (map raws_of cs)) (node_of_attrs a)] else [])"

lemma xml_Skip_items: "xml_Skip d (concat (map xml_tokens cs) @ ts) = xml_Skip d ts"
proof -
  have "xml_Skip d (xml_tokens x @ ts) = xml_Skip d ts" for x d ts
  proof (induction x arbitrary: d ts)
    case (XElem n a cs)
    have "xml_Skip e (concat (map xml_tokens cs) @ us) = xml_Skip e us" for e us
      using XElem by (induction cs arbitrary: us) simp_all
    then show ?case by simp
  qed simp
  then show ?thesis by (induction cs arbitrary: ts) simp_all
qed

lemma decode_items:
  "decodeNode_loop r (concat (map xml_tokens cs) @ ts) =
    decodeNode_loop (fold add_child (concat (map raws_of cs)) r) ts"
proof -
  have "decodeNode_loop r (xml_tokens x @ ts) = decodeNode_loop (fold add_child (raws_of x) r) ts" for x r ts
  proof (induction x arbitrary: r ts)
    case (XElem n a cs)
    have "decodeNode_loop r (concat (map xml_tokens cs) @ us) =
        decodeNode_loop (fold add_child (concat (map raws_of cs)) r) us" for r us
      using XElem by (induction cs arbitrary: r us) simp_all
    then show ?case by (simp add: xml_Skip_items)
  qed simp
  then show ?thesis by (induction cs arbitrary: r ts) simp_all
qed

lemma xml_roots_items:
  "xml_roots eof rs (concat (map xml_tokens cs) @ ts) = xml_roots eof (rs @ concat (map raws_of cs)) ts"
proof (induction cs arbitrary: rs)
  case (Cons x cs)
  show ?case
  proof (cases x)
    case (XElem n a ds)
    have "decodeNode a (concat (map xml_tokens ds) @ XEnd n # us) =
        Some (fold add_child (concat (map raws_of ds)) (node_of_attrs a), us)" for us
      by (simp add: decodeNode_def decode_items)
    from this [of "concat (map xml_tokens cs) @ ts"] show ?thesis
      using Cons XElem by (cases "n = ''Node''") (simp_all add: xml_Skip_items)
  qed (use Cons in simp)
qed simp

lemma parseXML_document:
  assumes "list_all (\<lambda>t. t = XOther) pre"
  shows "parseXML eof (pre @ XStart ''Connections'' a # concat (map xml_tokens cs) @ XEnd ''Connections'' # rest) =
    Inr (concat (map raws_of cs))"
proof -
  have "seek_root eof (pre @ XStart ''Connections'' a # us) = Inr us" for us
    using assms by (induction pre) auto
  then show ?thesis by (simp add: parseXML_def xml_roots_items)
qed

end
