(* ===== verification/ImportTree.thy ===== *)
theory ImportTree
  imports ImportRaw AppDuplicate
begin

text \<open>
  \<open>internal/import/mremoteng/importer.go\<close>: from raw connections to a tree, with warnings and
  counts. The messages of warnings are left out; \<open>ul\<close> folds non-ASCII text, \<open>rnd k\<close> are the
  bytes of the \<open>k\<close>-th identifier drawn.
\<close>

subsection \<open>Results\<close>

record import_warning =
  iw_Severity :: string
  iw_Code :: string
  iw_Path :: string
  iw_Field :: string

record import_stats =
  st_Folders :: nat
  st_Connections :: nat
  st_ProtocolUnknown :: nat
  st_AttrUnknown :: nat
  st_InheritUnsupported :: nat

record importer =
  im_tree :: Tree
  im_warnings :: "import_warning list"
  im_stats :: import_stats
  im_draws :: nat

definition newImporter :: importer where
  "newImporter = \<lparr>im_tree = NewTree, im_warnings = [], im_stats = \<lparr>st_Folders = 0, st_Connections = 0,
     st_ProtocolUnknown = 0, st_AttrUnknown = 0, st_InheritUnsupported = 0\<rparr>, im_draws = 0\<rparr>"

definition warn :: "string \<Rightarrow> string \<Rightarrow> string \<Rightarrow> string \<Rightarrow> importer \<Rightarrow> importer" where
  "warn sev code path fld i = i\<lparr>im_warnings := im_warnings i @
     [\<lparr>iw_Severity = sev, iw_Code = code, iw_Path = path, iw_Field = fld\<rparr>]\<rparr>"

definition SeverityInfo :: string where "SeverityInfo = ''info''"
definition SeverityWarning :: string where "SeverityWarning = ''warn''"
definition SeverityFailure :: string where "SeverityFailure = ''error''"
definition CodeUnknownProtocol :: string where "CodeUnknownProtocol = ''unknown_protocol''"
definition CodeUnknownAttribute :: string where "CodeUnknownAttribute = ''unknown_attribute''"
definition CodeInheritUnsupported :: string where "CodeInheritUnsupported = ''inherit_unsupported''"
definition CodeEncryptedPassword :: string where "CodeEncryptedPassword = ''encrypted_password''"
definition CodeProtocolSetting :: string where "CodeProtocolSetting = ''protocol_setting''"
definition CodeInvalidPort :: string where "CodeInvalidPort = ''invalid_port''"
definition CodeExternalProtocol :: string where "CodeExternalProtocol = ''external_protocol''"

lemmas import_codes = SeverityInfo_def SeverityWarning_def SeverityFailure_def CodeUnknownProtocol_def
  CodeUnknownAttribute_def CodeInheritUnsupported_def CodeEncryptedPassword_def CodeProtocolSetting_def
  CodeInvalidPort_def CodeExternalProtocol_def

definition joinPath :: "string \<Rightarrow> string \<Rightarrow> string" where
  "joinPath parent name = (if parent = '''' then ''/'' @ name else parent @ ''/'' @ name)"

subsection \<open>Folders\<close>

definition count_attr :: "importer \<Rightarrow> importer" where
  "count_attr i = i\<lparr>im_stats := (im_stats i)\<lparr>st_AttrUnknown := Suc (st_AttrUnknown (im_stats i))\<rparr>\<rparr>"

definition unknown_names :: "rawConnection \<Rightarrow> string list" where
  "unknown_names n = sort (map fst (raw_Unknown n))"

definition emitUnknownAttrWarnings :: "rawConnection \<Rightarrow> string \<Rightarrow> importer \<Rightarrow> importer" where
  "emitUnknownAttrWarnings n path i =
     fold (\<lambda>name i. warn SeverityInfo CodeUnknownAttribute path name (count_attr i)) (unknown_names n) i"

definition import_folder :: "(string \<Rightarrow> string) \<Rightarrow> ID \<Rightarrow> ID \<Rightarrow> rawConnection \<Rightarrow> FolderNode" where
  "import_folder ul new parent n = zero_folder\<lparr>f_ID := new, f_ParentID := parent,
     f_Name := raw_field n ''Name'', f_Description := raw_field n ''Descr'', f_Icon := raw_field n ''Icon'',
     f_Defaults := zero_defaults\<lparr>d_Host := raw_field n ''Hostname'', d_Username := raw_field n ''Username'',
       d_Description := raw_field n ''Descr'', d_Icon := raw_field n ''Icon'', d_Environment := raw_field n ''Panel'',
       d_ProtocolID := (case mapProtocol ul (raw_field n ''Protocol'') of Some p \<Rightarrow> p | None \<Rightarrow> ''''),
       d_Port := (if raw_field n ''Port'' \<noteq> '''' \<and> parsePort (raw_field n ''Port'') > 0
                  then parsePort (raw_field n ''Port'') else 0),
       d_Settings := (if raw_field n ''ID'' \<noteq> '''' then Some (fmupd ''legacy_id'' (AnyString (raw_field n ''ID'')) fmempty)
                      else None)\<rparr>\<rparr>"

definition addFolder :: "(string \<Rightarrow> string) \<Rightarrow> (nat \<Rightarrow> ID) \<Rightarrow> rawConnection \<Rightarrow> ID \<Rightarrow> string \<Rightarrow> importer \<Rightarrow> ID \<times> importer" where
  "addFolder ul rnd n parent path i =
     (let f = import_folder ul (NewID (rnd (im_draws i))) parent n;
          i1 = i\<lparr>im_draws := Suc (im_draws i)\<rparr>
      in case AddFolder (Some f) (im_tree i1) of
           Inl e \<Rightarrow> (NilID, warn SeverityFailure ''tree_add_folder'' path '''' i1)
         | Inr t \<Rightarrow> (f_ID f, emitUnknownAttrWarnings n path
             (i1\<lparr>im_tree := t, im_stats := (im_stats i1)\<lparr>st_Folders := Suc (st_Folders (im_stats i1))\<rparr>\<rparr>)))"

subsection \<open>Connections\<close>

text \<open>The parts of \<open>addConnection\<close> change the new node and the importer.\<close>

type_synonym conn_state = "ConnectionNode \<times> importer"

definition set_setting :: "string \<Rightarrow> anyval \<Rightarrow> ConnectionNode \<Rightarrow> ConnectionNode" where
  "set_setting k v c = c\<lparr>c_Settings := Some (fmupd k v (case c_Settings c of None \<Rightarrow> fmempty | Some m \<Rightarrow> m))\<rparr>"

definition import_conn :: "ID \<Rightarrow> ID \<Rightarrow> rawConnection \<Rightarrow> ConnectionNode" where
  "import_conn new parent n = (let c = zero_conn\<lparr>c_ID := new, c_ParentID := parent, c_Name := raw_field n ''Name'',
       c_Host := raw_field n ''Hostname'', c_Username := raw_field n ''Username'',
       c_Description := raw_field n ''Descr'', c_Icon := raw_field n ''Icon'',
       c_Environment := raw_field n ''Panel'', c_Settings := Some fmempty\<rparr>
     in if raw_field n ''ID'' \<noteq> '''' then set_setting ''legacy_id'' (AnyString (raw_field n ''ID'')) c else c)"

definition conn_protocol :: "(string \<Rightarrow> string) \<Rightarrow> rawConnection \<Rightarrow> string \<Rightarrow> conn_state \<Rightarrow> conn_state" where
  "conn_protocol ul n path s = (case s of (c, i) \<Rightarrow>
     (let p = raw_field n ''Protocol'' in
      if p = '''' then (c, i)
      else case mapProtocol ul p of
          Some x \<Rightarrow> (c\<lparr>c_ProtocolID := x\<rparr>,
            if x = ''io.goremote.protocol.external'' then warn SeverityWarning CodeExternalProtocol path ''Protocol'' i else i)
        | None \<Rightarrow> (set_setting ''legacy_protocol'' (AnyString p) c,
            warn SeverityWarning CodeUnknownProtocol path ''Protocol''
              (i\<lparr>im_stats := (im_stats i)\<lparr>st_ProtocolUnknown := Suc (st_ProtocolUnknown (im_stats i))\<rparr>\<rparr>))))"

definition conn_port :: "rawConnection \<Rightarrow> string \<Rightarrow> conn_state \<Rightarrow> conn_state" where
  "conn_port n path s = (case s of (c, i) \<Rightarrow>
     if raw_field n ''Port'' = '''' then (c, i)
     else (let p = parsePort (raw_field n ''Port'') in
       (c\<lparr>c_Port := p\<rparr>, if p = 0 then warn SeverityWarning CodeInvalidPort path ''Port'' i else i)))"

definition conn_password :: "rawConnection \<Rightarrow> string \<Rightarrow> conn_state \<Rightarrow> conn_state" where
  "conn_password n path s = (case s of (c, i) \<Rightarrow>
     if raw_field n ''Password'' = '''' then (c, i)
     else (set_setting ''legacy_password_blob'' (AnyString (raw_field n ''Password'')) c,
           warn SeverityWarning CodeEncryptedPassword path ''Password'' i))"

definition conn_setting :: "string \<Rightarrow> string \<Rightarrow> rawConnection \<Rightarrow> string \<Rightarrow> string \<times> string \<Rightarrow> conn_state \<Rightarrow> conn_state" where
  "conn_setting sev code n path p s = (case p of (attr, key) \<Rightarrow> case s of (c, i) \<Rightarrow>
     (let v = perProtocolValue n attr in
      if v = '''' then (c, i) else (set_setting key (AnyString v) c, warn sev code path attr i)))"

definition inherit_key :: "(string \<Rightarrow> string) \<Rightarrow> string \<Rightarrow> string" where
  "inherit_key ul name = to_lower ul (''legacy_inherit_'' @ (if has_prefix name ''Inherit'' then drop 7 name else name))"

definition inherit_attr :: "(string \<Rightarrow> string) \<Rightarrow> rawConnection \<Rightarrow> string \<Rightarrow> string \<Rightarrow> conn_state \<Rightarrow> conn_state" where
  "inherit_attr ul n path name s = (case s of (c, i) \<Rightarrow>
     (case parseBool ul (inheritanceValue n name) of
        Some True \<Rightarrow>
          (case map_of inheritanceFieldMap name of
             Some f \<Rightarrow> (c\<lparr>c_Inheritance := SetInherit f (c_Inheritance c)\<rparr>, i)
           | None \<Rightarrow> (set_setting (inherit_key ul name) (AnyBool True) c,
               warn SeverityInfo CodeInheritUnsupported path name
                 (i\<lparr>im_stats := (im_stats i)\<lparr>st_InheritUnsupported := Suc (st_InheritUnsupported (im_stats i))\<rparr>\<rparr>)))
      | _ \<Rightarrow> (c, i)))"

definition applyInheritance :: "(string \<Rightarrow> string) \<Rightarrow> rawConnection \<Rightarrow> string \<Rightarrow> conn_state \<Rightarrow> conn_state" where
  "applyInheritance ul n path s = fold (inherit_attr ul n path) allInheritanceAttrs s"

definition conn_unknown :: "(string \<Rightarrow> string) \<Rightarrow> rawConnection \<Rightarrow> string \<Rightarrow> string \<Rightarrow> conn_state \<Rightarrow> conn_state" where
  "conn_unknown ul n path name s = (case s of (c, i) \<Rightarrow>
     (set_setting (''legacy_attr_'' @ to_lower ul name) (AnyString (the (map_of (raw_Unknown n) name))) c,
      warn SeverityInfo CodeUnknownAttribute path name (count_attr i)))"

text \<open>The node that is added, and the importer with the warnings so far.\<close>

definition build_conn :: "(string \<Rightarrow> string) \<Rightarrow> (nat \<Rightarrow> ID) \<Rightarrow> rawConnection \<Rightarrow> ID \<Rightarrow> string \<Rightarrow> importer \<Rightarrow> conn_state" where
  "build_conn ul rnd n parent path i =
     (let s0 = (import_conn (NewID (rnd (im_draws i))) parent n, i\<lparr>im_draws := Suc (im_draws i)\<rparr>);
          s1 = conn_password n path (conn_port n path (conn_protocol ul n path s0));
          s2 = fold (conn_setting SeverityInfo CodeProtocolSetting n path) perProtocolSettings s1;
          s3 = fold (conn_setting SeverityWarning CodeEncryptedPassword n path) encryptedPerProtocolSettings s2;
          s4 = applyInheritance ul n path s3;
          (c, i1) = fold (conn_unknown ul n path) (unknown_names n) s4
      in (if map_len (c_Settings c) = 0 then c\<lparr>c_Settings := None\<rparr> else c, i1))"

definition addConnection :: "(string \<Rightarrow> string) \<Rightarrow> (nat \<Rightarrow> ID) \<Rightarrow> rawConnection \<Rightarrow> ID \<Rightarrow> string \<Rightarrow> importer \<Rightarrow> importer" where
  "addConnection ul rnd n parent path i =
     (case build_conn ul rnd n parent path i of (c, i1) \<Rightarrow>
        (case AddConnection (Some c) (im_tree i1) of
           Inl e \<Rightarrow> warn SeverityFailure ''tree_add_connection'' path '''' i1
         | Inr t \<Rightarrow> i1\<lparr>im_tree := t, im_stats := (im_stats i1)\<lparr>st_Connections := Suc (st_Connections (im_stats i1))\<rparr>\<rparr>))"

subsection \<open>The walk over the raw nodes\<close>

datatype raw_kind = AsFolder | AsConnection | AsSkipped

text \<open>The switch of \<open>walk\<close>.\<close>

definition raw_kind :: "(string \<Rightarrow> string) \<Rightarrow> rawConnection \<Rightarrow> raw_kind" where
  "raw_kind ul n = (let t = to_lower ul (trim_space (raw_field n ''Type'')) in
     if t = ''container'' then AsFolder
     else if t = '''' \<or> t = ''connection'' then
       (if raw_field n ''Type'' = '''' \<and> length (raw_Children n) > 0 then AsFolder else AsConnection)
     else AsSkipped)"

fun walk_raw :: "(string \<Rightarrow> string) \<Rightarrow> (nat \<Rightarrow> ID) \<Rightarrow> rawConnection \<Rightarrow> ID \<Rightarrow> string \<Rightarrow> importer \<Rightarrow> importer"
  and walk_raws :: "(string \<Rightarrow> string) \<Rightarrow> (nat \<Rightarrow> ID) \<Rightarrow> rawConnection list \<Rightarrow> ID \<Rightarrow> string \<Rightarrow> importer \<Rightarrow> importer" where
  "walk_raw ul rnd (RawConnection fs un kids) parent parentPath i =
     (let n = RawConnection fs un kids; path = joinPath parentPath (raw_field n ''Name'') in
      case raw_kind ul n of
        AsFolder \<Rightarrow> (case addFolder ul rnd n parent path i of (new, i1) \<Rightarrow> walk_raws ul rnd kids new path i1)
      | AsConnection \<Rightarrow> addConnection ul rnd n parent path i
      | AsSkipped \<Rightarrow> warn SeverityWarning ''unknown_node_type'' path ''Type'' i)"
| "walk_raws ul rnd [] parent path i = i"
| "walk_raws ul rnd (n # ns) parent path i = walk_raws ul rnd ns parent path (walk_raw ul rnd n parent path i)"

definition finish_import :: "importer \<Rightarrow> import_warning parsed" where
  "finish_import i = \<lparr>pr_Tree = im_tree i, pr_Folders = st_Folders (im_stats i),
     pr_Connections = st_Connections (im_stats i), pr_Warnings = im_warnings i\<rparr>"

text \<open>\<open>io.LimitReader\<close>: what follows the first 100 MiB is not read.\<close>

definition maxImportBytes :: nat where
  "maxImportBytes = 100 * 2 ^ 20"

definition import_roots :: "(string \<Rightarrow> string) \<Rightarrow> (nat \<Rightarrow> ID) \<Rightarrow> rawConnection list \<Rightarrow> importer" where
  "import_roots ul rnd roots = walk_raws ul rnd roots NilID '''' newImporter"

definition import_rows :: "(string \<Rightarrow> string) \<Rightarrow> (nat \<Rightarrow> ID) \<Rightarrow> rawConnection list \<Rightarrow> importer" where
  "import_rows ul rnd rows = fold (\<lambda>r. addConnection ul rnd r NilID '''') rows newImporter"

definition ImportXML :: "(string \<Rightarrow> string) \<Rightarrow> (nat \<Rightarrow> ID) \<Rightarrow> (byte list \<Rightarrow> bool \<times> xml_token list) \<Rightarrow> byte list \<Rightarrow>
    import_error + import_warning parsed" where
  "ImportXML ul rnd xml bs = (case xml (take maxImportBytes bs) of (eof, ts) \<Rightarrow>
     (case parseXML eof ts of Inl e \<Rightarrow> Inl e | Inr roots \<Rightarrow> Inr (finish_import (import_roots ul rnd roots))))"

definition ImportCSV :: "(string \<Rightarrow> string) \<Rightarrow> (nat \<Rightarrow> ID) \<Rightarrow> (byte list \<Rightarrow> string list list option) \<Rightarrow> byte list \<Rightarrow>
    import_error + import_warning parsed" where
  "ImportCSV ul rnd csv bs = (case parseCSV csv (take maxImportBytes bs) of
     Inl e \<Rightarrow> Inl e | Inr rows \<Rightarrow> Inr (finish_import (import_rows ul rnd rows)))"

end
