(* ===== verification/BackupStore.thy ===== *)
theory BackupStore
  imports RestoreGuard Store
begin

text \<open>
  The rest of \<open>internal/persistence/backup.go\<close>: writing an archive of the store directory,
  with its retention, and \<open>Restore\<close> from one of these archives. A vault is the store
  directory with the contents of the archives below \<open>backups\<close>; \<open>zip\<close> files are their entry
  lists. A backup followed by a restore is the identity on the files of the store.
\<close>

subsection \<open>Writing an archive\<close>

record vault =
  v_dir :: store_dir
  v_zips :: "string \<rightharpoonup> zip_entry list"

definition BackupsDirName :: string where
  "BackupsDirName = ''backups''"

definition zip_of :: "string list \<times> byte list \<Rightarrow> zip_entry" where
  "zip_of f = \<lparr>z_Name = join_with ''/'' (fst f), z_IsDir = False, z_Size = of_nat (length (snd f)),
     z_Data = snd f\<rparr>"

text \<open>\<open>fs.WalkDir\<close> visits a directory in the order of the names; directories get no entry.\<close>

definition zipStoreDir :: "store_dir \<Rightarrow> zip_entry list" where
  "zipStoreDir d = map zip_of (sort_key fst (filter (\<lambda>(p, _). hd p \<noteq> BackupsDirName) (files d)))"

datatype bcall = BackupMkdir | BackupStat | BackupZip | BackupRemove | BackupReadDir

datatype backup_error =
    BackupContextDone | BackupMkdirFailed | BackupStatFailed | BackupZipFailed | BackupReadDirFailed
  | BackupPruneFailed string | BackupNoName

text \<open>
  The path of the archive and the error, and the vault after the call. A failed archive is
  removed; when that fails too, a file without a readable directory stays. The limit of
  \<open>name_loop\<close> is never reached.
\<close>

definition backupLocked :: "(bcall \<Rightarrow> bool) \<Rightarrow> (string \<Rightarrow> bool) \<Rightarrow> string \<Rightarrow> time \<Rightarrow> vault \<Rightarrow>
    (string \<times> backup_error option) \<times> vault" where
  "backupLocked ok rm ts now v =
     (let es = (case backups (v_dir v) of None \<Rightarrow> [] | Some es \<Rightarrow> es);
          put = (\<lambda>es. v\<lparr>v_dir := (v_dir v)\<lparr>backups := Some es\<rparr>\<rparr>)
      in if \<not> ok BackupMkdir then (('''', Some BackupMkdirFailed), v)
         else if \<not> ok BackupStat then (('''', Some BackupStatFailed), put es)
         else case fresh_name (map e_Name es) ts of
             None \<Rightarrow> (('''', Some BackupNoName), put es)
           | Some p \<Rightarrow>
               (let new = \<lparr>e_Name = p, e_IsDir = False, e_ModTime = now\<rparr> in
                if \<not> ok BackupZip
                then (('''', Some BackupZipFailed),
                      if ok BackupRemove then put es else (put (es @ [new]))\<lparr>v_zips := (v_zips v)(p := None)\<rparr>)
                else let v1 = (put (es @ [new]))\<lparr>v_zips := (v_zips v)(p \<mapsto> zipStoreDir (v_dir v))\<rparr> in
                  if \<not> ok BackupReadDir then ((p, Some BackupReadDirFailed), v1)
                  else (case pruneBackups rm DefaultBackupRetention (es @ [new]) of
                      (es', r) \<Rightarrow> ((p, map_option BackupPruneFailed r),
                        v1\<lparr>v_dir := (v_dir v)\<lparr>backups := Some es'\<rparr>\<rparr>))))"

definition Backup :: "bool \<Rightarrow> (bcall \<Rightarrow> bool) \<Rightarrow> (string \<Rightarrow> bool) \<Rightarrow> string \<Rightarrow> time \<Rightarrow> vault \<Rightarrow>
    (string \<times> backup_error option) \<times> vault" where
  "Backup ctx ok rm ts now v =
     (if \<not> ctx then (('''', Some BackupContextDone), v) else backupLocked ok rm ts now v)"

subsection \<open>Restoring an archive of the vault\<close>

definition archive_at :: "string \<Rightarrow> vault \<Rightarrow> zip_entry list option" where
  "archive_at p v = (case backups (v_dir v) of
     None \<Rightarrow> None
   | Some es \<Rightarrow> if p \<in> e_Name ` set es then v_zips v p else None)"

text \<open>
  \<open>Restore\<close> for the archive \<open>p\<close> below \<open>backups\<close>: the safety backup comes first, then the archive
  is opened. Paths are relative to the directory that is extracted to. There are no siblings of an earlier restore, and
  what is left of the new ones is not part of the store.
\<close>

definition RestoreFrom :: "limits \<Rightarrow> (syscall \<Rightarrow> bool) \<Rightarrow> (zip_entry \<Rightarrow> bool) \<Rightarrow> (zip_entry \<Rightarrow> bool) \<Rightarrow>
    (bcall \<Rightarrow> bool) \<Rightarrow> (string \<Rightarrow> bool) \<Rightarrow> string \<Rightarrow> time \<Rightarrow> string \<Rightarrow> vault \<Rightarrow>
    restore_error option \<times> vault option" where
  "RestoreFrom lim ok io rd bok rm ts now p v =
     (case backupLocked bok rm ts now v of
        ((_, e), v1) \<Rightarrow>
          (let calls = (\<lambda>c. case c of SafetyBackup \<Rightarrow> e = None
                 | OpenArchive \<Rightarrow> archive_at p v1 \<noteq> None | _ \<Rightarrow> ok c);
               (r, fs) = Restore lim calls (\<lambda>_. empty_dir) (\<lambda>_. v_dir v1) (extractZipEntry lim io rd [])
                 (case archive_at p v1 of None \<Rightarrow> [] | Some a \<Rightarrow> a)
                 \<lparr>live = Some (v_dir v), restore_new = None, restore_old = None\<rparr>
           in (r, map_option (\<lambda>d. v1\<lparr>v_dir := d\<rparr>) (live fs))))"

subsection \<open>The files of a store as a disk\<close>

definition dir_file :: "store_dir \<Rightarrow> string \<Rightarrow> byte list option" where
  "dir_file d name = map_of (files d) [name]"

definition dir_disk :: "store_dir \<Rightarrow> disk" where
  "dir_disk d = \<lparr>d_files = dir_file d, d_temps = []\<rparr>"

text \<open>\<open>Save\<close> on the directory: the known files are replaced by what the disk then holds.\<close>

definition put_known :: "disk \<Rightarrow> store_dir \<Rightarrow> store_dir" where
  "put_known k d = fold (\<lambda>name d. case d_files k name of None \<Rightarrow> d | Some b \<Rightarrow> put_file [name] b d) known_files d"

subsection \<open>Names of archive entries\<close>

lemma split_on_ne [simp]: "split_on c s \<noteq> []"
  by (cases s) (auto split: list.split)

lemma split_on_mid: "split_on c (u @ c # v) = split_on c u @ split_on c v"
proof (induction u)
  case (Cons x u)
  then show ?case by (cases "split_on c u") (auto split: list.splits)
qed simp

lemma split_on_none: "c \<notin> set s \<Longrightarrow> split_on c s = [s]"
  by (induction s) auto

lemma split_join:
  "cs \<noteq> [] \<Longrightarrow> (\<And>s. s \<in> set cs \<Longrightarrow> CHR ''/'' \<notin> set s) \<Longrightarrow> split_on CHR ''/'' (join_with ''/'' cs) = cs"
proof (induction "''/''" cs rule: join_with.induct)
  case (3 s t ss)
  have s: "split_on CHR ''/'' s = [s]" using 3(3) by (intro split_on_none) simp
  have "split_on CHR ''/'' (join_with ''/'' (t # ss)) = t # ss" using 3 by simp
  then show ?case using split_on_mid [of "CHR ''/''" s "join_with ''/'' (t # ss)"] s by simp
qed (simp_all add: split_on_none)

text \<open>The path of a file below the store directory, outside \<open>backups\<close>.\<close>

definition store_path :: "string list \<Rightarrow> bool" where
  "store_path cs \<longleftrightarrow> cs \<noteq> [] \<and> list_all plain cs \<and> (\<forall>s \<in> set cs. CHR ''/'' \<notin> set s) \<and> hd cs \<noteq> BackupsDirName"

lemma clean_plain: "list_all plain cs \<Longrightarrow> foldl (clean_step a) out cs = rev cs @ out"
  by (induction cs arbitrary: out) (simp_all add: plain_def)

lemma store_path_split:
  assumes "store_path cs"
  shows "split_on CHR ''/'' (join_with ''/'' cs) = cs"
  using assms by (intro split_join) (auto simp: store_path_def)

lemma store_path_no_dots:
  assumes "store_path cs" "join_with ''/'' cs = u @ CHR ''/'' # v"
  shows "list_all plain (split_on CHR ''/'' u) \<and> list_all plain (split_on CHR ''/'' v)"
  using store_path_split [OF assms(1)] assms split_on_mid [of "CHR ''/''" u v]
  by (metis store_path_def list_all_append)

lemma store_path_name:
  assumes cs: "store_path cs"
  defines "p \<equiv> join_with ''/'' cs"
  shows "sanitizeRestorePath p = Inr p" "safeJoinWithinRoot [] p = Inr cs"
    "\<not> has_prefix p ''backups/''" "p \<noteq> ''backups''"
proof -
  have split: "split_on CHR ''/'' p = cs" unfolding p_def by (rule store_path_split [OF cs])
  have pl: "list_all plain cs" "cs \<noteq> []" "hd cs \<noteq> BackupsDirName" using cs by (simp_all add: store_path_def)
  have mid: "list_all plain (split_on CHR ''/'' u)" "list_all plain (split_on CHR ''/'' v)"
    if "p = u @ CHR ''/'' # v" for u v
    using store_path_no_dots [OF cs, of u v] that by (simp_all add: p_def)
  have one: "\<not> list_all plain (split_on CHR ''/'' s)" if "s = '''' \<or> s = ''.'' \<or> s = ''..''" for s
    using that by (auto simp: plain_def)
  have p0: "p \<noteq> ''''" "p \<noteq> ''.''" "p \<noteq> ''..''" using split pl one by metis+
  have np: "\<not> has_prefix p ''/''"
    using mid(1) [of "''''"] by (auto simp: has_prefix_iff plain_def)
  have nd: "\<not> has_prefix p ''../''"
    using mid(1) [of "''..''"] by (auto simp: has_prefix_iff plain_def)
  have nc: "\<not> contains p ''/../''"
  proof
    assume "contains p ''/../''"
    then obtain u v where "p = u @ CHR ''/'' # ''..'' @ CHR ''/'' # v" by (auto simp: contains_iff)
    from mid(2) [OF this] one split_on_mid [of "CHR ''/''" "''..''" v] show False
      by (metis list_all_append)
  qed
  have clean: "clean_comps p = cs"
    unfolding clean_comps_def split by (simp add: clean_plain [OF pl(1)])
  have pc: "path_Clean p = p"
    using np p0(1) clean by (simp add: path_Clean_def is_rooted_def p_def)
  have "p \<noteq> ''/''" using np by (auto simp: has_prefix_iff)
  with pc p0 np nd nc show "sanitizeRestorePath p = Inr p" by (simp add: sanitizeRestorePath_def)
  have "join_comps [] p = cs" unfolding join_comps_def split by (simp add: clean_plain [OF pl(1)])
  moreover have "rel_comps [] cs = cs" by (cases cs) simp_all
  ultimately show "safeJoinWithinRoot [] p = Inr cs"
    using pl(2) p0(3) nd by (simp add: safeJoinWithinRoot_def Let_def p_def)
  show "p \<noteq> ''backups''" using split split_on_none [of "CHR ''/''" "''backups''"] pl(3)
    by (auto simp: BackupsDirName_def)
  show "\<not> has_prefix p ''backups/''"
  proof
    assume "has_prefix p ''backups/''"
    then obtain v where "p = ''backups'' @ CHR ''/'' # v" by (auto simp: has_prefix_iff)
    then have "split_on CHR ''/'' p = ''backups'' # split_on CHR ''/'' v"
      using split_on_mid [of "CHR ''/''" "''backups''" v] split_on_none [of "CHR ''/''" "''backups''"] by simp
    with split pl(3) show False by (auto simp: BackupsDirName_def)
  qed
qed

subsection \<open>A backup restores to the same files\<close>

text \<open>A store whose archive stays within the limits of the restore.\<close>

definition storable :: "limits \<Rightarrow> store_dir \<Rightarrow> bool" where
  "storable lim d \<longleftrightarrow> distinct (map fst (files d)) \<and> (\<forall>f \<in> set (files d). store_path (fst f)) \<and>
     length (files d) \<le> maxRestoreEntries lim \<and>
     (\<forall>f \<in> set (files d). length (snd f) \<le> unat (maxRestoreFileBytes lim)) \<and>
     sum_list (map (length \<circ> snd) (files d)) \<le> unat (maxRestoreBytes lim)"

definition sane_limits :: "limits \<Rightarrow> bool" where
  "sane_limits lim \<longleftrightarrow> unat (maxRestoreFileBytes lim) \<le> unat (maxRestoreBytes lim) \<and>
     maxRestoreFileBytes lim < 2 ^ 63 - 1"

lemma sane_default: "sane_limits default_limits"
  by (simp add: sane_limits_def default_limits_def)

lemma zip_size: "length (snd f) \<le> unat (m :: 64 word) \<Longrightarrow> unat (z_Size (zip_of f)) = length (snd f)"
proof -
  assume l: "length (snd f) \<le> unat m"
  have "unat m < 2 ^ 64" using unsigned_less [of m] by simp
  with l show ?thesis by (simp add: zip_of_def unat_of_nat)
qed

lemma extract_one:
  assumes lim: "sane_limits lim" and f: "store_path (fst f)" "length (snd f) \<le> unat (maxRestoreFileBytes lim)"
  shows "extractZipEntry lim (\<lambda>_. True) (\<lambda>_. True) [] (zip_of f) d = Inr (put_file (fst f) (snd f) d)"
proof -
  let ?m = "maxRestoreFileBytes lim"
  have c: "checkedCopyLimits ?m = Some (?m, ?m + 1)" using lim by (simp add: checkedCopyLimits_def sane_limits_def not_le)
  have "unat (?m + 1) = unat ?m + 1" using checkedCopyLimits_no_wrap [OF c] by simp
  then have "copyZipEntry (snd f) False ?m = (snd f, None)"
    using f(2) by (simp add: copyZipEntry_def c Let_def)
  then show ?thesis using store_path_name(1,2) [OF f(1)] by (simp add: extractZipEntry_def zip_of_def)
qed

lemma extract_store:
  assumes lim: "sane_limits lim"
  shows "(\<And>f. f \<in> set fs \<Longrightarrow> store_path (fst f) \<and> length (snd f) \<le> unat (maxRestoreFileBytes lim)) \<Longrightarrow>
    distinct (map fst (files d) @ map fst fs) \<Longrightarrow>
    extract_all (extractZipEntry lim (\<lambda>_. True) (\<lambda>_. True) []) (map zip_of fs) d = Inr (d\<lparr>files := files d @ fs\<rparr>)"
proof (induction fs arbitrary: d)
  case (Cons f fs)
  have "filter (\<lambda>(p, _). p \<noteq> fst f) (files d) = files d"
  proof (rule filter_True, rule ballI)
    fix x assume "x \<in> set (files d)"
    then have "fst x \<in> set (map fst (files d))" by simp
    moreover have "fst f \<notin> set (map fst (files d))" using Cons.prems(2) by simp
    ultimately have "fst x \<noteq> fst f" by metis
    then show "case x of (p, _) \<Rightarrow> p \<noteq> fst f" by (simp add: case_prod_unfold)
  qed
  then have put: "put_file (fst f) (snd f) d = d\<lparr>files := files d @ [f]\<rparr>" by (simp add: put_file_def)
  have "extract_all (extractZipEntry lim (\<lambda>_. True) (\<lambda>_. True) []) (map zip_of fs) (d\<lparr>files := files d @ [f]\<rparr>) =
      Inr (d\<lparr>files := files d @ f # fs\<rparr>)"
    using Cons.IH [of "d\<lparr>files := files d @ [f]\<rparr>"] Cons.prems by simp
  moreover have "extractZipEntry lim (\<lambda>_. True) (\<lambda>_. True) [] (zip_of f) d = Inr (d\<lparr>files := files d @ [f]\<rparr>)"
    using extract_one [OF lim, of f d] Cons.prems(1) [of f] put by simp
  ultimately show ?case unfolding list.map extract_all.simps by simp
qed simp

text \<open>What is in the archive, in which order.\<close>

definition archived :: "store_dir \<Rightarrow> (string list \<times> byte list) list" where
  "archived d = sort_key fst (filter (\<lambda>(p, _). hd p \<noteq> BackupsDirName) (files d))"

lemma archived_storable:
  assumes "storable lim d"
  shows "mset (archived d) = mset (files d)"
proof -
  have "filter (\<lambda>(p, _). hd p \<noteq> BackupsDirName) (files d) = files d"
    using assms by (intro filter_True) (auto simp: storable_def store_path_def)
  then show ?thesis by (simp add: archived_def)
qed

lemma check_names_store:
  "(\<And>f. f \<in> set fs \<Longrightarrow> store_path (fst f)) \<Longrightarrow> check_names (map zip_of fs) = None"
proof (induction fs)
  case (Cons f fs)
  then show ?case using store_path_name [of "fst f"] by (simp add: zip_of_def)
qed simp

lemma zipStoreDir_valid:
  assumes lim: "sane_limits lim" and d: "storable lim d"
  shows "validateRestoreArchive lim (zipStoreDir d) = None" "check_names (zipStoreDir d) = None"
    "extract_all (extractZipEntry lim (\<lambda>_. True) (\<lambda>_. True) []) (zipStoreDir d) empty_dir =
      Inr (empty_dir\<lparr>files := archived d\<rparr>)"
proof -
  have z: "zipStoreDir d = map zip_of (archived d)" by (simp add: zipStoreDir_def archived_def)
  note m = archived_storable [OF d]
  have set: "set (archived d) = set (files d)" using m by (metis set_mset_mset)
  have fs: "store_path (fst f)" "length (snd f) \<le> unat (maxRestoreFileBytes lim)" if "f \<in> set (archived d)" for f
    using that d by (simp_all add: set storable_def)
  show "check_names (zipStoreDir d) = None" unfolding z by (rule check_names_store [OF fs(1)])
  have dist: "distinct (map fst (archived d))"
    using d m by (simp add: storable_def) (metis distinct_map mset_eq_imp_distinct_iff mset_map)
  show "extract_all (extractZipEntry lim (\<lambda>_. True) (\<lambda>_. True) []) (zipStoreDir d) empty_dir =
      Inr (empty_dir\<lparr>files := archived d\<rparr>)"
    unfolding z using extract_store [OF lim, of "archived d" empty_dir] fs dist by (simp add: empty_dir_def)
  have sizes: "file_sizes (zipStoreDir d) = map (length \<circ> snd) (archived d)"
  proof -
    have "file_sizes (zipStoreDir d) = map (\<lambda>f. unat (z_Size (zip_of f))) (archived d)"
      by (simp add: file_sizes_def z filter_map o_def zip_of_def)
    also have "\<dots> = map (length \<circ> snd) (archived d)" using zip_size fs(2) by (intro map_cong) (simp, force)
    finally show ?thesis .
  qed
  have "length (archived d) = length (files d)" using m by (metis size_mset)
  moreover have "sum_list (map (length \<circ> snd) (archived d)) = sum_list (map (length \<circ> snd) (files d))"
    using m by (metis mset_map sum_mset_sum_list)
  ultimately show "validateRestoreArchive lim (zipStoreDir d) = None"
    using lim d fs(2) sizes by (subst validateRestoreArchive_iff) (auto simp: sane_limits_def storable_def z)
qed

lemma name_loop_shape: "name_loop n P ts i = Some p \<Longrightarrow> \<exists>k. p = backup_name ts k"
  by (induction n P ts i rule: name_loop.induct) (auto split: if_splits)

text \<open>What a successful backup leaves.\<close>

definition archives :: "vault \<Rightarrow> dir_entry list" where
  "archives v = (case backups (v_dir v) of None \<Rightarrow> [] | Some es \<Rightarrow> es)"

lemma backupLocked_ok:
  assumes "backupLocked ok rm ts now v = ((p, None), v')"
  obtains es' where "p \<notin> e_Name ` set (archives v)"
    "pruneBackups rm DefaultBackupRetention (archives v @ [\<lparr>e_Name = p, e_IsDir = False, e_ModTime = now\<rparr>]) = (es', None)"
    "v' = v\<lparr>v_dir := (v_dir v)\<lparr>backups := Some es'\<rparr>, v_zips := (v_zips v)(p \<mapsto> zipStoreDir (v_dir v))\<rparr>"
  using assms fresh_name_found [of "map e_Name (archives v)" ts]
  by (auto simp: backupLocked_def Let_def archives_def split: if_splits option.splits prod.splits)

lemma archive_at_entry: "archive_at p v = (if p \<in> e_Name ` set (archives v) then v_zips v p else None)"
  by (auto simp: archive_at_def archives_def split: option.split)

text \<open>Below the retention nothing is pruned: the archives that were there stay.\<close>

lemma backupLocked_keeps:
  assumes "backupLocked ok rm ts now v = ((p, None), v')"
    and "length (filter is_archive (archives v)) < DefaultBackupRetention"
  shows "archive_at p v' = Some (zipStoreDir (v_dir v))" "archive_at q v = Some a \<Longrightarrow> archive_at q v' = Some a"
    "archives v' = archives v @ [\<lparr>e_Name = p, e_IsDir = False, e_ModTime = now\<rparr>]"
proof -
  obtain es' where es': "p \<notin> e_Name ` set (archives v)"
    "pruneBackups rm DefaultBackupRetention (archives v @ [\<lparr>e_Name = p, e_IsDir = False, e_ModTime = now\<rparr>]) = (es', None)"
    "v' = v\<lparr>v_dir := (v_dir v)\<lparr>backups := Some es'\<rparr>, v_zips := (v_zips v)(p \<mapsto> zipStoreDir (v_dir v))\<rparr>"
    using backupLocked_ok [OF assms(1)] by blast
  have "es' = archives v @ [\<lparr>e_Name = p, e_IsDir = False, e_ModTime = now\<rparr>]"
    using es'(2) assms(2) by (auto simp: pruneBackups_def Let_def split: if_splits)
  then have av: "archives v' = archives v @ [\<lparr>e_Name = p, e_IsDir = False, e_ModTime = now\<rparr>]"
    by (simp add: es'(3) archives_def)
  then show "archives v' = archives v @ [\<lparr>e_Name = p, e_IsDir = False, e_ModTime = now\<rparr>]" .
  from av show "archive_at p v' = Some (zipStoreDir (v_dir v))" by (simp add: archive_at_entry) (simp add: es'(3))
  show "archive_at q v' = Some a" if "archive_at q v = Some a"
  proof -
    from that have q: "q \<in> e_Name ` set (archives v)" "v_zips v q = Some a"
      by (auto simp: archive_at_entry split: if_splits)
    then have "q \<noteq> p" using es'(1) by blast
    then show ?thesis using q av by (simp add: archive_at_entry) (simp add: es'(3))
  qed
qed

theorem restore_of_backup:
  assumes lim: "sane_limits lim" and d: "storable lim d"
    and at: "archive_at p v = Some (zipStoreDir d)"
    and safe: "backupLocked bok rm ts now v = ((q, None), v1)"
    and room: "length (filter is_archive (archives v)) < DefaultBackupRetention"
  shows "\<exists>v2. RestoreFrom lim (\<lambda>_. True) (\<lambda>_. True) (\<lambda>_. True) bok rm ts now p v = (None, Some v2) \<and>
    mset (files (v_dir v2)) = mset (files d) \<and> backups (v_dir v2) = backups (v_dir v1)"
proof -
  have at1: "archive_at p v1 = Some (zipStoreDir d)" using backupLocked_keeps(2) [OF safe room at] .
  obtain es where es: "backups (v_dir v1) = Some es"
    using at1 by (auto simp: archive_at_def split: option.splits)
  note valid = zipStoreDir_valid [OF lim d]
  let ?fs = "\<lparr>live = Some (v_dir v), restore_new = None, restore_old = None\<rparr>"
  let ?calls = "\<lambda>c. case c of SafetyBackup \<Rightarrow> True | _ \<Rightarrow> True"
  have "Restore lim ?calls (\<lambda>_. empty_dir) (\<lambda>_. v_dir v1) (extractZipEntry lim (\<lambda>_. True) (\<lambda>_. True) []) (zipStoreDir d) ?fs =
      (None, \<lparr>live = Some (empty_dir\<lparr>files := archived d, backups := Some es\<rparr>), restore_new = None, restore_old = None\<rparr>)"
    using valid es by (simp add: Restore_def swap_dirs_def after_RemoveAll_def no_dir_def restore_base_def Let_def empty_dir_def)
  then have "RestoreFrom lim (\<lambda>_. True) (\<lambda>_. True) (\<lambda>_. True) bok rm ts now p v =
      (None, Some (v1\<lparr>v_dir := empty_dir\<lparr>files := archived d, backups := Some es\<rparr>\<rparr>))"
    using safe at1 by (simp add: RestoreFrom_def Let_def cong: syscall.case_cong)
  then show ?thesis using archived_storable [OF d] es by simp
qed

text \<open>At the retention, the safety backup prunes the oldest archive: it cannot be restored.\<close>

theorem oldest_backup_pruned:
  assumes safe: "backupLocked bok rm ts now v = ((q, None), v1)" and rm: "\<forall>n. rm n"
    and full: "DefaultBackupRetention \<le> length (filter is_archive (archives v))"
    and dist: "distinct (map e_Name (archives v))"
    and e: "e \<in> set (archives v)" "is_archive e" "e_ModTime e < now"
    and oldest: "\<forall>e' \<in> set (archives v). is_archive e' \<and> e' \<noteq> e \<longrightarrow> e_ModTime e < e_ModTime e'"
  shows "archive_at (e_Name e) v1 = None"
    "fst (RestoreFrom lim ok io rd bok rm ts now (e_Name e) v) = Some OpenFailed"
proof -
  let ?new = "\<lparr>e_Name = q, e_IsDir = False, e_ModTime = now\<rparr>"
  obtain es' where es': "q \<notin> e_Name ` set (archives v)"
    "pruneBackups rm DefaultBackupRetention (archives v @ [?new]) = (es', None)"
    "v1 = v\<lparr>v_dir := (v_dir v)\<lparr>backups := Some es'\<rparr>, v_zips := (v_zips v)(q \<mapsto> zipStoreDir (v_dir v))\<rparr>"
    using backupLocked_ok [OF safe] by blast
  let ?es = "archives v @ [?new]"
  have dist': "distinct (map e_Name ?es)" using dist es'(1) by auto
  have isnew: "is_archive ?new"
  proof -
    obtain p where "fresh_name (map e_Name (archives v)) ts = Some p" "q = p"
      using safe by (auto simp: backupLocked_def Let_def archives_def split: if_splits option.splits prod.splits)
    then obtain k where "q = backup_name ts k" using name_loop_shape unfolding fresh_name_def by blast
    then show ?thesis by (auto simp: is_archive_def backup_name_def has_suffix_iff)
  qed
  then have more: "DefaultBackupRetention < length (filter is_archive ?es)" using full by simp
  obtain gone where gone: "pruneBackups rm DefaultBackupRetention ?es = (filter (\<lambda>e. e \<notin> gone) ?es, None)"
    "gone \<subseteq> set (filter is_archive ?es)" "card gone = length (filter is_archive ?es) - DefaultBackupRetention"
    "\<forall>e \<in> gone. \<forall>e' \<in> set (filter is_archive ?es) - gone. e_ModTime e \<le> e_ModTime e'"
    using pruneBackups_keeps_newest [OF rm dist' more] by blast
  have "e \<in> gone"
  proof (rule ccontr)
    assume ne: "e \<notin> gone"
    have "gone \<noteq> {}" using gone(3) more by auto
    then obtain g where g: "g \<in> gone" by blast
    then have "e_ModTime g \<le> e_ModTime e" using gone(4) e ne by auto
    moreover have "g \<in> set (filter is_archive ?es)" using g gone(2) by blast
    then have "g \<in> set ?es" "is_archive g" unfolding set_filter by blast+
    moreover have "g \<noteq> e" using g ne by blast
    ultimately show False using oldest e(3) by auto
  qed
  moreover have "es' = filter (\<lambda>e. e \<notin> gone) ?es" using gone(1) es'(2) by simp
  ultimately have "e_Name e \<notin> e_Name ` set es'"
    using dist' e(1) by (auto simp: distinct_map inj_on_def)
  then show none: "archive_at (e_Name e) v1 = None" by (simp add: archive_at_entry archives_def es'(3))
  show "fst (RestoreFrom lim ok io rd bok rm ts now (e_Name e) v) = Some OpenFailed"
    using safe none by (simp add: RestoreFrom_def Restore_def Let_def)
qed

end
