(* ===== verification/AppPersist.thy ===== *)
theory AppPersist
  imports ImportTree BackupStore
begin

text \<open>
  \<open>internal/app/app.go\<close> and \<open>persister.go\<close>: construction, start, shutdown, and the flush of the
  in-memory state to the store, with \<open>ExportSnapshot\<close> and \<open>RestoreSnapshot\<close> of \<open>commands.go\<close>.
  A flush has four parts, under \<open>persistMu\<close> but not under the tree's lock: it captures the
  snapshot (the tree by reference), walks the tree, writes what it found, and clears the dirty flag. Commands may
  run between the parts, and while the tree is walked.
\<close>

subsection \<open>State\<close>

text \<open>\<open>Saving snap raced\<close>: the tree is walked and written; \<open>raced\<close> when a command took effect meanwhile.\<close>

datatype flush = NoFlush | Captured Snapshot | Saving Snapshot bool | Written Meta

record persist =
  ps_app :: app
  ps_vault :: vault
  ps_flush :: flush

text \<open>What the environment answers during a save: the context, the system calls, the clock.\<close>

record save_env =
  se_ctx :: bool
  se_calls :: "string \<Rightarrow> wcall \<Rightarrow> bool"
  se_mkdir :: bool
  se_now :: time

definition good_env :: "time \<Rightarrow> save_env" where
  "good_env now = \<lparr>se_ctx = True, se_calls = (\<lambda>_ _. True), se_mkdir = True, se_now = now\<rparr>"

subsection \<open>The parts of a flush\<close>

definition live_snapshot :: "app \<Rightarrow> Snapshot" where
  "live_snapshot a = \<lparr>s_Tree = Some (a_tree a), s_Templates = a_templates a, s_Workspace = a_workspace a,
     s_Meta = a_meta a\<rparr>"

definition flush_capture :: "persist \<Rightarrow> persist" where
  "flush_capture s = s\<lparr>ps_flush := Captured (live_snapshot (ps_app s))\<rparr>"

text \<open>The snapshot's tree is the pointer: the save encodes the tree as it is then, when nothing changes it meanwhile.\<close>

definition flush_write :: "'j json \<Rightarrow> save_env \<Rightarrow> Snapshot \<Rightarrow> persist \<Rightarrow> store_error option \<times> persist" where
  "flush_write J env snap s =
     (case Save J (se_ctx env) (se_calls env) (se_mkdir env) (se_now env)
         (Some (snap\<lparr>s_Tree := Some (a_tree (ps_app s))\<rparr>)) (dir_disk (v_dir (ps_vault s))) of
        (e, so, d) \<Rightarrow>
          (let v = (ps_vault s)\<lparr>v_dir := put_known d (v_dir (ps_vault s))\<rparr> in
           case (e, so) of
             (None, Some saved) \<Rightarrow> (None, s\<lparr>ps_vault := v, ps_flush := Written (s_Meta saved)\<rparr>)
           | (None, None) \<Rightarrow> (Some NilSnapshot, s\<lparr>ps_vault := v, ps_flush := NoFlush\<rparr>)
           | (Some err, _) \<Rightarrow> (Some err, s\<lparr>ps_vault := v, ps_flush := NoFlush\<rparr>)))"

definition flush_finish :: "Meta \<Rightarrow> persist \<Rightarrow> persist" where
  "flush_finish m s = s\<lparr>ps_app := (ps_app s)\<lparr>a_meta := m, a_dirty := False\<rparr>, ps_flush := NoFlush\<rparr>"

text \<open>The whole flush, when no command runs in between.\<close>

definition flushNowLocked :: "'j json \<Rightarrow> save_env \<Rightarrow> persist \<Rightarrow> store_error option \<times> persist" where
  "flushNowLocked J env s =
     (case flush_write J env (live_snapshot (ps_app s)) (flush_capture s) of
        (Some e, s1) \<Rightarrow> (Some e, s1)
      | (None, s1) \<Rightarrow> (case ps_flush s1 of
            Written m \<Rightarrow> (None, flush_finish m s1)
          | _ \<Rightarrow> (None, s1)))"

definition tryFlush :: "'j json \<Rightarrow> save_env \<Rightarrow> persist \<Rightarrow> store_error option \<times> persist" where
  "tryFlush J env s = (if \<not> a_dirty (ps_app s) then (None, s) else flushNowLocked J env s)"

subsection \<open>New, Start, Shutdown\<close>

datatype new_error = DirRequired | LoadFailed store_error

definition New_app :: "'j json \<Rightarrow> (string \<Rightarrow> bool) \<Rightarrow> string \<Rightarrow> vault \<Rightarrow> new_error + persist" where
  "New_app J rok dir v =
     (if dir = '''' then Inl DirRequired
      else case Load J True rok (dir_disk (v_dir v)) of
          Inl e \<Rightarrow> Inl (LoadFailed e)
        | Inr snap \<Rightarrow> Inr \<lparr>ps_app = \<lparr>a_tree = (case s_Tree snap of None \<Rightarrow> NewTree | Some t \<Rightarrow> t),
              a_templates = s_Templates snap, a_workspace = s_Workspace snap, a_meta = s_Meta snap,
              a_dirty = False, a_signal = False, a_sig_closed = False, a_started = False, a_stopped = False,
              a_root_done = False, a_events = []\<rparr>, ps_vault = v, ps_flush = NoFlush\<rparr>)"

definition Start_app :: "persist \<Rightarrow> persist" where
  "Start_app s = (if a_started (ps_app s) then s else s\<lparr>ps_app := (ps_app s)\<lparr>a_started := True\<rparr>\<rparr>)"

text \<open>\<open>Shutdown\<close> after the sessions are closed, up to the final flush, whose error is logged.\<close>

definition Shutdown_app :: "'j json \<Rightarrow> save_env \<Rightarrow> persist \<Rightarrow> persist" where
  "Shutdown_app J env s =
     (let a = ps_app s in
      if a_stopped a then s
      else snd (flushNowLocked J env (s\<lparr>ps_app := a\<lparr>a_stopped := True, a_root_done := True,
             a_sig_closed := a_sig_closed a \<or> a_started a\<rparr>\<rparr>)))"

subsection \<open>Export and restore\<close>

datatype snapshot_error =
    SnapContext | SnapFlush store_error | SnapBackup backup_error | SnapRestore restore_error
  | SnapLoad store_error

record backup_env =
  be_calls :: "bcall \<Rightarrow> bool"
  be_remove :: "string \<Rightarrow> bool"
  be_stamp :: string
  be_now :: time

definition ExportSnapshot :: "'j json \<Rightarrow> save_env \<Rightarrow> backup_env \<Rightarrow> bool \<Rightarrow> persist \<Rightarrow>
    (snapshot_error + string) \<times> persist" where
  "ExportSnapshot J env benv ctx s =
     (if \<not> ctx then (Inl SnapContext, s)
      else case flushNowLocked J env s of
          (Some e, s1) \<Rightarrow> (Inl (SnapFlush e), s1)
        | (None, s1) \<Rightarrow> (case Backup ctx (be_calls benv) (be_remove benv) (be_stamp benv) (be_now benv) (ps_vault s1) of
              ((p, None), v) \<Rightarrow> (Inr p, s1\<lparr>ps_vault := v\<rparr>)
            | ((p, Some e), v) \<Rightarrow> (Inl (SnapBackup e), s1\<lparr>ps_vault := v\<rparr>)))"

text \<open>A directory that a failed roll-back leaves missing is read as an empty one.\<close>

definition RestoreSnapshot :: "'j json \<Rightarrow> save_env \<Rightarrow> backup_env \<Rightarrow> limits \<Rightarrow> (syscall \<Rightarrow> bool) \<Rightarrow>
    (zip_entry \<Rightarrow> bool) \<Rightarrow> (zip_entry \<Rightarrow> bool) \<Rightarrow> (string \<Rightarrow> bool) \<Rightarrow> bool \<Rightarrow> string \<Rightarrow> persist \<Rightarrow>
    snapshot_error option \<times> persist" where
  "RestoreSnapshot J env benv lim ok io rd rok ctx p s =
     (if \<not> ctx then (Some SnapContext, s)
      else case flushNowLocked J env s of
          (Some e, s1) \<Rightarrow> (Some (SnapFlush e), s1)
        | (None, s1) \<Rightarrow>
            (case RestoreFrom lim ok io rd (be_calls benv) (be_remove benv) (be_stamp benv) (be_now benv) p (ps_vault s1) of
               (r, vo) \<Rightarrow>
                 (let v = (case vo of Some v \<Rightarrow> v | None \<Rightarrow> (ps_vault s1)\<lparr>v_dir := empty_dir\<rparr>);
                      s2 = s1\<lparr>ps_vault := v\<rparr>
                  in case r of
                       Some e \<Rightarrow> (Some (SnapRestore e), s2)
                     | None \<Rightarrow> (case Load J ctx rok (dir_disk (v_dir v)) of
                         Inl e \<Rightarrow> (Some (SnapLoad e), s2)
                       | Inr snap \<Rightarrow> (None, s2\<lparr>ps_app := (ps_app s2)\<lparr>
                           a_tree := (case s_Tree snap of None \<Rightarrow> NewTree | Some t \<Rightarrow> t),
                           a_templates := s_Templates snap, a_workspace := s_Workspace snap,
                           a_meta := s_Meta snap, a_dirty := False\<rparr>\<rparr>)))))"

subsection \<open>What a flush leaves on the disk\<close>

lemma map_of_filter_key: "map_of (filter (\<lambda>(p, _). p \<noteq> k) xs) q = (if q = k then None else map_of xs q)"
  by (induction xs) auto

lemma dir_file_put: "dir_file (put_file [n] b d) m = (if m = n then Some b else dir_file d m)"
  by (simp add: dir_file_def put_file_def map_add_def map_of_filter_key split: option.split)

lemma fold_put_known:
  "dir_file (fold (\<lambda>name d. case d_files k name of None \<Rightarrow> d | Some b \<Rightarrow> put_file [name] b d) ns d) n =
    (if n \<in> set ns \<and> d_files k n \<noteq> None then d_files k n else dir_file d n)"
proof (induction ns arbitrary: d)
  case (Cons m ns)
  then show ?case by (cases "d_files k m") (auto simp: dir_file_put)
qed simp

lemma dir_file_put_known:
  "dir_file (put_known k d) n = (if n \<in> set known_files \<and> d_files k n \<noteq> None then d_files k n else dir_file d n)"
  unfolding put_known_def by (rule fold_put_known)

lemma backups_put_known [simp]: "backups (put_known k d) = backups d"
proof -
  have "backups (fold (\<lambda>name d. case d_files k name of None \<Rightarrow> d | Some b \<Rightarrow> put_file [name] b d) ns d) = backups d" for ns
    by (induction ns arbitrary: d) (simp_all add: put_file_def split: option.split)
  then show ?thesis by (simp add: put_known_def)
qed

lemma read_all_cong:
  "(\<And>n. n \<in> set ns \<Longrightarrow> d_files d n = d_files d' n) \<Longrightarrow> read_all ok ns d = read_all ok ns d'"
proof (induction ns)
  case (Cons n ns)
  then have "read_all ok ns d = read_all ok ns d'" "d_files d n = d_files d' n" by simp_all
  then show ?case by (cases "d_files d' n") simp_all
qed simp

lemma Load_cong:
  "(\<And>n. n \<in> set known_files \<Longrightarrow> d_files d n = d_files d' n) \<Longrightarrow> Load J ctx ok d = Load J ctx ok d'"
  using read_all_cong [of known_files d d'] by (simp add: Load_def)

lemma write_all_keeps:
  "write_all ok ws d = (e, d') \<Longrightarrow> d_files d n \<noteq> None \<Longrightarrow> d_files d' n \<noteq> None"
proof (induction ok ws d arbitrary: rule: write_all.induct)
  case (3 ok name data ws d)
  obtain c d1 st where w: "WriteAtomic (ok name) [] name data d = ((c, d1), st)" by (metis surj_pair)
  have k: "d_files d1 n \<noteq> None" using WriteAtomic_result [OF w] 3(3) by auto
  show ?case
  proof (cases c)
    case None
    then show ?thesis using 3(1) [OF w [symmetric] refl] 3(2) w k by simp
  next
    case (Some x)
    then show ?thesis using 3(2) w k by simp
  qed
qed auto

lemma Save_keeps:
  assumes "Save J ctx ok mk now so d = (e, so', d')" "d_files d n \<noteq> None"
  shows "d_files d' n \<noteq> None"
  using assms write_all_keeps
  by (auto simp: Save_def Let_def simp del: write_all.simps split: if_splits option.splits walk_result.splits prod.splits)

text \<open>The store holds the application's state: loading it gives the same nodes, templates and layout.\<close>

definition stored :: "'j json \<Rightarrow> persist \<Rightarrow> bool" where
  "stored J s \<longleftrightarrow> (\<exists>snap t. Load J True (\<lambda>_. True) (dir_disk (v_dir (ps_vault s))) = Inr snap \<and>
     s_Tree snap = Some t \<and> wf_tree t \<and> folders t = folders (a_tree (ps_app s)) \<and>
     connections t = connections (a_tree (ps_app s)) \<and> s_Templates snap = a_templates (ps_app s) \<and>
     s_Workspace snap = a_workspace (ps_app s))"

text \<open>The four documents of the state are decoded to what was encoded, and are not too large.\<close>

definition documents_ok :: "'j json \<Rightarrow> time \<Rightarrow> app \<Rightarrow> bool" where
  "documents_ok J now a \<longleftrightarrow> (\<exists>inv. encodeInventory (Some (a_tree a)) = WDone inv \<and>
     faithful J inv (live_snapshot a) (stamp now (a_meta a)))"

lemma flush_write_stores:
  assumes wf: "wf_tree (a_tree (ps_app s))" and doc: "documents_ok J now (ps_app s)"
    and snap: "snap = (live_snapshot (ps_app s))\<lparr>s_Tree := t0\<rparr>"
  shows "\<exists>s'. flush_write J (good_env now) snap s = (None, s') \<and> ps_app s' = ps_app s \<and>
    ps_flush s' = Written (stamp now (a_meta (ps_app s))) \<and> stored J s' \<and>
    v_zips (ps_vault s') = v_zips (ps_vault s) \<and> archives (ps_vault s') = archives (ps_vault s)"
proof -
  let ?a = "ps_app s" and ?d = "dir_disk (v_dir (ps_vault s))"
  let ?snap = "snap\<lparr>s_Tree := Some (a_tree ?a)\<rparr>"
  have live: "?snap = live_snapshot ?a" by (simp add: snap live_snapshot_def)
  obtain inv where f: "encodeInventory (Some (a_tree ?a)) = WDone inv"
    "faithful J inv (live_snapshot ?a) (stamp now (a_meta ?a))" using doc by (auto simp: documents_ok_def)
  have "s_Tree (live_snapshot ?a) = Some (a_tree ?a)" "s_Meta (live_snapshot ?a) = a_meta ?a"
    by (simp_all add: live_snapshot_def)
  from Save_then_Load [OF wf this(1) f(1), unfolded this(2), OF f(2), of "\<lambda>_ _. True" "\<lambda>_. True" ?d] obtain d' t' where
    sv: "Save J True (\<lambda>_ _. True) True now (Some (live_snapshot ?a)) ?d =
      (None, Some ((live_snapshot ?a)\<lparr>s_Meta := stamp now (a_meta ?a)\<rparr>), d')"
    and ld: "Load J True (\<lambda>_. True) d' = Inr ((live_snapshot ?a)\<lparr>s_Tree := Some t', s_Meta := stamp now (a_meta ?a)\<rparr>)"
    and t': "wf_tree t'" "folders t' = folders (a_tree ?a)" "connections t' = connections (a_tree ?a)"
    by auto
  let ?v = "(ps_vault s)\<lparr>v_dir := put_known d' (v_dir (ps_vault s))\<rparr>"
  have "d_files d' n = dir_file (put_known d' (v_dir (ps_vault s))) n" if "n \<in> set known_files" for n
  proof (cases "d_files d' n")
    case None
    then have "dir_file (v_dir (ps_vault s)) n = None"
      using Save_keeps [OF sv, of n] by (cases "dir_file (v_dir (ps_vault s)) n") (auto simp: dir_disk_def)
    with None show ?thesis by (simp add: dir_file_put_known)
  qed (use that in \<open>simp add: dir_file_put_known\<close>)
  then have "Load J True (\<lambda>_. True) (dir_disk (v_dir ?v)) = Load J True (\<lambda>_. True) d'"
    by (intro Load_cong) (simp add: dir_disk_def)
  with ld t' have "stored J (s\<lparr>ps_vault := ?v, ps_flush := fl\<rparr>)" for fl
    by (simp add: stored_def live_snapshot_def)
  moreover have "flush_write J (good_env now) snap s =
      (None, s\<lparr>ps_vault := ?v, ps_flush := Written (stamp now (a_meta ?a))\<rparr>)"
    unfolding flush_write_def good_env_def live using sv by simp
  ultimately show ?thesis by (simp add: archives_def)
qed

lemma stored_finish: "stored J (flush_finish m s) = stored J s"
  by (simp add: stored_def flush_finish_def)

theorem flush_stores:
  assumes wf: "wf_tree (a_tree (ps_app s))" and doc: "documents_ok J now (ps_app s)"
  shows "\<exists>s'. flushNowLocked J (good_env now) s = (None, s') \<and> stored J s' \<and> \<not> a_dirty (ps_app s') \<and>
    a_tree (ps_app s') = a_tree (ps_app s) \<and> a_templates (ps_app s') = a_templates (ps_app s) \<and>
    a_workspace (ps_app s') = a_workspace (ps_app s) \<and> ps_flush s' = NoFlush \<and>
    v_zips (ps_vault s') = v_zips (ps_vault s) \<and> archives (ps_vault s') = archives (ps_vault s)"
proof -
  let ?s = "flush_capture s"
  have app: "ps_app ?s = ps_app s" "ps_vault ?s = ps_vault s" by (simp_all add: flush_capture_def)
  have "live_snapshot (ps_app s) = (live_snapshot (ps_app ?s))\<lparr>s_Tree := Some (a_tree (ps_app s))\<rparr>"
    by (simp add: app live_snapshot_def)
  from flush_write_stores [where s = ?s, unfolded app, OF wf doc this[unfolded app]] obtain s1 where s1:
    "flush_write J (good_env now) (live_snapshot (ps_app s)) ?s = (None, s1)" "ps_app s1 = ps_app s"
    "ps_flush s1 = Written (stamp now (a_meta (ps_app s)))" "stored J s1"
    "v_zips (ps_vault s1) = v_zips (ps_vault s)" "archives (ps_vault s1) = archives (ps_vault s)" by auto
  then have "flushNowLocked J (good_env now) s = (None, flush_finish (stamp now (a_meta (ps_app s))) s1)"
    by (simp add: flushNowLocked_def)
  with s1 show ?thesis by (simp add: stored_finish) (simp add: flush_finish_def)
qed

subsection \<open>Commands between the parts of a flush\<close>

definition is_written :: "flush \<Rightarrow> bool" where
  "is_written f \<longleftrightarrow> (case f of Written _ \<Rightarrow> True | _ \<Rightarrow> False)"

definition race :: "bool \<Rightarrow> flush \<Rightarrow> flush" where
  "race effect f = (case f of Saving snap raced \<Rightarrow> Saving snap (raced \<or> effect) | _ \<Rightarrow> f)"

text \<open>
  A save that is bound to store the state, when nothing changes the tree meanwhile and it reports success: the tree
  is well-formed, the captured templates, layout and metadata are still current, and the documents can be read back.
\<close>

definition sound_save :: "'j json \<Rightarrow> time \<Rightarrow> Snapshot \<Rightarrow> app \<Rightarrow> bool" where
  "sound_save J now snap a \<longleftrightarrow> wf_tree (a_tree a) \<and> documents_ok J now a \<and>
     snap\<lparr>s_Tree := None\<rparr> = (live_snapshot a)\<lparr>s_Tree := None\<rparr>"

text \<open>
  The second component is a ghost: since the last sound save, a command took effect while a save was running or before
  its flag was cleared, or a save of a clean state failed half way, or a save that was not sound reported
  success, or something happened that is none of the other steps (\<open>ps_other\<close>, which may change everything: an import that fails
  half way, the removal of a connection at the root, a restore). The walk of the tree is not atomic: when a command takes effect
  meanwhile, anything may have been written (\<open>ps_raced\<close>).
\<close>

inductive persist_step :: "'j json \<Rightarrow> persist \<times> bool \<Rightarrow> persist \<times> bool \<Rightarrow> bool" for J where
  ps_command: "command (ps_app s) e a' \<Longrightarrow>
    persist_step J (s, m) (s\<lparr>ps_app := a', ps_flush := race (e = None) (ps_flush s)\<rparr>, m \<or> e = None \<and> is_written (ps_flush s))"
| ps_import: "ImportMRemoteNG ctx format (parse :: string \<Rightarrow> string + import_warning parsed) (ps_app s) = (Returns (Inr res), a') \<Longrightarrow>
    persist_step J (s, m) (s\<lparr>ps_app := a', ps_flush := race True (ps_flush s)\<rparr>,
      m \<or> is_written (ps_flush s) \<or> \<not> wf_tree (a_tree a'))"
| ps_other: "persist_step J (s, m) (s', True)"
| ps_begin: "ps_flush s = NoFlush \<Longrightarrow> persist_step J (s, m) (flush_capture s, m)"
| ps_encode: "ps_flush s = Captured snap \<Longrightarrow> persist_step J (s, m) (s\<lparr>ps_flush := Saving snap False\<rparr>, m)"
| ps_write: "ps_flush s = Saving snap False \<Longrightarrow> flush_write J env snap s = (None, s') \<Longrightarrow>
    persist_step J (s, m) (s', \<not> sound_save J (se_now env) snap (ps_app s))"
| ps_write_fails: "ps_flush s = Saving snap False \<Longrightarrow> flush_write J env snap s = (Some err, s') \<Longrightarrow>
    persist_step J (s, m) (s', m \<or> \<not> a_dirty (ps_app s))"
| ps_raced: "ps_flush s = Saving snap True \<Longrightarrow>
    persist_step J (s, m) (s\<lparr>ps_vault := v', ps_flush := Written meta\<rparr>, True)"
| ps_raced_fails: "ps_flush s = Saving snap True \<Longrightarrow>
    persist_step J (s, m) (s\<lparr>ps_vault := v', ps_flush := NoFlush\<rparr>, m \<or> \<not> a_dirty (ps_app s))"
| ps_finish: "ps_flush s = Written meta \<Longrightarrow> persist_step J (s, m) (flush_finish meta s, m)"

definition persist_inv :: "'j json \<Rightarrow> persist \<times> bool \<Rightarrow> bool" where
  "persist_inv J sm \<longleftrightarrow> (case sm of (s, m) \<Rightarrow>
     m \<or> wf_tree (a_tree (ps_app s)) \<and> (case ps_flush s of Written _ \<Rightarrow> stored J s | _ \<Rightarrow> a_dirty (ps_app s) \<or> stored J s))"

lemma committed_same:
  assumes "committed a a'"
  shows "a_dirty a'" "a_templates a' = a_templates a" "a_workspace a' = a_workspace a" "a_meta a' = a_meta a"
    "a_started a' = a_started a" "a_sig_closed a' = a_sig_closed a"
proof -
  obtain es where e: "a' = a\<lparr>a_tree := a_tree a', a_dirty := True, a_signal := a_signal a \<or> a_started a,
      a_events := a_events a @ es\<rparr>" using assms by (auto simp: committed_def)
  show "a_dirty a'" "a_templates a' = a_templates a" "a_workspace a' = a_workspace a" "a_meta a' = a_meta a"
    "a_started a' = a_started a" "a_sig_closed a' = a_sig_closed a"
    by (subst e, simp)+
qed

lemma flush_write_fails:
  assumes "flush_write J env snap s = (Some err, s')"
  shows "ps_app s' = ps_app s" "ps_flush s' = NoFlush"
  using assms by (auto simp: flush_write_def Let_def split: prod.splits option.splits)

lemma Import_success:
  assumes "ImportMRemoteNG ctx format parse a = (Returns (Inr res), a')"
  shows "a_dirty a'"
  using assms by (auto simp: ImportMRemoteNG_def Let_def markDirty_def split: if_splits sum.splits walk_result.splits prod.splits call.splits)

text \<open>What a successful save writes does not depend on which calls it could do without.\<close>

lemma write_all_success:
  "write_all ok ws d = (None, d1) \<Longrightarrow> d_files e = d_files d \<Longrightarrow>
    \<exists>e1. write_all (\<lambda>_ _. True) ws e = (None, e1) \<and> d_files e1 = d_files d1"
proof (induction ok ws d arbitrary: e rule: write_all.induct)
  case (3 ok name data ws d)
  obtain c d2 st where w: "WriteAtomic (ok name) [] name data d = ((c, d2), st)" by (metis surj_pair)
  obtain c' e2 st' where w': "WriteAtomic (\<lambda>_. True) [] name data e = ((c', e2), st')" by (metis surj_pair)
  have c': "c' = None" using w' by (auto simp: WriteAtomic_def Let_def)
  from 3(2) w have c: "c = None" by (cases c) auto
  have f: "d_files e2 = d_files d2"
    using WriteAtomic_result [OF w] WriteAtomic_result [OF w'] c c' 3(3) by simp
  from 3(1) [OF w [symmetric] refl c _ f] c w 3(2) have "\<exists>e1. write_all (\<lambda>_ _. True) ws e2 = (None, e1) \<and> d_files e1 = d_files d1"
    by simp
  then show ?case using w' c' by simp
qed auto

lemma put_known_cong: "d_files k = d_files k' \<Longrightarrow> put_known k d = put_known k' d"
  by (simp add: put_known_def)

lemma flush_write_success:
  assumes "flush_write J env snap s = (None, s')"
  shows "flush_write J (good_env (se_now env)) snap s = (None, s')"
proof -
  let ?snap = "snap\<lparr>s_Tree := Some (a_tree (ps_app s))\<rparr>"
  obtain so d where sv: "Save J (se_ctx env) (se_calls env) (se_mkdir env) (se_now env) (Some ?snap)
      (dir_disk (v_dir (ps_vault s))) = (None, so, d)"
    using assms by (auto simp: flush_write_def Let_def split: prod.splits option.splits)
  obtain d' where "Save J True (\<lambda>_ _. True) True (se_now env) (Some ?snap) (dir_disk (v_dir (ps_vault s))) = (None, so, d')"
    "d_files d' = d_files d"
    using sv write_all_success [where ok = "se_calls env"]
    by (fastforce simp: Save_def Let_def simp del: write_all.simps split: if_splits walk_result.splits prod.splits option.splits)
  then show ?thesis using assms sv put_known_cong [of d' d]
    by (auto simp: flush_write_def good_env_def Let_def split: option.splits)
qed

lemma sound_save_stores:
  assumes "flush_write J env snap s = (None, s')" "sound_save J (se_now env) snap (ps_app s)"
  shows "ps_app s' = ps_app s \<and> (\<exists>meta. ps_flush s' = Written meta) \<and> stored J s'"
proof -
  have "snap\<lparr>s_Tree := None, s_Tree := s_Tree snap\<rparr> = (live_snapshot (ps_app s))\<lparr>s_Tree := None, s_Tree := s_Tree snap\<rparr>"
    using assms(2) by (simp add: sound_save_def)
  then have "snap = (live_snapshot (ps_app s))\<lparr>s_Tree := s_Tree snap\<rparr>" by simp
  from flush_write_stores [OF _ _ this, of J "se_now env"] assms flush_write_success [OF assms(1)]
  show ?thesis by (auto simp: sound_save_def)
qed

lemma stored_cong: "ps_app t = ps_app s \<Longrightarrow> ps_vault t = ps_vault s \<Longrightarrow> stored J t = stored J s"
  by (simp add: stored_def)

lemma race_cases: "race r f = Written meta \<longleftrightarrow> f = Written meta"
  by (cases f) (simp_all add: race_def)

lemma persist_inv_dirty:
  assumes "m \<or> wf_tree (a_tree (ps_app s)) \<and> a_dirty (ps_app s) \<and> (\<forall>meta. ps_flush s \<noteq> Written meta)"
  shows "persist_inv J (s, m)"
  using assms by (auto simp: persist_inv_def split: flush.splits)

lemma persist_inv_step:
  assumes inv: "persist_inv J sm" and step: "persist_step J sm sm'"
  shows "persist_inv J sm'"
  using step
proof cases
  case (ps_command s e a' m)
  show ?thesis
  proof (cases "m \<or> e = None \<and> is_written (ps_flush s)")
    case False
    then have wf: "wf_tree (a_tree (ps_app s))" using inv ps_command by (simp add: persist_inv_def)
    show ?thesis
    proof (cases e)
      case (Some x)
      then have "a' = ps_app s" using command_outcome [OF ps_command(3) wf] by simp
      moreover have "race False f = f" for f by (cases f) (simp_all add: race_def)
      ultimately show ?thesis using inv ps_command Some by simp
    next
      case None
      then have "committed (ps_app s) a'" "wf_tree (a_tree a')"
        using command_outcome [OF ps_command(3) wf] by simp_all
      then show ?thesis using committed_same(1) None False
        by (auto simp: ps_command(2) race_cases is_written_def intro!: persist_inv_dirty)
    qed
  qed (simp add: ps_command(2) persist_inv_def)
next
  case (ps_import ctx format parse s res a' m)
  then show ?thesis using Import_success [OF ps_import(3)]
    by (auto simp: ps_import(2) race_cases is_written_def intro!: persist_inv_dirty)
next
  case (ps_begin s m)
  then show ?thesis using inv by (simp add: persist_inv_def flush_capture_def stored_def)
next
  case (ps_encode s snap m)
  then show ?thesis using inv by (simp add: persist_inv_def stored_def)
next
  case (ps_write s snap env s' m)
  show ?thesis
  proof (cases "sound_save J (se_now env) snap (ps_app s)")
    case True
    from sound_save_stores [OF ps_write(4) True] True show ?thesis
      by (auto simp: ps_write(2) persist_inv_def sound_save_def)
  qed (simp add: ps_write(2) persist_inv_def)
next
  case (ps_write_fails s snap env err s' m)
  note f = flush_write_fails [OF ps_write_fails(4)]
  show ?thesis using inv ps_write_fails(1,3) by (auto simp: ps_write_fails(2) persist_inv_def f)
next
  case (ps_raced_fails s snap m v')
  then show ?thesis using inv by (auto simp: persist_inv_def)
next
  case (ps_finish s meta m)
  then show ?thesis using inv
    by (auto simp: persist_inv_def flush_finish_def stored_def)
qed (simp_all add: persist_inv_def)

lemma New_app_stored:
  assumes "New_app J (\<lambda>_. True) dir v = Inr s"
  shows "stored J s" "wf_tree (a_tree (ps_app s))" "\<not> a_dirty (ps_app s)" "ps_flush s = NoFlush"
proof -
  obtain snap where l: "Load J True (\<lambda>_. True) (dir_disk (v_dir v)) = Inr snap"
    using assms by (auto simp: New_app_def split: if_splits sum.splits)
  obtain t where t: "s_Tree snap = Some t" "wf_tree t" using Load_wf [OF l] by blast
  with assms l show "stored J s" "wf_tree (a_tree (ps_app s))" "\<not> a_dirty (ps_app s)" "ps_flush s = NoFlush"
    by (auto simp: New_app_def stored_def split: if_splits)
qed

definition fresh_start :: "'j json \<Rightarrow> persist \<times> bool \<Rightarrow> bool" where
  "fresh_start J sm \<longleftrightarrow> (\<exists>dir v. New_app J (\<lambda>_. True) dir v = Inr (fst sm)) \<and> \<not> snd sm"

interpretation persist_sys: invariant_system "fresh_start J" "persist_step J" "persist_inv J" for J :: "'j json"
proof
  show "persist_inv J sm" if "fresh_start J sm" for sm
    using that New_app_stored [of J] by (cases sm) (auto simp: fresh_start_def persist_inv_def)
  show "persist_inv J sm'" if "persist_inv J sm" "persist_step J sm sm'" for sm sm'
    using persist_inv_step that .
qed

text \<open>The ghost is the only way out: a clean, idle application that missed nothing is on the disk.\<close>

theorem clean_is_stored:
  assumes "reach (fresh_start J) (persist_step J) (s, False)" "\<not> a_dirty (ps_app s)" "ps_flush s = NoFlush"
  shows "stored J s"
  using persist_sys.reach_inv [OF assms(1)] assms(2,3) by (simp add: persist_inv_def)

text \<open>A command in the gap is forgotten: the flag is cleared and nothing will write it.\<close>

theorem gap_is_lost:
  assumes w: "ps_flush s = Written meta" and st: "stored J s"
    and new: "folders (a_tree a') \<noteq> folders (a_tree (ps_app s)) \<or>
      connections (a_tree a') \<noteq> connections (a_tree (ps_app s))"
  shows "let s' = flush_finish meta (s\<lparr>ps_app := a'\<rparr>) in
    \<not> a_dirty (ps_app s') \<and> tryFlush J env s' = (None, s') \<and> \<not> stored J s'"
proof -
  have "\<not> stored J (s\<lparr>ps_app := a'\<rparr>)" using st new by (auto simp: stored_def)
  then show ?thesis by (simp add: Let_def stored_finish) (simp add: tryFlush_def flush_finish_def)
qed

subsection \<open>Shutdown\<close>

theorem shutdown_stores:
  assumes wf: "wf_tree (a_tree (ps_app s))" and doc: "documents_ok J now (ps_app s)" and "\<not> a_stopped (ps_app s)"
  shows "stored J (Shutdown_app J (good_env now) s) \<and>
    a_tree (ps_app (Shutdown_app J (good_env now) s)) = a_tree (ps_app s)"
proof -
  let ?a = "ps_app s"
  let ?s = "s\<lparr>ps_app := ?a\<lparr>a_stopped := True, a_root_done := True, a_sig_closed := a_sig_closed ?a \<or> a_started ?a\<rparr>\<rparr>"
  have "wf_tree (a_tree (ps_app ?s))" "documents_ok J now (ps_app ?s)"
    using wf doc by (simp_all add: documents_ok_def live_snapshot_def)
  from flush_stores [OF this] obtain s' where s': "flushNowLocked J (good_env now) ?s = (None, s')" "stored J s'"
    "a_tree (ps_app s') = a_tree ?a" by auto
  then have "Shutdown_app J (good_env now) s = s'" using assms(3) by (simp add: Shutdown_app_def Let_def)
  with s' show ?thesis by simp
qed

subsection \<open>A snapshot is restored to what was exported\<close>

definition good_backup :: "string \<Rightarrow> time \<Rightarrow> backup_env" where
  "good_backup ts now = \<lparr>be_calls = (\<lambda>_. True), be_remove = (\<lambda>_. True), be_stamp = ts, be_now = now\<rparr>"

lemma backupLocked_succeeds:
  "\<exists>p v'. backupLocked (\<lambda>_. True) (\<lambda>_. True) ts now v = ((p, None), v')"
proof -
  obtain p where "fresh_name (map e_Name (archives v)) ts = Some p" using fresh_name_found by blast
  moreover have "\<exists>es'. pruneBackups (\<lambda>_. True) k es = (es', None)" for k es
    by (simp add: pruneBackups_def remove_files_all Let_def)
  then obtain es' where "pruneBackups (\<lambda>_. True) DefaultBackupRetention
      (archives v @ [\<lparr>e_Name = p, e_IsDir = False, e_ModTime = now\<rparr>]) = (es', None)" by blast
  ultimately show ?thesis by (simp add: backupLocked_def Let_def archives_def)
qed

lemma backupLocked_dir:
  "backupLocked ok rm ts now v = ((p, None), v') \<Longrightarrow> files (v_dir v') = files (v_dir v)"
  by (erule backupLocked_ok) simp

lemma dir_file_mset:
  assumes "distinct (map fst (files d))" "mset (files e) = mset (files d)"
  shows "dir_file e = dir_file d"
proof -
  have "distinct (map fst (files e))"
    using assms by (metis mset_eq_imp_distinct_iff mset_map)
  moreover have "set (files e) = set (files d)" using assms(2) by (metis set_mset_mset)
  ultimately have "map_of (files e) = map_of (files d)" using assms(1) by (simp add: map_of_inject_set)
  then show ?thesis by (simp add: dir_file_def fun_eq_iff)
qed

theorem export_then_restore:
  assumes wf: "wf_tree (a_tree (ps_app s))" and doc: "documents_ok J now (ps_app s)"
    and ex: "ExportSnapshot J (good_env now) (good_backup ts t1) True s = (Inr p, s1)"
    and lim: "sane_limits lim" "storable lim (v_dir (ps_vault s1))"
    and room: "length (filter is_archive (archives (ps_vault s))) < DefaultBackupRetention"
    and later: "wf_tree (a_tree (ps_app s2))" "documents_ok J now2 (ps_app s2)"
    and there: "archive_at p (ps_vault s2) = archive_at p (ps_vault s1)"
      "length (filter is_archive (archives (ps_vault s2))) < DefaultBackupRetention"
  shows "\<exists>s3. RestoreSnapshot J (good_env now2) (good_backup ts2 t2) lim (\<lambda>_. True) (\<lambda>_. True) (\<lambda>_. True)
      (\<lambda>_. True) True p s2 = (None, s3) \<and> wf_tree (a_tree (ps_app s3)) \<and> \<not> a_dirty (ps_app s3) \<and>
    folders (a_tree (ps_app s3)) = folders (a_tree (ps_app s)) \<and>
    connections (a_tree (ps_app s3)) = connections (a_tree (ps_app s)) \<and>
    a_templates (ps_app s3) = a_templates (ps_app s) \<and> a_workspace (ps_app s3) = a_workspace (ps_app s)"
proof -
  obtain f1 where f1: "flushNowLocked J (good_env now) s = (None, f1)" "stored J f1"
    "a_tree (ps_app f1) = a_tree (ps_app s)" "a_templates (ps_app f1) = a_templates (ps_app s)"
    "a_workspace (ps_app f1) = a_workspace (ps_app s)" "archives (ps_vault f1) = archives (ps_vault s)"
    using flush_stores [OF wf doc] by blast
  from ex f1(1) obtain v1 where b: "backupLocked (\<lambda>_. True) (\<lambda>_. True) ts t1 (ps_vault f1) = ((p, None), v1)"
    and s1: "s1 = f1\<lparr>ps_vault := v1\<rparr>"
    by (auto simp: ExportSnapshot_def good_backup_def Backup_def split: prod.splits option.splits)
  let ?d = "v_dir (ps_vault f1)"
  have r0: "length (filter is_archive (archives (ps_vault f1))) < DefaultBackupRetention"
    using room f1(6) by simp
  note at1 = backupLocked_keeps(1) [OF b r0]
  obtain f2 where f2: "flushNowLocked J (good_env now2) s2 = (None, f2)"
    "v_zips (ps_vault f2) = v_zips (ps_vault s2)" "archives (ps_vault f2) = archives (ps_vault s2)"
    using flush_stores [OF later] by blast
  obtain q v3 where safe: "backupLocked (\<lambda>_. True) (\<lambda>_. True) ts2 t2 (ps_vault f2) = ((q, None), v3)"
    using backupLocked_succeeds by blast
  have store1: "storable lim ?d" using lim(2) backupLocked_dir [OF b] by (simp add: s1 storable_def)
  have at2: "archive_at p (ps_vault f2) = Some (zipStoreDir ?d)"
    using at1 there(1) f2(2,3) by (simp add: archive_at_entry s1 split: if_splits)
  have "length (filter is_archive (archives (ps_vault f2))) < DefaultBackupRetention"
    using there(2) f2(3) by simp
  from restore_of_backup [OF lim(1) store1 at2 safe this] obtain v4 where v4:
    "RestoreFrom lim (\<lambda>_. True) (\<lambda>_. True) (\<lambda>_. True) (\<lambda>_. True) (\<lambda>_. True) ts2 t2 p (ps_vault f2) = (None, Some v4)"
    "mset (files (v_dir v4)) = mset (files ?d)" by blast
  have "dir_file (v_dir v4) = dir_file ?d"
    using dir_file_mset v4(2) store1 by (simp add: storable_def)
  then have disk: "dir_disk (v_dir v4) = dir_disk ?d" by (simp add: dir_disk_def)
  obtain snap t where snap: "Load J True (\<lambda>_. True) (dir_disk ?d) = Inr snap" "s_Tree snap = Some t" "wf_tree t"
    "folders t = folders (a_tree (ps_app s))" "connections t = connections (a_tree (ps_app s))"
    "s_Templates snap = a_templates (ps_app s)" "s_Workspace snap = a_workspace (ps_app s)"
    using f1 by (auto simp: stored_def)
  show ?thesis using f2(1) v4(1) disk snap by (simp add: RestoreSnapshot_def good_backup_def)
qed

end
