(* ===== verification/SessionOpen.thy ===== *)
theory SessionOpen
  imports AppViews ProtocolHost
begin

text \<open>
  \<open>internal/app/sessions.go\<close>: how a session is opened. The connection's effective values, the
  credential (given inline or resolved) and the default authentication method make the
  request; the protocol host opens it, under the built-in identifier when the configured one
  is unknown. What the credential host answers, and what the module's \<open>Open\<close> does, are
  arguments.
\<close>

subsection \<open>Secrets\<close>

record Material =
  mt_Reference :: Reference
  mt_Username :: string
  mt_Password :: string
  mt_Domain :: string
  mt_PrivateKey :: "byte list"
  mt_Passphrase :: string
  mt_OTP :: string
  mt_Extra :: hints
  mt_Fields :: hints
  mt_ExpiresAt :: time

definition Zeroize :: "Material option \<Rightarrow> Material option" where
  "Zeroize mo = (case mo of None \<Rightarrow> None | Some m \<Rightarrow> Some (m\<lparr>mt_Username := '''', mt_Password := '''',
     mt_Domain := '''', mt_PrivateKey := [], mt_Passphrase := '''', mt_OTP := '''', mt_Extra := None,
     mt_Fields := None\<rparr>))"

record CredentialMaterial =
  cm_Username :: string
  cm_Password :: string
  cm_PrivateKey :: "byte list"
  cm_Passphrase :: string
  cm_Domain :: string
  cm_Extra :: hints

definition zero_material :: CredentialMaterial where
  "zero_material = \<lparr>cm_Username = '''', cm_Password = '''', cm_PrivateKey = [], cm_Passphrase = '''',
     cm_Domain = '''', cm_Extra = None\<rparr>"

definition adaptMaterial :: "Material option \<Rightarrow> CredentialMaterial" where
  "adaptMaterial mo = (case mo of None \<Rightarrow> zero_material
     | Some m \<Rightarrow> \<lparr>cm_Username = mt_Username m, cm_Password = mt_Password m, cm_PrivateKey = mt_PrivateKey m,
         cm_Passphrase = mt_Passphrase m, cm_Domain = mt_Domain m,
         cm_Extra = (if map_len (mt_Extra m) > 0 then mt_Extra m else None)\<rparr>)"

subsection \<open>Identifiers and defaults\<close>

text \<open>\<open>short[i+1:]\<close> for the last dot, if there is one.\<close>

definition after_last_dot :: "string \<Rightarrow> string" where
  "after_last_dot s = rev (takeWhile (\<lambda>c. c \<noteq> CHR ''.'') (rev s))"

definition defaultAuthMethod :: "string \<Rightarrow> CredentialMaterial \<Rightarrow> AuthMethod" where
  "defaultAuthMethod protocolID mat =
     (let short = after_last_dot protocolID in
      if short = ''ssh'' \<or> short = ''mosh'' then
        (if cm_Password mat \<noteq> '''' then AuthPassword
         else if length (cm_PrivateKey mat) > 0 then AuthPublicKey
         else AuthAgent)
      else if cm_Password mat \<noteq> '''' then AuthPassword
      else AuthNone)"

definition built_in_protocols :: "string list" where
  "built_in_protocols = [''ssh'', ''telnet'', ''rlogin'', ''rawsocket'', ''rdp'', ''vnc'', ''tn5250'',
     ''powershell'', ''http'', ''mosh'']"

definition canonicalBuiltInProtocolID :: "(string \<Rightarrow> string) \<Rightarrow> string \<Rightarrow> string option" where
  "canonicalBuiltInProtocolID ul i = (let s = to_lower ul (trim_space i) in
     if s \<in> set built_in_protocols then Some (''io.goremote.protocol.'' @ s) else None)"

subsection \<open>Opening\<close>

record OpenRequest =
  or_Host :: string
  or_Port :: int
  or_Username :: string
  or_AuthMethod :: AuthMethod
  or_Secret :: CredentialMaterial
  or_Settings :: settings

datatype open_error =
    OpenContext | OpenTree tree_error | ConnectionHasNoProtocol | CredentialError string | OpenProtocol proto_error

record 's opened =
  op_handle :: ID
  op_connection :: ID
  op_protocol :: string
  op_host :: string
  op_openedAt :: time
  op_session :: "'s safeSession"
  op_material :: "Material option"

text \<open>What the call leaves: the result, the caller's material, the events, the protocol host.\<close>

record ('m, 's) open_result =
  res_out :: "open_error + 's opened"
  res_inline :: "Material option"
  res_material :: "Material option"
  res_events :: "AppEvent list"
  res_host :: "'m ProtoHost"

definition blank_event :: "AppEventKind \<Rightarrow> AppEvent" where
  "blank_event k = (node_event k NilID NilID NilID NodeKindFolder '''')\<lparr>ae_NodeKind := None\<rparr>"

definition open_request :: "ConnectionNode \<Rightarrow> CredentialMaterial \<Rightarrow> OpenRequest" where
  "open_request resolved mat = \<lparr>or_Host = c_Host resolved, or_Port = c_Port resolved,
     or_Username = c_Username resolved,
     or_AuthMethod = (if c_AuthMethod resolved = '''' then defaultAuthMethod (c_ProtocolID resolved) mat
       else c_AuthMethod resolved),
     or_Secret = mat, or_Settings = app_cloneSettings (c_Settings resolved)\<rparr>"

text \<open>The protocol host is asked twice when the first identifier is unknown.\<close>

definition open_with_fallback :: "(string \<Rightarrow> string) \<Rightarrow> ('m \<Rightarrow> OpenRequest \<Rightarrow> 's option call_result) \<Rightarrow> string \<Rightarrow>
    OpenRequest \<Rightarrow> 'm ProtoHost \<Rightarrow> (proto_error + 's safeSession) \<times> string \<times> 'm ProtoHost" where
  "open_with_fallback ul mopen i req h =
     (case Open i (\<lambda>m. mopen m req) h of
        (Inr s, h1) \<Rightarrow> (Inr s, i, h1)
      | (Inl e, h1) \<Rightarrow>
          (if e = EmptyProtocolID \<or> (\<exists>j. e = ErrProtocolNotFound j) then
             (case canonicalBuiltInProtocolID ul i of
                None \<Rightarrow> (Inl e, i, h1)
              | Some c \<Rightarrow> (case Open c (\<lambda>m. mopen m req) h1 of
                  (Inr s, h2) \<Rightarrow> (Inr s, c, h2)
                | (Inl e2, h2) \<Rightarrow> (Inl e2, i, h2)))
           else (Inl e, i, h1)))"

text \<open>\<open>isRefZero\<close> of the domain is the same function as the copy in this file.\<close>

definition openSessionInternal :: "(string \<Rightarrow> string) \<Rightarrow> bool \<Rightarrow> ID \<Rightarrow> time \<Rightarrow> (Reference \<Rightarrow> string + Material option) \<Rightarrow>
    ('m \<Rightarrow> OpenRequest \<Rightarrow> 's option call_result) \<Rightarrow> ID \<Rightarrow> Material option \<Rightarrow> app \<Rightarrow> 'm ProtoHost \<Rightarrow>
    ('m, 's) open_result call" where
  "openSessionInternal ul ctx rnd now creds mopen connID inline a h =
     (let early = (\<lambda>e. Returns \<lparr>res_out = Inl e, res_inline = inline, res_material = None, res_events = [],
            res_host = h\<rparr>) in
      if \<not> ctx then early OpenContext
      else case Connection connID (a_tree a) of
          Inl e \<Rightarrow> early (OpenTree e)
        | Inr c \<Rightarrow> (case Ancestors connID (a_tree a) of
            None \<Rightarrow> Loops
          | Some (Inl e) \<Rightarrow> early (OpenTree e)
          | Some (Inr ancestors) \<Rightarrow>
              (let resolved = rc_node (Resolve (c_Inheritance c) (Some c) (map Some ancestors)) in
               if c_ProtocolID resolved = '''' then early ConnectionHasNoProtocol
               else case (case inline of
                     Some m \<Rightarrow> Inr (Some m, [])
                   | None \<Rightarrow> if isRefZero (c_CredentialRef resolved) then Inr (None, [])
                       else (case creds (c_CredentialRef resolved) of
                           Inl e \<Rightarrow> Inl e
                         | Inr m \<Rightarrow> Inr (m, [(blank_event EventCredentialUnlocked)
                             \<lparr>ae_ProviderID := ProviderID (c_CredentialRef resolved)\<rparr>]))) of
                   Inl e \<Rightarrow> Returns \<lparr>res_out = Inl (CredentialError e), res_inline = inline, res_material = None,
                     res_events = [(blank_event EventError)\<lparr>ae_Where := ''credential.resolve'', ae_Err := Some e\<rparr>],
                     res_host = h\<rparr>
                 | Inr (material, evs) \<Rightarrow>
                     (let req = open_request resolved (adaptMaterial material) in
                      case open_with_fallback ul mopen (c_ProtocolID resolved) req h of
                        (Inl e, _, h1) \<Rightarrow> Returns \<lparr>res_out = Inl (OpenProtocol e),
                          res_inline = (if inline = None then None else Zeroize material),
                          res_material = Zeroize material,
                          res_events = evs @ [(blank_event EventError)\<lparr>ae_Where := ''protocol.open'', ae_Err := Some ''open''\<rparr>],
                          res_host = h1\<rparr>
                      | (Inr s, protocolID, h1) \<Rightarrow> Returns \<lparr>res_out = Inr \<lparr>op_handle = NewID rnd,
                            op_connection = connID, op_protocol = protocolID, op_host = c_Host resolved,
                            op_openedAt = now, op_session = s, op_material = material\<rparr>,
                          res_inline = inline, res_material = material,
                          res_events = evs @ [(blank_event EventSessionOpened)
                            \<lparr>ae_SessionID := NewID rnd, ae_NodeID := connID\<rparr>], res_host = h1\<rparr>))))"

definition OpenSession where
  "OpenSession ul ctx rnd now creds mopen connID a h =
     openSessionInternal ul ctx rnd now creds mopen connID None a h"

definition OpenSessionWithSecret where
  "OpenSessionWithSecret ul ctx rnd now creds mopen connID secret a h =
     openSessionInternal ul ctx rnd now creds mopen connID secret a h"

subsection \<open>What is opened\<close>

lemma Open_session:
  assumes "Open i r h = (Inr s, h')"
  shows "\<exists>m. modules h i = Some (Some m) \<and> r m = Returned (Some (inner s)) \<and> ss_pluginID s = i \<and> h' = h"
  using assms by (auto simp: Open_def split: if_splits option.splits sum.splits call_result.splits elim: safeCall.elims)

lemma Open_missing:
  assumes "Open i r h = (Inl e, h')" "e = EmptyProtocolID \<or> (\<exists>j. e = ErrProtocolNotFound j)"
  shows "h' = h \<and> (i = '''' \<or> modules h i = None)"
  using assms by (auto simp: Open_def split: if_splits option.splits sum.splits)

lemma open_with_fallback_session:
  assumes "open_with_fallback ul mopen i req h = (Inr s, p, h')"
  shows "\<exists>m. modules h p = Some (Some m) \<and> mopen m req = Returned (Some (inner s)) \<and> h' = h \<and>
    (p = i \<or> canonicalBuiltInProtocolID ul i = Some p \<and> (i = '''' \<or> modules h i = None))"
proof (cases "Open i (\<lambda>m. mopen m req) h")
  case (Pair r h1)
  show ?thesis
  proof (cases r)
    case (Inr s0)
    then show ?thesis using assms Pair Open_session [of i "\<lambda>m. mopen m req" h s0 h1]
      by (auto simp: open_with_fallback_def)
  next
    case (Inl e)
    have e: "e = EmptyProtocolID \<or> (\<exists>j. e = ErrProtocolNotFound j)"
      using assms Pair Inl by (auto simp: open_with_fallback_def split: if_splits)
    then obtain c where c: "canonicalBuiltInProtocolID ul i = Some c"
      using assms Pair Inl by (auto simp: open_with_fallback_def split: option.splits)
    note h1 = Open_missing [OF Pair [unfolded Inl] e]
    obtain r2 h2 where o2: "Open c (\<lambda>m. mopen m req) h1 = (r2, h2)" by (cases "Open c (\<lambda>m. mopen m req) h1")
    then have "r2 = Inr s" "p = c" "h' = h2"
      using assms Pair Inl e c by (cases r2; auto simp: open_with_fallback_def)+
    with Open_session [of c "\<lambda>m. mopen m req" h1 s h2] o2 h1 c show ?thesis by auto
  qed
qed

text \<open>The request for a connection below the folders \<open>fs\<close>.\<close>

definition effective_request :: "ConnectionNode \<Rightarrow> FolderNode list \<Rightarrow> OpenRequest \<Rightarrow> bool" where
  "effective_request c fs req \<longleftrightarrow>
     FStr (or_Host req) = fst (effective (c_Inheritance c) c fs FieldHost) \<and>
     FInt (or_Port req) = fst (effective (c_Inheritance c) c fs FieldPort) \<and>
     FStr (or_Username req) = fst (effective (c_Inheritance c) c fs FieldUsername) \<and>
     (fst (effective (c_Inheritance c) c fs FieldAuthMethod) \<noteq> FStr '''' \<longrightarrow>
        FStr (or_AuthMethod req) = fst (effective (c_Inheritance c) c fs FieldAuthMethod))"

lemma open_request_effective:
  "effective_request c fs (open_request (rc_node (Resolve (c_Inheritance c) (Some c) (map Some fs))) mat)"
proof -
  let ?r = "rc_node (Resolve (c_Inheritance c) (Some c) (map Some fs))"
  have "node_field ?r f = fst (effective (c_Inheritance c) c fs f)" for f by (simp add: Resolve_effective)
  from this [of FieldHost] this [of FieldPort] this [of FieldUsername] this [of FieldAuthMethod]
  show ?thesis by (simp add: effective_request_def open_request_def) (metis fval.inject(1))
qed

lemma Ancestors_conn:
  assumes "wf_tree t" "conn_at t i = Some c"
  shows "\<exists>fs. chain (folders t) (c_ParentID c) fs \<and> Ancestors i t = Some (Inr fs)"
  using ancestors_loop_ok [OF assms(1) wf_conn(4) [OF assms]] assms wf_conn(3) [OF assms]
  by (auto simp: Ancestors_def)

lemma openSession_success:
  assumes wf: "wf_tree (a_tree a)" and c: "conn_at (a_tree a) i = Some c"
    and o: "openSessionInternal ul ctx rnd now creds mopen i inline a h = Returns r" and s: "res_out r = Inr s"
  shows "\<exists>fs req m. chain (folders (a_tree a)) (c_ParentID c) fs \<and> effective_request c fs req \<and>
    or_Secret req = adaptMaterial (op_material s) \<and> (inline = None \<or> op_material s = inline) \<and>
    modules h (op_protocol s) = Some (Some m) \<and> mopen m req = Returned (Some (inner (op_session s))) \<and>
    (FStr (op_protocol s) = fst (effective (c_Inheritance c) c fs FieldProtocolID) \<or>
     (\<exists>p. FStr p = fst (effective (c_Inheritance c) c fs FieldProtocolID) \<and> modules h p = None \<and>
        canonicalBuiltInProtocolID ul p = Some (op_protocol s)))"
proof -
  obtain fs where fs: "chain (folders (a_tree a)) (c_ParentID c) fs" "Ancestors i (a_tree a) = Some (Inr fs)"
    using Ancestors_conn [OF wf c] by blast
  let ?r = "rc_node (Resolve (c_Inheritance c) (Some c) (map Some fs))"
  let ?mat = "case inline of Some m \<Rightarrow> Inr (Some m, [])
    | None \<Rightarrow> if isRefZero (c_CredentialRef ?r) then Inr (None, [])
        else (case creds (c_CredentialRef ?r) of Inl e \<Rightarrow> Inl e
          | Inr m \<Rightarrow> Inr (m, [(blank_event EventCredentialUnlocked)\<lparr>ae_ProviderID := ProviderID (c_CredentialRef ?r)\<rparr>]))"
  have p: "c_ProtocolID ?r \<noteq> ''''" and x: "ctx"
    using o s fs(2) c by (auto simp: openSessionInternal_def Connection_def Let_def split: if_splits)
  obtain material evs where m: "?mat = Inr (material, evs)"
  proof (cases ?mat)
    case (Inl e)
    then show ?thesis using o s fs(2) c p x by (auto simp: openSessionInternal_def Connection_def Let_def)
  qed (auto intro: that)
  let ?req = "open_request ?r (adaptMaterial material)"
  obtain ro q h1 where f: "open_with_fallback ul mopen (c_ProtocolID ?r) ?req h = (ro, q, h1)" by (metis prod_cases3)
  have "ro = Inr (op_session s) \<and> q = op_protocol s \<and> op_material s = material"
    using o s fs(2) c p x m f by (cases ro) (auto simp: openSessionInternal_def Connection_def Let_def)
  with open_with_fallback_session [of ul mopen "c_ProtocolID ?r" ?req h "op_session s" q h1] f obtain md where
    mod: "modules h q = Some (Some md)" "mopen md ?req = Returned (Some (inner (op_session s)))"
      "q = c_ProtocolID ?r \<or> canonicalBuiltInProtocolID ul (c_ProtocolID ?r) = Some q \<and> modules h (c_ProtocolID ?r) = None"
    and q: "q = op_protocol s" "op_material s = material" using p by auto
  have prot: "FStr (c_ProtocolID ?r) = fst (effective (c_Inheritance c) c fs FieldProtocolID)"
    using Resolve_effective(1) [of "c_Inheritance c" c "map Some fs" FieldProtocolID] by simp
  have inl: "inline = None \<or> material = inline" using m by (cases inline) auto
  have "or_Secret ?req = adaptMaterial material" by (simp add: open_request_def)
  with fs(1) open_request_effective [of c fs "adaptMaterial material"] inl mod prot q show ?thesis by metis
qed

text \<open>No secret survives a failed opening by the protocol host.\<close>

definition wiped :: "Material option \<Rightarrow> bool" where
  "wiped mo \<longleftrightarrow> (case mo of None \<Rightarrow> True | Some m \<Rightarrow> mt_Username m = '''' \<and> mt_Password m = '''' \<and>
     mt_Domain m = '''' \<and> mt_PrivateKey m = [] \<and> mt_Passphrase m = '''' \<and> mt_OTP m = '''' \<and>
     mt_Extra m = None \<and> mt_Fields m = None)"

lemma wiped_Zeroize [simp]: "wiped (Zeroize m)" "wiped None"
  by (simp_all add: wiped_def Zeroize_def split: option.split)

lemma openSession_failure:
  assumes "openSessionInternal ul ctx rnd now creds mopen i inline a h = Returns r" "res_out r = Inl e"
  shows "wiped (res_material r) \<and> (case e of OpenProtocol _ \<Rightarrow> wiped (res_inline r) | _ \<Rightarrow> res_inline r = inline)"
  using assms
  by (auto simp: openSessionInternal_def Let_def split: if_splits sum.splits option.splits prod.splits)

subsection \<open>The default of an alias\<close>

lemma after_last_dot_plain: "CHR ''.'' \<notin> set s \<Longrightarrow> after_last_dot s = s"
proof -
  assume "CHR ''.'' \<notin> set s"
  then have "takeWhile (\<lambda>c. c \<noteq> CHR ''.'') (rev s) = rev s" by (subst takeWhile_eq_all_conv) auto
  then show ?thesis unfolding after_last_dot_def by (simp only: rev_rev_ident)
qed

lemma after_last_dot_dot: "CHR ''.'' \<notin> set s \<Longrightarrow> after_last_dot (p @ CHR ''.'' # s) = s"
proof -
  assume "CHR ''.'' \<notin> set s"
  then have "takeWhile (\<lambda>c. c \<noteq> CHR ''.'') (rev s) = rev s" by (subst takeWhile_eq_all_conv) auto
  then show ?thesis unfolding after_last_dot_def rev_append rev.simps append_assoc append_Cons append_Nil
    by (subst takeWhile_tail) (simp_all only: rev_rev_ident not_not)
qed

lemma canonical_default:
  assumes "canonicalBuiltInProtocolID ul i = Some c" "to_lower ul (trim_space i) = ''ssh''"
  shows "defaultAuthMethod c mat = (if cm_Password mat \<noteq> '''' then AuthPassword
    else if cm_PrivateKey mat \<noteq> [] then AuthPublicKey else AuthAgent)"
proof -
  have "c = ''io.goremote.protocol'' @ CHR ''.'' # ''ssh''"
    using assms by (auto simp: canonicalBuiltInProtocolID_def Let_def split: if_splits)
  then have "after_last_dot c = ''ssh''" by (simp only: after_last_dot_dot) (rule after_last_dot_dot, simp)
  then show ?thesis by (simp add: defaultAuthMethod_def)
qed

lemma alias_default:
  assumes "after_last_dot i \<noteq> ''ssh''" "after_last_dot i \<noteq> ''mosh''" "cm_Password mat = ''''"
  shows "defaultAuthMethod i mat = AuthNone"
  using assms by (simp add: defaultAuthMethod_def)

end
