(* ===== verification/SessionLife.thy ===== *)
theory SessionLife
  imports SessionOpen "HOL-Library.Sublist"
begin

text \<open>
  \<open>internal/app/sessions.go\<close>: the life of one session entry, with the goroutines that share
  it: the I/O loop, the fan-out, a watcher per subscriber, and the callers that subscribe and
  close. Every critical section is a step; the steps interleave freely. Subscribers are
  numbered in the order in which they are appended.
\<close>

subsection \<open>State\<close>

text \<open>
  \<open>l_sent\<close>, \<open>l_chunks\<close> and \<open>l_joined\<close> record what each subscriber was sent, what the fan-out read, and how much
  it had read when the subscriber was appended. \<open>FanSending c ss\<close>: the chunk still goes to \<open>ss\<close>; \<open>FanClosing ss\<close>: these are still closed.
\<close>

datatype fan = FanReading | FanSending "byte list" "nat list" | FanClosing "nat list" | FanDone

datatype io_phase = Running | Returned_io | Removed | Wiped | Published | PipesClosed | Done_io

datatype life_event = SOpened | SClosed

record life =
  l_phase :: io_phase
  l_fan :: fan
  l_inmap :: bool
  l_closed :: bool
  l_cancelled :: bool
  l_sess_closed :: bool
  l_inW_closed :: bool
  l_material :: "Material option"
  l_getting :: nat
  l_next :: nat
  l_subs :: "nat list"
  l_watch :: "nat set"
  l_leaving :: "nat set"
  l_shut :: "nat set"
  l_sent :: "nat \<Rightarrow> byte list list"
  l_chunks :: "byte list list"
  l_joined :: "nat \<Rightarrow> nat"
  l_opened :: bool
  l_events :: "life_event list"

definition new_entry :: "Material option \<Rightarrow> life" where
  "new_entry m = \<lparr>l_phase = Running, l_fan = FanReading, l_inmap = True, l_closed = False, l_cancelled = False,
     l_sess_closed = False, l_inW_closed = False, l_material = m, l_getting = 0, l_next = 0, l_subs = [],
     l_watch = {}, l_leaving = {}, l_shut = {}, l_sent = (\<lambda>_. []), l_chunks = [], l_joined = (\<lambda>_. 0), l_opened = False, l_events = []\<rparr>"

text \<open>The writer's end of the output pipe is closed by the I/O goroutine's deferred call.\<close>

definition out_ended :: "life \<Rightarrow> bool" where
  "out_ended e \<longleftrightarrow> l_phase e \<in> {PipesClosed, Done_io}"

subsection \<open>Subscribers\<close>

text \<open>\<open>close\<close>: the once guard; a second call changes nothing.\<close>

definition sub_close :: "nat \<Rightarrow> life \<Rightarrow> life" where
  "sub_close s e = e\<lparr>l_shut := insert s (l_shut e)\<rparr>"

text \<open>\<open>takes\<close>: the context is not done and the buffer has room.\<close>

definition trySend :: "bool \<Rightarrow> byte list \<Rightarrow> nat \<Rightarrow> life \<Rightarrow> life" where
  "trySend takes c s e = (if s \<in> l_shut e then e
     else if takes then e\<lparr>l_sent := (l_sent e)(s := l_sent e s @ [c])\<rparr> else e)"

definition SubscribeOutput_get :: "life \<Rightarrow> life option" where
  "SubscribeOutput_get e = (if l_inmap e then Some (e\<lparr>l_getting := Suc (l_getting e)\<rparr>) else None)"

definition SubscribeOutput_add :: "life \<Rightarrow> life" where
  "SubscribeOutput_add e = e\<lparr>l_getting := l_getting e - 1, l_next := Suc (l_next e),
     l_subs := l_subs e @ [l_next e], l_joined := (l_joined e)(l_next e := length (l_chunks e)), l_watch := insert (l_next e) (l_watch e)\<rparr>"

definition removeSub_unlink :: "nat \<Rightarrow> life \<Rightarrow> life" where
  "removeSub_unlink s e = e\<lparr>l_subs := remove1 s (l_subs e), l_watch := l_watch e - {s},
     l_leaving := insert s (l_leaving e)\<rparr>"

definition removeSub_end :: "nat \<Rightarrow> life \<Rightarrow> life" where
  "removeSub_end s e = (sub_close s e)\<lparr>l_leaving := l_leaving e - {s}\<rparr>"

subsection \<open>The fan-out\<close>

definition fanOut_read :: "byte list \<Rightarrow> life \<Rightarrow> life" where
  "fanOut_read c e = e\<lparr>l_fan := FanSending c (l_subs e), l_chunks := l_chunks e @ [c]\<rparr>"

fun fanOut_step :: "bool \<Rightarrow> life \<Rightarrow> life" where
  "fanOut_step takes e = (case l_fan e of
     FanSending c (s # ss) \<Rightarrow> (trySend takes c s e)\<lparr>l_fan := FanSending c ss\<rparr>
   | FanSending c [] \<Rightarrow> e\<lparr>l_fan := FanReading\<rparr>
   | FanClosing (s # ss) \<Rightarrow> (sub_close s e)\<lparr>l_fan := FanClosing ss\<rparr>
   | FanClosing [] \<Rightarrow> e\<lparr>l_fan := FanDone\<rparr>
   | _ \<Rightarrow> e)"

definition fanOut_eof :: "life \<Rightarrow> life" where
  "fanOut_eof e = e\<lparr>l_fan := FanClosing (l_subs e), l_subs := []\<rparr>"

subsection \<open>The I/O goroutine\<close>

text \<open>\<open>Start\<close> returned and \<open>Close\<close> was called.\<close>

definition io_returned :: "life \<Rightarrow> life" where
  "io_returned e = e\<lparr>l_phase := Returned_io, l_sess_closed := True\<rparr>"

definition removeAndPublish_delete :: "life \<Rightarrow> life" where
  "removeAndPublish_delete e = e\<lparr>l_phase := Removed, l_inmap := False\<rparr>"

definition removeAndPublish_wipe :: "life \<Rightarrow> life" where
  "removeAndPublish_wipe e = e\<lparr>l_phase := Wiped, l_material := Zeroize (l_material e)\<rparr>"

definition removeAndPublish_publish :: "life \<Rightarrow> life" where
  "removeAndPublish_publish e = e\<lparr>l_phase := Published, l_events := l_events e @ [SClosed]\<rparr>"

definition io_pipes :: "life \<Rightarrow> life" where
  "io_pipes e = e\<lparr>l_phase := PipesClosed\<rparr>"

definition io_done :: "life \<Rightarrow> life" where
  "io_done e = e\<lparr>l_phase := Done_io\<rparr>"

definition publish_opened :: "life \<Rightarrow> life" where
  "publish_opened e = e\<lparr>l_opened := True, l_events := l_events e @ [SOpened]\<rparr>"

text \<open>
  \<open>CloseSession\<close> up to the wait: \<open>None\<close> is the error that the session is not found; the flag
  says whether this call closes (and then waits for the I/O goroutine).
\<close>

definition CloseSession :: "life \<Rightarrow> (bool \<times> life) option" where
  "CloseSession e = (if \<not> l_inmap e then None
     else if l_closed e then Some (False, e)
     else Some (True, e\<lparr>l_closed := True, l_cancelled := True, l_sess_closed := True, l_inW_closed := True\<rparr>))"

text \<open>\<open>SendInput\<close> and \<open>Resize\<close> look the entry up and forward.\<close>

definition forward_to :: "(life \<Rightarrow> 'r) \<Rightarrow> life \<Rightarrow> 'r option" where
  "forward_to f e = (if l_inmap e then Some (f e) else None)"

subsection \<open>Interleavings\<close>

inductive life_step :: "life \<Rightarrow> life \<Rightarrow> bool" where
  ls_get: "SubscribeOutput_get e = Some e' \<Longrightarrow> life_step e e'"
| ls_add: "l_getting e > 0 \<Longrightarrow> life_step e (SubscribeOutput_add e)"
| ls_unlink: "s \<in> l_watch e \<Longrightarrow> life_step e (removeSub_unlink s e)"
| ls_end: "s \<in> l_leaving e \<Longrightarrow> life_step e (removeSub_end s e)"
| ls_read: "l_fan e = FanReading \<Longrightarrow> \<not> out_ended e \<Longrightarrow> life_step e (fanOut_read c e)"
| ls_fan: "l_fan e \<noteq> FanReading \<Longrightarrow> l_fan e \<noteq> FanDone \<Longrightarrow> life_step e (fanOut_step takes e)"
| ls_eof: "l_fan e = FanReading \<Longrightarrow> out_ended e \<Longrightarrow> life_step e (fanOut_eof e)"
| ls_returned: "l_phase e = Running \<Longrightarrow> life_step e (io_returned e)"
| ls_delete: "l_phase e = Returned_io \<Longrightarrow> life_step e (removeAndPublish_delete e)"
| ls_wipe: "l_phase e = Removed \<Longrightarrow> life_step e (removeAndPublish_wipe e)"
| ls_publish: "l_phase e = Wiped \<Longrightarrow> life_step e (removeAndPublish_publish e)"
| ls_pipes: "l_phase e = Published \<Longrightarrow> life_step e (io_pipes e)"
| ls_done: "l_phase e = PipesClosed \<Longrightarrow> life_step e (io_done e)"
| ls_opened: "\<not> l_opened e \<Longrightarrow> life_step e (publish_opened e)"
| ls_close: "CloseSession e = Some (True, e') \<Longrightarrow> life_step e e'"

subsection \<open>The invariant\<close>

fun fan_list :: "fan \<Rightarrow> nat list" where
  "fan_list (FanSending c ss) = ss"
| "fan_list (FanClosing ss) = ss"
| "fan_list _ = []"

fun fan_over :: "fan \<Rightarrow> bool" where
  "fan_over (FanClosing ss) = True"
| "fan_over FanDone = True"
| "fan_over _ = False"

text \<open>Every subscriber is closed, or has a watcher that will close it.\<close>

definition subs_inv :: "life \<Rightarrow> bool" where
  "subs_inv e \<longleftrightarrow> (\<forall>s < l_next e. s \<in> l_shut e \<or> s \<in> l_watch e \<or> s \<in> l_leaving e)"

text \<open>The phase of the I/O goroutine decides the map, the material and the closing event.\<close>

definition live_phases :: "io_phase set" where
  "live_phases = {Running, Returned_io, Removed, Wiped}"

definition phase_inv :: "life \<Rightarrow> bool" where
  "phase_inv e \<longleftrightarrow> (l_inmap e \<longleftrightarrow> l_phase e \<in> {Running, Returned_io}) \<and>
     (l_phase e \<notin> {Running, Returned_io, Removed} \<longrightarrow> wiped (l_material e)) \<and>
     count_list (l_events e) SClosed = (if l_phase e \<in> live_phases then 0 else 1) \<and>
     count_list (l_events e) SOpened = (if l_opened e then 1 else 0) \<and>
     (l_phase e \<noteq> Running \<longrightarrow> l_sess_closed e) \<and>
     (fan_over (l_fan e) \<longrightarrow> out_ended e)"

text \<open>What the fan-out has brought to a subscriber so far, and what each was sent of it.\<close>

definition brought :: "life \<Rightarrow> nat \<Rightarrow> byte list list" where
  "brought e s = (case l_fan e of FanSending c ss \<Rightarrow> if s \<in> set ss then butlast (l_chunks e) else l_chunks e
     | _ \<Rightarrow> l_chunks e)"

definition out_inv :: "life \<Rightarrow> bool" where
  "out_inv e \<longleftrightarrow> distinct (l_subs e) \<and> (\<forall>s \<in> set (l_subs e). s < l_next e \<and> l_joined e s \<le> length (l_chunks e)) \<and>
     (\<forall>s. subseq (l_sent e s) (drop (l_joined e s) (brought e s))) \<and> (\<forall>s \<ge> l_next e. l_sent e s = []) \<and>
     (case l_fan e of FanSending c ss \<Rightarrow> distinct ss \<and> (\<exists>cs. l_chunks e = cs @ [c] \<and>
        (\<forall>s \<in> set ss. s < l_next e \<and> l_joined e s \<le> length cs)) | _ \<Rightarrow> True)"

definition life_inv :: "life \<Rightarrow> bool" where
  "life_inv e \<longleftrightarrow> subs_inv e \<and> phase_inv e \<and> out_inv e"

lemma life_inv_init: "life_inv (new_entry m)"
  by (simp add: life_inv_def new_entry_def subs_inv_def phase_inv_def live_phases_def out_inv_def brought_def)

lemmas life_ops = SubscribeOutput_get_def SubscribeOutput_add_def removeSub_unlink_def removeSub_end_def
  fanOut_read_def fanOut_eof_def io_returned_def removeAndPublish_delete_def
  removeAndPublish_wipe_def removeAndPublish_publish_def io_pipes_def io_done_def publish_opened_def CloseSession_def
  sub_close_def trySend_def

lemma subs_inv_frame:
  assumes "subs_inv e" "l_next e' = l_next e" "l_watch e' = l_watch e" "l_leaving e' = l_leaving e"
    "l_shut e \<subseteq> l_shut e'"
  shows "subs_inv e'"
  using assms by (auto simp: subs_inv_def)

lemma subs_inv_add: "subs_inv e \<Longrightarrow> subs_inv (SubscribeOutput_add e)"
  by (auto simp: subs_inv_def SubscribeOutput_add_def less_Suc_eq)

lemma subs_inv_unlink: "subs_inv e \<Longrightarrow> subs_inv (removeSub_unlink s e)"
  by (auto simp: subs_inv_def removeSub_unlink_def)

lemma subs_inv_end: "subs_inv e \<Longrightarrow> subs_inv (removeSub_end s e)"
  by (auto simp: subs_inv_def removeSub_end_def sub_close_def)

lemma fanOut_step_frame:
  "l_next (fanOut_step takes e) = l_next e" "l_watch (fanOut_step takes e) = l_watch e"
  "l_leaving (fanOut_step takes e) = l_leaving e" "l_shut e \<subseteq> l_shut (fanOut_step takes e)"
  "l_phase (fanOut_step takes e) = l_phase e" "l_events (fanOut_step takes e) = l_events e"
  "l_inmap (fanOut_step takes e) = l_inmap e" "l_material (fanOut_step takes e) = l_material e"
  "l_opened (fanOut_step takes e) = l_opened e" "l_sess_closed (fanOut_step takes e) = l_sess_closed e"
  "l_fan e \<noteq> FanReading \<Longrightarrow> fan_over (l_fan (fanOut_step takes e)) \<Longrightarrow> fan_over (l_fan e)"
  by (auto simp: trySend_def sub_close_def split: fan.splits list.splits)

declare fanOut_step.simps [simp del]

lemma subs_inv_step:
  assumes "life_step e e'" and i: "subs_inv e"
  shows "subs_inv e'"
  using assms(1)
proof cases
  case ls_get
  then show ?thesis using i by (intro subs_inv_frame [OF i]) (auto simp: SubscribeOutput_get_def split: if_splits)
next
  case ls_close
  then show ?thesis using i by (intro subs_inv_frame [OF i]) (auto simp: CloseSession_def split: if_splits)
next
  case ls_fan
  then show ?thesis using fanOut_step_frame by (intro subs_inv_frame [OF i]) auto
qed (use i in \<open>auto intro: subs_inv_add subs_inv_unlink subs_inv_end subs_inv_frame simp: life_ops\<close>)

lemma phase_inv_frame:
  assumes "phase_inv e" "l_inmap e' = l_inmap e" "l_phase e' = l_phase e" "l_material e' = l_material e"
    "l_events e' = l_events e" "l_opened e' = l_opened e" "l_sess_closed e \<Longrightarrow> l_sess_closed e'"
    "fan_over (l_fan e') \<Longrightarrow> fan_over (l_fan e) \<or> out_ended e"
  shows "phase_inv e'"
  unfolding phase_inv_def
proof (intro conjI impI)
  show "fan_over (l_fan e') \<Longrightarrow> out_ended e'" using assms by (auto simp: phase_inv_def out_ended_def)
qed (use assms in \<open>simp_all add: phase_inv_def\<close>)

lemma phase_inv_returned: "phase_inv e \<Longrightarrow> l_phase e = Running \<Longrightarrow> phase_inv (io_returned e)"
  by (simp add: phase_inv_def io_returned_def live_phases_def out_ended_def)

lemma phase_inv_delete: "phase_inv e \<Longrightarrow> l_phase e = Returned_io \<Longrightarrow> phase_inv (removeAndPublish_delete e)"
  by (simp add: phase_inv_def removeAndPublish_delete_def live_phases_def out_ended_def)

lemma phase_inv_wipe: "phase_inv e \<Longrightarrow> l_phase e = Removed \<Longrightarrow> phase_inv (removeAndPublish_wipe e)"
  by (simp add: phase_inv_def removeAndPublish_wipe_def live_phases_def out_ended_def)

lemma phase_inv_publish: "phase_inv e \<Longrightarrow> l_phase e = Wiped \<Longrightarrow> phase_inv (removeAndPublish_publish e)"
  by (simp add: phase_inv_def removeAndPublish_publish_def live_phases_def out_ended_def)

lemma phase_inv_pipes: "phase_inv e \<Longrightarrow> l_phase e = Published \<Longrightarrow> phase_inv (io_pipes e)"
  by (simp add: phase_inv_def io_pipes_def live_phases_def out_ended_def)

lemma phase_inv_done: "phase_inv e \<Longrightarrow> l_phase e = PipesClosed \<Longrightarrow> phase_inv (io_done e)"
  by (simp add: phase_inv_def io_done_def live_phases_def out_ended_def)

lemma phase_inv_opened: "phase_inv e \<Longrightarrow> \<not> l_opened e \<Longrightarrow> phase_inv (publish_opened e)"
  by (simp add: phase_inv_def publish_opened_def out_ended_def)

lemma phase_inv_step:
  assumes "life_step e e'" and i: "phase_inv e"
  shows "phase_inv e'"
  using assms(1)
proof cases
  case ls_get
  then show ?thesis by (intro phase_inv_frame [OF i]) (auto simp: SubscribeOutput_get_def split: if_splits)
next
  case ls_close
  then show ?thesis by (intro phase_inv_frame [OF i]) (auto simp: CloseSession_def split: if_splits)
next
  case ls_fan
  then show ?thesis using fanOut_step_frame [where e = e] by (intro phase_inv_frame [OF i]) auto
next
  case ls_add
  then show ?thesis by (intro phase_inv_frame [OF i]) (simp_all add: SubscribeOutput_add_def)
next
  case ls_unlink
  then show ?thesis by (intro phase_inv_frame [OF i]) (simp_all add: removeSub_unlink_def)
next
  case ls_end
  then show ?thesis by (intro phase_inv_frame [OF i]) (simp_all add: removeSub_end_def sub_close_def)
next
  case ls_read
  then show ?thesis by (intro phase_inv_frame [OF i]) (simp_all add: fanOut_read_def)
next
  case ls_eof
  then show ?thesis by (intro phase_inv_frame [OF i]) (simp_all add: fanOut_eof_def)
qed (use i in \<open>simp_all add: phase_inv_returned phase_inv_delete phase_inv_wipe phase_inv_publish phase_inv_pipes
      phase_inv_done phase_inv_opened\<close>)

lemma out_inv_distinct: "out_inv e \<Longrightarrow> distinct (l_subs e)"
  by (simp add: out_inv_def)

lemma out_inv_frame:
  assumes "out_inv e" "distinct (l_subs e')" "set (l_subs e') \<subseteq> set (l_subs e)" "l_fan e' = l_fan e" "l_sent e' = l_sent e"
    "l_chunks e' = l_chunks e" "l_joined e' = l_joined e" "l_next e' = l_next e"
  shows "out_inv e'"
proof -
  have "brought e' s = brought e s" for s using assms(4,6) by (simp add: brought_def split: fan.split)
  then show ?thesis using assms(1-3) unfolding out_inv_def assms(4-8) by auto
qed

lemma out_inv_add:
  assumes "out_inv e"
  shows "out_inv (SubscribeOutput_add e)"
proof -
  have "brought (SubscribeOutput_add e) s = brought e s" for s
    by (simp add: brought_def SubscribeOutput_add_def split: fan.split)
  then show ?thesis using assms
    by (cases "l_fan e") (auto simp: out_inv_def SubscribeOutput_add_def less_Suc_eq)
qed

lemma out_inv_read:
  assumes "out_inv e" "l_fan e = FanReading"
  shows "out_inv (fanOut_read c e)"
proof -
  have sub: "subseq (l_sent e s) (drop (l_joined e s) (l_chunks e))" for s
    using assms by (simp add: out_inv_def brought_def)
  then have "subseq (l_sent e s) (drop (l_joined e s) (l_chunks e @ [c]))" for s
    by (simp add: list_emb_prefix)
  then show ?thesis using assms sub by (auto simp: out_inv_def fanOut_read_def brought_def)
qed

lemma out_inv_fan:
  assumes i: "out_inv e"
  shows "out_inv (fanOut_step takes e)"
proof (cases "\<exists>c s ss. l_fan e = FanSending c (s # ss)")
  case True
  then obtain c s ss where f: "l_fan e = FanSending c (s # ss)" by blast
  then obtain cs where cs: "l_chunks e = cs @ [c]" "s < l_next e" "l_joined e s \<le> length cs" "distinct (s # ss)"
    "\<forall>u \<in> set ss. u < l_next e \<and> l_joined e u \<le> length cs" using i by (auto simp: out_inv_def)
  let ?e = "fanOut_step takes e"
  have new: "l_fan ?e = FanSending c ss" "l_chunks ?e = l_chunks e" "l_joined ?e = l_joined e" "l_subs ?e = l_subs e"
    "l_next ?e = l_next e" by (simp_all add: f fanOut_step.simps trySend_def)
  have one: "subseq (l_sent e s) (drop (l_joined e s) cs)" using i f cs(1) by (auto simp: out_inv_def brought_def dest: spec [of _ s])
  then have two: "subseq (l_sent e s @ [c]) (drop (l_joined e s) cs @ [c])" "subseq (l_sent e s) (drop (l_joined e s) cs @ [c])"
    by (auto intro: list_emb_append_mono list_emb_prefix)
  have "subseq (l_sent ?e u) (drop (l_joined ?e u) (brought ?e u))" for u
  proof (cases "u = s")
    case True
    then show ?thesis using two cs(1,3,4) by (auto simp: f new brought_def fanOut_step.simps trySend_def)
  next
    case False
    then have "l_sent ?e u = l_sent e u" "brought ?e u = brought e u"
      by (simp_all add: f new brought_def fanOut_step.simps trySend_def)
    then show ?thesis using i by (simp add: out_inv_def new)
  qed
  moreover have "l_sent ?e u = []" if "u \<ge> l_next e" for u
    using i that cs(2) by (auto simp: f out_inv_def fanOut_step.simps trySend_def)
  ultimately show ?thesis using i cs unfolding out_inv_def new by auto
next
  case False
  have same: "l_sent (fanOut_step takes e) = l_sent e \<and> l_chunks (fanOut_step takes e) = l_chunks e \<and>
      l_joined (fanOut_step takes e) = l_joined e \<and> l_subs (fanOut_step takes e) = l_subs e \<and>
      l_next (fanOut_step takes e) = l_next e \<and> (\<forall>c ss. l_fan (fanOut_step takes e) \<noteq> FanSending c ss)"
    and "brought e s = l_chunks e" for s
  proof -
    show "l_sent (fanOut_step takes e) = l_sent e \<and> l_chunks (fanOut_step takes e) = l_chunks e \<and>
      l_joined (fanOut_step takes e) = l_joined e \<and> l_subs (fanOut_step takes e) = l_subs e \<and>
      l_next (fanOut_step takes e) = l_next e \<and> (\<forall>c ss. l_fan (fanOut_step takes e) \<noteq> FanSending c ss)"
    proof (cases "l_fan e")
      case (FanSending c ss)
      with False have "ss = []" by (cases ss) auto
      with FanSending show ?thesis by (simp add: fanOut_step.simps)
    next
      case (FanClosing ss)
      then show ?thesis by (cases ss) (simp_all add: fanOut_step.simps sub_close_def)
    qed (simp_all add: fanOut_step.simps)
    show "brought e s = l_chunks e"
    proof (cases "l_fan e")
      case (FanSending c ss)
      with False have "ss = []" by (cases ss) auto
      with FanSending show ?thesis by (simp add: brought_def)
    qed (simp_all add: brought_def)
  qed
  moreover have "brought (fanOut_step takes e) s = l_chunks e" for s
    using same by (cases "l_fan (fanOut_step takes e)") (simp_all add: brought_def)
  ultimately have "brought (fanOut_step takes e) s = brought e s" for s by simp
  then show ?thesis using i same unfolding out_inv_def by (cases "l_fan (fanOut_step takes e)") simp_all
qed

lemma out_inv_step:
  assumes "life_step e e'" and i: "out_inv e"
  shows "out_inv e'"
  using assms(1)
proof cases
  case ls_get
  then show ?thesis using i by (intro out_inv_frame [OF i]) (auto simp: SubscribeOutput_get_def out_inv_def split: if_splits)
next
  case ls_close
  then show ?thesis using i by (intro out_inv_frame [OF i]) (auto simp: CloseSession_def out_inv_def split: if_splits)
next
  case ls_unlink
  then show ?thesis using i by (intro out_inv_frame [OF i]) (auto simp: removeSub_unlink_def out_inv_def dest: notin_set_remove1)
next
  case ls_eof
  then show ?thesis using i by (auto simp: fanOut_eof_def out_inv_def brought_def)
next
  case ls_add
  then show ?thesis using out_inv_add [OF i] by simp
next
  case ls_read
  then show ?thesis using out_inv_read [OF i] by simp
next
  case ls_fan
  then show ?thesis using out_inv_fan [OF i] by simp
qed (use i in \<open>auto intro!: out_inv_frame [OF i] simp: life_ops out_inv_distinct\<close>)

abbreviation life_reach :: "Material option \<Rightarrow> life \<Rightarrow> bool" where
  "life_reach m \<equiv> reach (\<lambda>e. e = new_entry m) life_step"

interpretation life_sys: invariant_system "\<lambda>e. e = new_entry m" life_step life_inv
  by unfold_locales (auto simp: life_inv_def life_inv_init [unfolded life_inv_def] intro: subs_inv_step phase_inv_step out_inv_step)

subsection \<open>What the interleavings guarantee\<close>

text \<open>When the watchers are through, every subscriber's channel is closed.\<close>

lemma no_subscriber_left:
  assumes "life_reach m e" "l_watch e = {}" "l_leaving e = {}" "s < l_next e"
  shows "s \<in> l_shut e"
  using life_sys.reach_inv [OF assms(1)] assms(2-4) by (auto simp: life_inv_def subs_inv_def)

text \<open>A subscriber gets chunks that were read since it joined, in their order.\<close>

lemma output_in_order:
  assumes "life_reach m e"
  shows "subseq (l_sent e s) (drop (l_joined e s) (l_chunks e))"
proof -
  have i: "out_inv e" using life_sys.reach_inv [OF assms] by (simp add: life_inv_def)
  then have "subseq (l_sent e s) (drop (l_joined e s) (brought e s))" by (simp add: out_inv_def)
  moreover have "subseq (drop (l_joined e s) (brought e s)) (drop (l_joined e s) (l_chunks e))"
  proof (cases "brought e s = l_chunks e")
    case False
    then obtain c ss cs where "l_fan e = FanSending c ss" "s \<in> set ss" "l_chunks e = cs @ [c]" "l_joined e s \<le> length cs"
      using i by (auto simp: brought_def out_inv_def split: fan.splits if_splits)
    then show ?thesis by (simp add: brought_def list_emb_prefix)
  qed simp
  ultimately show ?thesis by (rule subseq_order.trans)
qed

text \<open>The closing event comes once, after the entry left the map and its material was wiped.\<close>

lemma closed_after_wipe:
  assumes "life_reach m e"
  shows "count_list (l_events e) SClosed \<le> 1" "count_list (l_events e) SOpened \<le> 1"
    and "SClosed \<in> set (l_events e) \<Longrightarrow> wiped (l_material e) \<and> \<not> l_inmap e \<and> l_sess_closed e"
proof -
  have p: "phase_inv e" using life_sys.reach_inv [OF assms] by (simp add: life_inv_def)
  then show "count_list (l_events e) SClosed \<le> 1" "count_list (l_events e) SOpened \<le> 1"
    by (simp_all add: phase_inv_def)
  assume "SClosed \<in> set (l_events e)"
  then have "count_list (l_events e) SClosed \<noteq> 0" by (simp add: count_list_0_iff)
  then have "l_phase e \<notin> live_phases" using p by (auto simp: phase_inv_def split: if_splits)
  then show "wiped (l_material e) \<and> \<not> l_inmap e \<and> l_sess_closed e"
    using p by (auto simp: phase_inv_def live_phases_def)
qed

text \<open>A session that ends at once is reported closed before it is reported opened.\<close>

lemma closed_before_opened:
  "\<exists>e. life_reach m e \<and> l_events e = [SClosed, SOpened]"
proof -
  let ?e1 = "io_returned (new_entry m)"
  let ?e2 = "removeAndPublish_delete ?e1"
  let ?e2' = "removeAndPublish_wipe ?e2"
  let ?e3 = "removeAndPublish_publish ?e2'"
  have "life_reach m (new_entry m)" by (rule reach_init) simp
  moreover have "life_step (new_entry m) ?e1" by (rule ls_returned) (simp add: new_entry_def)
  ultimately have "life_reach m ?e1" by (rule reach_step)
  moreover have "life_step ?e1 ?e2" by (rule ls_delete) (simp add: io_returned_def)
  ultimately have "life_reach m ?e2" by (rule reach_step)
  moreover have "life_step ?e2 ?e2'" by (rule ls_wipe) (simp add: removeAndPublish_delete_def)
  ultimately have "life_reach m ?e2'" by (rule reach_step)
  moreover have "life_step ?e2' ?e3" by (rule ls_publish) (simp add: removeAndPublish_wipe_def)
  ultimately have "life_reach m ?e3" by (rule reach_step)
  moreover have "life_step ?e3 (publish_opened ?e3)" by (rule ls_opened) (simp add: life_ops new_entry_def)
  ultimately have "life_reach m (publish_opened ?e3)" by (rule reach_step)
  moreover have "l_events (publish_opened ?e3) = [SClosed, SOpened]" by (simp add: life_ops new_entry_def)
  ultimately show ?thesis by blast
qed

end
