(* ===== verification/AppSamples.thy ===== *)
theory AppSamples
  imports Scenarios AppFaults AppPersist SessionLife
begin

text \<open>
  Concrete inputs for the properties of the application: an application with the sample tree,
  its store after a save, four random identifiers, and a connection whose protocol the sample
  protocol host knows.
\<close>

definition sample_app :: app where
  "sample_app = \<lparr>a_tree = sample_tree, a_templates = [], a_workspace = zero_workspace, a_meta = zero_meta,
     a_dirty = False, a_signal = False, a_sig_closed = False, a_started = False, a_stopped = False,
     a_root_done = False, a_events = []\<rparr>"

lemma sample_app_simps [simp]:
  "a_tree sample_app = sample_tree" "a_templates sample_app = []" "a_workspace sample_app = zero_workspace"
  "a_meta sample_app = zero_meta" "\<not> a_dirty sample_app" "\<not> a_started sample_app" "\<not> a_stopped sample_app"
  by (simp_all add: sample_app_def)

definition sample_draw :: "nat \<Rightarrow> ID" where
  "sample_draw k = (if k = 0 then 10 else if k = 1 then 11 else if k = 2 then 12 else 13)"

lemma id_bytes_small:
  "id_of_bytes [0,0,0,0,0,0,0,0,0,0,0,0,0,0,0,b] = i \<Longrightarrow> id_bytes i = [0,0,0,0,0,0,0,0,0,0,0,0,0,0,0,b]"
  using id_bytes_id_of_bytes [of "[0,0,0,0,0,0,0,0,0,0,0,0,0,0,0,b]"] by simp

lemma sample_drawn:
  "NewID 10 = 0x4000800000000000000A" "NewID 11 = 0x4000800000000000000B"
  "NewID 12 = 0x4000800000000000000C" "NewID 13 = 0x4000800000000000000D"
  using id_bytes_small [of 10 10] id_bytes_small [of 11 11] id_bytes_small [of 12 12] id_bytes_small [of 13 13]
  by (simp_all add: NewID_def id_of_bytes_def Let_def)

lemma sample_unknown: "y \<noteq> 1 \<Longrightarrow> y \<noteq> 2 \<Longrightarrow> y \<noteq> 3 \<Longrightarrow> y \<noteq> 4 \<Longrightarrow> unknown sample_tree y"
  by (simp add: unknown_def sample_tree_def)

lemma sample_draws:
  "NewID (sample_draw k) \<in> {0x4000800000000000000A, 0x4000800000000000000B, 0x4000800000000000000C,
     0x4000800000000000000D}"
  by (simp add: sample_draw_def sample_drawn)

lemma sample_draws_distinct: "inj_on (\<lambda>k. NewID (sample_draw k)) {0, 1, 2, 3}"
  by (simp add: sample_draw_def sample_drawn)

lemma sample_preorder: "length (preorder sample_tree) \<le> 4"
proof -
  have "set (preorder sample_tree) \<subseteq> {NFolder folder_1, NFolder folder_2, NConn conn_3, NConn conn_4}"
    unfolding set_preorder [OF wf_sample] by (auto simp: sample_tree_def split: if_splits)
  moreover have "distinct (preorder sample_tree)"
    using preorder_once [OF wf_sample] by (simp add: distinct_map)
  ultimately have "length (preorder sample_tree) \<le>
      card {NFolder folder_1, NFolder folder_2, NConn conn_3, NConn conn_4}"
    by (metis card_mono distinct_card finite.emptyI finite.insertI)
  also have "\<dots> \<le> 4" by (simp add: card_insert_if)
  finally show ?thesis .
qed

lemma sample_fresh: "fresh_ids sample_tree sample_draw"
  unfolding fresh_ids_def
proof (intro conjI allI)
  show "NewID (sample_draw k) \<noteq> NilID" for k
    using sample_draws [of k] by (auto simp: NilID_def)
  show "unknown sample_tree (NewID (sample_draw k))" for k
    using sample_draws [of k] by (intro sample_unknown) auto
  have "{..<length (preorder sample_tree)} \<subseteq> {0, 1, 2, 3}" using sample_preorder by auto
  with sample_draws_distinct show "inj_on (\<lambda>k. NewID (sample_draw k)) {..<length (preorder sample_tree)}"
    by (rule inj_on_subset)
qed

subsection \<open>A store\<close>

definition empty_vault :: vault where
  "empty_vault = \<lparr>v_dir = empty_dir, v_zips = Map.empty\<rparr>"

definition sample_persist :: persist where
  "sample_persist = \<lparr>ps_app = sample_app, ps_vault = empty_vault, ps_flush = NoFlush\<rparr>"

lemma sample_documents:
  assumes "encodeInventory (Some sample_tree) = WDone fl"
  shows "documents_ok (sample_json fl) 7 sample_app"
  using assms by (simp add: documents_ok_def faithful_def sample_json_def live_snapshot_def maxReadFileBytes_def)

text \<open>A new application on an empty directory.\<close>

definition fresh_app :: app where
  "fresh_app = sample_app\<lparr>a_tree := NewTree, a_meta := zero_meta\<lparr>m_Version := CurrentVersion\<rparr>\<rparr>"

definition fresh_persist :: persist where
  "fresh_persist = \<lparr>ps_app = fresh_app, ps_vault = empty_vault, ps_flush = NoFlush\<rparr>"

lemma fresh_persist_new: "New_app J (\<lambda>_. True) ''d'' empty_vault = Inr fresh_persist"
  by (simp add: New_app_def Load_def fresh_persist_def fresh_app_def empty_vault_def dir_disk_def dir_file_def
      empty_dir_def known_files_def decodeJSON_def load_files_def sample_app_def Let_def zero_meta_def decode_nothing)

text \<open>A folder is created between the save and the clearing of the flag.\<close>

definition no_opts :: FolderOpts where
  "no_opts = \<lparr>fo_Description = '''', fo_Tags = [], fo_Icon = '''', fo_Color = '''', fo_Defaults = zero_defaults\<rparr>"

lemma create_in_fresh:
  "\<exists>a'. command fresh_app None a' \<and> folders (a_tree a') \<noteq> folders (a_tree fresh_app)"
proof -
  let ?f = "new_folder 10 (\<lambda>_. 5) NilID ''new'' no_opts"
  have id: "f_ID ?f \<noteq> NilID" by (simp add: new_folder_def sample_drawn NilID_def)
  obtain t where t: "AddFolder (Some ?f) NewTree = Inr t" "folder_at t (f_ID ?f) = Some ?f"
    using id by (simp add: AddFolder_def NewTree_def append_child_def new_folder_def NilID_def)
  then obtain a' where a': "CreateFolder True 10 (\<lambda>_. 5) NilID ''new'' no_opts fresh_app = Returns (Inr (f_ID ?f), a')"
    "a_tree a' = t"
    by (simp add: CreateFolder_def fresh_app_def commit_def markDirty_def publish_app_def Let_def)
  have "command fresh_app (err_of (Inr (f_ID ?f))) a'" by (rule cmd_create_folder) (rule a'(1))
  moreover have "folder_at (a_tree fresh_app) (f_ID ?f) = None" by (simp add: fresh_app_def NewTree_def)
  ultimately show ?thesis using t(2) a'(2) by auto
qed

text \<open>A flush in which nothing fails and no command comes in between.\<close>

lemma flush_run:
  assumes r: "reach (fresh_start J) (persist_step J) (s, m)" and s: "ps_flush s = NoFlush"
    and wf: "wf_tree (a_tree (ps_app s))" and doc: "documents_ok J now (ps_app s)"
  shows "\<exists>s2. reach (fresh_start J) (persist_step J) (s2, False) \<and> ps_app s2 = ps_app s \<and>
    ps_flush s2 = Written (stamp now (a_meta (ps_app s))) \<and> stored J s2"
proof -
  let ?snap = "live_snapshot (ps_app s)"
  let ?s1 = "(flush_capture s)\<lparr>ps_flush := Saving ?snap False\<rparr>"
  have app: "ps_app ?s1 = ps_app s" by (simp add: flush_capture_def)
  have "reach (fresh_start J) (persist_step J) (flush_capture s, m)" by (rule reach_step [OF r ps_begin [OF s]])
  then have r1: "reach (fresh_start J) (persist_step J) (?s1, m)"
    by (rule reach_step) (rule ps_encode, simp add: flush_capture_def)
  have snap: "?snap = (live_snapshot (ps_app s))\<lparr>s_Tree := Some (a_tree (ps_app s))\<rparr>" by (simp add: live_snapshot_def)
  obtain s2 where s2: "flush_write J (good_env now) ?snap ?s1 = (None, s2)" "ps_app s2 = ps_app s"
    "ps_flush s2 = Written (stamp now (a_meta (ps_app s)))" "stored J s2"
    using flush_write_stores [where s = ?s1, unfolded app, OF wf doc snap] by blast
  have "persist_step J (?s1, m) (s2, \<not> sound_save J (se_now (good_env now)) ?snap (ps_app ?s1))"
    by (rule ps_write [OF _ s2(1)]) simp
  moreover have "sound_save J (se_now (good_env now)) ?snap (ps_app ?s1)"
    using wf doc by (simp add: sound_save_def app good_env_def)
  ultimately have "persist_step J (?s1, m) (s2, False)" by simp
  from reach_step [OF r1 this] s2(2-4) show ?thesis by blast
qed

lemma fresh_reached: "reach (fresh_start J) (persist_step J) (fresh_persist, False)"
  by (rule reach_init) (auto simp: fresh_start_def intro: fresh_persist_new)

lemma fresh_facts:
  "ps_flush fresh_persist = NoFlush" "wf_tree (a_tree fresh_app)" "ps_app fresh_persist = fresh_app"
  by (simp_all add: fresh_persist_def fresh_app_def wf_NewTree)

lemma fresh_documents:
  assumes "encodeInventory (Some t) = WDone fl" "a_tree a = t" "a_templates a = a_templates fresh_app"
    "a_workspace a = a_workspace fresh_app" "a_meta a = a_meta fresh_app"
  shows "documents_ok (sample_json fl) 7 a"
  using assms by (simp add: documents_ok_def faithful_def sample_json_def live_snapshot_def maxReadFileBytes_def
      fresh_app_def stamp_def zero_meta_def)

lemma gap_reached:
  assumes e: "encodeInventory (Some NewTree) = WDone fl"
  shows "\<exists>s. reach (fresh_start (sample_json fl)) (persist_step (sample_json fl)) (s, True) \<and>
    \<not> a_dirty (ps_app s) \<and> ps_flush s = NoFlush \<and> \<not> stored (sample_json fl) s"
proof -
  let ?J = "sample_json fl"
  let ?reach = "reach (fresh_start ?J) (persist_step ?J)"
  have doc: "documents_ok ?J 7 (ps_app fresh_persist)"
    by (rule fresh_documents [OF e]) (simp_all add: fresh_persist_def fresh_app_def)
  obtain s2 where r2: "?reach (s2, False)" and s2: "ps_app s2 = fresh_app"
    "ps_flush s2 = Written (stamp 7 (a_meta fresh_app))" "stored ?J s2"
    using flush_run [OF fresh_reached _ _ doc] by (auto simp: fresh_facts)
  obtain a' where a': "command fresh_app None a'" "folders (a_tree a') \<noteq> folders (a_tree fresh_app)"
    using create_in_fresh by blast
  let ?s3 = "s2\<lparr>ps_app := a'\<rparr>"
  have "s2\<lparr>ps_app := a', ps_flush := race True (ps_flush s2)\<rparr> = ?s3" by (simp add: race_def s2(2))
  then have "persist_step ?J (s2, False) (?s3, True)"
    using ps_command [of s2 None a' ?J False] a'(1) s2(1,2) by (simp add: is_written_def)
  with r2 have r3: "?reach (?s3, True)" by (rule reach_step)
  let ?s4 = "flush_finish (stamp 7 (a_meta fresh_app)) ?s3"
  have "persist_step ?J (?s3, True) (?s4, True)"
    by (rule ps_finish) (simp add: s2(2))
  with r3 have r4: "?reach (?s4, True)" by (rule reach_step)
  have "\<not> a_dirty (ps_app ?s4)" "ps_flush ?s4 = NoFlush" by (simp_all add: flush_finish_def)
  moreover have "\<not> stored ?J ?s4"
    using gap_is_lost [of s2 "stamp 7 (a_meta fresh_app)" ?J a'] s2 a'(2) by (simp add: Let_def)
  ultimately show ?thesis using r4 by blast
qed

text \<open>A folder is created in a new application, and then the state is flushed.\<close>

lemma saved_run:
  "\<exists>(J :: unit json) s. reach (fresh_start J) (persist_step J) (s, False) \<and> \<not> a_dirty (ps_app s) \<and> ps_flush s = NoFlush \<and>
    folders (a_tree (ps_app s)) \<noteq> folders NewTree"
proof -
  obtain a' where a': "command fresh_app None a'" "folders (a_tree a') \<noteq> folders (a_tree fresh_app)"
    using create_in_fresh by blast
  have o: "committed fresh_app a'" "wf_tree (a_tree a')"
    using command_outcome [OF a'(1) fresh_facts(2)] by simp_all
  obtain fl where e: "encodeInventory (Some (a_tree a')) = WDone fl" using inventory_roundtrip [OF o(2)] by blast
  let ?J = "sample_json fl"
  let ?reach = "reach (fresh_start ?J) (persist_step ?J)"
  let ?s1 = "fresh_persist\<lparr>ps_app := a'\<rparr>"
  have "fresh_persist\<lparr>ps_app := a', ps_flush := race True (ps_flush fresh_persist)\<rparr> = ?s1"
    by (simp add: race_def fresh_persist_def)
  then have "persist_step ?J (fresh_persist, False) (?s1, False)"
    using ps_command [of fresh_persist None a' ?J False] a'(1) by (simp add: fresh_facts is_written_def)
  from reach_step [OF fresh_reached this] have r1: "?reach (?s1, False)" .
  have "documents_ok ?J 7 (ps_app ?s1)"
    by (rule fresh_documents [OF e]) (simp_all add: committed_same [OF o(1)])
  from flush_run [OF r1 _ _ this] o(2) obtain s2 where s2: "?reach (s2, False)" "ps_app s2 = a'"
    "ps_flush s2 = Written (stamp 7 (a_meta a'))" by (auto simp: fresh_facts)
  let ?s3 = "flush_finish (stamp 7 (a_meta a')) s2"
  have "?reach (?s3, False)" by (rule reach_step [OF s2(1)]) (rule ps_finish [OF s2(3)])
  moreover have "\<not> a_dirty (ps_app ?s3)" "ps_flush ?s3 = NoFlush" "a_tree (ps_app ?s3) = a_tree a'"
    by (simp_all add: flush_finish_def s2(2))
  ultimately show ?thesis using a'(2) by (intro exI [of _ ?J] exI [of _ ?s3]) (simp add: fresh_app_def)
qed

text \<open>What the first save puts into an empty directory.\<close>

lemma write_all_good:
  "write_all (\<lambda>_ _. True) (map (\<lambda>(n, b). (n, Some b)) ws) d =
    (None, d\<lparr>d_files := fold (\<lambda>(n, b) m. m(n \<mapsto> b)) ws (d_files d)\<rparr>)"
proof (induction ws arbitrary: d)
  case (Cons w ws)
  obtain n b where w: "w = (n, b)" by (cases w)
  have "\<exists>st. WriteAtomic (\<lambda>_. True) [] n b d = ((None, d\<lparr>d_files := (d_files d)(n \<mapsto> b)\<rparr>), st)"
    by (simp add: WriteAtomic_def Let_def)
  then show ?case using Cons by (auto simp: w simp del: fun_upd_apply)
qed simp

definition sample_files :: "(string list \<times> byte list) list" where
  "sample_files = [([FileMeta], [4]), ([FileInventory], [1]), ([FileTemplates], [2]), ([FileWorkspace], [3])]"

text \<open>An encoding of two inventories, and the application after all its nodes were removed.\<close>

definition two_json :: "inventoryFile \<Rightarrow> inventoryFile \<Rightarrow> unit json" where
  "two_json fl fl2 = (sample_json fl)\<lparr>mi_inv := (\<lambda>f. if f = fl then Some [1] else if f = fl2 then Some [6] else None),
     um_inv := (\<lambda>b. if b = [1] then Some fl else Some fl2)\<rparr>"

definition emptied_app :: app where
  "emptied_app = sample_app\<lparr>a_tree := NewTree, a_dirty := True\<rparr>"

lemma emptied_facts: "a_tree emptied_app = NewTree" "folders (a_tree emptied_app) \<noteq> folders sample_tree"
proof -
  show "a_tree emptied_app = NewTree" by (simp add: emptied_app_def)
  have "folder_at sample_tree 1 \<noteq> folder_at NewTree 1" by (simp add: sample_tree_def NewTree_def)
  then show "folders (a_tree emptied_app) \<noteq> folders sample_tree" by (auto simp: emptied_app_def)
qed

lemma two_documents:
  assumes "encodeInventory (Some sample_tree) = WDone fl" "encodeInventory (Some NewTree) = WDone fl2"
  shows "documents_ok (two_json fl fl2) 7 sample_app" "documents_ok (two_json fl fl2) 7 emptied_app"
  using assms by (simp_all add: documents_ok_def faithful_def two_json_def sample_json_def live_snapshot_def maxReadFileBytes_def
      emptied_app_def)

lemma sample_export:
  assumes e: "encodeInventory (Some sample_tree) = WDone fl"
  shows "\<exists>p s1. ExportSnapshot (two_json fl fl2) (good_env 7) (good_backup ts t1) True sample_persist = (Inr p, s1) \<and>
    files (v_dir (ps_vault s1)) = sample_files \<and>
    length (filter is_archive (archives (ps_vault s1))) < DefaultBackupRetention"
proof -
  let ?J = "two_json fl fl2"
  let ?ws = "[(FileInventory, [1]), (FileTemplates, [2]), (FileWorkspace, [3]), (FileMeta, [4])]"
  let ?m = "fold (\<lambda>(n, b) m. m(n \<mapsto> b)) ?ws (dir_file empty_dir)"
  have "Save ?J True (\<lambda>_ _. True) True 7 (Some (live_snapshot sample_app)) (dir_disk empty_dir) =
      (None, Some ((live_snapshot sample_app)\<lparr>s_Meta := stamp 7 zero_meta\<rparr>), \<lparr>d_files = ?m, d_temps = []\<rparr>)"
    using e write_all_good [of ?ws "dir_disk empty_dir"]
    by (simp add: Save_def live_snapshot_def two_json_def sample_json_def Let_def dir_disk_def)
  moreover have "put_known \<lparr>d_files = ?m, d_temps = []\<rparr> empty_dir = empty_dir\<lparr>files := sample_files\<rparr>"
    by (simp add: put_known_def known_files_def put_file_def empty_dir_def sample_files_def
        FileInventory_def FileTemplates_def FileWorkspace_def FileMeta_def)
  ultimately have "\<exists>f1. flushNowLocked ?J (good_env 7) sample_persist = (None, f1) \<and>
      v_dir (ps_vault f1) = empty_dir\<lparr>files := sample_files\<rparr>"
    by (simp add: flushNowLocked_def flush_write_def flush_capture_def sample_persist_def empty_vault_def
        good_env_def Let_def flush_finish_def live_snapshot_def)
  then obtain f1 where f1: "flushNowLocked ?J (good_env 7) sample_persist = (None, f1)"
    "v_dir (ps_vault f1) = empty_dir\<lparr>files := sample_files\<rparr>" by blast
  obtain p v where b: "backupLocked (\<lambda>_. True) (\<lambda>_. True) ts t1 (ps_vault f1) = ((p, None), v)"
    using backupLocked_succeeds by blast
  have "archives (ps_vault f1) = []" by (simp add: archives_def f1(2) empty_dir_def)
  then have "length (filter is_archive (archives v)) < DefaultBackupRetention"
    using backupLocked_keeps(3) [OF b] by (simp add: DefaultBackupRetention_def)
  moreover have "files (v_dir v) = sample_files" using backupLocked_dir [OF b] f1(2) by simp
  ultimately show ?thesis using f1(1) b by (simp add: ExportSnapshot_def good_backup_def Backup_def)
qed

lemma sample_storable: "files d = sample_files \<Longrightarrow> storable default_limits d"
  by (simp add: storable_def sample_files_def store_path_def plain_def BackupsDirName_def default_limits_def
      FileInventory_def FileTemplates_def FileWorkspace_def FileMeta_def)

text \<open>A vault with as many archives as are kept.\<close>

definition sample_archive :: "string \<times> time \<Rightarrow> dir_entry" where
  "sample_archive a = \<lparr>e_Name = fst a @ ''.zip'', e_IsDir = False, e_ModTime = snd a\<rparr>"

definition full_vault :: vault where
  "full_vault = \<lparr>v_dir = empty_dir\<lparr>backups := Some (map sample_archive
     [(''a'', 1), (''b'', 2), (''c'', 3), (''d'', 4), (''e'', 5), (''f'', 6), (''g'', 7), (''h'', 8), (''i'', 9),
      (''j'', 10)])\<rparr>, v_zips = (\<lambda>_. Some [])\<rparr>"

lemma full_vault_facts:
  "DefaultBackupRetention \<le> length (filter is_archive (archives full_vault))"
  "distinct (map e_Name (archives full_vault))"
  "sample_archive (''a'', 1) \<in> set (archives full_vault)" "is_archive (sample_archive (''a'', 1))"
  "\<forall>e' \<in> set (archives full_vault). is_archive e' \<and> e' \<noteq> sample_archive (''a'', 1) \<longrightarrow> 1 < e_ModTime e'"
  "archive_at ''a.zip'' full_vault = Some []"
  by (simp_all add: archives_def full_vault_def sample_archive_def is_archive_def has_suffix_def
      DefaultBackupRetention_def archive_at_def)

subsection \<open>A session\<close>

definition conn_p :: ConnectionNode where
  "conn_p = conn_4\<lparr>c_ProtocolID := ''p'', c_Port := 22\<rparr>"

definition open_app :: app where
  "open_app = sample_app\<lparr>a_tree := set_conn 4 conn_p sample_tree\<rparr>"

lemma wf_open_app: "wf_tree (a_tree open_app)"
proof -
  have "\<exists>a'. UpdateConnection True (\<lambda>_. c_UpdatedAt conn_4) 4 \<lparr>cp_Name = None, cp_ProtocolID = Some ''p'', cp_Host = None,
      cp_Port = Some 22, cp_Username = None, cp_AuthMethod = None, cp_CredentialRef = None, cp_Description = None,
      cp_Tags = None, cp_Settings = None, cp_Icon = None, cp_Color = None, cp_Environment = None,
      cp_Favorite = None, cp_Inheritance = None\<rparr> sample_app = Returns (Inr (), a') \<and> a_tree a' = a_tree open_app"
    by (simp add: UpdateConnection_def Connection_def commit_def markDirty_def publish_app_def Let_def open_app_def
        conn_p_def patch_conn_def or_old_def)
  then obtain a' where "command sample_app (err_of (Inr ())) a'" "a_tree a' = a_tree open_app"
    using cmd_update_conn by blast
  with command_outcome [of sample_app None a'] show ?thesis by (simp add: wf_sample)
qed

lemma open_app_conn: "conn_at (a_tree open_app) 4 = Some conn_p"
  by (simp add: open_app_def set_conn_def)

text \<open>A module that opens the session 5 when \<open>up\<close> holds, and fails otherwise.\<close>

definition sample_open :: "bool \<Rightarrow> nat \<Rightarrow> OpenRequest \<Rightarrow> nat option call_result" where
  "sample_open up m req = (if up then Returned (Some 5) else Failed ''down'')"

abbreviation "sample_session up inline \<equiv> openSessionInternal (\<lambda>s. s) True 9 0 (\<lambda>_. Inl ''none'')
  (sample_open up) 4 inline open_app sample_proto"

lemma sample_session_result:
  "\<exists>r s. sample_session True None = Returns r \<and> res_out r = Inr s \<and> op_protocol s = ''p''"
  "\<exists>r e. sample_session False (Some mat) = Returns r \<and> res_out r = Inl (OpenProtocol e)"
proof -
  have m: "modules sample_proto ''p'' = Some (Some 7)"
    by (simp add: sample_proto_def proto_Register_add_def) (simp add: sample_manifest_def)
  have fs: "Ancestors 4 (a_tree open_app) = Some (Inr [])"
    by (simp add: Ancestors_def open_app_def set_conn_def tree_fuel_def conn_p_def NilID_def sample_tree_def
        ReverseFolders_def numeral_2_eq_2)
  let ?r = "rc_node (Resolve (c_Inheritance conn_p) (Some conn_p) [])"
  have "node_field ?r f = fst (effective (c_Inheritance conn_p) conn_p [] f)" for f
    using Resolve_effective(1) [of "c_Inheritance conn_p" conn_p "[]" f] by (simp add: present_def)
  from this [of FieldProtocolID] this [of FieldCredentialRef]
  have f: "c_ProtocolID ?r = ''p''" "c_CredentialRef ?r = zero_ref"
    by (simp_all add: effective_def conn_p_def node_defs flag_def isRefZero_def cloneRef_def map_len_def)
  note d = openSessionInternal_def Connection_def Let_def open_app_conn fs f open_with_fallback_def Open_def m
    sample_open_def isRefZero_def
  show "\<exists>r s. sample_session True None = Returns r \<and> res_out r = Inr s \<and> op_protocol s = ''p''"
    by (simp add: d zero_ref_def)
  show "\<exists>r e. sample_session False (Some mat) = Returns r \<and> res_out r = Inl (OpenProtocol e)"
    by (simp add: d)
qed

text \<open>A session with one subscriber that subscribes, runs to its end, and is released.\<close>

definition sample_life :: "Material option \<Rightarrow> life" where
  "sample_life m = removeSub_end 0 (removeSub_unlink 0 (removeAndPublish_publish (removeAndPublish_wipe
     (removeAndPublish_delete (io_returned (fanOut_step True (fanOut_read [1] (SubscribeOutput_add
       ((new_entry m)\<lparr>l_getting := 1\<rparr>)))))))))"

lemma sample_life_facts:
  "l_watch (sample_life m) = {}" "l_leaving (sample_life m) = {}" "0 < l_next (sample_life m)"
  "l_events (sample_life m) = [SClosed]" "l_sent (sample_life m) 0 = [[1]]" "l_chunks (sample_life m) = [[1]]"
  "l_joined (sample_life m) 0 = 0"
  by (simp_all add: sample_life_def life_ops new_entry_def fanOut_step.simps)

lemma sample_life_reach: "life_reach m (sample_life m)"
proof -
  let ?e1 = "(new_entry m)\<lparr>l_getting := 1\<rparr>"
  let ?e2 = "SubscribeOutput_add ?e1"
  let ?f1 = "fanOut_read [1] ?e2"
  let ?f2 = "fanOut_step True ?f1"
  let ?e3 = "io_returned ?f2"
  let ?e4 = "removeAndPublish_delete ?e3"
  let ?w = "removeAndPublish_wipe ?e4"
  let ?e5 = "removeAndPublish_publish ?w"
  let ?e6 = "removeSub_unlink 0 ?e5"
  have "life_reach m (new_entry m)" by (rule reach_init) simp
  moreover have "life_step (new_entry m) ?e1"
    by (rule ls_get) (simp add: SubscribeOutput_get_def new_entry_def)
  ultimately have "life_reach m ?e1" by (rule reach_step)
  moreover have "life_step ?e1 ?e2" by (rule ls_add) simp
  ultimately have "life_reach m ?e2" by (rule reach_step)
  moreover have "life_step ?e2 ?f1" by (rule ls_read) (simp_all add: SubscribeOutput_add_def new_entry_def out_ended_def)
  ultimately have "life_reach m ?f1" by (rule reach_step)
  moreover have "life_step ?f1 ?f2" by (rule ls_fan) (simp_all add: fanOut_read_def)
  ultimately have "life_reach m ?f2" by (rule reach_step)
  moreover have "life_step ?f2 ?e3" by (rule ls_returned) (simp add: life_ops new_entry_def fanOut_step.simps)
  ultimately have "life_reach m ?e3" by (rule reach_step)
  moreover have "life_step ?e3 ?e4" by (rule ls_delete) (simp add: io_returned_def)
  ultimately have "life_reach m ?e4" by (rule reach_step)
  moreover have "life_step ?e4 ?w" by (rule ls_wipe) (simp add: removeAndPublish_delete_def)
  ultimately have "life_reach m ?w" by (rule reach_step)
  moreover have "life_step ?w ?e5" by (rule ls_publish) (simp add: removeAndPublish_wipe_def)
  ultimately have "life_reach m ?e5" by (rule reach_step)
  moreover have "life_step ?e5 ?e6" by (rule ls_unlink) (simp add: life_ops new_entry_def fanOut_step.simps)
  ultimately have "life_reach m ?e6" by (rule reach_step)
  moreover have "life_step ?e6 (sample_life m)" unfolding sample_life_def
    by (rule ls_end) (simp add: life_ops new_entry_def fanOut_step.simps)
  ultimately show ?thesis by (rule reach_step)
qed

lemma trim_SSH: "trim_space ''SSH'' = ''SSH''"
proof -
  have "strip_space_rune space_runes ''SSH'' = None" "strip_space_rune (map rev space_runes) (rev ''SSH'') = None"
    by (simp_all add: strip_space_rune_def space_runes_def bytes_str_def upt_rec char_of_def)
  then show ?thesis by (simp add: trim_space_def trim_left_by.simps)
qed

lemma lower_char_SSH: "ord8 CHR ''S'' = 83" "ord8 CHR ''H'' = 72" "lower_char CHR ''S'' = CHR ''s''"
  "lower_char CHR ''H'' = CHR ''h''"
  by code_simp+

definition sample_secret :: Material where
  "sample_secret = \<lparr>mt_Reference = zero_ref, mt_Username = ''u'', mt_Password = ''s3'', mt_Domain = '''',
     mt_PrivateKey = [1], mt_Passphrase = ''x'', mt_OTP = '''', mt_Extra = None, mt_Fields = None, mt_ExpiresAt = 0\<rparr>"

end
