(* ===== verification/ImportSpec.thy ===== *)
theory ImportSpec
  imports ImportTree
begin

text \<open>
  What the importer is to produce, and that it does: each raw node contributes one node and a
  list of warnings (\<open>imported_conn\<close>, \<open>conn_warnings\<close>); the walk contributes them in the order of
  \<open>entries\<close>; the counters are the numbers of the warnings.
\<close>

subsection \<open>Warnings and counters\<close>

definition warning_of :: "string \<Rightarrow> string \<Rightarrow> string \<Rightarrow> string \<Rightarrow> import_warning" where
  "warning_of sev code path fld = \<lparr>iw_Severity = sev, iw_Code = code, iw_Path = path, iw_Field = fld\<rparr>"

definition coded :: "string \<Rightarrow> import_warning list \<Rightarrow> nat" where
  "coded code ws = length (filter (\<lambda>w. iw_Code w = code) ws)"

lemma coded_simps [simp]:
  "coded code [] = 0" "coded code (ws @ vs) = coded code ws + coded code vs"
  "coded code (warning_of sev c path fld # ws) = (if c = code then 1 else 0) + coded code ws"
  by (simp_all add: coded_def warning_of_def)

text \<open>The warnings are appended, and those of three codes are counted.\<close>

definition report :: "import_warning list \<Rightarrow> importer \<Rightarrow> importer" where
  "report ws i = i\<lparr>im_warnings := im_warnings i @ ws, im_stats := (im_stats i)\<lparr>
     st_ProtocolUnknown := st_ProtocolUnknown (im_stats i) + coded CodeUnknownProtocol ws,
     st_AttrUnknown := st_AttrUnknown (im_stats i) + coded CodeUnknownAttribute ws,
     st_InheritUnsupported := st_InheritUnsupported (im_stats i) + coded CodeInheritUnsupported ws\<rparr>\<rparr>"

lemma report_nil [simp]: "report [] i = i"
  by (simp add: report_def)

lemma report_report [simp]: "report vs (report ws i) = report (ws @ vs) i"
  by (simp add: report_def add.assoc)

lemma report_simps [simp]:
  "im_tree (report ws i) = im_tree i" "im_draws (report ws i) = im_draws i"
  "im_warnings (report ws i) = im_warnings i @ ws"
  "st_Folders (im_stats (report ws i)) = st_Folders (im_stats i)"
  "st_Connections (im_stats (report ws i)) = st_Connections (im_stats i)"
  by (simp_all add: report_def)

lemma warn_report:
  "code \<noteq> CodeUnknownProtocol \<Longrightarrow> code \<noteq> CodeUnknownAttribute \<Longrightarrow> code \<noteq> CodeInheritUnsupported \<Longrightarrow>
    warn sev code path fld i = report [warning_of sev code path fld] i"
  by (simp add: report_def warn_def) (simp add: warning_of_def)

lemma warn_report_attr: "warn sev CodeUnknownAttribute path fld (count_attr i) =
    report [warning_of sev CodeUnknownAttribute path fld] i"
  by (simp add: report_def warn_def count_attr_def import_codes) (simp add: warning_of_def)

lemma warn_report_protocol: "warn sev CodeUnknownProtocol path fld
    (i\<lparr>im_stats := (im_stats i)\<lparr>st_ProtocolUnknown := Suc (st_ProtocolUnknown (im_stats i))\<rparr>\<rparr>) =
    report [warning_of sev CodeUnknownProtocol path fld] i"
  by (simp add: report_def warn_def import_codes) (simp add: warning_of_def)

lemma warn_report_inherit: "warn sev CodeInheritUnsupported path fld
    (i\<lparr>im_stats := (im_stats i)\<lparr>st_InheritUnsupported := Suc (st_InheritUnsupported (im_stats i))\<rparr>\<rparr>) =
    report [warning_of sev CodeInheritUnsupported path fld] i"
  by (simp add: report_def warn_def import_codes) (simp add: warning_of_def)

lemma code_diffs [simp]:
  "CodeEncryptedPassword \<noteq> CodeUnknownProtocol" "CodeEncryptedPassword \<noteq> CodeUnknownAttribute"
  "CodeEncryptedPassword \<noteq> CodeInheritUnsupported" "CodeProtocolSetting \<noteq> CodeUnknownProtocol"
  "CodeProtocolSetting \<noteq> CodeUnknownAttribute" "CodeProtocolSetting \<noteq> CodeInheritUnsupported"
  "CodeInvalidPort \<noteq> CodeUnknownProtocol" "CodeInvalidPort \<noteq> CodeUnknownAttribute"
  "CodeInvalidPort \<noteq> CodeInheritUnsupported" "CodeExternalProtocol \<noteq> CodeUnknownProtocol"
  "CodeExternalProtocol \<noteq> CodeUnknownAttribute" "CodeExternalProtocol \<noteq> CodeInheritUnsupported"
  "''unknown_node_type'' \<noteq> CodeUnknownProtocol" "''unknown_node_type'' \<noteq> CodeUnknownAttribute"
  "''unknown_node_type'' \<noteq> CodeInheritUnsupported"
  by (simp_all add: import_codes)

subsection \<open>The connection of a raw node\<close>

definition present_settings :: "rawConnection \<Rightarrow> (string \<times> string) list \<Rightarrow> (string \<times> string) list" where
  "present_settings n ps = filter (\<lambda>(attr, key). perProtocolValue n attr \<noteq> '''') ps"

definition inherited_attrs :: "(string \<Rightarrow> string) \<Rightarrow> rawConnection \<Rightarrow> string list" where
  "inherited_attrs ul n = filter (\<lambda>a. parseBool ul (inheritanceValue n a) = Some True) allInheritanceAttrs"

definition setting_pairs :: "rawConnection \<Rightarrow> (string \<times> string) list \<Rightarrow> (string \<times> anyval) list" where
  "setting_pairs n ps = map (\<lambda>(attr, key). (key, AnyString (perProtocolValue n attr))) (present_settings n ps)"

definition inherit_pairs :: "(string \<Rightarrow> string) \<Rightarrow> string list \<Rightarrow> (string \<times> anyval) list" where
  "inherit_pairs ul names = map (\<lambda>a. (inherit_key ul a, AnyBool True))
     (filter (\<lambda>a. map_of inheritanceFieldMap a = None) names)"

definition unknown_pairs :: "(string \<Rightarrow> string) \<Rightarrow> rawConnection \<Rightarrow> (string \<times> anyval) list" where
  "unknown_pairs ul n = map (\<lambda>a. (''legacy_attr_'' @ to_lower ul a, AnyString (the (map_of (raw_Unknown n) a))))
     (unknown_names n)"

definition head_pairs :: "(string \<Rightarrow> string) \<Rightarrow> rawConnection \<Rightarrow> (string \<times> anyval) list" where
  "head_pairs ul n =
     (if raw_field n ''ID'' \<noteq> '''' then [(''legacy_id'', AnyString (raw_field n ''ID''))] else []) @
     (if raw_field n ''Protocol'' \<noteq> '''' \<and> mapProtocol ul (raw_field n ''Protocol'') = None
      then [(''legacy_protocol'', AnyString (raw_field n ''Protocol''))] else []) @
     (if raw_field n ''Password'' \<noteq> ''''
      then [(''legacy_password_blob'', AnyString (raw_field n ''Password''))] else [])"

text \<open>Everything without a field of its own, in the order it is written; later pairs win.\<close>

definition legacy_pairs :: "(string \<Rightarrow> string) \<Rightarrow> rawConnection \<Rightarrow> (string \<times> anyval) list" where
  "legacy_pairs ul n = head_pairs ul n @ setting_pairs n perProtocolSettings @
     setting_pairs n encryptedPerProtocolSettings @ inherit_pairs ul (inherited_attrs ul n) @ unknown_pairs ul n"

definition store_pairs :: "(string \<times> anyval) list \<Rightarrow> (string, anyval) gomap \<Rightarrow> (string, anyval) gomap" where
  "store_pairs kvs m = fold (\<lambda>(k, v). fmupd k v) kvs m"

definition native_fields :: "string list \<Rightarrow> Field list" where
  "native_fields names = map (\<lambda>a. the (map_of inheritanceFieldMap a))
     (filter (\<lambda>a. map_of inheritanceFieldMap a \<noteq> None) names)"

definition imported_conn :: "(string \<Rightarrow> string) \<Rightarrow> ID \<Rightarrow> ID \<Rightarrow> rawConnection \<Rightarrow> ConnectionNode" where
  "imported_conn ul new parent n = zero_conn\<lparr>c_ID := new, c_ParentID := parent, c_Name := raw_field n ''Name'',
     c_Host := raw_field n ''Hostname'', c_Username := raw_field n ''Username'',
     c_Description := raw_field n ''Descr'', c_Icon := raw_field n ''Icon'',
     c_Environment := raw_field n ''Panel'',
     c_ProtocolID := (case mapProtocol ul (raw_field n ''Protocol'') of Some p \<Rightarrow> p | None \<Rightarrow> ''''),
     c_Port := parsePort (raw_field n ''Port''),
     c_Inheritance := fold SetInherit (native_fields (inherited_attrs ul n)) (c_Inheritance zero_conn),
     c_Settings := (if legacy_pairs ul n = [] then None else Some (store_pairs (legacy_pairs ul n) fmempty))\<rparr>"

definition protocol_warnings :: "(string \<Rightarrow> string) \<Rightarrow> rawConnection \<Rightarrow> string \<Rightarrow> import_warning list" where
  "protocol_warnings ul n path =
     (if raw_field n ''Protocol'' = '''' then []
      else case mapProtocol ul (raw_field n ''Protocol'') of
          None \<Rightarrow> [warning_of SeverityWarning CodeUnknownProtocol path ''Protocol'']
        | Some p \<Rightarrow> if p = ''io.goremote.protocol.external''
            then [warning_of SeverityWarning CodeExternalProtocol path ''Protocol''] else [])"

definition attr_warnings :: "string \<Rightarrow> string \<Rightarrow> string \<Rightarrow> string list \<Rightarrow> import_warning list" where
  "attr_warnings sev code path names = map (warning_of sev code path) names"

definition conn_warnings :: "(string \<Rightarrow> string) \<Rightarrow> rawConnection \<Rightarrow> string \<Rightarrow> import_warning list" where
  "conn_warnings ul n path = protocol_warnings ul n path @
     (if raw_field n ''Port'' \<noteq> '''' \<and> parsePort (raw_field n ''Port'') = 0
      then [warning_of SeverityWarning CodeInvalidPort path ''Port''] else []) @
     (if raw_field n ''Password'' \<noteq> '''' then [warning_of SeverityWarning CodeEncryptedPassword path ''Password''] else []) @
     attr_warnings SeverityInfo CodeProtocolSetting path (map fst (present_settings n perProtocolSettings)) @
     attr_warnings SeverityWarning CodeEncryptedPassword path (map fst (present_settings n encryptedPerProtocolSettings)) @
     attr_warnings SeverityInfo CodeInheritUnsupported path
       (filter (\<lambda>a. map_of inheritanceFieldMap a = None) (inherited_attrs ul n)) @
     attr_warnings SeverityInfo CodeUnknownAttribute path (unknown_names n)"

text \<open>The steps of \<open>addConnection\<close>, one by one.\<close>

definition put_pairs :: "(string \<times> anyval) list \<Rightarrow> ConnectionNode \<Rightarrow> ConnectionNode" where
  "put_pairs kvs c = fold (\<lambda>(k, v). set_setting k v) kvs c"

lemma put_pairs_simps [simp]:
  "put_pairs [] c = c" "put_pairs (p # kvs) c = put_pairs kvs (set_setting (fst p) (snd p) c)"
  "put_pairs (kvs @ lvs) c = put_pairs lvs (put_pairs kvs c)"
  by (simp_all add: put_pairs_def split_beta)

lemma put_pairs_some: "c_Settings c = Some m \<Longrightarrow> put_pairs kvs c = c\<lparr>c_Settings := Some (store_pairs kvs m)\<rparr>"
  by (induction kvs arbitrary: c m) (simp_all add: store_pairs_def set_setting_def split_beta)

lemma set_setting_commutes:
  "set_setting k v (c\<lparr>c_Inheritance := p\<rparr>) = (set_setting k v c)\<lparr>c_Inheritance := p\<rparr>"
  "c_Inheritance (set_setting k v c) = c_Inheritance c"
  by (simp_all add: set_setting_def)

lemma conn_setting_fold:
  assumes "code \<noteq> CodeUnknownProtocol" "code \<noteq> CodeUnknownAttribute" "code \<noteq> CodeInheritUnsupported"
  shows "fold (conn_setting sev code n path) ps (c, i) = (put_pairs (setting_pairs n ps) c,
    report (attr_warnings sev code path (map fst (present_settings n ps))) i)"
proof (induction ps arbitrary: c i)
  case (Cons p ps)
  then show ?case
    by (cases p) (simp add: conn_setting_def Let_def setting_pairs_def present_settings_def attr_warnings_def
      warn_report [OF assms])
qed (simp add: setting_pairs_def present_settings_def attr_warnings_def)

lemma inherit_step:
  "inherit_attr ul n path a (c, i) =
    (if parseBool ul (inheritanceValue n a) = Some True then
       case map_of inheritanceFieldMap a of
         Some f \<Rightarrow> (c\<lparr>c_Inheritance := SetInherit f (c_Inheritance c)\<rparr>, i)
       | None \<Rightarrow> (set_setting (inherit_key ul a) (AnyBool True) c,
           report [warning_of SeverityInfo CodeInheritUnsupported path a] i)
     else (c, i))"
  by (auto simp: inherit_attr_def warn_report_inherit split: option.split)

lemma put_pairs_commutes:
  "put_pairs kvs (c\<lparr>c_Inheritance := p\<rparr>) = (put_pairs kvs c)\<lparr>c_Inheritance := p\<rparr>"
  by (induction kvs arbitrary: c) (simp_all add: set_setting_commutes)

lemma put_pairs_inheritance [simp]: "c_Inheritance (put_pairs kvs c) = c_Inheritance c"
  by (induction kvs arbitrary: c) (simp_all add: set_setting_commutes)

lemma inherit_fold:
  "fold (inherit_attr ul n path) names (c, i) =
    (let as = filter (\<lambda>a. parseBool ul (inheritanceValue n a) = Some True) names in
     ((put_pairs (inherit_pairs ul as) c)\<lparr>c_Inheritance := fold SetInherit (native_fields as) (c_Inheritance c)\<rparr>,
      report (attr_warnings SeverityInfo CodeInheritUnsupported path
        (filter (\<lambda>a. map_of inheritanceFieldMap a = None) as)) i))"
proof (induction names arbitrary: c i)
  case (Cons a names)
  show ?case
    by (cases "map_of inheritanceFieldMap a")
      (simp_all add: Cons Let_def inherit_step inherit_pairs_def native_fields_def attr_warnings_def
        put_pairs_commutes set_setting_commutes)
qed (simp add: inherit_pairs_def native_fields_def attr_warnings_def Let_def)

lemma unknown_fold:
  "fold (conn_unknown ul n path) names (c, i) =
    (put_pairs (map (\<lambda>a. (''legacy_attr_'' @ to_lower ul a, AnyString (the (map_of (raw_Unknown n) a)))) names) c,
     report (attr_warnings SeverityInfo CodeUnknownAttribute path names) i)"
  by (induction names arbitrary: c i)
    (simp_all add: conn_unknown_def warn_report_attr attr_warnings_def)

lemma unknown_fold_names: "fold (conn_unknown ul n path) (unknown_names n) (c, i) =
    (put_pairs (unknown_pairs ul n) c, report (attr_warnings SeverityInfo CodeUnknownAttribute path (unknown_names n)) i)"
  by (simp only: unknown_fold unknown_pairs_def)

lemma folder_unknown_fold:
  "emitUnknownAttrWarnings n path i =
    report (attr_warnings SeverityInfo CodeUnknownAttribute path (unknown_names n)) i"
proof -
  have "fold (\<lambda>name i. warn SeverityInfo CodeUnknownAttribute path name (count_attr i)) names i =
      report (attr_warnings SeverityInfo CodeUnknownAttribute path names) i" for names
    by (induction names arbitrary: i) (simp_all add: warn_report_attr attr_warnings_def)
  then show ?thesis by (simp add: emitUnknownAttrWarnings_def)
qed

text \<open>\<open>build_conn\<close> makes the connection and the warnings that were specified.\<close>

lemma store_pairs_empty: "store_pairs kvs fmempty = fmempty \<longleftrightarrow> kvs = []"
proof
  have "kvs = [] \<or> store_pairs kvs m \<noteq> fmempty" for m
  proof (cases kvs rule: rev_cases)
    case (snoc lvs p)
    have "fmlookup (store_pairs kvs m) (fst p) \<noteq> None" by (simp add: snoc store_pairs_def split_beta)
    then show ?thesis by (metis fmempty_lookup)
  qed simp
  then show "store_pairs kvs fmempty = fmempty \<Longrightarrow> kvs = []" by blast
qed (simp add: store_pairs_def)

lemma mapProtocol_empty [simp]: "mapProtocol ul '''' = None"
  by (simp add: mapProtocol_def)

lemma parsePort_empty [simp]: "parsePort '''' = 0"
  using trim_space_contained [of "''''"] by (simp add: parsePort_def Let_def)

definition base_conn :: "ID \<Rightarrow> ID \<Rightarrow> rawConnection \<Rightarrow> ConnectionNode" where
  "base_conn new parent n = zero_conn\<lparr>c_ID := new, c_ParentID := parent, c_Name := raw_field n ''Name'',
     c_Host := raw_field n ''Hostname'', c_Username := raw_field n ''Username'',
     c_Description := raw_field n ''Descr'', c_Icon := raw_field n ''Icon'',
     c_Environment := raw_field n ''Panel'', c_Settings := Some fmempty\<rparr>"

lemma head_steps:
  "conn_password n path (conn_port n path (conn_protocol ul n path (import_conn new parent n, i))) =
    ((put_pairs (head_pairs ul n) (base_conn new parent n))\<lparr>
       c_ProtocolID := (case mapProtocol ul (raw_field n ''Protocol'') of Some p \<Rightarrow> p | None \<Rightarrow> ''''),
       c_Port := parsePort (raw_field n ''Port'')\<rparr>,
     report (protocol_warnings ul n path @
      (if raw_field n ''Port'' \<noteq> '''' \<and> parsePort (raw_field n ''Port'') = 0
       then [warning_of SeverityWarning CodeInvalidPort path ''Port''] else []) @
      (if raw_field n ''Password'' \<noteq> '''' then [warning_of SeverityWarning CodeEncryptedPassword path ''Password'']
       else [])) i)"
proof -
  have base: "import_conn new parent n = put_pairs
      (if raw_field n ''ID'' \<noteq> '''' then [(''legacy_id'', AnyString (raw_field n ''ID''))] else []) (base_conn new parent n)"
    by (simp add: import_conn_def base_conn_def Let_def)
  obtain m where m: "import_conn new parent n = (base_conn new parent n)\<lparr>c_Settings := Some m\<rparr>"
      "put_pairs (if raw_field n ''ID'' \<noteq> '''' then [(''legacy_id'', AnyString (raw_field n ''ID''))] else [])
        (base_conn new parent n) = (base_conn new parent n)\<lparr>c_Settings := Some m\<rparr>"
    using put_pairs_some [of "base_conn new parent n" fmempty] base by (force simp: base_conn_def)
  have p: "conn_protocol ul n path (c, i) =
      ((put_pairs (if raw_field n ''Protocol'' \<noteq> '''' \<and> mapProtocol ul (raw_field n ''Protocol'') = None
          then [(''legacy_protocol'', AnyString (raw_field n ''Protocol''))] else []) c)\<lparr>
         c_ProtocolID := (case mapProtocol ul (raw_field n ''Protocol'') of Some p \<Rightarrow> p | None \<Rightarrow> '''')\<rparr>,
       report (protocol_warnings ul n path) i)" if "c_ProtocolID c = ''''" for c i
    using that by (auto simp: conn_protocol_def Let_def protocol_warnings_def warn_report warn_report_protocol
        set_setting_def split: option.splits)
  show ?thesis
    unfolding head_pairs_def put_pairs_simps m
    by (subst p) (auto simp: m(1) conn_port_def conn_password_def warn_report set_setting_def base_conn_def Let_def
        zero_conn_def)
qed

lemma build_conn_spec:
  "build_conn ul rnd n parent path i = (imported_conn ul (NewID (rnd (im_draws i))) parent n,
    report (conn_warnings ul n path) (i\<lparr>im_draws := Suc (im_draws i)\<rparr>))"
proof -
  let ?new = "NewID (rnd (im_draws i))" and ?b = "base_conn (NewID (rnd (im_draws i))) parent n"
  let ?p = "case mapProtocol ul (raw_field n ''Protocol'') of Some p \<Rightarrow> p | None \<Rightarrow> ''''"
  define c where "c = (put_pairs (head_pairs ul n) ?b)\<lparr>c_ProtocolID := ?p, c_Port := parsePort (raw_field n ''Port'')\<rparr>"
  have c: "c = ?b\<lparr>c_ProtocolID := ?p, c_Port := parsePort (raw_field n ''Port''),
      c_Settings := Some (store_pairs (head_pairs ul n) fmempty)\<rparr>"
    using put_pairs_some [of ?b fmempty "head_pairs ul n"] by (simp add: c_def base_conn_def)
  let ?kvs = "setting_pairs n perProtocolSettings @ setting_pairs n encryptedPerProtocolSettings @
      inherit_pairs ul (inherited_attrs ul n) @ unknown_pairs ul n"
  have all: "put_pairs ?kvs c = c\<lparr>c_Settings := Some (store_pairs (legacy_pairs ul n) fmempty)\<rparr>"
    by (subst put_pairs_some [where m = "store_pairs (head_pairs ul n) fmempty"])
      (simp_all add: c legacy_pairs_def store_pairs_def)
  have "build_conn ul rnd n parent path i =
      (let c' = (put_pairs ?kvs c)\<lparr>c_Inheritance := fold SetInherit (native_fields (inherited_attrs ul n)) (c_Inheritance c)\<rparr>
       in if map_len (c_Settings c') = 0 then c'\<lparr>c_Settings := None\<rparr> else c',
       report (conn_warnings ul n path) (i\<lparr>im_draws := Suc (im_draws i)\<rparr>))"
    unfolding build_conn_def head_steps Let_def c_def [symmetric]
    by (simp add: conn_setting_fold applyInheritance_def inherit_fold unknown_fold_names Let_def
        inherited_attrs_def [symmetric] put_pairs_commutes conn_warnings_def)
  also have "c_Inheritance c = c_Inheritance zero_conn" by (simp add: c base_conn_def)
  finally show ?thesis unfolding all
    by (simp add: c base_conn_def imported_conn_def Let_def store_pairs_empty zero_conn_def)
qed

subsection \<open>The nodes of a document\<close>

record entry =
  en_kind :: raw_kind
  en_ID :: ID
  en_parent :: ID
  en_path :: string
  en_raw :: rawConnection

text \<open>\<open>ids\<close> are the identifiers in the order they are drawn, \<open>k\<close> is the number drawn before.\<close>

definition drawn :: "entry list \<Rightarrow> nat" where
  "drawn es = length (filter (\<lambda>e. en_kind e \<noteq> AsSkipped) es)"

fun entries :: "(string \<Rightarrow> string) \<Rightarrow> (nat \<Rightarrow> ID) \<Rightarrow> nat \<Rightarrow> ID \<Rightarrow> string \<Rightarrow> rawConnection \<Rightarrow> entry list"
  and entries_list :: "(string \<Rightarrow> string) \<Rightarrow> (nat \<Rightarrow> ID) \<Rightarrow> nat \<Rightarrow> ID \<Rightarrow> string \<Rightarrow> rawConnection list \<Rightarrow> entry list" where
  "entries ul ids k parent ppath (RawConnection fs un kids) =
     (let n = RawConnection fs un kids; path = joinPath ppath (raw_field n ''Name'') in
      \<lparr>en_kind = raw_kind ul n, en_ID = ids k, en_parent = parent, en_path = path, en_raw = n\<rparr> #
      (if raw_kind ul n = AsFolder then entries_list ul ids (Suc k) (ids k) path kids else []))"
| "entries_list ul ids k parent path [] = []"
| "entries_list ul ids k parent path (n # ns) =
     (let es = entries ul ids k parent path n in es @ entries_list ul ids (k + drawn es) parent path ns)"

definition entry_node :: "(string \<Rightarrow> string) \<Rightarrow> entry \<Rightarrow> node" where
  "entry_node ul e = (if en_kind e = AsFolder then NFolder (import_folder ul (en_ID e) (en_parent e) (en_raw e))
     else NConn (imported_conn ul (en_ID e) (en_parent e) (en_raw e)))"

definition entry_warnings :: "(string \<Rightarrow> string) \<Rightarrow> entry \<Rightarrow> import_warning list" where
  "entry_warnings ul e = (case en_kind e of
     AsFolder \<Rightarrow> attr_warnings SeverityInfo CodeUnknownAttribute (en_path e) (unknown_names (en_raw e))
   | AsConnection \<Rightarrow> conn_warnings ul (en_raw e) (en_path e)
   | AsSkipped \<Rightarrow> [warning_of SeverityWarning ''unknown_node_type'' (en_path e) ''Type''])"

definition imported_nodes :: "(string \<Rightarrow> string) \<Rightarrow> entry list \<Rightarrow> node list" where
  "imported_nodes ul es = map (entry_node ul) (filter (\<lambda>e. en_kind e \<noteq> AsSkipped) es)"

definition of_kind :: "raw_kind \<Rightarrow> entry list \<Rightarrow> nat" where
  "of_kind k es = length (filter (\<lambda>e. en_kind e = k) es)"

text \<open>What the entries make of an importer.\<close>

definition enter :: "(string \<Rightarrow> string) \<Rightarrow> entry list \<Rightarrow> importer \<Rightarrow> importer" where
  "enter ul es i = report (concat (map (entry_warnings ul) es))
     (i\<lparr>im_tree := fold with_node (imported_nodes ul es) (im_tree i), im_draws := im_draws i + drawn es,
       im_stats := (im_stats i)\<lparr>st_Folders := st_Folders (im_stats i) + of_kind AsFolder es,
         st_Connections := st_Connections (im_stats i) + of_kind AsConnection es\<rparr>\<rparr>)"

lemma entry_lists [simp]:
  "drawn [] = 0" "drawn (es @ fs) = drawn es + drawn fs"
  "imported_nodes ul [] = []" "imported_nodes ul (es @ fs) = imported_nodes ul es @ imported_nodes ul fs"
  "of_kind k [] = 0" "of_kind k (es @ fs) = of_kind k es + of_kind k fs"
  by (simp_all add: drawn_def imported_nodes_def of_kind_def)

lemma enter_nil [simp]: "enter ul [] i = i"
  by (simp add: enter_def)

lemma enter_append: "enter ul (es @ fs) i = enter ul fs (enter ul es i)"
  by (simp add: enter_def report_def)

lemma enter_simps [simp]:
  "im_tree (enter ul es i) = fold with_node (imported_nodes ul es) (im_tree i)"
  "im_draws (enter ul es i) = im_draws i + drawn es"
  by (simp_all add: enter_def)

lemma with_node_ok:
  assumes wf: "wf_tree t" and n: "is_node n" "nid n \<noteq> NilID" "unknown t (nid n)" "old_folder t (npar n)"
  shows "wf_tree (with_node n t)" "extends t (with_node n t)"
    "n = NFolder f \<Longrightarrow> AddFolder (Some f) t = Inr (with_node n t)"
    "n = NConn c \<Longrightarrow> AddConnection (Some c) t = Inr (with_node n t)"
proof -
  have "add_copy n (dup_init t) = WDone ((dup_init t)\<lparr>ds_tree := with_node n t\<rparr>)"
    using add_copy_ok(1) [of "dup_init t" n] assms by (simp add: dup_init_def)
  then show "n = NFolder f \<Longrightarrow> AddFolder (Some f) t = Inr (with_node n t)"
    "n = NConn c \<Longrightarrow> AddConnection (Some c) t = Inr (with_node n t)"
    by (auto simp: add_copy_def dup_init_def split: sum.splits)
  show "wf_tree (with_node n t)" using add_copy_ok(2) [of "dup_init t" n] assms by (simp add: dup_init_def)
  show "extends t (with_node n t)" by (rule extends_with_node) (use n in simp_all)
qed

text \<open>
  The identifiers that will be drawn up to \<open>N\<close> are new and distinct: what the random source
  gives with overwhelming probability.
\<close>

definition id_supply :: "(nat \<Rightarrow> ID) \<Rightarrow> nat \<Rightarrow> importer \<Rightarrow> bool" where
  "id_supply ids N i \<longleftrightarrow> wf_tree (im_tree i) \<and> inj_on ids {im_draws i..<N} \<and>
     (\<forall>j. im_draws i \<le> j \<and> j < N \<longrightarrow> ids j \<noteq> NilID \<and> unknown (im_tree i) (ids j))"

lemma import_ids [simp]:
  "f_ID (import_folder ul new parent n) = new" "f_ParentID (import_folder ul new parent n) = parent"
  "c_ID (imported_conn ul new parent n) = new" "c_ParentID (imported_conn ul new parent n) = parent"
  by (simp_all add: import_folder_def imported_conn_def)

lemma entry_node_simps [simp]:
  "is_node (entry_node ul e)" "nid (entry_node ul e) = en_ID e" "npar (entry_node ul e) = en_parent e"
  by (simp_all add: entry_node_def)

lemma id_supply_enter_one:
  assumes "id_supply ids N i" "im_draws i < N" "en_kind e \<noteq> AsSkipped" "en_ID e = ids (im_draws i)"
    "old_folder (im_tree i) (en_parent e)"
  shows "id_supply ids N (enter ul [e] i)" "extends (im_tree i) (im_tree (enter ul [e] i))"
    "im_tree (enter ul [e] i) = with_node (entry_node ul e) (im_tree i)"
proof -
  let ?n = "entry_node ul e"
  have tree: "im_tree (enter ul [e] i) = with_node ?n (im_tree i)" "im_draws (enter ul [e] i) = Suc (im_draws i)"
    using assms(3) by (simp_all add: imported_nodes_def drawn_def)
  have n: "wf_tree (im_tree i)" "is_node ?n" "nid ?n \<noteq> NilID" "unknown (im_tree i) (nid ?n)"
    "old_folder (im_tree i) (npar ?n)" using assms by (simp_all add: id_supply_def)
  show "im_tree (enter ul [e] i) = with_node ?n (im_tree i)" by (rule tree(1))
  show "extends (im_tree i) (im_tree (enter ul [e] i))" unfolding tree by (rule with_node_ok(2) [OF n])
  have "unknown (with_node ?n (im_tree i)) (ids j)" if j: "Suc (im_draws i) \<le> j" "j < N" for j
  proof -
    have "inj_on ids {im_draws i..<N}" "unknown (im_tree i) (ids j)" using assms(1) j by (simp_all add: id_supply_def)
    then have "ids j \<noteq> en_ID e" "unknown (im_tree i) (ids j)"
      using assms(2,4) j by (auto dest: inj_onD [where x = j and y = "im_draws i"])
    then show ?thesis using n(4) by (simp add: unknown_find FindByID_with_node [OF n(2,4)])
  qed
  moreover have "inj_on ids {Suc (im_draws i)..<N}"
    using assms(1) by (auto simp: id_supply_def intro: inj_on_subset)
  ultimately show "id_supply ids N (enter ul [e] i)"
    using assms(1) with_node_ok(1) [OF n] unfolding id_supply_def tree by simp
qed

subsection \<open>The walk enters the entries\<close>

lemma old_folder_extends: "extends t u \<Longrightarrow> old_folder t q \<Longrightarrow> old_folder u q"
  by (auto simp: old_folder_def extends_def)

lemma addFolder_enter:
  assumes s: "id_supply (NewID \<circ> rnd) N i" "im_draws i < N" and p: "old_folder (im_tree i) parent"
  shows "addFolder ul rnd n parent path i = (NewID (rnd (im_draws i)), enter ul
    [\<lparr>en_kind = AsFolder, en_ID = NewID (rnd (im_draws i)), en_parent = parent, en_path = path, en_raw = n\<rparr>] i)"
proof -
  let ?f = "import_folder ul (NewID (rnd (im_draws i))) parent n"
  have "NewID (rnd (im_draws i)) \<noteq> NilID \<and> unknown (im_tree i) (NewID (rnd (im_draws i)))"
    using s unfolding id_supply_def by (elim conjE allE [of _ "im_draws i"]) simp
  then have "AddFolder (Some ?f) (im_tree i) = Inr (with_node (NFolder ?f) (im_tree i))"
    using s(1) p by (intro with_node_ok(3)) (simp_all add: id_supply_def)
  then show ?thesis
    by (simp add: addFolder_def Let_def folder_unknown_fold enter_def imported_nodes_def entry_node_def
        entry_warnings_def drawn_def of_kind_def report_def)
qed

lemma addConnection_enter:
  assumes s: "id_supply (NewID \<circ> rnd) N i" "im_draws i < N" and p: "old_folder (im_tree i) parent"
  shows "addConnection ul rnd n parent path i = enter ul
    [\<lparr>en_kind = AsConnection, en_ID = NewID (rnd (im_draws i)), en_parent = parent, en_path = path, en_raw = n\<rparr>] i"
proof -
  let ?c = "imported_conn ul (NewID (rnd (im_draws i))) parent n"
  have "NewID (rnd (im_draws i)) \<noteq> NilID \<and> unknown (im_tree i) (NewID (rnd (im_draws i)))"
    using s unfolding id_supply_def by (elim conjE allE [of _ "im_draws i"]) simp
  then have "AddConnection (Some ?c) (im_tree i) = Inr (with_node (NConn ?c) (im_tree i))"
    using s(1) p by (intro with_node_ok(4)) (simp_all add: id_supply_def)
  then show ?thesis
    by (simp add: addConnection_def build_conn_spec enter_def imported_nodes_def entry_node_def
        entry_warnings_def drawn_def of_kind_def report_def)
qed

lemma drawn_Cons: "drawn (e # es) = (if en_kind e = AsSkipped then 0 else 1) + drawn es"
  by (simp add: drawn_def)

lemma enter_Cons: "enter ul (e # es) i = enter ul es (enter ul [e] i)"
  using enter_append [of ul "[e]" es i] by simp

text \<open>The three facts about a piece of the walk, as the function \<open>f\<close> on the importer.\<close>

definition enters :: "(string \<Rightarrow> string) \<Rightarrow> (nat \<Rightarrow> ID) \<Rightarrow> nat \<Rightarrow> entry list \<Rightarrow> importer \<Rightarrow> importer \<Rightarrow> bool" where
  "enters ul ids N es i i' \<longleftrightarrow> i' = enter ul es i \<and> id_supply ids N i' \<and> extends (im_tree i) (im_tree i')"

lemma extends_trans: "extends t u \<Longrightarrow> extends u w \<Longrightarrow> extends t w"
  by (simp add: extends_def)

lemma enters_append:
  "enters ul ids N es i i1 \<Longrightarrow> enters ul ids N fs i1 i2 \<Longrightarrow> enters ul ids N (es @ fs) i i2"
  by (auto simp: enters_def enter_append intro: extends_trans)

lemma entersD:
  assumes "enters ul ids N es i i'"
  shows "id_supply ids N i'" "im_draws i' = im_draws i + drawn es" "extends (im_tree i) (im_tree i')"
    "i' = enter ul es i"
  using assms by (auto simp: enters_def)

lemma enters_one:
  assumes "id_supply ids N i" "old_folder (im_tree i) parent" "im_draws i < N" "k \<noteq> AsSkipped"
    "e = \<lparr>en_kind = k, en_ID = ids (im_draws i), en_parent = parent, en_path = path, en_raw = n\<rparr>"
  shows "enters ul ids N [e] i (enter ul [e] i)"
  using id_supply_enter_one [OF assms(1,3), of e] assms by (simp add: enters_def)

lemma enters_skipped: "id_supply ids N i \<Longrightarrow> en_kind e = AsSkipped \<Longrightarrow> enters ul ids N [e] i (enter ul [e] i)"
  by (simp add: enters_def imported_nodes_def id_supply_def drawn_def)

lemma walk_enters:
  "id_supply (NewID \<circ> rnd) N i \<Longrightarrow> old_folder (im_tree i) parent \<Longrightarrow>
    im_draws i + drawn (entries ul (NewID \<circ> rnd) (im_draws i) parent ppath n) \<le> N \<Longrightarrow>
    enters ul (NewID \<circ> rnd) N (entries ul (NewID \<circ> rnd) (im_draws i) parent ppath n) i
      (walk_raw ul rnd n parent ppath i)"
  "id_supply (NewID \<circ> rnd) N i \<Longrightarrow> old_folder (im_tree i) parent \<Longrightarrow>
    im_draws i + drawn (entries_list ul (NewID \<circ> rnd) (im_draws i) parent path ns) \<le> N \<Longrightarrow>
    enters ul (NewID \<circ> rnd) N (entries_list ul (NewID \<circ> rnd) (im_draws i) parent path ns) i
      (walk_raws ul rnd ns parent path i)"
proof (induction ul rnd n parent ppath i and ul rnd ns parent path i rule: walk_raw_walk_raws.induct)
  case (1 ul rnd fs un kids parent ppath i)
  let ?n = "RawConnection fs un kids" and ?ids = "NewID \<circ> rnd"
  let ?path = "joinPath ppath (raw_field ?n ''Name'')"
  let ?e = "\<lparr>en_kind = raw_kind ul ?n, en_ID = ?ids (im_draws i), en_parent = parent, en_path = ?path, en_raw = ?n\<rparr>"
  show ?case
  proof (cases "raw_kind ul ?n")
    case AsFolder
    let ?i = "enter ul [?e] i"
    have lt: "im_draws i < N" using 1(4) AsFolder by (simp add: Let_def drawn_Cons)
    have add: "addFolder ul rnd ?n parent ?path i = (?ids (im_draws i), ?i)"
      using addFolder_enter [OF 1(2) lt 1(3), of ul ?n ?path] AsFolder by simp
    have e: "enters ul ?ids N [?e] i ?i" by (rule enters_one [OF 1(2,3) lt]) (simp_all add: AsFolder)
    have d: "im_draws ?i = Suc (im_draws i)" by (simp add: AsFolder drawn_Cons)
    have s: "id_supply ?ids N ?i" using e by (simp only: enters_def)
    have o: "old_folder (im_tree ?i) (?ids (im_draws i))"
      by (simp add: AsFolder imported_nodes_def old_folder_def entry_node_def)
    have "im_draws ?i + drawn (entries_list ul ?ids (im_draws ?i) (?ids (im_draws i)) ?path kids) \<le> N"
      unfolding d using 1(4) by (simp add: AsFolder Let_def drawn_Cons o_def)
    note ih = 1(1) [OF refl refl AsFolder add [symmetric] s o this, unfolded d]
    from enters_append [OF e ih] show ?thesis using add by (simp add: Let_def AsFolder)
  next
    case AsConnection
    then have lt: "im_draws i < N" using 1(4) by (simp add: Let_def drawn_Cons)
    have "addConnection ul rnd ?n parent ?path i = enter ul [?e] i"
      using addConnection_enter [OF 1(2) lt 1(3), of ul ?n ?path] AsConnection by simp
    then show ?thesis using enters_one [OF 1(2,3) lt, of AsConnection ?e ?path ?n ul] AsConnection
      by (simp add: Let_def)
  next
    case AsSkipped
    have "warn SeverityWarning ''unknown_node_type'' ?path ''Type'' i = enter ul [?e] i"
      by (simp add: warn_report enter_def AsSkipped imported_nodes_def drawn_def of_kind_def entry_warnings_def)
    then show ?thesis using enters_skipped [OF 1(2), of ?e ul] AsSkipped by (simp add: Let_def)
  qed
next
  case (2 ul rnd parent path i)
  then show ?case by (simp add: enters_def)
next
  case (3 ul rnd n ns parent path i)
  let ?ids = "NewID \<circ> rnd" and ?i = "walk_raw ul rnd n parent path i"
  let ?es = "entries ul ?ids (im_draws i) parent path n"
  have le: "im_draws i + drawn ?es \<le> N" using 3(5) by (simp add: Let_def o_def)
  have a: "enters ul ?ids N ?es i ?i" by (rule 3(1) [OF 3(3,4) le])
  then have s: "id_supply ?ids N ?i" and d: "im_draws ?i = im_draws i + drawn ?es"
    and x: "extends (im_tree i) (im_tree ?i)" by (rule entersD)+
  have "im_draws ?i + drawn (entries_list ul ?ids (im_draws ?i) parent path ns) \<le> N"
    unfolding d using 3(5) by (simp add: Let_def o_def add.assoc)
  note ih = 3(2) [OF s old_folder_extends [OF x 3(4)] this, unfolded d]
  from enters_append [OF a ih] show ?case by (simp only: walk_raws.simps entries_list.simps Let_def)
qed

subsection \<open>The imported tree\<close>

lemma entry_ids:
  "map en_ID (filter (\<lambda>e. en_kind e \<noteq> AsSkipped) (entries ul ids k parent ppath n)) =
    map ids [k..<k + drawn (entries ul ids k parent ppath n)]"
  "map en_ID (filter (\<lambda>e. en_kind e \<noteq> AsSkipped) (entries_list ul ids k parent path ns)) =
    map ids [k..<k + drawn (entries_list ul ids k parent path ns)]"
proof (induction ul ids k parent ppath n and ul ids k parent path ns rule: entries_entries_list.induct)
  case (1 ul ids k parent ppath fs un kids)
  have upt: "[k..<k + Suc d] = k # [Suc k..<Suc k + d]" for d by (subst upt_conv_Cons) simp_all
  show ?case
  proof (cases "raw_kind ul (RawConnection fs un kids)")
    case AsFolder
    from 1 [OF refl refl AsFolder] show ?thesis by (simp add: AsFolder Let_def drawn_Cons upt del: upt_Suc add_Suc_right)
  qed (simp_all add: Let_def drawn_def)
next
  case (3 ul ids k parent path n ns)
  show ?case
    using 3(1) 3(2) [OF refl] by (simp add: Let_def upt_add_eq_append [OF le_add1] flip: add.assoc)
qed simp

lemma find_with_nodes:
  assumes "list_all is_node ns" "distinct (map nid ns)" "list_all (\<lambda>n. unknown t (nid n)) ns"
  shows "FindByID y (fold with_node ns t) = Inr m \<longleftrightarrow> m \<in> set ns \<and> nid m = y \<or> FindByID y t = Inr m"
  using assms
proof (induction ns arbitrary: t)
  case (Cons n ns)
  have n: "is_node n" "unknown t (nid n)" using Cons.prems by simp_all
  have "nid k \<noteq> nid n" if "k \<in> set ns" for k
    using Cons.prems(2) that by (metis distinct.simps(2) image_eqI list.set_map list.simps(9))
  then have "list_all (\<lambda>k. unknown (with_node n t) (nid k)) ns"
    using Cons.prems(3) by (simp add: list_all_iff unknown_find FindByID_with_node [OF n])
  moreover have "FindByID (nid n) t \<noteq> Inr m" using n(2) by (simp add: unknown_find)
  ultimately show ?case using Cons FindByID_with_node [OF n] by auto
qed simp

text \<open>The identifiers drawn for an import.\<close>

definition new_draws :: "(nat \<Rightarrow> ID) \<Rightarrow> nat \<Rightarrow> bool" where
  "new_draws rnd N \<longleftrightarrow> inj_on (NewID \<circ> rnd) {..<N} \<and> (\<forall>j < N. NewID (rnd j) \<noteq> NilID)"

definition holds_entries :: "(string \<Rightarrow> string) \<Rightarrow> entry list \<Rightarrow> Tree \<Rightarrow> bool" where
  "holds_entries ul es t \<longleftrightarrow> wf_tree t \<and> (\<forall>y n. FindByID y t = Inr n \<longleftrightarrow>
     (\<exists>e \<in> set es. en_kind e \<noteq> AsSkipped \<and> en_ID e = y \<and> entry_node ul e = n))"

lemma unknown_NewTree [simp]: "unknown NewTree y" "folder_at NewTree y = None" "conn_at NewTree y = None"
  by (simp_all add: unknown_def NewTree_def)

lemma newImporter_simps [simp]: "im_tree newImporter = NewTree" "im_draws newImporter = 0"
  "im_warnings newImporter = []"
  by (simp_all add: newImporter_def)

lemma supply_start: "new_draws rnd N \<Longrightarrow> id_supply (NewID \<circ> rnd) N newImporter"
  by (simp add: new_draws_def id_supply_def wf_NewTree lessThan_atLeast0)

lemma entered_tree:
  assumes e: "enters ul (NewID \<circ> rnd) N es newImporter i"
    and ids: "map en_ID (filter (\<lambda>e. en_kind e \<noteq> AsSkipped) es) = map (NewID \<circ> rnd) [0..<N]"
    and new: "new_draws rnd N"
  shows "holds_entries ul es (im_tree i)"
proof -
  have nodes: "map nid (imported_nodes ul es) = map (NewID \<circ> rnd) [0..<N]"
    using ids by (simp add: imported_nodes_def o_def)
  have "distinct (map nid (imported_nodes ul es))"
    using new unfolding nodes by (simp add: distinct_map new_draws_def lessThan_atLeast0)
  then have "FindByID y (im_tree i) = Inr n \<longleftrightarrow> n \<in> set (imported_nodes ul es) \<and> nid n = y" for y n
    unfolding entersD(4) [OF e] enter_simps
    by (subst find_with_nodes) (auto simp: list_all_iff imported_nodes_def FindByID_def)
  moreover have "wf_tree (im_tree i)" using entersD(1) [OF e] by (simp only: id_supply_def)
  ultimately show ?thesis by (auto simp: holds_entries_def imported_nodes_def)
qed

text \<open>Everything the importer reports about the entries.\<close>

definition reports_entries :: "(string \<Rightarrow> string) \<Rightarrow> entry list \<Rightarrow> importer \<Rightarrow> bool" where
  "reports_entries ul es i \<longleftrightarrow> im_warnings i = concat (map (entry_warnings ul) es) \<and>
     im_stats i = \<lparr>st_Folders = of_kind AsFolder es, st_Connections = of_kind AsConnection es,
       st_ProtocolUnknown = coded CodeUnknownProtocol (im_warnings i),
       st_AttrUnknown = coded CodeUnknownAttribute (im_warnings i),
       st_InheritUnsupported = coded CodeInheritUnsupported (im_warnings i)\<rparr>"

lemma enter_reports: "reports_entries ul es (enter ul es newImporter)"
  by (simp add: reports_entries_def enter_def newImporter_def report_def)

definition document_entries :: "(string \<Rightarrow> string) \<Rightarrow> (nat \<Rightarrow> ID) \<Rightarrow> rawConnection list \<Rightarrow> entry list" where
  "document_entries ul rnd roots = entries_list ul (NewID \<circ> rnd) 0 NilID '''' roots"

lemma import_roots_result:
  assumes "new_draws rnd (drawn (document_entries ul rnd roots))"
  shows "holds_entries ul (document_entries ul rnd roots) (im_tree (import_roots ul rnd roots))"
    "reports_entries ul (document_entries ul rnd roots) (import_roots ul rnd roots)"
proof -
  let ?es = "document_entries ul rnd roots"
  have e: "enters ul (NewID \<circ> rnd) (drawn ?es) ?es newImporter (import_roots ul rnd roots)"
    using walk_enters(2) [OF supply_start [OF assms], of NilID ul "''''" roots]
    by (simp add: import_roots_def document_entries_def old_folder_def)
  show "holds_entries ul ?es (im_tree (import_roots ul rnd roots))"
    by (rule entered_tree [OF e _ assms]) (use entry_ids(2) [of ul _ 0] in \<open>simp add: document_entries_def\<close>)
  show "reports_entries ul ?es (import_roots ul rnd roots)"
    unfolding entersD(4) [OF e] by (rule enter_reports)
qed

text \<open>The rows of a CSV file, all at the root.\<close>

definition row_entries :: "(nat \<Rightarrow> ID) \<Rightarrow> nat \<Rightarrow> rawConnection list \<Rightarrow> entry list" where
  "row_entries rnd k rows = map (\<lambda>(j, r). \<lparr>en_kind = AsConnection, en_ID = NewID (rnd j), en_parent = NilID,
     en_path = '''', en_raw = r\<rparr>) (zip [k..<k + length rows] rows)"

lemma rows_enter:
  assumes "id_supply (NewID \<circ> rnd) N i" "im_draws i + length rows \<le> N"
  shows "enters ul (NewID \<circ> rnd) N (row_entries rnd (im_draws i) rows) i
    (fold (\<lambda>r. addConnection ul rnd r NilID '''') rows i)"
  using assms
proof (induction rows arbitrary: i)
  case (Cons r rows)
  let ?e = "\<lparr>en_kind = AsConnection, en_ID = NewID (rnd (im_draws i)), en_parent = NilID, en_path = '''', en_raw = r\<rparr>"
  have root: "old_folder t NilID" for t by (simp add: old_folder_def)
  have lt: "im_draws i < N" using Cons.prems(2) by simp
  have add: "addConnection ul rnd r NilID '''' i = enter ul [?e] i"
    using addConnection_enter [OF Cons.prems(1) lt root, of ul r "''''"] by simp
  have e: "enters ul (NewID \<circ> rnd) N [?e] i (enter ul [?e] i)"
    by (rule enters_one [OF Cons.prems(1) root lt]) simp_all
  have d: "im_draws (enter ul [?e] i) = Suc (im_draws i)" by (simp add: drawn_Cons)
  have le: "im_draws (enter ul [?e] i) + length rows \<le> N" unfolding d using Cons.prems(2) by simp
  have "row_entries rnd (im_draws i) (r # rows) = [?e] @ row_entries rnd (Suc (im_draws i)) rows"
    by (simp add: row_entries_def upt_conv_Cons del: upt_Suc)
  then show ?case unfolding fold_Cons comp_apply add
    using enters_append [OF e Cons.IH [OF entersD(1) [OF e] le, unfolded d]] by simp
qed (simp add: enters_def row_entries_def)

lemma import_rows_result:
  assumes "new_draws rnd (length rows)"
  shows "holds_entries ul (row_entries rnd 0 rows) (im_tree (import_rows ul rnd rows))"
    "reports_entries ul (row_entries rnd 0 rows) (import_rows ul rnd rows)"
proof -
  let ?es = "row_entries rnd 0 rows"
  have e: "enters ul (NewID \<circ> rnd) (length rows) ?es newImporter (import_rows ul rnd rows)"
    using rows_enter [OF supply_start [OF assms], of rows ul] by (simp add: import_rows_def)
  have "filter (\<lambda>e. en_kind e \<noteq> AsSkipped) ?es = ?es"
    by (rule filter_True) (auto simp: row_entries_def)
  moreover have "map en_ID ?es = map (NewID \<circ> rnd) [0..<length rows]"
    by (rule nth_equalityI) (simp_all add: row_entries_def)
  ultimately show "holds_entries ul ?es (im_tree (import_rows ul rnd rows))"
    by (intro entered_tree [OF e _ assms]) simp
  show "reports_entries ul ?es (import_rows ul rnd rows)"
    unfolding entersD(4) [OF e] by (rule enter_reports)
qed

end
