(* ===== verification/ImportApp.thy ===== *)
theory ImportApp
  imports ImportSpec
begin

text \<open>
  What an import keeps: settings, flags and passwords of a connection under their keys, the
  nodes of the document in the application's tree.
\<close>

subsection \<open>Settings\<close>

text \<open>The values that have a fixed key, with the key; an empty value is not stored.\<close>

definition fixed_values :: "(string \<Rightarrow> string) \<Rightarrow> rawConnection \<Rightarrow> (string \<times> string) list" where
  "fixed_values ul n =
    [(''legacy_id'', raw_field n ''ID''),
     (''legacy_protocol'', if mapProtocol ul (raw_field n ''Protocol'') = None then raw_field n ''Protocol'' else ''''),
     (''legacy_password_blob'', raw_field n ''Password'')] @
    map (\<lambda>(attr, key). (key, perProtocolValue n attr)) (perProtocolSettings @ encryptedPerProtocolSettings)"

definition setting_of :: "ConnectionNode \<Rightarrow> string \<Rightarrow> anyval option" where
  "setting_of c k = (case c_Settings c of None \<Rightarrow> None | Some m \<Rightarrow> fmlookup m k)"

definition fixed_keys :: "string list" where
  "fixed_keys = [''legacy_id'', ''legacy_protocol'', ''legacy_password_blob''] @
     map snd (perProtocolSettings @ encryptedPerProtocolSettings)"

lemma fixed_keys: "map fst (fixed_values ul n) = fixed_keys"
  by (simp add: fixed_values_def fixed_keys_def split_beta o_def)

lemma fixed_keys_distinct: "distinct fixed_keys"
  by (simp add: fixed_keys_def perProtocolSettings_def encryptedPerProtocolSettings_def)

lemma fixed_keys_apart:
  "list_all (\<lambda>k. \<not> has_prefix k ''legacy_inherit_'' \<and> \<not> has_prefix k ''legacy_attr_'') fixed_keys"
  by (simp add: fixed_keys_def perProtocolSettings_def encryptedPerProtocolSettings_def)

lemma store_pairs_lookup: "fmlookup (store_pairs kvs m) k = (case map_of (rev kvs) k of Some v \<Rightarrow> Some v | None \<Rightarrow> fmlookup m k)"
  by (induction kvs arbitrary: m) (auto simp: store_pairs_def map_add_def split: option.splits)

lemma setting_of_imported: "setting_of (imported_conn ul new parent n) k = map_of (rev (legacy_pairs ul n)) k"
  by (simp add: setting_of_def imported_conn_def store_pairs_lookup split: option.split)

definition fixed_pairs :: "(string \<Rightarrow> string) \<Rightarrow> rawConnection \<Rightarrow> (string \<times> anyval) list" where
  "fixed_pairs ul n = map (\<lambda>(k, v). (k, AnyString v)) (filter (\<lambda>(k, v). v \<noteq> '''') (fixed_values ul n))"

lemma legacy_fixed:
  "legacy_pairs ul n = fixed_pairs ul n @ inherit_pairs ul (inherited_attrs ul n) @ unknown_pairs ul n"
proof -
  have s: "setting_pairs n ps = map (\<lambda>(k, v). (k, AnyString v))
      (filter (\<lambda>(k, v). v \<noteq> '''') (map (\<lambda>(attr, key). (key, perProtocolValue n attr)) ps))" for ps
    by (induction ps) (auto simp: setting_pairs_def present_settings_def)
  show ?thesis by (simp add: legacy_pairs_def fixed_pairs_def fixed_values_def head_pairs_def s)
qed

lemma to_lower_ascii: "is_ascii s \<Longrightarrow> to_lower ul s = map lower_char s"
  by (simp add: to_lower_def)

lemma inherit_attrs_ascii: "list_all is_ascii allInheritanceAttrs"
  by (simp add: allInheritanceAttrs_def is_ascii_def ord8_def)

lemma map_of_rev_distinct: "distinct (map fst kvs) \<Longrightarrow> map_of (rev kvs) k = map_of kvs k"
proof (induction kvs)
  case (Cons p kvs)
  then have "map_of kvs (fst p) = None" by (simp add: map_of_eq_None_iff)
  with Cons show ?case by (cases p) (auto simp: map_add_def split: option.splits)
qed simp

lemma prefix_apart:
  assumes "k \<in> set fixed_keys"
  shows "k \<notin> fst ` set (inherit_pairs ul (inherited_attrs ul n)) \<union> fst ` set (unknown_pairs ul n)"
proof -
  have k: "\<not> has_prefix k ''legacy_inherit_''" "\<not> has_prefix k ''legacy_attr_''"
    using fixed_keys_apart assms by (auto simp: list_all_iff)
  have "has_prefix (inherit_key ul a) ''legacy_inherit_''" if "a \<in> set allInheritanceAttrs" for a
  proof -
    have "is_ascii a" using inherit_attrs_ascii that by (simp add: list_all_iff)
    then have "list_all (\<lambda>c. ord8 c < 128) (drop 7 a)"
      unfolding is_ascii_def list_all_iff using in_set_dropD by fast
    with \<open>is_ascii a\<close> have "is_ascii (''legacy_inherit_'' @ (if has_prefix a ''Inherit'' then drop 7 a else a))"
      by (simp add: is_ascii_def ord8_def)
    then show ?thesis by (simp add: inherit_key_def to_lower_ascii lower_char_def ord8_def)
  qed
  with k show ?thesis by (auto simp: inherit_pairs_def unknown_pairs_def inherited_attrs_def)
qed

lemma fixed_setting:
  assumes "(k, v) \<in> set (fixed_values ul n)"
  shows "setting_of (imported_conn ul new parent n) k = (if v = '''' then None else Some (AnyString v))"
proof -
  let ?tail = "inherit_pairs ul (inherited_attrs ul n) @ unknown_pairs ul n"
  have k: "k \<in> set fixed_keys" using assms unfolding fixed_keys [symmetric, of ul n] by force
  have dist: "distinct (map fst (fixed_pairs ul n))"
  proof -
    have "distinct (map fst kvs) \<Longrightarrow> distinct (map fst (map (\<lambda>(k, v). (k, AnyString v)) (filter (\<lambda>(k, v). v \<noteq> '''') kvs)))" for kvs
      by (induction kvs) (auto simp: rev_image_eqI)
    then show ?thesis using fixed_keys_distinct unfolding fixed_keys [symmetric, of ul n] fixed_pairs_def by blast
  qed
  have "map_of (rev ?tail) k = None" using prefix_apart [OF k] by (auto simp: map_of_eq_None_iff)
  then have "setting_of (imported_conn ul new parent n) k = map_of (rev (fixed_pairs ul n)) k"
    unfolding setting_of_imported legacy_fixed rev_append [of "fixed_pairs ul n"] map_of_append map_add_def
    by (simp only: option.case)
  with dist have *: "setting_of (imported_conn ul new parent n) k = map_of (fixed_pairs ul n) k"
    by (simp add: map_of_rev_distinct)
  show ?thesis
  proof (cases "v = ''''")
    case True
    have "(k, w) \<in> set (fixed_values ul n) \<Longrightarrow> w = v" for w
      using assms fixed_keys_distinct unfolding fixed_keys [symmetric, of ul n] by (metis eq_key_imp_eq_value)
    then have "k \<notin> fst ` set (fixed_pairs ul n)" using True by (force simp: fixed_pairs_def)
    then show ?thesis using True * by (simp add: map_of_eq_None_iff)
  next
    case False
    then have "(k, AnyString v) \<in> set (fixed_pairs ul n)" using assms by (force simp: fixed_pairs_def)
    then show ?thesis using False * dist by simp
  qed
qed


subsection \<open>Attributes of an XML element\<close>

text \<open>The value of an attribute: the last one, if it is repeated.\<close>

definition attr_value :: "(string \<times> string) list \<Rightarrow> string \<Rightarrow> string" where
  "attr_value attrs a = (case map_of (rev attrs) a of Some v \<Rightarrow> v | None \<Rightarrow> '''')"

lemma attr_value_snoc: "attr_value (attrs @ [(a, v)]) b = (if a = b then v else attr_value attrs b)"
  by (simp add: attr_value_def)

lemma attr_value_Nil [simp]: "attr_value [] b = ''''"
  by (simp add: attr_value_def)

lemma read_attrs:
  assumes "set tab \<subseteq> set known_attrs" "b \<in> fst ` set tab"
  shows "(case map_of tab b of Some f \<Rightarrow> raw_field (node_of_attrs attrs) f | None \<Rightarrow> '''') = attr_value attrs b"
proof (induction attrs rule: rev_induct)
  case (snoc p attrs)
  obtain a v where p: "p = (a, v)" by (cases p)
  have "node_of_attrs (attrs @ [p]) = fst (assignRawAttr (node_of_attrs attrs) a v)"
    by (simp add: node_of_attrs_def p)
  then show ?case using read_table [OF assms, of "node_of_attrs attrs" a v] snoc
    by (simp only: p attr_value_snoc)
qed (simp add: node_of_attrs_def zero_raw_def split: option.split)

lemma field_add_children [simp]: "raw_field (fold add_child kids r) = raw_field r"
  "raw_Unknown (fold add_child kids r) = raw_Unknown r"
  by (induction kids arbitrary: r) simp_all

lemma structural_value:
  "(a, f) \<in> set structural_attrs \<Longrightarrow> map_of structural_attrs a = Some f \<Longrightarrow>
    raw_field (node_of_attrs attrs) f = attr_value attrs a"
  using read_attrs [of structural_attrs a attrs] by (force simp: known_attrs_def)

lemma setting_value:
  "(attr, key) \<in> set (perProtocolSettings @ encryptedPerProtocolSettings) \<Longrightarrow>
    perProtocolValue (fold add_child kids (node_of_attrs attrs)) attr = attr_value attrs attr"
proof -
  assume a: "(attr, key) \<in> set (perProtocolSettings @ encryptedPerProtocolSettings)"
  then have "attr \<in> fst ` set perProtocolValue_fields" using settings_read unfolding list_all_iff by fast
  from read_attrs [OF known_subset(2) this, of attrs] show ?thesis
    by (simp add: perProtocolValue_def cong: option.case_cong)
qed

lemma inherit_value:
  "a \<in> set allInheritanceAttrs \<Longrightarrow>
    inheritanceValue (fold add_child kids (node_of_attrs attrs)) a = attr_value attrs a"
  using read_attrs [OF known_subset(1), of a attrs] by (simp add: inheritanceValue_def inherit_read cong: option.case_cong)

lemma fold_SetInherit: "Inherit (fold SetInherit fs p) f = (if f \<in> set fs then Some True else Inherit p f)"
  by (induction fs arbitrary: p) (auto simp: SetInherit_def)

lemma inheritanceFieldMap_facts:
  "list_all (\<lambda>(a, f). a \<in> set allInheritanceAttrs \<and> map_of inheritanceFieldMap a = Some f) inheritanceFieldMap"
  by (simp add: inheritanceFieldMap_def allInheritanceAttrs_def)

lemma inheritanceFieldMap_inj: "distinct (map snd inheritanceFieldMap)"
  by (simp add: inheritanceFieldMap_def)

lemma inherit_flag:
  assumes "(a, f) \<in> set inheritanceFieldMap"
  shows "Inherit (c_Inheritance (imported_conn ul new parent n)) f =
    (if parseBool ul (inheritanceValue n a) = Some True then Some True else None)"
proof -
  have a: "a \<in> set allInheritanceAttrs" "map_of inheritanceFieldMap a = Some f"
    using assms inheritanceFieldMap_facts by (auto simp: list_all_iff)
  have "b = a" if "map_of inheritanceFieldMap b = Some f" for b
  proof -
    have "inj_on snd (set inheritanceFieldMap)" using inheritanceFieldMap_inj unfolding distinct_map by blast
    from inj_onD [OF this _ map_of_SomeD [OF that] assms] show ?thesis by simp
  qed
  have "f \<in> set (native_fields (inherited_attrs ul n)) \<longleftrightarrow>
      (\<exists>b \<in> set allInheritanceAttrs. parseBool ul (inheritanceValue n b) = Some True \<and> map_of inheritanceFieldMap b = Some f)"
    by (auto simp: native_fields_def inherited_attrs_def image_iff)
  also have "\<dots> \<longleftrightarrow> parseBool ul (inheritanceValue n a) = Some True"
    using a \<open>\<And>b. map_of inheritanceFieldMap b = Some f \<Longrightarrow> b = a\<close> by blast
  finally have "f \<in> set (native_fields (inherited_attrs ul n)) \<longleftrightarrow> parseBool ul (inheritanceValue n a) = Some True" .
  then show ?thesis by (simp add: imported_conn_def fold_SetInherit zero_conn_def zero_profile_def)
qed

subsection \<open>Into the application's tree\<close>

definition disjoint_ids :: "Tree \<Rightarrow> Tree \<Rightarrow> bool" where
  "disjoint_ids src t \<longleftrightarrow> (\<forall>y n. FindByID y src = Inr n \<longrightarrow> unknown t y)"

lemma fold_with_nodes_find:
  assumes "list_all is_node (ns :: node list)" "distinct (map nid ns)" "list_all (\<lambda>n. unknown t (nid n)) ns"
  shows "unknown (fold with_node ns t) y \<longleftrightarrow> unknown t y \<and> y \<notin> nid ` set ns"
  using find_with_nodes [OF assms] by (auto simp: unknown_find)

lemma merge_walk:
  assumes src: "wf_tree src" and t: "wf_tree t" and d: "disjoint_ids src t"
  shows "\<exists>u. Walk fst merge_visit (src, t) = WDone (src, u) \<and> wf_tree u \<and>
    (\<forall>y n. FindByID y u = Inr n \<longleftrightarrow> FindByID y src = Inr n \<or> FindByID y t = Inr n)"
proof -
  let ?D = "\<lambda>xs s. s = (src, fold with_node xs t) \<and> wf_tree (snd s) \<and> extends t (snd s)"
  have ro: "read_only fst merge_visit"
    by (auto simp: read_only_def merge_visit_def split: prod.splits sum.splits)
  have nodes: "is_node m" "FindByID (nid m) src = Inr m" "nid m \<noteq> NilID" "unknown t (nid m)"
    "old_folder src (npar m)" if "m \<in> set (preorder src)" for m
    using preorder_node [OF src that] d by (auto simp: disjoint_ids_def)
  have dist: "distinct (map nid xs)" if "preorder src = xs @ ys" for xs ys
  proof -
    have "map NodeID xs = map Some (map nid xs)" using nodes(1) that by (simp add: NodeID_nid)
    moreover have "distinct (map NodeID xs)" using preorder_once [OF src] that by simp
    ultimately have "distinct (map Some (map nid xs))" by (simp only:)
    then show ?thesis by (simp only: distinct_map)
  qed
  have "\<exists>s'. visit_all merge_visit (preorder src) (src, t) = WDone s' \<and> ?D (preorder src) s'"
  proof (rule visit_all_inv)
    fix xs n ys s assume p: "preorder src = xs @ n # ys" and s: "?D xs s"
    have n: "n \<in> set (preorder src)" "set xs \<subseteq> set (preorder src)" by (auto simp: p)
    have xs: "list_all is_node xs" "distinct (map nid xs)" "list_all (\<lambda>n. unknown t (nid n)) xs"
      using nodes n(2) dist [OF p] by (auto simp: list_all_iff)
    note new = before_parent [OF src p]
    have u: "unknown (snd s) (nid n)" using s new(1) nodes(4) [OF n(1)] by (simp add: fold_with_nodes_find [OF xs])
    have o: "old_folder (snd s) (npar n)"
    proof -
      consider "npar n = NilID" | g where "NFolder g \<in> set xs" "f_ID g = npar n" using new(2) by blast
      then show ?thesis
      proof cases
        case (2 g)
        then have "FindByID (npar n) (snd s) = Inr (NFolder g)" using s find_with_nodes [OF xs] by auto
        then show ?thesis by (auto simp: old_folder_def dest: FindByID_kinds)
      qed (simp add: old_folder_def)
    qed
    have wf: "wf_tree (snd s)" by (rule conjunct1 [OF conjunct2 [OF s]])
    note ok = with_node_ok [OF wf nodes(1) [OF n(1)] nodes(3) [OF n(1)] u o]
    have "merge_visit n s = WDone (src, with_node n (snd s))"
      using s ok(3,4) nodes(1) [OF n(1)] by (cases n) (auto simp: merge_visit_def)
    then show "\<exists>s'. merge_visit n s = WDone s' \<and> ?D (xs @ [n]) s'"
      using s ok(1,2) extends_trans by fastforce
  qed (simp add: t)
  then obtain u where u: "visit_all merge_visit (preorder src) (src, t) = WDone (src, u)"
    "u = fold with_node (preorder src) t" "wf_tree u" by auto
  have all: "list_all is_node (preorder src)" "distinct (map nid (preorder src))"
    "list_all (\<lambda>n. unknown t (nid n)) (preorder src)"
    using nodes dist [of _ "[]"] by (auto simp: list_all_iff)
  have "FindByID y u = Inr n \<longleftrightarrow> FindByID y src = Inr n \<or> FindByID y t = Inr n" for y n
    unfolding u(2) find_with_nodes [OF all] using nodes(2) find_preorder [OF src] by blast
  then show ?thesis using u Walk_preorder [where g = fst and v = merge_visit and s = "(src, t)"] src ro by auto
qed


subsection \<open>The command\<close>

text \<open>The switch over the format in \<open>ImportMRemoteNG\<close>; \<open>msg\<close> renders the errors.\<close>

definition import_document :: "(string \<Rightarrow> string) \<Rightarrow> (nat \<Rightarrow> ID) \<Rightarrow> (byte list \<Rightarrow> bool \<times> xml_token list) \<Rightarrow>
    (byte list \<Rightarrow> string list list option) \<Rightarrow> (import_error \<Rightarrow> string) \<Rightarrow> byte list \<Rightarrow> string \<Rightarrow>
    string + import_warning parsed" where
  "import_document ul rnd xml csv msg bs format =
     (case (if format = ''xml'' then ImportXML ul rnd xml bs else ImportCSV ul rnd csv bs) of
        Inl e \<Rightarrow> Inl (msg e) | Inr res \<Rightarrow> Inr res)"

definition adds_entries :: "(string \<Rightarrow> string) \<Rightarrow> entry list \<Rightarrow> app \<Rightarrow> import_warning ImportResult \<Rightarrow> app \<Rightarrow> bool" where
  "adds_entries ul es a res a' \<longleftrightarrow> wf_tree (a_tree a') \<and>
     (\<forall>y n. FindByID y (a_tree a') = Inr n \<longleftrightarrow> FindByID y (a_tree a) = Inr n \<or>
        (\<exists>e \<in> set es. en_kind e \<noteq> AsSkipped \<and> en_ID e = y \<and> entry_node ul e = n)) \<and>
     a' = a\<lparr>a_tree := a_tree a', a_dirty := True, a_signal := a_signal a \<or> a_started a\<rparr> \<and>
     res = \<lparr>ir_Imported = of_kind AsConnection es, ir_Folders = of_kind AsFolder es,
       ir_Warnings = concat (map (entry_warnings ul) es)\<rparr>"

definition new_in :: "Tree \<Rightarrow> (nat \<Rightarrow> ID) \<Rightarrow> nat \<Rightarrow> bool" where
  "new_in t rnd N \<longleftrightarrow> new_draws rnd N \<and> (\<forall>j < N. unknown t (NewID (rnd j)))"

lemma import_adds:
  assumes wf: "wf_tree (a_tree a)" and ok: "\<not> (a_started a \<and> a_sig_closed a)"
    and f: "format = ''xml'' \<or> format = ''csv''" and p: "parse format = Inr (finish_import i)"
    and h: "holds_entries ul es (im_tree i)" and r: "reports_entries ul es i"
    and d: "disjoint_ids (im_tree i) (a_tree a)"
  shows "\<exists>res a'. ImportMRemoteNG True format parse a = (Returns (Inr res), a') \<and> adds_entries ul es a res a'"
proof -
  have "wf_tree (im_tree i)" using h by (simp add: holds_entries_def)
  from merge_walk [OF this wf d] obtain u where u:
    "Walk fst merge_visit (im_tree i, a_tree a) = WDone (im_tree i, u)" "wf_tree u"
    "\<And>y n. FindByID y u = Inr n \<longleftrightarrow> FindByID y (im_tree i) = Inr n \<or> FindByID y (a_tree a) = Inr n" by blast
  have "markDirty (a\<lparr>a_tree := u\<rparr>) = Returns (a\<lparr>a_tree := u, a_dirty := True, a_signal := a_signal a \<or> a_started a\<rparr>)"
    (is "_ = Returns ?a") using ok by (auto simp: markDirty_def Let_def)
  then have "ImportMRemoteNG True format parse a = (Returns (Inr \<lparr>ir_Imported = of_kind AsConnection es,
      ir_Folders = of_kind AsFolder es, ir_Warnings = concat (map (entry_warnings ul) es)\<rparr>), ?a)"
    using f p u(1) r by (auto simp: ImportMRemoteNG_def finish_import_def Let_def reports_entries_def)
  moreover have "FindByID y u = Inr n \<longleftrightarrow> FindByID y (a_tree a) = Inr n \<or>
      (\<exists>e \<in> set es. en_kind e \<noteq> AsSkipped \<and> en_ID e = y \<and> entry_node ul e = n)" for y n
    unfolding u(3) using h by (auto simp: holds_entries_def)
  ultimately show ?thesis using u(2) unfolding adds_entries_def by (intro exI conjI) auto
qed

lemma drawn_disjoint:
  assumes "holds_entries ul es t" "new_in u rnd N"
    "map en_ID (filter (\<lambda>e. en_kind e \<noteq> AsSkipped) es) = map (NewID \<circ> rnd) [0..<N]"
  shows "disjoint_ids t u"
proof -
  have "unknown u (en_ID e)" if "e \<in> set es" "en_kind e \<noteq> AsSkipped" for e
  proof -
    have "en_ID e \<in> set (map en_ID (filter (\<lambda>e. en_kind e \<noteq> AsSkipped) es))" using that by simp
    then show ?thesis unfolding assms(3) using assms(2) by (auto simp: new_in_def)
  qed
  then show ?thesis using assms(1) by (auto simp: disjoint_ids_def holds_entries_def)
qed

lemma import_xml_document:
  assumes "wf_tree (a_tree a)" "\<not> (a_started a \<and> a_sig_closed a)"
    and x: "xml (take maxImportBytes bs) =
      (eof, prolog @ XStart ''Connections'' at # concat (map xml_tokens cs) @ XEnd ''Connections'' # rest)"
    and pre: "list_all (\<lambda>t. t = XOther) prolog" and es: "es = document_entries ul rnd (concat (map raws_of cs))"
    and n: "new_in (a_tree a) rnd (drawn es)"
  shows "\<exists>res a'. ImportMRemoteNG True ''xml'' (import_document ul rnd xml csv msg bs) a = (Returns (Inr res), a') \<and>
    adds_entries ul es a res a'"
proof -
  let ?i = "import_roots ul rnd (concat (map raws_of cs))"
  have nd: "new_draws rnd (drawn (document_entries ul rnd (concat (map raws_of cs))))" using n es by (simp add: new_in_def)
  note res = import_roots_result [OF nd, folded es]
  have "import_document ul rnd xml csv msg bs ''xml'' = Inr (finish_import ?i)"
    by (simp add: import_document_def ImportXML_def x parseXML_document [OF pre])
  moreover have "disjoint_ids (im_tree ?i) (a_tree a)"
    by (rule drawn_disjoint [OF res(1) n]) (use entry_ids(2) [of ul _ 0] in \<open>simp add: es document_entries_def\<close>)
  ultimately show ?thesis by (intro import_adds [OF assms(1,2) _ _ res]) simp_all
qed

lemma import_csv_rows:
  assumes "wf_tree (a_tree a)" "\<not> (a_started a \<and> a_sig_closed a)"
    and x: "csv (stripBOM (take maxImportBytes bs)) = Some (header # rows)"
    and es: "es = row_entries rnd 0 (csv_rows header rows)"
    and n: "new_in (a_tree a) rnd (length es)"
  shows "\<exists>res a'. ImportMRemoteNG True ''csv'' (import_document ul rnd xml csv msg bs) a = (Returns (Inr res), a') \<and>
    adds_entries ul es a res a'"
proof -
  let ?rows = "csv_rows header rows" and ?i = "import_rows ul rnd (csv_rows header rows)"
  have len: "length es = length ?rows" by (simp add: es row_entries_def)
  have nd: "new_draws rnd (length ?rows)" using n len by (simp add: new_in_def)
  note res = import_rows_result [OF nd, folded es]
  have "filter (\<lambda>e. en_kind e \<noteq> AsSkipped) es = es" by (rule filter_True) (auto simp: es row_entries_def)
  moreover have "map en_ID es = map (NewID \<circ> rnd) [0..<length es]"
    by (rule nth_equalityI) (simp_all add: es row_entries_def)
  ultimately have "disjoint_ids (im_tree ?i) (a_tree a)"
    by (intro drawn_disjoint [OF res(1) n]) simp
  moreover have "import_document ul rnd xml csv msg bs ''csv'' = Inr (finish_import ?i)"
    by (simp add: import_document_def ImportCSV_def parseCSV_def x)
  ultimately show ?thesis by (intro import_adds [OF assms(1,2) _ _ res]) simp_all
qed

lemma imported_connection:
  fixes attrs :: "(string \<times> string) list" and kids :: "rawConnection list"
  defines "n \<equiv> fold add_child kids (node_of_attrs attrs)" and "val \<equiv> attr_value attrs"
  shows "c_Name (imported_conn ul new parent n) = val ''Name''"
    "c_Host (imported_conn ul new parent n) = val ''Hostname''"
    "c_Username (imported_conn ul new parent n) = val ''Username''"
    "c_Port (imported_conn ul new parent n) = parsePort (val ''Port'')"
    "list_all (\<lambda>(attr, key). setting_of (imported_conn ul new parent n) key =
       (if val attr = '''' then None else Some (AnyString (val attr)))) (perProtocolSettings @ encryptedPerProtocolSettings)"
    "setting_of (imported_conn ul new parent n) ''legacy_password_blob'' =
       (if val ''Password'' = '''' then None else Some (AnyString (val ''Password'')))"
    "list_all (\<lambda>(a, f). Inherit (c_Inheritance (imported_conn ul new parent n)) f =
       (if parseBool ul (val a) = Some True then Some True else None)) inheritanceFieldMap"
proof -
  have f: "raw_field n f = val a" if "(a, f) \<in> set structural_attrs" "map_of structural_attrs a = Some f" for a f
    using structural_value [OF that] by (simp add: n_def val_def)
  show "c_Name (imported_conn ul new parent n) = val ''Name''"
    "c_Host (imported_conn ul new parent n) = val ''Hostname''"
    "c_Username (imported_conn ul new parent n) = val ''Username''"
    "c_Port (imported_conn ul new parent n) = parsePort (val ''Port'')"
    by (simp_all add: imported_conn_def f [of "''Name''"] f [of "''Hostname''"] f [of "''Username''"] f [of "''Port''"]
        structural_attrs_def)
  show "setting_of (imported_conn ul new parent n) ''legacy_password_blob'' =
       (if val ''Password'' = '''' then None else Some (AnyString (val ''Password'')))"
    by (rule fixed_setting) (simp add: fixed_values_def f [of "''Password''"] structural_attrs_def)
  show "list_all (\<lambda>(attr, key). setting_of (imported_conn ul new parent n) key =
       (if val attr = '''' then None else Some (AnyString (val attr)))) (perProtocolSettings @ encryptedPerProtocolSettings)"
    unfolding list_all_iff
  proof (intro ballI case_prodI2)
    fix p attr key assume a: "p \<in> set (perProtocolSettings @ encryptedPerProtocolSettings)" "p = (attr, key)"
    then have "(key, val attr) \<in> set (fixed_values ul n)"
      using setting_value [of attr key kids attrs] by (force simp: fixed_values_def n_def val_def)
    then show "setting_of (imported_conn ul new parent n) key = (if val attr = '''' then None else Some (AnyString (val attr)))"
      by (rule fixed_setting)
  qed
  show "list_all (\<lambda>(a, f). Inherit (c_Inheritance (imported_conn ul new parent n)) f =
       (if parseBool ul (val a) = Some True then Some True else None)) inheritanceFieldMap"
    using inheritanceFieldMap_facts inherit_flag [of _ _ ul new parent n] inherit_value [of _ kids attrs]
    by (auto simp: list_all_iff n_def val_def)
qed


subsection \<open>The shape of imported connections\<close>

text \<open>The identifiers in the manifests of the protocol modules that the program ships
  (\<open>plugins/protocol-*/manifest.go\<close>), and the one for external tools, which no module has.\<close>

definition shipped_protocols :: "string list" where
  "shipped_protocols = map (\<lambda>s. ''io.goremote.protocol.'' @ s) [''ssh'', ''telnet'', ''rlogin'', ''vnc'', ''rawsocket'',
     ''powershell'', ''tn5250'', ''rdp'', ''mosh'', ''sftp'', ''serial'', ''http'']"

definition external_tool :: string where
  "external_tool = ''io.goremote.protocol.external''"

lemma protocolMap_ids: "list_all (\<lambda>(k, p). p \<in> set shipped_protocols \<or>
    p = external_tool \<and> (k = ''intapp'' \<or> k = ''externaltool'')) protocolMap"
  by (simp add: protocolMap_def shipped_protocols_def external_tool_def)

lemma mapProtocol_ids: "mapProtocol ul p = Some x \<Longrightarrow> x \<in> set (external_tool # shipped_protocols)"
  using protocolMap_ids by (auto simp: mapProtocol_def list_all_iff split: if_splits dest!: map_of_SomeD)

lemma mapProtocol_none: "mapProtocol ul p = None \<longleftrightarrow> p = '''' \<or> to_lower ul p \<notin> fst ` set protocolMap"
  by (simp add: mapProtocol_def map_of_eq_None_iff)

lemma external_not_shipped: "'''' \<notin> set (external_tool # shipped_protocols)" "external_tool \<notin> set shipped_protocols"
  by (simp_all add: shipped_protocols_def external_tool_def)

lemma mapProtocol_external:
  "mapProtocol ul p = Some external_tool \<longleftrightarrow> to_lower ul p \<in> {''intapp'', ''externaltool''} \<and> p \<noteq> ''''"
proof
  assume "mapProtocol ul p = Some external_tool"
  then show "to_lower ul p \<in> {''intapp'', ''externaltool''} \<and> p \<noteq> ''''" using protocolMap_ids external_not_shipped(2)
    by (auto simp: mapProtocol_def list_all_iff split: if_splits dest!: map_of_SomeD)
next
  assume "to_lower ul p \<in> {''intapp'', ''externaltool''} \<and> p \<noteq> ''''"
  then show "mapProtocol ul p = Some external_tool"
    by (auto simp: mapProtocol_def protocolMap_def external_tool_def)
qed

definition legacy_value :: "anyval \<Rightarrow> bool" where
  "legacy_value v = (case v of AnyString s \<Rightarrow> True | AnyBool b \<Rightarrow> b | _ \<Rightarrow> False)"

lemma legacy_pairs_values: "(k, v) \<in> set (legacy_pairs ul n) \<Longrightarrow> legacy_value v"
  by (auto simp: legacy_pairs_def head_pairs_def setting_pairs_def inherit_pairs_def unknown_pairs_def
      legacy_value_def split: if_splits)

lemma imported_conn_typed:
  fixes ul new parent n
  defines "c \<equiv> imported_conn ul new parent n"
  shows "0 \<le> c_Port c \<and> c_Port c \<le> 65535" "c_ProtocolID c \<in> set ('''' # external_tool # shipped_protocols)"
    "c_ProtocolID c = external_tool \<longleftrightarrow> raw_field n ''Protocol'' \<noteq> '''' \<and>
      to_lower ul (raw_field n ''Protocol'') \<in> {''intapp'', ''externaltool''}"
    "c_ProtocolID c = '''' \<longleftrightarrow>
      raw_field n ''Protocol'' = '''' \<or> to_lower ul (raw_field n ''Protocol'') \<notin> fst ` set protocolMap"
    "c_Settings c \<noteq> Some fmempty" "case setting_of c k of None \<Rightarrow> True | Some v \<Rightarrow> legacy_value v"
    "c_CredentialRef c = c_CredentialRef zero_conn" "Explicit (c_Inheritance c) = Map.empty"
proof -
  show "0 \<le> c_Port c \<and> c_Port c \<le> 65535" by (simp add: c_def imported_conn_def parsePort_bounds)
  let ?p = "raw_field n ''Protocol''"
  have i: "c_ProtocolID c = (case mapProtocol ul ?p of Some p \<Rightarrow> p | None \<Rightarrow> '''')"
    by (simp add: c_def imported_conn_def)
  show "c_ProtocolID c \<in> set ('''' # external_tool # shipped_protocols)"
    using mapProtocol_ids [of ul ?p] by (auto simp: i split: option.split)
  show "c_ProtocolID c = external_tool \<longleftrightarrow> ?p \<noteq> '''' \<and> to_lower ul ?p \<in> {''intapp'', ''externaltool''}"
    using mapProtocol_external [of ul ?p] external_not_shipped by (auto simp: i split: option.split)
  show "c_ProtocolID c = '''' \<longleftrightarrow> ?p = '''' \<or> to_lower ul ?p \<notin> fst ` set protocolMap"
    unfolding mapProtocol_none [symmetric] using mapProtocol_ids [of ul ?p] external_not_shipped
    by (auto simp: i split: option.split)
  show "c_Settings c \<noteq> Some fmempty" by (simp add: c_def imported_conn_def store_pairs_empty)
  show "case setting_of c k of None \<Rightarrow> True | Some v \<Rightarrow> legacy_value v"
    using legacy_pairs_values [of k _ ul n] map_of_SomeD [of "rev (legacy_pairs ul n)" k]
    by (auto simp: c_def setting_of_imported split: option.split)
  have "Explicit (fold SetInherit fs p) = Map.empty" if "Explicit p = Map.empty" for fs p
    using that by (induction fs arbitrary: p) (simp_all add: SetInherit_def fun_upd_def)
  then show "c_CredentialRef c = c_CredentialRef zero_conn" "Explicit (c_Inheritance c) = Map.empty"
    by (simp_all add: c_def imported_conn_def zero_conn_def zero_profile_def)
qed

end
