(* ===== verification/ImportSamples.thy ===== *)
theory ImportSamples
  imports AppSamples ImportApp
begin

text \<open>A document and a table with one connection each, for the properties of the import.\<close>

definition doc_attrs :: "(string \<times> string) list" where
  "doc_attrs = [(''Name'', ''srv''), (''Hostname'', ''h''), (''Port'', ''''), (''Resolution'', ''800x600'')]"

definition doc_xml :: "xml_token list" where
  "doc_xml = [XOther, XStart ''Connections'' [], XStart ''Node'' doc_attrs, XEnd ''Node'', XEnd ''Connections'']"

lemma doc_xml_document: "doc_xml = [XOther] @ XStart ''Connections'' [] #
    concat (map xml_tokens [XElem ''Node'' doc_attrs []]) @ XEnd ''Connections'' # []"
  by (simp add: doc_xml_def)

lemma trim_empty [simp]: "trim_space '''' = ''''"
  using trim_space_contained [of "''''"] by simp

definition doc_entry :: entry where
  "doc_entry = \<lparr>en_kind = AsConnection, en_ID = NewID 10, en_parent = NilID, en_path = ''/srv'',
     en_raw = node_of_attrs doc_attrs\<rparr>"

lemma doc_raw: "raw_field (node_of_attrs doc_attrs) = (\<lambda>_. '''')(''Name'' := ''srv'', ''Hostname'' := ''h'',
    ''Port'' := '''', ''Resolution'' := ''800x600'')" "raw_Unknown (node_of_attrs doc_attrs) = []"
  "raw_Children (node_of_attrs doc_attrs) = []"
  by (simp_all add: node_of_attrs_def doc_attrs_def assignRawAttr_def known_attrs_def structural_attrs_def
      setting_attrs_def zero_raw_def)

lemma doc_entries:
  "document_entries ul sample_draw (concat (map raws_of [XElem ''Node'' doc_attrs []])) = [doc_entry]"
proof -
  obtain fs un kids where n: "node_of_attrs doc_attrs = RawConnection fs un kids"
    by (cases "node_of_attrs doc_attrs")
  have f: "fs = (\<lambda>_. '''')(''Name'' := ''srv'', ''Hostname'' := ''h'', ''Port'' := '''', ''Resolution'' := ''800x600'')"
    "kids = []" using doc_raw n by simp_all
  then have "raw_kind ul (RawConnection fs un kids) = AsConnection"
    by (simp add: raw_kind_def Let_def to_lower_def is_ascii_def)
  then show ?thesis
    by (simp add: document_entries_def n Let_def f(1) joinPath_def doc_entry_def sample_draw_def)
qed

lemma doc_new: "new_in sample_tree sample_draw 1"
proof -
  have "unknown sample_tree (NewID (sample_draw k)) \<and> NewID (sample_draw k) \<noteq> NilID" for k
    using sample_draws [of k] by (auto simp: NilID_def intro!: sample_unknown)
  then show ?thesis by (simp add: new_in_def new_draws_def inj_on_def)
qed

lemma doc_drawn: "drawn [doc_entry] = 1"
  by (simp add: drawn_def doc_entry_def)

end
