(* ===== verification/PluginIPC.thy ===== *)
theory PluginIPC
  imports Frame
begin

text \<open>
  \<open>host/plugin/ipc/client.go\<close>: calls to a plugin process over one connection. Any number of
  goroutines are inside \<open>call\<close> while \<open>readLoop\<close> distributes the responses; a step is what a
  goroutine does between two points at which others can run.
\<close>

subsection \<open>State\<close>

datatype ipc_error = MarshalCall | ConnectionClosed | WriteCall frame_error | RemoteError string | CallContext

text \<open>Where a goroutine is in \<open>call\<close>.\<close>

datatype call_phase = Writing | CallWriteFailed frame_error | Waiting | CtxDone | CallReturned "ipc_error + Frame"

record ipc_call =
  cl_ID :: "64 word"
  cl_Method :: string
  cl_Data :: "byte list"
  cl_phase :: call_phase

text \<open>Where \<open>readLoop\<close> is: it holds a response, or the channels it still has to tell about the loss.\<close>

datatype ipc_reader = Reading | Delivering Frame nat | Draining "nat list" string | Stopped

text \<open>Channels are numbered by the calls that made them; \<open>ic_read\<close> is the history of frames read.\<close>

record ipc_client =
  ic_nextID :: "64 word"
  ic_inflight :: "(64 word \<rightharpoonup> nat) option"
  ic_count :: nat
  ic_call :: "nat \<Rightarrow> ipc_call"
  ic_chan :: "nat \<Rightarrow> Frame option"
  ic_reader :: ipc_reader
  ic_wire :: "byte list"
  ic_read :: "Frame list"

definition no_call :: ipc_call where
  "no_call = \<lparr>cl_ID = 0, cl_Method = '''', cl_Data = [], cl_phase = Writing\<rparr>"

definition DialUnix_client :: ipc_client where
  "DialUnix_client = \<lparr>ic_nextID = 0, ic_inflight = Some Map.empty, ic_count = 0, ic_call = (\<lambda>_. no_call),
     ic_chan = (\<lambda>_. None), ic_reader = Reading, ic_wire = [], ic_read = []\<rparr>"

subsection \<open>Calls\<close>

definition set_phase :: "nat \<Rightarrow> call_phase \<Rightarrow> ipc_client \<Rightarrow> ipc_client" where
  "set_phase k ph c = c\<lparr>ic_call := (ic_call c)(k := (ic_call c k)\<lparr>cl_phase := ph\<rparr>)\<rparr>"

text \<open>Up to the first unlock; \<open>data\<close> is the marshalled request.\<close>

definition call_begin :: "string \<Rightarrow> byte list option \<Rightarrow> ipc_client \<Rightarrow> (ipc_error + nat) \<times> ipc_client" where
  "call_begin meth data c = (case data of
     None \<Rightarrow> (Inl MarshalCall, c)
   | Some d \<Rightarrow> (case ic_inflight c of
       None \<Rightarrow> (Inl ConnectionClosed, c)
     | Some m \<Rightarrow> (let i = ic_nextID c; k = ic_count c in (Inr k, c\<lparr>
         ic_nextID := i + 1, ic_inflight := Some (m(i \<mapsto> k)), ic_count := Suc k,
         ic_call := (ic_call c)(k := \<lparr>cl_ID = i, cl_Method = meth, cl_Data = d, cl_phase = Writing\<rparr>),
         ic_chan := (ic_chan c)(k := None)\<rparr>))))"

definition request_frame :: "ipc_call \<Rightarrow> Frame" where
  "request_frame l = \<lparr>fr_Method = cl_Method l, fr_ID = cl_ID l, fr_Payload = cl_Data l, fr_Error = ''''\<rparr>"

definition call_write :: "(Frame \<Rightarrow> byte list option) \<Rightarrow> bool \<Rightarrow> bool \<Rightarrow> nat \<Rightarrow> ipc_client \<Rightarrow> ipc_client" where
  "call_write marshal hok bok k c = (case WriteFrame marshal hok bok (request_frame (ic_call c k)) of (bytes, werr) \<Rightarrow>
     set_phase k (case werr of None \<Rightarrow> Waiting | Some e \<Rightarrow> CallWriteFailed e) (c\<lparr>ic_wire := ic_wire c @ bytes\<rparr>))"

text \<open>Both ways of giving up end with the same critical section.\<close>

definition call_drop :: "nat \<Rightarrow> ipc_error \<Rightarrow> ipc_client \<Rightarrow> ipc_client" where
  "call_drop k e c = set_phase k (CallReturned (Inl e))
     (c\<lparr>ic_inflight := map_option (\<lambda>m. m(cl_ID (ic_call c k) := None)) (ic_inflight c)\<rparr>)"

definition response_result :: "Frame \<Rightarrow> ipc_error + Frame" where
  "response_result resp = (if fr_Error resp \<noteq> '''' then Inl (RemoteError (fr_Error resp)) else Inr resp)"

definition call_receive :: "nat \<Rightarrow> Frame \<Rightarrow> ipc_client \<Rightarrow> ipc_client" where
  "call_receive k resp c = set_phase k (CallReturned (response_result resp)) (c\<lparr>ic_chan := (ic_chan c)(k := None)\<rparr>)"

subsection \<open>The read loop\<close>

definition read_frame :: "Frame \<Rightarrow> ipc_client \<Rightarrow> ipc_client" where
  "read_frame f c = (case ic_inflight c of
     None \<Rightarrow> c\<lparr>ic_read := ic_read c @ [f]\<rparr>
   | Some m \<Rightarrow> (case m (fr_ID f) of
       None \<Rightarrow> c\<lparr>ic_read := ic_read c @ [f]\<rparr>
     | Some k \<Rightarrow> c\<lparr>ic_inflight := Some (m(fr_ID f := None)), ic_reader := Delivering f k,
         ic_read := ic_read c @ [f]\<rparr>))"

text \<open>\<open>pending\<close>: the channels in the order in which the map is iterated.\<close>

definition read_lost :: "string \<Rightarrow> nat list \<Rightarrow> ipc_client \<Rightarrow> ipc_client" where
  "read_lost err pending c = c\<lparr>ic_inflight := None, ic_reader := Draining pending (''connection lost: '' @ err)\<rparr>"

definition lost_frame :: "string \<Rightarrow> Frame" where
  "lost_frame msg = \<lparr>fr_Method = '''', fr_ID = 0, fr_Payload = [], fr_Error = msg\<rparr>"

definition send_chan :: "nat \<Rightarrow> Frame \<Rightarrow> ipc_client \<Rightarrow> ipc_client" where
  "send_chan k f c = c\<lparr>ic_chan := (ic_chan c)(k := Some f)\<rparr>"

text \<open>A send blocks while the buffer of one frame is full.\<close>

inductive ipc_step :: "ipc_client \<Rightarrow> ipc_client \<Rightarrow> bool" where
  ipc_begin: "call_begin meth data c = (r, c') \<Longrightarrow> ipc_step c c'"
| ipc_write: "k < ic_count c \<Longrightarrow> cl_phase (ic_call c k) = Writing \<Longrightarrow> ipc_step c (call_write marshal hok bok k c)"
| ipc_write_failed: "k < ic_count c \<Longrightarrow> cl_phase (ic_call c k) = CallWriteFailed e \<Longrightarrow> ipc_step c (call_drop k (WriteCall e) c)"
| ipc_cancel: "k < ic_count c \<Longrightarrow> cl_phase (ic_call c k) = Waiting \<Longrightarrow> ipc_step c (set_phase k CtxDone c)"
| ipc_cancelled: "k < ic_count c \<Longrightarrow> cl_phase (ic_call c k) = CtxDone \<Longrightarrow> ipc_step c (call_drop k CallContext c)"
| ipc_receive: "k < ic_count c \<Longrightarrow> cl_phase (ic_call c k) = Waiting \<Longrightarrow> ic_chan c k = Some resp \<Longrightarrow>
    ipc_step c (call_receive k resp c)"
| ipc_frame: "ic_reader c = Reading \<Longrightarrow> ipc_step c (read_frame f c)"
| ipc_deliver: "ic_reader c = Delivering f k \<Longrightarrow> ic_chan c k = None \<Longrightarrow>
    ipc_step c (send_chan k f (c\<lparr>ic_reader := Reading\<rparr>))"
| ipc_lost: "ic_reader c = Reading \<Longrightarrow> distinct pending \<Longrightarrow>
    set pending = (case ic_inflight c of None \<Rightarrow> {} | Some m \<Rightarrow> ran m) \<Longrightarrow> ipc_step c (read_lost err pending c)"
| ipc_drain: "ic_reader c = Draining (k # ks) msg \<Longrightarrow> ic_chan c k = None \<Longrightarrow>
    ipc_step c (send_chan k (lost_frame msg) (c\<lparr>ic_reader := Draining ks msg\<rparr>))"
| ipc_stop: "ic_reader c = Draining [] msg \<Longrightarrow> ipc_step c (c\<lparr>ic_reader := Stopped\<rparr>)"

abbreviation ipc_reach :: "ipc_client \<Rightarrow> bool" where
  "ipc_reach \<equiv> reach (\<lambda>c. c = DialUnix_client) ipc_step"


subsection \<open>Where a response can be\<close>

text \<open>A call is registered, or the reader owes it a frame, or its channel is full.\<close>

definition registered :: "ipc_client \<Rightarrow> nat \<Rightarrow> bool" where
  "registered c k \<longleftrightarrow> (case ic_inflight c of None \<Rightarrow> False | Some m \<Rightarrow> m (of_nat k) = Some k)"

definition owed :: "ipc_client \<Rightarrow> nat \<Rightarrow> bool" where
  "owed c k \<longleftrightarrow> (case ic_reader c of Delivering f j \<Rightarrow> j = k | Draining ks e \<Rightarrow> k \<in> set ks | _ \<Rightarrow> False)"

text \<open>A frame that may reach a call: one that was read with its ID, or news of the loss.\<close>

definition frame_for :: "Frame set \<Rightarrow> nat \<Rightarrow> Frame \<Rightarrow> bool" where
  "frame_for rd k f \<longleftrightarrow> fr_Error f \<noteq> '''' \<or> f \<in> rd \<and> fr_ID f = of_nat k"

definition phase_ok :: "Frame set \<Rightarrow> nat \<Rightarrow> bool \<Rightarrow> bool \<Rightarrow> call_phase \<Rightarrow> bool" where
  "phase_ok rd k reg coming ph = (case ph of
     Writing \<Rightarrow> coming | Waiting \<Rightarrow> coming
   | CallReturned (Inr f) \<Rightarrow> \<not> reg \<and> f \<in> rd \<and> fr_ID f = of_nat k \<and> fr_Error f = ''''
   | CallReturned (Inl e) \<Rightarrow> \<not> reg | _ \<Rightarrow> True)"

definition slot_ok :: "Frame set \<Rightarrow> nat \<Rightarrow> bool \<Rightarrow> bool \<Rightarrow> Frame option \<Rightarrow> call_phase \<Rightarrow> bool" where
  "slot_ok rd k reg ow buf ph \<longleftrightarrow> \<not> (reg \<and> ow) \<and> (reg \<or> ow \<longrightarrow> buf = None) \<and>
     phase_ok rd k reg (reg \<or> ow \<or> buf \<noteq> None) ph \<and> (case buf of None \<Rightarrow> True | Some f \<Rightarrow> frame_for rd k f)"

definition reader_ok :: "ipc_client \<Rightarrow> bool" where
  "reader_ok c = (case ic_reader c of
     Reading \<Rightarrow> ic_inflight c \<noteq> None
   | Delivering f k \<Rightarrow> ic_inflight c \<noteq> None \<and> k < ic_count c \<and> frame_for (set (ic_read c)) k f
   | Draining ks e \<Rightarrow> ic_inflight c = None \<and> distinct ks \<and> (\<forall>k \<in> set ks. k < ic_count c) \<and> e \<noteq> ''''
   | Stopped \<Rightarrow> ic_inflight c = None)"

definition map_ok :: "nat \<Rightarrow> (64 word \<rightharpoonup> nat) option \<Rightarrow> bool" where
  "map_ok n im \<longleftrightarrow> (case im of None \<Rightarrow> True | Some m \<Rightarrow> (\<forall>i k. m i = Some k \<longrightarrow> k < n \<and> i = of_nat k))"

definition client_inv :: "ipc_client \<Rightarrow> bool" where
  "client_inv c \<longleftrightarrow> ic_nextID c = of_nat (ic_count c) \<and> map_ok (ic_count c) (ic_inflight c) \<and> reader_ok c \<and>
     (\<forall>k < ic_count c. cl_ID (ic_call c k) = of_nat k \<and>
        slot_ok (set (ic_read c)) k (registered c k) (owed c k) (ic_chan c k) (cl_phase (ic_call c k)))"

lemma of_nat_eq_64: "k < 2 ^ 64 \<Longrightarrow> j < 2 ^ 64 \<Longrightarrow> (of_nat k :: 64 word) = of_nat j \<longleftrightarrow> k = j"
  by (simp add: word_of_nat_eq_iff take_bit_nat_eq_self)

lemma client_inv_slot:
  "client_inv c \<Longrightarrow> k < ic_count c \<Longrightarrow>
    slot_ok (set (ic_read c)) k (registered c k) (owed c k) (ic_chan c k) (cl_phase (ic_call c k))"
  by (simp add: client_inv_def)

lemma registered_phase [simp]: "registered (set_phase k ph c) = registered c" "owed (set_phase k ph c) = owed c"
  "reader_ok (set_phase k ph c) = reader_ok c"
  by (auto simp: fun_eq_iff registered_def owed_def set_phase_def reader_ok_def split: ipc_reader.split)

lemma set_phase_simps [simp]: "ic_nextID (set_phase k ph c) = ic_nextID c" "ic_inflight (set_phase k ph c) = ic_inflight c"
  "ic_count (set_phase k ph c) = ic_count c" "ic_chan (set_phase k ph c) = ic_chan c" "ic_read (set_phase k ph c) = ic_read c"
  "ic_reader (set_phase k ph c) = ic_reader c"
  "cl_ID (ic_call (set_phase k ph c) j) = cl_ID (ic_call c j)"
  "cl_phase (ic_call (set_phase k ph c) j) = (if j = k then ph else cl_phase (ic_call c j))"
  by (simp_all add: set_phase_def)

text \<open>A change of phase keeps the invariant when the slot allows the new one.\<close>

lemma client_inv_set_phase:
  assumes "client_inv c" "phase_ok (set (ic_read c)) k (registered c k)
      (registered c k \<or> owed c k \<or> ic_chan c k \<noteq> None) ph"
  shows "client_inv (set_phase k ph c)"
  using assms by (auto simp: client_inv_def slot_ok_def)

lemma client_inv_begin:
  assumes i: "client_inv c" and b: "call_begin meth data c = (r, c')" and n: "ic_count c' \<le> 2 ^ 64"
  shows "client_inv c'"
proof (cases "c' = c")
  case False
  let ?n = "ic_count c"
  obtain d m where m: "ic_inflight c = Some m" and c': "c' = c\<lparr>ic_nextID := ic_nextID c + 1,
      ic_inflight := Some (m(ic_nextID c \<mapsto> ?n)), ic_count := Suc ?n,
      ic_call := (ic_call c)(?n := \<lparr>cl_ID = ic_nextID c, cl_Method = meth, cl_Data = d, cl_phase = Writing\<rparr>),
      ic_chan := (ic_chan c)(?n := None)\<rparr>"
    using b False by (auto simp: call_begin_def Let_def split: option.splits)
  have nxt: "ic_nextID c = of_nat ?n" and mo: "map_ok ?n (Some m)" and ro: "reader_ok c"
    using i m by (simp_all add: client_inv_def)
  have lt: "?n < 2 ^ 64" using n c' by simp
  have other: "registered c' k = registered c k" "owed c' k = owed c k" if "k < ?n" for k
    using that m nxt of_nat_eq_64 [of k ?n] lt by (simp_all add: c' registered_def owed_def)
  have new: "registered c' ?n" "\<not> owed c' ?n"
    using ro nxt by (auto simp: c' registered_def owed_def reader_ok_def split: ipc_reader.splits)
  have "map_ok (Suc ?n) (ic_inflight c')" using mo nxt by (auto simp: c' map_ok_def less_Suc_eq)
  moreover have "reader_ok c'" using ro m by (auto simp: c' reader_ok_def split: ipc_reader.splits)
  moreover have f: "ic_nextID c' = of_nat (Suc ?n)" "ic_count c' = Suc ?n" "ic_read c' = ic_read c"
    "ic_call c' = (ic_call c)(?n := \<lparr>cl_ID = of_nat ?n, cl_Method = meth, cl_Data = d, cl_phase = Writing\<rparr>)"
    "ic_chan c' = (ic_chan c)(?n := None)" by (simp_all add: c' nxt)
  moreover have "slot_ok (set (ic_read c)) k (registered c' k) (owed c' k) (ic_chan c' k) (cl_phase (ic_call c' k))"
    if "k < Suc ?n" for k
  proof (cases "k = ?n")
    case False
    then have "k < ?n" using that by simp
    then show ?thesis using client_inv_slot [OF i] other False by (simp add: f)
  qed (simp add: f new slot_ok_def phase_ok_def)
  moreover have "cl_ID (ic_call c' k) = of_nat k" if "k < Suc ?n" for k
    using that i by (auto simp: f less_Suc_eq client_inv_def)
  ultimately show ?thesis unfolding client_inv_def f by blast
qed (use i in simp)

lemma client_inv_drop:
  assumes i: "client_inv c" and k: "k < ic_count c" and n: "ic_count c \<le> 2 ^ 64"
  shows "client_inv (call_drop k e c)"
proof -
  let ?c = "c\<lparr>ic_inflight := map_option (\<lambda>m. m(cl_ID (ic_call c k) := None)) (ic_inflight c)\<rparr>"
  have id: "cl_ID (ic_call c k) = of_nat k" using i k by (simp add: client_inv_def)
  have other: "registered ?c j = (registered c j \<and> j \<noteq> k)" if "j < ic_count c" for j
    using that k n of_nat_eq_64 [of j k] by (auto simp: registered_def id split: option.splits)
  have ow: "owed ?c j = owed c j" for j by (simp add: owed_def)
  have "map_ok (ic_count c) (ic_inflight ?c)" using i by (auto simp: client_inv_def map_ok_def split: option.splits)
  moreover have "reader_ok ?c" using i by (auto simp: client_inv_def reader_ok_def split: ipc_reader.splits)
  ultimately show ?thesis
    using i other ow k by (auto simp: call_drop_def client_inv_def slot_ok_def phase_ok_def split: call_phase.splits sum.splits)
qed


lemma client_inv_receive:
  assumes i: "client_inv c" and k: "k < ic_count c" and full: "ic_chan c k = Some resp"
  shows "client_inv (call_receive k resp c)"
proof -
  let ?c = "c\<lparr>ic_chan := (ic_chan c)(k := None)\<rparr>"
  have "registered ?c j = registered c j" "owed ?c j = owed c j" for j by (simp_all add: registered_def owed_def)
  moreover have "reader_ok ?c" using i by (auto simp: client_inv_def reader_ok_def split: ipc_reader.splits)
  moreover have "\<not> registered c k" "frame_for (set (ic_read c)) k resp"
    using client_inv_slot [OF i k] full by (auto simp: slot_ok_def)
  ultimately show ?thesis
    using i by (auto simp: call_receive_def client_inv_def slot_ok_def phase_ok_def response_result_def frame_for_def)
qed

lemma slot_ok_mono: "slot_ok rd k reg ow buf ph \<Longrightarrow> slot_ok (insert f rd) k reg ow buf ph"
  by (auto simp: slot_ok_def phase_ok_def frame_for_def split: call_phase.splits sum.splits option.splits)

text \<open>A slot only sees whether a frame is on its way, not where.\<close>

lemma slot_ok_move: "slot_ok rd k True ow buf ph \<Longrightarrow> slot_ok rd k False True buf ph"
  by (auto simp: slot_ok_def phase_ok_def split: call_phase.splits sum.splits)

lemma slot_ok_fill: "slot_ok rd k reg True buf ph \<Longrightarrow> frame_for rd k f \<Longrightarrow> slot_ok rd k False False (Some f) ph"
  by (auto simp: slot_ok_def phase_ok_def split: call_phase.splits sum.splits)

lemma client_inv_frame:
  assumes i: "client_inv c" and r: "ic_reader c = Reading"
  shows "client_inv (read_frame f c)"
proof -
  obtain m where m: "ic_inflight c = Some m" using i r by (auto simp: client_inv_def reader_ok_def)
  show ?thesis
  proof (cases "m (fr_ID f)")
    case None
    have "registered (c\<lparr>ic_read := rd\<rparr>) j = registered c j" "owed (c\<lparr>ic_read := rd\<rparr>) j = owed c j" for j rd
      by (simp_all add: registered_def owed_def)
    moreover have "reader_ok (c\<lparr>ic_read := rd\<rparr>)" for rd using i r by (auto simp: client_inv_def reader_ok_def)
    ultimately show ?thesis using i m None by (auto simp: read_frame_def client_inv_def intro: slot_ok_mono)
  next
    case (Some k)
    have k: "k < ic_count c" "fr_ID f = of_nat k" using i m Some by (auto simp: client_inv_def map_ok_def)
    let ?c = "c\<lparr>ic_inflight := Some (m(fr_ID f := None)), ic_reader := Delivering f k, ic_read := ic_read c @ [f]\<rparr>"
    have c: "read_frame f c = ?c" by (simp add: read_frame_def m Some)
    have reg: "registered c k" using m Some k by (simp add: registered_def)
    have other: "registered ?c j = (if j = k then False else registered c j)" "owed ?c j = (if j = k then True else owed c j)" for j
      using m k Some r by (auto simp: registered_def owed_def)
    have "map_ok (ic_count c) (ic_inflight ?c)" using i m by (auto simp: client_inv_def map_ok_def)
    moreover have "reader_ok ?c" using k by (simp add: reader_ok_def frame_for_def)
    moreover have "slot_ok (set (ic_read ?c)) j (registered ?c j) (owed ?c j) (ic_chan c j) (cl_phase (ic_call c j))"
      if "j < ic_count c" for j
      using client_inv_slot [OF i that] slot_ok_move reg by (auto simp: other intro!: slot_ok_mono)
    ultimately show ?thesis using i unfolding c by (simp add: client_inv_def)
  qed
qed


lemma client_inv_deliver:
  assumes i: "client_inv c" and r: "ic_reader c = Delivering f k"
  shows "client_inv (send_chan k f (c\<lparr>ic_reader := Reading\<rparr>))" (is "client_inv ?c")
proof -
  have k: "k < ic_count c" "frame_for (set (ic_read c)) k f" "ic_inflight c \<noteq> None"
    using i r by (auto simp: client_inv_def reader_ok_def)
  have other: "registered ?c j = registered c j" "owed ?c j = False" "owed c j = (j = k)" for j
    using r by (auto simp: registered_def owed_def send_chan_def)
  have "slot_ok (set (ic_read c)) j (registered ?c j) (owed ?c j) (ic_chan ?c j) (cl_phase (ic_call c j))"
    if "j < ic_count c" for j
  proof (cases "j = k")
    case True
    have s: "slot_ok (set (ic_read c)) k (registered c k) True (ic_chan c k) (cl_phase (ic_call c k))"
      using client_inv_slot [OF i k(1)] other by simp
    then have "\<not> registered c k" by (simp add: slot_ok_def)
    then show ?thesis using slot_ok_fill [OF s k(2)] True other by (simp add: send_chan_def)
  next
    case False
    then show ?thesis using client_inv_slot [OF i that] other by (simp add: send_chan_def)
  qed
  moreover have "reader_ok ?c" using k by (simp add: reader_ok_def send_chan_def)
  ultimately show ?thesis using i by (simp add: client_inv_def send_chan_def)
qed

lemma client_inv_lost:
  assumes i: "client_inv c" and r: "ic_reader c = Reading" and d: "distinct ks"
    and p: "set ks = (case ic_inflight c of None \<Rightarrow> {} | Some m \<Rightarrow> ran m)"
  shows "client_inv (read_lost err ks c)" (is "client_inv ?c")
proof -
  obtain m where m: "ic_inflight c = Some m" using i r by (auto simp: client_inv_def reader_ok_def)
  have ran: "j \<in> set ks \<longleftrightarrow> registered c j" for j
    using i m p by (auto simp: client_inv_def map_ok_def registered_def ran_def)
  have other: "registered ?c j = False" "owed ?c j = registered c j" "owed c j = False" for j
    using r ran by (auto simp: registered_def owed_def read_lost_def)
  have "\<forall>j \<in> set ks. j < ic_count c" using i m p by (auto simp: client_inv_def map_ok_def ran_def)
  then have "reader_ok ?c" using d by (simp add: reader_ok_def read_lost_def)
  moreover have "slot_ok (set (ic_read c)) j (registered ?c j) (owed ?c j) (ic_chan c j) (cl_phase (ic_call c j))"
    if "j < ic_count c" for j
    using client_inv_slot [OF i that] slot_ok_move by (cases "registered c j") (auto simp: other)
  ultimately show ?thesis using i by (simp add: client_inv_def read_lost_def map_ok_def)
qed

lemma client_inv_drain:
  assumes i: "client_inv c" and r: "ic_reader c = Draining (k # ks) msg"
  shows "client_inv (send_chan k (lost_frame msg) (c\<lparr>ic_reader := Draining ks msg\<rparr>))" (is "client_inv ?c")
proof -
  have k: "k < ic_count c" "frame_for (set (ic_read c)) k (lost_frame msg)" "k \<notin> set ks" "ic_inflight c = None"
    using i r by (auto simp: client_inv_def reader_ok_def lost_frame_def frame_for_def)
  have other: "registered ?c j = False" "registered c j = False" "owed ?c j = (owed c j \<and> j \<noteq> k)" "owed c k" for j
    using r k by (auto simp: registered_def owed_def send_chan_def)
  have "slot_ok (set (ic_read c)) j (registered ?c j) (owed ?c j) (ic_chan ?c j) (cl_phase (ic_call c j))"
    if "j < ic_count c" for j
  proof (cases "j = k")
    case True
    have s: "slot_ok (set (ic_read c)) k False True (ic_chan c k) (cl_phase (ic_call c k))"
      using client_inv_slot [OF i k(1)] other by simp
    then show ?thesis using slot_ok_fill [OF s k(2)] True other by (simp add: send_chan_def)
  next
    case False
    then show ?thesis using client_inv_slot [OF i that] other by (simp add: send_chan_def)
  qed
  moreover have "reader_ok ?c" using i r by (auto simp: client_inv_def reader_ok_def send_chan_def)
  ultimately show ?thesis using i by (simp add: client_inv_def send_chan_def)
qed

lemma client_inv_stop:
  assumes i: "client_inv c" and r: "ic_reader c = Draining [] msg"
  shows "client_inv (c\<lparr>ic_reader := Stopped\<rparr>)" (is "client_inv ?c")
proof -
  have "registered ?c j = registered c j" "owed ?c j = owed c j" for j using r by (simp_all add: registered_def owed_def)
  moreover have "reader_ok ?c" using i r by (simp add: client_inv_def reader_ok_def)
  ultimately show ?thesis using i by (simp add: client_inv_def)
qed

lemma client_inv_write:
  assumes i: "client_inv c" and k: "k < ic_count c" and w: "cl_phase (ic_call c k) = Writing"
  shows "client_inv (call_write marshal hok bok k c)"
proof -
  obtain bytes werr where f: "WriteFrame marshal hok bok (request_frame (ic_call c k)) = (bytes, werr)" by fastforce
  let ?c = "c\<lparr>ic_wire := ic_wire c @ bytes\<rparr>"
  have "registered ?c j = registered c j" "owed ?c j = owed c j" for j by (simp_all add: registered_def owed_def)
  moreover have "reader_ok ?c" using i by (auto simp: client_inv_def reader_ok_def split: ipc_reader.splits)
  ultimately have "client_inv ?c" using i by (simp add: client_inv_def)
  moreover have "registered c k \<or> owed c k \<or> ic_chan c k \<noteq> None"
    using client_inv_slot [OF i k] w by (auto simp: slot_ok_def phase_ok_def)
  ultimately show ?thesis unfolding call_write_def f prod.case
    by (intro client_inv_set_phase) (auto simp: phase_ok_def registered_def owed_def split: option.split)
qed

lemma ipc_step_count: "ipc_step c c' \<Longrightarrow> ic_count c \<le> ic_count c'"
  by (induction rule: ipc_step.induct)
    (auto simp: call_begin_def call_write_def call_drop_def call_receive_def read_frame_def read_lost_def send_chan_def
      Let_def split: option.splits prod.splits)

lemma client_inv_step:
  assumes s: "ipc_step c c'" and n: "ic_count c' \<le> 2 ^ 64" and i: "client_inv c"
  shows "client_inv c'"
proof -
  have n0: "ic_count c \<le> 2 ^ 64" using ipc_step_count [OF s] n by simp
  show ?thesis
    using s
  proof cases
    case (ipc_begin meth data r)
    then show ?thesis by (rule client_inv_begin [OF i _ n])
  next
    case (ipc_write_failed k e)
    then show ?thesis using client_inv_drop [OF i _ n0] by blast
  next
    case (ipc_cancelled k)
    then show ?thesis using client_inv_drop [OF i _ n0] by blast
  next
    case ipc_cancel
    then show ?thesis using i by (auto intro!: client_inv_set_phase simp: phase_ok_def)
  qed (auto intro: client_inv_write client_inv_receive client_inv_frame client_inv_deliver client_inv_lost
      client_inv_drain client_inv_stop simp: i)
qed

interpretation ipc_sys: invariant_system "\<lambda>c. c = DialUnix_client" ipc_step "\<lambda>c. ic_count c \<le> 2 ^ 64 \<longrightarrow> client_inv c"
proof
  show "ic_count c \<le> 2 ^ 64 \<longrightarrow> client_inv c" if "c = DialUnix_client" for c
    using that by (simp add: client_inv_def DialUnix_client_def map_ok_def reader_ok_def)
  show "ic_count t \<le> 2 ^ 64 \<longrightarrow> client_inv t" if "ic_count s \<le> 2 ^ 64 \<longrightarrow> client_inv s" "ipc_step s t" for s t
  proof
    assume n: "ic_count t \<le> 2 ^ 64"
    then have "ic_count s \<le> 2 ^ 64" using ipc_step_count [OF that(2)] by (rule order_trans [rotated])
    with that(1) have "client_inv s" by (rule mp)
    then show "client_inv t" by (rule client_inv_step [OF that(2) n])
  qed
qed

lemma ipc_reach_inv: "ipc_reach c \<Longrightarrow> ic_count c \<le> 2 ^ 64 \<Longrightarrow> client_inv c"
  by (rule mp [OF ipc_sys.reach_inv])


subsection \<open>What a call gets\<close>

text \<open>A call that returns a response returns a frame that was read from the connection with its own
  ID, which no other call has.\<close>

lemma response_matches:
  assumes "ipc_reach c" "ic_count c \<le> 2 ^ 64" "k < ic_count c" "cl_phase (ic_call c k) = CallReturned (Inr f)"
  shows "f \<in> set (ic_read c) \<and> fr_ID f = cl_ID (ic_call c k) \<and> fr_Error f = '''' \<and>
    (\<forall>j < ic_count c. cl_ID (ic_call c j) = fr_ID f \<longrightarrow> j = k)"
proof -
  have i: "client_inv c" by (rule ipc_reach_inv [OF assms(1,2)])
  have "f \<in> set (ic_read c)" "fr_ID f = of_nat k" "fr_Error f = ''''"
    using client_inv_slot [OF i assms(3)] assms(4) by (simp_all add: slot_ok_def phase_ok_def)
  moreover have id: "cl_ID (ic_call c j) = of_nat j" if "j < ic_count c" for j
    using i that by (simp add: client_inv_def)
  moreover have "j = k" if "j < ic_count c" "cl_ID (ic_call c j) = fr_ID f" for j
  proof -
    have "(of_nat j :: 64 word) = of_nat k" using id [OF that(1)] that(2) \<open>fr_ID f = of_nat k\<close> by metis
    moreover have "j < 2 ^ 64" "k < 2 ^ 64" using that(1) assms(2,3) by linarith+
    ultimately show ?thesis using of_nat_eq_64 by blast
  qed
  moreover have "fr_ID f = cl_ID (ic_call c k)"
    by (simp only: id [OF assms(3)] \<open>fr_ID f = of_nat k\<close>)
  ultimately show ?thesis by blast
qed

text \<open>The read loop never waits for a caller, and once it has stopped every call that still waits has
  something to receive. So each call returns, whenever the connection goes.\<close>

lemma reader_never_blocks:
  assumes "ipc_reach c" "ic_count c \<le> 2 ^ 64"
  shows "case ic_reader c of
      Reading \<Rightarrow> True
    | Delivering f k \<Rightarrow> ic_chan c k = None
    | Draining ks e \<Rightarrow> (case ks of [] \<Rightarrow> True | k # _ \<Rightarrow> ic_chan c k = None)
    | Stopped \<Rightarrow> (\<forall>k < ic_count c. cl_phase (ic_call c k) \<in> {Writing, Waiting} \<longrightarrow> ic_chan c k \<noteq> None)"
proof -
  have i: "client_inv c" by (rule ipc_reach_inv [OF assms])
  have free: "ic_chan c k = None" if "k < ic_count c" "owed c k" for k
    using client_inv_slot [OF i that(1)] that(2) by (simp add: slot_ok_def)
  have r: "reader_ok c" using i by (simp add: client_inv_def)
  show ?thesis
  proof (cases "ic_reader c")
    case Stopped
    have "ic_chan c k \<noteq> None" if "k < ic_count c" "cl_phase (ic_call c k) \<in> {Writing, Waiting}" for k
      using client_inv_slot [OF i that(1)] that(2) r Stopped
      by (auto simp: slot_ok_def phase_ok_def registered_def owed_def reader_ok_def)
    then show ?thesis using Stopped by simp
  qed (use r free in \<open>auto simp: owed_def reader_ok_def split: list.split\<close>)
qed

text \<open>Until then a call that waits is registered under its ID, or its frame is on the way.\<close>

lemma waiting_call_tracked:
  assumes "ipc_reach c" "ic_count c \<le> 2 ^ 64" "k < ic_count c" "cl_phase (ic_call c k) = Waiting"
  shows "registered c k \<or> owed c k \<or> ic_chan c k \<noteq> None"
  using client_inv_slot [OF ipc_reach_inv [OF assms(1,2)] assms(3)] assms(4)
  by (auto simp: slot_ok_def phase_ok_def)

text \<open>No entry stays behind: what is registered is a call that has not returned.\<close>

lemma registered_is_live:
  assumes "ipc_reach c" "ic_count c \<le> 2 ^ 64" "ic_inflight c = Some m" "m i = Some k"
  shows "k < ic_count c \<and> i = cl_ID (ic_call c k) \<and> (\<forall>r. cl_phase (ic_call c k) \<noteq> CallReturned r)"
proof -
  have i: "client_inv c" by (rule ipc_reach_inv [OF assms(1,2)])
  then have k: "k < ic_count c" "i = of_nat k" using assms(3,4) by (auto simp: client_inv_def map_ok_def)
  then have "registered c k" using assms(3,4) by (simp add: registered_def)
  then have "cl_phase (ic_call c k) \<noteq> CallReturned r" for r
    using client_inv_slot [OF i k(1)] by (cases r) (auto simp: slot_ok_def phase_ok_def)
  then show ?thesis using k i by (simp add: client_inv_def)
qed

end
