(* ===== verification/PluginServer.thy ===== *)
theory PluginServer
  imports PluginIPC
begin

text \<open>
  \<open>host/plugin/ipc/server.go\<close> with the two services of \<open>proto/plugin/v1/types.go\<close> and their client
  side: the dispatch of a request, a connection that is served, and \<open>Serve\<close> and \<open>Stop\<close> as steps
  that interleave with the accept loop and the handlers. \<open>encoding/json\<close> is a record of functions.
\<close>

subsection \<open>Messages\<close>

record HelloRequest =
  hq_HostVersion :: string
  hq_PluginID :: string

record HelloResponse =
  hs_PluginVersion :: string
  hs_Capabilities :: "string list"
  hs_Status :: string
  hs_ServerTimeUnix :: "64 word"

record PingRequest =
  pq_Payload :: "byte list"

record PingResponse =
  ps_Payload :: "byte list"
  ps_ReceivedAtUnix :: "64 word"

record rpc_json =
  rj_hello :: "HelloRequest \<Rightarrow> byte list option"
  rj_hello_of :: "byte list \<Rightarrow> string + HelloRequest"
  rj_hello_resp :: "HelloResponse \<Rightarrow> string + byte list"
  rj_hello_resp_of :: "byte list \<Rightarrow> HelloResponse option"
  rj_ping :: "PingRequest \<Rightarrow> byte list option"
  rj_ping_of :: "byte list \<Rightarrow> string + PingRequest"
  rj_ping_resp :: "PingResponse \<Rightarrow> string + byte list"
  rj_ping_resp_of :: "byte list \<Rightarrow> PingResponse option"

subsection \<open>Dispatch\<close>

record ipc_services =
  sv_handshake :: "(HelloRequest \<Rightarrow> string + HelloResponse) option"
  sv_echo :: "(PingRequest \<Rightarrow> string + PingResponse) option"

definition error_frame :: "64 word \<Rightarrow> string \<Rightarrow> Frame" where
  "error_frame i msg = \<lparr>fr_Method = '''', fr_ID = i, fr_Payload = [], fr_Error = msg\<rparr>"

definition payload_frame :: "64 word \<Rightarrow> byte list \<Rightarrow> Frame" where
  "payload_frame i data = \<lparr>fr_Method = '''', fr_ID = i, fr_Payload = data, fr_Error = ''''\<rparr>"

definition dispatch :: "rpc_json \<Rightarrow> ipc_services \<Rightarrow> Frame \<Rightarrow> Frame" where
  "dispatch J s req =
     (if fr_Method req = ''Hello'' then
        (case sv_handshake s of
           None \<Rightarrow> error_frame (fr_ID req) ''Hello: no handler registered''
         | Some hello \<Rightarrow> (case rj_hello_of J (fr_Payload req) of
             Inl err \<Rightarrow> error_frame (fr_ID req) (''Hello: decode: '' @ err)
           | Inr r \<Rightarrow> (case hello r of
               Inl err \<Rightarrow> error_frame (fr_ID req) (''Hello: '' @ err)
             | Inr resp \<Rightarrow> (case rj_hello_resp J resp of
                 Inl err \<Rightarrow> error_frame (fr_ID req) (''Hello: encode: '' @ err)
               | Inr data \<Rightarrow> payload_frame (fr_ID req) data))))
      else if fr_Method req = ''Ping'' then
        (case sv_echo s of
           None \<Rightarrow> error_frame (fr_ID req) ''Ping: no handler registered''
         | Some ping \<Rightarrow> (case rj_ping_of J (fr_Payload req) of
             Inl err \<Rightarrow> error_frame (fr_ID req) (''Ping: decode: '' @ err)
           | Inr r \<Rightarrow> (case ping r of
               Inl err \<Rightarrow> error_frame (fr_ID req) (''Ping: '' @ err)
             | Inr resp \<Rightarrow> (case rj_ping_resp J resp of
                 Inl err \<Rightarrow> error_frame (fr_ID req) (''Ping: encode: '' @ err)
               | Inr data \<Rightarrow> payload_frame (fr_ID req) data))))
      else error_frame (fr_ID req) (''unknown method: '' @ fr_Method req))"

lemma dispatch_ID [simp]: "fr_ID (dispatch J s req) = fr_ID req"
  by (simp add: dispatch_def error_frame_def payload_frame_def split: option.split sum.split)

text \<open>The client's methods around \<open>call\<close>: what they make of its result.\<close>

definition ipc_Hello :: "rpc_json \<Rightarrow> ipc_error + Frame \<Rightarrow> ipc_error option + HelloResponse" where
  "ipc_Hello J r = (case r of Inl e \<Rightarrow> Inl (Some e)
   | Inr frame \<Rightarrow> (case rj_hello_resp_of J (fr_Payload frame) of None \<Rightarrow> Inl None | Some resp \<Rightarrow> Inr resp))"

definition ipc_Ping :: "rpc_json \<Rightarrow> ipc_error + Frame \<Rightarrow> ipc_error option + PingResponse" where
  "ipc_Ping J r = (case r of Inl e \<Rightarrow> Inl (Some e)
   | Inr frame \<Rightarrow> (case rj_ping_resp_of J (fr_Payload frame) of None \<Rightarrow> Inl None | Some resp \<Rightarrow> Inr resp))"

subsection \<open>A connection\<close>

lemma ReadFrame_shorter: "ReadFrame is u s = Inr (f, s1) \<Longrightarrow> length s1 < length s"
  by (auto simp: ReadFrame_def read_full_def split: if_splits option.splits sum.splits prod.splits)

text \<open>\<open>ok\<close>: whether the two writes of the k-th response succeed. The result is what was written.\<close>

function handleConn :: "nat \<Rightarrow> (byte list \<Rightarrow> Frame option) \<Rightarrow> (Frame \<Rightarrow> byte list option) \<Rightarrow> (Frame \<Rightarrow> Frame) \<Rightarrow>
    (nat \<Rightarrow> bool \<times> bool) \<Rightarrow> nat \<Rightarrow> byte list \<Rightarrow> byte list" where
  "handleConn intSize u m disp ok k s = (case ReadFrame intSize u s of
     Inl e \<Rightarrow> []
   | Inr (f, s1) \<Rightarrow> (case WriteFrame m (fst (ok k)) (snd (ok k)) (disp f) of
       (b, Some e) \<Rightarrow> b
     | (b, None) \<Rightarrow> b @ handleConn intSize u m disp ok (Suc k) s1))"
  by pat_completeness auto

termination handleConn
  by (relation "measure (\<lambda>(i, u, m, d, ok, k, s). length s)") (auto dest: ReadFrame_shorter)

declare handleConn.simps [simp del]

definition frame_wire :: "(Frame \<Rightarrow> byte list option) \<Rightarrow> Frame \<Rightarrow> byte list" where
  "frame_wire m f = fst (WriteFrame m True True f)"

text \<open>A client that sends requests gets the responses to them, in their order.\<close>

lemma handleConn_stream:
  assumes "list_all (frame_ok m u) fs" "list_all (\<lambda>f. snd (WriteFrame m True True (disp f)) = None) fs"
  shows "handleConn intSize u m disp (\<lambda>_. (True, True)) k (concat (map (frame_wire m) fs)) =
    concat (map (frame_wire m) (map disp fs))"
  using assms
proof (induction fs arbitrary: k)
  case Nil
  have "ReadFrame intSize u [] = Inl ReadHeader" by (simp add: ReadFrame_def read_full_def)
  then show ?case by (simp add: handleConn.simps)
next
  case (Cons f fs)
  obtain data where "m f = Some data" "length data \<le> maxFrameSize" "u data = Some f"
    using Cons.prems(1) by (auto simp: frame_ok_def)
  then have r: "ReadFrame intSize u (frame_wire m f @ concat (map (frame_wire m) fs)) = Inr (f, concat (map (frame_wire m) fs))"
    unfolding frame_wire_def by (rule read_write_frame)
  have w: "WriteFrame m True True (disp f) = (frame_wire m (disp f), None)"
    using Cons.prems(2) by (simp add: frame_wire_def prod_eq_iff)
  show ?case using Cons by (subst handleConn.simps) (simp add: r w)
qed

lemma served_stream:
  assumes "list_all (frame_ok m u) fs" "list_all (frame_ok m u) (map (dispatch J s) fs)"
  shows "read_frames (length fs) intSize u (handleConn intSize u m (dispatch J s) (\<lambda>_. (True, True)) k
      (concat (map (frame_wire m) fs))) = Inr (map (dispatch J s) fs, [])"
proof -
  have "list_all (\<lambda>f. snd (WriteFrame m True True (dispatch J s f)) = None) fs"
    using assms(2) by (auto simp: list_all_iff WriteFrame_ok_iff frame_ok_def)
  from handleConn_stream [OF assms(1) this] show ?thesis
    using read_frames_concat [OF assms(2), of intSize "[]"] by (simp add: frame_wire_def o_def)
qed

text \<open>Hello, from the client's request to the handler and back.\<close>

definition hello_frame :: "64 word \<Rightarrow> byte list \<Rightarrow> Frame" where
  "hello_frame i data = \<lparr>fr_Method = ''Hello'', fr_ID = i, fr_Payload = data, fr_Error = ''''\<rparr>"

lemma hello_end_to_end:
  assumes "sv_handshake s = Some hello" "rj_hello J req = Some data" "rj_hello_of J data = Inr req"
    "hello req = Inr resp" "rj_hello_resp J resp = Inr out" "rj_hello_resp_of J out = Some resp"
  shows "ipc_Hello J (response_result (dispatch J s (hello_frame i data))) = Inr resp"
  using assms by (simp add: dispatch_def hello_frame_def payload_frame_def response_result_def ipc_Hello_def)

lemma hello_error_reaches:
  assumes "sv_handshake s = Some hello" "rj_hello_of J data = Inr req" "hello req = Inl err"
  shows "ipc_Hello J (response_result (dispatch J s (hello_frame i data))) = Inl (Some (RemoteError (''Hello: '' @ err)))"
  using assms by (simp add: dispatch_def hello_frame_def error_frame_def response_result_def ipc_Hello_def)

subsection \<open>Serving and stopping\<close>

datatype accept_phase = Accepting | Accepted nat | AcceptDone

text \<open>\<open>True\<close>: the listener was closed.\<close>

datatype serve_phase = Selecting | AwaitAccept | Draining_conns | Cancelled | ServeFailed bool

datatype stop_phase = StopUnused | StopClosing | StopDone

text \<open>\<open>sr_open\<close>: connections that are not closed; \<open>sr_handlers\<close>: those whose handler reads;
  \<open>sr_closing\<close>: those whose handler has closed and not yet removed them.\<close>

record ipc_server =
  sr_listening :: bool
  sr_accept :: accept_phase
  sr_errc :: "bool option"
  sr_next :: nat
  sr_conns :: "nat set"
  sr_open :: "nat set"
  sr_handlers :: "nat set"
  sr_closing :: "nat set"
  sr_serve :: serve_phase
  sr_stop :: stop_phase

definition NewServer :: ipc_server where
  "NewServer = \<lparr>sr_listening = True, sr_accept = Accepting, sr_errc = None, sr_next = 0, sr_conns = {}, sr_open = {},
     sr_handlers = {}, sr_closing = {}, sr_serve = Selecting, sr_stop = StopUnused\<rparr>"

definition accept_conn :: "ipc_server \<Rightarrow> ipc_server" where
  "accept_conn s = s\<lparr>sr_accept := Accepted (sr_next s), sr_next := Suc (sr_next s), sr_open := insert (sr_next s) (sr_open s)\<rparr>"

definition accept_register :: "nat \<Rightarrow> ipc_server \<Rightarrow> ipc_server" where
  "accept_register n s = s\<lparr>sr_accept := Accepting, sr_conns := insert n (sr_conns s), sr_handlers := insert n (sr_handlers s)\<rparr>"

definition accept_failed :: "ipc_server \<Rightarrow> ipc_server" where
  "accept_failed s = s\<lparr>sr_accept := AcceptDone, sr_errc := Some (\<not> sr_listening s)\<rparr>"

definition handler_close :: "nat \<Rightarrow> ipc_server \<Rightarrow> ipc_server" where
  "handler_close n s = s\<lparr>sr_handlers := sr_handlers s - {n}, sr_open := sr_open s - {n}, sr_closing := insert n (sr_closing s)\<rparr>"

definition handler_remove :: "nat \<Rightarrow> ipc_server \<Rightarrow> ipc_server" where
  "handler_remove n s = s\<lparr>sr_closing := sr_closing s - {n}, sr_conns := sr_conns s - {n}\<rparr>"

definition serve_error :: "bool \<Rightarrow> ipc_server \<Rightarrow> ipc_server" where
  "serve_error closed s = s\<lparr>sr_errc := None, sr_listening := False, sr_serve := ServeFailed closed\<rparr>"

definition serve_cancel :: "ipc_server \<Rightarrow> ipc_server" where
  "serve_cancel s = s\<lparr>sr_listening := False, sr_serve := AwaitAccept\<rparr>"

definition serve_accept_over :: "ipc_server \<Rightarrow> ipc_server" where
  "serve_accept_over s = s\<lparr>sr_errc := None, sr_serve := Draining_conns\<rparr>"

definition serve_force :: "ipc_server \<Rightarrow> ipc_server" where
  "serve_force s = s\<lparr>sr_open := sr_open s - sr_conns s, sr_serve := Cancelled\<rparr>"

definition stop_listener :: "ipc_server \<Rightarrow> ipc_server" where
  "stop_listener s = s\<lparr>sr_listening := False, sr_stop := StopClosing\<rparr>"

definition stop_conns :: "ipc_server \<Rightarrow> ipc_server" where
  "stop_conns s = s\<lparr>sr_open := sr_open s - sr_conns s, sr_stop := StopDone\<rparr>"

text \<open>\<open>Accept\<close> succeeds on an open listener only; it can fail at any time.\<close>

inductive server_step :: "ipc_server \<Rightarrow> ipc_server \<Rightarrow> bool" where
  srv_accept: "sr_accept s = Accepting \<Longrightarrow> sr_listening s \<Longrightarrow> server_step s (accept_conn s)"
| srv_register: "sr_accept s = Accepted n \<Longrightarrow> server_step s (accept_register n s)"
| srv_accept_failed: "sr_accept s = Accepting \<Longrightarrow> server_step s (accept_failed s)"
| srv_handler_close: "n \<in> sr_handlers s \<Longrightarrow> server_step s (handler_close n s)"
| srv_handler_remove: "n \<in> sr_closing s \<Longrightarrow> server_step s (handler_remove n s)"
| srv_error: "sr_serve s = Selecting \<Longrightarrow> sr_errc s = Some closed \<Longrightarrow> server_step s (serve_error closed s)"
| srv_cancel: "sr_serve s = Selecting \<Longrightarrow> server_step s (serve_cancel s)"
| srv_accept_over: "sr_serve s = AwaitAccept \<Longrightarrow> sr_errc s = Some closed \<Longrightarrow> server_step s (serve_accept_over s)"
| srv_drained: "sr_serve s = Draining_conns \<Longrightarrow> sr_conns s = {} \<Longrightarrow> server_step s (s\<lparr>sr_serve := Cancelled\<rparr>)"
| srv_force: "sr_serve s = Draining_conns \<Longrightarrow> server_step s (serve_force s)"
| srv_stop: "sr_stop s = StopUnused \<Longrightarrow> server_step s (stop_listener s)"
| srv_stop_conns: "sr_stop s = StopClosing \<Longrightarrow> server_step s (stop_conns s)"

abbreviation server_reach :: "ipc_server \<Rightarrow> bool" where
  "server_reach \<equiv> reach (\<lambda>s. s = NewServer) server_step"

definition server_inv :: "ipc_server \<Rightarrow> bool" where
  "server_inv s \<longleftrightarrow> sr_open s \<subseteq> sr_handlers s \<union> (case sr_accept s of Accepted n \<Rightarrow> {n} | _ \<Rightarrow> {}) \<and>
     sr_conns s = sr_handlers s \<union> sr_closing s \<and> sr_handlers s \<inter> sr_closing s = {} \<and>
     sr_conns s \<subseteq> {..<sr_next s} \<and>
     (case sr_accept s of Accepted n \<Rightarrow> n < sr_next s \<and> n \<notin> sr_conns s | _ \<Rightarrow> True) \<and>
     (sr_errc s \<noteq> None \<longrightarrow> sr_accept s = AcceptDone) \<and>
     (sr_serve s \<in> {Draining_conns, Cancelled} \<longrightarrow> sr_accept s = AcceptDone) \<and>
     (sr_serve s \<noteq> Selecting \<longrightarrow> \<not> sr_listening s) \<and>
     (sr_serve s = Cancelled \<longrightarrow> sr_open s = {})"

lemmas server_ops = accept_conn_def accept_register_def accept_failed_def handler_close_def handler_remove_def
  serve_error_def serve_cancel_def serve_accept_over_def serve_force_def stop_listener_def stop_conns_def

lemma server_inv_step: "server_step s t \<Longrightarrow> server_inv s \<Longrightarrow> server_inv t"
  by (induction rule: server_step.induct) (auto simp: server_inv_def server_ops split: accept_phase.splits)


interpretation server_sys: invariant_system "\<lambda>s. s = NewServer" server_step server_inv
proof
  show "server_inv s" if "s = NewServer" for s using that by (simp add: server_inv_def NewServer_def)
  show "server_inv t" if "server_inv s" "server_step s t" for s t using that by (rule server_inv_step [rotated])
qed

text \<open>Once \<open>Serve\<close> has returned after its context was cancelled, every connection that was ever
  accepted is closed, and no other will be accepted.\<close>

lemma cancelled_serve_is_clean:
  assumes "server_reach s" "sr_serve s = Cancelled"
  shows "sr_open s = {} \<and> \<not> sr_listening s \<and> sr_accept s = AcceptDone"
  using server_sys.reach_inv [OF assms(1)] assms(2) by (simp add: server_inv_def)

text \<open>\<open>Stop\<close> gives no such promise: a connection that was accepted and is not registered yet when
  \<open>Stop\<close> closes the registered ones stays open and is served.\<close>

lemma stop_leaves_connection:
  "\<exists>s. server_reach s \<and> sr_stop s = StopDone \<and> sr_open s = {0} \<and> sr_handlers s = {0}"
proof -
  let ?s1 = "accept_conn NewServer"
  let ?s2 = "stop_listener ?s1"
  let ?s3 = "stop_conns ?s2"
  let ?s4 = "accept_register 0 ?s3"
  have r0: "server_reach NewServer" by (rule reach.reach_init) simp
  have r1: "server_reach ?s1" by (rule reach.reach_step [OF r0]) (rule srv_accept; simp add: NewServer_def)
  have r2: "server_reach ?s2" by (rule reach.reach_step [OF r1]) (rule srv_stop; simp add: NewServer_def server_ops)
  have r3: "server_reach ?s3" by (rule reach.reach_step [OF r2]) (rule srv_stop_conns; simp add: NewServer_def server_ops)
  have "server_reach ?s4" by (rule reach.reach_step [OF r3]) (rule srv_register; simp add: NewServer_def server_ops)
  then show ?thesis by (rule exI [of _ ?s4, OF conjI]) (simp add: NewServer_def server_ops)
qed


subsection \<open>The socket file\<close>

datatype path_kind = SymlinkNode | SocketNode | OtherNode

datatype lstat_result = NoEntry | LstatError | Entry_of path_kind

text \<open>What the system answers, call by call: looks at the path, an attempt to connect, the removal,
  and the calls that make the listener.\<close>

record socket_env =
  se_abs :: bool
  se_lstat1 :: lstat_result
  se_connects :: bool
  se_lstat2 :: lstat_result
  se_remove :: bool
  se_listen :: bool
  se_chmod :: bool

datatype listen_error = EmptyPath | NotAbsolute | StatFailed | RefuseSymlink | RefuseNonSocket | SocketInUse
  | RefuseChanged | RemoveFailed | ListenFailed | ChmodFailed

text \<open>The error, and whether the path was removed.\<close>

definition removeIfStale :: "socket_env \<Rightarrow> listen_error option \<times> bool" where
  "removeIfStale env = (case se_lstat1 env of
     NoEntry \<Rightarrow> (None, False)
   | LstatError \<Rightarrow> (Some StatFailed, False)
   | Entry_of SymlinkNode \<Rightarrow> (Some RefuseSymlink, False)
   | Entry_of OtherNode \<Rightarrow> (Some RefuseNonSocket, False)
   | Entry_of SocketNode \<Rightarrow>
       if se_connects env then (Some SocketInUse, False)
       else (case se_lstat2 env of
           NoEntry \<Rightarrow> (None, False)
         | LstatError \<Rightarrow> (Some StatFailed, False)
         | Entry_of SocketNode \<Rightarrow> if se_remove env then (None, True) else (Some RemoveFailed, False)
         | Entry_of _ \<Rightarrow> (Some RefuseChanged, False)))"

text \<open>On Windows the path is followed by \<open>Stat\<close>, and its kind is not asked for.\<close>

definition removeIfStale_windows :: "socket_env \<Rightarrow> listen_error option \<times> bool" where
  "removeIfStale_windows env = (case se_lstat1 env of
     NoEntry \<Rightarrow> (None, False)
   | LstatError \<Rightarrow> (Some StatFailed, False)
   | Entry_of _ \<Rightarrow> if se_connects env then (Some SocketInUse, False)
       else if se_remove env then (None, True) else (Some RemoveFailed, False))"

definition socketListen :: "socket_env \<Rightarrow> listen_error option" where
  "socketListen env =
     (if \<not> se_abs env then Some NotAbsolute
      else case fst (removeIfStale env) of
        Some e \<Rightarrow> Some e
      | None \<Rightarrow> if \<not> se_listen env then Some ListenFailed
          else if \<not> se_chmod env then Some ChmodFailed else None)"

definition socketListen_windows :: "socket_env \<Rightarrow> listen_error option" where
  "socketListen_windows env = (case fst (removeIfStale_windows env) of
     Some e \<Rightarrow> Some e | None \<Rightarrow> if \<not> se_listen env then Some ListenFailed else None)"

definition ListenUnix :: "bool \<Rightarrow> string \<Rightarrow> socket_env \<Rightarrow> listen_error option" where
  "ListenUnix windows path env =
     (if path = '''' then Some EmptyPath
      else if windows then socketListen_windows env else socketListen env)"

text \<open>On Unix nothing is removed but a socket that refused a connection and is still a socket; on
  Windows any file is.\<close>

lemma removed_was_stale_socket:
  "snd (removeIfStale env) \<Longrightarrow> se_lstat1 env = Entry_of SocketNode \<and> \<not> se_connects env \<and> se_lstat2 env = Entry_of SocketNode"
  by (auto simp: removeIfStale_def split: lstat_result.splits path_kind.splits if_splits)

lemma windows_removes_files:
  "se_lstat1 env = Entry_of OtherNode \<Longrightarrow> \<not> se_connects env \<Longrightarrow> se_remove env \<Longrightarrow> removeIfStale_windows env = (None, True)"
  by (simp add: removeIfStale_windows_def)

end
