(* ===== verification/PluginRegistry.thy ===== *)
theory PluginRegistry
  imports PluginHost RestoreGuard "HOL-Library.AList"
begin

text \<open>
  \<open>app/extplugin/registry.go\<close>: the directory of external plugins, what the user decided about each
  of them, and the keys that are trusted. The file system is a map from paths (lists of
  components) to nodes; JSON, base64 and Ed25519 are arguments. Every method holds the lock while
  it changes the registry. Temporary files of the atomic writes are left out: a scan skips files.
\<close>

subsection \<open>Data\<close>

definition StatusEnabled :: string where "StatusEnabled = ''enabled''"
definition StatusDisabled :: string where "StatusDisabled = ''disabled''"
definition StatusQuarantined :: string where "StatusQuarantined = ''quarantined''"
definition StatusBroken :: string where "StatusBroken = ''broken''"

datatype entry_error = NotRegular | ManifestDecode | ManifestInvalid manifest_error | SpoofedID string | NotTrusted verify_error

record plugin_entry =
  pe_ID :: string
  pe_Manifest :: Manifest
  pe_Status :: string
  pe_TrustLevel :: string
  pe_Error :: "entry_error option"

definition zero_manifest :: Manifest where
  "zero_manifest = \<lparr>mf_ID = '''', mf_Name = '''', mf_Description = '''', mf_Kind = '''', mf_Version = '''',
     mf_APIVersion = '''', mf_Capabilities = [], mf_Platforms = [], mf_Trust = '''', mf_SignatureB64 = '''',
     mf_Status = '''', mf_Publisher = '''', mf_Homepage = '''', mf_License = ''''\<rparr>"

type_synonym plugin_states = "string \<rightharpoonup> string"

text \<open>The keys by label, in the order in which the map is iterated.\<close>

record trust_doc =
  td_Policy :: string
  td_Keys :: "(string \<times> string) list"

record plugin_registry =
  rg_state :: plugin_states
  rg_trust :: trust_doc
  rg_entries :: "string \<rightharpoonup> plugin_entry"

datatype fs_node = RDir | RFile "byte list" | ROther

type_synonym plugin_fs = "string list \<rightharpoonup> fs_node"

text \<open>What is outside: the root's path, the encodings, and the cryptography.\<close>

record registry_env =
  gx_root :: "string list"
  gx_manifest :: "byte list \<Rightarrow> Manifest option"
  gx_body :: "Manifest \<Rightarrow> byte list option"
  gx_b64 :: "string \<Rightarrow> byte list option"
  gx_ed :: "byte list \<Rightarrow> byte list \<Rightarrow> byte list \<Rightarrow> bool"
  gx_state_of :: "byte list \<Rightarrow> plugin_states option"
  gx_state :: "plugin_states \<Rightarrow> byte list option"
  gx_trust_of :: "byte list \<Rightarrow> trust_doc option"
  gx_trust :: "trust_doc \<Rightarrow> byte list option"

datatype registry_error = EmptyRoot | MkdirRoot | InvalidPolicy string | EmptyLabel | KeyDecode | KeyWrongSize nat
  | InvalidStatus string | EmptyPluginID | InvalidPluginID string | PathEscapes | ReadRoot | ReadStateFile | ParseState
  | ReadTrustFile | ParseTrust | WriteJSON reg_call | RemovePlugin
and reg_call = JCreate | JEncode | JClose | JRename

subsection \<open>Paths\<close>

definition filepath_Base :: "string \<Rightarrow> string" where
  "filepath_Base p = (if p = '''' then ''.''
     else (let q = rev (dropWhile (\<lambda>c. c = CHR ''/'') (rev p)); b = last (split_on CHR ''/'' q) in
       if b = '''' then ''/'' else b))"

definition backslash :: char where
  "backslash = char_of (92 :: nat)"

definition pluginDirPath :: "string list \<Rightarrow> string \<Rightarrow> registry_error + string list" where
  "pluginDirPath root i =
     (if i = '''' then Inl EmptyPluginID
      else if filepath_Base i \<noteq> i \<or> CHR ''/'' \<in> set i \<or> backslash \<in> set i then Inl (InvalidPluginID i)
      else case safeJoinWithinRoot root i of Inl _ \<Rightarrow> Inl PathEscapes | Inr dest \<Rightarrow> Inr dest)"

definition state_path :: "registry_env \<Rightarrow> string list" where
  "state_path E = gx_root E @ [''state.json'']"

definition trust_path :: "registry_env \<Rightarrow> string list" where
  "trust_path E = gx_root E @ [''trusted_keys.json'']"

text \<open>\<open>os.RemoveAll\<close>.\<close>

definition remove_tree :: "string list \<Rightarrow> plugin_fs \<Rightarrow> plugin_fs" where
  "remove_tree dir fs = (\<lambda>p. if has_prefix p dir then None else fs p)"

subsection \<open>Verification and the scan\<close>

fun trusted_keys :: "(string \<Rightarrow> byte list option) \<Rightarrow> (string \<times> string) list \<Rightarrow> byte list TrustStore \<Rightarrow> byte list TrustStore" where
  "trusted_keys b64 [] store = store"
| "trusted_keys b64 ((label, key) # ks) store = (case b64 key of
     None \<Rightarrow> trusted_keys b64 ks store
   | Some raw \<Rightarrow> if length raw \<noteq> 32 then trusted_keys b64 ks store
       else trusted_keys b64 ks (TrustStore_Add label raw store))"

text \<open>\<open>Verify\<close> only asks whether the policy is the strict one.\<close>

definition policy_of :: "string \<Rightarrow> Policy" where
  "policy_of s = (if s = ''strict'' then PolicyStrict else PolicyPermissive)"

definition verifierLocked :: "registry_env \<Rightarrow> trust_doc \<Rightarrow> Manifest \<Rightarrow> Manifest option \<times> verify_error option" where
  "verifierLocked E t m = Verify (gx_b64 E) (gx_body E) (gx_ed E) (trusted_keys (gx_b64 E) (td_Keys t) [])
     (policy_of (td_Policy t)) (Some m)"

definition broken :: "string \<Rightarrow> Manifest \<Rightarrow> entry_error \<Rightarrow> plugin_entry" where
  "broken i m e = \<lparr>pe_ID = i, pe_Manifest = m, pe_Status = StatusBroken, pe_TrustLevel = '''', pe_Error = Some e\<rparr>"

definition loadOneLocked :: "registry_env \<Rightarrow> plugin_states \<Rightarrow> trust_doc \<Rightarrow> string \<Rightarrow> byte list \<Rightarrow> plugin_entry" where
  "loadOneLocked E st t dir src = (case gx_manifest E src of
     None \<Rightarrow> broken dir zero_manifest ManifestDecode
   | Some m \<Rightarrow> (case Manifest_Validate (Some m) of
       Some e \<Rightarrow> broken dir zero_manifest (ManifestInvalid e)
     | None \<Rightarrow>
         if mf_ID m \<noteq> dir then broken dir zero_manifest (SpoofedID (mf_ID m))
         else (case verifierLocked E t m of
             (_, Some e) \<Rightarrow> broken dir m (NotTrusted e)
           | (mo, None) \<Rightarrow> (let m' = (case mo of None \<Rightarrow> m | Some x \<Rightarrow> x) in
               \<lparr>pe_ID = dir, pe_Manifest = m', pe_Status = (case st dir of None \<Rightarrow> StatusDisabled | Some s \<Rightarrow> s),
                pe_TrustLevel = mf_Trust m', pe_Error = None\<rparr>))))"

text \<open>One round of the loop. \<open>opened\<close>: the manifest could be opened and is the file that was looked at.\<close>

definition scan_dir :: "registry_env \<Rightarrow> (string \<Rightarrow> bool) \<Rightarrow> plugin_states \<Rightarrow> trust_doc \<Rightarrow> plugin_fs \<Rightarrow> string \<Rightarrow> plugin_entry option" where
  "scan_dir E opened st t fs name =
     (if fs (gx_root E @ [name]) \<noteq> Some RDir then None
      else case pluginDirPath (gx_root E) name of
        Inl _ \<Rightarrow> None
      | Inr dir \<Rightarrow> (case safeJoinWithinRoot dir ''manifest.json'' of
          Inl _ \<Rightarrow> None
        | Inr path \<Rightarrow> (case fs path of
            None \<Rightarrow> None
          | Some (RFile data) \<Rightarrow> if opened name then Some (loadOneLocked E st t name data) else None
          | Some _ \<Rightarrow> Some (broken name zero_manifest NotRegular))))"

text \<open>\<open>listed\<close>: the root could be read.\<close>

definition Refresh :: "registry_env \<Rightarrow> bool \<Rightarrow> (string \<Rightarrow> bool) \<Rightarrow> plugin_fs \<Rightarrow> plugin_registry \<Rightarrow>
    registry_error option \<times> plugin_registry" where
  "Refresh E listed opened fs r =
     (if \<not> listed then (Some ReadRoot, r\<lparr>rg_entries := Map.empty\<rparr>)
      else (None, r\<lparr>rg_entries := scan_dir E opened (rg_state r) (rg_trust r) fs\<rparr>))"

subsection \<open>The two documents\<close>

definition writeJSONAtomic :: "(reg_call \<Rightarrow> bool) \<Rightarrow> string list \<Rightarrow> byte list option \<Rightarrow> plugin_fs \<Rightarrow>
    registry_error option \<times> plugin_fs" where
  "writeJSONAtomic ok path data fs =
     (if \<not> ok JCreate then (Some (WriteJSON JCreate), fs)
      else case data of
        None \<Rightarrow> (Some (WriteJSON JEncode), fs)
      | Some b \<Rightarrow>
          if \<not> ok JEncode then (Some (WriteJSON JEncode), fs)
          else if \<not> ok JClose then (Some (WriteJSON JClose), fs)
          else if \<not> ok JRename then (Some (WriteJSON JRename), fs)
          else (None, fs(path \<mapsto> RFile b)))"

definition saveStateLocked :: "registry_env \<Rightarrow> (reg_call \<Rightarrow> bool) \<Rightarrow> plugin_states \<Rightarrow> plugin_fs \<Rightarrow>
    registry_error option \<times> plugin_fs" where
  "saveStateLocked E ok st fs = writeJSONAtomic ok (state_path E) (gx_state E st) fs"

definition saveTrustLocked :: "registry_env \<Rightarrow> (reg_call \<Rightarrow> bool) \<Rightarrow> trust_doc \<Rightarrow> plugin_fs \<Rightarrow>
    registry_error option \<times> plugin_fs" where
  "saveTrustLocked E ok t fs = writeJSONAtomic ok (trust_path E) (gx_trust E t) fs"

text \<open>\<open>readable\<close>: a file that exists can be read; a directory cannot.\<close>

definition loadState :: "registry_env \<Rightarrow> bool \<Rightarrow> plugin_fs \<Rightarrow> plugin_states \<Rightarrow> registry_error + plugin_states" where
  "loadState E readable fs st = (case fs (state_path E) of
     None \<Rightarrow> Inr st
   | Some (RFile data) \<Rightarrow> if \<not> readable then Inl ReadStateFile
       else (case gx_state_of E data of None \<Rightarrow> Inl ParseState | Some s \<Rightarrow> Inr s)
   | Some _ \<Rightarrow> Inl ReadStateFile)"

definition loadTrust :: "registry_env \<Rightarrow> bool \<Rightarrow> plugin_fs \<Rightarrow> trust_doc \<Rightarrow> registry_error + trust_doc" where
  "loadTrust E readable fs t0 = (case fs (trust_path E) of
     None \<Rightarrow> Inr t0
   | Some (RFile data) \<Rightarrow> if \<not> readable then Inl ReadTrustFile
       else (case gx_trust_of E data of None \<Rightarrow> Inl ParseTrust
         | Some t \<Rightarrow> Inr (if td_Policy t = '''' then t\<lparr>td_Policy := ''permissive''\<rparr> else t))
   | Some _ \<Rightarrow> Inl ReadTrustFile)"


subsection \<open>Operations\<close>

definition Open_registry :: "registry_env \<Rightarrow> bool \<Rightarrow> bool \<Rightarrow> bool \<Rightarrow> (string \<Rightarrow> bool) \<Rightarrow> plugin_fs \<Rightarrow> registry_error + plugin_registry" where
  "Open_registry E mkdir_ok readable listed opened fs =
     (if gx_root E = [] then Inl EmptyRoot
      else if \<not> mkdir_ok then Inl MkdirRoot
      else case loadState E readable fs Map.empty of
        Inl e \<Rightarrow> Inl e
      | Inr st \<Rightarrow> (case loadTrust E readable fs \<lparr>td_Policy = ''permissive'', td_Keys = []\<rparr> of
          Inl e \<Rightarrow> Inl e
        | Inr t \<Rightarrow> (case Refresh E listed opened fs \<lparr>rg_state = st, rg_trust = t, rg_entries = Map.empty\<rparr> of
            (Some e, _) \<Rightarrow> Inl e | (None, r) \<Rightarrow> Inr r)))"

text \<open>Saving the keys or the policy, and the scan that follows.\<close>

definition change_trust :: "registry_env \<Rightarrow> (reg_call \<Rightarrow> bool) \<Rightarrow> bool \<Rightarrow> (string \<Rightarrow> bool) \<Rightarrow> trust_doc \<Rightarrow>
    plugin_registry \<times> plugin_fs \<Rightarrow> registry_error option \<times> plugin_registry \<times> plugin_fs" where
  "change_trust E ok listed opened t s = (case s of (r, fs) \<Rightarrow>
     (let r1 = r\<lparr>rg_trust := t\<rparr> in
      case saveTrustLocked E ok t fs of
        (Some e, fs') \<Rightarrow> (Some e, r1, fs')
      | (None, fs') \<Rightarrow> (case Refresh E listed opened fs' r1 of (e, r2) \<Rightarrow> (e, r2, fs'))))"

definition SetPolicy :: "registry_env \<Rightarrow> (reg_call \<Rightarrow> bool) \<Rightarrow> bool \<Rightarrow> (string \<Rightarrow> bool) \<Rightarrow> string \<Rightarrow>
    plugin_registry \<times> plugin_fs \<Rightarrow> registry_error option \<times> plugin_registry \<times> plugin_fs" where
  "SetPolicy E ok listed opened p s =
     (if p \<noteq> ''permissive'' \<and> p \<noteq> ''strict'' then (Some (InvalidPolicy p), s)
      else change_trust E ok listed opened ((rg_trust (fst s))\<lparr>td_Policy := p\<rparr>) s)"

definition AddTrustedKey :: "registry_env \<Rightarrow> (reg_call \<Rightarrow> bool) \<Rightarrow> bool \<Rightarrow> (string \<Rightarrow> bool) \<Rightarrow> string \<Rightarrow> string \<Rightarrow>
    plugin_registry \<times> plugin_fs \<Rightarrow> registry_error option \<times> plugin_registry \<times> plugin_fs" where
  "AddTrustedKey E ok listed opened label key s =
     (if label = '''' then (Some EmptyLabel, s)
      else case gx_b64 E key of
        None \<Rightarrow> (Some KeyDecode, s)
      | Some raw \<Rightarrow>
          if length raw \<noteq> 32 then (Some (KeyWrongSize (length raw)), s)
          else (let t = rg_trust (fst s) in
            change_trust E ok listed opened (t\<lparr>td_Keys := AList.update label key (td_Keys t)\<rparr>) s))"

definition RemoveTrustedKey :: "registry_env \<Rightarrow> (reg_call \<Rightarrow> bool) \<Rightarrow> bool \<Rightarrow> (string \<Rightarrow> bool) \<Rightarrow> string \<Rightarrow>
    plugin_registry \<times> plugin_fs \<Rightarrow> registry_error option \<times> plugin_registry \<times> plugin_fs" where
  "RemoveTrustedKey E ok listed opened label s = (let t = rg_trust (fst s) in
     change_trust E ok listed opened (t\<lparr>td_Keys := AList.delete label (td_Keys t)\<rparr>) s)"

definition SetStatus :: "registry_env \<Rightarrow> (reg_call \<Rightarrow> bool) \<Rightarrow> string \<Rightarrow> string \<Rightarrow>
    plugin_registry \<times> plugin_fs \<Rightarrow> registry_error option \<times> plugin_registry \<times> plugin_fs" where
  "SetStatus E ok i st s = (case s of (r, fs) \<Rightarrow>
     (if st \<noteq> StatusEnabled \<and> st \<noteq> StatusDisabled \<and> st \<noteq> StatusQuarantined then (Some (InvalidStatus st), s)
      else (let r1 = r\<lparr>rg_state := (rg_state r)(i \<mapsto> st)\<rparr> in
        case saveStateLocked E ok (rg_state r1) fs of
          (Some e, fs') \<Rightarrow> (Some e, r1, fs')
        | (None, fs') \<Rightarrow> (None, (case rg_entries r1 i of
              None \<Rightarrow> r1
            | Some e \<Rightarrow> if pe_Status e = StatusBroken then r1
                else r1\<lparr>rg_entries := (rg_entries r1)(i \<mapsto> e\<lparr>pe_Status := st\<rparr>)\<rparr>), fs'))))"

text \<open>\<open>removed\<close>: \<open>RemoveAll\<close> succeeds; otherwise it leaves \<open>left\<close>.\<close>

definition Forget :: "registry_env \<Rightarrow> (reg_call \<Rightarrow> bool) \<Rightarrow> bool \<Rightarrow> (string list \<Rightarrow> plugin_fs \<Rightarrow> plugin_fs) \<Rightarrow> string \<Rightarrow>
    plugin_registry \<times> plugin_fs \<Rightarrow> registry_error option \<times> plugin_registry \<times> plugin_fs" where
  "Forget E ok removed left i s = (case s of (r, fs) \<Rightarrow>
     (if i = '''' then (Some EmptyPluginID, s)
      else (let r1 = r\<lparr>rg_state := (rg_state r)(i := None), rg_entries := (rg_entries r)(i := None)\<rparr> in
        case saveStateLocked E ok (rg_state r1) fs of
          (Some e, fs') \<Rightarrow> (Some e, r1, fs')
        | (None, fs') \<Rightarrow> (case pluginDirPath (gx_root E) i of
            Inl e \<Rightarrow> (Some e, r1, fs')
          | Inr dir \<Rightarrow> if removed then (None, r1, remove_tree dir fs') else (Some RemovePlugin, r1, left dir fs')))))"

definition Get_plugin :: "string \<Rightarrow> plugin_registry \<Rightarrow> plugin_entry option" where
  "Get_plugin i r = rg_entries r i"

definition TrustedKeys :: "plugin_registry \<Rightarrow> (string \<times> string) list" where
  "TrustedKeys r = sort_key fst (td_Keys (rg_trust r))"

subsection \<open>The scan is the registry\<close>

lemma split_plain: "c \<notin> set s \<Longrightarrow> split_on c s = [s]"
  by (induction s) auto

lemma rel_comps_append: "rel_comps base (base @ xs) = xs"
  by (induction base) auto

lemma rel_up: "rel_comps (base @ [x]) base = [''..'']"
  by (induction base) auto

lemma join_one: "CHR ''/'' \<notin> set n \<Longrightarrow> plain n \<Longrightarrow> join_comps base n = base @ [n]"
  by (simp add: join_comps_def split_plain plain_def)

lemma safeJoin_one:
  assumes "CHR ''/'' \<notin> set n" "plain n"
  shows "safeJoinWithinRoot base n = Inr (base @ [n])"
proof -
  have "\<not> has_prefix n ''../''" using assms(1) by (auto simp: has_prefix_iff)
  then show ?thesis using assms by (simp add: safeJoinWithinRoot_def join_one rel_comps_append Let_def plain_def)
qed

text \<open>An identifier names a directory right below the root, with one exception: \<open>.\<close> is the root itself.\<close>

lemma pluginDirPath_cases:
  assumes "pluginDirPath root i = Inr dir" "root \<noteq> []" "list_all plain root"
  shows "i = ''.'' \<and> dir = root \<or> plain i \<and> CHR ''/'' \<notin> set i \<and> dir = root @ [i]"
proof -
  have i: "i \<noteq> ''''" "CHR ''/'' \<notin> set i" "safeJoinWithinRoot root i = Inr dir"
    using assms(1) by (auto simp: pluginDirPath_def split: if_splits sum.splits)
  show ?thesis
  proof (cases "plain i")
    case True
    then show ?thesis using i safeJoin_one [of i root] by simp
  next
    case False
    then consider "i = ''.''" | "i = ''..''" using i(1) by (auto simp: plain_def)
    then show ?thesis
    proof cases
      case 1
      then show ?thesis using i(3) rel_comps_append [of root "[]"]
        by (simp add: safeJoinWithinRoot_def join_comps_def Let_def split: if_splits)
    next
      case 2
      obtain pre x where r: "root = pre @ [x]" "plain x" using assms(2,3) by (cases root rule: rev_cases) auto
      then have "join_comps root ''..'' = pre" by (simp add: join_comps_def plain_def)
      then have "rel_comps root (join_comps root ''..'') = [''..'']"
        using r(1) by (simp add: rel_up)
      then show ?thesis using i(3) 2 by (simp add: safeJoinWithinRoot_def Let_def)
    qed
  qed
qed


lemma plain_manifest: "plain ''manifest.json''" "CHR ''/'' \<notin> set ''manifest.json''"
  by (simp_all add: plain_def)

definition manifest_path :: "registry_env \<Rightarrow> string \<Rightarrow> string list" where
  "manifest_path E n = gx_root E @ [n, ''manifest.json'']"

definition good_root :: "registry_env \<Rightarrow> bool" where
  "good_root E \<longleftrightarrow> gx_root E \<noteq> [] \<and> list_all plain (gx_root E)"

text \<open>Names of directory entries: neither empty nor a reference, and without a separator.\<close>

definition valid_id :: "string \<Rightarrow> bool" where
  "valid_id n \<longleftrightarrow> plain n \<and> CHR ''/'' \<notin> set n \<and> backslash \<notin> set n"

lemma filepath_Base_one: "plain n \<Longrightarrow> CHR ''/'' \<notin> set n \<Longrightarrow> filepath_Base n = n"
proof -
  assume n: "plain n" "CHR ''/'' \<notin> set n"
  have "n \<noteq> ''''" using n(1) by (simp add: plain_def)
  then have "hd (rev n) \<in> set n" by (simp add: hd_rev)
  then have "hd (rev n) \<noteq> CHR ''/''" using n(2) by metis
  then have "dropWhile (\<lambda>c. c = CHR ''/'') (rev n) = rev n"
    using dropWhile_eq_self_iff by metis
  then show ?thesis using n by (simp add: filepath_Base_def Let_def split_plain plain_def)
qed

lemma pluginDirPath_valid: "valid_id n \<Longrightarrow> pluginDirPath root n = Inr (root @ [n])"
  using filepath_Base_one [of n] safeJoin_one [of n root] by (simp add: pluginDirPath_def valid_id_def plain_def)

lemma scan_dir_valid:
  assumes "valid_id n"
  shows "scan_dir E opened st t fs n =
    (if fs (gx_root E @ [n]) \<noteq> Some RDir then None
     else case fs (manifest_path E n) of
         None \<Rightarrow> None
       | Some (RFile data) \<Rightarrow> if opened n then Some (loadOneLocked E st t n data) else None
       | Some _ \<Rightarrow> Some (broken n zero_manifest NotRegular))"
  using assms plain_manifest safeJoin_one [of "''manifest.json''" "gx_root E @ [n]"]
  by (simp add: scan_dir_def pluginDirPath_valid manifest_path_def)

text \<open>The file system that \<open>ReadDir\<close> lists has valid names only.\<close>

definition good_fs :: "registry_env \<Rightarrow> plugin_fs \<Rightarrow> bool" where
  "good_fs E fs \<longleftrightarrow> (\<forall>n. fs (gx_root E @ [n]) \<noteq> None \<longrightarrow> valid_id n)"

lemma scan_dir_cong:
  assumes "good_fs E fs" "good_fs E fs'" "fs (gx_root E @ [n]) = Some RDir \<longleftrightarrow> fs' (gx_root E @ [n]) = Some RDir"
    "fs (manifest_path E n) = fs' (manifest_path E n)" "st n = st' n"
  shows "scan_dir E opened st t fs n = scan_dir E opened st' t fs' n"
proof (cases "fs (gx_root E @ [n]) = Some RDir")
  case True
  then have "valid_id n" using assms(1) by (simp add: good_fs_def)
  moreover have "loadOneLocked E st t n d = loadOneLocked E st' t n d" for d
    unfolding loadOneLocked_def assms(5) by (rule refl)
  ultimately show ?thesis using assms by (simp add: scan_dir_valid split: option.split fs_node.split)
qed (use assms(3) in \<open>simp add: scan_dir_def\<close>)

text \<open>The three ways a manifest goes: broken whatever the persisted states say, or taken with its state.\<close>

lemma loadOne_shape:
  "(\<exists>m e. \<forall>st. loadOneLocked E st t n src = broken n m e) \<or>
   (\<exists>m m'. gx_manifest E src = Some m \<and> Manifest_Validate (Some m) = None \<and> mf_ID m = n \<and>
      verifierLocked E t m = (m', None) \<and>
      (\<forall>st. loadOneLocked E st t n src = \<lparr>pe_ID = n, pe_Manifest = (case m' of None \<Rightarrow> m | Some x \<Rightarrow> x),
         pe_Status = (case st n of None \<Rightarrow> StatusDisabled | Some s \<Rightarrow> s),
         pe_TrustLevel = mf_Trust (case m' of None \<Rightarrow> m | Some x \<Rightarrow> x), pe_Error = None\<rparr>))"
proof (cases "gx_manifest E src")
  case None
  then show ?thesis unfolding loadOneLocked_def by fastforce
next
  case (Some m)
  note m = Some
  show ?thesis
  proof (cases "Manifest_Validate (Some m)")
    case (Some e)
    then show ?thesis using m unfolding loadOneLocked_def by fastforce
  next
    case None
    note v = None
    obtain m' r where vr: "verifierLocked E t m = (m', r)" by (cases "verifierLocked E t m")
    show ?thesis
    proof (cases "mf_ID m = n \<and> r = None")
      case True
      then have "\<forall>st. loadOneLocked E st t n src = \<lparr>pe_ID = n, pe_Manifest = (case m' of None \<Rightarrow> m | Some x \<Rightarrow> x),
         pe_Status = (case st n of None \<Rightarrow> StatusDisabled | Some s \<Rightarrow> s),
         pe_TrustLevel = mf_Trust (case m' of None \<Rightarrow> m | Some x \<Rightarrow> x), pe_Error = None\<rparr>"
        by (simp add: loadOneLocked_def m v vr Let_def)
      then show ?thesis using True m v vr by blast
    next
      case False
      then have "\<exists>m1 e. \<forall>st. loadOneLocked E st t n src = broken n m1 e"
        by (cases r) (auto simp: loadOneLocked_def m v vr)
      then show ?thesis by blast
    qed
  qed
qed

lemma disabled_not_broken: "StatusDisabled \<noteq> StatusBroken"
  by (simp add: StatusDisabled_def StatusBroken_def)

lemma loadOne_set_status:
  assumes "StatusBroken \<notin> ran st"
  shows "loadOneLocked E (st(n \<mapsto> s)) t n src = (let e = loadOneLocked E st t n src in
    if pe_Status e = StatusBroken then e else e\<lparr>pe_Status := s\<rparr>)"
proof -
  have "st n \<noteq> Some StatusBroken" using assms by (auto simp: ran_def)
  then have nb: "(case st n of None \<Rightarrow> StatusDisabled | Some x \<Rightarrow> x) \<noteq> StatusBroken"
    using disabled_not_broken by (auto split: option.split)
  from loadOne_shape [of E t n src] show ?thesis
  proof
    assume "\<exists>m e. \<forall>st. loadOneLocked E st t n src = broken n m e"
    then show ?thesis by (auto simp: broken_def Let_def)
  next
    assume "\<exists>m m'. gx_manifest E src = Some m \<and> Manifest_Validate (Some m) = None \<and> mf_ID m = n \<and>
      verifierLocked E t m = (m', None) \<and>
      (\<forall>st. loadOneLocked E st t n src = \<lparr>pe_ID = n, pe_Manifest = (case m' of None \<Rightarrow> m | Some x \<Rightarrow> x),
         pe_Status = (case st n of None \<Rightarrow> StatusDisabled | Some s \<Rightarrow> s),
         pe_TrustLevel = mf_Trust (case m' of None \<Rightarrow> m | Some x \<Rightarrow> x), pe_Error = None\<rparr>)"
    then obtain m m' where "\<And>st. loadOneLocked E st t n src = \<lparr>pe_ID = n, pe_Manifest = (case m' of None \<Rightarrow> m | Some x \<Rightarrow> x),
         pe_Status = (case st n of None \<Rightarrow> StatusDisabled | Some s \<Rightarrow> s),
         pe_TrustLevel = mf_Trust (case m' of None \<Rightarrow> m | Some x \<Rightarrow> x), pe_Error = None\<rparr>" by blast
    then show ?thesis using nb by (simp add: Let_def)
  qed
qed

lemma scan_set_status:
  assumes "StatusBroken \<notin> ran st" "good_fs E fs"
  shows "scan_dir E opened (st(i \<mapsto> s)) t fs i = map_option (\<lambda>e. if pe_Status e = StatusBroken then e else e\<lparr>pe_Status := s\<rparr>)
    (scan_dir E opened st t fs i)"
proof (cases "fs (gx_root E @ [i]) = Some RDir")
  case True
  then have v: "valid_id i" using assms(2) by (simp add: good_fs_def)
  show ?thesis
    unfolding scan_dir_valid [OF v] loadOne_set_status [OF assms(1)] Let_def
    using True by (simp add: broken_def split: option.split fs_node.split)
qed (simp add: scan_dir_def)

subsection \<open>The registry as a state machine\<close>

text \<open>
  Operations that reported no error, and scans after plugins were put into the directory or taken
  out of it by others. \<open>Forget\<close> is called for the names of plugins.
\<close>

definition own_files :: "string list" where
  "own_files = [''state.json'', ''trusted_keys.json'']"

inductive reg_step :: "registry_env \<Rightarrow> plugin_registry \<times> plugin_fs \<Rightarrow> plugin_registry \<times> plugin_fs \<Rightarrow> bool" for E where
  reg_policy: "SetPolicy E ok listed opened p s = (None, s') \<Longrightarrow> reg_step E s s'"
| reg_add: "AddTrustedKey E ok listed opened label key s = (None, s') \<Longrightarrow> reg_step E s s'"
| reg_remove: "RemoveTrustedKey E ok listed opened label s = (None, s') \<Longrightarrow> reg_step E s s'"
| reg_status: "SetStatus E ok i st s = (None, s') \<Longrightarrow> reg_step E s s'"
| reg_forget: "valid_id i \<Longrightarrow> i \<notin> set own_files \<Longrightarrow> Forget E ok removed left i s = (None, s') \<Longrightarrow> reg_step E s s'"
| reg_rescan: "good_fs E fs' \<Longrightarrow> fs' (state_path E) = fs (state_path E) \<Longrightarrow> fs' (trust_path E) = fs (trust_path E) \<Longrightarrow>
    Refresh E listed opened fs' r = (None, r') \<Longrightarrow> reg_step E (r, fs) (r', fs')"

definition reg_start :: "registry_env \<Rightarrow> plugin_registry \<times> plugin_fs \<Rightarrow> bool" where
  "reg_start E s \<longleftrightarrow> (\<exists>mk listed opened. Open_registry E mk True listed opened (snd s) = Inr (fst s)) \<and>
     good_fs E (snd s) \<and> StatusBroken \<notin> ran (rg_state (fst s))"

abbreviation reg_reach :: "registry_env \<Rightarrow> plugin_registry \<times> plugin_fs \<Rightarrow> bool" where
  "reg_reach E \<equiv> reach (reg_start E) (reg_step E)"

text \<open>The encoding of the states can be read back.\<close>

definition states_json :: "registry_env \<Rightarrow> bool" where
  "states_json E \<longleftrightarrow> (\<forall>st. case gx_state E st of None \<Rightarrow> True | Some b \<Rightarrow> gx_state_of E b = Some st)"

definition registry_inv :: "registry_env \<Rightarrow> plugin_registry \<times> plugin_fs \<Rightarrow> bool" where
  "registry_inv E s \<longleftrightarrow> (case s of (r, fs) \<Rightarrow>
     (\<exists>opened. rg_entries r = scan_dir E opened (rg_state r) (rg_trust r) fs) \<and>
     loadState E True fs Map.empty = Inr (rg_state r) \<and> fs (trust_path E) \<noteq> Some RDir \<and> good_fs E fs \<and>
     StatusBroken \<notin> ran (rg_state r))"

lemma scan_write:
  assumes "good_fs E fs" "path = gx_root E @ [f]" "valid_id f" "fs path \<noteq> Some RDir"
  shows "good_fs E (fs(path \<mapsto> RFile b))" "scan_dir E opened st t (fs(path \<mapsto> RFile b)) = scan_dir E opened st t fs"
proof -
  show g: "good_fs E (fs(path \<mapsto> RFile b))" using assms(1-3) by (auto simp: good_fs_def)
  have "scan_dir E opened st t (fs(path \<mapsto> RFile b)) n = scan_dir E opened st t fs n" for n
    by (rule scan_dir_cong [OF g assms(1)]) (use assms(2,4) in \<open>auto simp: manifest_path_def\<close>)
  then show "scan_dir E opened st t (fs(path \<mapsto> RFile b)) = scan_dir E opened st t fs" by blast
qed

lemma own_valid: "valid_id ''state.json''" "valid_id ''trusted_keys.json''"
proof -
  have "backslash \<notin> set ''state.json''" "backslash \<notin> set ''trusted_keys.json''"
    by (simp_all add: backslash_def char_of_def)
  then show "valid_id ''state.json''" "valid_id ''trusted_keys.json''" by (simp_all add: valid_id_def plain_def)
qed

lemma paths_apart: "state_path E \<noteq> trust_path E"
  by (simp add: state_path_def trust_path_def)

lemma state_not_dir: "loadState E True fs st = Inr st' \<Longrightarrow> fs (state_path E) \<noteq> Some RDir"
  by (auto simp: loadState_def split: option.splits)

lemma loadState_cong: "fs' (state_path E) = fs (state_path E) \<Longrightarrow> loadState E r fs' st = loadState E r fs st"
  by (simp add: loadState_def)

lemma write_ok: "writeJSONAtomic ok path data fs = (None, fs') \<Longrightarrow> \<exists>b. data = Some b \<and> fs' = fs(path \<mapsto> RFile b)"
  by (auto simp: writeJSONAtomic_def split: if_splits option.splits)

lemma saved_state: "states_json E \<Longrightarrow> gx_state E st = Some b \<Longrightarrow> gx_state_of E b = Some st"
  by (auto simp: states_json_def split: option.splits)

lemma reg_inv_trust:
  assumes i: "registry_inv E s" and c: "change_trust E ok listed opened t s = (None, s')"
  shows "registry_inv E s' \<and> rg_trust (fst s') = t"
proof -
  obtain r fs where s: "s = (r, fs)" by (cases s)
  from c s obtain b r2 where w: "saveTrustLocked E ok t fs = (None, fs(trust_path E \<mapsto> RFile b))"
    and r2: "Refresh E listed opened (fs(trust_path E \<mapsto> RFile b)) (r\<lparr>rg_trust := t\<rparr>) = (None, r2)"
    "s' = (r2, fs(trust_path E \<mapsto> RFile b))"
    by (auto simp: change_trust_def Let_def saveTrustLocked_def dest: write_ok split: prod.splits option.splits)
  have r2': "r2 = r\<lparr>rg_trust := t, rg_entries := scan_dir E opened (rg_state r) t (fs(trust_path E \<mapsto> RFile b))\<rparr>"
    using r2(1) by (auto simp: Refresh_def split: if_splits)
  have "good_fs E (fs(trust_path E \<mapsto> RFile b))"
    using i s own_valid(2) by (intro scan_write(1)) (auto simp: registry_inv_def trust_path_def)
  moreover have "loadState E True (fs(trust_path E \<mapsto> RFile b)) Map.empty = loadState E True fs Map.empty"
    using paths_apart by (intro loadState_cong) simp
  ultimately show ?thesis using i s by (auto simp: registry_inv_def r2(2) r2')
qed

lemma reg_inv_status:
  assumes j: "states_json E" and i: "registry_inv E s" and c: "SetStatus E ok n st s = (None, s')"
  shows "registry_inv E s'"
proof -
  obtain r fs where s: "s = (r, fs)" by (cases s)
  let ?st = "(rg_state r)(n \<mapsto> st)"
  from i s obtain opened where e: "rg_entries r = scan_dir E opened (rg_state r) (rg_trust r) fs"
    and ld: "loadState E True fs Map.empty = Inr (rg_state r)" and g: "good_fs E fs" and nb: "StatusBroken \<notin> ran (rg_state r)"
    by (auto simp: registry_inv_def)
  have st: "st \<noteq> StatusBroken"
    using c s by (auto simp: SetStatus_def StatusBroken_def StatusEnabled_def StatusDisabled_def StatusQuarantined_def split: if_splits)
  from c s obtain b where b: "gx_state E ?st = Some b"
    and s': "s' = (case rg_entries r n of None \<Rightarrow> r\<lparr>rg_state := ?st\<rparr>
        | Some e \<Rightarrow> if pe_Status e = StatusBroken then r\<lparr>rg_state := ?st\<rparr>
            else r\<lparr>rg_state := ?st, rg_entries := (rg_entries r)(n \<mapsto> e\<lparr>pe_Status := st\<rparr>)\<rparr>,
      fs(state_path E \<mapsto> RFile b))"
    by (auto simp: SetStatus_def Let_def saveStateLocked_def dest!: write_ok split: prod.splits option.splits if_splits)
  let ?fs = "fs(state_path E \<mapsto> RFile b)"
  note sw = scan_write [OF g _ own_valid(1), of "state_path E"]
  have g': "good_fs E ?fs" and sc: "scan_dir E opened ?st (rg_trust r) ?fs = scan_dir E opened ?st (rg_trust r) fs"
    using sw state_not_dir [OF ld] by (simp_all add: state_path_def)
  have entries: "rg_entries (fst s') = scan_dir E opened ?st (rg_trust r) fs"
  proof
    fix k
    show "rg_entries (fst s') k = scan_dir E opened ?st (rg_trust r) fs k"
    proof (cases "k = n")
      case True
      then show ?thesis using scan_set_status [OF nb g, of opened n st "rg_trust r"] e
        by (auto simp: s' split: option.split)
    next
      case False
      then have "scan_dir E opened ?st (rg_trust r) fs k = scan_dir E opened (rg_state r) (rg_trust r) fs k"
        by (intro scan_dir_cong [OF g g]) simp_all
      then show ?thesis using False e by (auto simp: s' split: option.split)
    qed
  qed
  have r': "rg_state (fst s') = ?st" "rg_trust (fst s') = rg_trust r" "snd s' = ?fs"
    by (auto simp: s' split: option.split)
  have "loadState E True ?fs Map.empty = Inr ?st" using saved_state [OF j b] by (simp add: loadState_def)
  moreover have "StatusBroken \<notin> ran ?st" using nb st by (auto simp: ran_def)
  moreover have "?fs (trust_path E) \<noteq> Some RDir" using i s paths_apart [of E] by (simp add: registry_inv_def)
  ultimately show ?thesis using entries r' g' sc unfolding registry_inv_def case_prod_beta by metis
qed

lemma reg_inv_forget:
  assumes j: "states_json E" and i: "registry_inv E s" and n: "valid_id n" "n \<notin> set own_files"
    and c: "Forget E ok removed left n s = (None, s')"
  shows "registry_inv E s'"
proof -
  obtain r fs where s: "s = (r, fs)" by (cases s)
  let ?st = "(rg_state r)(n := None)"
  from i s obtain opened where e: "rg_entries r = scan_dir E opened (rg_state r) (rg_trust r) fs"
    and ld: "loadState E True fs Map.empty = Inr (rg_state r)" and g: "good_fs E fs" and nb: "StatusBroken \<notin> ran (rg_state r)"
    by (auto simp: registry_inv_def)
  from c s obtain b where b: "gx_state E ?st = Some b"
    and s': "s' = (r\<lparr>rg_state := ?st, rg_entries := (rg_entries r)(n := None)\<rparr>,
      remove_tree (gx_root E @ [n]) (fs(state_path E \<mapsto> RFile b)))"
    by (auto simp: Forget_def Let_def saveStateLocked_def pluginDirPath_valid [OF n(1)] dest!: write_ok
      split: prod.splits option.splits if_splits)
  let ?fs = "fs(state_path E \<mapsto> RFile b)"
  let ?fs' = "remove_tree (gx_root E @ [n]) ?fs"
  note sw = scan_write [OF g _ own_valid(1), of "state_path E"]
  have g1: "good_fs E ?fs" and sc: "scan_dir E opened (rg_state r) (rg_trust r) ?fs = scan_dir E opened (rg_state r) (rg_trust r) fs"
    using sw state_not_dir [OF ld] by (simp_all add: state_path_def)
  have away: "?fs' (gx_root E @ k # q) = (if k = n then None else ?fs (gx_root E @ k # q))" for k q
    by (simp add: remove_tree_def has_prefix_iff)
  have g': "good_fs E ?fs'" using g1 away [of _ "[]"] by (auto simp: good_fs_def)
  have entries: "(rg_entries r)(n := None) = scan_dir E opened ?st (rg_trust r) ?fs'"
  proof
    fix k
    show "((rg_entries r)(n := None)) k = scan_dir E opened ?st (rg_trust r) ?fs' k"
    proof (cases "k = n")
      case True
      then show ?thesis using away [of n "[]"] by (simp add: scan_dir_def)
    next
      case False
      then have "scan_dir E opened ?st (rg_trust r) ?fs' k = scan_dir E opened (rg_state r) (rg_trust r) ?fs k"
        using away [of k] by (intro scan_dir_cong [OF g' g1]) (simp_all add: manifest_path_def)
      then show ?thesis using False e sc by simp
    qed
  qed
  have own: "?fs' (state_path E) = Some (RFile b)" "?fs' (trust_path E) = fs (trust_path E)"
    using away [of _ "[]"] n(2) by (auto simp: state_path_def trust_path_def own_files_def)
  have "loadState E True ?fs' Map.empty = Inr ?st" using saved_state [OF j b] own(1) by (simp add: loadState_def)
  moreover have "StatusBroken \<notin> ran ?st" using nb by (auto simp: ran_def split: if_splits)
  moreover have "fs (trust_path E) \<noteq> Some RDir" using i s by (simp add: registry_inv_def)
  ultimately show ?thesis using entries g' own(2) by (auto simp: registry_inv_def s')
qed

lemma Refresh_ok: "Refresh E listed opened fs r = (None, r') \<Longrightarrow>
    r' = r\<lparr>rg_entries := scan_dir E opened (rg_state r) (rg_trust r) fs\<rparr>"
  by (simp add: Refresh_def split: if_splits)

lemma reg_inv_rescan:
  assumes "registry_inv E (r, fs)" "good_fs E fs'" "fs' (state_path E) = fs (state_path E)" "fs' (trust_path E) = fs (trust_path E)"
    "Refresh E listed opened fs' r = (None, r')"
  shows "registry_inv E (r', fs')"
  using assms(1,2,4) Refresh_ok [OF assms(5)] loadState_cong [of fs' E fs True Map.empty, OF assms(3)] by (auto simp: registry_inv_def)

lemma loadState_readable: "loadState E mk fs st = Inr st' \<Longrightarrow> loadState E True fs st = Inr st'"
  by (auto simp: loadState_def split: option.splits fs_node.splits if_splits)

lemma loadTrust_not_dir: "loadTrust E mk fs t0 = Inr t \<Longrightarrow> fs (trust_path E) \<noteq> Some RDir"
  by (auto simp: loadTrust_def split: option.splits)

lemma reg_inv_start:
  assumes "reg_start E s"
  shows "registry_inv E s"
proof -
  obtain r fs where s: "s = (r, fs)" by (cases s)
  from assms s obtain mk listed opened where o: "Open_registry E mk True listed opened fs = Inr r"
    and g: "good_fs E fs" "StatusBroken \<notin> ran (rg_state r)" by (auto simp: reg_start_def)
  from o obtain st t where l: "loadState E True fs Map.empty = Inr st"
    "loadTrust E True fs \<lparr>td_Policy = ''permissive'', td_Keys = []\<rparr> = Inr t"
    and rf: "Refresh E listed opened fs \<lparr>rg_state = st, rg_trust = t, rg_entries = Map.empty\<rparr> = (None, r)"
    by (auto simp: Open_registry_def split: if_splits sum.splits prod.splits option.splits)
  show ?thesis using g l(1) loadTrust_not_dir [OF l(2)] by (auto simp: registry_inv_def s Refresh_ok [OF rf])
qed

lemma change_trust_step: "registry_inv E s \<Longrightarrow> change_trust E ok listed opened t s = (None, s') \<Longrightarrow> registry_inv E s'"
  using reg_inv_trust by blast

lemma reg_inv_step: "reg_step E s s' \<Longrightarrow> states_json E \<Longrightarrow> registry_inv E s \<Longrightarrow> registry_inv E s'"
proof (induction rule: reg_step.induct)
  case (reg_policy ok listed opened p s s')
  then show ?case using change_trust_step by (auto simp: SetPolicy_def split: if_splits)
next
  case (reg_add ok listed opened label key s s')
  then show ?case using change_trust_step by (auto simp: AddTrustedKey_def Let_def split: if_splits option.splits)
next
  case (reg_remove ok listed opened label s s')
  then show ?case using change_trust_step by (auto simp: RemoveTrustedKey_def Let_def)
next
  case (reg_status ok i st s s')
  then show ?case using reg_inv_status by blast
next
  case (reg_forget i ok removed left s s')
  then show ?case using reg_inv_forget by blast
next
  case (reg_rescan fs' fs listed opened r r')
  then show ?case using reg_inv_rescan by blast
qed

interpretation reg_sys: invariant_system "reg_start E" "reg_step E" "\<lambda>s. states_json E \<longrightarrow> registry_inv E s"
  using reg_inv_start reg_inv_step by unfold_locales blast+

subsection \<open>What runs has been allowed\<close>

lemma trusted_keys_in:
  "(l, pub) \<in> set (trusted_keys b64 ks store) \<Longrightarrow>
    (l, pub) \<in> set store \<or> (\<exists>key. (l, key) \<in> set ks \<and> b64 key = Some pub \<and> length pub = 32)"
proof (induction b64 ks store rule: trusted_keys.induct)
  case (2 b64 label key ks store)
  then show ?case by (auto simp: TrustStore_Add_def split: option.splits if_splits)
qed simp

text \<open>A manifest the registry accepts: signed with a trusted key, or unsigned where that is allowed.\<close>

definition endorsed_manifest :: "registry_env \<Rightarrow> trust_doc \<Rightarrow> Manifest \<Rightarrow> bool" where
  "endorsed_manifest E t m \<longleftrightarrow>
     (\<exists>sig body l key pub. gx_b64 E (mf_SignatureB64 m) = Some sig \<and> gx_body E (manifestBody m) = Some body \<and>
        (l, key) \<in> set (td_Keys t) \<and> gx_b64 E key = Some pub \<and> length pub = 32 \<and> gx_ed E pub body sig) \<or>
     mf_SignatureB64 m = '''' \<and> td_Policy t \<noteq> ''strict''"

lemma verifierLocked_endorsed:
  assumes "verifierLocked E t m = (Some m', None)"
  shows "m' = m\<lparr>mf_Trust := mf_Trust m'\<rparr> \<and> endorsed_manifest E t m"
  using Verify_accepts [OF assms [unfolded verifierLocked_def]] trusted_keys_in [of _ _ "gx_b64 E" "td_Keys t" "[]"]
  unfolding endorsed_manifest_def policy_of_def by (auto split: if_splits) blast+

lemma verifierLocked_some: "verifierLocked E t m = (mo, None) \<Longrightarrow> \<exists>m'. mo = Some m'"
  by (auto simp: verifierLocked_def Verify_def split: if_splits option.splits)

lemma sound_entry:
  assumes "scan_dir E opened st t fs i = Some e" "good_fs E fs" "pe_Status e \<noteq> StatusBroken"
  shows "\<exists>data m. fs (manifest_path E i) = Some (RFile data) \<and> gx_manifest E data = Some m \<and>
    Manifest_Validate (Some m) = None \<and> mf_ID m = i \<and> pe_Manifest e = m\<lparr>mf_Trust := pe_TrustLevel e\<rparr> \<and>
    pe_Status e = (case st i of None \<Rightarrow> StatusDisabled | Some s \<Rightarrow> s) \<and> endorsed_manifest E t m"
proof -
  from assms(1) have "fs (gx_root E @ [i]) \<noteq> None" by (auto simp: scan_dir_def split: if_splits)
  with assms(2) have v: "valid_id i" by (auto simp: good_fs_def)
  from assms(1,3) obtain data where d: "fs (manifest_path E i) = Some (RFile data)" "e = loadOneLocked E st t i data"
    by (auto simp: scan_dir_valid [OF v] broken_def split: if_splits option.splits fs_node.splits)
  from loadOne_shape [of E t i data] assms(3) obtain m mo where m: "gx_manifest E data = Some m" "Manifest_Validate (Some m) = None"
    "mf_ID m = i" "verifierLocked E t m = (mo, None)" "loadOneLocked E st t i data = \<lparr>pe_ID = i,
      pe_Manifest = (case mo of None \<Rightarrow> m | Some x \<Rightarrow> x), pe_Status = (case st i of None \<Rightarrow> StatusDisabled | Some s \<Rightarrow> s),
      pe_TrustLevel = mf_Trust (case mo of None \<Rightarrow> m | Some x \<Rightarrow> x), pe_Error = None\<rparr>"
    by (auto simp: d(2) broken_def)
  from m(4) obtain m' where m': "mo = Some m'" using verifierLocked_some by blast
  show ?thesis using d m verifierLocked_endorsed [of E t m m'] m' by auto
qed

lemma plugin_enabled_sound:
  assumes "reg_reach E (r, fs)" "states_json E" "rg_entries r i = Some e" "pe_Status e = StatusEnabled"
  shows "rg_state r i = Some StatusEnabled \<and> loadState E True fs Map.empty = Inr (rg_state r) \<and>
    (\<exists>data m. fs (manifest_path E i) = Some (RFile data) \<and> gx_manifest E data = Some m \<and>
       Manifest_Validate (Some m) = None \<and> mf_ID m = i \<and> pe_Manifest e = m\<lparr>mf_Trust := pe_TrustLevel e\<rparr> \<and>
       endorsed_manifest E (rg_trust r) m)"
proof -
  have iv: "registry_inv E (r, fs)" using reg_sys.reach_inv [OF assms(1)] assms(2) by blast
  then obtain opened where "scan_dir E opened (rg_state r) (rg_trust r) fs i = Some e"
    using assms(3) by (auto simp: registry_inv_def)
  moreover have "StatusEnabled \<noteq> StatusBroken" "StatusEnabled \<noteq> StatusDisabled"
    by (simp_all add: StatusEnabled_def StatusBroken_def StatusDisabled_def)
  ultimately have "\<exists>data m. fs (manifest_path E i) = Some (RFile data) \<and> gx_manifest E data = Some m \<and>
    Manifest_Validate (Some m) = None \<and> mf_ID m = i \<and> pe_Manifest e = m\<lparr>mf_Trust := pe_TrustLevel e\<rparr> \<and>
    pe_Status e = (case rg_state r i of None \<Rightarrow> StatusDisabled | Some s \<Rightarrow> s) \<and> endorsed_manifest E (rg_trust r) m"
    using iv assms(4) by (intro sound_entry) (auto simp: registry_inv_def)
  then show ?thesis using iv assms(4) \<open>StatusEnabled \<noteq> StatusDisabled\<close>
    by (auto simp: registry_inv_def split: option.splits)
qed

subsection \<open>What removing a plugin touches\<close>

lemma Forget_confined:
  assumes "good_root E" "i \<noteq> ''.''" "Forget E ok True left i (r, fs) = (e, r', fs')"
    "\<not> has_prefix p (gx_root E @ [i])" "p \<noteq> state_path E"
  shows "fs' p = fs p"
proof -
  have w: "fs1 p = fs p" if "saveStateLocked E ok st fs = (e1, fs1)" for e1 fs1 st
    using that assms(5) by (auto simp: saveStateLocked_def writeJSONAtomic_def split: if_splits option.splits)
  have d: "dir = gx_root E @ [i]" if "pluginDirPath (gx_root E) i = Inr dir" for dir
    using pluginDirPath_cases [OF that] assms(1,2) by (auto simp: good_root_def)
  show ?thesis using assms(3,4)
    by (auto simp: Forget_def Let_def remove_tree_def dest!: w dest: d split: if_splits prod.splits option.splits sum.splits)
qed

text \<open>The name \<open>.\<close> passes the checks, and stands for the root with all plugins and both documents.\<close>

lemma pluginDirPath_dot: "pluginDirPath root ''.'' = Inr root"
proof -
  have "filepath_Base ''.'' = ''.''" by (simp add: filepath_Base_def)
  moreover have "backslash \<notin> set ''.''" by (simp add: backslash_def char_of_def)
  moreover have "safeJoinWithinRoot root ''.'' = Inr root"
    using rel_comps_append [of root "[]"] by (simp add: safeJoinWithinRoot_def join_comps_def Let_def)
  ultimately show ?thesis by (simp add: pluginDirPath_def)
qed

lemma Forget_dot:
  assumes "saveStateLocked E ok ((rg_state r)(''.'' := None)) fs = (None, fs1)"
  shows "\<exists>r' fs'. Forget E ok True left ''.'' (r, fs) = (None, r', fs') \<and> (\<forall>p. fs' (gx_root E @ p) = None)"
  using assms by (simp add: Forget_def pluginDirPath_dot Let_def remove_tree_def has_prefix_iff)

text \<open>When the keys cannot be saved the stricter policy is in force, but nothing has been checked again.\<close>

lemma SetPolicy_unsaved:
  assumes "saveTrustLocked E ok ((rg_trust r)\<lparr>td_Policy := ''strict''\<rparr>) fs = (Some e, fs1)"
  shows "SetPolicy E ok listed opened ''strict'' (r, fs) =
    (Some e, r\<lparr>rg_trust := (rg_trust r)\<lparr>td_Policy := ''strict''\<rparr>\<rparr>, fs1)"
  using assms by (simp add: SetPolicy_def change_trust_def Let_def)

end
