(* ===== verification/PluginHistory.thy ===== *)
theory PluginHistory
  imports PluginRegistry
begin

text \<open>
  The registry of external plugins (\<open>app/extplugin/registry.go\<close>) under everything that can happen to
  it: operations that fail half-way, scans that cannot list the directory, and a directory that
  others change at any time without a scan. What is then still known of a plugin that is reported
  as enabled refers to the last completed scan, which a history beside the registry remembers.
\<close>

subsection \<open>The history\<close>

text \<open>The keys, the policy and the files that the last completed scan saw; whether a scan, or a change of
  the keys or the policy, is unfinished or has failed since; and the plugins that were asked to be enabled.\<close>

record plugin_history =
  ph_trust :: trust_doc
  ph_fs :: plugin_fs
  ph_stale :: bool
  ph_asked :: "string set"

definition scanned :: "registry_error option \<Rightarrow> plugin_registry \<times> plugin_fs \<Rightarrow> plugin_history \<Rightarrow> plugin_history" where
  "scanned e s h = (case e of
     None \<Rightarrow> h\<lparr>ph_trust := rg_trust (fst s), ph_fs := snd s, ph_stale := False\<rparr>
   | Some _ \<Rightarrow> h\<lparr>ph_stale := True\<rparr>)"

text \<open>Asking counts even if the answer could not be saved: the next scan takes it from memory.
  Withdrawing counts only if it succeeded.\<close>

definition decided :: "registry_error option \<Rightarrow> string \<Rightarrow> string \<Rightarrow> plugin_history \<Rightarrow> plugin_history" where
  "decided e i st h = h\<lparr>ph_asked := (if st = StatusEnabled then insert i (ph_asked h)
     else if e = None then ph_asked h - {i} else ph_asked h)\<rparr>"

text \<open>Whatever the calls answer. \<open>hist_trust\<close> is the critical section that the three operations on
  policy and keys run before their scan, on its own: another operation may come in between.\<close>

inductive history_step :: "registry_env \<Rightarrow> (plugin_registry \<times> plugin_fs) \<times> plugin_history \<Rightarrow>
    (plugin_registry \<times> plugin_fs) \<times> plugin_history \<Rightarrow> bool" for E where
  hist_policy: "SetPolicy E ok listed opened p s = (e, s') \<Longrightarrow> history_step E (s, h) (s', scanned e s' h)"
| hist_add: "AddTrustedKey E ok listed opened label key s = (e, s') \<Longrightarrow> history_step E (s, h) (s', scanned e s' h)"
| hist_remove: "RemoveTrustedKey E ok listed opened label s = (e, s') \<Longrightarrow> history_step E (s, h) (s', scanned e s' h)"
| hist_trust: "saveTrustLocked E ok t fs = (e, fs') \<Longrightarrow>
    history_step E ((r, fs), h) ((r\<lparr>rg_trust := t\<rparr>, fs'), h\<lparr>ph_stale := True\<rparr>)"
| hist_scan: "Refresh E listed opened fs r = (e, r') \<Longrightarrow> history_step E ((r, fs), h) ((r', fs), scanned e (r', fs) h)"
| hist_status: "SetStatus E ok i st s = (e, s') \<Longrightarrow> history_step E (s, h) (s', decided e i st h)"
| hist_forget: "i \<noteq> '''' \<Longrightarrow> Forget E ok removed left i s = (e, s') \<Longrightarrow>
    history_step E (s, h) (s', h\<lparr>ph_asked := ph_asked h - {i}\<rparr>)"
| hist_disk: "history_step E ((r, fs), h) ((r, fs'), h)"

text \<open>Opening the registry on any directory: what the saved states enable counts as asked for.\<close>

definition history_start :: "registry_env \<Rightarrow> (plugin_registry \<times> plugin_fs) \<times> plugin_history \<Rightarrow> bool" where
  "history_start E s \<longleftrightarrow> (case s of ((r, fs), h) \<Rightarrow>
     (\<exists>mk readable listed opened. Open_registry E mk readable listed opened fs = Inr r) \<and>
     h = \<lparr>ph_trust = rg_trust r, ph_fs = fs, ph_stale = False, ph_asked = {i. rg_state r i = Some StatusEnabled}\<rparr>)"

abbreviation history_reach :: "registry_env \<Rightarrow> (plugin_registry \<times> plugin_fs) \<times> plugin_history \<Rightarrow> bool" where
  "history_reach E \<equiv> reach (history_start E) (history_step E)"

subsection \<open>An entry that a scan took\<close>

text \<open>The file that a scan reads for the directory of that name.\<close>

definition manifest_at :: "registry_env \<Rightarrow> plugin_fs \<Rightarrow> string \<Rightarrow> byte list option" where
  "manifest_at E fs i =
     (if fs (gx_root E @ [i]) \<noteq> Some RDir then None
      else case pluginDirPath (gx_root E) i of
        Inl _ \<Rightarrow> None
      | Inr dir \<Rightarrow> (case safeJoinWithinRoot dir ''manifest.json'' of
          Inl _ \<Rightarrow> None
        | Inr path \<Rightarrow> (case fs path of Some (RFile data) \<Rightarrow> Some data | _ \<Rightarrow> None)))"

lemma manifest_at_valid: "valid_id i \<Longrightarrow> manifest_at E fs i = Some data \<longleftrightarrow>
    fs (gx_root E @ [i]) = Some RDir \<and> fs (manifest_path E i) = Some (RFile data)"
  using plain_manifest safeJoin_one [of "''manifest.json''" "gx_root E @ [i]"]
  by (simp add: manifest_at_def pluginDirPath_valid manifest_path_def split: option.split fs_node.split)

definition taken :: "registry_env \<Rightarrow> trust_doc \<Rightarrow> plugin_fs \<Rightarrow> string \<Rightarrow> plugin_entry \<Rightarrow> bool" where
  "taken E t fs i e \<longleftrightarrow> pe_Error e = None \<and> (\<exists>data m. manifest_at E fs i = Some data \<and> gx_manifest E data = Some m \<and>
     Manifest_Validate (Some m) = None \<and> mf_ID m = i \<and> pe_Manifest e = m\<lparr>mf_Trust := pe_TrustLevel e\<rparr> \<and>
     endorsed_manifest E t m)"

lemma scan_data:
  assumes "scan_dir E opened st t fs i = Some e"
  shows "e = broken i zero_manifest NotRegular \<or> (\<exists>data. manifest_at E fs i = Some data \<and> e = loadOneLocked E st t i data)"
  using assms by (auto simp: scan_dir_def manifest_at_def split: if_splits sum.splits option.splits fs_node.splits)

lemma scan_taken:
  assumes "scan_dir E opened st t fs i = Some e"
  shows "pe_Status e = StatusBroken \<and> pe_Error e \<noteq> None \<or>
    taken E t fs i e \<and> pe_Status e = (case st i of None \<Rightarrow> StatusDisabled | Some s \<Rightarrow> s)"
  using scan_data [OF assms]
proof (elim disjE exE conjE)
  fix data assume d: "manifest_at E fs i = Some data" "e = loadOneLocked E st t i data"
  from loadOne_shape [of E t i data] show ?thesis
  proof (elim disjE exE conjE)
    fix m mo
    assume m: "gx_manifest E data = Some m" "Manifest_Validate (Some m) = None" "mf_ID m = i" "verifierLocked E t m = (mo, None)"
      "\<forall>st. loadOneLocked E st t i data = \<lparr>pe_ID = i, pe_Manifest = (case mo of None \<Rightarrow> m | Some x \<Rightarrow> x),
         pe_Status = (case st i of None \<Rightarrow> StatusDisabled | Some s \<Rightarrow> s),
         pe_TrustLevel = mf_Trust (case mo of None \<Rightarrow> m | Some x \<Rightarrow> x), pe_Error = None\<rparr>"
    from m(4) obtain m' where m': "mo = Some m'" using verifierLocked_some by blast
    then show ?thesis using d m verifierLocked_endorsed [of E t m m'] by (auto simp: taken_def)
  qed (simp add: d broken_def)
qed (simp add: broken_def)

subsection \<open>What stays true\<close>

definition entry_known :: "registry_env \<Rightarrow> plugin_history \<Rightarrow> string \<Rightarrow> plugin_entry \<Rightarrow> bool" where
  "entry_known E h i e \<longleftrightarrow> (pe_Status e = StatusBroken \<or> taken E (ph_trust h) (ph_fs h) i e) \<and>
     (pe_Status e = StatusEnabled \<longrightarrow> i \<in> ph_asked h)"

definition history_inv :: "registry_env \<Rightarrow> (plugin_registry \<times> plugin_fs) \<times> plugin_history \<Rightarrow> bool" where
  "history_inv E s \<longleftrightarrow> (case s of ((r, fs), h) \<Rightarrow>
     (\<forall>i e. rg_entries r i = Some e \<longrightarrow> entry_known E h i e) \<and>
     (\<forall>i. rg_state r i = Some StatusEnabled \<longrightarrow> i \<in> ph_asked h) \<and>
     (ph_stale h \<or> rg_trust r = ph_trust h))"

lemma scan_known:
  assumes "scan_dir E opened st t fs i = Some e" "\<And>k. st k = Some StatusEnabled \<Longrightarrow> k \<in> ph_asked h"
    "ph_trust h = t" "ph_fs h = fs"
  shows "entry_known E h i e"
proof -
  have "StatusEnabled \<noteq> StatusBroken" "StatusEnabled \<noteq> StatusDisabled"
    by (simp_all add: StatusEnabled_def StatusBroken_def StatusDisabled_def)
  then show ?thesis using scan_taken [OF assms(1)] assms(2-4) by (auto simp: entry_known_def split: option.splits)
qed

lemma inv_Refresh:
  assumes "\<And>i. rg_state r i = Some StatusEnabled \<Longrightarrow> i \<in> ph_asked h" "Refresh E listed opened fs r = (e, r')"
  shows "history_inv E ((r', fs), scanned e (r', fs) h)"
  using assms scan_known [of E opened "rg_state r" "rg_trust r" fs _ _ "h\<lparr>ph_trust := rg_trust r, ph_fs := fs, ph_stale := False\<rparr>"]
  by (auto simp: Refresh_def history_inv_def scanned_def split: if_splits)

lemma inv_trust:
  assumes "history_inv E ((r, fs), h)"
  shows "history_inv E ((r\<lparr>rg_trust := t\<rparr>, fs'), h\<lparr>ph_stale := True\<rparr>)"
  using assms by (simp add: history_inv_def entry_known_def)

lemma inv_stale: "history_inv E ((r, fs), h) \<Longrightarrow> history_inv E ((r, fs'), h\<lparr>ph_stale := True\<rparr>)"
  by (simp add: history_inv_def entry_known_def)

lemma inv_change:
  assumes "history_inv E (s, h)" "change_trust E ok listed opened t s = (e, s')"
  shows "history_inv E (s', scanned e s' h)"
proof -
  obtain r fs where s: "s = (r, fs)" by (cases s)
  obtain e1 fs1 where w: "saveTrustLocked E ok t fs = (e1, fs1)" by fastforce
  show ?thesis
  proof (cases e1)
    case None
    obtain e2 r2 where "Refresh E listed opened fs1 (r\<lparr>rg_trust := t\<rparr>) = (e2, r2)" by fastforce
    then show ?thesis using assms None w s inv_Refresh [of "r\<lparr>rg_trust := t\<rparr>" h E listed opened fs1 e2 r2]
      by (auto simp: change_trust_def Let_def history_inv_def)
  next
    case (Some x)
    then show ?thesis using assms w s inv_trust [of E r fs h t fs1]
      by (auto simp: change_trust_def Let_def scanned_def)
  qed
qed

lemma inv_refused: "history_inv E (s, h) \<Longrightarrow> history_inv E (s, scanned (Some e) s h)"
  using inv_stale by (cases s) (auto simp: scanned_def)

lemma inv_status:
  assumes i: "history_inv E (s, h)" and c: "SetStatus E ok i st s = (e, s')"
  shows "history_inv E (s', decided e i st h)"
proof -
  obtain r fs where s: "s = (r, fs)" by (cases s)
  have ne: "StatusEnabled \<noteq> StatusBroken" by (simp add: StatusEnabled_def StatusBroken_def)
  have k: "entry_known E h k x" if "rg_entries r k = Some x" for k x using i that s by (auto simp: history_inv_def)
  show ?thesis
  proof (cases "st \<noteq> StatusEnabled \<and> st \<noteq> StatusDisabled \<and> st \<noteq> StatusQuarantined")
    case True
    then show ?thesis using i c s by (auto simp: SetStatus_def decided_def)
  next
    case False
    let ?r = "r\<lparr>rg_state := (rg_state r)(i \<mapsto> st)\<rparr>"
    obtain e1 fs1 where w: "saveStateLocked E ok ((rg_state r)(i \<mapsto> st)) fs = (e1, fs1)" by fastforce
    have st: "rg_state r k = Some StatusEnabled \<Longrightarrow> k \<in> ph_asked h" for k using i s by (simp add: history_inv_def)
    have tr: "ph_stale h \<or> rg_trust r = ph_trust h" using i s by (simp add: history_inv_def)
    define h' where "h' = decided e i st h"
    have asked: "ph_asked h' = (if st = StatusEnabled then insert i (ph_asked h)
        else if e = None then ph_asked h - {i} else ph_asked h)"
      and same: "ph_trust h' = ph_trust h" "ph_fs h' = ph_fs h" "ph_stale h' = ph_stale h" by (simp_all add: h'_def decided_def)
    have "history_inv E (s', h')"
    proof (cases e1)
      case (Some x)
      have s': "s' = (?r, fs1)" "e = Some x" using c s False w Some by (auto simp: SetStatus_def Let_def)
      show ?thesis using st tr k unfolding history_inv_def entry_known_def
        by (auto simp: s' asked same)
    next
      case None
      then have e: "e = None" and s': "s' = ((case rg_entries r i of None \<Rightarrow> ?r
          | Some e \<Rightarrow> if pe_Status e = StatusBroken then ?r
              else ?r\<lparr>rg_entries := (rg_entries r)(i \<mapsto> e\<lparr>pe_Status := st\<rparr>)\<rparr>), fs1)"
        using c s w by (auto simp: SetStatus_def Let_def None False split: option.splits)
      show ?thesis
      proof (cases "\<exists>x. rg_entries r i = Some x \<and> pe_Status x \<noteq> StatusBroken")
        case True
        then obtain x where x: "rg_entries r i = Some x" "pe_Status x \<noteq> StatusBroken" by blast
        have t: "taken E (ph_trust h) (ph_fs h) i (x\<lparr>pe_Status := st\<rparr>)"
          using k [OF x(1)] x(2) by (simp add: entry_known_def taken_def)
        show ?thesis using st tr k t x unfolding history_inv_def entry_known_def
          by (auto simp: s' asked same e)
      next
        case False
        then have "s' = (?r, fs1)" "\<And>x. rg_entries r i = Some x \<Longrightarrow> pe_Status x \<noteq> StatusEnabled"
          using ne by (auto simp: s' split: option.splits)
        then show ?thesis using st tr k unfolding history_inv_def entry_known_def
          by (auto simp: asked same e)
      qed
    qed
    then show ?thesis by (simp add: h'_def)
  qed
qed

lemma inv_forget:
  assumes i: "history_inv E (s, h)" and c: "i \<noteq> ''''" "Forget E ok removed left i s = (e, s')"
  shows "history_inv E (s', h\<lparr>ph_asked := ph_asked h - {i}\<rparr>)"
proof -
  obtain r fs where s: "s = (r, fs)" by (cases s)
  obtain fs' where "s' = (r\<lparr>rg_state := (rg_state r)(i := None), rg_entries := (rg_entries r)(i := None)\<rparr>, fs')"
    using c s by (auto simp: Forget_def Let_def split: prod.splits option.splits sum.splits if_splits)
  then show ?thesis using i s by (auto simp: history_inv_def entry_known_def split: if_splits)
qed

lemma inv_Open:
  assumes "Open_registry E mk readable listed opened fs = Inr r"
  shows "history_inv E ((r, fs), \<lparr>ph_trust = rg_trust r, ph_fs = fs, ph_stale = False,
    ph_asked = {i. rg_state r i = Some StatusEnabled}\<rparr>)"
proof -
  let ?h = "\<lparr>ph_trust = rg_trust r, ph_fs = fs, ph_stale = False, ph_asked = {i. rg_state r i = Some StatusEnabled}\<rparr>"
  obtain r0 where rf: "Refresh E listed opened fs r0 = (None, r)"
    using assms by (auto simp: Open_registry_def split: if_splits sum.splits prod.splits option.splits)
  then have "rg_state r = rg_state r0" using Refresh_ok [OF rf] by simp
  then show ?thesis using inv_Refresh [of r0 ?h, OF _ rf] by (simp add: scanned_def)
qed

lemma history_inv_step: "history_step E x y \<Longrightarrow> history_inv E x \<Longrightarrow> history_inv E y"
proof (induction rule: history_step.induct)
  case (hist_policy ok listed opened p s e s' h)
  then show ?case using inv_change [of E s h] inv_refused [of E s h] by (auto simp: SetPolicy_def simp del: split_paired_All split: if_splits)
next
  case (hist_add ok listed opened label key s e s' h)
  then show ?case using inv_change [of E s h] inv_refused [of E s h]
    by (simp add: AddTrustedKey_def Let_def split: if_splits option.splits) blast+
next
  case (hist_remove ok listed opened label s e s' h)
  then show ?case using inv_change [of E s h] by (simp add: RemoveTrustedKey_def Let_def)
next
  case (hist_trust ok t fs e fs' r h)
  then show ?case using inv_trust by blast
next
  case (hist_scan listed opened fs r e r' h)
  then have "\<And>i. rg_state r i = Some StatusEnabled \<Longrightarrow> i \<in> ph_asked h" by (simp add: history_inv_def)
  then show ?case using hist_scan(1) by (rule inv_Refresh)
next
  case (hist_status ok i st s e s' h)
  then show ?case using inv_status by blast
next
  case (hist_forget i ok removed left s e s' h)
  then show ?case using inv_forget by blast
next
  case (hist_disk r fs h fs')
  then show ?case by (simp add: history_inv_def)
qed

interpretation reg_history: invariant_system "history_start E" "history_step E" "history_inv E"
  by unfold_locales (auto simp: history_start_def inv_Open intro: history_inv_step)

lemma enabled_known:
  assumes "history_reach E ((r, fs), h)" "rg_entries r i = Some e" "pe_Status e = StatusEnabled"
  shows "i \<in> ph_asked h \<and> taken E (ph_trust h) (ph_fs h) i e \<and> (ph_stale h \<or> rg_trust r = ph_trust h)"
proof -
  have ne: "StatusEnabled \<noteq> StatusBroken" by (simp add: StatusEnabled_def StatusBroken_def)
  have "entry_known E h i e" "ph_stale h \<or> rg_trust r = ph_trust h"
    using reg_history.reach_inv [OF assms(1)] assms(2) by (simp_all add: history_inv_def)
  then show ?thesis using assms(3) ne by (simp add: entry_known_def)
qed

end
