(* ===== verification/AppSettings.thy ===== *)
theory AppSettings
  imports Nodes
begin

text \<open>
  \<open>app/settings\<close> and \<open>app/workspace\<close>: two documents, their validation, and their stores. A store is
  a register: an update either replaces the document by a valid one or leaves it alone.
  \<open>encoding/json\<close> is an argument.
\<close>

subsection \<open>Replacing a document\<close>

datatype doc_call = DMkdir | DCreate | DChmod | DWrite | DSync | DClose | DRename | DRemove

record doc_fs =
  df_file :: "byte list option"
  df_temps :: "byte list list"   \<comment> \<open>temporary files left behind\<close>

text \<open>The removal on the way out and the sync of the directory are best effort.\<close>

definition settings_writeAtomic :: "(doc_call \<Rightarrow> bool) \<Rightarrow> byte list \<Rightarrow> byte list \<Rightarrow> doc_fs \<Rightarrow> doc_call option \<times> doc_fs" where
  "settings_writeAtomic ok part data fs =
     (let fail = (\<lambda>c b. (Some c, if ok DRemove then fs else fs\<lparr>df_temps := b # df_temps fs\<rparr>)) in
      if \<not> ok DMkdir then (Some DMkdir, fs)
      else if \<not> ok DCreate then (Some DCreate, fs)
      else if \<not> ok DChmod then fail DChmod []
      else if \<not> ok DWrite then fail DWrite part
      else if \<not> ok DSync then fail DSync data
      else if \<not> ok DClose then fail DClose data
      else if \<not> ok DRename then fail DRename data
      else (None, fs\<lparr>df_file := Some data\<rparr>))"

lemma settings_writeAtomic_file:
  "settings_writeAtomic ok part data fs = (e, fs') \<Longrightarrow> df_file fs' = (if e = None then Some data else df_file fs)"
  by (auto simp: settings_writeAtomic_def Let_def split: if_splits)

text \<open>The copy of the same function in \<open>app/workspace\<close>.\<close>

definition workspace_writeAtomic :: "(doc_call \<Rightarrow> bool) \<Rightarrow> byte list \<Rightarrow> byte list \<Rightarrow> doc_fs \<Rightarrow> doc_call option \<times> doc_fs" where
  "workspace_writeAtomic ok part data fs =
     (let fail = (\<lambda>c b. (Some c, if ok DRemove then fs else fs\<lparr>df_temps := b # df_temps fs\<rparr>)) in
      if \<not> ok DMkdir then (Some DMkdir, fs)
      else if \<not> ok DCreate then (Some DCreate, fs)
      else if \<not> ok DChmod then fail DChmod []
      else if \<not> ok DWrite then fail DWrite part
      else if \<not> ok DSync then fail DSync data
      else if \<not> ok DClose then fail DClose data
      else if \<not> ok DRename then fail DRename data
      else (None, fs\<lparr>df_file := Some data\<rparr>))"

lemma workspace_writeAtomic_file:
  "workspace_writeAtomic ok part data fs = (e, fs') \<Longrightarrow> df_file fs' = (if e = None then Some data else df_file fs)"
  by (auto simp: workspace_writeAtomic_def Let_def split: if_splits)

subsection \<open>Settings\<close>

record Settings =
  sg_Theme :: string
  sg_FontFamily :: string
  sg_FontSizePx :: int
  sg_ConfirmOnClose :: bool
  sg_AutoReconnect :: bool
  sg_ReconnectMaxN :: int
  sg_ReconnectDelayMs :: int
  sg_TelemetryEnabled :: bool
  sg_LogLevel :: string
  sg_GitSyncEnabled :: bool
  sg_GitSyncRemote :: string
  sg_GitSyncBranch :: string
  sg_AutoUpdateEnabled :: bool
  sg_AutoUpdateURL :: string
  sg_AutoUpdatePublicKey :: string
  sg_PluginMarketplaceURL :: string
  sg_CrashReportsDisabled :: bool
  sg_WorkspaceProfile :: string
  sg_UpdatedAt :: time

definition themes :: "string list" where
  "themes = [''system'', ''light'', ''dark'']"

definition log_levels :: "string list" where
  "log_levels = [''trace'', ''debug'', ''info'', ''warn'', ''error'']"

definition setting_limits :: "(int \<times> int) list" where
  "setting_limits = [(8, 72), (0, 50), (0, 60000)]"

definition Default_settings :: Settings where
  "Default_settings = \<lparr>sg_Theme = ''system'', sg_FontFamily = '''', sg_FontSizePx = 13, sg_ConfirmOnClose = True,
     sg_AutoReconnect = False, sg_ReconnectMaxN = 3, sg_ReconnectDelayMs = 2000, sg_TelemetryEnabled = False,
     sg_LogLevel = ''info'', sg_GitSyncEnabled = False, sg_GitSyncRemote = '''', sg_GitSyncBranch = '''',
     sg_AutoUpdateEnabled = False, sg_AutoUpdateURL = '''', sg_AutoUpdatePublicKey = '''',
     sg_PluginMarketplaceURL = '''', sg_CrashReportsDisabled = False, sg_WorkspaceProfile = ''default'',
     sg_UpdatedAt = 0\<rparr>"

datatype setting_issue = BadTheme | FontSizeRange | ReconnectRange | DelayRange | BadLogLevel | UpdateURLMissing
  | UpdateKeyMissing | ProfileChars | ProfileEmpty

definition profile_char :: "char \<Rightarrow> bool" where
  "profile_char c = (let n = ord8 c in 97 \<le> n \<and> n \<le> 122 \<or> 65 \<le> n \<and> n \<le> 90 \<or> 48 \<le> n \<and> n \<le> 57 \<or> n = 45 \<or> n = 95)"

definition outside :: "int \<Rightarrow> int \<times> int \<Rightarrow> bool" where
  "outside n b = (case b of (lo, hi) \<Rightarrow> n < lo \<or> n > hi)"

definition Validate_settings :: "Settings \<Rightarrow> setting_issue list" where
  "Validate_settings s =
     (if sg_Theme s \<in> set themes then [] else [BadTheme]) @
     (if outside (sg_FontSizePx s) (setting_limits ! 0) then [FontSizeRange] else []) @
     (if outside (sg_ReconnectMaxN s) (setting_limits ! 1) then [ReconnectRange] else []) @
     (if outside (sg_ReconnectDelayMs s) (setting_limits ! 2) then [DelayRange] else []) @
     (if sg_LogLevel s \<in> set log_levels then [] else [BadLogLevel]) @
     (if sg_AutoUpdateEnabled s then
        (if sg_AutoUpdateURL s = '''' then [UpdateURLMissing] else []) @
        (if sg_AutoUpdatePublicKey s = '''' then [UpdateKeyMissing] else [])
      else []) @
     (if sg_WorkspaceProfile s \<noteq> '''' then
        (if list_all profile_char (sg_WorkspaceProfile s) then [] else [ProfileChars])
      else [ProfileEmpty])"

text \<open>\<open>keys\<close>: the keys of the document as it was read.\<close>

definition mergeWithDefaults :: "(string \<Rightarrow> string) \<Rightarrow> string list \<Rightarrow> Settings \<Rightarrow> Settings" where
  "mergeWithDefaults ul keys s =
     (let d = Default_settings; normalized = map (to_lower ul) keys in s\<lparr>
        sg_Theme := (if sg_Theme s = '''' then sg_Theme d else sg_Theme s),
        sg_FontSizePx := (if sg_FontSizePx s = 0 then sg_FontSizePx d else sg_FontSizePx s),
        sg_ConfirmOnClose := (if ''confirmonclose'' \<in> set normalized then sg_ConfirmOnClose s else sg_ConfirmOnClose d),
        sg_ReconnectMaxN := (if ''reconnectmaxn'' \<in> set normalized then sg_ReconnectMaxN s else sg_ReconnectMaxN d),
        sg_ReconnectDelayMs := (if ''reconnectdelayms'' \<in> set normalized then sg_ReconnectDelayMs s
          else sg_ReconnectDelayMs d),
        sg_LogLevel := (if sg_LogLevel s = '''' then sg_LogLevel d else sg_LogLevel s),
        sg_WorkspaceProfile := (if sg_WorkspaceProfile s = '''' then sg_WorkspaceProfile d
          else sg_WorkspaceProfile s)\<rparr>)"

record settings_json =
  sj_keys :: "byte list \<Rightarrow> string list"
  sj_decode :: "byte list \<Rightarrow> Settings option"
  sj_encode :: "Settings \<Rightarrow> byte list option"

datatype doc_error = DocContext | DocInvalid | DocMarshal | DocWrite doc_call

text \<open>\<open>ctx\<close>: the context is live. An error carries the defaults as well; only the error matters.\<close>

definition Get_settings :: "settings_json \<Rightarrow> (string \<Rightarrow> string) \<Rightarrow> bool \<Rightarrow> bool \<Rightarrow> doc_fs \<Rightarrow> doc_error + Settings" where
  "Get_settings J ul ctx read_ok fs =
     (if \<not> ctx then Inl DocContext
      else if \<not> read_ok then Inr Default_settings
      else case df_file fs of
          None \<Rightarrow> Inr Default_settings
        | Some data \<Rightarrow> (case sj_decode J data of
            None \<Rightarrow> Inr Default_settings
          | Some out \<Rightarrow> Inr (mergeWithDefaults ul (sj_keys J data) out)))"

definition Update_settings :: "settings_json \<Rightarrow> bool \<Rightarrow> (doc_call \<Rightarrow> bool) \<Rightarrow> byte list \<Rightarrow> time \<Rightarrow> Settings \<Rightarrow> doc_fs \<Rightarrow>
    (doc_error + Settings) \<times> doc_fs" where
  "Update_settings J ctx ok part now s fs =
     (if \<not> ctx then (Inl DocContext, fs)
      else if Validate_settings s \<noteq> [] then (Inl DocInvalid, fs)
      else (let s' = s\<lparr>sg_UpdatedAt := now\<rparr> in
        case sj_encode J s' of
          None \<Rightarrow> (Inl DocMarshal, fs)
        | Some data \<Rightarrow> (case settings_writeAtomic ok part data fs of
            (Some c, fs') \<Rightarrow> (Inl (DocWrite c), fs')
          | (None, fs') \<Rightarrow> (Inr s', fs'))))"

text \<open>A document that is written is read back, with the keys of the fields that are always written.\<close>

definition settings_json_ok :: "settings_json \<Rightarrow> Settings \<Rightarrow> bool" where
  "settings_json_ok J s \<longleftrightarrow> (case sj_encode J s of None \<Rightarrow> True
     | Some b \<Rightarrow> sj_decode J b = Some s \<and> {''confirmOnClose'', ''reconnectMaxN'', ''reconnectDelayMs''} \<subseteq> set (sj_keys J b))"

definition valid_settings :: "Settings \<Rightarrow> bool" where
  "valid_settings s \<longleftrightarrow> sg_Theme s \<in> {''system'', ''light'', ''dark''} \<and>
     8 \<le> sg_FontSizePx s \<and> sg_FontSizePx s \<le> 72 \<and> 0 \<le> sg_ReconnectMaxN s \<and> sg_ReconnectMaxN s \<le> 50 \<and>
     0 \<le> sg_ReconnectDelayMs s \<and> sg_ReconnectDelayMs s \<le> 60000 \<and>
     sg_LogLevel s \<in> {''trace'', ''debug'', ''info'', ''warn'', ''error''} \<and>
     (sg_AutoUpdateEnabled s \<longrightarrow> sg_AutoUpdateURL s \<noteq> '''' \<and> sg_AutoUpdatePublicKey s \<noteq> '''') \<and>
     sg_WorkspaceProfile s \<noteq> '''' \<and> list_all profile_char (sg_WorkspaceProfile s)"

lemma flag_nil: "(if P then [] else [x]) = [] \<longleftrightarrow> P" "(if P then [x] else []) = [] \<longleftrightarrow> \<not> P"
  by simp_all

lemma Validate_settings_iff: "Validate_settings s = [] \<longleftrightarrow> valid_settings s"
proof -
  have t: "sg_Theme s \<in> set themes \<longleftrightarrow> sg_Theme s \<in> {''system'', ''light'', ''dark''}" by (simp add: themes_def)
  have l: "sg_LogLevel s \<in> set log_levels \<longleftrightarrow> sg_LogLevel s \<in> {''trace'', ''debug'', ''info'', ''warn'', ''error''}"
    by (simp add: log_levels_def)
  have o: "outside n (setting_limits ! 0) \<longleftrightarrow> \<not> (8 \<le> n \<and> n \<le> 72)" "outside n (setting_limits ! 1) \<longleftrightarrow> \<not> (0 \<le> n \<and> n \<le> 50)"
    "outside n (setting_limits ! 2) \<longleftrightarrow> \<not> (0 \<le> n \<and> n \<le> 60000)" for n
    by (simp_all add: outside_def setting_limits_def) arith+
  have u: "(if P then (if A then [x] else []) @ (if B then [y] else []) else []) = [] \<longleftrightarrow> (P \<longrightarrow> \<not> A \<and> \<not> B)"
    for P A B and x y :: setting_issue by simp
  have w: "(if A then if B then [] else [x] else [y]) = [] \<longleftrightarrow> A \<and> B" for A B and x y :: setting_issue by simp
  show ?thesis unfolding Validate_settings_def append_is_Nil_conv flag_nil u w t l o not_not valid_settings_def by blast
qed

lemma merge_valid:
  assumes "Validate_settings s = []" "{''confirmOnClose'', ''reconnectMaxN'', ''reconnectDelayMs''} \<subseteq> set keys"
  shows "mergeWithDefaults ul keys s = s"
proof -
  have "list_all is_ascii [''confirmOnClose'', ''reconnectMaxN'', ''reconnectDelayMs'']"
    "map (map lower_char) [''confirmOnClose'', ''reconnectMaxN'', ''reconnectDelayMs''] =
      [''confirmonclose'', ''reconnectmaxn'', ''reconnectdelayms'']" by code_simp+
  then have low: "to_lower ul ''confirmOnClose'' = ''confirmonclose''" "to_lower ul ''reconnectMaxN'' = ''reconnectmaxn''"
    "to_lower ul ''reconnectDelayMs'' = ''reconnectdelayms''"
    by (simp_all only: to_lower_def list.pred_inject list.map list.inject simp_thms if_True)
  have k: "''confirmonclose'' \<in> set (map (to_lower ul) keys)" "''reconnectmaxn'' \<in> set (map (to_lower ul) keys)"
    "''reconnectdelayms'' \<in> set (map (to_lower ul) keys)"
    using assms(2) unfolding low [symmetric] by auto
  have "sg_Theme s \<noteq> ''''" "sg_FontSizePx s \<noteq> 0" "sg_LogLevel s \<noteq> ''''" "sg_WorkspaceProfile s \<noteq> ''''"
    using assms(1) unfolding Validate_settings_iff valid_settings_def by auto
  then show ?thesis using k by (simp add: mergeWithDefaults_def Let_def)
qed

lemma Default_settings_valid: "Validate_settings Default_settings = []"
  by (simp add: Validate_settings_def Default_settings_def themes_def log_levels_def outside_def setting_limits_def
      profile_char_def ord8_def Let_def)

lemma Validate_stamp: "Validate_settings (s\<lparr>sg_UpdatedAt := t\<rparr>) = Validate_settings s"
  by (simp add: Validate_settings_def)

lemma Update_register:
  assumes u: "Update_settings J ctx ok part now s fs = (r, fs')"
    and j: "settings_json_ok J (s\<lparr>sg_UpdatedAt := now\<rparr>)"
  shows "case r of
      Inr s' \<Rightarrow> s' = s\<lparr>sg_UpdatedAt := now\<rparr> \<and> Validate_settings s' = [] \<and> Get_settings J ul True True fs' = Inr s'
    | Inl e \<Rightarrow> Get_settings J ul True True fs' = Get_settings J ul True True fs"
proof (cases r)
  case (Inl e)
  then have "df_file fs' = df_file fs" using u settings_writeAtomic_file
    by (auto simp: Update_settings_def Let_def split: if_splits option.splits prod.splits)
  then show ?thesis using Inl by (simp add: Get_settings_def)
next
  case (Inr s')
  let ?s = "s\<lparr>sg_UpdatedAt := now\<rparr>"
  from u Inr obtain data where d: "Validate_settings s = []" "s' = ?s" "sj_encode J ?s = Some data"
    "settings_writeAtomic ok part data fs = (None, fs')"
    by (auto simp: Update_settings_def Let_def split: if_splits option.splits prod.splits)
  have v: "Validate_settings ?s = []" using d(1) by (simp add: Validate_stamp)
  have "df_file fs' = Some data" using settings_writeAtomic_file [OF d(4)] by simp
  then have "Get_settings J ul True True fs' = Inr ?s"
    using j d(3) merge_valid [OF v] by (simp add: Get_settings_def settings_json_ok_def)
  then show ?thesis using Inr d(2) v by simp
qed

end
