(* ===== verification/AppUpdate.thy ===== *)
theory AppUpdate
  imports RestoreGuard AppSettings
begin

text \<open>
  \<open>app/update\<close>: what makes a downloaded file the program that runs next. HTTP answers, base64,
  Ed25519, SHA-256, JSON and the file system's answers are arguments. \<open>ApplyUpdate\<close> and
  \<open>CheckForUpdate\<close> of \<open>cmd/desktop/main.go\<close> compose the parts.
\<close>

subsection \<open>Versions\<close>

definition is_digit :: "char \<Rightarrow> bool" where
  "is_digit c \<longleftrightarrow> 48 \<le> ord8 c \<and> ord8 c \<le> 57"

text \<open>The digits of one part, up to the first other character; \<open>int\<close> has 64 bits and wraps.\<close>

fun part_number :: "64 word \<Rightarrow> string \<Rightarrow> 64 word" where
  "part_number n [] = n"
| "part_number n (r # rs) = (if \<not> is_digit r then n else part_number (n * 10 + of_nat (ord8 r - 48)) rs)"

definition trim_prefix_v :: "string \<Rightarrow> string" where
  "trim_prefix_v s = (if has_prefix s ''v'' then drop 1 s else s)"

definition splitSemver :: "string \<Rightarrow> 64 word list" where
  "splitSemver s0 = (let s = trim_prefix_v (trim_space s0) in
     if s = '''' then [0]
     else map (part_number 0) (split_on CHR ''.'' (takeWhile (\<lambda>c. c = CHR ''.'' \<or> is_digit c) s)))"

text \<open>Missing parts are zero.\<close>

definition part_at :: "64 word list \<Rightarrow> nat \<Rightarrow> 64 word" where
  "part_at p i = (if i < length p then p ! i else 0)"

fun compare_parts :: "64 word list \<Rightarrow> 64 word list \<Rightarrow> nat list \<Rightarrow> int" where
  "compare_parts ap bp [] = 0"
| "compare_parts ap bp (i # js) =
     (if part_at ap i \<noteq> part_at bp i then (if part_at ap i <s part_at bp i then -1 else 1)
      else compare_parts ap bp js)"

definition compareSemver :: "string \<Rightarrow> string \<Rightarrow> int" where
  "compareSemver a b = (let ap = splitSemver a; bp = splitSemver b in
     compare_parts ap bp [0..<max (length ap) (length bp)])"

definition IsNewer :: "string \<Rightarrow> string \<Rightarrow> bool" where
  "IsNewer manifestVersion currentVersion \<longleftrightarrow> compareSemver manifestVersion currentVersion > 0"

subsection \<open>Manifests\<close>

record ManifestTarget =
  tg_OS :: string
  tg_Arch :: string
  tg_URL :: string
  tg_Sha256 :: string
  tg_Signature :: string

record UpdateManifest =
  um_Version :: string
  um_Targets :: "ManifestTarget list"
  um_Notes :: string

datatype update_error = EmptyURL | NotHTTPS | BadRequest | FetchFailed | HttpStatus int | DecodeManifest
  | NoVersion | InvalidSHA ManifestTarget | NoTarget | DecodeKey | KeySize nat | DecodeSignature | NotSigned
  | NilTarget | MakeDir | CreateTempFile | CopyFailed | CloseTemp | ShaMismatch string

record http_answer =
  ha_Status :: int
  ha_Body :: "byte list"
  ha_complete :: bool

definition sha_char :: "char \<Rightarrow> bool" where
  "sha_char c \<longleftrightarrow> (let n = ord8 c in 48 \<le> n \<and> n \<le> 57 \<or> 97 \<le> n \<and> n \<le> 102 \<or> 65 \<le> n \<and> n \<le> 70)"

definition isValidSHA256 :: "string \<Rightarrow> bool" where
  "isValidSHA256 s \<longleftrightarrow> length s = 64 \<and> list_all sha_char s"

definition https :: "string \<Rightarrow> bool" where
  "https url \<longleftrightarrow> has_prefix url ''https://''"

text \<open>\<open>ans\<close>: the answer of the client, which follows redirects to https only.\<close>

definition FetchManifest :: "(byte list \<Rightarrow> UpdateManifest option) \<Rightarrow> bool \<Rightarrow> http_answer option \<Rightarrow> string \<Rightarrow>
    update_error + UpdateManifest" where
  "FetchManifest json req_ok ans url =
     (if url = '''' then Inl EmptyURL
      else if \<not> https url then Inl NotHTTPS
      else if \<not> req_ok then Inl BadRequest
      else case ans of
        None \<Rightarrow> Inl FetchFailed
      | Some a \<Rightarrow>
          if ha_Status a div 100 \<noteq> 2 then Inl (HttpStatus (ha_Status a))
          else (case json (take (2 ^ 20) (ha_Body a)) of
              None \<Rightarrow> Inl DecodeManifest
            | Some m \<Rightarrow>
                if um_Version m = '''' then Inl NoVersion
                else (case find (\<lambda>t. \<not> isValidSHA256 (tg_Sha256 t)) (um_Targets m) of
                    Some t \<Rightarrow> Inl (InvalidSHA t) | None \<Rightarrow> Inr m)))"

definition SelectTarget :: "string \<Rightarrow> string \<Rightarrow> UpdateManifest \<Rightarrow> update_error + ManifestTarget" where
  "SelectTarget os arch m = (case find (\<lambda>t. tg_OS t = os \<and> tg_Arch t = arch) (um_Targets m) of
     None \<Rightarrow> Inl NoTarget | Some t \<Rightarrow> Inr t)"

definition canonicalPayload :: "string \<Rightarrow> string \<Rightarrow> string \<Rightarrow> string \<Rightarrow> string \<Rightarrow> string" where
  "canonicalPayload version os arch sha url = join_with ''|'' [version, os, arch, sha, url]"

definition decodeKey :: "(string \<Rightarrow> byte list option) \<Rightarrow> string \<Rightarrow> update_error + byte list" where
  "decodeKey b64 s = (case b64 (trim_space s) of
     None \<Rightarrow> Inl DecodeKey | Some raw \<Rightarrow> if length raw \<noteq> 32 then Inl (KeySize (length raw)) else Inr raw)"

text \<open>\<open>ed\<close>: public key, message, signature.\<close>

definition VerifySignature :: "(string \<Rightarrow> byte list option) \<Rightarrow> (byte list \<Rightarrow> string \<Rightarrow> byte list \<Rightarrow> bool) \<Rightarrow>
    string \<Rightarrow> string \<Rightarrow> ManifestTarget \<Rightarrow> update_error option" where
  "VerifySignature b64 ed version key t = (case decodeKey b64 key of
     Inl e \<Rightarrow> Some e
   | Inr pub \<Rightarrow> (case b64 (tg_Signature t) of
       None \<Rightarrow> Some DecodeSignature
     | Some sig \<Rightarrow> if \<not> ed pub (canonicalPayload version (tg_OS t) (tg_Arch t) (tg_Sha256 t) (tg_URL t)) sig
         then Some NotSigned else None))"

text \<open>What the downloaded file holds; \<open>io.Copy\<close> writes and hashes the body to its end.\<close>

record download_env =
  de_mkdir :: bool
  de_request :: bool
  de_answer :: "http_answer option"
  de_create :: bool
  de_copy :: bool
  de_close :: bool

definition Download :: "(byte list \<Rightarrow> byte list) \<Rightarrow> (string \<Rightarrow> string) \<Rightarrow> download_env \<Rightarrow> ManifestTarget option \<Rightarrow>
    update_error + byte list" where
  "Download sha256 ul env to = (case to of
     None \<Rightarrow> Inl NilTarget
   | Some t \<Rightarrow>
       if \<not> https (tg_URL t) then Inl NotHTTPS
       else if \<not> de_mkdir env then Inl MakeDir
       else if \<not> de_request env then Inl BadRequest
       else (case de_answer env of
           None \<Rightarrow> Inl FetchFailed
         | Some a \<Rightarrow>
             if ha_Status a div 100 \<noteq> 2 then Inl (HttpStatus (ha_Status a))
             else if \<not> de_create env then Inl CreateTempFile
             else if \<not> ha_complete a \<or> \<not> de_copy env then Inl CopyFailed
             else if \<not> de_close env then Inl CloseTemp
             else (let got = hex_encode (sha256 (ha_Body a)); want = to_lower ul (trim_space (tg_Sha256 t)) in
               if got \<noteq> want then Inl (ShaMismatch got) else Inr (ha_Body a))))"

subsection \<open>The order of versions\<close>

text \<open>The first part in which two versions differ decides.\<close>

definition newer_parts :: "64 word list \<Rightarrow> 64 word list \<Rightarrow> bool" where
  "newer_parts p q \<longleftrightarrow> (\<exists>i. (\<forall>j < i. part_at p j = part_at q j) \<and> part_at q i <s part_at p i)"

lemma compare_parts_range: "compare_parts ap bp js \<in> {-1, 0, 1}"
  by (induction js) auto

lemma compare_parts_upt:
  "compare_parts ap bp [k..<n] > 0 \<longleftrightarrow>
    (\<exists>i. k \<le> i \<and> i < n \<and> (\<forall>j. k \<le> j \<and> j < i \<longrightarrow> part_at ap j = part_at bp j) \<and> part_at bp i <s part_at ap i)"
proof (induction "n - k" arbitrary: k)
  case (Suc m)
  then have u: "[k..<n] = k # [Suc k..<n]" by (simp add: upt_conv_Cons)
  show ?case
  proof (cases "part_at ap k = part_at bp k")
    case True
    have "compare_parts ap bp [k..<n] > 0 \<longleftrightarrow> compare_parts ap bp [Suc k..<n] > 0" using True by (simp add: u)
    also have "\<dots> \<longleftrightarrow> (\<exists>i. Suc k \<le> i \<and> i < n \<and> (\<forall>j. Suc k \<le> j \<and> j < i \<longrightarrow> part_at ap j = part_at bp j) \<and>
        part_at bp i <s part_at ap i)"
      using Suc(1) [of "Suc k"] Suc(2) by simp
    also have "\<dots> \<longleftrightarrow> (\<exists>i. k \<le> i \<and> i < n \<and> (\<forall>j. k \<le> j \<and> j < i \<longrightarrow> part_at ap j = part_at bp j) \<and>
        part_at bp i <s part_at ap i)"
      using True by (metis Suc_leD Suc_leI le_neq_implies_less nat_less_le signed.less_irrefl)
    finally show ?thesis .
  next
    case False
    have "compare_parts ap bp [k..<n] > 0 \<longleftrightarrow> part_at bp k <s part_at ap k"
      using False by (auto simp: u)
    then show ?thesis using False Suc(2) by (metis le_refl linorder_not_less nat_less_le zero_less_Suc zero_less_diff)
  qed
qed simp


lemma part_at_beyond: "length p \<le> i \<Longrightarrow> part_at p i = 0"
  by (simp add: part_at_def)

lemma IsNewer_parts: "IsNewer a b \<longleftrightarrow> newer_parts (splitSemver a) (splitSemver b)"
proof -
  let ?p = "splitSemver a" and ?q = "splitSemver b"
  let ?n = "max (length ?p) (length ?q)"
  have "IsNewer a b \<longleftrightarrow> (\<exists>i < ?n. (\<forall>j < i. part_at ?p j = part_at ?q j) \<and> part_at ?q i <s part_at ?p i)"
    using compare_parts_upt [of ?p ?q 0 ?n] by (simp add: IsNewer_def compareSemver_def Let_def)
  moreover have "i < ?n" if "part_at ?q i <s part_at ?p i" for i
  proof (rule ccontr)
    assume "\<not> i < ?n"
    then have "part_at ?p i = 0" "part_at ?q i = 0" by (simp_all add: part_at_beyond)
    with that show False by simp
  qed
  ultimately show ?thesis unfolding newer_parts_def by blast
qed

lemma newer_parts_irrefl: "\<not> newer_parts p p"
  by (simp add: newer_parts_def)

lemma newer_parts_trans:
  assumes "newer_parts p q" "newer_parts q r"
  shows "newer_parts p r"
proof -
  from assms(1) obtain i where i: "\<forall>j < i. part_at p j = part_at q j" "part_at q i <s part_at p i"
    by (auto simp: newer_parts_def)
  from assms(2) obtain k where k: "\<forall>j < k. part_at q j = part_at r j" "part_at r k <s part_at q k"
    by (auto simp: newer_parts_def)
  have "\<forall>j < min i k. part_at p j = part_at r j" using i(1) k(1) by simp
  moreover have "part_at r (min i k) <s part_at p (min i k)"
  proof (cases i k rule: linorder_cases)
    case less
    then show ?thesis using i(2) k(1) by simp
  next
    case equal
    then show ?thesis using i(2) k(2) signed.less_trans by auto
  next
    case greater
    then show ?thesis using i(1) k(2) by simp
  qed
  ultimately show ?thesis unfolding newer_parts_def by blast
qed

lemma newer_parts_total: "newer_parts p q \<or> newer_parts q p \<or> (\<forall>i. part_at p i = part_at q i)"
proof (rule disjCI)
  assume n: "\<not> (newer_parts q p \<or> (\<forall>i. part_at p i = part_at q i))"
  define i where "i = (LEAST i. part_at p i \<noteq> part_at q i)"
  from n obtain k where "part_at p k \<noteq> part_at q k" by blast
  then have i: "part_at p i \<noteq> part_at q i" unfolding i_def by (rule LeastI)
  have eq: "\<forall>j < i. part_at p j = part_at q j" unfolding i_def using not_less_Least by blast
  have "\<not> part_at p i <s part_at q i"
  proof
    assume "part_at p i <s part_at q i"
    with eq have "newer_parts q p" unfolding newer_parts_def by metis
    with n show False by blast
  qed
  then have "part_at q i <s part_at p i" using i by (simp add: signed.not_less signed.less_le)
  with eq show "newer_parts p q" unfolding newer_parts_def by blast
qed

text \<open>The parts are the numbers that are written, as long as they fit.\<close>

definition decimal_value :: "string \<Rightarrow> nat" where
  "decimal_value s = foldl (\<lambda>n r. n * 10 + (ord8 r - 48)) 0 s"

lemma part_number_decimal:
  "list_all is_digit s \<Longrightarrow> part_number (of_nat n) s = of_nat (foldl (\<lambda>n r. n * 10 + (ord8 r - 48)) n s)"
proof (induction s arbitrary: n)
  case (Cons r rs)
  have "part_number (of_nat n) (r # rs) = part_number (of_nat (n * 10 + (ord8 r - 48))) rs"
    using Cons.prems by simp
  moreover have "list_all is_digit rs" using Cons.prems by simp
  ultimately show ?case using Cons.IH [of "n * 10 + (ord8 r - 48)"] by (simp only: foldl.simps)
qed simp

lemma part_number_value:
  assumes "list_all is_digit s" "decimal_value s < 2 ^ 63"
  shows "sint (part_number 0 s) = int (decimal_value s)"
proof -
  have "part_number 0 s = of_nat (decimal_value s)"
    using part_number_decimal [OF assms(1), of 0] by (simp add: decimal_value_def)
  then show ?thesis using assms(2) by (simp add: signed_of_nat signed_take_bit_int_eq_self)
qed

subsection \<open>What is signed\<close>

text \<open>The payload determines what it was made of, if no field but the last has a separator in it.\<close>

lemma join5: "canonicalPayload v os arch sha url = v @ ''|'' @ os @ ''|'' @ arch @ ''|'' @ sha @ ''|'' @ url"
  by (simp add: canonicalPayload_def)

lemma split_at_bar:
  "CHR ''|'' \<notin> set a \<Longrightarrow> CHR ''|'' \<notin> set b \<Longrightarrow> a @ CHR ''|'' # x = b @ CHR ''|'' # y \<Longrightarrow> a = b \<and> x = y"
  by (induction a arbitrary: b) (case_tac b; auto)+

definition barless :: "string \<Rightarrow> bool" where
  "barless s \<longleftrightarrow> CHR ''|'' \<notin> set s"

lemma canonicalPayload_inject:
  assumes "barless v" "barless os" "barless arch" "barless sha" "barless v'" "barless os'" "barless arch'" "barless sha'"
    and "canonicalPayload v os arch sha url = canonicalPayload v' os' arch' sha' url'"
  shows "v = v' \<and> os = os' \<and> arch = arch' \<and> sha = sha' \<and> url = url'"
proof -
  note b = assms(1-8) [unfolded barless_def]
  have e: "v @ CHR ''|'' # (os @ CHR ''|'' # (arch @ CHR ''|'' # (sha @ CHR ''|'' # url))) =
      v' @ CHR ''|'' # (os' @ CHR ''|'' # (arch' @ CHR ''|'' # (sha' @ CHR ''|'' # url')))"
    using assms(9) by (simp add: join5)
  note e1 = split_at_bar [OF b(1,5) e]
  note e2 = split_at_bar [OF b(2,6) e1 [THEN conjunct2]]
  note e3 = split_at_bar [OF b(3,7) e2 [THEN conjunct2]]
  note e4 = split_at_bar [OF b(4,8) e3 [THEN conjunct2]]
  show ?thesis using e1 e2 e3 e4 by blast
qed

lemma sha_char_bar: "sha_char c \<Longrightarrow> c \<noteq> CHR ''|''"
proof
  assume "sha_char c" "c = CHR ''|''"
  then have "sha_char (CHR ''|'')" by simp
  moreover have "\<not> sha_char (CHR ''|'')" by code_simp
  ultimately show False by blast
qed

lemma valid_sha_barless: "isValidSHA256 s \<Longrightarrow> barless s"
  by (auto simp: isValidSHA256_def barless_def list_all_iff dest: sha_char_bar)


subsection \<open>Replacing the executable\<close>

type_synonym exe_file = "byte list \<times> nat"   \<comment> \<open>contents and permissions\<close>

text \<open>The running program, the downloaded file, the program that was put aside, a temporary copy.\<close>

record exe_fs =
  xf_dst :: "exe_file option"
  xf_new :: "exe_file option"
  xf_old :: "exe_file option"
  xf_tmp :: "exe_file option"

datatype exe_call = XExecutable | XEvalSymlinks | XStat | XChmodNew | XRenameNew | XOpenSrc | XCreateTmp | XCopy
  | XSyncTmp | XCloseTmp | XChmodTmp | XRenameTmp | XRemoveTmp | XRemoveNew | XRemoveOld | XRenameOld | XRenameBack

definition installedExecutableMode :: "(exe_call \<Rightarrow> bool) \<Rightarrow> exe_file option \<Rightarrow> nat" where
  "installedExecutableMode ok f = (case f of None \<Rightarrow> 448
     | Some (_, perm) \<Rightarrow> if ok XStat \<and> perm \<noteq> 0 then perm else 448)"

text \<open>The states of the directory after each change, the latest first; the first call that failed.\<close>

definition copyFile :: "(exe_call \<Rightarrow> bool) \<Rightarrow> byte list \<Rightarrow> nat \<Rightarrow> exe_fs list \<Rightarrow> exe_call option \<times> exe_fs list" where
  "copyFile ok part mode tr = (case xf_new (hd tr) of
     None \<Rightarrow> (Some XOpenSrc, tr)
   | Some (data, _) \<Rightarrow>
       (let tmp = (\<lambda>b m tr. (hd tr)\<lparr>xf_tmp := Some (b, m)\<rparr> # tr);
            removed = (\<lambda>tr. if ok XRemoveTmp then (hd tr)\<lparr>xf_tmp := None\<rparr> # tr else tr)
        in if \<not> ok XOpenSrc then (Some XOpenSrc, tr)
           else if \<not> ok XCreateTmp then (Some XCreateTmp, tr)
           else if \<not> ok XCopy then (Some XCopy, removed (tmp part 384 (tmp [] 384 tr)))
           else if \<not> ok XSyncTmp then (Some XSyncTmp, removed (tmp data 384 (tmp [] 384 tr)))
           else if \<not> ok XCloseTmp then (Some XCloseTmp, removed (tmp data 384 (tmp [] 384 tr)))
           else if \<not> ok XChmodTmp then (Some XChmodTmp, removed (tmp data 384 (tmp [] 384 tr)))
           else (let tr' = tmp data mode (tmp data 384 (tmp [] 384 tr)) in
             if \<not> ok XRenameTmp then (Some XRenameTmp, removed tr')
             else (None, (hd tr')\<lparr>xf_dst := Some (data, mode), xf_tmp := None\<rparr> # tr'))))"

definition rename_new :: "(exe_call \<Rightarrow> bool) \<Rightarrow> exe_fs list \<Rightarrow> exe_fs list option" where
  "rename_new ok tr = (case xf_new (hd tr) of None \<Rightarrow> None
     | Some f \<Rightarrow> if ok XRenameNew then Some ((hd tr)\<lparr>xf_dst := Some f, xf_new := None\<rparr> # tr) else None)"

definition remove_new :: "(exe_call \<Rightarrow> bool) \<Rightarrow> exe_fs list \<Rightarrow> exe_fs list" where
  "remove_new ok tr = (if ok XRemoveNew then (hd tr)\<lparr>xf_new := None\<rparr> # tr else tr)"

text \<open>From the renaming of the downloaded file on: the Unix and the Windows way.\<close>

definition unix_install :: "(exe_call \<Rightarrow> bool) \<Rightarrow> byte list \<Rightarrow> nat \<Rightarrow> exe_fs list \<Rightarrow> exe_call option \<times> exe_fs list" where
  "unix_install ok part mode tr = (case rename_new ok tr of
     Some tr' \<Rightarrow> (None, tr')
   | None \<Rightarrow> (case copyFile ok part mode tr of
       (None, tr') \<Rightarrow> (None, remove_new ok tr') | (Some c, tr') \<Rightarrow> (Some c, tr')))"

definition windows_install :: "(exe_call \<Rightarrow> bool) \<Rightarrow> byte list \<Rightarrow> nat \<Rightarrow> exe_fs list \<Rightarrow> exe_call option \<times> exe_fs list" where
  "windows_install ok part mode tr = (case rename_new ok tr of
     Some tr' \<Rightarrow> (None, remove_new ok tr')
   | None \<Rightarrow> (case copyFile ok part mode tr of
       (None, tr') \<Rightarrow> (None, remove_new ok tr')
     | (Some c, tr') \<Rightarrow> (Some c, if ok XRenameBack
         then (hd tr')\<lparr>xf_dst := xf_old (hd tr'), xf_old := None\<rparr> # tr' else tr')))"

definition windowsSwap :: "(exe_call \<Rightarrow> bool) \<Rightarrow> byte list \<Rightarrow> exe_fs list \<Rightarrow> exe_call option \<times> exe_fs list" where
  "windowsSwap ok part tr0 =
     (let tr1 = (if ok XRemoveOld then (hd tr0)\<lparr>xf_old := None\<rparr> # tr0 else tr0) in
      case xf_dst (hd tr1) of
        None \<Rightarrow> (Some XRenameOld, tr1)
      | Some cur \<Rightarrow>
          if \<not> ok XRenameOld then (Some XRenameOld, tr1)
          else (let tr2 = (hd tr1)\<lparr>xf_old := Some cur, xf_dst := None\<rparr> # tr1
            in windows_install ok part (installedExecutableMode ok (xf_old (hd tr2))) tr2))"

definition SwapInPlace :: "(exe_call \<Rightarrow> bool) \<Rightarrow> bool \<Rightarrow> byte list \<Rightarrow> exe_fs \<Rightarrow> exe_call option \<times> exe_fs list" where
  "SwapInPlace ok windows part fs =
     (if \<not> ok XExecutable then (Some XExecutable, [fs])
      else if \<not> ok XEvalSymlinks then (Some XEvalSymlinks, [fs])
      else if windows then windowsSwap ok part [fs]
      else (let mode = installedExecutableMode ok (xf_dst fs);
                tr = (case xf_new fs of None \<Rightarrow> [fs]
                  | Some (data, _) \<Rightarrow> if ok XChmodNew then [fs\<lparr>xf_new := Some (data, mode)\<rparr>, fs] else [fs])
        in unix_install ok part mode tr))"

definition CleanupOld :: "(exe_call \<Rightarrow> bool) \<Rightarrow> exe_fs \<Rightarrow> exe_fs" where
  "CleanupOld ok fs = (if ok XExecutable \<and> ok XRemoveOld then fs\<lparr>xf_old := None\<rparr> else fs)"

text \<open>The program holds its old contents or all of the new ones.\<close>

definition whole :: "byte list \<Rightarrow> exe_file option \<Rightarrow> exe_fs \<Rightarrow> bool" where
  "whole data old s \<longleftrightarrow> xf_dst s = old \<or> map_option fst (xf_dst s) = Some data"

text \<open>\<open>put_aside\<close>: on Windows there is a moment without a program; it is then under the other name.\<close>

definition put_aside :: "exe_file option \<Rightarrow> exe_fs \<Rightarrow> bool" where
  "put_aside old s \<longleftrightarrow> xf_dst s = None \<and> xf_old s = old"

text \<open>A trace of states in which the program is old, new or put aside, ending in a given program.\<close>

definition swap_trace :: "(exe_fs \<Rightarrow> bool) \<Rightarrow> (exe_file option \<Rightarrow> bool) \<Rightarrow> exe_fs list \<Rightarrow> bool" where
  "swap_trace P Q tr \<longleftrightarrow> tr \<noteq> [] \<and> list_all P tr \<and> Q (xf_dst (hd tr))"

lemma remove_new_trace:
  assumes "swap_trace P Q tr" "\<And>s. P (s\<lparr>xf_new := None\<rparr>) = P s"
  shows "swap_trace P Q (remove_new ok tr)"
proof -
  obtain s tl where "tr = s # tl" using assms(1) by (cases tr) (auto simp: swap_trace_def)
  then show ?thesis using assms by (simp add: swap_trace_def remove_new_def)
qed

lemma rename_new_trace:
  assumes "rename_new ok tr = Some tr'" "list_all P tr" "xf_new (hd tr) = Some f"
    "P ((hd tr)\<lparr>xf_dst := Some f, xf_new := None\<rparr>)"
  shows "swap_trace P (\<lambda>d. d = Some f) tr'"
proof -
  have "tr' = (hd tr)\<lparr>xf_dst := Some f, xf_new := None\<rparr> # tr"
    using assms(1,3) by (simp add: rename_new_def split: if_splits)
  then show ?thesis using assms(2,4) by (simp add: swap_trace_def)
qed

text \<open>Only the program's and the temporary file's entry are touched by the copy.\<close>

lemma copyFile_trace:
  assumes "copyFile ok part mode tr = (c, tr')" "swap_trace P Q tr" "xf_new (hd tr) = Some (data, m)"
    and tmp: "\<And>s x. P (s\<lparr>xf_tmp := x\<rparr>) = P s" and new: "\<And>s. P (s\<lparr>xf_dst := Some (data, mode)\<rparr>)"
  shows "swap_trace P (if c = None then (\<lambda>d. d = Some (data, mode)) else Q) tr'"
    "xf_old (hd tr') = xf_old (hd tr)"
proof -
  obtain s tl where tr: "tr = s # tl" using assms(2) by (cases tr) (auto simp: swap_trace_def)
  have P: "P s" "list_all P tl" "Q (xf_dst s)" using assms(2) by (simp_all add: tr swap_trace_def)
  have c: "copyFile ok part mode (s # tl) = (c, tr')" "xf_new s = Some (data, m)" using assms(1,3) by (simp_all add: tr)
  show "swap_trace P (if c = None then (\<lambda>d. d = Some (data, mode)) else Q) tr'"
    using c P by (auto simp: copyFile_def Let_def swap_trace_def tmp new split: if_splits)
  show "xf_old (hd tr') = xf_old (hd tr)"
    using c by (auto simp: copyFile_def Let_def tr split: if_splits)
qed


lemma whole_simps [simp]: "whole data old (s\<lparr>xf_new := x\<rparr>) = whole data old s" "whole data old (s\<lparr>xf_tmp := x\<rparr>) = whole data old s"
  "whole data old (s\<lparr>xf_dst := Some (data, mode)\<rparr>)" "whole data old (s\<lparr>xf_dst := Some (data, mode), xf_new := x\<rparr>)"
  "put_aside old (s\<lparr>xf_new := x\<rparr>) = put_aside old s" "put_aside old (s\<lparr>xf_tmp := x\<rparr>) = put_aside old s"
  by (simp_all add: whole_def put_aside_def)

definition installed :: "byte list \<Rightarrow> exe_file option \<Rightarrow> bool" where
  "installed data d \<longleftrightarrow> map_option fst d = Some data"

lemma swap_trace_weaken: "swap_trace P Q tr \<Longrightarrow> (\<And>d. Q d \<Longrightarrow> R d) \<Longrightarrow> swap_trace P R tr"
  by (simp add: swap_trace_def)

lemma unix_install_trace:
  assumes "unix_install ok part mode tr = (c, tr')" "swap_trace (whole data old) Q tr" "xf_new (hd tr) = Some (data, m)"
  shows "swap_trace (whole data old) (if c = None then installed data else Q) tr'"
proof (cases "rename_new ok tr")
  case (Some tr1)
  have "swap_trace (whole data old) (\<lambda>d. d = Some (data, m)) tr1"
    by (rule rename_new_trace [OF Some _ assms(3)]) (use assms(2) in \<open>simp_all add: swap_trace_def\<close>)
  then show ?thesis using assms(1) Some
    by (auto simp: unix_install_def installed_def elim: swap_trace_weaken)
next
  case None
  obtain c1 tr1 where cp: "copyFile ok part mode tr = (c1, tr1)" by fastforce
  have t: "swap_trace (whole data old) (if c1 = None then (\<lambda>d. d = Some (data, mode)) else Q) tr1"
    by (rule copyFile_trace(1) [OF cp assms(2,3)]) simp_all
  show ?thesis
  proof (cases c1)
    case n: None
    then have "c = None" "tr' = remove_new ok tr1" using assms(1) None cp by (simp_all add: unix_install_def)
    moreover have "swap_trace (whole data old) (installed data) tr1"
      using t n by (auto simp: installed_def elim: swap_trace_weaken)
    ultimately show ?thesis using remove_new_trace [of "whole data old" "installed data" tr1 ok] by simp
  next
    case (Some x)
    then have "c = Some x" "tr' = tr1" using assms(1) None cp by (auto simp: unix_install_def)
    then show ?thesis using t Some by simp
  qed
qed

lemma windows_install_trace:
  fixes data old
  defines "P \<equiv> \<lambda>s. whole data old s \<or> put_aside old s"
  assumes "windows_install ok part mode tr = (c, tr')" "swap_trace P (\<lambda>d. True) tr" "xf_new (hd tr) = Some (data, m)"
    "xf_old (hd tr) = old"
  shows "swap_trace P (if c = None then installed data else (\<lambda>d. ok XRenameBack \<longrightarrow> d = old)) tr'"
proof (cases "rename_new ok tr")
  case (Some tr1)
  have "swap_trace P (\<lambda>d. d = Some (data, m)) tr1"
    by (rule rename_new_trace [OF Some _ assms(4)]) (use assms(3) in \<open>simp_all add: swap_trace_def P_def\<close>)
  then have "swap_trace P (installed data) tr1" by (auto simp: installed_def elim: swap_trace_weaken)
  then show ?thesis using assms(2) Some remove_new_trace [of P "installed data" tr1 ok]
    by (auto simp: windows_install_def P_def)
next
  case None
  obtain c1 tr1 where cp: "copyFile ok part mode tr = (c1, tr1)" by fastforce
  have t: "swap_trace P (if c1 = None then (\<lambda>d. d = Some (data, mode)) else (\<lambda>d. True)) tr1"
    by (rule copyFile_trace(1) [OF cp assms(3,4)]) (simp_all add: P_def)
  have o: "xf_old (hd tr1) = old" using copyFile_trace(2) [OF cp assms(3,4)] assms(5) by (simp add: P_def)
  show ?thesis
  proof (cases c1)
    case n: None
    then have "c = None" "tr' = remove_new ok tr1" using assms(2) None cp by (simp_all add: windows_install_def)
    moreover have "swap_trace P (installed data) tr1"
      using t n by (auto simp: installed_def elim: swap_trace_weaken)
    ultimately show ?thesis using remove_new_trace [of P "installed data" tr1 ok] by (simp add: P_def)
  next
    case (Some x)
    then have "c = Some x" "tr' = (if ok XRenameBack then (hd tr1)\<lparr>xf_dst := old, xf_old := None\<rparr> # tr1 else tr1)"
      using assms(2) None cp o Some by (auto simp: windows_install_def)
    then show ?thesis using t Some by (simp add: swap_trace_def P_def whole_def)
  qed
qed

text \<open>Replacing the program leaves the old one or installs all of the new one.\<close>

lemma SwapInPlace_trace:
  assumes s: "SwapInPlace ok windows part fs = (c, tr)" and n: "xf_new fs = Some (data, m)"
  shows "swap_trace (\<lambda>s. whole data (xf_dst fs) s \<or> windows \<and> put_aside (xf_dst fs) s)
    (if c = None then installed data else (\<lambda>d. \<not> windows \<or> ok XRenameBack \<longrightarrow> d = xf_dst fs)) tr"
proof (cases "ok XExecutable \<and> ok XEvalSymlinks")
  case start: True
  show ?thesis
  proof (cases windows)
    case False
    let ?mode = "installedExecutableMode ok (xf_dst fs)"
    let ?tr = "if ok XChmodNew then [fs\<lparr>xf_new := Some (data, ?mode)\<rparr>, fs] else [fs]"
    have "unix_install ok part ?mode ?tr = (c, tr)"
      using s start False n by (simp add: SwapInPlace_def Let_def)
    moreover have "swap_trace (whole data (xf_dst fs)) (\<lambda>d. d = xf_dst fs) ?tr"
      by (simp add: swap_trace_def whole_def)
    ultimately show ?thesis
      using unix_install_trace [of ok part ?mode ?tr c tr data "xf_dst fs"] n False by (cases "ok XChmodNew") auto
  next
    case True
    let ?P = "\<lambda>s. whole data (xf_dst fs) s \<or> put_aside (xf_dst fs) s"
    define t1 where "t1 = (if ok XRemoveOld then [fs\<lparr>xf_old := None\<rparr>, fs] else [fs])"
    have h1: "xf_dst (hd t1) = xf_dst fs" "xf_new (hd t1) = xf_new fs" "swap_trace ?P (\<lambda>d. d = xf_dst fs) t1"
      by (simp_all add: t1_def swap_trace_def whole_def)
    have w: "(case xf_dst (hd t1) of None \<Rightarrow> (Some XRenameOld, t1)
      | Some cur \<Rightarrow> if \<not> ok XRenameOld then (Some XRenameOld, t1)
          else (let tr2 = (hd t1)\<lparr>xf_old := Some cur, xf_dst := None\<rparr> # t1
            in windows_install ok part (installedExecutableMode ok (xf_old (hd tr2))) tr2)) = (c, tr)"
      using s start True unfolding SwapInPlace_def windowsSwap_def Let_def t1_def list.sel by simp
    show ?thesis
    proof (cases "xf_dst fs = None \<or> \<not> ok XRenameOld")
      case True
      then have "c = Some XRenameOld" "tr = t1" using w h1(1) by (auto split: option.splits)
      then show ?thesis using h1(3) \<open>windows\<close> by (auto elim: swap_trace_weaken)
    next
      case False
      then obtain cur where cur: "xf_dst fs = Some cur" by auto
      let ?t2 = "(hd t1)\<lparr>xf_old := Some cur, xf_dst := None\<rparr> # t1"
      have "windows_install ok part (installedExecutableMode ok (Some cur)) ?t2 = (c, tr)"
        using w h1(1) cur False by (simp add: Let_def)
      moreover have "swap_trace ?P (\<lambda>d. True) ?t2" using h1(3) cur by (simp add: swap_trace_def put_aside_def)
      moreover have "xf_new (hd ?t2) = Some (data, m)" "xf_old (hd ?t2) = xf_dst fs" using n h1(2) cur by simp_all
      ultimately have "swap_trace ?P (if c = None then installed data
          else (\<lambda>d. ok XRenameBack \<longrightarrow> d = xf_dst fs)) tr"
        by (rule windows_install_trace)
      then show ?thesis using \<open>windows\<close> by (cases c) simp_all
    qed
  qed
next
  case False
  then have "tr = [fs]" "c \<noteq> None" using s by (auto simp: SwapInPlace_def split: if_splits)
  then show ?thesis by (auto simp: swap_trace_def whole_def)
qed


subsection \<open>Checking for and applying an update\<close>

text \<open>What the two bindings of the user interface see and ask: the settings, the answers of the
  network, and the platform.\<close>

record update_env =
  ue_settings :: "(doc_error + Settings) option"   \<comment> \<open>no store is configured when \<open>None\<close>\<close>
  ue_json :: "byte list \<Rightarrow> UpdateManifest option"
  ue_request :: bool
  ue_answer :: "http_answer option"
  ue_os :: string
  ue_arch :: string
  ue_b64 :: "string \<Rightarrow> byte list option"
  ue_ed :: "byte list \<Rightarrow> string \<Rightarrow> byte list \<Rightarrow> bool"
  ue_sha256 :: "byte list \<Rightarrow> byte list"
  ue_lower :: "string \<Rightarrow> string"
  ue_download :: download_env

datatype binding_error = NoSettingsStore | SettingsError doc_error | UpdateNotConfigured | UpdateError update_error
  | SwapError exe_call

record UpdateInfo =
  ui_Available :: bool
  ui_CurrentVersion :: string
  ui_LatestVersion :: string
  ui_Notes :: string

text \<open>Both bindings begin with the same calls, up to the verified target.\<close>

definition verified_target :: "update_env \<Rightarrow> binding_error + UpdateManifest \<times> ManifestTarget" where
  "verified_target E = (case ue_settings E of
     None \<Rightarrow> Inl NoSettingsStore
   | Some (Inl e) \<Rightarrow> Inl (SettingsError e)
   | Some (Inr s) \<Rightarrow>
       if sg_AutoUpdateURL s = '''' \<or> sg_AutoUpdatePublicKey s = '''' then Inl UpdateNotConfigured
       else (case FetchManifest (ue_json E) (ue_request E) (ue_answer E) (sg_AutoUpdateURL s) of
           Inl e \<Rightarrow> Inl (UpdateError e)
         | Inr m \<Rightarrow> (case SelectTarget (ue_os E) (ue_arch E) m of
             Inl e \<Rightarrow> Inl (UpdateError e)
           | Inr tgt \<Rightarrow> (case VerifySignature (ue_b64 E) (ue_ed E) (um_Version m) (sg_AutoUpdatePublicKey s) tgt of
               Some e \<Rightarrow> Inl (UpdateError e)
             | None \<Rightarrow> Inr (m, tgt)))))"

definition currentAppVersion :: "string \<Rightarrow> string" where
  "currentAppVersion version = (if version = '''' then ''0.0.0'' else version)"

definition CheckForUpdate :: "string \<Rightarrow> update_env \<Rightarrow> binding_error + UpdateInfo" where
  "CheckForUpdate version E = (case verified_target E of
     Inl e \<Rightarrow> Inl e
   | Inr (m, tgt) \<Rightarrow> (let current = trim_space (currentAppVersion version) in
       Inr \<lparr>ui_Available = IsNewer (um_Version m) current, ui_CurrentVersion = current,
         ui_LatestVersion = um_Version m, ui_Notes = um_Notes m\<rparr>))"

definition ApplyUpdate :: "update_env \<Rightarrow> (exe_call \<Rightarrow> bool) \<Rightarrow> bool \<Rightarrow> byte list \<Rightarrow> exe_fs \<Rightarrow> binding_error option \<times> exe_fs list" where
  "ApplyUpdate E ok windows part fs = (case verified_target E of
     Inl e \<Rightarrow> (Some e, [fs])
   | Inr (m, tgt) \<Rightarrow> (case Download (ue_sha256 E) (ue_lower E) (ue_download E) (Some tgt) of
       Inl e \<Rightarrow> (Some (UpdateError e), [fs])
     | Inr data \<Rightarrow> (case SwapInPlace ok windows part (fs\<lparr>xf_new := Some (data, 384)\<rparr>) of
         (Some c, tr) \<Rightarrow> (Some (SwapError c), tr) | (None, tr) \<Rightarrow> (None, tr))))"

text \<open>The bytes that a signature with the configured key speaks for, on this platform.\<close>

definition endorsed :: "update_env \<Rightarrow> byte list \<Rightarrow> bool" where
  "endorsed E data \<longleftrightarrow> (\<exists>s pub version sha url sig. ue_settings E = Some (Inr s) \<and>
     decodeKey (ue_b64 E) (sg_AutoUpdatePublicKey s) = Inr pub \<and> isValidSHA256 sha \<and>
     ue_ed E pub (canonicalPayload version (ue_os E) (ue_arch E) sha url) sig \<and>
     hex_encode (ue_sha256 E data) = to_lower (ue_lower E) (trim_space sha))"

lemma SelectTarget_Inr: "SelectTarget os arch m = Inr t \<Longrightarrow> t \<in> set (um_Targets m) \<and> tg_OS t = os \<and> tg_Arch t = arch"
  by (auto simp: SelectTarget_def find_Some_iff split: option.splits)

lemma FetchManifest_valid: "FetchManifest json r ans url = Inr m \<Longrightarrow> \<forall>t \<in> set (um_Targets m). isValidSHA256 (tg_Sha256 t)"
  by (auto simp: FetchManifest_def find_None_iff split: if_splits option.splits)

lemma verified_target_signed:
  assumes "verified_target E = Inr (m, t)"
  obtains s pub sig where "ue_settings E = Some (Inr s)" "decodeKey (ue_b64 E) (sg_AutoUpdatePublicKey s) = Inr pub"
    "ue_ed E pub (canonicalPayload (um_Version m) (ue_os E) (ue_arch E) (tg_Sha256 t) (tg_URL t)) sig"
    "isValidSHA256 (tg_Sha256 t)"
proof -
  obtain s where s: "ue_settings E = Some (Inr s)"
    "FetchManifest (ue_json E) (ue_request E) (ue_answer E) (sg_AutoUpdateURL s) = Inr m"
    "SelectTarget (ue_os E) (ue_arch E) m = Inr t"
    "VerifySignature (ue_b64 E) (ue_ed E) (um_Version m) (sg_AutoUpdatePublicKey s) t = None"
    using assms by (auto simp: verified_target_def split: option.splits sum.splits if_splits)
  from s(3) have t: "t \<in> set (um_Targets m)" "tg_OS t = ue_os E" "tg_Arch t = ue_arch E" using SelectTarget_Inr by blast+
  from s(4) obtain pub sig where "decodeKey (ue_b64 E) (sg_AutoUpdatePublicKey s) = Inr pub"
    "ue_ed E pub (canonicalPayload (um_Version m) (tg_OS t) (tg_Arch t) (tg_Sha256 t) (tg_URL t)) sig"
    by (auto simp: VerifySignature_def split: sum.splits option.splits if_splits)
  then show ?thesis using that s(1) t FetchManifest_valid [OF s(2)] by simp
qed

lemma Download_hash: "Download sha256 ul env (Some t) = Inr data \<Longrightarrow>
    hex_encode (sha256 data) = to_lower ul (trim_space (tg_Sha256 t))"
  by (auto simp: Download_def Let_def split: if_splits option.splits)

text \<open>Whatever the network, the signer's keys and the file system do, the program is the old one or one
  that a signature for this platform endorses; after success it is the latter.\<close>

definition endorsed_program :: "update_env \<Rightarrow> exe_file option \<Rightarrow> bool" where
  "endorsed_program E d \<longleftrightarrow> (case d of None \<Rightarrow> False | Some (data, _) \<Rightarrow> endorsed E data)"

lemma ApplyUpdate_safe:
  assumes "ApplyUpdate E ok windows part fs = (e, tr)"
  shows "swap_trace (\<lambda>s. xf_dst s = xf_dst fs \<or> endorsed_program E (xf_dst s) \<or> windows \<and> put_aside (xf_dst fs) s)
    (case e of None \<Rightarrow> endorsed_program E | Some _ \<Rightarrow> (\<lambda>d. \<not> windows \<or> ok XRenameBack \<longrightarrow> d = xf_dst fs)) tr"
proof (cases "\<exists>m t data. verified_target E = Inr (m, t) \<and>
    Download (ue_sha256 E) (ue_lower E) (ue_download E) (Some t) = Inr data")
  case False
  then have "e \<noteq> None" "tr = [fs]" using assms
    by (auto simp: ApplyUpdate_def split: sum.splits prod.splits)
  then show ?thesis by (auto simp: swap_trace_def)
next
  case True
  then obtain m t data where v: "verified_target E = Inr (m, t)"
    and d: "Download (ue_sha256 E) (ue_lower E) (ue_download E) (Some t) = Inr data" by blast
  have end': "endorsed E data"
    using verified_target_signed [OF v] Download_hash [OF d] unfolding endorsed_def by metis
  let ?fs = "fs\<lparr>xf_new := Some (data, 384)\<rparr>"
  obtain c tr' where sw: "SwapInPlace ok windows part ?fs = (c, tr')" by fastforce
  have e: "tr = tr'" "e = map_option SwapError c"
    using assms v d sw by (auto simp: ApplyUpdate_def split: option.splits)
  have inst: "endorsed_program E d'" if "installed data d'" for d'
    using that end' by (auto simp: installed_def endorsed_program_def)
  have st: "swap_trace (\<lambda>s. whole data (xf_dst fs) s \<or> windows \<and> put_aside (xf_dst fs) s)
    (if c = None then installed data else (\<lambda>d. \<not> windows \<or> ok XRenameBack \<longrightarrow> d = xf_dst fs)) tr"
    using SwapInPlace_trace [OF sw] by (cases c) (simp_all add: e)
  have "list_all (\<lambda>s. xf_dst s = xf_dst fs \<or> endorsed_program E (xf_dst s) \<or> windows \<and> put_aside (xf_dst fs) s) tr"
    using st inst by (auto simp: swap_trace_def list_all_iff whole_def installed_def)
  then show ?thesis using st inst by (cases c) (auto simp: swap_trace_def e)
qed

text \<open>What \<open>CheckForUpdate\<close> finds no newer version in, \<open>ApplyUpdate\<close> installs all the same: it does not
  compare versions.\<close>

lemma ApplyUpdate_unchecked:
  assumes "verified_target E = Inr (m, t)" "Download (ue_sha256 E) (ue_lower E) (ue_download E) (Some t) = Inr data"
  shows "\<exists>tr. ApplyUpdate E (\<lambda>_. True) False part fs = (None, tr) \<and> installed data (xf_dst (hd tr))"
proof -
  obtain c tr where sw: "SwapInPlace (\<lambda>_. True) False part (fs\<lparr>xf_new := Some (data, 384)\<rparr>) = (c, tr)" by fastforce
  have "c = None" using sw by (auto simp: SwapInPlace_def unix_install_def rename_new_def Let_def)
  then show ?thesis using SwapInPlace_trace [OF sw] sw assms
    by (auto simp: ApplyUpdate_def swap_trace_def)
qed

end
