(* ===== verification/AppMarketplace.thy ===== *)
theory AppMarketplace
  imports PluginRegistry AppUpdate
begin

text \<open>
  \<open>app/marketplace/marketplace.go\<close>: the document that lists plugins, and the installation of one into
  the directory that \<open>PluginRegistry\<close> scans. The file system is the one of that theory. URL
  parsing, JSON, the hash and the answer of the HTTP client are arguments, and so is which
  of the calls of the operating system succeed.
\<close>

subsection \<open>Listings\<close>

record Listing =
  lt_ID :: string
  lt_Name :: string
  lt_Version :: string
  lt_Description :: string
  lt_Homepage :: string
  lt_Publisher :: string
  lt_License :: string
  lt_OS :: "string list"
  lt_Arch :: "string list"
  lt_DownloadURL :: string
  lt_SHA256 :: string
  lt_SignedBy :: string
  lt_Manifest :: "byte list"

record Market_Document =
  md_APIVersion :: string
  md_UpdatedAt :: int
  md_Listings :: "Listing list"

datatype listing_error = NilListing | MissingID | MissingVersion | MissingURL | BadSHA256 string | BadListingID string
  | InlineJSON | InlineInvalid manifest_error | InlineID string string | InlineVersion string string

datatype market_error = EmptyScheme | SchemeNotAllowed string | MarketURL | MarketRequest | MarketFetch
  | MarketStatus int | MarketBody | MarketTooLarge | MarketParse | NilDocument | MissingAPIVersion
  | UnsupportedAPI string | BadListing nat listing_error | InvalidListing listing_error | EmptyDest | MkdirDest
  | StageDir | OpenPayload | WritePayload | ClosePayload | DownloadTooLarge | MarketSha string | WriteManifest
  | ArchivePrevious | RenameStage

text \<open>\<open>isValidSHA256\<close> is the function of the same text in \<open>AppUpdate\<close>.\<close>

definition Listing_Validate :: "(byte list \<Rightarrow> Manifest option) \<Rightarrow> Listing option \<Rightarrow> listing_error option" where
  "Listing_Validate json lo = (case lo of None \<Rightarrow> Some NilListing | Some l \<Rightarrow>
     if lt_ID l = '''' then Some MissingID
     else if lt_Version l = '''' then Some MissingVersion
     else if lt_DownloadURL l = '''' then Some MissingURL
     else if \<not> isValidSHA256 (lt_SHA256 l) then Some (BadSHA256 (lt_SHA256 l))
     else if CHR ''/'' \<in> set (lt_ID l) \<or> backslash \<in> set (lt_ID l) \<or> has_prefix (lt_ID l) ''.''
       then Some (BadListingID (lt_ID l))
     else if lt_Manifest l = [] then None
     else (case json (lt_Manifest l) of
         None \<Rightarrow> Some InlineJSON
       | Some m \<Rightarrow> (case Manifest_Validate (Some m) of
           Some e \<Rightarrow> Some (InlineInvalid e)
         | None \<Rightarrow>
             if mf_ID m \<noteq> lt_ID l then Some (InlineID (mf_ID m) (lt_ID l))
             else if mf_Version m \<noteq> lt_Version l then Some (InlineVersion (mf_Version m) (lt_Version l))
             else None)))"

definition market_api_version :: string where
  "market_api_version = ''1''"

fun first_bad :: "(byte list \<Rightarrow> Manifest option) \<Rightarrow> nat \<Rightarrow> Listing list \<Rightarrow> market_error option" where
  "first_bad json i [] = None"
| "first_bad json i (l # ls) = (case Listing_Validate json (Some l) of
     Some e \<Rightarrow> Some (BadListing i e) | None \<Rightarrow> first_bad json (i + 1) ls)"

definition Document_Validate :: "(byte list \<Rightarrow> Manifest option) \<Rightarrow> Market_Document option \<Rightarrow> market_error option" where
  "Document_Validate json d0 = (case d0 of None \<Rightarrow> Some NilDocument | Some d \<Rightarrow>
     if md_APIVersion d = '''' then Some MissingAPIVersion
     else if md_APIVersion d \<noteq> market_api_version then Some (UnsupportedAPI (md_APIVersion d))
     else first_bad json 0 (md_Listings d))"

subsection \<open>The client\<close>

record market_client =
  mc_FetchMax :: "64 word"
  mc_DownloadMax :: "64 word"
  mc_Schemes :: "string list"

definition NewClient :: market_client where
  "NewClient = \<lparr>mc_FetchMax = push_bit 20 1, mc_DownloadMax = push_bit 20 64, mc_Schemes = [''https'']\<rparr>"

definition fetchMaxBytes :: "market_client \<Rightarrow> 64 word" where
  "fetchMaxBytes c = (if 0 <s mc_FetchMax c then mc_FetchMax c else push_bit 20 1)"

definition downloadMaxBytes :: "market_client \<Rightarrow> 64 word" where
  "downloadMaxBytes c = (if 0 <s mc_DownloadMax c then mc_DownloadMax c else push_bit 20 64)"

text \<open>\<open>strings.EqualFold\<close> on ASCII text: schemes of parsed URLs and hexadecimal digits are that.\<close>

definition EqualFold :: "string \<Rightarrow> string \<Rightarrow> bool" where
  "EqualFold a b \<longleftrightarrow> map lower_char a = map lower_char b"

definition checkScheme :: "market_client \<Rightarrow> string \<Rightarrow> market_error option" where
  "checkScheme c s =
     (if s = '''' then Some EmptyScheme
      else let allowed = (if mc_Schemes c = [] then [''https''] else mc_Schemes c) in
        if list_ex (\<lambda>a. EqualFold a s) allowed then None else Some (SchemeNotAllowed s))"

text \<open>
  What is read through \<open>io.LimitReader\<close>, \<open>None\<close> for an error. The error of a body that breaks off is
  not seen where the limit is reached first; a limit that is not positive lets nothing through.
\<close>

definition limited_read :: "64 word \<Rightarrow> http_answer \<Rightarrow> byte list option" where
  "limited_read n a = (let k = (if 0 <s n then unat n else 0) in
     if \<not> ha_complete a \<and> length (ha_Body a) < k then None else Some (take k (ha_Body a)))"

datatype mk_call = KRequest | KMkdir | KStage | KOpen | KCopy | KClose | KManifest | KStatFinal | KClearOld | KArchive
  | KPlace | KStatOld | KRestore | KDropOld | KCleanup

text \<open>\<open>mx_left\<close>: what a removal that fails leaves below a path.\<close>

record market_env =
  mx_scheme :: "string \<Rightarrow> string option"
  mx_manifest :: "byte list \<Rightarrow> Manifest option"
  mx_document :: "byte list \<Rightarrow> Market_Document option"
  mx_sha :: "byte list \<Rightarrow> byte list"
  mx_ok :: "mk_call \<Rightarrow> bool"
  mx_answer :: "http_answer option"
  mx_random :: string
  mx_left :: "mk_call \<Rightarrow> string list \<Rightarrow> fs_node option"

definition Fetch :: "market_env \<Rightarrow> market_client \<Rightarrow> string \<Rightarrow> market_error + Market_Document" where
  "Fetch E c url = (case mx_scheme E url of
     None \<Rightarrow> Inl MarketURL
   | Some s \<Rightarrow> (case checkScheme c s of
       Some e \<Rightarrow> Inl e
     | None \<Rightarrow>
         if \<not> mx_ok E KRequest then Inl MarketRequest
         else (case mx_answer E of
             None \<Rightarrow> Inl MarketFetch
           | Some a \<Rightarrow>
               if ha_Status a \<noteq> 200 then Inl (MarketStatus (ha_Status a))
               else (case limited_read (fetchMaxBytes c + 1) a of
                   None \<Rightarrow> Inl MarketBody
                 | Some body \<Rightarrow>
                     if length body > unat (fetchMaxBytes c) then Inl MarketTooLarge
                     else (case mx_document E body of
                         None \<Rightarrow> Inl MarketParse
                       | Some d \<Rightarrow> (case Document_Validate (mx_manifest E) (Some d) of
                           Some e \<Rightarrow> Inl e | None \<Rightarrow> Inr d))))))"

subsection \<open>Installation\<close>

text \<open>\<open>os.RemoveAll\<close> and \<open>os.Rename\<close>. A directory is renamed only to a path that does not exist, another node
  also over what is not a directory.\<close>

definition try_remove :: "market_env \<Rightarrow> mk_call \<Rightarrow> string list \<Rightarrow> plugin_fs \<Rightarrow> plugin_fs" where
  "try_remove E k dir fs = (if mx_ok E k then remove_tree dir fs
     else (\<lambda>p. if has_prefix p dir then mx_left E k p else fs p))"

definition can_rename :: "plugin_fs \<Rightarrow> string list \<Rightarrow> string list \<Rightarrow> bool" where
  "can_rename fs src dst \<longleftrightarrow> (case fs src of None \<Rightarrow> False | Some nd \<Rightarrow>
     (case fs dst of None \<Rightarrow> True | Some RDir \<Rightarrow> False | Some _ \<Rightarrow> nd \<noteq> RDir))"

definition rename_tree :: "string list \<Rightarrow> string list \<Rightarrow> plugin_fs \<Rightarrow> plugin_fs" where
  "rename_tree src dst fs = (\<lambda>p. if has_prefix p dst then fs (src @ drop (length dst) p)
     else if has_prefix p src then None else fs p)"

definition rename_step :: "market_env \<Rightarrow> mk_call \<Rightarrow> string list \<Rightarrow> string list \<Rightarrow> plugin_fs \<Rightarrow> plugin_fs option" where
  "rename_step E k src dst fs = (if mx_ok E k \<and> can_rename fs src dst then Some (rename_tree src dst fs) else None)"

text \<open>\<open>os.MkdirAll\<close> makes what is missing; a path through something that is not a directory fails. A failure
  may leave some of the directories.\<close>

definition mkdir_all :: "string list \<Rightarrow> plugin_fs \<Rightarrow> plugin_fs" where
  "mkdir_all dest fs = (\<lambda>p. if has_prefix dest p \<and> fs p = None then Some RDir else fs p)"

definition mkdir_possible :: "string list \<Rightarrow> plugin_fs \<Rightarrow> bool" where
  "mkdir_possible dest fs = list_all (\<lambda>n. fs (take n dest) \<in> {None, Some RDir}) [0..<Suc (length dest)]"

definition mkdir_part :: "market_env \<Rightarrow> string list \<Rightarrow> plugin_fs \<Rightarrow> plugin_fs" where
  "mkdir_part E dest fs = (\<lambda>p. if has_prefix dest p \<and> fs p = None \<and> mx_left E KMkdir p = Some RDir then Some RDir else fs p)"

text \<open>Download, comparison of the hash, and the copy of the manifest, into the staging directory.\<close>

definition fill_stage :: "market_env \<Rightarrow> market_client \<Rightarrow> Listing \<Rightarrow> string list \<Rightarrow> plugin_fs \<Rightarrow>
    market_error option \<times> plugin_fs" where
  "fill_stage E c l stage fs =
     (if \<not> mx_ok E KRequest then (Some MarketRequest, fs)
      else case mx_answer E of
        None \<Rightarrow> (Some MarketFetch, fs)
      | Some a \<Rightarrow>
          if ha_Status a \<noteq> 200 then (Some (MarketStatus (ha_Status a)), fs)
          else if \<not> mx_ok E KOpen then (Some OpenPayload, fs)
          else (case limited_read (downloadMaxBytes c + 1) a of
              None \<Rightarrow> (Some WritePayload, fs(stage @ [''payload''] \<mapsto> RFile (ha_Body a)))
            | Some body \<Rightarrow> (let fs1 = fs(stage @ [''payload''] \<mapsto> RFile body); got = hex_encode (mx_sha E body) in
                if \<not> mx_ok E KCopy then (Some WritePayload, fs1)
                else if \<not> mx_ok E KClose then (Some ClosePayload, fs1)
                else if length body > unat (downloadMaxBytes c) then (Some DownloadTooLarge, fs1)
                else if \<not> EqualFold got (lt_SHA256 l) then (Some (MarketSha got), fs1)
                else if lt_Manifest l = [] then (None, fs1)
                else if \<not> mx_ok E KManifest then (Some WriteManifest, fs1)
                else (None, fs1(stage @ [''manifest.json''] \<mapsto> RFile (lt_Manifest l))))))"

text \<open>The previous installation is moved aside, and back when the new one cannot take its place.\<close>

definition set_aside :: "market_env \<Rightarrow> string list \<Rightarrow> string list \<Rightarrow> plugin_fs \<Rightarrow> market_error option \<times> plugin_fs" where
  "set_aside E final old fs =
     (if fs final = None \<or> \<not> mx_ok E KStatFinal then (None, fs)
      else let fs1 = try_remove E KClearOld old fs in
        case rename_step E KArchive final old fs1 of
          None \<Rightarrow> (Some ArchivePrevious, fs1) | Some fs2 \<Rightarrow> (None, fs2))"

definition place :: "market_env \<Rightarrow> string list \<Rightarrow> string list \<Rightarrow> string list \<Rightarrow> plugin_fs \<Rightarrow> market_error option \<times> plugin_fs" where
  "place E stage final old fs = (case set_aside E final old fs of
     (Some e, fs1) \<Rightarrow> (Some e, fs1)
   | (None, fs1) \<Rightarrow> (case rename_step E KPlace stage final fs1 of
       Some fs2 \<Rightarrow> (None, try_remove E KDropOld old fs2)
     | None \<Rightarrow> (Some RenameStage,
         (if fs1 old \<noteq> None \<and> mx_ok E KStatOld
          then (case rename_step E KRestore old final fs1 of None \<Rightarrow> fs1 | Some fs2 \<Rightarrow> fs2) else fs1))))"

definition stage_dir :: "market_env \<Rightarrow> string list \<Rightarrow> Listing \<Rightarrow> string list" where
  "stage_dir E dest l = dest @ [''.install-'' @ lt_ID l @ ''-'' @ mx_random E]"

definition Install :: "market_env \<Rightarrow> market_client \<Rightarrow> Listing \<Rightarrow> string list \<Rightarrow> plugin_fs \<Rightarrow> market_error option \<times> plugin_fs" where
  "Install E c l dest fs = (case Listing_Validate (mx_manifest E) (Some l) of
     Some e \<Rightarrow> (Some (InvalidListing e), fs)
   | None \<Rightarrow>
       if dest = [] then (Some EmptyDest, fs)
       else (case mx_scheme E (lt_DownloadURL l) of
           None \<Rightarrow> (Some MarketURL, fs)
         | Some s \<Rightarrow> (case checkScheme c s of
             Some e \<Rightarrow> (Some e, fs)
           | None \<Rightarrow>
               if \<not> (mx_ok E KMkdir \<and> mkdir_possible dest fs) then (Some MkdirDest, mkdir_part E dest fs)
               else if \<not> mx_ok E KStage then (Some StageDir, mkdir_all dest fs)
               else (let stage = stage_dir E dest l in
                 case fill_stage E c l stage ((mkdir_all dest fs)(stage \<mapsto> RDir)) of
                   (Some e, fs1) \<Rightarrow> (Some e, try_remove E KCleanup stage fs1)
                 | (None, fs1) \<Rightarrow> (case place E stage (dest @ [lt_ID l]) (dest @ [lt_ID l @ ''.old'']) fs1 of
                     (Some e, fs2) \<Rightarrow> (Some e, try_remove E KCleanup stage fs2)
                   | (None, fs2) \<Rightarrow> (None, fs2))))))"

subsection \<open>What an installation leaves\<close>

text \<open>The staging directory is new.\<close>

definition fresh_stage :: "string list \<Rightarrow> plugin_fs \<Rightarrow> bool" where
  "fresh_stage stage fs \<longleftrightarrow> (\<forall>q. fs (stage @ q) = None)"

lemma valid_listing_id:
  assumes "Listing_Validate json (Some l) = None"
  shows "valid_id (lt_ID l)" "\<not> has_prefix (lt_ID l) ''.''"
proof -
  show p: "\<not> has_prefix (lt_ID l) ''.''"
    using assms by (auto simp: Listing_Validate_def split: if_splits)
  then have "lt_ID l \<noteq> ''.''" "lt_ID l \<noteq> ''..''" by auto
  then show "valid_id (lt_ID l)"
    using assms by (auto simp: Listing_Validate_def valid_id_def plain_def split: if_splits)
qed

lemma prefix_cases: "has_prefix p dir \<longleftrightarrow> (\<exists>q. p = dir @ q)"
  by (auto simp: has_prefix_iff)

text \<open>The stage after a successful download.\<close>

definition staged :: "Listing \<Rightarrow> byte list \<Rightarrow> string list \<Rightarrow> fs_node option" where
  "staged l body q = (if q = [] then Some RDir
     else if q = [''payload''] then Some (RFile body)
     else if q = [''manifest.json''] \<and> lt_Manifest l \<noteq> [] then Some (RFile (lt_Manifest l)) else None)"

lemma fill_stage_ok:
  assumes "fill_stage E c l stage (fs(stage \<mapsto> RDir)) = (None, fs1)" "fresh_stage stage fs"
  shows "\<exists>body. EqualFold (hex_encode (mx_sha E body)) (lt_SHA256 l) \<and> length body \<le> unat (downloadMaxBytes c) \<and>
    (\<forall>q. fs1 (stage @ q) = staged l body q) \<and> (\<forall>p. \<not> has_prefix p stage \<longrightarrow> fs1 p = fs p)"
proof -
  from assms(1) obtain body where b: "EqualFold (hex_encode (mx_sha E body)) (lt_SHA256 l)"
    "length body \<le> unat (downloadMaxBytes c)"
    and f: "fs1 = (if lt_Manifest l = [] then fs(stage \<mapsto> RDir, stage @ [''payload''] \<mapsto> RFile body)
      else fs(stage \<mapsto> RDir, stage @ [''payload''] \<mapsto> RFile body, stage @ [''manifest.json''] \<mapsto> RFile (lt_Manifest l)))"
    by (auto simp: fill_stage_def Let_def not_less split: if_splits option.splits)
  have "fs1 (stage @ q) = staged l body q" for q
    using assms(2) by (simp add: f staged_def fresh_stage_def)
  moreover have "fs1 p = fs p" if "\<not> has_prefix p stage" for p
    using that by (auto simp: f prefix_cases)
  ultimately show ?thesis using b by blast
qed

lemma fill_stage_outside:
  assumes "fill_stage E c l stage fs = (e, fs1)" "\<not> has_prefix p stage"
  shows "fs1 p = fs p"
  using assms by (auto simp: fill_stage_def Let_def prefix_cases split: if_splits option.splits)

text \<open>The three directories lie side by side.\<close>

lemma market_names:
  assumes "\<not> has_prefix i ''.''"
  shows "''.install-'' @ s \<noteq> i" "''.install-'' @ s \<noteq> i @ ''.old''" "i \<noteq> i @ ''.old''"
  using assms by (cases i; auto)+

lemma side_by_side: "a \<noteq> b \<Longrightarrow> \<not> has_prefix (dest @ a # q) (dest @ [b])"
  by (simp add: prefix_cases)

definition install_staged :: "market_env \<Rightarrow> Listing \<Rightarrow> string list \<Rightarrow> market_error option \<times> plugin_fs \<Rightarrow>
    market_error option \<times> plugin_fs" where
  "install_staged E l dest x = (case x of
     (Some e, fs1) \<Rightarrow> (Some e, try_remove E KCleanup (stage_dir E dest l) fs1)
   | (None, fs1) \<Rightarrow> (case place E (stage_dir E dest l) (dest @ [lt_ID l]) (dest @ [lt_ID l @ ''.old'']) fs1 of
       (Some e, fs2) \<Rightarrow> (Some e, try_remove E KCleanup (stage_dir E dest l) fs2)
     | (None, fs2) \<Rightarrow> (None, fs2)))"

lemma checkScheme_errors: "checkScheme c s = Some e \<Longrightarrow> e \<noteq> ArchivePrevious \<and> e \<noteq> RenameStage"
  by (auto simp: checkScheme_def Let_def split: if_splits)

text \<open>Nothing changes but that missing directories above are made.\<close>

definition only_dirs :: "string list \<Rightarrow> plugin_fs \<Rightarrow> plugin_fs \<Rightarrow> string list \<Rightarrow> bool" where
  "only_dirs dest fs fs' p \<longleftrightarrow> fs' p = fs p \<or> has_prefix dest p \<and> fs p = None \<and> fs' p = Some RDir"

lemma mkdir_below [simp]: "mkdir_all dest fs (dest @ x # q) = fs (dest @ x # q)"
  by (auto simp: mkdir_all_def prefix_cases)

lemma mkdir_only_dirs: "only_dirs dest fs (mkdir_all dest fs) p" "only_dirs dest fs (mkdir_part E dest fs) p" "only_dirs dest fs fs p"
  by (simp_all add: only_dirs_def mkdir_all_def mkdir_part_def)

lemma only_dirs_mkdir: "fs' p = mkdir_all dest fs p \<Longrightarrow> only_dirs dest fs fs' p"
  using mkdir_only_dirs(1) [of dest fs p] by (simp add: only_dirs_def)

lemma mkdir_fresh: "fresh_stage (dest @ x # q) (mkdir_all dest fs) = fresh_stage (dest @ x # q) fs"
  by (simp add: fresh_stage_def)

lemma Install_cases:
  "(\<exists>e fs1. Install E c l dest fs = (Some e, fs1) \<and> e \<noteq> ArchivePrevious \<and> e \<noteq> RenameStage \<and> (\<forall>p. only_dirs dest fs fs1 p)) \<or>
   Listing_Validate (mx_manifest E) (Some l) = None \<and>
   Install E c l dest fs =
     install_staged E l dest (fill_stage E c l (stage_dir E dest l) ((mkdir_all dest fs)(stage_dir E dest l \<mapsto> RDir)))"
proof (cases "Listing_Validate (mx_manifest E) (Some l)")
  case (Some e)
  then show ?thesis by (auto simp: Install_def mkdir_only_dirs)
next
  case None
  note v = None
  show ?thesis
  proof (cases "mx_scheme E (lt_DownloadURL l)")
    case None
    then show ?thesis using v by (cases "dest = []") (auto simp: Install_def mkdir_only_dirs)
  next
    case (Some s)
    show ?thesis
    proof (cases "checkScheme c s")
      case None
      then show ?thesis using v Some
        by (cases "dest = []"; cases "mx_ok E KMkdir \<and> mkdir_possible dest fs"; cases "mx_ok E KStage")
          (auto simp: Install_def install_staged_def Let_def mkdir_only_dirs)
    next
      case (Some e)
      then show ?thesis using v \<open>mx_scheme E (lt_DownloadURL l) = Some s\<close> checkScheme_errors [OF Some]
        by (cases "dest = []") (auto simp: Install_def mkdir_only_dirs)
    qed
  qed
qed

text \<open>Either nothing was staged for good, or a staged plugin went on to take its place.\<close>

lemma Install_place:
  assumes "Install E c l dest fs = (r, fs')" "fresh_stage (stage_dir E dest l) fs"
  shows "(\<exists>e. r = Some e \<and> e \<noteq> ArchivePrevious \<and> e \<noteq> RenameStage \<and> (mx_ok E KCleanup \<longrightarrow> (\<forall>p. only_dirs dest fs fs' p))) \<or>
    (\<exists>body fs1. Listing_Validate (mx_manifest E) (Some l) = None \<and>
       EqualFold (hex_encode (mx_sha E body)) (lt_SHA256 l) \<and> length body \<le> unat (downloadMaxBytes c) \<and>
       (\<forall>q. fs1 (stage_dir E dest l @ q) = staged l body q) \<and>
       (\<forall>p. \<not> has_prefix p (stage_dir E dest l) \<longrightarrow> fs1 p = mkdir_all dest fs p) \<and>
       install_staged E l dest (None, fs1) = (r, fs'))"
proof -
  let ?stage = "stage_dir E dest l"
  let ?fs = "mkdir_all dest fs"
  have fresh: "fresh_stage ?stage ?fs" using assms(2) by (simp add: stage_dir_def mkdir_fresh)
  obtain r1 fs1 where f: "fill_stage E c l ?stage (?fs(?stage \<mapsto> RDir)) = (r1, fs1)"
    by (cases "fill_stage E c l ?stage (?fs(?stage \<mapsto> RDir))")
  from Install_cases [of E c l dest fs] show ?thesis
  proof
    assume "\<exists>e fs1. Install E c l dest fs = (Some e, fs1) \<and> e \<noteq> ArchivePrevious \<and> e \<noteq> RenameStage \<and> (\<forall>p. only_dirs dest fs fs1 p)"
    then show ?thesis using assms(1) by auto
  next
    assume i: "Listing_Validate (mx_manifest E) (Some l) = None \<and>
      Install E c l dest fs = install_staged E l dest (fill_stage E c l ?stage (?fs(?stage \<mapsto> RDir)))"
    show ?thesis
    proof (cases r1)
      case None
      with f have "fill_stage E c l ?stage (?fs(?stage \<mapsto> RDir)) = (None, fs1)" by simp
      note b = fill_stage_ok [OF this fresh]
      have "Listing_Validate (mx_manifest E) (Some l) = None" "install_staged E l dest (None, fs1) = (r, fs')"
        using i assms(1) f None by simp_all
      with b show ?thesis by blast
    next
      case (Some e)
      have out: "fs1 p = ?fs p" if "\<not> has_prefix p ?stage" for p
        using fill_stage_outside [OF f that] that by (auto simp: prefix_cases)
      have "try_remove E KCleanup ?stage fs1 = ?fs" if "mx_ok E KCleanup"
        using that fresh out by (auto simp: try_remove_def remove_tree_def fresh_stage_def prefix_cases fun_eq_iff)
      moreover have "e \<noteq> ArchivePrevious \<and> e \<noteq> RenameStage"
        using f Some by (auto simp: fill_stage_def Let_def split: if_splits option.splits)
      ultimately show ?thesis using i assms(1) f Some mkdir_only_dirs(1) by (auto simp: install_staged_def)
    qed
  qed
qed

lemma Install_ok:
  assumes "Install E c l dest fs = (None, fs')" "fresh_stage (stage_dir E dest l) fs"
  shows "Listing_Validate (mx_manifest E) (Some l) = None \<and>
    (\<exists>body. EqualFold (hex_encode (mx_sha E body)) (lt_SHA256 l) \<and> length body \<le> unat (downloadMaxBytes c) \<and>
      (\<forall>q. fs' (dest @ lt_ID l # q) = staged l body q)) \<and>
    (\<forall>p. \<not> has_prefix p (dest @ [lt_ID l]) \<longrightarrow> \<not> has_prefix p (dest @ [lt_ID l @ ''.old'']) \<longrightarrow> fs' p = mkdir_all dest fs p) \<and>
    (mx_ok E KDropOld \<longrightarrow> (\<forall>q. fs' (dest @ (lt_ID l @ ''.old'') # q) = None))"
proof -
  let ?stage = "stage_dir E dest l"
  let ?fs = "mkdir_all dest fs"
  let ?final = "dest @ [lt_ID l]" and ?old = "dest @ [lt_ID l @ ''.old'']"
  have fresh: "fresh_stage ?stage ?fs" using assms(2) by (simp add: stage_dir_def mkdir_fresh)
  from Install_place [OF assms] obtain body fs1 where v: "Listing_Validate (mx_manifest E) (Some l) = None"
    and b: "EqualFold (hex_encode (mx_sha E body)) (lt_SHA256 l)" "length body \<le> unat (downloadMaxBytes c)"
    and st: "\<And>q. fs1 (?stage @ q) = staged l body q" and out: "\<And>p. \<not> has_prefix p ?stage \<Longrightarrow> fs1 p = ?fs p"
    and i: "install_staged E l dest (None, fs1) = (None, fs')" by auto
  note n = market_names [OF valid_listing_id(2) [OF v]]
  from i obtain fs2 fs3 where sa: "set_aside E ?final ?old fs1 = (None, fs2)"
    and rs: "rename_step E KPlace ?stage ?final fs2 = Some fs3" and f: "fs' = try_remove E KDropOld ?old fs3"
    by (auto simp: install_staged_def place_def split: prod.splits option.splits)
  have f2: "fs2 p = fs1 p" if "\<not> has_prefix p ?final" "\<not> has_prefix p ?old" for p
    using sa that by (auto simp: set_aside_def Let_def rename_step_def rename_tree_def try_remove_def remove_tree_def
      split: if_splits option.splits)
  have s2: "fs2 (?stage @ q) = staged l body q" for q
    using f2 [of "?stage @ q"] st n by (simp add: stage_dir_def prefix_cases)
  have f3: "fs3 = rename_tree ?stage ?final fs2" using rs by (simp add: rename_step_def split: if_splits)
  have "fs' (dest @ lt_ID l # q) = staged l body q" for q
    using s2 [of q] n(3) by (simp add: f f3 try_remove_def remove_tree_def rename_tree_def prefix_cases)
  moreover have "fs' p = ?fs p" if "\<not> has_prefix p ?final" "\<not> has_prefix p ?old" for p
  proof (cases "has_prefix p ?stage")
    case True
    then show ?thesis using that fresh by (auto simp: f f3 try_remove_def remove_tree_def rename_tree_def fresh_stage_def prefix_cases)
  next
    case False
    then show ?thesis using that f2 [OF that] out [OF False] by (simp add: f f3 try_remove_def remove_tree_def rename_tree_def)
  qed
  moreover have "fs' (dest @ (lt_ID l @ ''.old'') # q) = None" if "mx_ok E KDropOld" for q
    using that by (simp add: f try_remove_def remove_tree_def prefix_cases)
  ultimately show ?thesis using v b by blast
qed

text \<open>
  An installation that fails changes nothing but what has the name of the old copy; on a first installation, when
  the last rename fails, what has that name takes the plugin's place.
\<close>

definition first_with_old :: "Listing \<Rightarrow> string list \<Rightarrow> plugin_fs \<Rightarrow> bool" where
  "first_with_old l dest fs \<longleftrightarrow> fs (dest @ [lt_ID l]) = None \<and> fs (dest @ [lt_ID l @ ''.old'']) \<noteq> None"

lemma Install_error_keeps:
  assumes "Install E c l dest fs = (Some e, fs')" "fresh_stage (stage_dir E dest l) fs"
    and ok: "mx_ok E KStatFinal" "mx_ok E KStatOld" "mx_ok E KRestore" "mx_ok E KCleanup"
  shows "if first_with_old l dest fs \<and> e = RenameStage
    then only_dirs dest (rename_tree (dest @ [lt_ID l @ ''.old'']) (dest @ [lt_ID l]) fs) fs' p
    else has_prefix p (dest @ [lt_ID l @ ''.old'']) \<or> only_dirs dest fs fs' p"
proof -
  let ?stage = "stage_dir E dest l"
  let ?fs0 = "mkdir_all dest fs"
  let ?final = "dest @ [lt_ID l]" and ?old = "dest @ [lt_ID l @ ''.old'']"
  have fresh: "fresh_stage ?stage ?fs0" using assms(2) by (simp add: stage_dir_def mkdir_fresh)
  from Install_place [OF assms(1,2)] ok(4) consider "e \<noteq> RenameStage" "\<forall>p. only_dirs dest fs fs' p" | fs1 where
      "Listing_Validate (mx_manifest E) (Some l) = None" "\<And>p. \<not> has_prefix p ?stage \<Longrightarrow> fs1 p = ?fs0 p"
      "install_staged E l dest (None, fs1) = (Some e, fs')" by auto
  then show ?thesis
  proof cases
    case (2 fs1)
    note n = market_names [OF valid_listing_id(2) [OF 2(1)]]
    from 2(3) obtain fs4 where f: "fs' = remove_tree ?stage fs4" and pl: "place E ?stage ?final ?old fs1 = (Some e, fs4)"
      using ok(4) by (auto simp: install_staged_def try_remove_def split: prod.splits option.splits)
    have at: "fs1 (?final @ q) = fs (?final @ q)" "fs1 (?old @ q) = fs (?old @ q)" for q
      using n 2(2) [of "?final @ q"] 2(2) [of "?old @ q"] by (simp_all add: stage_dir_def prefix_cases)
    show ?thesis
    proof (cases "first_with_old l dest fs")
      case True
      then have no: "fs1 ?final = None" "fs1 ?old \<noteq> None" using at [of "[]"] by (simp_all add: first_with_old_def)
      then have "set_aside E ?final ?old fs1 = (None, fs1)" by (simp add: set_aside_def)
      moreover have "rename_step E KRestore ?old ?final fs1 = Some (rename_tree ?old ?final fs1)"
        using ok(3) no by (auto simp: rename_step_def can_rename_def)
      ultimately have e: "e = RenameStage" "fs4 = rename_tree ?old ?final fs1"
        using pl no ok(2) by (auto simp: place_def split: option.splits)
      have "only_dirs dest (rename_tree ?old ?final fs) fs' p"
      proof (cases "has_prefix p ?stage")
        case True
        then obtain q where q: "p = ?stage @ q" by (auto simp: prefix_cases)
        have "fs p = None" using assms(2) q by (simp add: fresh_stage_def)
        moreover have "\<not> has_prefix p ?final" "\<not> has_prefix p ?old" using n q by (simp_all add: stage_dir_def prefix_cases)
        ultimately show ?thesis using True by (simp add: f remove_tree_def only_dirs_def rename_tree_def)
      next
        case False
        show ?thesis
        proof (cases "has_prefix p ?final")
          case True
          then obtain q where "p = ?final @ q" by (auto simp: prefix_cases)
          then show ?thesis using False at(2) [of q] n by (simp add: f e remove_tree_def rename_tree_def only_dirs_def prefix_cases)
        next
          case nf: False
          show ?thesis
          proof (cases "has_prefix p ?old")
            case True
            then show ?thesis using False nf by (simp add: f e remove_tree_def rename_tree_def only_dirs_def)
          next
            case no: False
            then show ?thesis using False nf 2(2) [OF False] mkdir_only_dirs(1) [of dest fs p]
              by (simp add: f e remove_tree_def rename_tree_def only_dirs_def)
          qed
        qed
      qed
      with True e show ?thesis by simp
    next
      case False
      have "only_dirs dest fs fs' p" if p: "\<not> has_prefix p ?old"
      proof -
        have keep: "fs4 p = fs1 p"
        proof (cases "fs1 ?final")
          case None
          then have "fs1 ?old = None" using False at [of "[]"] by (simp add: first_with_old_def)
          then show ?thesis using pl None by (auto simp: place_def set_aside_def split: option.splits)
        next
          case (Some nd)
          let ?fs = "try_remove E KClearOld ?old fs1"
          have out: "?fs p = fs1 p" using p by (simp add: try_remove_def remove_tree_def)
          have fin: "?fs (?final @ q) = fs1 (?final @ q)" for q
            using n(3) by (simp add: try_remove_def remove_tree_def prefix_cases)
          show ?thesis
          proof (cases "rename_step E KArchive ?final ?old ?fs")
            case None
            then show ?thesis using pl Some ok(1) out by (auto simp: place_def set_aside_def)
          next
            case (Some fs2)
            then have f2: "fs2 = rename_tree ?final ?old ?fs" by (simp add: rename_step_def split: if_splits)
            have o2: "fs2 ?old = Some nd" "fs2 ?final = None"
              using fin [of "[]"] \<open>fs1 ?final = Some nd\<close> n(3) by (simp_all add: f2 rename_tree_def prefix_cases)
            then have "rename_step E KRestore ?old ?final fs2 = Some (rename_tree ?old ?final fs2)"
              using ok(3) by (simp add: rename_step_def can_rename_def)
            then have f4: "fs4 = rename_tree ?old ?final fs2"
              using pl Some \<open>fs1 ?final = Some nd\<close> ok(1,2) o2(1) by (auto simp: place_def set_aside_def split: option.splits)
            show ?thesis
            proof (cases "has_prefix p ?final")
              case True
              then obtain q where q: "p = ?final @ q" by (auto simp: prefix_cases)
              then show ?thesis using fin [of q] by (simp add: f4 f2 rename_tree_def prefix_cases)
            next
              case False
              then show ?thesis using p out by (simp add: f4 f2 rename_tree_def)
            qed
          qed
        qed
        show ?thesis
        proof (cases "has_prefix p ?stage")
          case True
          then show ?thesis using assms(2) by (auto simp: f remove_tree_def fresh_stage_def prefix_cases only_dirs_def)
        next
          case False
          then show ?thesis using keep 2(2) [OF False] by (intro only_dirs_mkdir) (simp add: f remove_tree_def)
        qed
      qed
      with False show ?thesis by auto
    qed
  qed simp
qed

text \<open>What the registry makes of an installed plugin.\<close>

lemma Install_scanned:
  assumes "Install E c l (gx_root R) fs = (None, fs')" "fresh_stage (stage_dir E (gx_root R) l) fs" "lt_Manifest l \<noteq> []"
    and "opened (lt_ID l)"
  shows "scan_dir R opened st t fs' (lt_ID l) = Some (loadOneLocked R st t (lt_ID l) (lt_Manifest l))"
proof -
  note i = Install_ok [OF assms(1,2)]
  then have v: "valid_id (lt_ID l)" using valid_listing_id(1) by blast
  from i obtain body where "\<And>q. fs' (gx_root R @ lt_ID l # q) = staged l body q" by blast
  from this [of "[]"] this [of "[''manifest.json'']"] show ?thesis
    using assms(3,4) by (simp add: scan_dir_valid [OF v] manifest_path_def staged_def)
qed

text \<open>The registry decodes strictly: what it can read it reads as the marketplace does, but it refuses
  fields that it does not know. A manifest that was not offered is not written, and nothing is listed.\<close>

definition decodes_strictly :: "registry_env \<Rightarrow> market_env \<Rightarrow> byte list \<Rightarrow> bool" where
  "decodes_strictly R E data \<longleftrightarrow> gx_manifest R data = None \<or> gx_manifest R data = mx_manifest E data"

lemma Install_unlisted:
  assumes "Install E c l (gx_root R) fs = (None, fs')" "fresh_stage (stage_dir E (gx_root R) l) fs" "lt_Manifest l = [] \<or> \<not> opened (lt_ID l)"
  shows "scan_dir R opened st t fs' (lt_ID l) = None"
proof -
  note i = Install_ok [OF assms(1,2)]
  then have v: "valid_id (lt_ID l)" using valid_listing_id(1) by blast
  from i obtain body where "\<And>q. fs' (gx_root R @ lt_ID l # q) = staged l body q" by blast
  from this [of "[]"] this [of "[''manifest.json'']"] show ?thesis
    using assms(3) by (auto simp: scan_dir_valid [OF v] manifest_path_def staged_def)
qed

lemma Install_starts_disabled:
  assumes "Install E c l (gx_root R) fs = (None, fs')" "fresh_stage (stage_dir E (gx_root R) l) fs" "lt_Manifest l \<noteq> []"
    and "opened (lt_ID l)" "decodes_strictly R E (lt_Manifest l)" "st (lt_ID l) = None"
  shows "\<exists>e. scan_dir R opened st t fs' (lt_ID l) = Some e \<and>
    (pe_Status e = StatusDisabled \<and> mf_ID (pe_Manifest e) = lt_ID l \<and> mf_Version (pe_Manifest e) = lt_Version l \<or>
     pe_Status e = StatusBroken \<and> (pe_Error e = Some ManifestDecode \<or> (\<exists>x. pe_Error e = Some (NotTrusted x))))"
proof (cases "gx_manifest R (lt_Manifest l)")
  case None
  then show ?thesis using Install_scanned [where opened = opened, OF assms(1-4)] by (simp add: loadOneLocked_def broken_def)
next
  case (Some m)
  have "Listing_Validate (mx_manifest E) (Some l) = None" using Install_ok [OF assms(1,2)] by blast
  then have m: "gx_manifest R (lt_Manifest l) = Some m" "Manifest_Validate (Some m) = None"
    "mf_ID m = lt_ID l" "mf_Version m = lt_Version l"
    using assms(3,5) Some by (auto simp: Listing_Validate_def decodes_strictly_def split: if_splits option.splits)
  obtain mo r where v: "verifierLocked R t m = (mo, r)" by (cases "verifierLocked R t m")
  show ?thesis
  proof (cases r)
    case None
    then obtain m' where m': "mo = Some m'" using v verifierLocked_some by blast
    then have "m' = m\<lparr>mf_Trust := mf_Trust m'\<rparr>" using verifierLocked_endorsed v None by blast
    then have "mf_ID m' = mf_ID m" "mf_Version m' = mf_Version m"
      by (metis Manifest.simps Manifest.surjective Manifest.update_convs)+
    then show ?thesis using Install_scanned [where opened = opened, OF assms(1-4)] m v None m' assms(6) by (simp add: loadOneLocked_def)
  next
    case (Some e)
    then show ?thesis using Install_scanned [where opened = opened, OF assms(1-4)] m v by (simp add: loadOneLocked_def broken_def)
  qed
qed

end
