(* ===== verification/VaultFile.thy ===== *)
theory VaultFile
  imports SessionOpen
begin

text \<open>
  \<open>plugins/credential-file/format.go\<close> and the file access of \<open>provider.go\<close>: the encrypted vault
  file, and its replacement through a temporary file. Argon2id, AES-GCM and \<open>encoding/json\<close> are
  the record \<open>vault_crypto\<close>. Key buffers that are given up are collected as they are left, to
  state that they were wiped.
\<close>

subsection \<open>Documents\<close>

record vault_entry =
  ve_ID :: string
  ve_Username :: string
  ve_Password :: string
  ve_Domain :: string
  ve_PrivateKey :: "byte list"
  ve_Passphrase :: string
  ve_OTP :: string
  ve_Hints :: hints
  ve_Notes :: string
  ve_UpdatedAt :: time

record vault_doc =
  vd_Version :: int
  vd_Entries :: "vault_entry list"

record vault_crypto =
  vc_derive :: "string \<Rightarrow> byte list \<Rightarrow> byte list"   \<comment> \<open>passphrase, salt\<close>
  vc_seal :: "byte list \<Rightarrow> byte list \<Rightarrow> byte list \<Rightarrow> byte list \<Rightarrow> byte list"   \<comment> \<open>key, nonce, text, header\<close>
  vc_open :: "byte list \<Rightarrow> byte list \<Rightarrow> byte list \<Rightarrow> byte list \<Rightarrow> byte list option"
  vc_marshal :: "vault_doc \<Rightarrow> byte list option"
  vc_unmarshal :: "byte list \<Rightarrow> vault_doc option"

subsection \<open>The file format\<close>

definition saltLen :: nat where "saltLen = 16"
definition nonceLen :: nat where "nonceLen = 12"
definition version1 :: byte where "version1 = 1"
definition magic :: "byte list" where
  "magic = [71, 79, 82, 69, 77, 79, 84, 69, 45, 67, 82, 69, 68, 1]"
definition headerLen :: nat where "headerLen = length magic + 1 + saltLen + nonceLen"
definition tagLen :: nat where "tagLen = 16"

text \<open>The system calls of \<open>atomicWrite\<close>.\<close>

datatype vault_call = VMkdir | VOpenTmp | VWriteTmp | VSyncTmp | VCloseTmp | VRename | VRemoveTmp
  | VOpenDir | VSyncDir | VCloseDir

datatype vault_error = BadMagic | UnsupportedVersion byte | ShortFile | InvalidPassphrase | AuthFailed
  | BadDocument | MarshalVault | RandomFailed | CipherFailed | PlaintextTooLarge | ReadVault | VaultLocked | EntryNotFound
  | WriteVault vault_call

definition zero_bytes :: "byte list \<Rightarrow> byte list" where
  "zero_bytes b = map (\<lambda>_. 0) b"

definition vault_header :: "byte list \<Rightarrow> byte list \<Rightarrow> byte list" where
  "vault_header salt nonce = magic @ [version1] @ salt @ nonce"

definition sealedCapacity :: "nat \<Rightarrow> nat \<Rightarrow> vault_error + nat" where
  "sealedCapacity n overhead =
     (if int n > 2 ^ 63 - 1 - int headerLen - int overhead then Inl PlaintextTooLarge
      else Inr (headerLen + n + overhead))"

text \<open>\<open>aes.NewCipher\<close> accepts three key sizes; Argon2id is asked for \<open>ArgonKeyLen\<close> bytes.\<close>

definition ArgonKeyLen :: nat where "ArgonKeyLen = 32"

definition aes_key :: "byte list \<Rightarrow> bool" where
  "aes_key key \<longleftrightarrow> length key = 16 \<or> length key = 24 \<or> length key = 32"

definition sealWith :: "vault_crypto \<Rightarrow> byte list \<Rightarrow> byte list \<Rightarrow> byte list \<Rightarrow> byte list \<Rightarrow> vault_error + byte list" where
  "sealWith C key salt nonce plaintext =
     (if \<not> aes_key key then Inl CipherFailed
      else case sealedCapacity (length plaintext) tagLen of
        Inl e \<Rightarrow> Inl e
      | Inr _ \<Rightarrow> (let out = vault_header salt nonce in Inr (out @ vc_seal C key nonce plaintext out)))"

text \<open>\<open>rnd\<close>: the nonce, or the failure of the random source.\<close>

definition encodeFileWithKey :: "vault_crypto \<Rightarrow> byte list option \<Rightarrow> vault_doc \<Rightarrow> byte list \<Rightarrow> byte list \<Rightarrow>
    vault_error + byte list" where
  "encodeFileWithKey C rnd v key salt = (case vc_marshal C v of
     None \<Rightarrow> Inl MarshalVault
   | Some plaintext \<Rightarrow> (case rnd of
       None \<Rightarrow> Inl RandomFailed
     | Some nonce \<Rightarrow> sealWith C key salt nonce plaintext))"

text \<open>The second half of \<open>decodeFile\<close>: the result, and the key buffers that were given up.\<close>

definition open_sealed :: "vault_crypto \<Rightarrow> string \<Rightarrow> byte list \<Rightarrow> byte list \<Rightarrow> byte list \<Rightarrow> byte list \<Rightarrow>
    (vault_error + vault_doc \<times> byte list \<times> byte list) \<times> byte list list" where
  "open_sealed C pass salt nonce ciphertext aad =
     (let key = vc_derive C pass salt in
      if \<not> aes_key key then (Inl CipherFailed, [zero_bytes key])
      else case vc_open C key nonce ciphertext aad of
        None \<Rightarrow> (Inl AuthFailed, [zero_bytes key])
      | Some plaintext \<Rightarrow> (case vc_unmarshal C plaintext of
          None \<Rightarrow> (Inl BadDocument, [zero_bytes key])
        | Some v \<Rightarrow> (Inr (v, key, salt), [])))"

definition decodeFile :: "vault_crypto \<Rightarrow> byte list \<Rightarrow> string \<Rightarrow>
    (vault_error + vault_doc \<times> byte list \<times> byte list) \<times> byte list list" where
  "decodeFile C data pass =
     (if length data < headerLen + 16 then (Inl ShortFile, [])
      else if take (length magic) data \<noteq> magic then (Inl BadMagic, [])
      else if data ! length magic \<noteq> version1 then (Inl (UnsupportedVersion (data ! length magic)), [])
      else open_sealed C pass (take saltLen (drop (length magic + 1) data))
             (take nonceLen (drop (length magic + 1 + saltLen) data)) (drop headerLen data) (take headerLen data))"

text \<open>
  AES-GCM as a function: opening succeeds exactly on what sealing produces, which is as long as
  the text and the tag; derived keys have the length asked for.
\<close>

definition aead_ok :: "vault_crypto \<Rightarrow> bool" where
  "aead_ok C \<longleftrightarrow> (\<forall>k n c a p. vc_open C k n c a = Some p \<longleftrightarrow> c = vc_seal C k n p a) \<and>
     (\<forall>k n p a. length (vc_seal C k n p a) = length p + tagLen) \<and>
     (\<forall>pass salt. length (vc_derive C pass salt) = ArgonKeyLen)"

lemma aead_open: "aead_ok C \<Longrightarrow> vc_open C k n c a = Some p \<longleftrightarrow> c = vc_seal C k n p a"
  by (simp add: aead_ok_def)

lemma aead_key [simp]: "aead_ok C \<Longrightarrow> aes_key (vc_derive C pass salt)"
  by (simp add: aead_ok_def aes_key_def ArgonKeyLen_def)

lemma aead_length: "aead_ok C \<Longrightarrow> length (vc_seal C k n p a) = length p + tagLen"
  by (simp add: aead_ok_def)

lemmas vault_lengths = saltLen_def nonceLen_def headerLen_def tagLen_def

lemma length_magic [simp]: "length magic = 14"
  by (simp add: magic_def)

lemma length_header: "length salt = saltLen \<Longrightarrow> length nonce = nonceLen \<Longrightarrow> length (vault_header salt nonce) = headerLen"
  by (simp add: vault_header_def vault_lengths)

definition sealed_file :: "vault_crypto \<Rightarrow> string \<Rightarrow> byte list \<Rightarrow> byte list \<Rightarrow> byte list \<Rightarrow> byte list" where
  "sealed_file C pass salt nonce plaintext =
     vault_header salt nonce @ vc_seal C (vc_derive C pass salt) nonce plaintext (vault_header salt nonce)"

lemma decodeFile_sealed:
  assumes C: "aead_ok C" and l: "length salt = saltLen" "length nonce = nonceLen"
  shows "decodeFile C (sealed_file C pass salt nonce plaintext) pass =
    (case vc_unmarshal C plaintext of
       None \<Rightarrow> (Inl BadDocument, [zero_bytes (vc_derive C pass salt)])
     | Some v \<Rightarrow> (Inr (v, vc_derive C pass salt, salt), []))"
proof -
  let ?h = "vault_header salt nonce" and ?s = "vc_seal C (vc_derive C pass salt) nonce plaintext (vault_header salt nonce)"
  let ?d = "sealed_file C pass salt nonce plaintext"
  have len: "length ?h = headerLen" by (rule length_header [OF l])
  have d: "?d = magic @ version1 # salt @ nonce @ ?s" by (simp add: sealed_file_def vault_header_def)
  have parts: "take (length magic) ?d = magic" "?d ! length magic = version1"
    "take saltLen (drop (length magic + 1) ?d) = salt"
    "take nonceLen (drop (length magic + 1 + saltLen) ?d) = nonce"
    unfolding d using l by (simp_all add: nth_append)
  have rest: "drop headerLen ?d = ?s" "take headerLen ?d = ?h"
    unfolding sealed_file_def using len by simp_all
  have "length ?d = headerLen + length plaintext + 16"
    using len aead_length [OF C] by (simp add: sealed_file_def tagLen_def)
  then have "\<not> length ?d < headerLen + 16" by simp
  moreover have "vc_open C (vc_derive C pass salt) nonce ?s ?h = Some plaintext" using aead_open [OF C] by simp
  ultimately show ?thesis unfolding decodeFile_def parts rest by (simp add: open_sealed_def Let_def aead_key [OF C])
qed

lemma open_sealed_Inr:
  "aead_ok C \<Longrightarrow> fst (open_sealed C pass s n c a) = Inr (v, key, salt) \<longleftrightarrow>
    (\<exists>p. vc_open C (vc_derive C pass s) n c a = Some p \<and> vc_unmarshal C p = Some v \<and>
       key = vc_derive C pass s \<and> salt = s)"
  by (auto simp: open_sealed_def Let_def split: option.splits)

text \<open>Exactly the sealed files are accepted: nothing else about the bytes is left open.\<close>

lemma decodeFile_accepts_iff:
  assumes C: "aead_ok C"
  shows "fst (decodeFile C data pass) = Inr (v, key, salt) \<longleftrightarrow>
    key = vc_derive C pass salt \<and> length salt = saltLen \<and>
    (\<exists>nonce plaintext. length nonce = nonceLen \<and> data = sealed_file C pass salt nonce plaintext \<and>
       vc_unmarshal C plaintext = Some v)" (is "?L \<longleftrightarrow> ?R")
proof
  assume ?L
  let ?off = "length magic + 1"
  let ?salt = "take saltLen (drop ?off data)" and ?nonce = "take nonceLen (drop (?off + saltLen) data)"
  have g1: "\<not> length data < headerLen + 16"
    using \<open>?L\<close> unfolding decodeFile_def by (rule contrapos_pn) simp
  have g2: "take (length magic) data = magic"
    using \<open>?L\<close> unfolding decodeFile_def if_not_P [OF g1] by (rule contrapos_pp) simp
  have g3: "data ! length magic = version1"
    using \<open>?L\<close> unfolding decodeFile_def if_not_P [OF g1] g2 by (rule contrapos_pp) simp
  have l: "fst (open_sealed C pass ?salt ?nonce (drop headerLen data) (take headerLen data)) = Inr (v, key, salt)"
    using \<open>?L\<close> unfolding decodeFile_def if_not_P [OF g1] g2 g3 by (simp only: simp_thms if_False)
  obtain p where p: "vc_open C (vc_derive C pass ?salt) ?nonce (drop headerLen data) (take headerLen data) = Some p"
    "vc_unmarshal C p = Some v" "key = vc_derive C pass ?salt" "salt = ?salt"
    using l unfolding open_sealed_Inr [OF C] by blast
  note g = g1 g2 g3
  have len: "length ?salt = saltLen" "length ?nonce = nonceLen" using g(1) by (simp_all add: vault_lengths)
  have h: "take headerLen data = vault_header ?salt ?nonce"
  proof -
    have "take ?off data = magic @ [version1]"
      using take_Suc_conv_app_nth [of "length magic" data] g by (simp add: vault_lengths)
    then have "take (?off + (saltLen + nonceLen)) data = (magic @ [version1]) @ take (saltLen + nonceLen) (drop ?off data)"
      by (simp only: take_add)
    also have "take (saltLen + nonceLen) (drop ?off data) = ?salt @ ?nonce"
      unfolding take_add drop_drop by (simp only: add.commute)
    finally show ?thesis unfolding vault_header_def headerLen_def add.assoc append_assoc .
  qed
  have "drop headerLen data = vc_seal C (vc_derive C pass ?salt) ?nonce p (take headerLen data)"
    using p(1) aead_open [OF C] by simp
  then have "data = sealed_file C pass ?salt ?nonce p"
    unfolding sealed_file_def h [symmetric] by (simp only: append_take_drop_id flip: \<open>drop headerLen data = _\<close>)
  then show ?R unfolding p(3,4) using p(2) len by blast
next
  assume ?R
  then show ?L using decodeFile_sealed [OF C] by (elim conjE exE) simp
qed

lemma sealWith_sealed:
  assumes "sealWith C (vc_derive C pass salt) salt nonce plaintext = Inr f"
  shows "f = sealed_file C pass salt nonce plaintext"
  using assms by (auto simp: sealWith_def sealed_file_def Let_def split: sum.splits if_splits)

lemma decodeFile_wipes: "set (snd (decodeFile C data pass)) \<subseteq> range zero_bytes"
  by (auto simp: decodeFile_def open_sealed_def Let_def split: option.splits)

end
