(* ===== verification/VaultProvider.thy ===== *)
theory VaultProvider
  imports VaultFile
begin

text \<open>
  \<open>plugins/credential-file/provider.go\<close>: the provider over the vault file. Every method holds the
  provider's lock from start to end, so a method is one step. \<open>ok\<close> says which system calls succeed.
\<close>

subsection \<open>Replacing the file\<close>

record vault_fs =
  vf_file :: "byte list option"
  vf_tmp :: "byte list option"

text \<open>\<open>part\<close> is what a failed write left in the temporary file.\<close>

definition vault_write :: "(vault_call \<Rightarrow> bool) \<Rightarrow> byte list \<Rightarrow> byte list \<Rightarrow> vault_fs \<Rightarrow> vault_call option \<times> vault_fs" where
  "vault_write ok part data fs =
     (let cleanup = (\<lambda>c b. (Some c, fs\<lparr>vf_tmp := (if ok VRemoveTmp then None else Some b)\<rparr>));
          renamed = fs\<lparr>vf_file := Some data, vf_tmp := None\<rparr>
      in if \<not> ok VMkdir then (Some VMkdir, fs)
         else if \<not> ok VOpenTmp then (Some VOpenTmp, fs)
         else if \<not> ok VWriteTmp then cleanup VWriteTmp part
         else if \<not> ok VSyncTmp then cleanup VSyncTmp data
         else if \<not> ok VCloseTmp then cleanup VCloseTmp data
         else if \<not> ok VRename then cleanup VRename data
         else if \<not> ok VOpenDir then (Some VOpenDir, renamed)
         else if \<not> ok VSyncDir then (Some VSyncDir, renamed)
         else if \<not> ok VCloseDir then (Some VCloseDir, renamed)
         else (None, renamed))"

subsection \<open>State\<close>

record vault_provider =
  vp_vault :: "vault_doc option"
  vp_key :: "byte list option"
  vp_salt :: "byte list"
  vp_locked :: bool
  vp_unlocked :: bool
  vp_freed :: "byte list list"   \<comment> \<open>key buffers given up so far, as they were left\<close>

definition New_vault :: vault_provider where
  "New_vault = \<lparr>vp_vault = None, vp_key = None, vp_salt = [], vp_locked = True, vp_unlocked = False, vp_freed = []\<rparr>"

datatype vault_state = StateNotConfigured | StateLocked | StateUnlocked | StateFailed

text \<open>\<open>stat_ok\<close>: \<open>os.Stat\<close> fails at most because the file does not exist.\<close>

definition vault_State :: "bool \<Rightarrow> vault_provider \<Rightarrow> vault_fs \<Rightarrow> vault_state" where
  "vault_State stat_ok p fs =
     (if \<not> stat_ok then StateFailed
      else if vf_file fs = None then (if vp_unlocked p \<and> vp_vault p \<noteq> None then StateUnlocked else StateNotConfigured)
      else if vp_unlocked p then StateUnlocked else StateLocked)"

definition zeroKeyLocked :: "vault_provider \<Rightarrow> vault_provider" where
  "zeroKeyLocked p = (case vp_key p of None \<Rightarrow> p
     | Some k \<Rightarrow> p\<lparr>vp_key := None, vp_freed := zero_bytes k # vp_freed p\<rparr>)"

definition newSaltAndKey :: "vault_crypto \<Rightarrow> byte list option \<Rightarrow> string \<Rightarrow> (byte list \<times> byte list) option" where
  "newSaltAndKey C rnd pass = map_option (\<lambda>salt. (salt, vc_derive C pass salt)) rnd"

definition vault_Unlock :: "vault_crypto \<Rightarrow> bool \<Rightarrow> byte list option \<Rightarrow> string \<Rightarrow> vault_fs \<Rightarrow> vault_provider \<Rightarrow>
    vault_error option \<times> vault_provider" where
  "vault_Unlock C read_ok rnd pass fs p =
     (let opened = (\<lambda>v key salt q. (zeroKeyLocked q)\<lparr>vp_vault := Some v, vp_key := Some key, vp_salt := salt,
        vp_locked := False, vp_unlocked := True\<rparr>)
      in if \<not> read_ok then (Some ReadVault, p)
         else case vf_file fs of
           None \<Rightarrow> (case newSaltAndKey C rnd pass of
               None \<Rightarrow> (Some RandomFailed, p)
             | Some (salt, key) \<Rightarrow> (None, opened \<lparr>vd_Version = 1, vd_Entries = []\<rparr> key salt p))
         | Some data \<Rightarrow> (case decodeFile C data pass of
               (Inl e, freed) \<Rightarrow> (Some (case e of BadMagic \<Rightarrow> e | UnsupportedVersion v \<Rightarrow> e | ShortFile \<Rightarrow> e | _ \<Rightarrow> InvalidPassphrase),
                 p\<lparr>vp_freed := freed @ vp_freed p\<rparr>)
             | (Inr (v, key, salt), freed) \<Rightarrow> (None, opened v key salt p)))"

definition vault_Lock :: "vault_provider \<Rightarrow> vault_provider" where
  "vault_Lock p = (zeroKeyLocked p)\<lparr>vp_vault := None, vp_salt := [], vp_locked := True, vp_unlocked := False\<rparr>"

definition sealed_off :: "vault_provider \<Rightarrow> bool" where
  "sealed_off p \<longleftrightarrow> vp_locked p \<or> vp_vault p = None"

subsection \<open>Lookups\<close>

definition matchHints :: "hints \<Rightarrow> hints \<Rightarrow> bool" where
  "matchHints got want = (case want of None \<Rightarrow> True | Some w \<Rightarrow>
     fBall (fmdom w) (\<lambda>k. (case got of None \<Rightarrow> None | Some g \<Rightarrow> fmlookup g k) = fmlookup w k))"

definition findEntryLocked :: "Reference \<Rightarrow> vault_doc \<Rightarrow> vault_entry option" where
  "findEntryLocked ref v =
     (if EntryID ref \<noteq> '''' then find (\<lambda>e. ve_ID e = EntryID ref) (vd_Entries v)
      else if map_len (Hints ref) = 0 then None
      else find (\<lambda>e. matchHints (ve_Hints e) (Hints ref)) (vd_Entries v))"

definition vault_ManifestID :: string where
  "vault_ManifestID = ''io.goremote.credential.file''"

definition entry_ref :: "vault_entry \<Rightarrow> Reference" where
  "entry_ref e = \<lparr>ProviderID = vault_ManifestID, EntryID = ve_ID e, Hints = ve_Hints e\<rparr>"

definition entry_material :: "vault_entry \<Rightarrow> Material" where
  "entry_material e = \<lparr>mt_Reference = entry_ref e, mt_Username = ve_Username e, mt_Password = ve_Password e,
     mt_Domain = ve_Domain e, mt_PrivateKey = ve_PrivateKey e, mt_Passphrase = ve_Passphrase e, mt_OTP = ve_OTP e,
     mt_Extra = None, mt_Fields = None, mt_ExpiresAt = 0\<rparr>"

definition vault_Resolve :: "Reference \<Rightarrow> vault_provider \<Rightarrow> vault_error + Material" where
  "vault_Resolve ref p = (case vp_vault p of None \<Rightarrow> Inl VaultLocked
   | Some v \<Rightarrow> if vp_locked p then Inl VaultLocked
       else (case findEntryLocked ref v of None \<Rightarrow> Inl EntryNotFound | Some e \<Rightarrow> Inr (entry_material e)))"

definition vault_List :: "vault_provider \<Rightarrow> vault_error + Reference list" where
  "vault_List p = (case vp_vault p of None \<Rightarrow> Inl VaultLocked
   | Some v \<Rightarrow> if vp_locked p then Inl VaultLocked else Inr (map entry_ref (vd_Entries v)))"

subsection \<open>Changes\<close>

definition saveLocked :: "vault_crypto \<Rightarrow> byte list option \<Rightarrow> (vault_call \<Rightarrow> bool) \<Rightarrow> byte list \<Rightarrow> vault_doc \<Rightarrow>
    vault_provider \<Rightarrow> vault_fs \<Rightarrow> vault_error option \<times> vault_fs" where
  "saveLocked C nonce ok part v p fs =
     (case encodeFileWithKey C nonce v (case vp_key p of None \<Rightarrow> [] | Some key \<Rightarrow> key) (vp_salt p) of
        Inl e \<Rightarrow> (Some e, fs)
      | Inr payload \<Rightarrow> (case vault_write ok part payload fs of
          (None, fs') \<Rightarrow> (None, fs') | (Some c, fs') \<Rightarrow> (Some (WriteVault c), fs')))"

fun put_entry :: "vault_entry \<Rightarrow> vault_entry list \<Rightarrow> vault_entry list" where
  "put_entry e [] = [e]"
| "put_entry e (x # xs) = (if ve_ID x = ve_ID e then e # xs else x # put_entry e xs)"

fun delete_entry :: "string \<Rightarrow> vault_entry list \<Rightarrow> vault_entry list option" where
  "delete_entry i [] = None"
| "delete_entry i (x # xs) = (if ve_ID x = i then Some xs else map_option ((#) x) (delete_entry i xs))"

definition material_entry :: "string \<Rightarrow> time \<Rightarrow> Material \<Rightarrow> vault_entry" where
  "material_entry new now m = \<lparr>
     ve_ID = (if EntryID (mt_Reference m) = '''' then new else EntryID (mt_Reference m)),
     ve_Username = mt_Username m, ve_Password = mt_Password m, ve_Domain = mt_Domain m,
     ve_PrivateKey = mt_PrivateKey m, ve_Passphrase = mt_Passphrase m, ve_OTP = mt_OTP m,
     ve_Hints = Hints (mt_Reference m), ve_Notes = '''', ve_UpdatedAt = now\<rparr>"

definition vault_Put :: "vault_crypto \<Rightarrow> byte list option \<Rightarrow> (vault_call \<Rightarrow> bool) \<Rightarrow> byte list \<Rightarrow> string \<Rightarrow> time \<Rightarrow> Material \<Rightarrow>
    vault_provider \<Rightarrow> vault_fs \<Rightarrow> (vault_error + Reference) \<times> vault_provider \<times> vault_fs" where
  "vault_Put C nonce ok part new now m p fs = (case vp_vault p of None \<Rightarrow> (Inl VaultLocked, p, fs)
   | Some v \<Rightarrow> if vp_locked p then (Inl VaultLocked, p, fs)
       else (let e = material_entry new now m;
                 v' = v\<lparr>vd_Entries := put_entry e (vd_Entries v)\<rparr>; p' = p\<lparr>vp_vault := Some v'\<rparr>
         in case saveLocked C nonce ok part v' p' fs of
              (Some err, fs') \<Rightarrow> (Inl err, p', fs')
            | (None, fs') \<Rightarrow> (Inr (entry_ref e), p', fs')))"

definition vault_Delete :: "vault_crypto \<Rightarrow> byte list option \<Rightarrow> (vault_call \<Rightarrow> bool) \<Rightarrow> byte list \<Rightarrow> Reference \<Rightarrow>
    vault_provider \<Rightarrow> vault_fs \<Rightarrow> vault_error option \<times> vault_provider \<times> vault_fs" where
  "vault_Delete C nonce ok part ref p fs = (case vp_vault p of None \<Rightarrow> (Some VaultLocked, p, fs)
   | Some v \<Rightarrow> if vp_locked p then (Some VaultLocked, p, fs)
       else (case delete_entry (EntryID ref) (vd_Entries v) of
           None \<Rightarrow> (Some EntryNotFound, p, fs)
         | Some es \<Rightarrow> (let v' = v\<lparr>vd_Entries := es\<rparr>; p' = p\<lparr>vp_vault := Some v'\<rparr>
             in case saveLocked C nonce ok part v' p' fs of (err, fs') \<Rightarrow> (err, p', fs'))))"


subsection \<open>The provider as a state machine\<close>

text \<open>The methods that change the provider or the file; drawn salts and nonces have their length.\<close>

inductive vault_step :: "vault_crypto \<Rightarrow> vault_provider \<times> vault_fs \<Rightarrow> vault_provider \<times> vault_fs \<Rightarrow> bool" for C where
  step_unlock: "vault_Unlock C read_ok rnd pass fs p = (e, p') \<Longrightarrow> (case rnd of None \<Rightarrow> True | Some s \<Rightarrow> length s = saltLen) \<Longrightarrow>
    vault_step C (p, fs) (p', fs)"
| step_lock: "vault_step C (p, fs) (vault_Lock p, fs)"
| step_put: "vault_Put C nonce ok part new now m p fs = (r, p', fs') \<Longrightarrow>
    (case nonce of None \<Rightarrow> True | Some s \<Rightarrow> length s = nonceLen) \<Longrightarrow> vault_step C (p, fs) (p', fs')"
| step_delete: "vault_Delete C nonce ok part ref p fs = (d, p', fs') \<Longrightarrow>
    (case nonce of None \<Rightarrow> True | Some s \<Rightarrow> length s = nonceLen) \<Longrightarrow> vault_step C (p, fs) (p', fs')"

abbreviation vault_reach :: "vault_crypto \<Rightarrow> vault_provider \<times> vault_fs \<Rightarrow> bool" where
  "vault_reach C \<equiv> reach (\<lambda>s. fst s = New_vault) (vault_step C)"

text \<open>
  Either locked, without key and document, or unlocked with a key derived from a passphrase;
  every key buffer that was given up is wiped.
\<close>

definition vault_inv :: "vault_crypto \<Rightarrow> vault_provider \<Rightarrow> bool" where
  "vault_inv C p \<longleftrightarrow> vp_unlocked p = (\<not> vp_locked p) \<and>
     (if vp_locked p then vp_vault p = None \<and> vp_key p = None
      else vp_vault p \<noteq> None \<and> length (vp_salt p) = saltLen \<and> (\<exists>pass. vp_key p = Some (vc_derive C pass (vp_salt p)))) \<and>
     set (vp_freed p) \<subseteq> range zero_bytes"

lemma zeroKeyLocked_simps [simp]:
  "vp_vault (zeroKeyLocked p) = vp_vault p" "vp_key (zeroKeyLocked p) = None" "vp_salt (zeroKeyLocked p) = vp_salt p"
  "vp_locked (zeroKeyLocked p) = vp_locked p" "vp_unlocked (zeroKeyLocked p) = vp_unlocked p"
  by (simp_all add: zeroKeyLocked_def split: option.split)

lemma zeroKeyLocked_freed: "set (vp_freed p) \<subseteq> range zero_bytes \<Longrightarrow> set (vp_freed (zeroKeyLocked p)) \<subseteq> range zero_bytes"
  by (auto simp: zeroKeyLocked_def split: option.split)

lemma nothing_freed: "\<exists>freed. p = p\<lparr>vp_freed := freed @ vp_freed p\<rparr> \<and> set freed \<subseteq> range zero_bytes" for p :: vault_provider
  by (rule exI [of _ "[]"]) simp

lemma vault_Unlock_result:
  assumes "vault_Unlock C read_ok rnd pass fs p = (e, p')"
  shows "case e of
      None \<Rightarrow> \<exists>v salt. p' = (zeroKeyLocked p)\<lparr>vp_vault := Some v, vp_key := Some (vc_derive C pass salt), vp_salt := salt,
          vp_locked := False, vp_unlocked := True\<rparr> \<and>
        (case vf_file fs of None \<Rightarrow> rnd = Some salt \<and> v = \<lparr>vd_Version = 1, vd_Entries = []\<rparr>
         | Some data \<Rightarrow> fst (decodeFile C data pass) = Inr (v, vc_derive C pass salt, salt))
    | Some x \<Rightarrow> \<exists>freed. p' = p\<lparr>vp_freed := freed @ vp_freed p\<rparr> \<and> set freed \<subseteq> range zero_bytes"
proof (cases "vf_file fs")
  case None
  show ?thesis using assms None nothing_freed [of p]
    by (cases rnd) (auto simp: vault_Unlock_def newSaltAndKey_def Let_def split: if_splits)
next
  case (Some data)
  obtain r freed where d: "decodeFile C data pass = (r, freed)" by fastforce
  show ?thesis
  proof (cases "read_ok")
    case True
    show ?thesis
    proof (cases r)
      case (Inl x)
      have "set freed \<subseteq> range zero_bytes" using decodeFile_wipes [of C data pass] d by simp
      moreover obtain y where "e = Some y" "p' = p\<lparr>vp_freed := freed @ vp_freed p\<rparr>"
        using assms Some True d Inl by (auto simp: vault_Unlock_def Let_def)
      ultimately show ?thesis by auto
    next
      case (Inr t)
      obtain v key salt where t: "t = (v, key, salt)" by (cases t)
      have "key = vc_derive C pass salt"
        using d Inr t by (auto simp: decodeFile_def open_sealed_def Let_def split: if_splits option.splits)
      then show ?thesis using assms Some True d Inr t by (auto simp: vault_Unlock_def Let_def)
    qed
  next
    case False
    then have "e = Some ReadVault" "p' = p" using assms by (auto simp: vault_Unlock_def Let_def)
    then show ?thesis using nothing_freed [of p] by simp
  qed
qed

lemma decodeFile_salt: "fst (decodeFile C data pass) = Inr (v, key, salt) \<Longrightarrow> length salt = saltLen"
proof -
  assume d: "fst (decodeFile C data pass) = Inr (v, key, salt)"
  have long: "\<not> length data < headerLen + 16" using d unfolding decodeFile_def by (rule contrapos_pn) simp
  have "salt = take saltLen (drop (length magic + 1) data)"
    using d unfolding decodeFile_def if_not_P [OF long]
    by (auto simp: open_sealed_def Let_def split: if_splits option.splits)
  then show ?thesis using long by (simp add: vault_lengths)
qed

text \<open>Saving and removing replace the document, and only that.\<close>

definition replaced :: "vault_provider \<Rightarrow> vault_provider \<Rightarrow> bool" where
  "replaced p p' \<longleftrightarrow> p' = p \<or> \<not> sealed_off p \<and> (\<exists>w. p' = p\<lparr>vp_vault := Some w\<rparr>)"

lemma vault_Put_frame: "vault_Put C nonce ok part new now m p fs = (r, p', fs') \<Longrightarrow> replaced p p'"
  by (auto simp: vault_Put_def Let_def replaced_def sealed_off_def split: option.splits if_splits prod.splits)

lemma vault_Delete_frame: "vault_Delete C nonce ok part ref p fs = (r, p', fs') \<Longrightarrow> replaced p p'"
  by (auto simp: vault_Delete_def Let_def replaced_def sealed_off_def split: option.splits if_splits prod.splits)

lemma vault_inv_replaced: "vault_inv C p \<Longrightarrow> replaced p p' \<Longrightarrow> vault_inv C p'"
  by (auto simp: vault_inv_def replaced_def sealed_off_def)

lemma vault_inv_freed: "vault_inv C p \<Longrightarrow> set (vp_freed (zeroKeyLocked p)) \<subseteq> range zero_bytes"
  by (simp add: vault_inv_def zeroKeyLocked_freed)

lemma vault_inv_unlock:
  assumes i: "vault_inv C p" and u: "vault_Unlock C read_ok rnd pass fs p = (e, p')"
    and r: "case rnd of None \<Rightarrow> True | Some s \<Rightarrow> length s = saltLen"
  shows "vault_inv C p'"
proof (cases e)
  case None
  with vault_Unlock_result [OF u] obtain v salt where p': "p' = (zeroKeyLocked p)\<lparr>vp_vault := Some v,
      vp_key := Some (vc_derive C pass salt), vp_salt := salt, vp_locked := False, vp_unlocked := True\<rparr>"
    and f: "case vf_file fs of None \<Rightarrow> rnd = Some salt \<and> v = \<lparr>vd_Version = 1, vd_Entries = []\<rparr>
         | Some data \<Rightarrow> fst (decodeFile C data pass) = Inr (v, vc_derive C pass salt, salt)" by auto
  have "length salt = saltLen"
    using f r decodeFile_salt by (cases "vf_file fs") auto
  then show ?thesis using vault_inv_freed [OF i] by (auto simp: vault_inv_def p')
next
  case (Some x)
  with vault_Unlock_result [OF u] obtain freed where "p' = p\<lparr>vp_freed := freed @ vp_freed p\<rparr>" "set freed \<subseteq> range zero_bytes"
    by auto
  then show ?thesis using i by (simp add: vault_inv_def)
qed

interpretation vault_sys: invariant_system "\<lambda>s. fst s = New_vault" "vault_step C" "\<lambda>s. vault_inv C (fst s)" for C
proof
  show "vault_inv C (fst s)" if "fst s = New_vault" for s :: "vault_provider \<times> vault_fs"
    using that by (simp add: vault_inv_def New_vault_def)
  show "vault_inv C (fst t)" if "vault_inv C (fst s)" "vault_step C s t" for s t
    using that(2,1)
  proof cases
    case step_unlock
    then show ?thesis using that(1) vault_inv_unlock by auto
  next
    case (step_lock p fs)
    then show ?thesis using that(1) vault_inv_freed [of C p] by (simp add: vault_inv_def vault_Lock_def)
  next
    case step_put
    then show ?thesis using that(1) vault_inv_replaced vault_Put_frame by (metis fst_conv)
  next
    case step_delete
    then show ?thesis using that(1) vault_inv_replaced vault_Delete_frame by (metis fst_conv)
  qed
qed

text \<open>A locked provider holds no secret and gives none away.\<close>

lemma locked_gives_nothing:
  assumes "vault_reach C (p, fs)" "vp_locked p"
  shows "vp_key p = None \<and> vp_vault p = None \<and> vault_Resolve ref p = Inl VaultLocked \<and> vault_List p = Inl VaultLocked \<and>
    vault_Put C nonce ok part new now m p fs = (Inl VaultLocked, p, fs) \<and>
    vault_Delete C nonce ok part ref p fs = (Some VaultLocked, p, fs)"
proof -
  have "vault_inv C p" using vault_sys.reach_inv [OF assms(1)] by simp
  then show ?thesis using assms(2)
    by (simp add: vault_inv_def vault_Resolve_def vault_List_def vault_Put_def vault_Delete_def)
qed


subsection \<open>What a save leaves\<close>

definition after_rename :: "vault_call \<Rightarrow> bool" where
  "after_rename c \<longleftrightarrow> c = VOpenDir \<or> c = VSyncDir \<or> c = VCloseDir"

lemma vault_write_result:
  assumes "vault_write ok part data fs = (c, fs')"
  shows "vf_file fs' = (if (case c of None \<Rightarrow> True | Some x \<Rightarrow> after_rename x) then Some data else vf_file fs)"
    "ok VRemoveTmp \<Longrightarrow> vf_tmp fs = None \<Longrightarrow> vf_tmp fs' = None"
  using assms by (auto simp: vault_write_def Let_def after_rename_def split: if_splits)

lemma saveLocked_ok:
  assumes s: "saveLocked C nonce ok part v p fs = (None, fs')" and k: "vp_key p = Some (vc_derive C pass (vp_salt p))"
  shows "\<exists>n b. nonce = Some n \<and> vc_marshal C v = Some b \<and> vf_file fs' = Some (sealed_file C pass (vp_salt p) n b)"
proof -
  obtain f where f: "encodeFileWithKey C nonce v (vc_derive C pass (vp_salt p)) (vp_salt p) = Inr f"
    and w: "vault_write ok part f fs = (None, fs')"
    using s k by (auto simp: saveLocked_def split: sum.splits prod.splits option.splits)
  from f obtain n b where "nonce = Some n" "vc_marshal C v = Some b"
    "sealWith C (vc_derive C pass (vp_salt p)) (vp_salt p) n b = Inr f"
    by (auto simp: encodeFileWithKey_def split: option.splits)
  then show ?thesis using sealWith_sealed vault_write_result(1) [OF w] by auto
qed

lemma vault_Unlock_sealed:
  assumes "aead_ok C" "length salt = saltLen" "length n = nonceLen" "vc_unmarshal C b = Some w"
    "vf_file fs = Some (sealed_file C pass salt n b)"
  shows "vault_Unlock C True rnd pass fs q = (None, (zeroKeyLocked q)\<lparr>vp_vault := Some w, vp_key := Some (vc_derive C pass salt),
     vp_salt := salt, vp_locked := False, vp_unlocked := True\<rparr>)"
  using decodeFile_sealed [OF assms(1-3)] assms(4,5) by (simp add: vault_Unlock_def Let_def)

text \<open>\<open>omitempty\<close> drops empty maps of hints; otherwise the document is read as it was written.\<close>

definition norm_entry :: "vault_entry \<Rightarrow> vault_entry" where
  "norm_entry e = e\<lparr>ve_Hints := (if map_len (ve_Hints e) = 0 then None else ve_Hints e)\<rparr>"

definition stored_exactly :: "vault_crypto \<Rightarrow> vault_doc \<Rightarrow> bool" where
  "stored_exactly C w \<longleftrightarrow> (case vc_marshal C w of None \<Rightarrow> True
     | Some b \<Rightarrow> vc_unmarshal C b = Some (w\<lparr>vd_Entries := map norm_entry (vd_Entries w)\<rparr>))"

lemma norm_entry_id [simp]: "ve_ID (norm_entry e) = ve_ID e"
  by (simp add: norm_entry_def)

lemma find_put_entry: "find (\<lambda>x. ve_ID x = i) (put_entry e es) =
    (if i = ve_ID e then Some e else find (\<lambda>x. ve_ID x = i) es)"
  by (induction es) auto

lemma find_map_norm: "find (\<lambda>x. ve_ID x = i) (map norm_entry es) = map_option norm_entry (find (\<lambda>x. ve_ID x = i) es)"
  by (induction es) auto

definition id_ref :: "string \<Rightarrow> Reference" where
  "id_ref i = \<lparr>ProviderID = vault_ManifestID, EntryID = i, Hints = None\<rparr>"

text \<open>The entry that a provider has under an ID.\<close>

definition stored_entry :: "string \<Rightarrow> vault_provider \<Rightarrow> vault_entry option" where
  "stored_entry i p = (case vp_vault p of None \<Rightarrow> None | Some v \<Rightarrow> find (\<lambda>e. ve_ID e = i) (vd_Entries v))"

lemma Resolve_stored:
  "i \<noteq> '''' \<Longrightarrow> EntryID ref = i \<Longrightarrow> \<not> sealed_off p \<Longrightarrow> vault_Resolve ref p =
    (case stored_entry i p of None \<Rightarrow> Inl EntryNotFound | Some e \<Rightarrow> Inr (entry_material e))"
  by (auto simp: vault_Resolve_def stored_entry_def sealed_off_def findEntryLocked_def)

lemma material_entry_id: "new \<noteq> '''' \<Longrightarrow> ve_ID (material_entry new now m) \<noteq> ''''"
  by (simp add: material_entry_def)

lemma vault_Put_cases:
  assumes "vault_Put C nonce ok part new now m p fs = (r, p', fs')" "\<not> sealed_off p"
  obtains v w where "vp_vault p = Some v" "w = v\<lparr>vd_Entries := put_entry (material_entry new now m) (vd_Entries v)\<rparr>"
    "p' = p\<lparr>vp_vault := Some w\<rparr>"
    "(case saveLocked C nonce ok part w p' fs of (Some err, f) \<Rightarrow> (Inl err, f)
      | (None, f) \<Rightarrow> (Inr (entry_ref (material_entry new now m)), f)) = (r, fs')"
  using assms by (auto simp: vault_Put_def sealed_off_def Let_def split: option.splits prod.splits if_splits)

lemma put_is_durable:
  assumes C: "aead_ok C" and reach: "vault_reach C (p, fs)" and k: "vp_key p = Some (vc_derive C pass (vp_salt p))"
    and put: "vault_Put C nonce ok part new now m p fs = (Inr ref, p', fs')"
    and n: "case nonce of None \<Rightarrow> True | Some s \<Rightarrow> length s = nonceLen" and new: "new \<noteq> ''''"
    and st: "case vp_vault p' of None \<Rightarrow> True | Some w \<Rightarrow> stored_exactly C w"
  shows "\<exists>q. vault_Unlock C True rnd pass fs' New_vault = (None, q) \<and>
    vault_Resolve ref q = Inr (entry_material (norm_entry (material_entry new now m))) \<and>
    (\<forall>i. i \<noteq> EntryID ref \<longrightarrow> stored_entry i q = map_option norm_entry (stored_entry i p))"
proof -
  have i: "vault_inv C p" using vault_sys.reach_inv [OF reach] by simp
  then have open_p: "\<not> sealed_off p" and salt: "length (vp_salt p) = saltLen"
    using k by (auto simp: vault_inv_def sealed_off_def split: if_splits)
  let ?e = "material_entry new now m"
  obtain v w where v: "vp_vault p = Some v" "w = v\<lparr>vd_Entries := put_entry ?e (vd_Entries v)\<rparr>"
    "p' = p\<lparr>vp_vault := Some w\<rparr>"
    and s: "(case saveLocked C nonce ok part w p' fs of (Some err, f) \<Rightarrow> (Inl err, f)
      | (None, f) \<Rightarrow> (Inr (entry_ref ?e), f)) = (Inr ref, fs')" by (rule vault_Put_cases [OF put open_p])
  have save: "saveLocked C nonce ok part w p' fs = (None, fs')" and ref: "ref = entry_ref ?e"
    using s by (auto split: prod.splits option.splits)
  have "vp_key p' = Some (vc_derive C pass (vp_salt p'))" using k v(3) by simp
  from saveLocked_ok [OF save this] obtain nn b where b: "nonce = Some nn" "vc_marshal C w = Some b"
    "vf_file fs' = Some (sealed_file C pass (vp_salt p) nn b)" using v(3) by auto
  have "vc_unmarshal C b = Some (w\<lparr>vd_Entries := map norm_entry (vd_Entries w)\<rparr>)"
    using st v(3) b(2) by (simp add: stored_exactly_def)
  from vault_Unlock_sealed [OF C salt _ this b(3), of rnd New_vault] n b(1) obtain q where
    q: "vault_Unlock C True rnd pass fs' New_vault = (None, q)" "\<not> sealed_off q"
       "vp_vault q = Some (w\<lparr>vd_Entries := map norm_entry (vd_Entries w)\<rparr>)"
    by (simp add: sealed_off_def)
  have find: "stored_entry i q = map_option norm_entry (if i = ve_ID ?e then Some ?e else stored_entry i p)" for i
    by (simp add: stored_entry_def q(3) find_map_norm v find_put_entry)
  have "EntryID ref = ve_ID ?e" "EntryID ref \<noteq> ''''" using ref material_entry_id [OF new] by (simp_all add: entry_ref_def)
  then have "vault_Resolve ref q = Inr (entry_material (norm_entry ?e))"
    using Resolve_stored [OF _ refl q(2), of ref] find by simp
  then show ?thesis using q(1) find \<open>EntryID ref = ve_ID ?e\<close> by auto
qed

text \<open>A save that fails has changed the document in memory all the same.\<close>

lemma failed_put_visible:
  assumes put: "vault_Put C nonce ok part new now m p fs = (Inl err, p', fs')" and "\<not> sealed_off p" "new \<noteq> ''''"
  shows "vault_Resolve (id_ref (ve_ID (material_entry new now m))) p' = Inr (entry_material (material_entry new now m)) \<and>
    (vf_file fs' = vf_file fs \<or> (\<exists>c. after_rename c \<and> err = WriteVault c))"
proof -
  let ?e = "material_entry new now m"
  obtain v w where v: "vp_vault p = Some v" "w = v\<lparr>vd_Entries := put_entry ?e (vd_Entries v)\<rparr>"
    "p' = p\<lparr>vp_vault := Some w\<rparr>"
    and s: "(case saveLocked C nonce ok part w p' fs of (Some err, f) \<Rightarrow> (Inl err, f)
      | (None, f) \<Rightarrow> (Inr (entry_ref ?e), f)) = (Inl err, fs')" by (rule vault_Put_cases [OF put assms(2)])
  have save: "saveLocked C nonce ok part w p' fs = (Some err, fs')"
    using s by (auto split: prod.splits option.splits)
  have "vf_file fs' = vf_file fs \<or> (\<exists>c. after_rename c \<and> err = WriteVault c)"
    using save vault_write_result(1) [of ok part _ fs]
    by (auto simp: saveLocked_def split: sum.splits prod.splits option.splits if_splits)
  moreover have "stored_entry (ve_ID ?e) p' = Some ?e" "\<not> sealed_off p'"
    using v assms(2) by (simp_all add: stored_entry_def find_put_entry sealed_off_def)
  ultimately show ?thesis
    using Resolve_stored [OF material_entry_id [OF assms(3)], of "id_ref (ve_ID ?e)" now m p'] by (simp add: id_ref_def)
qed

end
