(* ===== verification/AppWorkspace.thy ===== *)
theory AppWorkspace
  imports AppSettings
begin

text \<open>
  \<open>app/workspace\<close>: the open tabs and the list of recent connections of the user interface. The
  store hands out valid documents only; the list of recent connections is bounded and has no
  repetitions.
\<close>

subsection \<open>Documents\<close>

record RecentEntry =
  re_ConnectionID :: string
  re_OpenedAt :: time
  re_OpenCount :: "64 word"

datatype PaneNode = PaneNode (pn_ConnectionID: string) (pn_Orientation: string)
  (pn_A: "PaneNode option") (pn_B: "PaneNode option")

record PaneLayout =
  pl_GroupID :: string
  pl_Root :: "PaneNode option"

record TabState =
  tb_ID :: string
  tb_ConnectionID :: string
  tb_Title :: string
  tb_PaneGroup :: string
  tb_Pinned :: bool
  tb_LastUsedAt :: time

record Workspace =
  wk_Version :: int
  wk_OpenTabs :: "TabState list"
  wk_ActiveTab :: string
  wk_PaneLayouts :: "PaneLayout list"
  wk_Recents :: "RecentEntry list"
  wk_UpdatedAt :: time

definition workspace_version :: int where "workspace_version = 1"
definition MaxRecents :: nat where "MaxRecents = 20"

definition Default_workspace :: Workspace where
  "Default_workspace = \<lparr>wk_Version = workspace_version, wk_OpenTabs = [], wk_ActiveTab = '''', wk_PaneLayouts = [],
     wk_Recents = [], wk_UpdatedAt = 0\<rparr>"

subsection \<open>Recent connections\<close>

fun recents_loop :: "string \<Rightarrow> RecentEntry list \<Rightarrow> RecentEntry list \<Rightarrow> 64 word \<Rightarrow> RecentEntry list \<times> 64 word" where
  "recents_loop i [] out cnt = (out, cnt)"
| "recents_loop i (e # es) out cnt =
     (if re_ConnectionID e = i then recents_loop i es out (re_OpenCount e + 1)
      else recents_loop i es (out @ [e]) cnt)"

text \<open>\<open>now\<close>: the clock, which is asked when no time is given.\<close>

definition TouchRecent :: "time \<Rightarrow> string \<Rightarrow> time \<Rightarrow> Workspace \<Rightarrow> Workspace" where
  "TouchRecent now i at w =
     (if i = '''' then w
      else (case recents_loop i (wk_Recents w) [] 1 of (out, cnt) \<Rightarrow>
        w\<lparr>wk_Recents := take MaxRecents (\<lparr>re_ConnectionID = i, re_OpenedAt = (if at = 0 then now else at),
            re_OpenCount = cnt\<rparr> # out)\<rparr>))"

definition ClearRecents :: "Workspace \<Rightarrow> Workspace" where
  "ClearRecents w = w\<lparr>wk_Recents := []\<rparr>"

lemma recents_loop_filter: "fst (recents_loop i es out cnt) = out @ filter (\<lambda>e. re_ConnectionID e \<noteq> i) es"
  by (induction es arbitrary: out cnt) auto

lemma recents_loop_count: "snd (recents_loop i es out cnt) =
    (if filter (\<lambda>e. re_ConnectionID e = i) es = [] then cnt
     else re_OpenCount (last (filter (\<lambda>e. re_ConnectionID e = i) es)) + 1)"
  by (induction es arbitrary: out cnt) auto

definition recents_ok :: "Workspace \<Rightarrow> bool" where
  "recents_ok w \<longleftrightarrow> length (wk_Recents w) \<le> MaxRecents \<and> distinct (map re_ConnectionID (wk_Recents w)) \<and>
     '''' \<notin> re_ConnectionID ` set (wk_Recents w)"

lemma TouchRecent_spec:
  assumes "recents_ok w" "i \<noteq> ''''"
  shows "recents_ok (TouchRecent now i at w)"
    "map re_ConnectionID (wk_Recents (TouchRecent now i at w)) =
       take MaxRecents (i # filter (\<lambda>k. k \<noteq> i) (map re_ConnectionID (wk_Recents w)))"
    "re_OpenCount (hd (wk_Recents (TouchRecent now i at w))) =
       (case find (\<lambda>e. re_ConnectionID e = i) (wk_Recents w) of None \<Rightarrow> 1 | Some e \<Rightarrow> re_OpenCount e + 1)"
proof -
  obtain out cnt where l: "recents_loop i (wk_Recents w) [] 1 = (out, cnt)" by fastforce
  have out: "out = filter (\<lambda>e. re_ConnectionID e \<noteq> i) (wk_Recents w)"
    using recents_loop_filter [of i "wk_Recents w" "[]" 1] l by simp
  have rec: "wk_Recents (TouchRecent now i at w) = take MaxRecents (\<lparr>re_ConnectionID = i,
      re_OpenedAt = (if at = 0 then now else at), re_OpenCount = cnt\<rparr> # out)"
    using assms(2) l by (simp add: TouchRecent_def)
  have ids: "map re_ConnectionID out = filter (\<lambda>k. k \<noteq> i) (map re_ConnectionID (wk_Recents w))"
    by (simp add: out filter_map o_def)
  show m: "map re_ConnectionID (wk_Recents (TouchRecent now i at w)) =
       take MaxRecents (i # filter (\<lambda>k. k \<noteq> i) (map re_ConnectionID (wk_Recents w)))"
    by (simp add: rec take_map [symmetric] ids)
  have "distinct (take MaxRecents (i # filter (\<lambda>k. k \<noteq> i) (map re_ConnectionID (wk_Recents w))))"
    using assms(1) by (intro distinct_take) (simp add: recents_ok_def)
  moreover have "'''' \<notin> set (i # filter (\<lambda>k. k \<noteq> i) (map re_ConnectionID (wk_Recents w)))"
    using assms by (auto simp: recents_ok_def)
  then have "'''' \<notin> set (take MaxRecents (i # filter (\<lambda>k. k \<noteq> i) (map re_ConnectionID (wk_Recents w))))"
    using in_set_takeD by fastforce
  ultimately show "recents_ok (TouchRecent now i at w)"
    unfolding recents_ok_def m [symmetric] by (simp add: rec)
  have same: "filter (\<lambda>e. re_ConnectionID e = i) es =
      (case find (\<lambda>e. re_ConnectionID e = i) es of None \<Rightarrow> [] | Some e \<Rightarrow> [e])"
    if "distinct (map re_ConnectionID es)" for es
    using that
  proof (induction es)
    case (Cons e es)
    show ?case
    proof (cases "re_ConnectionID e = i")
      case True
      then have "filter (\<lambda>e. re_ConnectionID e = i) es = []" using Cons.prems
        by (auto simp: filter_empty_conv) (metis image_eqI)
      then show ?thesis using True by simp
    next
      case False
      then show ?thesis using Cons by simp
    qed
  qed simp
  have "cnt = (case find (\<lambda>e. re_ConnectionID e = i) (wk_Recents w) of None \<Rightarrow> 1 | Some e \<Rightarrow> re_OpenCount e + 1)"
    using recents_loop_count [of i "wk_Recents w" "[]" 1] same [of "wk_Recents w"] l assms(1)
    by (auto simp: recents_ok_def split: option.splits)
  then show "re_OpenCount (hd (wk_Recents (TouchRecent now i at w))) =
       (case find (\<lambda>e. re_ConnectionID e = i) (wk_Recents w) of None \<Rightarrow> 1 | Some e \<Rightarrow> re_OpenCount e + 1)"
    by (simp add: rec MaxRecents_def)
qed

subsection \<open>Validation\<close>

datatype workspace_issue = BadVersion int | EmptyTabID nat | DuplicateTabID nat string | MissingActive string

fun tab_issues :: "nat \<Rightarrow> TabState list \<Rightarrow> string list \<Rightarrow> workspace_issue list \<times> string list" where
  "tab_issues k [] seen = ([], seen)"
| "tab_issues k (t # ts) seen =
     (if tb_ID t = '''' then (case tab_issues (Suc k) ts seen of (es, s) \<Rightarrow> (EmptyTabID k # es, s))
      else if tb_ID t \<in> set seen then
        (case tab_issues (Suc k) ts seen of (es, s) \<Rightarrow> (DuplicateTabID k (tb_ID t) # es, s))
      else tab_issues (Suc k) ts (tb_ID t # seen))"

definition Validate_workspace :: "Workspace \<Rightarrow> workspace_issue list" where
  "Validate_workspace w = (case tab_issues 0 (wk_OpenTabs w) [] of (tabs, seen) \<Rightarrow>
     (if wk_Version w < 1 then [BadVersion (wk_Version w)] else []) @ tabs @
     (if wk_ActiveTab w \<noteq> '''' \<and> wk_ActiveTab w \<notin> set seen then [MissingActive (wk_ActiveTab w)] else []))"

definition valid_workspace :: "Workspace \<Rightarrow> bool" where
  "valid_workspace w \<longleftrightarrow> 1 \<le> wk_Version w \<and> distinct (map tb_ID (wk_OpenTabs w)) \<and>
     '''' \<notin> tb_ID ` set (wk_OpenTabs w) \<and>
     (wk_ActiveTab w = '''' \<or> wk_ActiveTab w \<in> tb_ID ` set (wk_OpenTabs w))"

lemma tab_issues_spec:
  "fst (tab_issues k ts seen) = [] \<longleftrightarrow>
    distinct (map tb_ID ts) \<and> '''' \<notin> tb_ID ` set ts \<and> tb_ID ` set ts \<inter> set seen = {}"
  "set (snd (tab_issues k ts seen)) = set seen \<union> (tb_ID ` set ts - {''''})"
  by (induction k ts seen rule: tab_issues.induct) (auto split: prod.splits)

lemma Validate_workspace_iff: "Validate_workspace w = [] \<longleftrightarrow> valid_workspace w"
proof -
  obtain tabs seen where t: "tab_issues 0 (wk_OpenTabs w) [] = (tabs, seen)" by fastforce
  have "tabs = [] \<longleftrightarrow> distinct (map tb_ID (wk_OpenTabs w)) \<and> '''' \<notin> tb_ID ` set (wk_OpenTabs w)"
    "set seen = tb_ID ` set (wk_OpenTabs w) - {''''}"
    using tab_issues_spec [of 0 "wk_OpenTabs w" "[]"] t by simp_all
  then show ?thesis by (auto simp: Validate_workspace_def t valid_workspace_def)
qed

subsection \<open>The store\<close>

record workspace_json =
  wj_decode :: "byte list \<Rightarrow> Workspace option"
  wj_encode :: "Workspace \<Rightarrow> byte list option"

definition Load_workspace :: "workspace_json \<Rightarrow> bool \<Rightarrow> bool \<Rightarrow> doc_fs \<Rightarrow> doc_error option \<times> Workspace" where
  "Load_workspace J ctx read_ok fs =
     (if \<not> ctx then (Some DocContext, Default_workspace)
      else if \<not> read_ok then (None, Default_workspace)
      else case df_file fs of
          None \<Rightarrow> (None, Default_workspace)
        | Some data \<Rightarrow> (case wj_decode J data of
            None \<Rightarrow> (None, Default_workspace)
          | Some w0 \<Rightarrow> (let w = (if wk_Version w0 < 1 then w0\<lparr>wk_Version := workspace_version\<rparr> else w0)
              in if Validate_workspace w \<noteq> [] then (None, Default_workspace) else (None, w))))"

definition Save_workspace :: "workspace_json \<Rightarrow> bool \<Rightarrow> (doc_call \<Rightarrow> bool) \<Rightarrow> byte list \<Rightarrow> time \<Rightarrow> Workspace \<Rightarrow> doc_fs \<Rightarrow>
    doc_error option \<times> doc_fs" where
  "Save_workspace J ctx ok part now w0 fs =
     (if \<not> ctx then (Some DocContext, fs)
      else (let w = (if wk_Version w0 = 0 then w0\<lparr>wk_Version := workspace_version\<rparr> else w0) in
        if Validate_workspace w \<noteq> [] then (Some DocInvalid, fs)
        else case wj_encode J (w\<lparr>wk_UpdatedAt := now\<rparr>) of
            None \<Rightarrow> (Some DocMarshal, fs)
          | Some data \<Rightarrow> (case workspace_writeAtomic ok part data fs of
              (Some c, fs') \<Rightarrow> (Some (DocWrite c), fs')
            | (None, fs') \<Rightarrow> (None, fs'))))"

lemma Default_workspace_valid: "valid_workspace Default_workspace"
  by (simp add: valid_workspace_def Default_workspace_def workspace_version_def)

lemma Load_valid: "valid_workspace (snd (Load_workspace J ctx read_ok fs))"
  by (auto simp: Load_workspace_def Default_workspace_valid Validate_workspace_iff Let_def split: option.split)

definition current_version :: "Workspace \<Rightarrow> Workspace" where
  "current_version w = (if wk_Version w = 0 then w\<lparr>wk_Version := workspace_version\<rparr> else w)"

lemma Save_register:
  assumes s: "Save_workspace J ctx ok part now w fs = (e, fs')"
    and j: "case wj_encode J ((current_version w)\<lparr>wk_UpdatedAt := now\<rparr>) of None \<Rightarrow> True
      | Some b \<Rightarrow> wj_decode J b = Some ((current_version w)\<lparr>wk_UpdatedAt := now\<rparr>)"
  shows "case e of
      None \<Rightarrow> valid_workspace (current_version w) \<and>
        Load_workspace J True True fs' = (None, (current_version w)\<lparr>wk_UpdatedAt := now\<rparr>)
    | Some x \<Rightarrow> Load_workspace J True True fs' = Load_workspace J True True fs"
proof (cases e)
  case (Some x)
  then have "df_file fs' = df_file fs" using s workspace_writeAtomic_file
    by (auto simp: Save_workspace_def Let_def split: if_splits option.splits prod.splits)
  then show ?thesis using Some by (simp add: Load_workspace_def)
next
  case None
  let ?w = "(current_version w)\<lparr>wk_UpdatedAt := now\<rparr>"
  from s None obtain data where d: "Validate_workspace (current_version w) = []" "wj_encode J ?w = Some data"
    "workspace_writeAtomic ok part data fs = (None, fs')"
    unfolding Save_workspace_def current_version_def [symmetric] Let_def
    by (auto split: if_splits option.splits prod.splits)
  have v: "valid_workspace ?w" using d(1) by (simp add: Validate_workspace_iff valid_workspace_def)
  then have "Validate_workspace ?w = []" "\<not> wk_Version ?w < 1"
    by (simp_all add: Validate_workspace_iff) (simp add: valid_workspace_def)
  then show ?thesis using None d workspace_writeAtomic_file [OF d(3)] j
    by (simp add: Load_workspace_def Validate_workspace_iff [symmetric])
qed

end
