(* ===== verification/StoreSamples.thy ===== *)
theory StoreSamples
  imports VaultProvider AppWorkspace
begin

text \<open>
  A cipher, two vault documents, settings and a workspace, for the properties of the vault and
  of the two document stores.
\<close>

subsection \<open>A vault\<close>

definition one_entry :: "vault_entry list" where
  "one_entry = [\<lparr>ve_ID = ''e1'', ve_Username = ''u'', ve_Password = ''p'', ve_Domain = '''', ve_PrivateKey = [],
     ve_Passphrase = '''', ve_OTP = '''', ve_Hints = None, ve_Notes = '''', ve_UpdatedAt = 5\<rparr>]"

definition sample_tag :: "byte list" where
  "sample_tag = replicate 16 0"

definition sample_crypto :: vault_crypto where
  "sample_crypto = \<lparr>vc_derive = (\<lambda>pass salt. replicate 32 (of_nat (length pass))),
     vc_seal = (\<lambda>k n p a. p @ sample_tag),
     vc_open = (\<lambda>k n c a. if drop (length c - 16) c = sample_tag then Some (take (length c - 16) c) else None),
     vc_marshal = (\<lambda>v. Some (if vd_Entries v = one_entry then [1] else [0])),
     vc_unmarshal = (\<lambda>b. if b = [0] then Some \<lparr>vd_Version = 1, vd_Entries = []\<rparr>
       else if b = [1] then Some \<lparr>vd_Version = 1, vd_Entries = one_entry\<rparr> else None)\<rparr>"

lemma sample_aead: "aead_ok sample_crypto"
proof -
  have "(if drop (length c - 16) c = sample_tag then Some (take (length c - 16) c) else None) = Some p \<longleftrightarrow>
      c = p @ sample_tag" for c p :: "byte list"
  proof
    assume "(if drop (length c - 16) c = sample_tag then Some (take (length c - 16) c) else None) = Some p"
    then have "drop (length c - 16) c = sample_tag" "take (length c - 16) c = p" by (auto split: if_splits)
    then show "c = p @ sample_tag" using append_take_drop_id [of "length c - 16" c] by metis
  qed (simp add: sample_tag_def)
  then show ?thesis by (simp add: aead_ok_def sample_crypto_def tagLen_def ArgonKeyLen_def sample_tag_def)
qed

definition sample_salt :: "byte list" where
  "sample_salt = replicate 16 7"

definition sample_nonce :: "byte list" where
  "sample_nonce = replicate 12 9"

lemma sample_lengths: "length sample_salt = saltLen" "length sample_nonce = nonceLen"
  by (simp_all add: sample_salt_def sample_nonce_def vault_lengths)

text \<open>A provider without a file that was unlocked with a passphrase.\<close>

definition sample_key :: "byte list" where
  "sample_key = vc_derive sample_crypto ''s3cret'' sample_salt"

definition sample_vault :: vault_provider where
  "sample_vault = \<lparr>vp_vault = Some \<lparr>vd_Version = 1, vd_Entries = []\<rparr>, vp_key = Some sample_key, vp_salt = sample_salt,
     vp_locked = False, vp_unlocked = True, vp_freed = []\<rparr>"

definition no_vault :: vault_fs where
  "no_vault = \<lparr>vf_file = None, vf_tmp = None\<rparr>"

lemma sample_unlock: "vault_Unlock sample_crypto True (Some sample_salt) ''s3cret'' no_vault New_vault = (None, sample_vault)"
  by (simp add: vault_Unlock_def newSaltAndKey_def no_vault_def New_vault_def sample_vault_def sample_key_def zeroKeyLocked_def)

lemma sample_vault_reach: "vault_reach sample_crypto (sample_vault, no_vault)"
proof (rule reach.reach_step [OF reach.reach_init])
  show "fst (New_vault, no_vault) = New_vault" by simp
  show "vault_step sample_crypto (New_vault, no_vault) (sample_vault, no_vault)"
    by (rule step_unlock [OF sample_unlock]) (simp add: sample_lengths)
qed

lemma new_vault_reach: "vault_reach sample_crypto (New_vault, no_vault)"
  by (rule reach.reach_init) simp

definition sample_login :: Material where
  "sample_login = \<lparr>mt_Reference = \<lparr>ProviderID = '''', EntryID = ''e1'', Hints = None\<rparr>, mt_Username = ''u'',
     mt_Password = ''p'', mt_Domain = '''', mt_PrivateKey = [], mt_Passphrase = '''', mt_OTP = '''',
     mt_Extra = None, mt_Fields = None, mt_ExpiresAt = 0\<rparr>"

lemma sample_login_entry: "[material_entry ''n'' 5 sample_login] = one_entry"
  by (simp add: material_entry_def sample_login_def one_entry_def)


lemma sample_new: "ve_ID (material_entry ''n'' 5 sample_login) = ''e1''" "material_entry ''n'' 5 sample_login = hd one_entry"
  by (simp_all add: material_entry_def sample_login_def one_entry_def)

lemma norm_one: "norm_entry (material_entry ''n'' 5 sample_login) = hd one_entry"
  by (simp add: norm_entry_def material_entry_def sample_login_def one_entry_def)

lemma sample_stored: "stored_exactly sample_crypto \<lparr>vd_Version = 1, vd_Entries = one_entry\<rparr>"
  by (simp add: stored_exactly_def sample_crypto_def) (simp add: one_entry_def norm_entry_def)

lemma sample_open: "\<not> sealed_off sample_vault"
  by (simp add: sealed_off_def sample_vault_def)

lemma sample_put:
  "vault_Put sample_crypto (Some sample_nonce) (\<lambda>_. True) [] ''n'' 5 sample_login sample_vault no_vault =
    (Inr (id_ref ''e1''), sample_vault\<lparr>vp_vault := Some \<lparr>vd_Version = 1, vd_Entries = one_entry\<rparr>\<rparr>,
     snd (snd (vault_Put sample_crypto (Some sample_nonce) (\<lambda>_. True) [] ''n'' 5 sample_login sample_vault no_vault)))"
proof -
  have k: "aes_key sample_key" unfolding sample_key_def by (rule aead_key [OF sample_aead])
  have e: "entry_ref (hd one_entry) = id_ref ''e1''" by (simp add: entry_ref_def one_entry_def id_ref_def)
  have c: "sealedCapacity (Suc 0) tagLen = Inr (headerLen + 1 + tagLen)"
    by (simp add: sealedCapacity_def vault_lengths)
  have m: "vc_marshal sample_crypto \<lparr>vd_Version = 1, vd_Entries = one_entry\<rparr> = Some [1]"
    by (simp add: sample_crypto_def)
  have o: "[hd one_entry] = one_entry" by (simp add: one_entry_def)
  show ?thesis
    by (simp add: vault_Put_def sample_vault_def Let_def sample_new saveLocked_def encodeFileWithKey_def m sealWith_def k c
        vault_write_def e o)
qed

lemma sample_failed_put: "\<exists>p'. vault_Put sample_crypto None (\<lambda>_. True) [] ''n'' 5 sample_login sample_vault no_vault =
    (Inl RandomFailed, p', no_vault)"
proof -
  have "vc_marshal sample_crypto \<lparr>vd_Version = 1, vd_Entries = [hd one_entry]\<rparr> = Some [1]"
    by (simp add: sample_crypto_def one_entry_def)
  then show ?thesis
    by (simp add: vault_Put_def sample_vault_def Let_def sample_new saveLocked_def encodeFileWithKey_def)
qed

subsection \<open>Settings\<close>

definition sample_settings_json :: settings_json where
  "sample_settings_json = \<lparr>sj_keys = (\<lambda>_. [''confirmOnClose'', ''reconnectMaxN'', ''reconnectDelayMs'']),
     sj_decode = (\<lambda>b. if b = [] then None else Some (Default_settings\<lparr>sg_UpdatedAt := uint (hd b)\<rparr>)),
     sj_encode = (\<lambda>s. if s = Default_settings\<lparr>sg_UpdatedAt := 9\<rparr> then Some [9] else None)\<rparr>"

definition no_doc :: doc_fs where
  "no_doc = \<lparr>df_file = None, df_temps = []\<rparr>"

lemma sample_settings_ok: "settings_json_ok sample_settings_json (Default_settings\<lparr>sg_UpdatedAt := 9\<rparr>)"
  by (simp add: settings_json_ok_def sample_settings_json_def)

lemma sample_update:
  "Update_settings sample_settings_json True (\<lambda>_. True) [] 9 Default_settings no_doc =
     (Inr (Default_settings\<lparr>sg_UpdatedAt := 9\<rparr>), no_doc\<lparr>df_file := Some [9]\<rparr>)"
  "Update_settings sample_settings_json True (\<lambda>c. c \<noteq> DRename) [] 9 Default_settings no_doc =
     (Inl (DocWrite DRename), no_doc)"
  by (simp_all add: Update_settings_def Default_settings_valid sample_settings_json_def settings_writeAtomic_def)

lemma sample_get: "Get_settings sample_settings_json (\<lambda>x. x) True True no_doc = Inr Default_settings"
  by (simp add: Get_settings_def no_doc_def)


lemma sample_vault_key: "vp_key sample_vault = Some (vc_derive sample_crypto ''s3cret'' (vp_salt sample_vault))"
  by (simp add: sample_vault_def sample_key_def)

lemma one_entry_id [simp]: "ve_ID (hd one_entry) = ''e1''"
  by (simp add: one_entry_def)

end
