(* ===== verification/ServiceSamples.thy ===== *)
theory ServiceSamples
  imports PluginServer PluginHistory AppMarketplace StoreSamples Scenarios
begin

text \<open>A client with a call that has returned, one whose connection is lost, a server that was stopped,
  and an update, for the properties of the plugin connection and of the update.\<close>

subsection \<open>Calls\<close>

definition pong :: Frame where
  "pong = \<lparr>fr_Method = '''', fr_ID = 0, fr_Payload = [7], fr_Error = ''''\<rparr>"

text \<open>Any frame is one byte on the wire.\<close>

definition one_byte :: "Frame \<Rightarrow> byte list option" where
  "one_byte f = Some [1]"

definition one_call :: ipc_client where
  "one_call = call_write one_byte True True 0 (snd (call_begin ''Ping'' (Some []) DialUnix_client))"

definition answered_call :: ipc_client where
  "answered_call = (let c = send_chan 0 pong ((read_frame pong one_call)\<lparr>ic_reader := Reading\<rparr>) in call_receive 0 pong c)"

definition lost_call :: ipc_client where
  "lost_call = (let c = send_chan 0 (lost_frame ''connection lost: EOF'') ((read_lost ''EOF'' [0] one_call)\<lparr>ic_reader := Draining [] ''connection lost: EOF''\<rparr>)
     in c\<lparr>ic_reader := Stopped\<rparr>)"

lemmas client_ops = call_begin_def call_write_def read_frame_def read_lost_def send_chan_def call_receive_def
  set_phase_def DialUnix_client_def Let_def

lemma one_byte_written: "snd (WriteFrame one_byte True True f) = None"
  by (simp add: WriteFrame_ok_iff one_byte_def maxFrameSize_def)

lemma one_call_waits: "cl_phase (ic_call one_call 0) = Waiting" "ic_count one_call = 1" "ic_reader one_call = Reading"
  "ic_inflight one_call = Some [0 \<mapsto> 0]" "ic_chan one_call = (\<lambda>_. None)" "cl_ID (ic_call one_call 0) = 0"
  using one_byte_written [of "request_frame \<lparr>cl_ID = 0, cl_Method = ''Ping'', cl_Data = [], cl_phase = Writing\<rparr>"]
  by (auto simp: one_call_def client_ops split: prod.splits)

lemma one_call_reach: "ipc_reach one_call"
proof -
  have r0: "ipc_reach DialUnix_client" by (rule reach.reach_init) simp
  have r1: "ipc_reach (snd (call_begin ''Ping'' (Some []) DialUnix_client))"
    by (rule reach.reach_step [OF r0 ipc_begin [OF prod.collapse [symmetric]]])
  show ?thesis unfolding one_call_def
    by (rule reach.reach_step [OF r1 ipc_write]) (simp_all add: client_ops)
qed

lemma answered_reach: "ipc_reach answered_call"
proof -
  let ?c1 = "read_frame pong one_call" and ?c2 = "send_chan 0 pong ((read_frame pong one_call)\<lparr>ic_reader := Reading\<rparr>)"
  have d: "ic_reader ?c1 = Delivering pong 0" "ic_chan ?c1 0 = None" "ic_count ?c1 = 1" "cl_phase (ic_call ?c1 0) = Waiting"
    using one_call_waits by (simp_all add: read_frame_def pong_def)
  have r1: "ipc_reach ?c1" by (rule reach.reach_step [OF one_call_reach ipc_frame [OF one_call_waits(3)]])
  have r2: "ipc_reach ?c2" by (rule reach.reach_step [OF r1 ipc_deliver [OF d(1,2)]])
  have "ipc_step ?c2 (call_receive 0 pong ?c2)"
    by (rule ipc_receive) (use d in \<open>simp_all add: send_chan_def\<close>)
  then show ?thesis unfolding answered_call_def Let_def by (rule reach.reach_step [OF r2])
qed

lemma answered: "cl_phase (ic_call answered_call 0) = CallReturned (Inr pong)" "ic_count answered_call = 1"
  using one_call_waits
  by (simp_all add: answered_call_def Let_def call_receive_def send_chan_def read_frame_def set_phase_def response_result_def pong_def)

lemma lost_reach: "ipc_reach lost_call"
proof -
  let ?m = "''connection lost: EOF''"
  let ?c1 = "read_lost ''EOF'' [0] one_call"
  let ?c2 = "send_chan 0 (lost_frame ?m) (?c1\<lparr>ic_reader := Draining [] ?m\<rparr>)"
  have r1: "ipc_reach ?c1"
    by (rule reach.reach_step [OF one_call_reach ipc_lost]) (use one_call_waits in \<open>simp_all\<close>)
  have "ipc_step ?c1 ?c2"
    by (rule ipc_drain) (use one_call_waits in \<open>simp_all add: read_lost_def\<close>)
  then have r2: "ipc_reach ?c2" by (rule reach.reach_step [OF r1])
  have "ipc_step ?c2 (?c2\<lparr>ic_reader := Stopped\<rparr>)" by (rule ipc_stop) (simp add: send_chan_def)
  then show ?thesis unfolding lost_call_def Let_def by (rule reach.reach_step [OF r2])
qed

lemma lost: "cl_phase (ic_call lost_call 0) = Waiting" "ic_count lost_call = 1" "ic_reader lost_call = Stopped"
  using one_call_waits by (simp_all add: lost_call_def Let_def send_chan_def read_lost_def)

subsection \<open>A server\<close>

text \<open>Cancelled while a connection is open.\<close>

definition ended_server :: ipc_server where
  "ended_server = serve_force (serve_accept_over (accept_failed (serve_cancel (accept_register 0 (accept_conn NewServer)))))"

lemma ended_server_reach: "server_reach ended_server"
proof -
  let ?s1 = "accept_conn NewServer"
  let ?s2 = "accept_register 0 ?s1"
  let ?s3 = "serve_cancel ?s2"
  let ?s4 = "accept_failed ?s3"
  let ?s5 = "serve_accept_over ?s4"
  have r0: "server_reach NewServer" by (rule reach.reach_init) simp
  have r1: "server_reach ?s1" by (rule reach.reach_step [OF r0]) (rule srv_accept; simp add: NewServer_def)
  have r2: "server_reach ?s2" by (rule reach.reach_step [OF r1]) (rule srv_register; simp add: NewServer_def server_ops)
  have r3: "server_reach ?s3" by (rule reach.reach_step [OF r2]) (rule srv_cancel; simp add: NewServer_def server_ops)
  have r4: "server_reach ?s4" by (rule reach.reach_step [OF r3]) (rule srv_accept_failed; simp add: NewServer_def server_ops)
  have r5: "server_reach ?s5" by (rule reach.reach_step [OF r4]) (rule srv_accept_over; simp add: NewServer_def server_ops)
  show ?thesis unfolding ended_server_def
    by (rule reach.reach_step [OF r5]) (rule srv_force; simp add: NewServer_def server_ops)
qed

lemma ended_server: "sr_serve ended_server = Cancelled"
  by (simp add: ended_server_def server_ops)


subsection \<open>An update\<close>

text \<open>Version 1.0 is signed and offered; every hash is zero and every signature is accepted.\<close>

definition zero_sha :: string where
  "zero_sha = replicate 64 CHR ''0''"

definition sample_target :: ManifestTarget where
  "sample_target = \<lparr>tg_OS = ''linux'', tg_Arch = ''amd64'', tg_URL = ''https://h/f'', tg_Sha256 = zero_sha, tg_Signature = ''s''\<rparr>"

definition sample_offer :: UpdateManifest where
  "sample_offer = \<lparr>um_Version = ''1.0'', um_Targets = [sample_target], um_Notes = ''''\<rparr>"

definition sample_answer :: "byte list \<Rightarrow> http_answer" where
  "sample_answer b = \<lparr>ha_Status = 200, ha_Body = b, ha_complete = True\<rparr>"

definition sample_update_env :: update_env where
  "sample_update_env = \<lparr>ue_settings = Some (Inr (Default_settings\<lparr>sg_AutoUpdateURL := ''https://h/m'',
       sg_AutoUpdatePublicKey := ''k''\<rparr>)),
     ue_json = (\<lambda>_. Some sample_offer), ue_request = True, ue_answer = Some (sample_answer []),
     ue_os = ''linux'', ue_arch = ''amd64'', ue_b64 = (\<lambda>_. Some (replicate 32 0)), ue_ed = (\<lambda>_ _ _. True),
     ue_sha256 = (\<lambda>_. replicate 32 0), ue_lower = (\<lambda>s. s),
     ue_download = \<lparr>de_mkdir = True, de_request = True, de_answer = Some (sample_answer [1, 2]), de_create = True,
       de_copy = True, de_close = True\<rparr>\<rparr>"

text \<open>Strings that begin and end with a visible ASCII character are trimmed already.\<close>

definition visible :: "char \<Rightarrow> bool" where
  "visible c \<longleftrightarrow> 32 < ord8 c \<and> ord8 c < 128"

lemma space_runes_invisible:
  "list_all (\<lambda>r. r \<noteq> [] \<and> \<not> visible (hd r) \<and> \<not> visible (hd (rev r))) space_runes"
  by code_simp

lemma not_stripped:
  assumes "s \<noteq> []" "visible (hd s)" "\<And>r. r \<in> set rs \<Longrightarrow> r \<noteq> [] \<and> \<not> visible (hd r)"
  shows "trim_left_by rs s = s"
proof -
  have "\<not> has_prefix s r" if "r \<in> set rs" for r
    using assms(1,2) assms(3) [OF that] by (cases s; cases r) auto
  then have "strip_space_rune rs s = None" by (simp add: strip_space_rune_def filter_empty_conv split: list.splits)
  then show ?thesis by (simp add: trim_left_by.simps)
qed

lemma trim_visible:
  assumes "s \<noteq> []" "visible (hd s)" "visible (last s)"
  shows "trim_space s = s"
proof -
  have r: "r \<noteq> [] \<and> \<not> visible (hd r) \<and> \<not> visible (hd (rev r))" if "r \<in> set space_runes" for r
    using space_runes_invisible that by (simp add: list_all_iff)
  have "trim_left_by space_runes s = s" using assms r by (intro not_stripped) auto
  moreover have "trim_left_by (map rev space_runes) (rev s) = rev s"
    using assms r by (intro not_stripped) (auto simp: hd_rev)
  ultimately show ?thesis by (simp add: trim_space_def)
qed

lemma zero_sha_facts: "isValidSHA256 zero_sha" "trim_space zero_sha = zero_sha" "to_lower ul zero_sha = zero_sha"
  "hex_encode (replicate 32 0) = zero_sha"
proof -
  show "isValidSHA256 zero_sha" "hex_encode (replicate 32 0) = zero_sha" by code_simp+
  have "visible CHR ''0''" by code_simp
  then show "trim_space zero_sha = zero_sha" by (intro trim_visible) (simp_all add: zero_sha_def)
  have "is_ascii zero_sha" "map lower_char zero_sha = zero_sha" by code_simp+
  then show "to_lower ul zero_sha = zero_sha" by (simp add: to_lower_def)
qed

lemma sample_https: "https ''https://h/m''" "https ''https://h/f''"
  by (simp_all add: https_def)

lemma sample_verified: "verified_target sample_update_env = Inr (sample_offer, sample_target)"
  by (simp add: verified_target_def sample_update_env_def FetchManifest_def sample_https sample_answer_def sample_offer_def
      sample_target_def zero_sha_facts SelectTarget_def VerifySignature_def decodeKey_def)

lemma sample_download:
  "Download (ue_sha256 sample_update_env) (ue_lower sample_update_env) (ue_download sample_update_env) (Some sample_target) = Inr [1, 2]"
  by (simp add: Download_def sample_update_env_def sample_target_def sample_https sample_answer_def zero_sha_facts)

definition sample_program :: exe_fs where
  "sample_program = \<lparr>xf_dst = Some ([9], 493), xf_new = None, xf_old = None, xf_tmp = None\<rparr>"

lemma trim_versions: "trim_space ''1.0'' = ''1.0''" "trim_space ''2.0'' = ''2.0''" "trim_space ''1.10'' = ''1.10''"
  "trim_space ''v1.9'' = ''v1.9''"
proof -
  have "visible CHR ''0''" "visible CHR ''1''" "visible CHR ''2''" "visible CHR ''9''" "visible CHR ''v''" by code_simp+
  then show "trim_space ''1.0'' = ''1.0''" "trim_space ''2.0'' = ''2.0''" "trim_space ''1.10'' = ''1.10''"
    "trim_space ''v1.9'' = ''v1.9''" by (simp_all add: trim_visible)
qed

definition parts_of :: "string \<Rightarrow> 64 word list" where
  "parts_of s = map (part_number 0) (split_on CHR ''.'' (takeWhile (\<lambda>c. c = CHR ''.'' \<or> is_digit c) s))"

lemma sample_parts: "parts_of ''1.0'' = [1, 0]" "parts_of ''2.0'' = [2, 0]" "parts_of ''1.10'' = [1, 10]"
  "parts_of ''1.9'' = [1, 9]"
  by code_simp+

lemma sample_versions: "splitSemver ''1.0'' = [1, 0]" "splitSemver ''2.0'' = [2, 0]" "splitSemver ''1.10'' = [1, 10]"
  "splitSemver ''v1.9'' = [1, 9]"
  using sample_parts by (simp_all add: splitSemver_def trim_versions trim_prefix_v_def parts_of_def)

lemma compare_samples: "compare_parts [1, 0] [2, 0] [0, 1] = -1" "compare_parts [1, 10] [1, 9] [0, 1] = 1"
  "compare_parts [2, 0] [1, 10] [0, 1] = 1"
  by code_simp+

lemma not_newer: "\<not> IsNewer ''1.0'' ''2.0''" "IsNewer ''1.10'' ''v1.9''" "IsNewer ''2.0'' ''1.10''"
proof -
  have u: "[0..<max (length [a, b]) (length [c, d])] = [0, 1]" for a b c d :: "64 word" by (simp add: upt_rec)
  show "\<not> IsNewer ''1.0'' ''2.0''" "IsNewer ''1.10'' ''v1.9''" "IsNewer ''2.0'' ''1.10''"
    unfolding IsNewer_def compareSemver_def sample_versions Let_def u compare_samples by simp_all
qed

subsection \<open>A directory of plugins\<close>

text \<open>One plugin, unsigned; two documents of states can be written: the empty one, and one that
  enables the plugin.\<close>

definition p_enabled :: plugin_states where
  "p_enabled = [''p'' \<mapsto> StatusEnabled]"

definition sample_registry :: registry_env where
  "sample_registry = \<lparr>gx_root = [''plugins''], gx_manifest = (\<lambda>_. Some (sample_manifest KindProtocol)), gx_body = (\<lambda>_. None),
     gx_b64 = (\<lambda>_. None), gx_ed = (\<lambda>_ _ _. False), gx_state_of = (\<lambda>b. if b = [1] then Some p_enabled else Some Map.empty),
     gx_state = (\<lambda>st. if st = p_enabled then Some [1] else if st = Map.empty then Some [0] else None),
     gx_trust_of = (\<lambda>_. None), gx_trust = (\<lambda>_. None)\<rparr>"

definition sample_plugins :: plugin_fs where
  "sample_plugins = [[''plugins'', ''p''] \<mapsto> RDir, [''plugins'', ''p'', ''manifest.json''] \<mapsto> RFile [5]]"

definition opened_registry :: plugin_registry where
  "opened_registry = \<lparr>rg_state = Map.empty, rg_trust = \<lparr>td_Policy = ''permissive'', td_Keys = []\<rparr>,
     rg_entries = scan_dir sample_registry (\<lambda>_. True) Map.empty \<lparr>td_Policy = ''permissive'', td_Keys = []\<rparr> sample_plugins\<rparr>"

lemma sample_states_json: "states_json sample_registry"
  by (auto simp: states_json_def sample_registry_def p_enabled_def)

lemma valid_p: "valid_id ''p''"
  by (simp add: valid_id_def plain_def backslash_def char_of_def)

lemma sample_good_fs: "good_fs sample_registry sample_plugins"
  using valid_p by (auto simp: good_fs_def sample_registry_def sample_plugins_def)

lemma sample_opened: "reg_reach sample_registry (opened_registry, sample_plugins)"
proof (rule reach_init)
  have "Open_registry sample_registry True True True (\<lambda>_. True) sample_plugins = Inr opened_registry"
    by (simp add: Open_registry_def Refresh_def loadState_def loadTrust_def state_path_def trust_path_def sample_plugins_def
      sample_registry_def [THEN arg_cong, of gx_root] opened_registry_def)
  then show "reg_start sample_registry (opened_registry, sample_plugins)"
    unfolding reg_start_def using sample_good_fs by (auto simp: opened_registry_def)
qed

lemma opened_p: "rg_entries opened_registry ''p'' = Some \<lparr>pe_ID = ''p'',
    pe_Manifest = (sample_manifest KindProtocol)\<lparr>mf_Trust := TrustCommunity\<rparr>, pe_Status = StatusDisabled,
    pe_TrustLevel = TrustCommunity, pe_Error = None\<rparr>"
proof -
  have m: "Manifest_Validate (Some (sample_manifest KindProtocol)) = None" "mf_ID (sample_manifest KindProtocol) = ''p''"
    using sample_gates(1) by (simp_all add: sample_manifest_def)
  have "verifierLocked sample_registry \<lparr>td_Policy = ''permissive'', td_Keys = []\<rparr> (sample_manifest KindProtocol) =
      (Some ((sample_manifest KindProtocol)\<lparr>mf_Trust := TrustCommunity\<rparr>), None)"
    by (simp add: verifierLocked_def Verify_def policy_of_def sample_manifest_def)
  then show ?thesis using m
    by (simp add: opened_registry_def scan_dir_valid [OF valid_p] sample_plugins_def manifest_path_def loadOneLocked_def
      sample_registry_def)
qed

text \<open>The user enables it.\<close>

definition enabled_registry :: plugin_registry where
  "enabled_registry = fst (snd (SetStatus sample_registry (\<lambda>_. True) ''p'' StatusEnabled (opened_registry, sample_plugins)))"

definition enabled_plugins :: plugin_fs where
  "enabled_plugins = sample_plugins([''plugins'', ''state.json''] \<mapsto> RFile [1])"

lemma sample_enable:
  "SetStatus sample_registry (\<lambda>_. True) ''p'' StatusEnabled (opened_registry, sample_plugins) =
    (None, enabled_registry, enabled_plugins)"
  "\<exists>e. rg_entries enabled_registry ''p'' = Some e \<and> pe_Status e = StatusEnabled"
proof -
  have s: "(rg_state opened_registry)(''p'' \<mapsto> StatusEnabled) = p_enabled" by (simp add: opened_registry_def p_enabled_def)
  have w: "saveStateLocked sample_registry (\<lambda>_. True) p_enabled sample_plugins = (None, enabled_plugins)"
    by (simp add: saveStateLocked_def writeJSONAtomic_def sample_registry_def state_path_def enabled_plugins_def)
  have r: "SetStatus sample_registry (\<lambda>_. True) ''p'' StatusEnabled (opened_registry, sample_plugins) =
    (None, opened_registry\<lparr>rg_state := p_enabled, rg_entries := (rg_entries opened_registry)(''p'' \<mapsto>
      \<lparr>pe_ID = ''p'', pe_Manifest = (sample_manifest KindProtocol)\<lparr>mf_Trust := TrustCommunity\<rparr>,
       pe_Status = StatusEnabled, pe_TrustLevel = TrustCommunity, pe_Error = None\<rparr>)\<rparr>, enabled_plugins)"
    using opened_p disabled_not_broken by (simp add: SetStatus_def Let_def s w)
  show "SetStatus sample_registry (\<lambda>_. True) ''p'' StatusEnabled (opened_registry, sample_plugins) =
    (None, enabled_registry, enabled_plugins)" by (simp add: r enabled_registry_def)
  show "\<exists>e. rg_entries enabled_registry ''p'' = Some e \<and> pe_Status e = StatusEnabled"
    by (simp add: r enabled_registry_def)
qed

lemma sample_enabled_reach: "reg_reach sample_registry (enabled_registry, enabled_plugins)"
  by (rule reach_step [OF sample_opened reg_status [OF sample_enable(1)]])

text \<open>Then the policy is made strict, but that cannot be saved; and the plugin's files are lost without a scan.\<close>

definition strict_registry :: plugin_registry where
  "strict_registry = enabled_registry\<lparr>rg_trust := (rg_trust enabled_registry)\<lparr>td_Policy := ''strict''\<rparr>\<rparr>"

definition sample_history :: plugin_history where
  "sample_history = scanned (Some (WriteJSON JCreate)) (strict_registry, enabled_plugins)
     (decided None ''p'' StatusEnabled \<lparr>ph_trust = rg_trust opened_registry, ph_fs = sample_plugins, ph_stale = False, ph_asked = {}\<rparr>)"

lemma sample_history_reached: "history_reach sample_registry ((strict_registry, Map.empty), sample_history)"
proof -
  let ?h = "\<lparr>ph_trust = rg_trust opened_registry, ph_fs = sample_plugins, ph_stale = False, ph_asked = {}\<rparr>"
  let ?h1 = "decided None ''p'' StatusEnabled ?h"
  have "Open_registry sample_registry True True True (\<lambda>_. True) sample_plugins = Inr opened_registry"
    by (simp add: Open_registry_def Refresh_def loadState_def loadTrust_def state_path_def trust_path_def sample_plugins_def
      sample_registry_def [THEN arg_cong, of gx_root] opened_registry_def)
  then have "history_start sample_registry ((opened_registry, sample_plugins), ?h)"
    unfolding history_start_def by (auto simp: opened_registry_def)
  then have "history_reach sample_registry ((opened_registry, sample_plugins), ?h)" by (rule reach_init)
  then have "history_reach sample_registry ((enabled_registry, enabled_plugins), ?h1)"
    using hist_status [OF sample_enable(1)] by (rule reach_step)
  moreover have "SetPolicy sample_registry (\<lambda>_. False) True (\<lambda>_. True) ''strict'' (enabled_registry, enabled_plugins) =
      (Some (WriteJSON JCreate), strict_registry, enabled_plugins)"
    by (simp add: SetPolicy_def change_trust_def Let_def saveTrustLocked_def writeJSONAtomic_def strict_registry_def)
  from hist_policy [OF this, of ?h1] have "history_step sample_registry ((enabled_registry, enabled_plugins), ?h1)
      ((strict_registry, enabled_plugins), sample_history)"
    by (simp add: sample_history_def)
  ultimately have "history_reach sample_registry ((strict_registry, enabled_plugins), sample_history)" by (rule reach_step)
  then show ?thesis using hist_disk by (rule reach_step)
qed

subsection \<open>A plugin from the marketplace\<close>

definition sample_listing :: Listing where
  "sample_listing = \<lparr>lt_ID = ''p'', lt_Name = ''P'', lt_Version = ''1'', lt_Description = '''', lt_Homepage = '''',
     lt_Publisher = '''', lt_License = '''', lt_OS = [], lt_Arch = [], lt_DownloadURL = ''u'',
     lt_SHA256 = hex_encode (replicate 32 0), lt_SignedBy = '''', lt_Manifest = [5]\<rparr>"

definition sample_market :: market_env where
  "sample_market = \<lparr>mx_scheme = (\<lambda>_. Some ''https''), mx_manifest = (\<lambda>_. Some (sample_manifest KindProtocol)),
     mx_document = (\<lambda>_. None), mx_sha = (\<lambda>_. replicate 32 0), mx_ok = (\<lambda>_. True),
     mx_answer = Some \<lparr>ha_Status = 200, ha_Body = [9], ha_complete = True\<rparr>, mx_random = ''1'', mx_left = (\<lambda>_ _. None)\<rparr>"

lemma sample_listing_valid: "Listing_Validate (mx_manifest sample_market) (Some sample_listing) = None"
proof -
  have "isValidSHA256 (hex_encode (replicate 32 0))" by code_simp
  moreover have "mf_ID (sample_manifest KindProtocol) = ''p''" "mf_Version (sample_manifest KindProtocol) = ''1''"
    by (simp_all add: sample_manifest_def)
  moreover have "backslash \<notin> set ''p''" using valid_p by (simp add: valid_id_def)
  ultimately show ?thesis using sample_gates(1) [of KindProtocol]
    by (simp add: Listing_Validate_def sample_listing_def sample_market_def)
qed

lemma sample_limits: "downloadMaxBytes NewClient = 67108864" "0 <s (67108865 :: 64 word)"
  by code_simp+

lemma sample_fields:
  "mx_scheme sample_market u = Some ''https''" "mx_ok sample_market k" "lt_ID sample_listing = ''p''"
  "lt_Manifest sample_listing = [5]" "mx_manifest sample_market b = Some (sample_manifest KindProtocol)"
  "mx_answer sample_market = Some \<lparr>ha_Status = 200, ha_Body = [9], ha_complete = True\<rparr>"
  "mx_sha sample_market b = replicate 32 0" "lt_SHA256 sample_listing = hex_encode (replicate 32 0)"
  by (simp_all only: sample_market_def sample_listing_def market_env.simps Listing.simps)

lemma sample_read: "limited_read 67108865 \<lparr>ha_Status = 200, ha_Body = [9], ha_complete = True\<rparr> = Some [9]"
proof -
  have "unat (67108865 :: 64 word) = Suc 67108864" by simp
  then show ?thesis by (simp only: limited_read_def sample_limits(2) Let_def if_True http_answer.simps simp_thms if_False
    take_Suc_Cons take_Nil)
qed

lemma EqualFold_refl: "EqualFold s s"
  by (simp add: EqualFold_def)

lemma sample_filled: "\<exists>fs1. fill_stage sample_market NewClient sample_listing stage fs = (None, fs1)"
proof -
  have l: "downloadMaxBytes NewClient + 1 = 67108865" "0 < unat (downloadMaxBytes NewClient)"
    by (simp_all add: sample_limits(1))
  show ?thesis unfolding fill_stage_def sample_fields l(1)
    using l(2) by (simp add: sample_read EqualFold_refl Let_def sample_fields(2))
qed

lemma sample_install:
  "\<exists>fs'. Install sample_market NewClient sample_listing [''plugins''] Map.empty = (None, fs')"
proof -
  let ?stage = "stage_dir sample_market [''plugins''] sample_listing"
  define fs0 where "fs0 = mkdir_all [''plugins''] Map.empty"
  have made: "fs0 p = (if has_prefix [''plugins''] p then Some RDir else None)" for p
    by (simp add: fs0_def mkdir_all_def)
  have mk: "mkdir_possible [''plugins''] Map.empty" by (simp add: mkdir_possible_def)
  obtain fs1 where f: "fill_stage sample_market NewClient sample_listing ?stage (fs0(?stage \<mapsto> RDir)) = (None, fs1)"
    using sample_filled by blast
  have fr: "fresh_stage ?stage fs0" by (simp add: fresh_stage_def made stage_dir_def has_prefix_iff)
  obtain body where b: "\<forall>q. fs1 (?stage @ q) = staged sample_listing body q" "\<forall>p. \<not> has_prefix p ?stage \<longrightarrow> fs1 p = fs0 p"
    using fill_stage_ok [OF f fr] by auto
  have fin: "fs1 [''plugins'', ''p''] = None"
    using b(2) by (simp add: stage_dir_def sample_fields made has_prefix_iff)
  have src: "fs1 ?stage = Some RDir" using b(1) [rule_format, of "[]"] by (simp add: staged_def)
  have "set_aside sample_market [''plugins'', ''p''] old fs1 = (None, fs1)" for old
    using fin by (simp add: set_aside_def)
  moreover have "rename_step sample_market KPlace ?stage [''plugins'', ''p''] fs1 = Some (rename_tree ?stage [''plugins'', ''p''] fs1)"
    using fin src by (simp add: rename_step_def can_rename_def sample_fields)
  ultimately have pl: "\<exists>fs2. place sample_market ?stage [''plugins'', ''p''] old fs1 = (None, fs2)" for old
    by (simp add: place_def)
  obtain fs2 where st: "install_staged sample_market sample_listing [''plugins''] (None, fs1) = (None, fs2)"
    using pl [of "[''plugins'', ''p.old'']"] by (auto simp: install_staged_def sample_fields)
  have sc: "checkScheme NewClient ''https'' = None" by code_simp
  have "Install sample_market NewClient sample_listing [''plugins''] Map.empty =
      install_staged sample_market sample_listing [''plugins''] (None, fs1)"
    by (simp only: Install_def install_staged_def fs0_def [symmetric] mk f sample_listing_valid sample_fields(1,2) sc Let_def
      option.case list.simps if_False simp_thms)
  then show ?thesis using st by simp
qed

end
