(* ===== verification/DesktopBindings.thy ===== *)
theory DesktopBindings
  imports AppViews AppWorkspace AppPersist SessionOpen PluginRegistry
begin

text \<open>
  \<open>cmd/desktop/main.go\<close>: the bindings between the user interface and the application. Identifiers
  are texts there; the recent connections and the tabs are in the workspace document, whose store may be
  missing. Then the selection of the log level, the profiles' documents, the recovery from a state
  that cannot be loaded, and the requests of the headless mode. Logging and the synchronisation
  with Git are left out.
\<close>

subsection \<open>Inputs\<close>

definition parseID :: "string \<Rightarrow> id_error + ID" where
  "parseID s = (if s = '''' then Inr NilID else ParseID s)"

record CredentialRefInput =
  cr_ProviderID :: string
  cr_Key :: string

definition credRefFromInput :: "CredentialRefInput \<Rightarrow> Reference" where
  "credRefFromInput r = \<lparr>ProviderID = cr_ProviderID r, EntryID = cr_Key r, Hints = None\<rparr>"

record ConnectionInput =
  ci_Name :: string
  ci_ProtocolID :: string
  ci_Host :: string
  ci_Port :: int
  ci_Username :: string
  ci_AuthMethod :: string
  ci_CredentialRef :: CredentialRefInput
  ci_Description :: string
  ci_Tags :: "string list"
  ci_Settings :: settings
  ci_Icon :: string
  ci_Color :: string
  ci_Environment :: string
  ci_Favorite :: bool

definition toAppOpts :: "ConnectionInput \<Rightarrow> ConnectionOpts" where
  "toAppOpts c = \<lparr>co_Name = ci_Name c, co_ProtocolID = ci_ProtocolID c, co_Host = ci_Host c, co_Port = ci_Port c,
     co_Username = ci_Username c, co_AuthMethod = ci_AuthMethod c,
     co_CredentialRef = credRefFromInput (ci_CredentialRef c), co_Description = ci_Description c,
     co_Tags = ci_Tags c, co_Settings = ci_Settings c, co_Icon = ci_Icon c, co_Color = ci_Color c,
     co_Environment = ci_Environment c, co_Favorite = ci_Favorite c, co_Inheritance = zero_profile\<rparr>"

record ConnectionPatchInput =
  qi_Name :: "string option"
  qi_ProtocolID :: "string option"
  qi_Host :: "string option"
  qi_Port :: "int option"
  qi_Username :: "string option"
  qi_AuthMethod :: "string option"
  qi_CredentialRef :: "CredentialRefInput option"
  qi_Description :: "string option"
  qi_Tags :: "string list option"
  qi_Settings :: "settings option"
  qi_Icon :: "string option"
  qi_Color :: "string option"
  qi_Environment :: "string option"
  qi_Favorite :: "bool option"

definition toAppPatch :: "ConnectionPatchInput \<Rightarrow> ConnectionPatch" where
  "toAppPatch p = \<lparr>cp_Name = qi_Name p, cp_ProtocolID = qi_ProtocolID p, cp_Host = qi_Host p, cp_Port = qi_Port p,
     cp_Username = qi_Username p, cp_AuthMethod = qi_AuthMethod p,
     cp_CredentialRef = map_option credRefFromInput (qi_CredentialRef p), cp_Description = qi_Description p,
     cp_Tags = qi_Tags p, cp_Settings = qi_Settings p, cp_Icon = qi_Icon p, cp_Color = qi_Color p,
     cp_Environment = qi_Environment p, cp_Favorite = qi_Favorite p, cp_Inheritance = None\<rparr>"

record FolderPatchInput =
  fi_Name :: "string option"
  fi_Description :: "string option"
  fi_Tags :: "string list option"

definition folder_toAppPatch :: "FolderPatchInput \<Rightarrow> FolderPatch" where
  "folder_toAppPatch p = \<lparr>fp_Name = fi_Name p, fp_Description = fi_Description p, fp_Tags = fi_Tags p,
     fp_Icon = None, fp_Color = None, fp_Defaults = None\<rparr>"

subsection \<open>Tree commands\<close>

datatype binding_error = BadID id_error | AppFailed app_error

text \<open>Parse the identifier, run the command, hand on its error.\<close>

definition with_id :: "string \<Rightarrow> ('r \<Rightarrow> 't) \<Rightarrow> (ID \<Rightarrow> app \<Rightarrow> ((app_error + 'r) \<times> app) call) \<Rightarrow> app \<Rightarrow>
    ((binding_error + 't) \<times> app) call" where
  "with_id s out f a = (case parseID s of
     Inl e \<Rightarrow> Returns (Inl (BadID e), a)
   | Inr i \<Rightarrow> (case f i a of
       Panics \<Rightarrow> Panics
     | Loops \<Rightarrow> Loops
     | Returns (Inl e, a1) \<Rightarrow> Returns (Inl (AppFailed e), a1)
     | Returns (Inr r, a1) \<Rightarrow> Returns (Inr (out r), a1)))"

definition bd_CreateFolder :: "bool \<Rightarrow> ID \<Rightarrow> (nat \<Rightarrow> time) \<Rightarrow> string \<Rightarrow> string \<Rightarrow> FolderOpts \<Rightarrow> app \<Rightarrow>
    ((binding_error + string) \<times> app) call" where
  "bd_CreateFolder ctx rnd now parent name opts =
     with_id parent id_String (\<lambda>p. CreateFolder ctx rnd now p name opts)"

definition bd_CreateConnection :: "bool \<Rightarrow> ID \<Rightarrow> (nat \<Rightarrow> time) \<Rightarrow> string \<Rightarrow> ConnectionInput \<Rightarrow> app \<Rightarrow>
    ((binding_error + string) \<times> app) call" where
  "bd_CreateConnection ctx rnd now parent opts =
     with_id parent id_String (\<lambda>p. CreateConnection ctx rnd now p (toAppOpts opts))"

definition bd_UpdateConnection :: "bool \<Rightarrow> (nat \<Rightarrow> time) \<Rightarrow> string \<Rightarrow> ConnectionPatchInput \<Rightarrow> app \<Rightarrow>
    ((binding_error + unit) \<times> app) call" where
  "bd_UpdateConnection ctx now i patch = with_id i (\<lambda>u. u) (\<lambda>n. UpdateConnection ctx now n (toAppPatch patch))"

definition bd_UpdateFolder :: "bool \<Rightarrow> (nat \<Rightarrow> time) \<Rightarrow> string \<Rightarrow> FolderPatchInput \<Rightarrow> app \<Rightarrow>
    ((binding_error + unit) \<times> app) call" where
  "bd_UpdateFolder ctx now i patch = with_id i (\<lambda>u. u) (\<lambda>n. UpdateFolder ctx now n (folder_toAppPatch patch))"

definition bd_MoveNode :: "bool \<Rightarrow> (nat \<Rightarrow> time) \<Rightarrow> string \<Rightarrow> string \<Rightarrow> app \<Rightarrow> ((binding_error + unit) \<times> app) call" where
  "bd_MoveNode ctx now i newParent a = (case parseID i of
     Inl e \<Rightarrow> Returns (Inl (BadID e), a)
   | Inr n \<Rightarrow> with_id newParent (\<lambda>u. u) (\<lambda>p. MoveNode ctx now n p) a)"

definition bd_DeleteNode :: "bool \<Rightarrow> (nat \<Rightarrow> time) \<Rightarrow> string \<Rightarrow> app \<Rightarrow> ((binding_error + unit) \<times> app) call" where
  "bd_DeleteNode ctx now i = with_id i (\<lambda>u. u) (DeleteNode ctx now)"

definition bd_DuplicateNode :: "bool \<Rightarrow> (nat \<Rightarrow> ID) \<Rightarrow> (nat \<Rightarrow> time) \<Rightarrow> string \<Rightarrow> app \<Rightarrow>
    ((binding_error + string) \<times> app) call" where
  "bd_DuplicateNode ctx rnd now i = with_id i id_String (DuplicateNode ctx rnd now)"

definition bd_ToggleFavorite :: "bool \<Rightarrow> (nat \<Rightarrow> time) \<Rightarrow> string \<Rightarrow> app \<Rightarrow> ((binding_error + bool) \<times> app) call" where
  "bd_ToggleFavorite ctx now i = with_id i (\<lambda>b. b) (ToggleFavorite ctx now)"

definition query_id :: "string \<Rightarrow> (ID \<Rightarrow> (app_error + 'r) call) \<Rightarrow> (binding_error + 'r) call" where
  "query_id s f = (case parseID s of
     Inl e \<Rightarrow> Returns (Inl (BadID e))
   | Inr i \<Rightarrow> (case f i of
       Panics \<Rightarrow> Panics
     | Loops \<Rightarrow> Loops
     | Returns (Inl e) \<Rightarrow> Returns (Inl (AppFailed e))
     | Returns (Inr r) \<Rightarrow> Returns (Inr r)))"

definition bd_GetConnection :: "bool \<Rightarrow> string \<Rightarrow> app \<Rightarrow> (binding_error + ConnectionView) call" where
  "bd_GetConnection ctx i a = query_id i (\<lambda>n. GetConnection ctx n a)"

definition bd_GetFolder :: "bool \<Rightarrow> string \<Rightarrow> app \<Rightarrow> (binding_error + FolderView) call" where
  "bd_GetFolder ctx i a = query_id i (\<lambda>n. GetFolder ctx n a)"

subsection \<open>Recent connections and the workspace\<close>

text \<open>What the calls of the workspace store meet; \<open>None\<close> for a store is the missing one.\<close>

record store_env =
  we_json :: workspace_json
  we_ctx :: bool
  we_read :: bool
  we_ok :: "doc_call \<Rightarrow> bool"
  we_part :: "byte list"
  we_now :: time
  we_stamp :: time

definition store_load :: "store_env \<Rightarrow> doc_fs \<Rightarrow> doc_error option \<times> Workspace" where
  "store_load E fs = Load_workspace (we_json E) (we_ctx E) (we_read E) fs"

definition store_save :: "store_env \<Rightarrow> Workspace \<Rightarrow> doc_fs \<Rightarrow> doc_error option \<times> doc_fs" where
  "store_save E w fs = Save_workspace (we_json E) (we_ctx E) (we_ok E) (we_part E) (we_stamp E) w fs"

definition bd_TouchRecent :: "store_env \<Rightarrow> string \<Rightarrow> doc_fs option \<Rightarrow> doc_fs option" where
  "bd_TouchRecent E i so = (case so of None \<Rightarrow> None | Some fs \<Rightarrow>
     if i = '''' then Some fs
     else (case store_load E fs of
         (Some e, _) \<Rightarrow> Some fs
       | (None, w) \<Rightarrow> Some (snd (store_save E (TouchRecent (we_now E) i (we_now E) w) fs))))"

definition recent_view :: "ConnectionView \<Rightarrow> NodeView" where
  "recent_view v = \<lparr>nv_ID = cv_ID v, nv_Kind = ''connection'', nv_Name = cv_Name v, nv_ParentID = cv_ParentID v,
     nv_Description = cv_Description v, nv_Tags = cv_Tags v, nv_Icon = cv_Icon v, nv_Color = cv_Color v,
     nv_Environment = cv_Environment v, nv_Favorite = cv_Favorite v, nv_Protocol = cv_Protocol v,
     nv_Host = cv_Host v, nv_Port = cv_Port v, nv_Username = cv_Username v\<rparr>"

fun recent_views :: "bool \<Rightarrow> app \<Rightarrow> RecentEntry list \<Rightarrow> NodeView list call" where
  "recent_views ctx a [] = Returns []"
| "recent_views ctx a (r # rs) = (case parseID (re_ConnectionID r) of
     Inl e \<Rightarrow> recent_views ctx a rs
   | Inr i \<Rightarrow> (case GetConnection ctx i a of
       Panics \<Rightarrow> Panics
     | Loops \<Rightarrow> Loops
     | Returns (Inl e) \<Rightarrow> recent_views ctx a rs
     | Returns (Inr v) \<Rightarrow> (case recent_views ctx a rs of
         Returns vs \<Rightarrow> Returns (recent_view v # vs) | Panics \<Rightarrow> Panics | Loops \<Rightarrow> Loops)))"

definition bd_ListRecents :: "store_env \<Rightarrow> app \<Rightarrow> doc_fs option \<Rightarrow> NodeView list call" where
  "bd_ListRecents E a so = (case so of None \<Rightarrow> Returns [] | Some fs \<Rightarrow> (case store_load E fs of
     (Some e, _) \<Rightarrow> Returns []
   | (None, w) \<Rightarrow> if wk_Recents w = [] then Returns [] else recent_views (we_ctx E) a (wk_Recents w)))"

datatype store_result = StoreMissing | StoreFailed doc_error | StoreDone

definition store_outcome :: "doc_error option \<times> doc_fs \<Rightarrow> store_result \<times> doc_fs option" where
  "store_outcome r = (case r of (None, fs) \<Rightarrow> (StoreDone, Some fs) | (Some e, fs) \<Rightarrow> (StoreFailed e, Some fs))"

definition bd_ClearRecents :: "store_env \<Rightarrow> doc_fs option \<Rightarrow> store_result \<times> doc_fs option" where
  "bd_ClearRecents E so = (case so of None \<Rightarrow> (StoreMissing, None) | Some fs \<Rightarrow> (case store_load E fs of
     (Some e, _) \<Rightarrow> (StoreFailed e, Some fs)
   | (None, w) \<Rightarrow> store_outcome (store_save E (ClearRecents w) fs)))"

definition bd_GetWorkspace :: "store_env \<Rightarrow> doc_fs option \<Rightarrow> doc_error option \<times> Workspace" where
  "bd_GetWorkspace E so = (case so of None \<Rightarrow> (None, Default_workspace) | Some fs \<Rightarrow> (case store_load E fs of
     (Some e, _) \<Rightarrow> (Some e, Default_workspace)
   | (None, w) \<Rightarrow> (None, if Validate_workspace w \<noteq> [] then Default_workspace else w)))"

text \<open>Before the synchronisation with Git, which runs beside it and only reads.\<close>

definition bd_SaveWorkspace :: "store_env \<Rightarrow> Workspace \<Rightarrow> doc_fs option \<Rightarrow> store_result \<times> doc_fs option" where
  "bd_SaveWorkspace E w so = (case so of None \<Rightarrow> (StoreMissing, None) | Some fs \<Rightarrow> store_outcome (store_save E w fs))"

text \<open>Opening a session, with or without a secret: \<open>open\<close> is \<open>OpenSession\<close> of the application at an identifier.\<close>

definition bd_open :: "store_env \<Rightarrow> (ID \<Rightarrow> ('m, 's) open_result call) \<Rightarrow> string \<Rightarrow> doc_fs option \<Rightarrow>
    (((id_error + open_error) + string) \<times> ('m, 's) open_result option \<times> doc_fs option) call" where
  "bd_open E opn i so = (case parseID i of
     Inl e \<Rightarrow> Returns (Inl (Inl e), None, so)
   | Inr n \<Rightarrow> (case opn n of
       Panics \<Rightarrow> Panics
     | Loops \<Rightarrow> Loops
     | Returns r \<Rightarrow> (case res_out r of
         Inl e \<Rightarrow> Returns (Inl (Inr e), Some r, so)
       | Inr s \<Rightarrow> Returns (Inr (id_String (op_handle s)), Some r, bd_TouchRecent E i so))))"

definition bd_OpenSession where
  "bd_OpenSession E ul ctx rnd now creds mopen i a h so =
     bd_open E (\<lambda>n. OpenSession ul ctx rnd now creds mopen n a h) i so"

definition inline_secret :: "string \<Rightarrow> string \<Rightarrow> Material" where
  "inline_secret user pw = \<lparr>mt_Reference = zero_ref, mt_Username = user, mt_Password = pw, mt_Domain = '''', mt_PrivateKey = [], mt_Passphrase = '''',
     mt_OTP = '''', mt_Extra = None, mt_Fields = None, mt_ExpiresAt = 0\<rparr>"

definition bd_OpenSessionWithPassword where
  "bd_OpenSessionWithPassword E ul ctx rnd now creds mopen i user pw a h so =
     bd_open E (\<lambda>n. OpenSessionWithSecret ul ctx rnd now creds mopen n (Some (inline_secret user pw)) a h) i so"

subsection \<open>What the user interface reads back\<close>

lemma parseID_text [simp]: "parseID (id_String i) = Inr i"
  by (simp add: parseID_def id_String_nonempty)

text \<open>The recent connections are shown as in the tree.\<close>

lemma recent_view_node: "recent_view (connection_view c r) = connectionNodeView c"
  by (simp add: recent_view_def connection_view_def connectionNodeView_def kind_text_def)

definition shown :: "Tree \<Rightarrow> string \<Rightarrow> NodeView option" where
  "shown t s = (case parseID s of Inl e \<Rightarrow> None | Inr i \<Rightarrow> map_option connectionNodeView (conn_at t i))"

lemma GetConnection_view:
  assumes "wf_tree (a_tree a)"
  shows "(case conn_at (a_tree a) i of
      None \<Rightarrow> \<exists>e. GetConnection ctx i a = Returns (Inl e)
    | Some c \<Rightarrow> \<exists>r. GetConnection True i a = Returns (Inr (connection_view c r)))"
proof (cases "conn_at (a_tree a) i")
  case None
  then show ?thesis using GetConnection_missing by simp
next
  case (Some c)
  note wc = wf_conn [OF assms Some]
  obtain fs where "ancestors_loop (tree_fuel (a_tree a)) (a_tree a) (c_ParentID c) [] = Some (Inr fs)"
    using ancestors_loop_ok [OF assms wc(4)] by blast
  then have "GetConnection True i a = Returns (Inr (connection_view c
      (rc_node (Resolve (c_Inheritance c) (Some c) (map Some fs)))))"
    using Some wc(2,3) by (simp add: GetConnection_def Connection_def Ancestors_def)
  then show ?thesis using Some by auto
qed

lemma recent_views_nodes:
  assumes "wf_tree (a_tree a)"
  shows "recent_views True a rs = Returns (List.map_filter (shown (a_tree a)) (map re_ConnectionID rs))"
proof (induction rs)
  case (Cons r rs)
  show ?case
  proof (cases "parseID (re_ConnectionID r)")
    case (Inr i)
    then show ?thesis using GetConnection_view [OF assms, where i = i and ctx = True] Cons
      by (auto simp: shown_def map_filter_simps recent_view_node split: option.splits)
  qed (simp add: Cons shown_def map_filter_simps)
qed (simp add: map_filter_simps)

text \<open>A store whose calls succeed, and whose encoding of the document can be read back.\<close>

definition good_store :: "store_env \<Rightarrow> Workspace \<Rightarrow> bool" where
  "good_store E w \<longleftrightarrow> we_ctx E \<and> we_read E \<and> (\<forall>k. we_ok E k) \<and>
     (case wj_encode (we_json E) w of None \<Rightarrow> False | Some b \<Rightarrow> wj_decode (we_json E) b = Some w)"

lemma Touch_valid: "valid_workspace w \<Longrightarrow> valid_workspace (TouchRecent now i at w)"
  by (auto simp: valid_workspace_def TouchRecent_def split: prod.split)

lemma store_save_good:
  assumes "valid_workspace w" "good_store E (w\<lparr>wk_UpdatedAt := we_stamp E\<rparr>)"
  shows "\<exists>fs'. store_save E w fs = (None, fs') \<and> store_load E fs' = (None, w\<lparr>wk_UpdatedAt := we_stamp E\<rparr>)"
proof -
  have cur: "current_version w = w" using assms(1) by (simp add: current_version_def valid_workspace_def)
  obtain b where b: "wj_encode (we_json E) (w\<lparr>wk_UpdatedAt := we_stamp E\<rparr>) = Some b"
    "wj_decode (we_json E) b = Some (w\<lparr>wk_UpdatedAt := we_stamp E\<rparr>)"
    using assms(2) by (auto simp: good_store_def split: option.splits)
  have "workspace_writeAtomic (we_ok E) (we_part E) b fs = (None, fs\<lparr>df_file := Some b\<rparr>)"
    using assms(2) by (simp add: workspace_writeAtomic_def good_store_def)
  then have sv: "store_save E w fs = (None, fs\<lparr>df_file := Some b\<rparr>)"
    using assms b cur Validate_workspace_iff [of w]
    by (simp add: store_save_def Save_workspace_def good_store_def current_version_def [symmetric])
  from Save_register [OF this [unfolded store_save_def]] b cur assms(2) show ?thesis
    using sv by (simp add: store_load_def good_store_def)
qed

lemma recents_after_touch:
  assumes wf: "wf_tree (a_tree a)" and ld: "store_load E fs = (None, w)" and ok: "recents_ok w" and i: "i \<noteq> ''''"
    and st: "good_store E ((TouchRecent (we_now E) i (we_now E) w)\<lparr>wk_UpdatedAt := we_stamp E\<rparr>)"
  shows "bd_ListRecents E a (bd_TouchRecent E i (Some fs)) = Returns (List.map_filter (shown (a_tree a))
    (take MaxRecents (i # filter (\<lambda>k. k \<noteq> i) (map re_ConnectionID (wk_Recents w)))))"
proof -
  let ?w = "TouchRecent (we_now E) i (we_now E) w"
  have "valid_workspace w" using Load_valid [of "we_json E" "we_ctx E" "we_read E" fs] ld by (simp add: store_load_def)
  then have "valid_workspace ?w" by (rule Touch_valid)
  from store_save_good [OF this st, of fs] obtain fs' where sv: "store_save E ?w fs = (None, fs')"
    "store_load E fs' = (None, ?w\<lparr>wk_UpdatedAt := we_stamp E\<rparr>)" by blast
  have "we_ctx E" using st by (simp add: good_store_def)
  then have "bd_ListRecents E a (bd_TouchRecent E i (Some fs)) = recent_views True a (wk_Recents ?w)"
    using i ld sv by (simp add: bd_TouchRecent_def bd_ListRecents_def)
  also have "\<dots> = Returns (List.map_filter (shown (a_tree a)) (map re_ConnectionID (wk_Recents ?w)))"
    by (rule recent_views_nodes [OF wf])
  finally show ?thesis using TouchRecent_spec(2) [OF ok i] by simp
qed

text \<open>An open session's connection exists.\<close>

lemma OpenSession_conn:
  assumes "OpenSession ul ctx rnd now creds mopen n a h = Returns r" "res_out r = Inr s"
  shows "\<exists>c. conn_at (a_tree a) n = Some c"
  using assms by (auto simp: OpenSession_def openSessionInternal_def Connection_def Let_def split: if_splits option.splits)

lemma recents_after_open:
  assumes wf: "wf_tree (a_tree a)" and ld: "store_load E fs = (None, w)" and ok: "recents_ok w"
    and st: "good_store E ((TouchRecent (we_now E) (id_String n) (we_now E) w)\<lparr>wk_UpdatedAt := we_stamp E\<rparr>)"
    and op: "bd_OpenSession E ul ctx rnd now creds mopen (id_String n) a h (Some fs) = Returns (Inr t, r, so)"
  shows "\<exists>c. conn_at (a_tree a) n = Some c \<and> bd_ListRecents E a so = Returns (connectionNodeView c #
    List.map_filter (shown (a_tree a)) (take (MaxRecents - 1)
      (filter (\<lambda>k. k \<noteq> id_String n) (map re_ConnectionID (wk_Recents w)))))"
proof -
  from op obtain r' s where r: "OpenSession ul ctx rnd now creds mopen n a h = Returns r'" "res_out r' = Inr s"
    and so: "so = bd_TouchRecent E (id_String n) (Some fs)"
    by (auto simp: bd_OpenSession_def bd_open_def split: call.splits sum.splits)
  obtain c where c: "conn_at (a_tree a) n = Some c" using OpenSession_conn [OF r] by blast
  have "take MaxRecents (id_String n # xs) = id_String n # take (MaxRecents - 1) xs" for xs
    by (simp add: MaxRecents_def take_Cons')
  moreover have "shown (a_tree a) (id_String n) = Some (connectionNodeView c)" by (simp add: shown_def c)
  ultimately show ?thesis using recents_after_touch [OF wf ld ok id_String_nonempty st] c so
    by (simp add: map_filter_simps)
qed

text \<open>A workspace file that exists but cannot be read is taken for an empty one, and overwritten.\<close>

lemma touch_after_failed_read:
  assumes "we_ctx E" "\<not> we_read E" "\<forall>k. we_ok E k" "i \<noteq> ''''"
    "wj_encode (we_json E) ((TouchRecent (we_now E) i (we_now E) Default_workspace)\<lparr>wk_UpdatedAt := we_stamp E\<rparr>) = Some b"
  shows "\<exists>fs'. bd_TouchRecent E i (Some fs) = Some fs' \<and> df_file fs' = Some b"
proof -
  let ?w = "TouchRecent (we_now E) i (we_now E) Default_workspace"
  have v: "valid_workspace ?w" by (rule Touch_valid [OF Default_workspace_valid])
  then have "current_version ?w = ?w" by (simp add: current_version_def valid_workspace_def)
  then have "store_save E ?w fs = (None, fs\<lparr>df_file := Some b\<rparr>)"
    using assms v by (simp add: store_save_def Save_workspace_def Validate_workspace_iff current_version_def [symmetric]
      workspace_writeAtomic_def)
  moreover have "store_load E fs = (None, Default_workspace)" using assms by (simp add: store_load_def Load_workspace_def)
  ultimately show ?thesis using assms by (simp add: bd_TouchRecent_def)
qed

lemma with_id_outcome:
  assumes "with_id s out f a = Returns (r', a')" and "\<And>i r. f i a = Returns (r, a') \<Longrightarrow> outcome wf_tree a r a'"
  shows "case r' of Inl e \<Rightarrow> a' = a | Inr x \<Rightarrow> committed a a' \<and> wf_tree (a_tree a')"
  using assms by (fastforce simp: with_id_def outcome_def split: sum.splits call.splits)

lemma commit_tree: "commit now k e r0 b = Returns (r, a') \<Longrightarrow> r = Inr r0 \<and> a_tree a' = a_tree b"
  by (auto simp: commit_def markDirty_def publish_app_def Let_def split: call.splits if_splits)

lemma bd_create_get:
  assumes wf: "wf_tree (a_tree a)" and cr: "bd_CreateConnection ctx rnd now parent c a = Returns (Inr text, a')"
  shows "\<exists>v p. bd_GetConnection True text a' = Returns (Inr v) \<and> parseID parent = Inr p \<and> cv_ID v = text \<and>
    cv_ParentID v = parent_text p \<and> cv_Name v = ci_Name c \<and> cv_Description v = ci_Description c \<and> cv_Tags v = ci_Tags c \<and>
    cv_Protocol v = ci_ProtocolID c \<and> cv_Host v = ci_Host c \<and> cv_Port v = ci_Port c \<and> cv_Username v = ci_Username c \<and>
    cv_AuthMethod v = ci_AuthMethod c \<and> cv_Favorite v = ci_Favorite c \<and> cv_Settings v = app_cloneSettings (ci_Settings c) \<and>
    cv_Icon v = ci_Icon c \<and> cv_Color v = ci_Color c \<and> cv_Environment v = ci_Environment c \<and> cv_CredentialRef v =
      \<lparr>rv_ProviderID = cr_ProviderID (ci_CredentialRef c), rv_EntryID = cr_Key (ci_CredentialRef c), rv_Hints = None\<rparr>"
proof -
  from cr obtain p i where p: "parseID parent = Inr p" and i: "text = id_String i"
    and c: "CreateConnection ctx rnd now p (toAppOpts c) a = Returns (Inr i, a')"
    by (auto simp: bd_CreateConnection_def with_id_def split: sum.splits call.splits)
  let ?c = "new_conn rnd now p (toAppOpts c)"
  from c obtain t where t: "AddConnection (Some ?c) (a_tree a) = Inr t"
    and cm: "commit now 2 (node_event EventNodeCreated (c_ID ?c) (c_ParentID ?c) NilID NodeKindConnection (c_Name ?c))
      (c_ID ?c) (a\<lparr>a_tree := t\<rparr>) = Returns (Inr i, a')"
    by (auto simp: CreateConnection_def fail_def Let_def split: if_splits sum.splits)
  from commit_tree [OF cm] have i': "i = c_ID ?c" and tr: "a_tree a' = t" by auto
  have "conn_at (a_tree a') i = Some ?c" using AddConnection_result [OF t] tr i' by auto
  moreover have "wf_tree (a_tree a')" using AddConnection_wf [OF wf t] tr by simp
  ultimately obtain r where "GetConnection True i a' = Returns (Inr (connection_view ?c r))"
    using GetConnection_view [where a = a' and i = i] by auto
  then have g: "bd_GetConnection True text a' = Returns (Inr (connection_view ?c r))"
    by (simp add: bd_GetConnection_def query_id_def i)
  have twice: "app_cloneSettings (app_cloneSettings m) = app_cloneSettings m" for m by (simp add: app_cloneSettings_def)
  show ?thesis
    by (intro exI [of _ "connection_view ?c r"] exI [of _ p])
      (use g p i i' in \<open>simp add: connection_view_def new_conn_def toAppOpts_def twice credRefFromInput_def ref_view_def
        zero_ref_view_def\<close>)
qed

subsection \<open>Profiles\<close>

definition ProfilePath :: "string list option \<Rightarrow> string \<Rightarrow> string list option" where
  "ProfilePath cfg profile = (case cfg of None \<Rightarrow> None | Some dir \<Rightarrow>
     Some (if profile = '''' \<or> profile = ''default'' then dir @ [''goremote'', ''workspace.json'']
       else join_comps (dir @ [''goremote'']) (''workspace_'' @ profile @ ''.json'')))"

text \<open>The documents of the configuration directory; which of them the stores are attached to.\<close>

record desk_docs =
  dk_files :: "string list \<Rightarrow> doc_fs"
  dk_settings :: "string list option"
  dk_workspace :: "string list option"

datatype profile_error = NoSettingsStore | SettingsError doc_error | NoConfigDir | DefaultProfile | RemoveProfile

record settings_env =
  te_json :: settings_json
  te_lower :: "string \<Rightarrow> string"
  te_ctx :: bool
  te_read :: bool
  te_ok :: "doc_call \<Rightarrow> bool"
  te_part :: "byte list"
  te_now :: time

definition bd_SwitchWorkspaceProfile :: "settings_env \<Rightarrow> string list option \<Rightarrow> string \<Rightarrow> desk_docs \<Rightarrow>
    profile_error option \<times> desk_docs" where
  "bd_SwitchWorkspaceProfile E cfg newProfile d = (case dk_settings d of
     None \<Rightarrow> (Some NoSettingsStore, d)
   | Some sp \<Rightarrow> (case Get_settings (te_json E) (te_lower E) (te_ctx E) (te_read E) (dk_files d sp) of
       Inl e \<Rightarrow> (Some (SettingsError e), d)
     | Inr s \<Rightarrow> (case Update_settings (te_json E) (te_ctx E) (te_ok E) (te_part E) (te_now E)
             (s\<lparr>sg_WorkspaceProfile := newProfile\<rparr>) (dk_files d sp) of
         (Inl e, fs) \<Rightarrow> (Some (SettingsError e), d\<lparr>dk_files := (dk_files d)(sp := fs)\<rparr>)
       | (Inr _, fs) \<Rightarrow> (case ProfilePath cfg newProfile of
           None \<Rightarrow> (Some NoConfigDir, d\<lparr>dk_files := (dk_files d)(sp := fs)\<rparr>)
         | Some wp \<Rightarrow> (None, d\<lparr>dk_files := (dk_files d)(sp := fs), dk_workspace := Some wp\<rparr>)))))"

definition bd_DeleteWorkspaceProfile :: "bool \<Rightarrow> string list option \<Rightarrow> string \<Rightarrow> desk_docs \<Rightarrow> profile_error option \<times> desk_docs" where
  "bd_DeleteWorkspaceProfile removable cfg profile d =
     (if profile = '''' \<or> profile = ''default'' then (Some DefaultProfile, d)
      else case ProfilePath cfg profile of
        None \<Rightarrow> (Some NoConfigDir, d)
      | Some wp \<Rightarrow>
          if df_file (dk_files d wp) = None then (None, d)
          else if removable then (None, d\<lparr>dk_files := (dk_files d)(wp := (dk_files d wp)\<lparr>df_file := None\<rparr>)\<rparr>)
          else (Some RemoveProfile, d))"

text \<open>A profile that settings accept has a document of its own beside the settings.\<close>

lemma profile_char_plain: "list_all profile_char p \<Longrightarrow> CHR ''/'' \<notin> set p"
  by (auto simp: list_all_iff profile_char_def ord8_def Let_def)

lemma workspace_name:
  assumes "CHR ''/'' \<notin> set p"
  shows "join_comps base (''workspace_'' @ p @ ''.json'') = base @ [''workspace_'' @ p @ ''.json'']"
  using assms by (intro join_one) (auto simp: plain_def)

definition profile_name :: "string \<Rightarrow> string" where
  "profile_name p = (if p = ''default'' then ''workspace.json'' else ''workspace_'' @ p @ ''.json'')"

lemma ProfilePath_valid:
  assumes "list_all profile_char p" "p \<noteq> ''''"
  shows "ProfilePath (Some dir) p = Some (dir @ [''goremote'', profile_name p])"
  using workspace_name [OF profile_char_plain [OF assms(1)], of "dir @ [''goremote'']"] assms(2)
  by (simp add: ProfilePath_def profile_name_def)

lemma profile_name_apart: "profile_name p = profile_name q \<longleftrightarrow> p = q" "profile_name p \<noteq> ''settings.json''"
  by (auto simp: profile_name_def)

lemma Switch_success:
  assumes "bd_SwitchWorkspaceProfile E (Some dir) p d = (None, d')"
  shows "\<exists>sp. dk_settings d = Some sp \<and> dk_workspace d' = Some (dir @ [''goremote'', profile_name p]) \<and>
    list_all profile_char p \<and> p \<noteq> '''' \<and> (\<forall>q. q \<noteq> sp \<longrightarrow> dk_files d' q = dk_files d q) \<and> dk_settings d' = Some sp"
proof -
  from assms obtain sp s s' fs where sp: "dk_settings d = Some sp"
    and up: "Update_settings (te_json E) (te_ctx E) (te_ok E) (te_part E) (te_now E) (s\<lparr>sg_WorkspaceProfile := p\<rparr>)
      (dk_files d sp) = (Inr s', fs)"
    and d': "ProfilePath (Some dir) p = Some (the (dk_workspace d'))"
      "d' = d\<lparr>dk_files := (dk_files d)(sp := fs), dk_workspace := Some (the (dk_workspace d'))\<rparr>"
    by (auto simp: bd_SwitchWorkspaceProfile_def split: option.splits sum.splits prod.splits)
  from up have "Validate_settings (s\<lparr>sg_WorkspaceProfile := p\<rparr>) = []"
    by (auto simp: Update_settings_def Let_def split: if_splits option.splits prod.splits)
  then have p: "list_all profile_char p" "p \<noteq> ''''" by (auto simp: Validate_settings_def split: if_splits)
  from ProfilePath_valid [OF this, of dir] d'(1) have "the (dk_workspace d') = dir @ [''goremote'', profile_name p]" by simp
  moreover have "dk_workspace d' = Some (the (dk_workspace d'))" "dk_settings d' = Some sp"
    "\<forall>q. q \<noteq> sp \<longrightarrow> dk_files d' q = dk_files d q" by (subst d'(2), simp add: sp)+
  ultimately show ?thesis using sp p by auto
qed

text \<open>What is deleted is not checked like that: this one is the settings document.\<close>

lemma Delete_escapes:
  "ProfilePath (Some dir) ''/../settings'' = Some (dir @ [''goremote'', ''settings.json''])"
  by (simp add: ProfilePath_def join_comps_def)

subsection \<open>Log level, recovery, requests\<close>

definition resolveLogLevel :: "(string \<Rightarrow> string) \<Rightarrow> string \<Rightarrow> int" where
  "resolveLogLevel ul v = (let s = to_lower ul (trim_space v) in
     if s = ''trace'' then -8
     else if s = ''debug'' then -4
     else if s = ''warn'' \<or> s = ''warning'' then 4
     else if s = ''error'' then 8
     else 0)"

definition selectLogLevel :: "(string \<Rightarrow> string) \<Rightarrow> string \<Rightarrow> string \<Rightarrow> int" where
  "selectLogLevel ul envLevel settingsLevel =
     (if trim_space envLevel \<noteq> '''' then resolveLogLevel ul envLevel
      else if trim_space settingsLevel \<noteq> '''' then resolveLogLevel ul settingsLevel
      else 0)"

text \<open>The state's directory is moved away as a whole; the second attempt finds none.\<close>

definition fresh_state :: vault where
  "fresh_state = \<lparr>v_dir = \<lparr>files = [], backups = None\<rparr>, v_zips = Map.empty\<rparr>"

definition quarantineStateDir :: "bool \<Rightarrow> string \<Rightarrow> vault \<Rightarrow> (vault \<times> vault) option" where
  "quarantineStateDir renamed dir v = (if dir = '''' then None else if \<not> renamed then None else Some (fresh_state, v))"

definition newAppWithRecovery :: "'j json \<Rightarrow> (string \<Rightarrow> bool) \<Rightarrow> (string \<Rightarrow> bool) \<Rightarrow> bool \<Rightarrow> string \<Rightarrow> vault \<Rightarrow>
    (new_error + persist) \<times> vault option" where
  "newAppWithRecovery J rok rok2 renamed dir v = (case New_app J rok dir v of
     Inr s \<Rightarrow> (Inr s, None)
   | Inl DirRequired \<Rightarrow> (Inl DirRequired, None)
   | Inl (LoadFailed e) \<Rightarrow> (case quarantineStateDir renamed dir v of
       None \<Rightarrow> (Inl (LoadFailed e), None)
     | Some (v', q) \<Rightarrow> (New_app J rok2 dir v', Some q)))"

lemma New_app_empty:
  assumes "dir \<noteq> ''''" "\<forall>n. rok n"
  shows "\<exists>s. New_app J rok dir fresh_state = Inr s \<and> a_tree (ps_app s) = NewTree"
  using assms by (simp add: New_app_def Load_def known_files_def dir_disk_def dir_file_def fresh_state_def decodeJSON_def
    zero_meta_def load_files_def Let_def decode_nothing)

text \<open>The application starts, and what could not be loaded is kept.\<close>

lemma recovery_starts:
  assumes "dir \<noteq> ''''" "renamed" "\<forall>n. rok2 n"
  shows "\<exists>s q. newAppWithRecovery J rok rok2 renamed dir v = (Inr s, q) \<and>
    (case q of None \<Rightarrow> New_app J rok dir v = Inr s | Some old \<Rightarrow> old = v \<and> a_tree (ps_app s) = NewTree)"
proof (cases "New_app J rok dir v")
  case (Inl e)
  then obtain x where x: "e = LoadFailed x" using assms(1) by (cases e) (auto simp: New_app_def split: sum.splits)
  obtain s where "New_app J rok2 dir fresh_state = Inr s" "a_tree (ps_app s) = NewTree"
    using New_app_empty [OF assms(1,3)] by blast
  then show ?thesis using Inl x assms(1,2) by (simp add: newAppWithRecovery_def quarantineStateDir_def)
qed (simp add: newAppWithRecovery_def)

text \<open>
  The headless mode: \<open>RMalformed\<close> is text that is not JSON or that ends inside a value. A decoder that met it
  reports the same error on every later call, and only \<open>io.EOF\<close> ends the loop. \<open>RMismatch\<close> is a value
  that is no request.
\<close>

record rpc_call =
  rp_ID :: int
  rp_Method :: string
  rp_Params :: "byte list"

datatype rpc_input = RCall rpc_call | RMismatch | RMalformed

datatype 'l rpc_result = RpcTree TreeView | RpcSessions 'l | RpcNodes "NodeView list"

datatype 'l rpc_reply = RpcOk int "'l rpc_result" | RpcBadParams int | RpcUnknownMethod int string | RpcDecode

definition call_reply :: "int \<Rightarrow> ('r \<Rightarrow> 'l rpc_result) \<Rightarrow> 'r call \<Rightarrow> 'l rpc_reply call" where
  "call_reply i f c = (case c of Returns r \<Rightarrow> Returns (RpcOk i (f r)) | Panics \<Rightarrow> Panics | Loops \<Rightarrow> Loops)"

definition rpc_dispatch :: "(string \<Rightarrow> string) \<Rightarrow> (byte list \<Rightarrow> SearchQuery option) \<Rightarrow> 'l \<Rightarrow> app \<Rightarrow> rpc_call \<Rightarrow>
    'l rpc_reply call" where
  "rpc_dispatch ul json sessions a c =
     (if rp_Method c = ''ListTree'' then call_reply (rp_ID c) RpcTree (ListTree a)
      else if rp_Method c = ''ListSessions'' then Returns (RpcOk (rp_ID c) (RpcSessions sessions))
      else if rp_Method c = ''Search'' then
       (if rp_Params c = [] then
          call_reply (rp_ID c) RpcNodes (SearchNodes ul \<lparr>sq_Name = '''', sq_Tag = '''', sq_Protocol = ''''\<rparr> a)
        else case json (rp_Params c) of
          None \<Rightarrow> Returns (RpcBadParams (rp_ID c))
        | Some q \<Rightarrow> call_reply (rp_ID c) RpcNodes (SearchNodes ul q a))
      else Returns (RpcUnknownMethod (rp_ID c) (rp_Method c)))"

text \<open>The replies of at most \<open>n\<close> rounds, and whether the loop has ended by then; \<open>alive\<close> and \<open>sent\<close>: the
  context, and the writing of a reply, in the round.\<close>

fun run_cli :: "(nat \<Rightarrow> bool) \<Rightarrow> (nat \<Rightarrow> bool) \<Rightarrow> (rpc_call \<Rightarrow> 'l rpc_reply call) \<Rightarrow> nat \<Rightarrow> nat \<Rightarrow> rpc_input list \<Rightarrow>
    ('l rpc_reply list \<times> bool) call" where
  "run_cli alive sent f 0 k xs = Returns ([], False)"
| "run_cli alive sent f (Suc n) k xs =
     (if \<not> alive k then Returns ([], True)
      else case xs of
        [] \<Rightarrow> Returns ([], True)
      | RMalformed # ys \<Rightarrow> (case run_cli alive sent f n (Suc k) xs of
            Returns (rs, b) \<Rightarrow> Returns (RpcDecode # rs, b) | Panics \<Rightarrow> Panics | Loops \<Rightarrow> Loops)
      | RMismatch # ys \<Rightarrow> (case run_cli alive sent f n (Suc k) ys of
            Returns (rs, b) \<Rightarrow> Returns (RpcDecode # rs, b) | Panics \<Rightarrow> Panics | Loops \<Rightarrow> Loops)
      | RCall c # ys \<Rightarrow> (case f c of
            Panics \<Rightarrow> Panics
          | Loops \<Rightarrow> Loops
          | Returns r \<Rightarrow> if \<not> sent k then Returns ([], True)
              else (case run_cli alive sent f n (Suc k) ys of
                Returns (rs, b) \<Rightarrow> Returns (r # rs, b) | Panics \<Rightarrow> Panics | Loops \<Rightarrow> Loops)))"

text \<open>Every request is answered and the loop ends with the input; but not after malformed text.\<close>

definition reply_to :: "(rpc_call \<Rightarrow> 'l rpc_reply call) \<Rightarrow> rpc_input \<Rightarrow> 'l rpc_reply" where
  "reply_to f x = (case x of RCall c \<Rightarrow> (case f c of Returns r \<Rightarrow> r | _ \<Rightarrow> RpcDecode) | _ \<Rightarrow> RpcDecode)"

lemma run_cli_ends:
  assumes "\<And>c. \<exists>r. f c = Returns r" "RMalformed \<notin> set xs" "length xs < n"
  shows "run_cli (\<lambda>_. True) (\<lambda>_. True) f n k xs = Returns (map (reply_to f) xs, True)"
  using assms(2,3)
proof (induction xs arbitrary: n k)
  case Nil
  then show ?case by (cases n) auto
next
  case (Cons x xs)
  then obtain m where n: "n = Suc m" by (cases n) auto
  have i: "run_cli (\<lambda>_. True) (\<lambda>_. True) f m (Suc k) xs = Returns (map (reply_to f) xs, True)"
    using Cons n by simp
  show ?case
  proof (cases x)
    case (RCall c)
    then show ?thesis using i n assms(1) [of c] by (auto simp: reply_to_def)
  qed (use Cons.prems n i in \<open>auto simp: reply_to_def\<close>)
qed

lemma run_cli_stuck: "run_cli (\<lambda>_. True) sent f n k (RMalformed # xs) = Returns (replicate n RpcDecode, False)"
  by (induction n arbitrary: k) simp_all

lemma run_cli_spins:
  assumes "\<And>c. \<exists>r. f c = Returns r" "RMalformed \<notin> set xs"
  shows "run_cli (\<lambda>_. True) (\<lambda>_. True) f (length xs + n) k (xs @ RMalformed # ys) =
    Returns (map (reply_to f) xs @ replicate n RpcDecode, False)"
  using assms(2)
proof (induction xs arbitrary: k)
  case (Cons x xs)
  then have i: "run_cli (\<lambda>_. True) (\<lambda>_. True) f (length xs + n) (Suc k) (xs @ RMalformed # ys) =
      Returns (map (reply_to f) xs @ replicate n RpcDecode, False)" by simp
  show ?case
  proof (cases x)
    case (RCall c)
    then show ?thesis using i assms(1) [of c] by (auto simp: reply_to_def)
  qed (use Cons.prems i in \<open>auto simp: reply_to_def\<close>)
qed (simp add: run_cli_stuck)

lemma dispatch_returns:
  assumes "wf_tree (a_tree a)"
  shows "\<exists>r. rpc_dispatch ul json sessions a c = Returns r"
proof -
  obtain v where "ListTree a = Returns v" using ListTree_projects [OF assms] by blast
  then show ?thesis using SearchNodes_filter [OF assms, of ul]
    by (simp add: rpc_dispatch_def call_reply_def split: option.split)
qed

end
