(* ===== verification/DesktopSamples.thy ===== *)
theory DesktopSamples
  imports DesktopBindings AppSamples
begin

text \<open>A workspace store, a session that is opened from the user interface, and a new connection, for the
  properties of the bindings.\<close>

definition recent_doc :: Workspace where
  "recent_doc = (TouchRecent 5 (id_String 4) 5 Default_workspace)\<lparr>wk_UpdatedAt := 6\<rparr>"

definition sample_store :: store_env where
  "sample_store = \<lparr>we_json = \<lparr>wj_decode = (\<lambda>_. Some recent_doc), wj_encode = (\<lambda>_. Some [1])\<rparr>, we_ctx = True, we_read = True,
     we_ok = (\<lambda>_. True), we_part = [], we_now = 5, we_stamp = 6\<rparr>"

definition no_tabs :: doc_fs where
  "no_tabs = \<lparr>df_file = None, df_temps = []\<rparr>"

lemma sample_store_facts:
  "store_load sample_store no_tabs = (None, Default_workspace)" "recents_ok Default_workspace"
  "good_store sample_store ((TouchRecent (we_now sample_store) (id_String 4) (we_now sample_store)
     Default_workspace)\<lparr>wk_UpdatedAt := we_stamp sample_store\<rparr>)"
  by (simp_all add: store_load_def Load_workspace_def sample_store_def no_tabs_def recents_ok_def Default_workspace_def)
    (simp add: good_store_def recent_doc_def Default_workspace_def)

lemma sample_bd_open:
  "\<exists>t r so. bd_OpenSession sample_store (\<lambda>s. s) True 9 0 (\<lambda>_. Inl ''none'') (sample_open True) (id_String 4) open_app
     sample_proto (Some no_tabs) = Returns (Inr t, r, so)"
proof -
  obtain r s where "sample_session True None = Returns r" "res_out r = Inr s" using sample_session_result(1) by blast
  then show ?thesis by (simp add: bd_OpenSession_def bd_open_def OpenSession_def)
qed

definition sample_input :: ConnectionInput where
  "sample_input = \<lparr>ci_Name = ''n'', ci_ProtocolID = ''ssh'', ci_Host = ''h'', ci_Port = 22, ci_Username = '''', ci_AuthMethod = '''',
     ci_CredentialRef = \<lparr>cr_ProviderID = '''', cr_Key = ''''\<rparr>, ci_Description = '''', ci_Tags = [''t''], ci_Settings = None,
     ci_Icon = '''', ci_Color = '''', ci_Environment = '''', ci_Favorite = True\<rparr>"

lemma sample_bd_create:
  "\<exists>text a'. bd_CreateConnection True 10 (\<lambda>_. 0) (id_String 1) sample_input sample_app = Returns (Inr text, a')"
proof -
  let ?c = "new_conn 10 (\<lambda>_. 0) 1 (toAppOpts sample_input)"
  have "is_ok (AddConnection (Some ?c) sample_tree)"
    unfolding AddConnection_ok_iff by (simp add: new_conn_def sample_drawn sample_tree_def NilID_def)
  then obtain t where t: "AddConnection (Some ?c) sample_tree = Inr t" by (elim is_okE)
  have n: "co_Name (toAppOpts sample_input) \<noteq> ''''" by (simp add: toAppOpts_def sample_input_def)
  have "\<exists>a'. CreateConnection True 10 (\<lambda>_. 0) 1 (toAppOpts sample_input) sample_app = Returns (Inr (c_ID ?c), a')"
    using n t by (simp add: CreateConnection_def Let_def commit_def markDirty_def)
  then show ?thesis by (auto simp: bd_CreateConnection_def with_id_def)
qed

end
