(* ===== verification/AppLogging.thy ===== *)
theory AppLogging
  imports Prelude
begin

text \<open>
  \<open>internal/logging\<close>: the handler that removes secrets from the attributes of log records
  (\<open>redact.go\<close>, \<open>logger.go\<close>) and the log file with its rotation (\<open>filesink.go\<close>). The patterns are a predicate
  on texts, since regular expressions are the standard library's; what the inner handler is told is
  recorded as a list.
\<close>

subsection \<open>Attributes\<close>

text \<open>\<open>VLog v\<close>: a value that implements \<open>LogValuer\<close> and returns \<open>v\<close>; \<open>VOther\<close>: numbers, times, errors and any
  other value, by its name.\<close>

datatype attr_value = VString string | VOther string | VGroup "log_attr list" | VLog attr_value
and log_attr = LAttr (la_Key: string) (la_Value: attr_value)

text \<open>\<open>Value.Resolve\<close> gives up after a hundred steps, with an error as the value.\<close>

fun resolve_steps :: "nat \<Rightarrow> attr_value \<Rightarrow> attr_value" where
  "resolve_steps 0 v = VOther ''LogValue called too many times''"
| "resolve_steps (Suc n) (VLog v) = resolve_steps n v"
| "resolve_steps (Suc n) v = v"

definition resolve_value :: "attr_value \<Rightarrow> attr_value" where
  "resolve_value v = resolve_steps 100 v"

definition empty_group :: "log_attr \<Rightarrow> bool" where
  "empty_group a \<longleftrightarrow> la_Value a = VGroup []"

text \<open>\<open>slog.Group\<close> drops empty groups.\<close>

definition group_attr :: "string \<Rightarrow> log_attr list \<Rightarrow> log_attr" where
  "group_attr k as = LAttr k (VGroup (filter (\<lambda>a. \<not> empty_group a) as))"

definition Redacted :: string where
  "Redacted = ''[REDACTED]''"

definition DefaultSensitiveKeys :: "string list" where
  "DefaultSensitiveKeys = [''password'', ''passwd'', ''secret'', ''token'', ''api_key'', ''apikey'', ''authorization'',
     ''private_key'', ''passphrase'', ''otp'']"

subsection \<open>The handler\<close>

datatype inner_op = InnerAttrs "log_attr list" | InnerGroup string

record redact_config =
  rh_level :: "int option"
  rh_keys :: "string set"
  rh_match :: "string \<Rightarrow> bool"
  rh_lower :: "string \<Rightarrow> string"   \<comment> \<open>case folding of text that is not ASCII\<close>

record redact_handler =
  rh_config :: redact_config
  rh_inner :: "inner_op list"
  rh_pending :: "log_attr list"

definition buildKeySet :: "(string \<Rightarrow> string) \<Rightarrow> string list \<Rightarrow> string set" where
  "buildKeySet ul keys = set (map (to_lower ul) keys)"

record log_options =
  lo_Level :: "int option"
  lo_SensitiveKeys :: "string list option"
  lo_SensitivePatterns :: "(string \<Rightarrow> bool) option"

text \<open>\<open>defaults\<close>: the built-in patterns; 0 is the level Info.\<close>

definition New_logger :: "(string \<Rightarrow> string) \<Rightarrow> (string \<Rightarrow> bool) \<Rightarrow> log_options \<Rightarrow> redact_handler" where
  "New_logger ul defaults opts = \<lparr>rh_config = \<lparr>
       rh_level = Some (case lo_Level opts of None \<Rightarrow> 0 | Some l \<Rightarrow> l),
       rh_keys = buildKeySet ul (case lo_SensitiveKeys opts of None \<Rightarrow> DefaultSensitiveKeys | Some ks \<Rightarrow> ks),
       rh_match = (case lo_SensitivePatterns opts of None \<Rightarrow> defaults | Some p \<Rightarrow> p), rh_lower = ul\<rparr>,
     rh_inner = [], rh_pending = []\<rparr>"

definition isSensitiveKey :: "redact_config \<Rightarrow> string \<Rightarrow> bool" where
  "isSensitiveKey c key = (rh_keys c \<noteq> {} \<and> to_lower (rh_lower c) key \<in> rh_keys c)"

definition redactString :: "redact_config \<Rightarrow> string \<Rightarrow> string \<times> bool" where
  "redactString c s = (if rh_match c s then (Redacted, True) else (s, False))"

definition redact_text :: "redact_config \<Rightarrow> string \<Rightarrow> string \<Rightarrow> attr_value \<Rightarrow> log_attr" where
  "redact_text c k s v = (case redactString c s of (r, changed) \<Rightarrow> if changed then LAttr k (VString r) else LAttr k v)"

lemma size_resolve_steps: "resolve_steps n v = VGroup as \<Longrightarrow> size (VGroup as) \<le> size v"
  by (induction n v rule: resolve_steps.induct) simp_all

lemma size_resolve: "resolve_value (VLog v) = VGroup as \<Longrightarrow> size (VGroup as) \<le> size v"
  using size_resolve_steps [of 99 v] by (simp add: resolve_value_def numeral_eq_Suc)

function redactAttr :: "redact_config \<Rightarrow> log_attr \<Rightarrow> log_attr" where
  "redactAttr c (LAttr k (VGroup as)) = group_attr k (map (redactAttr c) as)"
| "redactAttr c (LAttr k (VString s)) =
     (if isSensitiveKey c k then LAttr k (VString Redacted) else redact_text c k s (VString s))"
| "redactAttr c (LAttr k (VOther s)) =
     (if isSensitiveKey c k then LAttr k (VString Redacted) else LAttr k (VOther s))"
| "redactAttr c (LAttr k (VLog v)) =
     (if isSensitiveKey c k then LAttr k (VString Redacted)
      else case resolve_value (VLog v) of
        VGroup as \<Rightarrow> redactAttr c (LAttr k (VGroup as))
      | VString s \<Rightarrow> redact_text c k s (VLog v)
      | _ \<Rightarrow> LAttr k (VLog v))"
  by pat_completeness auto

termination
proof (relation "measure (\<lambda>(c, a). size a)")
  fix c :: redact_config and k v and as :: "log_attr list"
  assume "resolve_value (VLog v) = VGroup as"
  then show "((c, LAttr k (VGroup as)), c, LAttr k (VLog v)) \<in> measure (\<lambda>(c, a). size a)"
    using size_resolve [of v] by simp
next
  fix c :: redact_config and k and as :: "log_attr list" and a
  assume "a \<in> set as"
  then show "((c, a), c, LAttr k (VGroup as)) \<in> measure (\<lambda>(c, a). size a)"
    using size_list_estimation' [of a as "size a" size] by auto
qed simp

definition Enabled_log :: "redact_config \<Rightarrow> (int \<Rightarrow> bool) \<Rightarrow> int \<Rightarrow> bool" where
  "Enabled_log c inner l = (if (case rh_level c of None \<Rightarrow> False | Some m \<Rightarrow> l < m) then False else inner l)"

text \<open>What the inner handler gets for a record; \<open>AddAttrs\<close> drops empty groups.\<close>

definition Handle_record :: "redact_handler \<Rightarrow> log_attr list \<Rightarrow> inner_op list \<times> log_attr list" where
  "Handle_record h as = (rh_inner h, filter (\<lambda>a. \<not> empty_group a) (rh_pending h @ map (redactAttr (rh_config h)) as))"

definition dedupKeys :: "string \<Rightarrow> bool" where
  "dedupKeys k \<longleftrightarrow> k = ''component''"

fun replace_key :: "log_attr \<Rightarrow> log_attr list \<Rightarrow> log_attr list option" where
  "replace_key a [] = None"
| "replace_key a (b # bs) = (if la_Key b = la_Key a then Some (a # bs)
     else map_option (\<lambda>xs. b # xs) (replace_key a bs))"

definition merge_attr :: "log_attr \<Rightarrow> log_attr list \<Rightarrow> log_attr list" where
  "merge_attr ra merged = (if dedupKeys (la_Key ra)
     then (case replace_key ra merged of None \<Rightarrow> merged @ [ra] | Some xs \<Rightarrow> xs) else merged @ [ra])"

definition WithAttrs :: "log_attr list \<Rightarrow> redact_handler \<Rightarrow> redact_handler" where
  "WithAttrs as h = h\<lparr>rh_pending := fold (\<lambda>a m. merge_attr (redactAttr (rh_config h) a) m) as (rh_pending h)\<rparr>"

definition WithGroup :: "string \<Rightarrow> redact_handler \<Rightarrow> redact_handler" where
  "WithGroup name h = h\<lparr>rh_inner := rh_inner h @ (if rh_pending h \<noteq> [] then [InnerAttrs (rh_pending h)] else []) @
     [InnerGroup name], rh_pending := []\<rparr>"

definition WithComponent :: "string \<Rightarrow> redact_handler \<Rightarrow> redact_handler" where
  "WithComponent name h = WithAttrs [LAttr ''component'' (VString name)] h"

subsection \<open>Nothing sensitive gets through\<close>

text \<open>At every depth: a sensitive key has the placeholder, unless it names a group; a text that matches a pattern is
  the placeholder; and no group hides behind a value that is yet to be resolved.\<close>

fun clean_attr :: "redact_config \<Rightarrow> log_attr \<Rightarrow> bool" where
  "clean_attr c (LAttr k (VGroup as)) = list_all (clean_attr c) as"
| "clean_attr c (LAttr k (VString s)) = (s = Redacted \<or> \<not> isSensitiveKey c k \<and> \<not> rh_match c s)"
| "clean_attr c (LAttr k (VOther s)) = (\<not> isSensitiveKey c k)"
| "clean_attr c (LAttr k (VLog v)) = (\<not> isSensitiveKey c k \<and>
     (case resolve_value (VLog v) of VGroup as \<Rightarrow> False | VString s \<Rightarrow> \<not> rh_match c s | _ \<Rightarrow> True))"

lemma redact_text_clean:
  "\<not> isSensitiveKey c k \<Longrightarrow> (\<not> rh_match c s \<Longrightarrow> clean_attr c (LAttr k v)) \<Longrightarrow> clean_attr c (redact_text c k s v)"
  by (simp add: redact_text_def redactString_def)

lemma redactAttr_clean: "clean_attr c (redactAttr c a)"
proof (induction c a rule: redactAttr.induct)
  case (1 c k as)
  then show ?case by (auto simp: group_attr_def list_all_iff)
next
  case (4 c k v)
  then show ?case by (auto simp: redact_text_clean split: attr_value.split)
qed (auto intro: redact_text_clean)

lemma redactAttr_key: "la_Key (redactAttr c a) = la_Key a"
  by (induction c a rule: redactAttr.induct)
    (auto simp: group_attr_def redact_text_def redactString_def split: attr_value.split)

text \<open>Attributes that are clean already are left alone, but for empty groups.\<close>

lemma redactAttr_plain:
  "\<not> isSensitiveKey c k \<Longrightarrow> \<not> rh_match c s \<Longrightarrow> redactAttr c (LAttr k (VString s)) = LAttr k (VString s)"
  by (simp add: redact_text_def redactString_def)

fun clean_op :: "redact_config \<Rightarrow> inner_op \<Rightarrow> bool" where
  "clean_op c (InnerAttrs as) = list_all (clean_attr c) as"
| "clean_op c (InnerGroup g) = True"

inductive log_step :: "redact_handler \<Rightarrow> redact_handler \<Rightarrow> bool" where
  log_attrs: "log_step h (WithAttrs as h)"
| log_group: "log_step h (WithGroup name h)"

abbreviation log_reach :: "(string \<Rightarrow> string) \<Rightarrow> (string \<Rightarrow> bool) \<Rightarrow> log_options \<Rightarrow> redact_handler \<Rightarrow> bool" where
  "log_reach ul defaults opts \<equiv> reach (\<lambda>h. h = New_logger ul defaults opts) log_step"

definition is_component :: "log_attr \<Rightarrow> bool" where
  "is_component a \<longleftrightarrow> la_Key a = ''component''"

definition one_component :: "log_attr list \<Rightarrow> bool" where
  "one_component as \<longleftrightarrow> length (filter is_component as) \<le> 1"

definition log_inv :: "redact_handler \<Rightarrow> bool" where
  "log_inv h \<longleftrightarrow> list_all (clean_op (rh_config h)) (rh_inner h) \<and> list_all (clean_attr (rh_config h)) (rh_pending h) \<and>
     one_component (rh_pending h)"

lemma replace_key_none: "replace_key a bs = None \<longleftrightarrow> la_Key a \<notin> la_Key ` set bs"
  by (induction bs) auto

lemma replace_key_some:
  "replace_key a bs = Some xs \<Longrightarrow> map la_Key xs = map la_Key bs \<and> set xs \<subseteq> insert a (set bs)"
  by (induction bs arbitrary: xs) (auto split: if_splits)

lemma component_count: "length (filter is_component as) = count_list (map la_Key as) ''component''"
  by (induction as) (auto simp: is_component_def)

lemma merge_attr_inv:
  assumes "clean_attr c ra" "list_all (clean_attr c) m" "one_component m"
  shows "list_all (clean_attr c) (merge_attr ra m) \<and> one_component (merge_attr ra m)"
proof (cases "dedupKeys (la_Key ra)")
  case True
  show ?thesis
  proof (cases "replace_key ra m")
    case None
    then have "\<forall>x \<in> set m. \<not> is_component x"
      using True replace_key_none [of ra m] unfolding is_component_def dedupKeys_def by (metis image_eqI)
    then have "filter is_component m = []" by (simp add: filter_empty_conv)
    then show ?thesis using None True assms by (simp add: merge_attr_def one_component_def)
  next
    case (Some xs)
    then show ?thesis using True assms replace_key_some [OF Some]
      by (auto simp: merge_attr_def list_all_iff one_component_def component_count)
  qed
next
  case False
  then have "\<not> is_component ra" by (simp add: is_component_def dedupKeys_def)
  then show ?thesis using False assms by (simp add: merge_attr_def one_component_def)
qed

lemma merge_all_inv:
  "list_all (clean_attr c) m \<Longrightarrow> one_component m \<Longrightarrow>
    list_all (clean_attr c) (fold (\<lambda>a m. merge_attr (redactAttr c a) m) as m) \<and>
    one_component (fold (\<lambda>a m. merge_attr (redactAttr c a) m) as m)"
proof (induction as arbitrary: m)
  case (Cons a as)
  then show ?case using merge_attr_inv [OF redactAttr_clean [of c a]] by simp
qed simp

lemma WithAttrs_inv: "log_inv h \<Longrightarrow> log_inv (WithAttrs as h)"
  using merge_all_inv [of "rh_config h" "rh_pending h" as] by (simp add: log_inv_def WithAttrs_def)

lemma WithGroup_inv: "log_inv h \<Longrightarrow> log_inv (WithGroup name h)"
  by (auto simp: log_inv_def WithGroup_def one_component_def)

interpretation log_sys: invariant_system "\<lambda>h. h = New_logger ul defaults opts" log_step log_inv
proof
  show "log_inv h" if "h = New_logger ul defaults opts" for h
    using that by (simp add: log_inv_def New_logger_def one_component_def)
  show "log_inv t" if "log_inv h" "log_step h t" for h t
    using that(2,1) by cases (simp_all add: WithAttrs_inv WithGroup_inv)
qed

lemma Handle_clean:
  assumes "log_reach ul defaults opts h" "Handle_record h as = (ops, out)"
  shows "list_all (clean_op (rh_config h)) ops \<and> list_all (clean_attr (rh_config h)) out"
  using log_sys.reach_inv [OF assms(1)] assms(2)
  by (auto simp: Handle_record_def log_inv_def list_all_iff redactAttr_clean)

lemma log_config: "log_reach ul defaults opts h \<Longrightarrow> rh_config h = rh_config (New_logger ul defaults opts)"
proof (induction rule: reach.induct)
  case (reach_step s t)
  from reach_step(2) show ?case using reach_step(3) by cases (simp_all add: WithAttrs_def WithGroup_def)
qed simp

text \<open>A group under a sensitive name passes with what it holds.\<close>

lemma sensitive_group_passes:
  assumes "\<not> isSensitiveKey c k" "\<not> rh_match c s"
  shows "redactAttr c (LAttr ''password'' (VGroup [LAttr k (VString s)])) = LAttr ''password'' (VGroup [LAttr k (VString s)])"
  using redactAttr_plain [OF assms] by (simp add: group_attr_def empty_group_def)

subsection \<open>The log file\<close>

text \<open>\<open>StaleFd\<close>: a file that was closed and is still referred to.\<close>

datatype sink_fd = NoFd | StaleFd | OpenFd

datatype sink_call = SMkdir | SOpen | SStat | SWrite | SClose | SRemove | SRename | SReopen | SReopenStat | SCreate

datatype sink_error = EmptySinkPath | SinkFailed sink_call | SinkClosed

record file_sink =
  fk_max :: int
  fk_fd :: sink_fd
  fk_size :: int

text \<open>The current file and the rotated one.\<close>

record log_files =
  lf_cur :: "byte list option"
  lf_old :: "byte list option"

definition log_text :: "byte list option \<Rightarrow> byte list" where
  "log_text f = (case f of None \<Rightarrow> [] | Some b \<Rightarrow> b)"

definition defaultLogMaxBytes :: int where
  "defaultLogMaxBytes = 10 * 1024 * 1024"

definition OpenFileSink :: "(sink_call \<Rightarrow> bool) \<Rightarrow> string \<Rightarrow> int \<Rightarrow> log_files \<Rightarrow> (sink_error + file_sink) \<times> log_files" where
  "OpenFileSink ok path maxBytes d =
     (if path = '''' then (Inl EmptySinkPath, d)
      else if \<not> ok SMkdir then (Inl (SinkFailed SMkdir), d)
      else if \<not> ok SOpen then (Inl (SinkFailed SOpen), d)
      else let d1 = d\<lparr>lf_cur := Some (log_text (lf_cur d))\<rparr> in
        if \<not> ok SStat then (Inl (SinkFailed SStat), d1)
        else (Inr \<lparr>fk_max = (if maxBytes \<le> 0 then defaultLogMaxBytes else maxBytes), fk_fd = OpenFd,
                fk_size = int (length (log_text (lf_cur d)))\<rparr>, d1))"

definition rotateLocked :: "(sink_call \<Rightarrow> bool) \<Rightarrow> file_sink \<times> log_files \<Rightarrow> file_sink \<times> log_files" where
  "rotateLocked ok sd = (case sd of (s, d) \<Rightarrow>
     (if \<not> ok SClose then (s\<lparr>fk_fd := NoFd\<rparr>, d)
      else let s1 = s\<lparr>fk_fd := StaleFd\<rparr>; d1 = (if ok SRemove then d\<lparr>lf_old := None\<rparr> else d) in
        if \<not> ok SRename then
          (if \<not> ok SReopen then (s1, d1)
           else (s1\<lparr>fk_fd := OpenFd, fk_size := (if ok SReopenStat then int (length (log_text (lf_cur d1))) else fk_size s1)\<rparr>, d1))
        else let d2 = d1\<lparr>lf_old := lf_cur d1, lf_cur := None\<rparr> in
          if \<not> ok SCreate then (s1, d2)
          else (s1\<lparr>fk_fd := OpenFd, fk_size := 0\<rparr>, d2\<lparr>lf_cur := Some []\<rparr>)))"

text \<open>\<open>part\<close>: how much a failing write gets to the file.\<close>

definition Write_sink :: "(sink_call \<Rightarrow> bool) \<Rightarrow> nat \<Rightarrow> byte list \<Rightarrow> file_sink \<times> log_files \<Rightarrow>
    nat \<times> sink_error option \<times> file_sink \<times> log_files" where
  "Write_sink ok part p sd = (case sd of (s, d) \<Rightarrow>
     (case fk_fd s of
        NoFd \<Rightarrow> (0, Some SinkClosed, s, d)
      | StaleFd \<Rightarrow> (0, Some (SinkFailed SWrite), s, d)
      | OpenFd \<Rightarrow> (let n = (if ok SWrite then length p else min part (length p));
            s1 = s\<lparr>fk_size := fk_size s + int n\<rparr>;
            d1 = d\<lparr>lf_cur := Some (log_text (lf_cur d) @ take n p)\<rparr> in
          if \<not> ok SWrite then (n, Some (SinkFailed SWrite), s1, d1)
          else if fk_size s1 \<ge> fk_max s1 then (case rotateLocked ok (s1, d1) of (s2, d2) \<Rightarrow> (n, None, s2, d2))
          else (n, None, s1, d1))))"

definition Close_sink :: "(sink_call \<Rightarrow> bool) \<Rightarrow> file_sink \<Rightarrow> sink_error option \<times> file_sink" where
  "Close_sink ok s = (if fk_fd s = NoFd then (None, s)
     else (if fk_fd s = OpenFd \<and> ok SClose then None else Some (SinkFailed SClose), s\<lparr>fk_fd := NoFd\<rparr>))"

text \<open>As long as the calls succeed, the two files are the end of all that was written, and a write leaves
  the current one below the limit.\<close>

definition sink_ok :: "byte list \<Rightarrow> file_sink \<times> log_files \<Rightarrow> bool" where
  "sink_ok all sd \<longleftrightarrow> (case sd of (s, d) \<Rightarrow> fk_fd s = OpenFd \<and> 0 < fk_max s \<and> fk_size s = int (length (log_text (lf_cur d))) \<and>
     (\<exists>gone. all = gone @ log_text (lf_old d) @ log_text (lf_cur d)))"

lemma OpenFileSink_ok:
  assumes "OpenFileSink ok path mb d = (Inr s, d1)"
  shows "sink_ok (log_text (lf_old d) @ log_text (lf_cur d)) (s, d1)"
  using assms by (auto simp: OpenFileSink_def sink_ok_def Let_def log_text_def defaultLogMaxBytes_def
    split: if_splits option.splits intro: exI [of _ "[]"])

lemma Write_sink_ok:
  assumes "sink_ok all sd" "\<forall>c. ok c"
  shows "case Write_sink ok part p sd of (n, e, sd1) \<Rightarrow> n = length p \<and> e = None \<and> sink_ok (all @ p) sd1 \<and>
    fk_size (fst sd1) < fk_max (fst sd1)"
proof -
  obtain s d where sd: "sd = (s, d)" by (cases sd)
  from assms(1) sd obtain gone where g: "fk_fd s = OpenFd" "0 < fk_max s" "fk_size s = int (length (log_text (lf_cur d)))"
    "all = gone @ log_text (lf_old d) @ log_text (lf_cur d)" by (auto simp: sink_ok_def)
  let ?d = "d\<lparr>lf_cur := Some (log_text (lf_cur d) @ p)\<rparr>"
  show ?thesis
  proof (cases "fk_size s + int (length p) \<ge> fk_max s")
    case True
    then show ?thesis using g assms(2) sd
      by (auto simp: Write_sink_def rotateLocked_def Let_def sink_ok_def log_text_def intro: exI [of _ "gone @ log_text (lf_old d)"])
  next
    case False
    then show ?thesis using g assms(2) sd
      by (auto simp: Write_sink_def Let_def sink_ok_def log_text_def intro: exI [of _ gone])
  qed
qed

definition write_all_sink :: "(sink_call \<Rightarrow> bool) \<Rightarrow> byte list list \<Rightarrow> file_sink \<times> log_files \<Rightarrow> file_sink \<times> log_files" where
  "write_all_sink ok ps sd = fold (\<lambda>p sd. snd (snd (Write_sink ok 0 p sd))) ps sd"

lemma write_all_sink_ok:
  "sink_ok all sd \<Longrightarrow> \<forall>c. ok c \<Longrightarrow> sink_ok (all @ concat ps) (write_all_sink ok ps sd)"
proof (induction ps arbitrary: all sd)
  case (Cons p ps)
  have "sink_ok (all @ p) (snd (snd (Write_sink ok 0 p sd)))"
    using Write_sink_ok [OF Cons.prems, where part = 0 and p = p] by (simp add: case_prod_beta)
  from Cons.IH [OF this Cons.prems(2)] show ?case by (simp add: write_all_sink_def)
qed (simp add: write_all_sink_def)

text \<open>When the new file cannot be created after the rename, every later write fails.\<close>

lemma rotation_can_stop_logging:
  assumes "fk_fd s = OpenFd" "fk_size s + int (length p) \<ge> fk_max s" "ok = (\<lambda>c. c \<noteq> SCreate)"
    "Write_sink ok 0 p (s, d) = (n, e, sd)"
  shows "e = None \<and> Write_sink ok' part q sd = (0, Some (SinkFailed SWrite), sd)"
  using assms by (auto simp: Write_sink_def rotateLocked_def Let_def)

end
