(* ===== verification/AppDiagnostics.thy ===== *)
theory AppDiagnostics
  imports Prelude
begin

text \<open>
  \<open>app/diagnostics/bundle.go\<close>: the support bundle, a list of named entries, and the removal of secrets from
  the documents in it. Reading a regular file, JSON and URLs are arguments; so is which entries the archive accepts.
\<close>

subsection \<open>Removal of secrets\<close>

text \<open>\<open>JAtom\<close>: numbers and truth values.\<close>

datatype json_value = JNull | JText string | JAtom string | JMap "(string \<times> json_value) list" | JList "json_value list"

definition SecretKeys :: "string list" where
  "SecretKeys = [''password'', ''passphrase'', ''secret'', ''token'', ''apiKey'', ''api_key'', ''clientSecret'',
     ''client_secret'', ''privateKey'', ''private_key'', ''sessionPassword'', ''session_password'']"

definition redactedPlaceholder :: string where
  "redactedPlaceholder = ''[REDACTED]''"

definition secret_key :: "(string \<Rightarrow> string) \<Rightarrow> string list \<Rightarrow> string \<Rightarrow> bool" where
  "secret_key ul keys k = list_ex (\<lambda>sk. contains (to_lower ul k) (to_lower ul sk)) keys"

lemma size_map_value: "kv \<in> set m \<Longrightarrow> size (snd kv) < size (JMap m)"
  by (induction m) auto

function redactValue :: "(string \<Rightarrow> string) \<Rightarrow> string list \<Rightarrow> json_value \<Rightarrow> json_value" where
  "redactValue ul keys (JMap m) = JMap (map (\<lambda>kv.
     (fst kv, if secret_key ul keys (fst kv)
        then (if snd kv = JNull \<or> snd kv = JText '''' then snd kv else JText redactedPlaceholder)
        else redactValue ul keys (snd kv))) m)"
| "redactValue ul keys (JList xs) = JList (map (redactValue ul keys) xs)"
| "redactValue ul keys JNull = JNull"
| "redactValue ul keys (JText s) = JText s"
| "redactValue ul keys (JAtom s) = JAtom s"
  by pat_completeness auto

termination
proof (relation "measure (\<lambda>(ul, keys, v). size v)")
  fix ul :: "string \<Rightarrow> string" and keys :: "string list" and m :: "(string \<times> json_value) list" and kv
  assume "kv \<in> set m"
  then show "((ul, keys, snd kv), ul, keys, JMap m) \<in> measure (\<lambda>(ul, keys, v). size v)"
    using size_map_value by simp
next
  fix ul :: "string \<Rightarrow> string" and keys :: "string list" and xs :: "json_value list" and x
  assume "x \<in> set xs"
  then show "((ul, keys, x), ul, keys, JList xs) \<in> measure (\<lambda>(ul, keys, v). size v)"
    using size_list_estimation' [of x xs "size x" size] by simp
qed simp

text \<open>At every depth a secret key holds nothing, the empty text, or the placeholder.\<close>

inductive no_secrets :: "(string \<Rightarrow> string) \<Rightarrow> string list \<Rightarrow> json_value \<Rightarrow> bool" for ul keys where
  "no_secrets ul keys JNull"
| "no_secrets ul keys (JText s)"
| "no_secrets ul keys (JAtom s)"
| "(\<And>x. x \<in> set xs \<Longrightarrow> no_secrets ul keys x) \<Longrightarrow> no_secrets ul keys (JList xs)"
| "(\<And>k v. (k, v) \<in> set m \<Longrightarrow> if secret_key ul keys k then v \<in> {JNull, JText '''', JText redactedPlaceholder}
     else no_secrets ul keys v) \<Longrightarrow> no_secrets ul keys (JMap m)"

inductive_simps no_secrets_simps [simp]:
  "no_secrets ul keys JNull" "no_secrets ul keys (JText s)" "no_secrets ul keys (JAtom s)"

inductive_simps no_secrets_map: "no_secrets ul keys (JMap m)"

inductive_simps no_secrets_list: "no_secrets ul keys (JList xs)"

lemma redactValue_safe: "no_secrets ul keys (redactValue ul keys v)"
proof (induction ul keys v rule: redactValue.induct)
  case (1 ul keys m)
  then show ?case by (auto simp: no_secrets_map)
next
  case (2 ul keys xs)
  then show ?case by (auto simp: no_secrets_list)
qed simp_all

lemma redactValue_again: "no_secrets ul keys v \<Longrightarrow> redactValue ul keys v = v"
proof (induction ul keys v rule: redactValue.induct)
  case (1 ul keys m)
  have "(fst kv, if secret_key ul keys (fst kv)
        then (if snd kv = JNull \<or> snd kv = JText '''' then snd kv else JText redactedPlaceholder)
        else redactValue ul keys (snd kv)) = kv" if "kv \<in> set m" for kv
  proof -
    obtain k v where kv: "kv = (k, v)" by (cases kv)
    then have "if secret_key ul keys k then v \<in> {JNull, JText '''', JText redactedPlaceholder} else no_secrets ul keys v"
      using 1(2) that unfolding no_secrets_map by blast
    then show ?thesis using 1(1) [OF that] kv by (auto split: if_splits)
  qed
  then show ?case by (simp add: map_idI)
next
  case (2 ul keys xs)
  then show ?case by (auto simp: no_secrets_list intro: map_idI)
qed simp_all

text \<open>What is not below a secret key is kept: \<open>json_at\<close> follows keys and positions.\<close>

datatype json_step = AtKey string | AtIndex nat

fun json_at :: "json_step list \<Rightarrow> json_value \<Rightarrow> json_value option" where
  "json_at [] v = Some v"
| "json_at (AtKey k # p) (JMap m) = (case map_of m k of None \<Rightarrow> None | Some v \<Rightarrow> json_at p v)"
| "json_at (AtIndex i # p) (JList xs) = (if i < length xs then json_at p (xs ! i) else None)"
| "json_at _ _ = None"

lemma redactValue_keeps:
  assumes "\<And>k. AtKey k \<in> set p \<Longrightarrow> \<not> secret_key ul keys k"
  shows "json_at p (redactValue ul keys v) = map_option (redactValue ul keys) (json_at p v)"
  using assms
proof (induction p v rule: json_at.induct)
  case (2 k p m)
  have "map_of (map (\<lambda>kv. (fst kv, if secret_key ul keys (fst kv)
        then (if snd kv = JNull \<or> snd kv = JText '''' then snd kv else JText redactedPlaceholder)
        else redactValue ul keys (snd kv))) m) k = map_option (redactValue ul keys) (map_of m k)"
    using 2(2) [of k] by (induction m) auto
  then show ?case using 2 by (auto split: option.split)
qed (auto split: if_splits)

subsection \<open>The bundle\<close>

datatype bundle_content = BundleJSON json_value | BundleBytes "byte list" | BundleNote string

record bundle_inputs =
  bi_SettingsPath :: string
  bi_WorkspacePath :: string
  bi_LogPaths :: "string list"
  bi_LogTailBytes :: int
  bi_PluginRoot :: string

text \<open>\<open>bx_read\<close>: the content of a regular file; \<open>bx_url\<close>: a text that is a URL with user information, without that;
  \<open>bx_base\<close>: \<open>filepath.Base\<close>; \<open>bx_accept\<close>: the archive takes the entry; \<open>bx_plugins\<close>: the directories below the plugin root, each with
  the path of its manifest, if there is one.\<close>

record bundle_env =
  bx_read :: "string \<Rightarrow> byte list option"
  bx_json :: "byte list \<Rightarrow> json_value option"
  bx_url :: "string \<Rightarrow> string option"
  bx_base :: "string \<Rightarrow> string"
  bx_accept :: "string \<Rightarrow> bool"
  bx_plugins :: "string \<Rightarrow> (string \<times> string option) list option"
  bx_lower :: "string \<Rightarrow> string"
  bx_about :: json_value
  bx_os :: json_value
  bx_close :: bool
  bx_ctx :: bool

type_synonym support_bundle = "(string \<times> bundle_content) list"

definition put_entry_if :: "bundle_env \<Rightarrow> string \<Rightarrow> bundle_content \<Rightarrow> support_bundle \<Rightarrow> bool \<times> support_bundle" where
  "put_entry_if E name x b = (if bx_accept E name then (True, b @ [(name, x)]) else (False, b))"

definition strip_urls :: "bundle_env \<Rightarrow> json_value \<Rightarrow> json_value" where
  "strip_urls E v = (case v of
     JMap m \<Rightarrow> JMap (map (\<lambda>(k, x). (k, case x of
         JText s \<Rightarrow> if s \<noteq> '''' then (case bx_url E s of None \<Rightarrow> x | Some t \<Rightarrow> JText t) else x
       | _ \<Rightarrow> x)) m)
   | _ \<Rightarrow> v)"

definition is_object :: "json_value \<Rightarrow> bool" where
  "is_object v = (case v of JMap m \<Rightarrow> True | JNull \<Rightarrow> True | _ \<Rightarrow> False)"

text \<open>The truth value says whether there was no error.\<close>

definition writeRedactedSettings :: "bundle_env \<Rightarrow> string \<Rightarrow> support_bundle \<Rightarrow> bool \<times> support_bundle" where
  "writeRedactedSettings E src b = (case bx_read E src of
     None \<Rightarrow> (False, b)
   | Some raw \<Rightarrow> (case bx_json E raw of
       None \<Rightarrow> put_entry_if E ''settings.json'' (BundleNote ''settings.json not parseable as JSON'') b
     | Some d \<Rightarrow>
         if \<not> is_object d then put_entry_if E ''settings.json'' (BundleNote ''settings.json not parseable as JSON'') b
         else put_entry_if E ''settings.json'' (BundleJSON (strip_urls E (redactValue (bx_lower E) SecretKeys d))) b))"

definition writeRedactedWorkspace :: "bundle_env \<Rightarrow> string \<Rightarrow> support_bundle \<Rightarrow> bool \<times> support_bundle" where
  "writeRedactedWorkspace E src b = (case bx_read E src of
     None \<Rightarrow> (False, b)
   | Some raw \<Rightarrow> (case bx_json E raw of
       None \<Rightarrow> put_entry_if E ''workspace.json'' (BundleNote ''workspace.json not parseable as JSON'') b
     | Some d \<Rightarrow> put_entry_if E ''workspace.json'' (BundleJSON (redactValue (bx_lower E) SecretKeys d)) b))"

definition tail_bytes :: "int \<Rightarrow> byte list \<Rightarrow> byte list" where
  "tail_bytes n data = (if 0 < n \<and> int (length data) > n then drop (length data - nat n) data else data)"

definition copyLogTail :: "bundle_env \<Rightarrow> int \<Rightarrow> string \<Rightarrow> support_bundle \<Rightarrow> bool \<times> support_bundle" where
  "copyLogTail E n path b = (case bx_read E path of
     None \<Rightarrow> (False, b) | Some data \<Rightarrow> put_entry_if E (''logs/'' @ bx_base E path) (BundleBytes (tail_bytes n data)) b)"

fun log_entries :: "bundle_env \<Rightarrow> int \<Rightarrow> string list \<Rightarrow> string list \<times> support_bundle \<Rightarrow> string list \<times> support_bundle" where
  "log_entries E n [] s = s"
| "log_entries E n (p # ps) s =
     (if p = '''' then log_entries E n ps s
      else case copyLogTail E n p (snd s) of (ok, b) \<Rightarrow>
        log_entries E n ps (if ok then fst s else fst s @ [''log '' @ bx_base E p], b))"

fun manifest_entries :: "bundle_env \<Rightarrow> (string \<times> string option) list \<Rightarrow> support_bundle \<Rightarrow> support_bundle" where
  "manifest_entries E [] b = b"
| "manifest_entries E ((name, mp) # ds) b = (case mp of
     None \<Rightarrow> manifest_entries E ds b
   | Some path \<Rightarrow> (case bx_read E path of
       None \<Rightarrow> manifest_entries E ds b
     | Some data \<Rightarrow> manifest_entries E ds (snd (put_entry_if E (''plugins/'' @ name @ ''/manifest.json'') (BundleBytes data) b))))"

definition noted :: "string \<Rightarrow> bool \<times> support_bundle \<Rightarrow> string list \<Rightarrow> string list \<times> support_bundle" where
  "noted n r notes = (if fst r then notes else notes @ [n], snd r)"

definition Build :: "bundle_env \<Rightarrow> bundle_inputs \<Rightarrow> (string list \<times> bool) option \<times> support_bundle" where
  "Build E i = (case put_entry_if E ''manifest.json'' (BundleJSON (bx_about E)) [] of
     (False, b) \<Rightarrow> (None, b)
   | (True, b0) \<Rightarrow>
       (let s1 = (if bi_SettingsPath i \<noteq> '''' then noted ''settings.json: '' (writeRedactedSettings E (bi_SettingsPath i) b0) [] else ([], b0));
            s2 = (if bi_WorkspacePath i \<noteq> ''''
              then noted ''workspace.json: '' (writeRedactedWorkspace E (bi_WorkspacePath i) (snd s1)) (fst s1) else s1);
            s3 = log_entries E (bi_LogTailBytes i) (bi_LogPaths i) s2;
            s4 = (if bi_PluginRoot i \<noteq> '''' then (case bx_plugins E (bi_PluginRoot i) of
                None \<Rightarrow> (fst s3 @ [''plugins: ''], snd s3) | Some ds \<Rightarrow> (fst s3, manifest_entries E ds (snd s3))) else s3);
            s5 = noted ''osinfo: '' (put_entry_if E ''os-info.json'' (BundleJSON (bx_os E)) (snd s4)) (fst s4)
        in if \<not> bx_close E then (None, snd s5) else (Some (fst s5, bx_ctx E), snd s5)))"

definition env_allowed :: "string list" where
  "env_allowed = [''GOREMOTE_LOG_LEVEL'', ''GOREMOTE_STATE_DIR'', ''GOREMOTE_BW_BINARY'', ''GOOS'', ''GOARCH'', ''LANG'',
     ''LC_ALL'', ''TERM'']"

definition bundledEnv :: "string list \<Rightarrow> string \<rightharpoonup> string" where
  "bundledEnv environ = fold (\<lambda>kv m. let k = takeWhile (\<lambda>c. c \<noteq> CHR ''='') kv in
     if CHR ''='' \<notin> set kv then m
     else if k \<in> set env_allowed then m(k \<mapsto> drop (length k + 1) kv) else m) environ Map.empty"

subsection \<open>What leaves the machine\<close>

text \<open>The two documents, as they are found in the bundle.\<close>

definition safe_entry :: "bundle_env \<Rightarrow> string \<times> bundle_content \<Rightarrow> bool" where
  "safe_entry E e \<longleftrightarrow> (case snd e of
     BundleJSON v \<Rightarrow> fst e \<in> {''settings.json'', ''workspace.json''} \<longrightarrow> no_secrets (bx_lower E) SecretKeys v \<and>
       (fst e = ''settings.json'' \<longrightarrow> (\<forall>k s. json_at [AtKey k] v = Some (JText s) \<longrightarrow> bx_url E s = None \<or> (\<exists>s0. bx_url E s0 = Some s)))
   | _ \<Rightarrow> True)"

text \<open>Neither the placeholder nor the empty text is a URL with user information.\<close>

definition url_ok :: "bundle_env \<Rightarrow> bool" where
  "url_ok E \<longleftrightarrow> bx_url E redactedPlaceholder = None \<and> bx_url E '''' = None"

lemma placeholder: "redactedPlaceholder \<noteq> []"
  by (simp add: redactedPlaceholder_def)

lemma strip_urls_safe:
  assumes "url_ok E" "no_secrets ul keys v" "is_object v"
    "bx_url E redactedPlaceholder = None"
  shows "no_secrets ul keys (strip_urls E v)"
proof (cases v)
  case (JMap m)
  have each: "if secret_key ul keys k then y \<in> {JNull, JText '''', JText redactedPlaceholder} else no_secrets ul keys y"
    if "(k, x) \<in> set m" "y = (case x of JText s \<Rightarrow> if s \<noteq> '''' then (case bx_url E s of None \<Rightarrow> x | Some t \<Rightarrow> JText t) else x | _ \<Rightarrow> x)"
    for k x y
  proof -
    have x: "if secret_key ul keys k then x \<in> {JNull, JText '''', JText redactedPlaceholder} else no_secrets ul keys x"
      using assms(2) that(1) unfolding JMap no_secrets_map by blast
    show ?thesis
    proof (cases "secret_key ul keys k")
      case True
      then show ?thesis using x that(2) assms(4) placeholder by auto
    next
      case False
      then show ?thesis using x that(2) by (cases x) (auto split: option.split)
    qed
  qed
  show ?thesis unfolding JMap strip_urls_def json_value.case no_secrets_map
  proof (intro allI impI)
    fix k y
    assume "(k, y) \<in> set (map (\<lambda>(k, x). (k, case x of JText s \<Rightarrow>
      if s \<noteq> '''' then (case bx_url E s of None \<Rightarrow> x | Some t \<Rightarrow> JText t) else x | _ \<Rightarrow> x)) m)"
    then show "if secret_key ul keys k then y \<in> {JNull, JText '''', JText redactedPlaceholder} else no_secrets ul keys y"
      using each by fastforce
  qed
qed (use assms(2,3) in \<open>simp_all add: strip_urls_def is_object_def\<close>)

lemma strip_urls_none:
  assumes "url_ok E" "json_at [AtKey k] (strip_urls E v) = Some (JText s)"
  shows "bx_url E s = None \<or> (\<exists>s0. bx_url E s0 = Some s)"
proof (cases v)
  case (JMap m)
  let ?f = "\<lambda>x. case x of JText s \<Rightarrow> if s \<noteq> '''' then (case bx_url E s of None \<Rightarrow> x | Some t \<Rightarrow> JText t) else x | _ \<Rightarrow> x"
  have "map_of (map (\<lambda>(k, x). (k, ?f x)) m) k = map_option ?f (map_of m k)" by (simp only: map_of_map o_apply)
  with assms(2) obtain x where x: "?f x = JText s" by (auto simp: JMap strip_urls_def split: option.splits)
  then obtain s0 where s0: "x = JText s0" by (cases x) auto
  show ?thesis
  proof (cases "bx_url E s0")
    case None
    then show ?thesis using x s0 by (auto split: if_splits)
  next
    case (Some t)
    moreover have "s0 \<noteq> ''''" using Some assms(1) by (auto simp: url_ok_def)
    ultimately have "s = t" using x s0 by simp
    then show ?thesis using Some by blast
  qed
qed (use assms(2) in \<open>simp_all add: strip_urls_def\<close>)

lemma put_entry_safe: "list_all (safe_entry E) b \<Longrightarrow> safe_entry E (name, x) \<Longrightarrow> list_all (safe_entry E) (snd (put_entry_if E name x b))"
  by (simp add: put_entry_if_def)

lemma settings_safe:
  "url_ok E \<Longrightarrow> list_all (safe_entry E) b \<Longrightarrow> list_all (safe_entry E) (snd (writeRedactedSettings E src b))"
proof -
  assume u: "url_ok E" and b: "list_all (safe_entry E) b"
  have obj: "is_object (redactValue ul keys d)" if "is_object d" for ul keys d
    using that by (cases d) (simp_all add: is_object_def)
  have "safe_entry E (''settings.json'', BundleJSON (strip_urls E (redactValue (bx_lower E) SecretKeys d)))" if "is_object d" for d
    using strip_urls_safe [OF u redactValue_safe obj [OF that]] u strip_urls_none [OF u]
    by (simp add: safe_entry_def url_ok_def del: json_at.simps)
  moreover have "safe_entry E (''settings.json'', BundleNote n)" for n by (simp add: safe_entry_def)
  ultimately show ?thesis using b by (auto simp: writeRedactedSettings_def intro!: put_entry_safe split: option.split)
qed

lemma workspace_safe: "list_all (safe_entry E) b \<Longrightarrow> list_all (safe_entry E) (snd (writeRedactedWorkspace E src b))"
  by (auto simp: writeRedactedWorkspace_def safe_entry_def redactValue_safe intro!: put_entry_safe split: option.split)

lemma bytes_safe: "safe_entry E (name, BundleBytes d)"
  by (simp add: safe_entry_def)

lemma log_entries_safe: "list_all (safe_entry E) (snd s) \<Longrightarrow> list_all (safe_entry E) (snd (log_entries E n ps s))"
proof (induction E n ps s rule: log_entries.induct)
  case (2 E n p ps s)
  have "list_all (safe_entry E) (snd (copyLogTail E n p (snd s)))"
    using 2(3) by (auto simp: copyLogTail_def bytes_safe intro!: put_entry_safe split: option.split)
  then show ?case using 2 by (auto split: prod.split)
qed simp

lemma manifest_entries_safe: "list_all (safe_entry E) b \<Longrightarrow> list_all (safe_entry E) (manifest_entries E ds b)"
proof (induction E ds b rule: manifest_entries.induct)
  case (2 E name mp ds b)
  have "list_all (safe_entry E) (snd (put_entry_if E (''plugins/'' @ name @ ''/manifest.json'') (BundleBytes d) b))" for d
    by (rule put_entry_safe [OF 2(4) bytes_safe])
  then show ?case using 2 by (simp split: option.split)
qed simp

lemma noted_snd: "snd (noted n r notes) = snd r"
  by (simp add: noted_def)

lemma Build_safe:
  assumes u: "url_ok E" and r: "Build E i = (r, b)"
  shows "list_all (safe_entry E) b"
proof -
  let ?safe = "list_all (safe_entry E)"
  have other: "safe_entry E (''manifest.json'', x)" "safe_entry E (''os-info.json'', x)" for x
    by (simp_all add: safe_entry_def split: bundle_content.split)
  obtain ok b0 where p: "put_entry_if E ''manifest.json'' (BundleJSON (bx_about E)) [] = (ok, b0)" by fastforce
  have b0: "?safe b0" using put_entry_safe [of E "[]", OF _ other(1)] p by (metis list.pred_inject(1) snd_conv)
  show ?thesis
  proof (cases ok)
    case False
    then show ?thesis using r p b0 by (simp add: Build_def)
  next
    case True
    define s1 where "s1 = (if bi_SettingsPath i \<noteq> ''''
      then noted ''settings.json: '' (writeRedactedSettings E (bi_SettingsPath i) b0) [] else ([], b0))"
    define s2 where "s2 = (if bi_WorkspacePath i \<noteq> ''''
      then noted ''workspace.json: '' (writeRedactedWorkspace E (bi_WorkspacePath i) (snd s1)) (fst s1) else s1)"
    define s3 where "s3 = log_entries E (bi_LogTailBytes i) (bi_LogPaths i) s2"
    define s4 where "s4 = (if bi_PluginRoot i \<noteq> '''' then (case bx_plugins E (bi_PluginRoot i) of
      None \<Rightarrow> (fst s3 @ [''plugins: ''], snd s3) | Some ds \<Rightarrow> (fst s3, manifest_entries E ds (snd s3))) else s3)"
    define s5 where "s5 = noted ''osinfo: '' (put_entry_if E ''os-info.json'' (BundleJSON (bx_os E)) (snd s4)) (fst s4)"
    have 1: "?safe (snd s1)" using b0 settings_safe [OF u b0] by (simp add: s1_def noted_snd)
    have 2: "?safe (snd s2)" using 1 workspace_safe [OF 1] by (simp add: s2_def noted_snd)
    have 3: "?safe (snd s3)" using log_entries_safe [OF 2] by (simp add: s3_def)
    have 4: "?safe (snd s4)" using 3 manifest_entries_safe [OF 3] by (simp add: s4_def split: option.split)
    have 5: "?safe (snd s5)" using put_entry_safe [OF 4 other(2)] by (simp add: s5_def noted_snd)
    have "b = snd s5"
      using r True unfolding Build_def p s5_def s4_def s3_def s2_def s1_def Let_def by (simp split: if_splits)
    then show ?thesis using 5 by simp
  qed
qed

text \<open>Of the environment only the listed variables are bundled.\<close>

lemma bundledEnv_allowed: "bundledEnv environ k = Some v \<Longrightarrow> k \<in> set env_allowed"
proof -
  have "fold (\<lambda>kv m. let k = takeWhile (\<lambda>c. c \<noteq> CHR ''='') kv in if CHR ''='' \<notin> set kv then m
      else if k \<in> set env_allowed then m(k \<mapsto> drop (length k + 1) kv) else m) environ m k = Some v \<Longrightarrow>
      m k = None \<Longrightarrow> k \<in> set env_allowed" for m
  proof (induction environ arbitrary: m)
    case (Cons kv environ)
    let ?n = "takeWhile (\<lambda>c. c \<noteq> CHR ''='') kv"
    show ?case
    proof (cases "k = ?n \<and> ?n \<in> set env_allowed")
      case False
      then show ?thesis using Cons.IH Cons.prems by (auto simp: Let_def fun_upd_other split: if_splits)
    qed simp
  qed simp
  then show "bundledEnv environ k = Some v \<Longrightarrow> k \<in> set env_allowed" by (simp add: bundledEnv_def)
qed

end
