(* ===== verification/CredentialKeychain.thy ===== *)
theory CredentialKeychain
  imports VaultProvider "HOL-Library.AList"
begin

text \<open>
  \<open>plugins/credential-keychain\<close>: credentials in the key chain of the operating system, and an index file that
  lists them. The key chain itself, JSON and the choice of new identifiers are arguments; every method holds the
  provider's lock, so a method is one step. The index is a list of pairs; \<open>order\<close> is the order in which one iteration of the map
  meets them.
\<close>

subsection \<open>The index file\<close>

record index_entry =
  ie_Reference :: Reference
  ie_UpdatedAt :: time

type_synonym kc_index = "(string \<times> index_entry) list"

record index_fs =
  xf_file :: "byte list option"
  xf_tmp :: "byte list option"

datatype index_call = XRead | XMkdir | XOpen | XWrite | XSync | XClose | XRename | XRemoveTmp

datatype kc_error = KeychainNotFound | KeychainUnavailable | KeychainTooBig

datatype keychain_error = NoDataDir | IndexFailed index_call | IndexDecode | IndexEncode | ProbeFailed kc_error
  | CredentialNotFound | KeychainGet kc_error | KeychainSet kc_error | KeychainDelete kc_error | StoredDecode | StoredEncode

datatype wire_value = WireText string | WireBytes "byte list" | WireMap hints

text \<open>\<open>'k\<close>: the state of the key chain; \<open>'r\<close>: a JSON value that is not decoded yet.\<close>

record ('k, 'r) kc_env =
  ke_get :: "'k \<Rightarrow> string \<Rightarrow> kc_error + string"
  ke_set :: "string \<Rightarrow> string \<Rightarrow> 'k \<Rightarrow> kc_error option \<times> 'k"
  ke_del :: "string \<Rightarrow> 'k \<Rightarrow> kc_error option \<times> 'k"
  ke_marshal :: "(string \<times> wire_value) list \<Rightarrow> string option"
  ke_unmarshal :: "string \<Rightarrow> (string \<rightharpoonup> 'r) option"
  ke_text :: "'r \<Rightarrow> string option"
  ke_bytes :: "'r \<Rightarrow> byte list option"
  ke_map :: "'r \<Rightarrow> hints option"
  ke_index_of :: "byte list \<Rightarrow> kc_index option"
  ke_index :: "kc_index \<Rightarrow> byte list option"

definition loadIndex :: "('k, 'r) kc_env \<Rightarrow> (index_call \<Rightarrow> bool) \<Rightarrow> index_fs \<Rightarrow> keychain_error + kc_index" where
  "loadIndex E ok fs = (case xf_file fs of
     None \<Rightarrow> Inr []
   | Some data \<Rightarrow> if \<not> ok XRead then Inl (IndexFailed XRead)
       else (case ke_index_of E data of None \<Rightarrow> Inl IndexDecode | Some idx \<Rightarrow> Inr idx))"

text \<open>\<open>part\<close>: what a failing write left. The sync of the directory is best effort.\<close>

definition saveIndex :: "('k, 'r) kc_env \<Rightarrow> (index_call \<Rightarrow> bool) \<Rightarrow> byte list \<Rightarrow> kc_index \<Rightarrow> index_fs \<Rightarrow>
    keychain_error option \<times> index_fs" where
  "saveIndex E ok part idx fs = (case ke_index E idx of
     None \<Rightarrow> (Some IndexEncode, fs)
   | Some payload \<Rightarrow>
       (let cleanup = (\<lambda>c b. (Some (IndexFailed c), fs\<lparr>xf_tmp := (if ok XRemoveTmp then None else Some b)\<rparr>)) in
        if \<not> ok XMkdir then (Some (IndexFailed XMkdir), fs)
        else if \<not> ok XOpen then (Some (IndexFailed XOpen), fs)
        else if \<not> ok XWrite then cleanup XWrite part
        else if \<not> ok XSync then cleanup XSync payload
        else if \<not> ok XClose then cleanup XClose payload
        else if \<not> ok XRename then cleanup XRename payload
        else (None, fs\<lparr>xf_file := Some payload, xf_tmp := None\<rparr>)))"

subsection \<open>Stored credentials\<close>

record stored_credential =
  sc_User :: string
  sc_Pass :: string
  sc_Realm :: string
  sc_KeyData :: "byte list"
  sc_Phrase :: string
  sc_Code :: string
  sc_Metadata :: hints

definition stored_wire :: "stored_credential \<Rightarrow> (string \<times> wire_value) list" where
  "stored_wire s =
     (if sc_User s \<noteq> '''' then [(''u'', WireText (sc_User s))] else []) @
     (if sc_Pass s \<noteq> '''' then [(''p'', WireText (sc_Pass s))] else []) @
     (if sc_Realm s \<noteq> '''' then [(''d'', WireText (sc_Realm s))] else []) @
     (if length (sc_KeyData s) > 0 then [(''k'', WireBytes (sc_KeyData s))] else []) @
     (if sc_Phrase s \<noteq> '''' then [(''h'', WireText (sc_Phrase s))] else []) @
     (if sc_Code s \<noteq> '''' then [(''o'', WireText (sc_Code s))] else []) @
     (if map_len (sc_Metadata s) > 0 then [(''x'', WireMap (sc_Metadata s))] else [])"

definition encodeStoredCredential :: "('k, 'r) kc_env \<Rightarrow> stored_credential \<Rightarrow> string option" where
  "encodeStoredCredential E s = ke_marshal E (stored_wire s)"

fun decodeRawJSONField :: "(string \<rightharpoonup> 'r) \<Rightarrow> ('r \<Rightarrow> 'a option) \<Rightarrow> 'a \<Rightarrow> string list \<Rightarrow> 'a option" where
  "decodeRawJSONField raw dec z [] = Some z"
| "decodeRawJSONField raw dec z (k # ks) = (case raw k of
     Some r \<Rightarrow> dec r | None \<Rightarrow> decodeRawJSONField raw dec z ks)"

definition decodeStoredCredential :: "('k, 'r) kc_env \<Rightarrow> string \<Rightarrow> stored_credential option" where
  "decodeStoredCredential E data = (case ke_unmarshal E data of None \<Rightarrow> None | Some raw \<Rightarrow>
     Option.bind (decodeRawJSONField raw (ke_text E) '''' [''u'', ''username'']) (\<lambda>u.
     Option.bind (decodeRawJSONField raw (ke_text E) '''' [''p'', ''password'']) (\<lambda>p.
     Option.bind (decodeRawJSONField raw (ke_text E) '''' [''d'', ''domain'']) (\<lambda>d.
     Option.bind (decodeRawJSONField raw (ke_bytes E) [] [''k'', ''private_key'']) (\<lambda>k.
     Option.bind (decodeRawJSONField raw (ke_text E) '''' [''h'', ''passphrase'']) (\<lambda>h.
     Option.bind (decodeRawJSONField raw (ke_text E) '''' [''o'', ''otp'']) (\<lambda>c.
     Option.bind (decodeRawJSONField raw (ke_map E) None [''x'', ''extra'']) (\<lambda>x.
       Some \<lparr>sc_User = u, sc_Pass = p, sc_Realm = d, sc_KeyData = k, sc_Phrase = h, sc_Code = c, sc_Metadata = x\<rparr>))))))))"

subsection \<open>The provider\<close>

definition probeAccount :: string where "probeAccount = ''__probe__''"
definition probeValue :: string where "probeValue = ''goremote-keychain-probe''"
definition keychain_ManifestID :: string where "keychain_ManifestID = ''io.goremote.credential.keychain''"

definition probeKeychain :: "('k, 'r) kc_env \<Rightarrow> 'k \<Rightarrow> kc_error option \<times> 'k" where
  "probeKeychain E k = (case ke_get E k probeAccount of
     Inr s \<Rightarrow> (None, k)
   | Inl KeychainNotFound \<Rightarrow> (case ke_set E probeAccount probeValue k of
         (Some e, k1) \<Rightarrow> (Some e, k1)
       | (None, k1) \<Rightarrow> (case ke_get E k1 probeAccount of Inl e \<Rightarrow> (Some e, k1) | Inr s \<Rightarrow> (None, k1)))
   | Inl e \<Rightarrow> (Some e, k))"

definition keychain_State :: "('k, 'r) kc_env \<Rightarrow> bool \<Rightarrow> 'k \<Rightarrow> vault_state \<times> 'k" where
  "keychain_State E dir_ok k = (if \<not> dir_ok then (StateNotConfigured, k)
     else case probeKeychain E k of (Some e, k1) \<Rightarrow> (StateFailed, k1) | (None, k1) \<Rightarrow> (StateUnlocked, k1))"

text \<open>The provider's state: the index in memory, the key chain, the index file.\<close>

type_synonym 'k kc_state = "kc_index \<times> 'k \<times> index_fs"

definition keychain_New :: kc_index where "keychain_New = []"

definition keychain_Unlock :: "('k, 'r) kc_env \<Rightarrow> bool \<Rightarrow> (index_call \<Rightarrow> bool) \<Rightarrow> 'k kc_state \<Rightarrow> keychain_error option \<times> 'k kc_state" where
  "keychain_Unlock E dir_ok ok s = (case s of (idx, k, fs) \<Rightarrow>
     (if \<not> dir_ok then (Some NoDataDir, s)
      else case loadIndex E ok fs of
        Inl e \<Rightarrow> (Some e, s)
      | Inr idx1 \<Rightarrow> (case probeKeychain E k of
          (Some e, k1) \<Rightarrow> (Some (ProbeFailed e), (idx1, k1, fs)) | (None, k1) \<Rightarrow> (None, (idx1, k1, fs)))))"

definition keychain_Lock :: "'k kc_state \<Rightarrow> 'k kc_state" where
  "keychain_Lock s = (case s of (idx, k, fs) \<Rightarrow> ([], k, fs))"

definition keychain_ref :: "string \<Rightarrow> hints \<Rightarrow> Reference" where
  "keychain_ref i h = \<lparr>ProviderID = keychain_ManifestID, EntryID = i, Hints = h\<rparr>"

definition keychain_find :: "(kc_index \<Rightarrow> kc_index) \<Rightarrow> kc_index \<Rightarrow> Reference \<Rightarrow> (string \<times> hints) option" where
  "keychain_find order idx ref =
     (if EntryID ref = '''' then
        (if map_len (Hints ref) = 0 then None
         else map_option (\<lambda>(i, e). (EntryID (ie_Reference e), Hints (ie_Reference e)))
           (find (\<lambda>(i, e). matchHints (Hints (ie_Reference e)) (Hints ref)) (order idx)))
      else case map_of idx (EntryID ref) of
        None \<Rightarrow> Some (EntryID ref, None) | Some e \<Rightarrow> Some (EntryID ref, Hints (ie_Reference e)))"

definition stored_material :: "string \<Rightarrow> hints \<Rightarrow> stored_credential \<Rightarrow> Material" where
  "stored_material i h s = \<lparr>mt_Reference = keychain_ref i h, mt_Username = sc_User s, mt_Password = sc_Pass s,
     mt_Domain = sc_Realm s, mt_PrivateKey = sc_KeyData s, mt_Passphrase = sc_Phrase s, mt_OTP = sc_Code s,
     mt_Extra = sc_Metadata s, mt_Fields = None, mt_ExpiresAt = 0\<rparr>"

definition keychain_Resolve :: "('k, 'r) kc_env \<Rightarrow> (kc_index \<Rightarrow> kc_index) \<Rightarrow> Reference \<Rightarrow> 'k kc_state \<Rightarrow> keychain_error + Material" where
  "keychain_Resolve E order ref s = (case s of (idx, k, fs) \<Rightarrow> (case keychain_find order idx ref of
     None \<Rightarrow> Inl CredentialNotFound
   | Some (i, h) \<Rightarrow> (case ke_get E k i of
       Inl KeychainNotFound \<Rightarrow> Inl CredentialNotFound
     | Inl e \<Rightarrow> Inl (KeychainGet e)
     | Inr raw \<Rightarrow> (case decodeStoredCredential E raw of
         None \<Rightarrow> Inl StoredDecode | Some c \<Rightarrow> Inr (stored_material i h c)))))"

definition keychain_List :: "(kc_index \<Rightarrow> kc_index) \<Rightarrow> 'k kc_state \<Rightarrow> Reference list" where
  "keychain_List order s = map (\<lambda>(i, e). keychain_ref (EntryID (ie_Reference e)) (Hints (ie_Reference e))) (order (fst s))"

definition persistLocked :: "('k, 'r) kc_env \<Rightarrow> bool \<Rightarrow> (index_call \<Rightarrow> bool) \<Rightarrow> byte list \<Rightarrow> kc_index \<Rightarrow> index_fs \<Rightarrow>
    keychain_error option \<times> index_fs" where
  "persistLocked E dir_ok ok part idx fs = (if \<not> dir_ok then (Some NoDataDir, fs) else saveIndex E ok part idx fs)"

definition material_stored :: "Material \<Rightarrow> stored_credential" where
  "material_stored m = \<lparr>sc_User = mt_Username m, sc_Pass = mt_Password m, sc_Realm = mt_Domain m,
     sc_KeyData = mt_PrivateKey m, sc_Phrase = mt_Passphrase m, sc_Code = mt_OTP m, sc_Metadata = mt_Extra m\<rparr>"

text \<open>\<open>new\<close>: a new identifier.\<close>

definition keychain_Put :: "('k, 'r) kc_env \<Rightarrow> bool \<Rightarrow> (index_call \<Rightarrow> bool) \<Rightarrow> byte list \<Rightarrow> string \<Rightarrow> time \<Rightarrow> Material \<Rightarrow>
    'k kc_state \<Rightarrow> (keychain_error + Reference) \<times> 'k kc_state" where
  "keychain_Put E dir_ok ok part new now m s = (case s of (idx, k, fs) \<Rightarrow>
     (let i = (if EntryID (mt_Reference m) = '''' then new else EntryID (mt_Reference m)) in
      case encodeStoredCredential E (material_stored m) of
        None \<Rightarrow> (Inl StoredEncode, s)
      | Some payload \<Rightarrow> (case ke_set E i payload k of
          (Some e, k1) \<Rightarrow> (Inl (KeychainSet e), (idx, k1, fs))
        | (None, k1) \<Rightarrow> (let ref = keychain_ref i (Hints (mt_Reference m));
              idx1 = AList.update i \<lparr>ie_Reference = ref, ie_UpdatedAt = now\<rparr> idx in
            case persistLocked E dir_ok ok part idx1 fs of
              (Some e, fs1) \<Rightarrow> (Inl e, (idx1, k1, fs1)) | (None, fs1) \<Rightarrow> (Inr ref, (idx1, k1, fs1))))))"

definition keychain_Delete :: "('k, 'r) kc_env \<Rightarrow> bool \<Rightarrow> (index_call \<Rightarrow> bool) \<Rightarrow> byte list \<Rightarrow> Reference \<Rightarrow>
    'k kc_state \<Rightarrow> keychain_error option \<times> 'k kc_state" where
  "keychain_Delete E dir_ok ok part ref s = (case s of (idx, k, fs) \<Rightarrow>
     (let i = EntryID ref in
      if i = '''' then (Some CredentialNotFound, s)
      else case map_of idx i of
        None \<Rightarrow> (case ke_del E i k of
            (None, k1) \<Rightarrow> (case persistLocked E dir_ok ok part idx fs of (e, fs1) \<Rightarrow> (e, (idx, k1, fs1)))
          | (Some KeychainNotFound, k1) \<Rightarrow> (Some CredentialNotFound, (idx, k1, fs))
          | (Some e, k1) \<Rightarrow> (Some (KeychainDelete e), (idx, k1, fs)))
      | Some entry0 \<Rightarrow> (case ke_del E i k of
            (Some e, k1) \<Rightarrow>
              (if e \<noteq> KeychainNotFound then (Some (KeychainDelete e), (idx, k1, fs))
               else (let idx1 = AList.delete i idx in
                 case persistLocked E dir_ok ok part idx1 fs of (e, fs1) \<Rightarrow> (e, (idx1, k1, fs1))))
          | (None, k1) \<Rightarrow> (let idx1 = AList.delete i idx in
               case persistLocked E dir_ok ok part idx1 fs of (e, fs1) \<Rightarrow> (e, (idx1, k1, fs1))))))"

subsection \<open>What a successful call leaves\<close>

text \<open>The key chain: a value that was stored is read back, one that was removed is gone, others stay.\<close>

definition keychain_ok :: "('k, 'r) kc_env \<Rightarrow> bool" where
  "keychain_ok E \<longleftrightarrow>
     (\<forall>i v k k1. ke_set E i v k = (None, k1) \<longrightarrow> ke_get E k1 = (ke_get E k)(i := Inr v)) \<and>
     (\<forall>i k k1. ke_del E i k = (None, k1) \<longrightarrow> ke_get E k1 = (ke_get E k)(i := Inl KeychainNotFound)) \<and>
     (\<forall>i k k1. ke_del E i k = (Some KeychainNotFound, k1) \<longrightarrow>
        ke_get E k1 = ke_get E k \<and> ke_get E k i = Inl KeychainNotFound)"

text \<open>JSON: an object is read back key by key, for values without characters that JSON replaces.\<close>

definition wire_reads :: "('k, 'r) kc_env \<Rightarrow> 'r \<Rightarrow> wire_value \<Rightarrow> bool" where
  "wire_reads E r v = (case v of WireText t \<Rightarrow> ke_text E r = Some t
     | WireBytes b \<Rightarrow> ke_bytes E r = Some b | WireMap m \<Rightarrow> ke_map E r = Some m)"

definition json_reads :: "('k, 'r) kc_env \<Rightarrow> (wire_value \<Rightarrow> bool) \<Rightarrow> bool" where
  "json_reads E fine \<longleftrightarrow> (\<forall>w p. (\<forall>(k, v)\<in>set w. fine v) \<and> distinct (map fst w) \<and> ke_marshal E w = Some p \<longrightarrow>
     (\<exists>raw. ke_unmarshal E p = Some raw \<and> (\<forall>k. rel_option (wire_reads E) (raw k) (map_of w k))))"

definition stored_back :: "stored_credential \<Rightarrow> stored_credential" where
  "stored_back s = s\<lparr>sc_Metadata := (if map_len (sc_Metadata s) > 0 then sc_Metadata s else None)\<rparr>"

lemma stored_back_extra:
  "sc_Metadata (stored_back s) = (if map_len (sc_Metadata s) > 0 then sc_Metadata s else None)"
  by (simp add: stored_back_def)

lemma map_of_opt: "map_of (if b then [(k, v)] else []) = (if b then [k \<mapsto> v] else Map.empty)"
  by simp

lemma stored_wire_fields:
  "map_of (stored_wire s) ''u'' = (if sc_User s \<noteq> '''' then Some (WireText (sc_User s)) else None)"
  "map_of (stored_wire s) ''p'' = (if sc_Pass s \<noteq> '''' then Some (WireText (sc_Pass s)) else None)"
  "map_of (stored_wire s) ''d'' = (if sc_Realm s \<noteq> '''' then Some (WireText (sc_Realm s)) else None)"
  "map_of (stored_wire s) ''k'' = (if sc_KeyData s \<noteq> [] then Some (WireBytes (sc_KeyData s)) else None)"
  "map_of (stored_wire s) ''h'' = (if sc_Phrase s \<noteq> '''' then Some (WireText (sc_Phrase s)) else None)"
  "map_of (stored_wire s) ''o'' = (if sc_Code s \<noteq> '''' then Some (WireText (sc_Code s)) else None)"
  "map_of (stored_wire s) ''x'' = (if map_len (sc_Metadata s) > 0 then Some (WireMap (sc_Metadata s)) else None)"
  unfolding stored_wire_def map_of_append map_of_opt by (simp_all add: map_add_def split: if_splits)

lemma stored_wire_keys: "set (map fst (stored_wire s)) \<subseteq> {''u'', ''p'', ''d'', ''k'', ''h'', ''o'', ''x''}"
  by (auto simp: stored_wire_def)

lemma stored_wire_long: "k \<notin> {''u'', ''p'', ''d'', ''k'', ''h'', ''o'', ''x''} \<Longrightarrow> map_of (stored_wire s) k = None"
  using stored_wire_keys[of s] by (auto simp: map_of_eq_None_iff)

lemma stored_wire_distinct: "distinct (map fst (stored_wire s))"
  by (simp add: stored_wire_def)

lemma field_reads:
  assumes "rel_option (wire_reads E) (raw a) (if c then Some v else None)" "raw b = None"
    "\<And>r. c \<Longrightarrow> wire_reads E r v \<Longrightarrow> dec r = Some x" "\<not> c \<Longrightarrow> x = z"
  shows "decodeRawJSONField raw dec z [a, b] = Some x"
  using assms by (cases "raw a") (auto split: if_splits)

lemma stored_reads_back:
  assumes "json_reads E fine" "\<forall>(k, v)\<in>set (stored_wire s). fine v" "encodeStoredCredential E s = Some p"
  shows "decodeStoredCredential E p = Some (stored_back s)"
proof -
  obtain raw where raw: "ke_unmarshal E p = Some raw"
    and rel: "\<And>k. rel_option (wire_reads E) (raw k) (map_of (stored_wire s) k)"
    using assms stored_wire_distinct[of s] unfolding json_reads_def encodeStoredCredential_def by meson
  have long: "raw k = None" if "k \<notin> {''u'', ''p'', ''d'', ''k'', ''h'', ''o'', ''x''}" for k
    using rel[of k] stored_wire_long[OF that] by simp
  note f = rel[of "''u''"] rel[of "''p''"] rel[of "''d''"] rel[of "''k''"] rel[of "''h''"] rel[of "''o''"] rel[of "''x''"]
  note reads = f[unfolded stored_wire_fields, THEN field_reads[where raw = raw]]
  have "decodeRawJSONField raw (ke_text E) '''' [''u'', ''username''] = Some (sc_User s)"
    "decodeRawJSONField raw (ke_text E) '''' [''p'', ''password''] = Some (sc_Pass s)"
    "decodeRawJSONField raw (ke_text E) '''' [''d'', ''domain''] = Some (sc_Realm s)"
    "decodeRawJSONField raw (ke_bytes E) [] [''k'', ''private_key''] = Some (sc_KeyData s)"
    "decodeRawJSONField raw (ke_text E) '''' [''h'', ''passphrase''] = Some (sc_Phrase s)"
    "decodeRawJSONField raw (ke_text E) '''' [''o'', ''otp''] = Some (sc_Code s)"
    by (rule reads; simp add: long wire_reads_def)+
  moreover have "decodeRawJSONField raw (ke_map E) None [''x'', ''extra''] = Some (sc_Metadata (stored_back s))"
    by (rule reads(7)) (use stored_back_extra[of s] in \<open>auto simp: long wire_reads_def simp del: map_len_simps\<close>)
  ultimately show ?thesis
    by (simp add: decodeStoredCredential_def raw stored_back_def)
qed

lemma persistLocked_ok:
  assumes "persistLocked E dir_ok ok part idx fs = (None, fs1)"
  shows "\<exists>d. ke_index E idx = Some d \<and> fs1 = fs\<lparr>xf_file := Some d, xf_tmp := None\<rparr>"
  using assms by (auto simp: persistLocked_def saveIndex_def Let_def split: if_splits option.splits)

lemma keychain_Put_ok:
  assumes "keychain_Put E dir_ok ok part new now m (idx, k, fs) = (Inr ref, s1)"
  shows "\<exists>p k1 d. encodeStoredCredential E (material_stored m) = Some p \<and> ke_set E (EntryID ref) p k = (None, k1) \<and>
    ref = keychain_ref (if EntryID (mt_Reference m) = '''' then new else EntryID (mt_Reference m)) (Hints (mt_Reference m)) \<and>
    ke_index E (AList.update (EntryID ref) \<lparr>ie_Reference = ref, ie_UpdatedAt = now\<rparr> idx) = Some d \<and>
    s1 = (AList.update (EntryID ref) \<lparr>ie_Reference = ref, ie_UpdatedAt = now\<rparr> idx, k1,
          fs\<lparr>xf_file := Some d, xf_tmp := None\<rparr>)"
  using assms
  by (auto simp: keychain_Put_def Let_def keychain_ref_def dest!: persistLocked_ok split: option.splits prod.splits)

lemma keychain_Resolve_id:
  assumes "EntryID ref \<noteq> ''''" "ke_get E k (EntryID ref) = Inr p" "decodeStoredCredential E p = Some c"
  shows "\<exists>h. keychain_Resolve E order ref (idx, k, fs) = Inr (stored_material (EntryID ref) h c)"
  using assms by (auto simp: keychain_Resolve_def keychain_find_def split: option.splits)

text \<open>What was put is resolved by its identifier, whatever index the provider holds when it is asked.\<close>

lemma put_then_resolve:
  assumes "keychain_ok E" "json_reads E fine" "\<forall>(k, v)\<in>set (stored_wire (material_stored m)). fine v" "new \<noteq> ''''"
    and put: "keychain_Put E dir_ok ok part new now m (idx, k, fs) = (Inr ref, (idx1, k1, fs1))"
  shows "\<exists>h. keychain_Resolve E order (keychain_ref (EntryID ref) h1) (idx2, k1, fs2) =
    Inr (stored_material (EntryID ref) h (stored_back (material_stored m)))"
proof -
  obtain p where p: "encodeStoredCredential E (material_stored m) = Some p" "ke_set E (EntryID ref) p k = (None, k1)"
    and ref: "ref = keychain_ref (if EntryID (mt_Reference m) = '''' then new else EntryID (mt_Reference m)) (Hints (mt_Reference m))"
    using keychain_Put_ok[OF put] by auto
  have "EntryID ref \<noteq> ''''"
    using assms(4) by (simp add: ref keychain_ref_def)
  moreover have "ke_get E k1 (EntryID ref) = Inr p"
    using assms(1) p(2) by (simp add: keychain_ok_def)
  moreover have "decodeStoredCredential E p = Some (stored_back (material_stored m))"
    by (rule stored_reads_back[OF assms(2,3) p(1)])
  ultimately show ?thesis
    using keychain_Resolve_id[of "keychain_ref (EntryID ref) h1" E k1 p] by (simp add: keychain_ref_def)
qed

text \<open>A deleted entry is gone from the index, from the key chain and from the index file.\<close>

lemma keychain_del_gone:
  assumes "keychain_ok E" "ke_del E i k = (e, k1)" "e = None \<or> e = Some KeychainNotFound"
  shows "ke_get E k1 = (ke_get E k)(i := Inl KeychainNotFound)"
  using assms by (auto simp: keychain_ok_def fun_eq_iff)

lemma keychain_Delete_ok:
  assumes "keychain_ok E" "keychain_Delete E dir_ok ok part ref (idx, k, fs) = (None, (idx1, k1, fs1))"
  shows "EntryID ref \<noteq> ''''" "idx1 = AList.delete (EntryID ref) idx" "xf_file fs1 = ke_index E idx1"
    "ke_get E k1 = (ke_get E k)(EntryID ref := Inl KeychainNotFound)"
proof -
  have "EntryID ref \<noteq> '''' \<and> idx1 = AList.delete (EntryID ref) idx \<and> xf_file fs1 = ke_index E idx1 \<and>
      (\<exists>e. ke_del E (EntryID ref) k = (e, k1) \<and> (e = None \<or> e = Some KeychainNotFound))"
    using assms(2)
    by (auto simp: keychain_Delete_def Let_def map_of_eq_None_iff delete_idem dest!: persistLocked_ok
        split: option.splits prod.splits if_splits kc_error.splits)
  then show "EntryID ref \<noteq> ''''" "idx1 = AList.delete (EntryID ref) idx" "xf_file fs1 = ke_index E idx1"
    "ke_get E k1 = (ke_get E k)(EntryID ref := Inl KeychainNotFound)"
    using keychain_del_gone[OF assms(1)] by blast+
qed

lemma delete_then_resolve:
  assumes "keychain_ok E" "keychain_Delete E dir_ok ok part ref (idx, k, fs) = (None, (idx1, k1, fs1))"
  shows "keychain_Resolve E order (keychain_ref (EntryID ref) h) (idx2, k1, fs2) = Inl CredentialNotFound"
  using keychain_Delete_ok[OF assms]
  by (auto simp: keychain_Resolve_def keychain_find_def keychain_ref_def split: option.splits)

text \<open>The index in memory is the one on disk after a successful change; before \<^const>\<open>keychain_Unlock\<close> it is
  empty, and a change then replaces the file of the last run.\<close>

lemma locked_put_drops_index:
  assumes "keychain_Put E dir_ok ok part new now m (keychain_Lock s) = (Inr ref, s1)"
  shows "xf_file (snd (snd s1)) = ke_index E [(EntryID ref, \<lparr>ie_Reference = ref, ie_UpdatedAt = now\<rparr>)]"
proof -
  obtain idx k fs where s: "s = (idx, k, fs)" by (cases s)
  show ?thesis
    using keychain_Put_ok[OF assms[unfolded s keychain_Lock_def prod.case]] by auto
qed

end
