(* ===== verification/SystemSamples.thy ===== *)
theory SystemSamples
  imports AppLogging AppDiagnostics CredentialKeychain
begin

text \<open>A logger, the settings of a support bundle and a key chain with a small encoding of values, for the
  properties of the services around the application.\<close>

definition sample_log_options :: log_options where
  "sample_log_options = \<lparr>lo_Level = None, lo_SensitiveKeys = Some [''Pin''], lo_SensitivePatterns = None\<rparr>"

definition sample_logger :: redact_handler where
  "sample_logger = WithComponent ''app'' (New_logger (\<lambda>s. s) (\<lambda>s. s = ''Bearer 1'') sample_log_options)"

lemma sample_logger_reached: "log_reach (\<lambda>s. s) (\<lambda>s. s = ''Bearer 1'') sample_log_options sample_logger"
  unfolding sample_logger_def WithComponent_def by (blast intro: reach.intros log_attrs)

lemma sample_keys:
  "buildKeySet (\<lambda>s. s) [''Pin''] = {''pin''}" "to_lower (\<lambda>s. s) ''PIN'' = ''pin''" "to_lower (\<lambda>s. s) ''h'' = ''h''"
  "to_lower (\<lambda>s. s) ''auth'' = ''auth''" "to_lower (\<lambda>s. s) ''component'' = ''component''"
  by code_simp+

lemma sample_logger_config:
  "rh_config (New_logger (\<lambda>s. s) (\<lambda>s. s = ''Bearer 1'') sample_log_options) =
    \<lparr>rh_level = Some 0, rh_keys = {''pin''}, rh_match = (\<lambda>s. s = ''Bearer 1''), rh_lower = (\<lambda>s. s)\<rparr>"
  by (simp add: New_logger_def sample_log_options_def sample_keys)

lemma sample_logger_out:
  "Handle_record sample_logger [LAttr ''PIN'' (VString ''p''), LAttr ''h'' (VGroup [LAttr ''auth'' (VString ''Bearer 1'')])] =
    ([], [LAttr ''component'' (VString ''app''), LAttr ''PIN'' (VString Redacted),
      LAttr ''h'' (VGroup [LAttr ''auth'' (VString Redacted)])])"
proof -
  let ?c = "rh_config (New_logger (\<lambda>s. s) (\<lambda>s. s = ''Bearer 1'') sample_log_options)"
  have key: "isSensitiveKey ?c k \<longleftrightarrow> to_lower (\<lambda>s. s) k = ''pin''" for k
    by (simp add: isSensitiveKey_def sample_logger_config)
  have text0: "redact_text ?c k s v = (if s = ''Bearer 1'' then LAttr k (VString Redacted) else LAttr k v)" for k s v
    by (simp add: redact_text_def redactString_def sample_logger_config)
  have start: "rh_pending (New_logger ul d l) = []" "rh_inner (New_logger ul d l) = []" for ul d l
    by (simp_all add: New_logger_def)
  have logger: "sample_logger = (New_logger (\<lambda>s. s) (\<lambda>s. s = ''Bearer 1'') sample_log_options)\<lparr>rh_pending :=
      [LAttr ''component'' (VString ''app'')]\<rparr>"
    by (simp add: sample_logger_def WithComponent_def WithAttrs_def key text0 sample_keys start merge_attr_def dedupKeys_def)
  show ?thesis
    by (simp add: Handle_record_def logger key text0 sample_keys start group_attr_def empty_group_def)
qed

definition sample_settings_doc :: json_value where
  "sample_settings_doc = JMap [(''token'', JText ''t''), (''remote'', JText ''https://u:p@h'')]"

definition sample_bundle_env :: bundle_env where
  "sample_bundle_env = \<lparr>bx_read = (\<lambda>_. Some []), bx_json = (\<lambda>_. Some sample_settings_doc),
     bx_url = (\<lambda>s. if s = ''https://u:p@h'' then Some ''https://h'' else None), bx_base = (\<lambda>p. p), bx_accept = (\<lambda>_. True),
     bx_plugins = (\<lambda>_. None), bx_lower = (\<lambda>s. s), bx_about = JNull, bx_os = JNull, bx_close = True, bx_ctx = True\<rparr>"

definition sample_bundle_inputs :: bundle_inputs where
  "sample_bundle_inputs = \<lparr>bi_SettingsPath = ''s'', bi_WorkspacePath = '''', bi_LogPaths = [], bi_LogTailBytes = 0, bi_PluginRoot = ''''\<rparr>"

lemma sample_secret_keys:
  "secret_key (\<lambda>s. s) SecretKeys ''token'' \<and> \<not> secret_key (\<lambda>s. s) SecretKeys ''remote''"
  by code_simp

lemma sample_bundle_url: "url_ok sample_bundle_env"
  by (simp add: url_ok_def sample_bundle_env_def redactedPlaceholder_def)

lemma sample_bundle_result:
  "Build sample_bundle_env sample_bundle_inputs = (Some ([], True),
    [(''manifest.json'', BundleJSON JNull),
     (''settings.json'', BundleJSON (JMap [(''token'', JText redactedPlaceholder), (''remote'', JText ''https://h'')])),
     (''os-info.json'', BundleJSON JNull)])"
proof -
  have doc: "strip_urls sample_bundle_env (redactValue (\<lambda>s. s) SecretKeys sample_settings_doc) =
      JMap [(''token'', JText redactedPlaceholder), (''remote'', JText ''https://h'')]"
    using sample_secret_keys
    by (simp add: sample_settings_doc_def strip_urls_def sample_bundle_env_def redactedPlaceholder_def)
  have "writeRedactedSettings sample_bundle_env ''s'' b =
      (True, b @ [(''settings.json'', BundleJSON (JMap [(''token'', JText redactedPlaceholder), (''remote'', JText ''https://h'')]))])" for b
    using doc by (simp add: writeRedactedSettings_def sample_bundle_env_def put_entry_if_def is_object_def sample_settings_doc_def)
  then show ?thesis
    by (simp add: Build_def sample_bundle_inputs_def noted_def Let_def put_entry_if_def) (simp add: sample_bundle_env_def)
qed

end
