(* ===== verification/Spec2Isabelle.thy ===== *)
theory Spec2Isabelle
  imports AppSamples ImportSamples ServiceSamples DesktopSamples SystemSamples
begin

text \<open>
  GoRemote: a verification development of the core of the application under \<open>src/\<close>.

  \<^bold>\<open>The program.\<close> GoRemote manages remote connections. \<open>internal/domain\<close> holds the tree of
  folders and connections with the inheritance of settings; \<open>internal/persistence\<close> stores it;
  \<open>host/plugin\<close>, \<open>host/protocol\<close> and \<open>host/credential\<close> hold the plugins; \<open>internal/app\<close> offers
  commands, views and sessions on top of them; \<open>internal/eventbus\<close> carries the events;
  \<open>plugins/protocol-telnet\<close> implements the Telnet protocol.

  \<^bold>\<open>Conventions.\<close> A Go struct is a record with the source's field names behind a prefix, an
  operation is a function with the source's name; errors are the left summand, panics and
  endless loops are explicit results. IDs and lengths that can overflow are words; maps are
  partial functions or finite maps; a lock makes what it covers one step. What the code gets
  from outside (the clock, random bytes, system calls, \<open>encoding/json\<close>, Unicode folding, Ed25519,
  the plugins' own code) is an argument.

  \<^bold>\<open>Domain\<close> (\<open>internal/domain\<close>). \<open>Ident\<close> and \<open>Nodes\<close>: \<open>types.go\<close>. \<open>NodeTree\<close>: \<open>tree.go\<close>, with
  \<open>TreeInv\<close> (the invariant \<open>wf_tree\<close> and its preservation), \<open>TreeRemove\<close> (removal cuts a
  subtree), \<open>TreeWalk\<close> (the walk is the list \<open>preorder\<close>) and \<open>TreeGrow\<close> (walks whose visitor
  extends the tree). \<open>SearchPred\<close>: \<open>search.go\<close>. \<open>Inheritance\<close>: \<open>inheritance.go\<close>. The fuel of
  the walks and of the loops over parents is the number of folders and two more; on well-formed
  trees it is never used up, and \<open>WLoop\<close>, \<open>None\<close> and \<open>Loops\<close> stand for a Go loop without end.

  \<^bold>\<open>Persistence\<close> (\<open>internal/persistence\<close>). \<open>Inventory\<close>: \<open>codec.go\<close>. \<open>Integrity\<close>: \<open>integrity.go\<close>.
  \<open>Store\<close>: \<open>store.go\<close>, \<open>atomic.go\<close>, \<open>migrate.go\<close>. \<open>RestoreGuard\<close> and \<open>BackupStore\<close>: \<open>backup.go\<close>.
  Their lemmas show round trips, what a failure leaves, that restored paths stay inside, exact
  limits under wrap-around, and that a restored backup is the store that was saved. \<open>Restore\<close> keeps
  the two directories beside the live one, and what a removal that fails leaves of them.

  \<^bold>\<open>Hosts and bus.\<close> \<open>EventBus\<close>: \<open>bus.go\<close>. \<open>PluginHost\<close>: \<open>host/plugin\<close> with \<open>sdk/plugin\<close>.
  \<open>CredentialHost\<close>, \<open>ProtocolHost\<close>. A publication holds a read lock only, so it is a step that joins, one step
  per delivery and one that leaves, and publishers interleave. Each critical section is a step of an inductive relation;
  the invariants hold for every interleaving (interpretations of \<open>invariant_system\<close>). \<open>Frame\<close>:
  the wire frames of \<open>proto/plugin\<close>. \<open>Telnet\<close>: negotiation, escaping and the prompt scanner.

  \<^bold>\<open>Application\<close> (\<open>internal/app\<close>). \<open>AppCore\<close>: the commands of \<open>commands.go\<close> and the events.
  \<open>AppInv\<close>: what a command does to the invariant, the dirty flag and the bus. \<open>AppDuplicate\<close>:
  duplication copies a subtree. \<open>AppViews\<close>: the projections. \<open>AppPersist\<close>: \<open>app.go\<close> and
  \<open>persister.go\<close>, the flush in parts between which commands and imports run; the live tree is walked
  without its lock, so a command meanwhile makes the result of the save arbitrary, and a mark beside the state records that and every other
  event after which a clean state need not be stored. \<open>SessionOpen\<close> and
  \<open>SessionLife\<close>: \<open>sessions.go\<close>, the second with the chunks of output as ghost state. \<open>AppFaults\<close>: two ways in which it breaks. \<open>Samples\<close>, \<open>Scenarios\<close> and
  \<open>AppSamples\<close>: the inputs of the witnesses.

  \<^bold>\<open>Import\<close> (\<open>internal/import/mremoteng\<close>). \<open>ImportRaw\<close>: the attribute tables, the XML and CSV parsers above
  the library's scanners, the mapper. \<open>ImportTree\<close>: the importer. \<open>ImportSpec\<close>: what each raw node is to
  contribute, and that the importer contributes it. \<open>ImportApp\<close>: what an import preserves, and its
  effect on the application's tree. \<open>ImportSamples\<close>: inputs of the witnesses.

  \<^bold>\<open>Documents and secrets.\<close> \<open>VaultFile\<close> and \<open>VaultProvider\<close>: the encrypted vault of
  \<open>plugins/credential-file\<close>; its format, the provider as a state machine, what a locked vault gives
  away, and what a save leaves. \<open>AppSettings\<close> and \<open>AppWorkspace\<close>: \<open>app/settings\<close> and \<open>app/workspace\<close>,
  validation and stores that behave like a register. \<open>StoreSamples\<close>: inputs of the witnesses.

  \<^bold>\<open>Plugins and updates.\<close> \<open>PluginIPC\<close> and \<open>PluginServer\<close>: \<open>host/plugin/ipc\<close>, the
  calls and the read loop of the client as interleaved steps, the served connection, \<open>Serve\<close> and
  \<open>Stop\<close>. Lemmas about calls assume fewer than \<open>2 ^ 64\<close> of them, since the counter of IDs wraps.
  \<open>AppUpdate\<close>: \<open>app/update\<close> with the bindings \<open>CheckForUpdate\<close> and \<open>ApplyUpdate\<close> of \<open>cmd/desktop\<close>; the
  replacement of the executable is a list of states, one per system call. \<open>PluginRegistry\<close>:
  \<open>app/extplugin\<close>, the scan of the plugins' directory, the states and keys, and the steps between
  scans; \<open>PluginHistory\<close>: the same with operations that fail and changes of the disk at any time, beside a
  history of the last completed scan. \<open>AppMarketplace\<close>: \<open>app/marketplace\<close>, whose installations the registry scans.
  \<open>ServiceSamples\<close>: inputs of the witnesses. \<open>DesktopBindings\<close>: \<open>cmd/desktop/main.go\<close>, the bindings of
  the user interface with texts for identifiers, the profiles' documents, the recovery at the start, and
  the headless loop, with fuel (\<open>length xs + 1\<close> rounds are enough for well-formed input);
  \<open>DesktopSamples\<close> its inputs.

  \<^bold>\<open>Around the application.\<close> \<open>AppLogging\<close>: \<open>internal/logging\<close>, the handler that removes secrets from records,
  and the log file with its rotation. \<open>AppDiagnostics\<close>: \<open>app/diagnostics\<close>, the support bundle.
  \<open>CredentialKeychain\<close>: \<open>plugins/credential-keychain\<close> with its index file. \<open>SystemSamples\<close>: inputs of the witnesses.

  \<^bold>\<open>Not modelled.\<close> The Fyne user interface (\<open>gui_fyne.go\<close>); the protocol modules other than Telnet and the
  credential providers for 1Password and Bitwarden, which call third-party libraries, programs and the
  operating system; platform integration, the Git synchronisation. Of \<open>internal/app\<close>: the timer of the persister loop, \<open>ListSessions\<close> and
  \<open>closeAll\<close>. Messages of errors are reduced to what distinguishes them, log output is left out.
\<close>

section \<open>Properties of the application\<close>

text \<open>C1. A command on the tree that returns an error has changed nothing; one that succeeds leaves
  a well-formed tree, marks the state dirty, signals the persister if it runs, publishes one
  event unless the application is shut down, and changes nothing else. (Deleting a connection
  at the root is the exception, treated below.)\<close>

theorem command_effect:
  assumes "command a eo a'" "wf_tree (a_tree a)"
  shows "case eo of Some e \<Rightarrow> a' = a | None \<Rightarrow> wf_tree (a_tree a') \<and>
    (\<exists>es. length es = (if a_root_done a then 0 else 1) \<and> a' = a\<lparr>a_tree := a_tree a', a_dirty := True,
      a_signal := a_signal a \<or> a_started a, a_events := a_events a @ es\<rparr>)"
  using command_outcome [OF assms] by (auto simp: committed_def split: option.splits)

theorem command_effect_witness:
  "\<exists>a'. CreateFolder True 10 (\<lambda>_. 5) NilID ''new'' no_opts fresh_app = Returns (Inr (NewID 10), a') \<and>
    wf_tree (a_tree a')"
proof -
  obtain a' where a': "CreateFolder True 10 (\<lambda>_. 5) NilID ''new'' no_opts fresh_app = Returns (Inr (NewID 10), a')"
    by (simp add: CreateFolder_def AddFolder_def append_child_def new_folder_def sample_drawn NilID_def NewTree_def
        fresh_app_def sample_app_def commit_def markDirty_def publish_app_def Let_def)
  from cmd_create_folder [OF this] have "command fresh_app None a'" by simp
  from command_effect [OF this] a' show ?thesis by (simp add: fresh_app_def wf_NewTree)
qed

text \<open>C2. Duplicating a node succeeds and adds exactly one copy of every node of its subtree: there
  is a renaming of the subtree's IDs to new ones such that every copy is the renamed original
  (the copy of the root next to the original, with the suffix), the originals are untouched
  and nothing else is added.\<close>

theorem duplicate_copies_subtree:
  assumes "wf_tree (a_tree a)" "fresh_ids (a_tree a) rnd" "FindByID i (a_tree a) = Inr n"
    "\<not> (a_started a \<and> a_sig_closed a)"
  shows "\<exists>h a'. DuplicateNode True rnd now i a = Returns (Inr (h i), a') \<and> is_copy (a_tree a) i h (a_tree a')"
  using DuplicateNode_returns [OF assms] DuplicateNode_copies [OF assms(1-3)] by metis

theorem duplicate_copies_subtree_witness:
  "\<exists>h a'. DuplicateNode True sample_draw (\<lambda>_. 5) 1 sample_app = Returns (Inr (h 1), a') \<and>
    is_copy sample_tree 1 h (a_tree a')"
  using duplicate_copies_subtree [of sample_app sample_draw 1 "NFolder folder_1" "\<lambda>_. 5"] sample_fresh wf_sample
  by (simp add: FindByID_def)

text \<open>C3. The tree that is shown is the tree that is stored: one view per folder and connection in
  the order of the walk, below the view of its parent, found under its textual ID.\<close>

theorem tree_view_projects:
  assumes "wf_tree (a_tree a)"
  shows "\<exists>v. ListTree a = Returns v \<and> projected (preorder (a_tree a)) v"
  by (rule ListTree_projects [OF assms])

theorem tree_view_projects_witness:
  "\<exists>v. ListTree sample_app = Returns v \<and> projected (preorder sample_tree) v"
  using tree_view_projects [of sample_app] wf_sample by simp





text \<open>C5. A shutdown whose final save does not fail leaves the state in the store, whether or not
  it was marked dirty.\<close>

theorem shutdown_stores_state:
  assumes "wf_tree (a_tree (ps_app s))" "documents_ok J now (ps_app s)" "\<not> a_stopped (ps_app s)"
  shows "stored J (Shutdown_app J (good_env now) s) \<and>
    a_tree (ps_app (Shutdown_app J (good_env now) s)) = a_tree (ps_app s)"
  by (rule shutdown_stores [OF assms])

theorem shutdown_stores_state_witness:
  "\<exists>J. stored J (Shutdown_app (J :: unit json) (good_env 7) sample_persist)"
proof -
  obtain fl where "encodeInventory (Some sample_tree) = WDone fl" using inventory_roundtrip [OF wf_sample] by blast
  from sample_documents [OF this] shutdown_stores_state [of sample_persist "sample_json fl" 7] show ?thesis
    by (auto simp: sample_persist_def wf_sample)
qed

text \<open>C6. Restoring an exported snapshot brings back the folders, connections, templates and layout
  of the export, whatever the state and the store have become since, provided that: the archive is still
  there and unchanged, and is within the limits of the restore; both when it was exported and now fewer archives than
  the retention limit are there; the state that is replaced is well-formed and its documents
  can be saved and read back, as those of the export could; and no system call fails.\<close>

theorem export_restores:
  assumes "wf_tree (a_tree (ps_app s))" "documents_ok J now (ps_app s)"
    "ExportSnapshot J (good_env now) (good_backup ts t1) True s = (Inr p, s1)"
    "sane_limits lim" "storable lim (v_dir (ps_vault s1))"
    "length (filter is_archive (archives (ps_vault s))) < DefaultBackupRetention"
    "wf_tree (a_tree (ps_app s2))" "documents_ok J now2 (ps_app s2)"
    "archive_at p (ps_vault s2) = archive_at p (ps_vault s1)"
    "length (filter is_archive (archives (ps_vault s2))) < DefaultBackupRetention"
  shows "\<exists>s3. RestoreSnapshot J (good_env now2) (good_backup ts2 t2) lim (\<lambda>_. True) (\<lambda>_. True) (\<lambda>_. True)
      (\<lambda>_. True) True p s2 = (None, s3) \<and> wf_tree (a_tree (ps_app s3)) \<and> \<not> a_dirty (ps_app s3) \<and>
    folders (a_tree (ps_app s3)) = folders (a_tree (ps_app s)) \<and>
    connections (a_tree (ps_app s3)) = connections (a_tree (ps_app s)) \<and>
    a_templates (ps_app s3) = a_templates (ps_app s) \<and> a_workspace (ps_app s3) = a_workspace (ps_app s)"
  by (rule export_then_restore [OF assms])


theorem export_restores_witness:
  "\<exists>(J :: unit json) p s1 s3. ExportSnapshot J (good_env 7) (good_backup ''t'' 8) True sample_persist = (Inr p, s1) \<and>
    RestoreSnapshot J (good_env 7) (good_backup ''u'' 9) default_limits (\<lambda>_. True) (\<lambda>_. True) (\<lambda>_. True) (\<lambda>_. True) True p
      (s1\<lparr>ps_app := emptied_app\<rparr>) = (None, s3) \<and> folders (a_tree (ps_app s3)) = folders sample_tree \<and>
    folders (a_tree emptied_app) \<noteq> folders sample_tree"
proof -
  obtain fl where e: "encodeInventory (Some sample_tree) = WDone fl" using inventory_roundtrip [OF wf_sample] by blast
  obtain fl2 where e2: "encodeInventory (Some NewTree) = WDone fl2" using inventory_roundtrip [OF wf_NewTree] by blast
  let ?J = "two_json fl fl2"
  note d = two_documents [OF e e2]
  obtain p s1 where s1: "ExportSnapshot ?J (good_env 7) (good_backup ''t'' 8) True sample_persist = (Inr p, s1)"
    "files (v_dir (ps_vault s1)) = sample_files" "length (filter is_archive (archives (ps_vault s1))) < DefaultBackupRetention"
    using sample_export [OF e] by blast
  have "ps_app sample_persist = sample_app" "archives (ps_vault sample_persist) = []"
    by (simp_all add: sample_persist_def empty_vault_def archives_def empty_dir_def)
  with export_restores [OF _ _ s1(1) sane_default sample_storable [OF s1(2)], of "s1\<lparr>ps_app := emptied_app\<rparr>" 7 "''u''" 9] d s1(3)
  obtain s3 where "RestoreSnapshot ?J (good_env 7) (good_backup ''u'' 9) default_limits (\<lambda>_. True) (\<lambda>_. True) (\<lambda>_. True)
      (\<lambda>_. True) True p (s1\<lparr>ps_app := emptied_app\<rparr>) = (None, s3)" "folders (a_tree (ps_app s3)) = folders sample_tree"
    by (auto simp: wf_sample emptied_facts wf_NewTree DefaultBackupRetention_def)
  with s1(1) emptied_facts(2) show ?thesis by blast
qed


text \<open>C7. Importing an XML document, one root element \<open>Connections\<close> with properly nested elements within the
  size limit, succeeds and adds exactly these nodes to the tree, each with the new identifier that was
  drawn for it and below the folder of the element around it: a folder for every node of
  type container, or of no type but with nodes inside; a connection for every other node of type connection or of no type.
  A node of another type is skipped with a warning, and with all it contains; what a connection
  contains is dropped. The result counts the nodes and holds
  all warnings. The other nodes are unchanged, the state is dirty, no event is published. (Assumed: the
  identifiers drawn are new, and the signal channel of the application is not closed.)\<close>

theorem import_adds_document:
  assumes "wf_tree (a_tree a)" "\<not> (a_started a \<and> a_sig_closed a)"
    and "xml (take maxImportBytes bs) =
      (eof, prolog @ XStart ''Connections'' at # concat (map xml_tokens cs) @ XEnd ''Connections'' # rest)"
    and "list_all (\<lambda>t. t = XOther) prolog"
    and "es = document_entries ul rnd (concat (map raws_of cs))" "new_in (a_tree a) rnd (drawn es)"
  shows "\<exists>res a'. ImportMRemoteNG True ''xml'' (import_document ul rnd xml csv msg bs) a = (Returns (Inr res), a') \<and>
    wf_tree (a_tree a') \<and>
    (\<forall>y n. FindByID y (a_tree a') = Inr n \<longleftrightarrow> FindByID y (a_tree a) = Inr n \<or>
      (\<exists>e \<in> set es. en_kind e \<noteq> AsSkipped \<and> en_ID e = y \<and> entry_node ul e = n)) \<and>
    a' = a\<lparr>a_tree := a_tree a', a_dirty := True, a_signal := a_signal a \<or> a_started a\<rparr> \<and>
    res = \<lparr>ir_Imported = of_kind AsConnection es, ir_Folders = of_kind AsFolder es,
      ir_Warnings = concat (map (entry_warnings ul) es)\<rparr>"
  using import_xml_document [where xml = xml and bs = bs and eof = eof and prolog = prolog and at = at and cs = cs
    and rest = rest, OF assms, of csv msg] unfolding adds_entries_def .

theorem import_adds_document_witness:
  "\<exists>res a'. ImportMRemoteNG True ''xml'' (import_document (\<lambda>s. s) sample_draw (\<lambda>_. (True, doc_xml)) (\<lambda>_. None)
      (\<lambda>_. '''') []) sample_app = (Returns (Inr res), a') \<and> ir_Imported res = 1 \<and>
    FindByID (NewID 10) (a_tree a') = Inr (entry_node (\<lambda>s. s) doc_entry)"
proof -
  have "\<exists>res a'. ImportMRemoteNG True ''xml'' (import_document (\<lambda>s. s) sample_draw (\<lambda>_. (True, doc_xml)) (\<lambda>_. None)
      (\<lambda>_. '''') []) sample_app = (Returns (Inr res), a') \<and> wf_tree (a_tree a') \<and>
    (\<forall>y n. FindByID y (a_tree a') = Inr n \<longleftrightarrow> FindByID y (a_tree sample_app) = Inr n \<or>
      (\<exists>e \<in> set [doc_entry]. en_kind e \<noteq> AsSkipped \<and> en_ID e = y \<and> entry_node (\<lambda>s. s) e = n)) \<and>
    a' = sample_app\<lparr>a_tree := a_tree a', a_dirty := True, a_signal := a_signal sample_app \<or> a_started sample_app\<rparr> \<and>
    res = \<lparr>ir_Imported = of_kind AsConnection [doc_entry], ir_Folders = of_kind AsFolder [doc_entry],
      ir_Warnings = concat (map (entry_warnings (\<lambda>s. s)) [doc_entry])\<rparr>"
    by (rule import_adds_document [where eof = True and prolog = "[XOther]" and at = "[]" and rest = "[]"
          and cs = "[XElem ''Node'' doc_attrs []]"])
      (use doc_entries [of "\<lambda>s. s"] doc_new doc_xml_document wf_sample in \<open>simp_all add: doc_drawn\<close>)
  then show ?thesis by (fastforce simp: doc_entry_def of_kind_def)
qed

text \<open>C8. What an XML element says about a connection is kept: name, host, user and port in their
  fields; every protocol setting and every password, verbatim, under its own key, and only if
  it is there; an inheritance flag is set exactly when its attribute is true.\<close>

theorem import_keeps_attributes:
  "case build_conn ul rnd (fold add_child kids (node_of_attrs attrs)) parent path i of (c, i') \<Rightarrow>
    c_ID c = NewID (rnd (im_draws i)) \<and> c_ParentID c = parent \<and>
    c_Name c = attr_value attrs ''Name'' \<and> c_Host c = attr_value attrs ''Hostname'' \<and>
    c_Username c = attr_value attrs ''Username'' \<and> c_Port c = parsePort (attr_value attrs ''Port'') \<and>
    list_all (\<lambda>(attr, key). setting_of c key =
        (if attr_value attrs attr = '''' then None else Some (AnyString (attr_value attrs attr))))
      ((''Password'', ''legacy_password_blob'') # perProtocolSettings @ encryptedPerProtocolSettings) \<and>
    list_all (\<lambda>(attr, f). Inherit (c_Inheritance c) f =
        (if parseBool ul (attr_value attrs attr) = Some True then Some True else None)) inheritanceFieldMap"
  using imported_connection [of ul "NewID (rnd (im_draws i))" parent kids attrs] by (simp add: build_conn_spec)

text \<open>C9. Whatever the file says, an imported connection is typed as the rest of the program expects:
  the port fits 16 bits; the protocol is that of a module that the program ships, or empty, exactly if the file names none or one that
  the table does not know, or the identifier of external tools, which no module has, exactly for the two names of those; the settings
  are strings and set flags and are never an empty map; no credential is attached; and no field
  is both inherited and explicit.\<close>

theorem import_connection_typed:
  "case build_conn ul rnd n parent path i of (c, i') \<Rightarrow>
    0 \<le> c_Port c \<and> c_Port c \<le> 65535 \<and>
    c_ProtocolID c \<in> set ('''' # external_tool # shipped_protocols) \<and>
    (c_ProtocolID c = external_tool \<longleftrightarrow> raw_field n ''Protocol'' \<noteq> '''' \<and>
       to_lower ul (raw_field n ''Protocol'') \<in> {''intapp'', ''externaltool''}) \<and>
    (c_ProtocolID c \<noteq> '''' \<longleftrightarrow>
       raw_field n ''Protocol'' \<noteq> '''' \<and> to_lower ul (raw_field n ''Protocol'') \<in> fst ` set protocolMap) \<and>
    c_Settings c \<noteq> Some fmempty \<and>
    (case setting_of c k of Some (AnyBool b) \<Rightarrow> b | Some (AnyString s) \<Rightarrow> True | Some v \<Rightarrow> False | None \<Rightarrow> True) \<and>
    c_CredentialRef c = c_CredentialRef zero_conn \<and> Explicit (c_Inheritance c) = Map.empty"
proof -
  let ?c = "imported_conn ul (NewID (rnd (im_draws i))) parent n"
  note typed = imported_conn_typed [of ul "NewID (rnd (im_draws i))" parent n]
  have "case setting_of ?c k of Some (AnyBool b) \<Rightarrow> b | Some (AnyString s) \<Rightarrow> True | Some v \<Rightarrow> False | None \<Rightarrow> True"
    using typed(6) [where k = k] by (cases "setting_of ?c k") (simp_all add: legacy_value_def split: anyval.splits)
  then show ?thesis using typed(1-5,7,8) unfolding build_conn_spec prod.case by blast
qed


text \<open>C10. On a well-formed tree, while the application runs, every command returns: no search over
  parents, no walk and no removal loops, and nothing panics. (Duplicating draws new identifiers.)\<close>

theorem commands_return:
  assumes "wf_tree (a_tree a)" "\<not> (a_started a \<and> a_sig_closed a)" "fresh_ids (a_tree a) rnd"
  shows "returns (CreateFolder ctx new now p name o1 a) \<and> returns (CreateConnection ctx new now p o2 a) \<and>
    returns (UpdateConnection ctx now i p1 a) \<and> returns (ToggleFavorite ctx now i a) \<and>
    returns (UpdateFolder ctx now i p2 a) \<and> returns (MoveNode ctx now i p a) \<and>
    returns (DeleteNode ctx now i a) \<and> returns (DuplicateNode ctx rnd now i a)"
  by (intro conjI commands_run assms)

theorem commands_return_witness:
  "returns (MoveNode True (\<lambda>_. 0) 2 NilID sample_app) \<and> returns (DuplicateNode True sample_draw (\<lambda>_. 0) 1 sample_app)"
  using commands_return [of sample_app sample_draw True 10 "\<lambda>_. 0" NilID "''n''" no_opts _ 2]
    commands_return [of sample_app sample_draw True 10 "\<lambda>_. 0" NilID "''n''" no_opts _ 1] wf_sample sample_fresh
  by simp

text \<open>C11. A session that opens was opened by a registered module with the request that the
  inheritance gives: the effective host, port, user and method, the inline secret if there is
  one; under the effective protocol, or under its built-in name if the first is unknown.\<close>

theorem session_opens_effective:
  assumes "wf_tree (a_tree a)" "conn_at (a_tree a) i = Some c"
    "openSessionInternal ul ctx rnd now creds mopen i inline a h = Returns r" "res_out r = Inr s"
  shows "\<exists>fs req m. chain (folders (a_tree a)) (c_ParentID c) fs \<and> effective_request c fs req \<and>
    or_Secret req = adaptMaterial (op_material s) \<and> (inline = None \<or> op_material s = inline) \<and>
    modules h (op_protocol s) = Some (Some m) \<and> mopen m req = Returned (Some (inner (op_session s))) \<and>
    (FStr (op_protocol s) = fst (effective (c_Inheritance c) c fs FieldProtocolID) \<or>
     (\<exists>p. FStr p = fst (effective (c_Inheritance c) c fs FieldProtocolID) \<and> modules h p = None \<and>
        canonicalBuiltInProtocolID ul p = Some (op_protocol s)))"
  by (rule openSession_success [OF assms])

theorem session_opens_effective_witness:
  "\<exists>r s m. sample_session True None = Returns r \<and> res_out r = Inr s \<and>
    modules sample_proto (op_protocol s) = Some (Some m)"
proof -
  obtain r s where r: "sample_session True None = Returns r" "res_out r = Inr s" using sample_session_result(1) by blast
  from session_opens_effective [OF wf_open_app open_app_conn r] r show ?thesis by metis
qed





section \<open>Properties of the components\<close>

text \<open>C13. Every tree that the operations reach from the empty tree is well-formed: keyed by
  the nodes' IDs, acyclic, no ID used twice, the child indexes exact and without repetition. The operations are those of the tree with one
  exception, which the code allows and which breaks the invariant: removing a connection that lies at the
  root leaves its ID among the roots (a further fact below).\<close>

theorem tree_invariant:
  assumes "reach (\<lambda>t. t = NewTree) tree_step t"
  shows "wf_tree t"
  by (rule tree_sys.reach_inv [OF assms])

theorem tree_invariant_witness: "wf_tree sample_tree"
  by (rule tree_invariant [OF sample_reach])

text \<open>C14. Removing a folder returns, and removes exactly the folders below it and the
  connections in them; every other node is the one it was, and the tree stays well-formed.\<close>

theorem remove_cuts_subtree:
  assumes "wf_tree t" "folder_at t i = Some f"
  shows "\<exists>t'. Remove i t = Some (None, t') \<and> wf_tree t' \<and>
    (\<forall>j. folder_at t' j = (if under (folders t) i j then None else folder_at t j)) \<and>
    (\<forall>k. conn_at t' k = (case conn_at t k of None \<Rightarrow> None
       | Some c \<Rightarrow> if under (folders t) i (c_ParentID c) then None else Some c))"
  using Remove_folder [OF assms] wf_prune [OF assms(1), of "{i}"] wf_folder(2) [OF assms]
  by (auto simp: folder_at_prune conn_at_prune below_one split: option.split)

theorem remove_cuts_subtree_witness:
  "\<exists>t'. Remove 1 sample_tree = Some (None, t') \<and> wf_tree t' \<and>
    (\<forall>j. folder_at t' j = (if under (folders sample_tree) 1 j then None else folder_at sample_tree j)) \<and>
    (\<forall>k. conn_at t' k = (case conn_at sample_tree k of None \<Rightarrow> None
       | Some c \<Rightarrow> if under (folders sample_tree) 1 (c_ParentID c) then None else Some c))"
  by (rule remove_cuts_subtree [OF wf_sample sample_lookup(1)])

text \<open>C15. Moving a folder under an existing folder (or to the root) is refused exactly when the
  target lies in the folder's own subtree; otherwise the folder gets the new parent, every
  other node is unchanged and the tree stays well-formed and acyclic.\<close>

theorem move_folder_cycle_iff:
  assumes "wf_tree t" "folder_at t i = Some f" "p = NilID \<or> folder_at t p \<noteq> None"
  shows "if under (folders t) i p then Move i p t = Some (Inl MoveCycle)
    else \<exists>t'. Move i p t = Some (Inr t') \<and> wf_tree t' \<and>
      folders t' = fmupd i (f\<lparr>f_ParentID := p\<rparr>) (folders t) \<and> connections t' = connections t"
  using Move_folder_result [OF assms] Move_wf [OF assms(1), of i p] by auto

theorem move_folder_cycle_iff_witness:
  "Move 1 2 sample_tree = Some (Inl MoveCycle) \<and>
   (\<exists>t'. Move 2 NilID sample_tree = Some (Inr t') \<and> wf_tree t')"
proof -
  have "under (folders sample_tree) 1 2"
    by (rule under_step [of _ _ folder_2]) (simp_all add: NilID_def)
  moreover have "\<not> under (folders sample_tree) 2 NilID" unfolding under_Nil by (simp add: NilID_def)
  ultimately show ?thesis
    using move_folder_cycle_iff [OF wf_sample sample_lookup(1), of 2]
      move_folder_cycle_iff [OF wf_sample sample_lookup(2), of NilID] by auto
qed

text \<open>C16. The effective connection: each field has the value and the origin that the rules give
  (explicit wins, else the node's own non-zero value, else the nearest folder with a non-zero
  default, else zero), whatever the other fields are, and no other component changes.\<close>

theorem resolve_effective:
  "node_field (rc_node (Resolve p (Some n) as)) f = fst (effective p n (present as) f) \<and>
   rc_Trace (Resolve p (Some n) as) f = Some (snd (effective p n (present as) f)) \<and>
   identity_of (rc_node (Resolve p (Some n) as)) = identity_of n"
  by (simp add: Resolve_effective)

text \<open>C17. Validation of raw lists in which no folder and no connection has the nil ID always returns, and reports no error
  exactly when the lists are those of a well-formed tree. (With a nil ID the validation may accept lists that no tree has: it does not look for it.)\<close>

theorem validation_characterises_trees:
  assumes "NilID \<notin> f_ID ` set fs" "NilID \<notin> c_ID ` set cs"
  shows "\<exists>issues. validateFlat fs cs ws = Some issues \<and>
    (no_errors issues \<longleftrightarrow> (\<exists>t. wf_tree t \<and> lists_tree (flat_file fs cs) t))"
proof -
  obtain issues where v: "validateFlat fs cs ws = Some issues" "no_errors issues \<longleftrightarrow> flat_ok fs cs"
    using validateFlat_errors by blast
  then show ?thesis
    using no_errors_decodes [OF v(1) _ assms] lists_tree_flat_ok by blast
qed

theorem validation_characterises_trees_witness:
  "\<exists>issues. validateFlat [folder_2] [] (Some zero_workspace) = Some issues \<and>
    (no_errors issues \<longleftrightarrow> (\<exists>t. wf_tree t \<and> lists_tree (flat_file [folder_2] []) t))"
  by (rule validation_characterises_trees) (simp_all add: NilID_def)

text \<open>C18. Whatever the entries of an archive are called, extracting it writes below the given
  directory only.\<close>

theorem restore_stays_inside:
  assumes "extract_all (extractZipEntry lim io rd root) archive empty_dir = Inr d"
  shows "\<forall>(p, data) \<in> set (files d). \<exists>c. p = root @ c"
  by (rule extract_all_inside [OF assms]) (simp add: empty_dir_def)

theorem restore_stays_inside_witness:
  "\<exists>d. extract_all (extractZipEntry default_limits (\<lambda>_. True) (\<lambda>_. True) [''r''])
      [sample_entry ''a/../b''] empty_dir = Inr d \<and> (\<forall>(p, data) \<in> set (files d). \<exists>c. p = [''r''] @ c)"
proof -
  have "\<exists>d. extract_all (extractZipEntry default_limits (\<lambda>_. True) (\<lambda>_. True) [''r''])
      [sample_entry ''a/../b''] empty_dir = Inr d"
    by (simp add: extractZipEntry_def sanitizeRestorePath_def path_Clean_def clean_comps_def is_rooted_def
        safeJoinWithinRoot_def join_comps_def sample_entry_def copyZipEntry_def checkedCopyLimits_def
        default_limits_def Let_def)
  with restore_stays_inside show ?thesis by blast
qed

text \<open>C19. The archive check is exact, although it computes with 64-bit words that wrap: it
  accepts precisely the archives with few enough entries, no file over the limit per file,
  and no more bytes in total than the limit.\<close>

theorem restore_limits_exact:
  assumes "unat (maxRestoreFileBytes lim) \<le> unat (maxRestoreBytes lim)"
  shows "validateRestoreArchive lim fs = None \<longleftrightarrow> length fs \<le> maxRestoreEntries lim \<and>
    (\<forall>n \<in> set (file_sizes fs). n \<le> unat (maxRestoreFileBytes lim)) \<and>
    sum_list (file_sizes fs) \<le> unat (maxRestoreBytes lim)"
  by (rule validateRestoreArchive_iff [OF assms])

theorem restore_limits_exact_witness:
  "validateRestoreArchive default_limits [sample_entry ''a''] = None"
  by (subst restore_limits_exact) (simp_all add: default_limits_def file_sizes_def sample_entry_def)

text \<open>C20. The outcome of a restore, whatever system calls fail. After an error the live directory is what the safety backup
  left, except when the roll-back or the move of the backups fails: then the old directory is
  still there under its other name. After a success the live directory is the archive, extracted
  over what could not be removed of an interrupted restore (nothing, if there was none or the removal succeeds), with the old
  backups, unless looking for them failed: then they are lost (a fault of the code).\<close>

theorem restore_outcome:
  "case Restore lim ok rest backup ex archive (fs\<lparr>live := Some d\<rparr>) of
     (Some e, fs') \<Rightarrow> live fs' = Some (backup d) \<or>
       (e = RollbackFailed \<or> e = PreserveBackupsFailed) \<and> restore_old fs' = Some (backup d)
   | (None, fs') \<Rightarrow> validateRestoreArchive lim archive = None \<and> check_names archive = None \<and>
       (\<exists>new. extract_all ex archive (if restore_new fs = None \<or> ok RemoveNew then empty_dir else rest RemoveNew) = Inr new \<and>
         live fs' = Some (case (if ok StatBackups then backups (backup d) else None) of None \<Rightarrow> new | Some b \<Rightarrow> new\<lparr>backups := Some b\<rparr>))"
proof -
  obtain r fs' where eq: "Restore lim ok rest backup ex archive (fs\<lparr>live := Some d\<rparr>) = (r, fs')"
    by (cases "Restore lim ok rest backup ex archive (fs\<lparr>live := Some d\<rparr>)")
  show ?thesis
  proof (cases r)
    case None
    have "restore_base ok rest (fs\<lparr>live := Some d\<rparr>) = (if restore_new fs = None \<or> ok RemoveNew then empty_dir else rest RemoveNew)"
      by (simp add: restore_base_def after_RemoveAll_def)
    with Restore_ok_live [OF eq [unfolded None], of d] show ?thesis unfolding eq None by simp
  next
    case (Some e)
    from Restore_error_live [OF eq [unfolded Some]] show ?thesis unfolding eq Some by simp
  qed
qed


text \<open>C21. A save in which no system call fails writes a store that loads to the same snapshot:
  the same folders, connections, templates and layout, with the stamped meta record. The
  encoding of the four documents is assumed to be decoded to what was encoded.\<close>

theorem save_then_load:
  assumes "wf_tree t" "s_Tree snap = Some t" "encodeInventory (Some t) = WDone file"
    "faithful J file snap (stamp now (s_Meta snap))" "\<forall>n c. ok n c" "\<forall>n. rok n"
  shows "\<exists>d' t'. Save J True ok True now (Some snap) d =
      (None, Some (snap\<lparr>s_Meta := stamp now (s_Meta snap)\<rparr>), d') \<and>
    Load J True rok d' = Inr (snap\<lparr>s_Tree := Some t', s_Meta := stamp now (s_Meta snap)\<rparr>) \<and>
    wf_tree t' \<and> folders t' = folders t \<and> connections t' = connections t"
  by (rule Save_then_Load [OF assms])

theorem save_then_load_witness:
  "\<exists>file d' t'. Save (sample_json file) True (\<lambda>_ _. True) True 7 (Some sample_snapshot)
      \<lparr>d_files = Map.empty, d_temps = []\<rparr> =
      (None, Some (sample_snapshot\<lparr>s_Meta := stamp 7 (s_Meta sample_snapshot)\<rparr>), d') \<and>
    Load (sample_json file) True (\<lambda>_. True) d' =
      Inr (sample_snapshot\<lparr>s_Tree := Some t', s_Meta := stamp 7 (s_Meta sample_snapshot)\<rparr>) \<and>
    folders t' = folders sample_tree"
proof -
  obtain fl where e: "encodeInventory (Some sample_tree) = WDone fl"
    using inventory_roundtrip [OF wf_sample] by blast
  have f: "faithful (sample_json fl) fl sample_snapshot (stamp 7 (s_Meta sample_snapshot))"
    by (simp add: faithful_def sample_json_def sample_snapshot_def maxReadFileBytes_def)
  from save_then_load [OF wf_sample _ e f, of "\<lambda>_ _. True" "\<lambda>_. True" "\<lparr>d_files = Map.empty, d_temps = []\<rparr>"]
  show ?thesis unfolding sample_snapshot_def by simp blast
qed

text \<open>C22. At no moment of an atomic write does the file hold anything but its old or its new
  contents, and no other file changes.\<close>

theorem atomic_write_all_or_nothing:
  assumes "s \<in> set (snd (WriteAtomic ok part path data d))"
  shows "d_files s = d_files d \<or> d_files s = (d_files d)(path \<mapsto> data)"
  using WriteAtomic_states [of ok part path data d _ _ "snd (WriteAtomic ok part path data d)" s] assms
  by (metis surj_pair snd_conv)

theorem atomic_write_all_or_nothing_witness:
  "d_files \<lparr>d_files = Map.empty, d_temps = [(''.tmp-x'', [])]\<rparr> = Map.empty \<or>
   d_files \<lparr>d_files = Map.empty, d_temps = [(''.tmp-x'', [])]\<rparr> = Map.empty(''x'' \<mapsto> [9])"
  using atomic_write_all_or_nothing [of "\<lparr>d_files = Map.empty, d_temps = [(''.tmp-x'', [])]\<rparr>"
      "\<lambda>_. True" "[]" "''x''" "[9]" "\<lparr>d_files = Map.empty, d_temps = []\<rparr>"]
  by (simp add: WriteAtomic_def)

text \<open>C23. The vault file is accepted exactly when it is a vault that was sealed with the passphrase:
  magic, version, salt and nonce in the header, and the sealed document bound to that header.
  The key and the salt that are kept are those of the file.\<close>

theorem vault_accepts_only_sealed:
  assumes "aead_ok C"
  shows "fst (decodeFile C data pass) = Inr (v, key, salt) \<longleftrightarrow>
    key = vc_derive C pass salt \<and> length salt = saltLen \<and>
    (\<exists>nonce plaintext. length nonce = nonceLen \<and> data = sealed_file C pass salt nonce plaintext \<and>
       vc_unmarshal C plaintext = Some v)"
  by (rule decodeFile_accepts_iff [OF assms])

theorem vault_accepts_only_sealed_witness:
  "fst (decodeFile sample_crypto (sealed_file sample_crypto ''s3cret'' sample_salt sample_nonce [1]) ''s3cret'') =
     Inr (\<lparr>vd_Version = 1, vd_Entries = one_entry\<rparr>, sample_key, sample_salt)"
proof -
  have "vc_unmarshal sample_crypto [1] = Some \<lparr>vd_Version = 1, vd_Entries = one_entry\<rparr>"
    by (simp add: sample_crypto_def)
  then show ?thesis
    using sample_lengths vault_accepts_only_sealed [OF sample_aead, of
      "sealed_file sample_crypto ''s3cret'' sample_salt sample_nonce [1]" "''s3cret''"
      "\<lparr>vd_Version = 1, vd_Entries = one_entry\<rparr>" sample_key sample_salt] sample_key_def by blast
qed

text \<open>C24. Whatever was done with a vault before: while it is locked it holds neither key nor document,
  lookups, listings and changes are refused, and nothing is written.\<close>

theorem locked_vault_gives_nothing:
  assumes "vault_reach C (p, fs)" "vp_locked p"
  shows "vp_key p = None \<and> vp_vault p = None \<and> vault_Resolve ref p = Inl VaultLocked \<and> vault_List p = Inl VaultLocked \<and>
    vault_Put C nonce ok part new now m p fs = (Inl VaultLocked, p, fs) \<and>
    vault_Delete C nonce ok part ref p fs = (Some VaultLocked, p, fs)"
  by (rule locked_gives_nothing [OF assms])

theorem locked_vault_gives_nothing_witness:
  "vault_Put sample_crypto (Some sample_nonce) (\<lambda>_. True) [] ''n'' 5 sample_login New_vault no_vault =
     (Inl VaultLocked, New_vault, no_vault)"
  using locked_vault_gives_nothing [OF new_vault_reach, of _ "Some sample_nonce" "\<lambda>_. True" "[]" "''n''" 5 sample_login]
  by (simp add: New_vault_def)

text \<open>C25. A credential that was saved without an error survives a restart: a new provider opens the
  file with the passphrase and resolves the reference to what was saved; all other entries are
  what they were.\<close>

theorem put_survives_restart:
  assumes "aead_ok C" "vault_reach C (p, fs)" "vp_key p = Some (vc_derive C pass (vp_salt p))"
    "vault_Put C nonce ok part new now m p fs = (Inr ref, p', fs')"
    "case nonce of None \<Rightarrow> True | Some s \<Rightarrow> length s = nonceLen" "new \<noteq> ''''"
    "case vp_vault p' of None \<Rightarrow> True | Some w \<Rightarrow> stored_exactly C w"
  shows "\<exists>q. vault_Unlock C True rnd pass fs' New_vault = (None, q) \<and>
    vault_Resolve ref q = Inr (entry_material (norm_entry (material_entry new now m))) \<and>
    (\<forall>i. i \<noteq> EntryID ref \<longrightarrow> stored_entry i q = map_option norm_entry (stored_entry i p))"
  by (rule put_is_durable [OF assms])

theorem put_survives_restart_witness:
  "\<exists>q. vault_Unlock sample_crypto True None ''s3cret''
      (snd (snd (vault_Put sample_crypto (Some sample_nonce) (\<lambda>_. True) [] ''n'' 5 sample_login sample_vault no_vault)))
      New_vault = (None, q) \<and> vault_Resolve (id_ref ''e1'') q = Inr (entry_material (hd one_entry))"
proof -
  let ?put = "vault_Put sample_crypto (Some sample_nonce) (\<lambda>_. True) [] ''n'' 5 sample_login sample_vault no_vault"
  have put: "?put = (Inr (id_ref ''e1''), sample_vault\<lparr>vp_vault := Some \<lparr>vd_Version = 1, vd_Entries = one_entry\<rparr>\<rparr>,
      snd (snd ?put))"
    by (rule sample_put)
  have "stored_exactly sample_crypto \<lparr>vd_Version = 1, vd_Entries = one_entry\<rparr>" by (rule sample_stored)
  then show ?thesis
    using put_survives_restart [OF sample_aead sample_vault_reach sample_vault_key put, of None] sample_lengths
    by (auto simp: norm_one)
qed

text \<open>C26. The settings file is a register: an update that reports success stores the settings it was
  given, stamped, and they are valid; after an update that reports an error, the settings are
  those from before, whatever step failed.\<close>

theorem settings_register:
  assumes "Update_settings J ctx ok part now s fs = (r, fs')" "settings_json_ok J (s\<lparr>sg_UpdatedAt := now\<rparr>)"
  shows "case r of
      Inr s' \<Rightarrow> s' = s\<lparr>sg_UpdatedAt := now\<rparr> \<and> valid_settings s' \<and> Get_settings J ul True True fs' = Inr s'
    | Inl e \<Rightarrow> Get_settings J ul True True fs' = Get_settings J ul True True fs"
  using Update_register [OF assms, of ul] by (simp add: Validate_settings_iff split: sum.splits)

theorem settings_register_witness:
  "Get_settings sample_settings_json (\<lambda>x. x) True True
     (snd (Update_settings sample_settings_json True (\<lambda>_. True) [] 9 Default_settings no_doc)) =
     Inr (Default_settings\<lparr>sg_UpdatedAt := 9\<rparr>) \<and>
   Get_settings sample_settings_json (\<lambda>x. x) True True
     (snd (Update_settings sample_settings_json True (\<lambda>c. c \<noteq> DRename) [] 9 Default_settings no_doc)) =
     Inr Default_settings"
  using settings_register [OF sample_update(1) sample_settings_ok, of "\<lambda>x. x"]
    settings_register [OF sample_update(2) sample_settings_ok, of "\<lambda>x. x"]
  by (simp add: sample_update sample_get)

text \<open>C27. What the negotiator writes arrives unchanged at a negotiator in its normal state: the
  escaping of the write is undone by the reading, whatever the bytes are.\<close>

theorem telnet_data_roundtrip:
  assumes "Negotiator_Write ws p = Some (n, wire, None)" "ng_mode s = stNormal"
  shows "n = length p \<and> feed s wire = (s, p, [])"
  by (rule Write_then_feed [OF assms])

theorem telnet_data_roundtrip_witness:
  "feed (NewNegotiator [] 80 24) [255, 255, 65] = (NewNegotiator [] 80 24, [255, 65], [])"
proof -
  have "Negotiator_Write [(2, None), (1, None :: unit option)] [255, 65] = Some (2, [255, 255, 65], None)"
    by (simp add: Negotiator_Write_def escapeIAC_def escapedIACCapacity_def IAC_def maxInt_def)
  moreover have "ng_mode (NewNegotiator [] 80 24) = stNormal" by (simp add: NewNegotiator_def)
  ultimately show ?thesis using telnet_data_roundtrip by blast
qed


text \<open>C28. However subscriptions, publications, cancellations and closing interleave, several publishers going over the
  subscribers at the same time, the bus never closes a channel twice and never sends on a closed one; and each subscriber gets, of
  every single publisher, events that it published since the subscriber joined, in that order and each at most once, no more of
  them waiting than the buffer holds; for a subscriber still in the bus, the events received, waiting,
  dropped and still on their way add up to those published since. Events of different publishers
  may reach two subscribers in opposite orders.\<close>

theorem bus_delivers_in_order:
  assumes "reach (\<lambda>b. b = New_bus) bus_step b" "chan b n = Some s"
  shows "\<not> panicked b \<and> subseq (by_publisher p (received s @ buf s)) (by_publisher p (drop (joined s) (log b))) \<and>
    length (buf s) \<le> cap s \<and>
    (if n \<in> subs b
     then length (received s) + length (buf s) + sub_dropped s + card (underway b n) = length (log b) - joined s
     else True)"
proof -
  have i: "bus_inv b" by (rule bus_sys.reach_inv [OF assms(1)])
  have h: "history_ok (log b) (underway b n) s" by (rule bus_invD(4) [OF i assms(2)])
  show ?thesis
    using bus_invD(1) [OF i] history_ok_subseq [OF h, of p] h bus_invD(5) [OF i _ assms(2)]
    by (simp add: history_ok_def counted_def)
qed


theorem bus_delivers_in_order_witness:
  "\<exists>s. chan crossing_bus 1 = Some s \<and> buf s = [(1, 8), (0, 7)] \<and> \<not> panicked crossing_bus \<and>
    subseq (by_publisher 0 (received s @ buf s)) (by_publisher 0 (log crossing_bus))"
proof -
  obtain s where s: "chan crossing_bus 1 = Some s" "buf s = [(1, 8), (0, 7)]" using crossing_orders(2) by auto
  have "subseq (by_publisher 0 (drop (joined s) (log crossing_bus))) (by_publisher 0 (log crossing_bus))"
    by (simp add: by_publisher_drop)
  with bus_delivers_in_order [OF crossing_reach s(1), of 0] s show ?thesis by (auto intro: subseq_order.trans)
qed


text \<open>C29. Calls of a plugin run at the same time over one connection: a call that returns a response
  returns a frame that was read from the connection, with the call's own ID, which no other call
  has, and no error in it. (As long as the counter of IDs has not gone round.)\<close>

theorem ipc_response_matches:
  assumes "ipc_reach c" "ic_count c \<le> 2 ^ 64" "k < ic_count c" "cl_phase (ic_call c k) = CallReturned (Inr f)"
  shows "f \<in> set (ic_read c) \<and> fr_ID f = cl_ID (ic_call c k) \<and> fr_Error f = '''' \<and>
    (\<forall>j < ic_count c. cl_ID (ic_call c j) = fr_ID f \<longrightarrow> j = k)"
  by (rule response_matches [OF assms])

theorem ipc_response_matches_witness: "pong \<in> set (ic_read answered_call) \<and> fr_ID pong = cl_ID (ic_call answered_call 0)"
  using ipc_response_matches [OF answered_reach _ _ answered(1)] answered(2) by simp

text \<open>C30. The read loop never waits for a caller: a channel it sends to is empty. Once it has stopped,
  every call that still waits has something to receive, so no caller is left behind when the
  connection is lost.\<close>

theorem ipc_reader_never_blocks:
  assumes "ipc_reach c" "ic_count c \<le> 2 ^ 64"
  shows "case ic_reader c of
      Reading \<Rightarrow> True
    | Delivering f k \<Rightarrow> ic_chan c k = None
    | Draining ks e \<Rightarrow> (case ks of [] \<Rightarrow> True | k # _ \<Rightarrow> ic_chan c k = None)
    | Stopped \<Rightarrow> (\<forall>k < ic_count c. cl_phase (ic_call c k) \<in> {Writing, Waiting} \<longrightarrow> ic_chan c k \<noteq> None)"
  by (rule reader_never_blocks [OF assms])

theorem ipc_reader_never_blocks_witness: "ic_chan lost_call 0 \<noteq> None"
  using ipc_reader_never_blocks [OF lost_reach] lost by simp


text \<open>C31. An update changes the program at most to one that the configured key endorses for this
  platform: at every moment the program is the old one, or its contents have the hash that a
  valid signature names (or, on Windows, it is put aside for a moment). After success it is an
  endorsed one; after an error the old one, unless Windows refuses to rename it back.\<close>

theorem update_only_endorsed:
  assumes "ApplyUpdate E ok windows part fs = (e, tr)"
  shows "list_all (\<lambda>s. xf_dst s = xf_dst fs \<or> endorsed_program E (xf_dst s) \<or> windows \<and> put_aside (xf_dst fs) s) tr \<and>
    (case e of None \<Rightarrow> endorsed_program E (xf_dst (hd tr))
     | Some _ \<Rightarrow> \<not> windows \<or> ok XRenameBack \<longrightarrow> xf_dst (hd tr) = xf_dst fs)"
  using ApplyUpdate_safe [OF assms] by (cases e) (simp_all add: swap_trace_def)

theorem update_only_endorsed_witness:
  "endorsed_program sample_update_env (xf_dst (hd (snd (ApplyUpdate sample_update_env (\<lambda>_. True) False [] sample_program))))"
proof -
  obtain tr where a: "ApplyUpdate sample_update_env (\<lambda>_. True) False [] sample_program = (None, tr)"
    using ApplyUpdate_unchecked [OF sample_verified sample_download, of "[]" sample_program] by blast
  show ?thesis using update_only_endorsed [OF a] a by simp
qed

text \<open>C32. Whatever operations are called on the registry of plugins, whichever of their steps fail, and whatever others do to
  its directory meanwhile: a plugin that is shown as enabled was asked to be enabled, by a call (even one whose saving failed) or by the saved
  states when the registry was opened, and this was not successfully withdrawn since; and the last completed
  scan found in the directory of its name a manifest that is valid, has that name, is shown as it is apart
  from its trust, and was endorsed under the policy and keys of that scan, by the signature of a trusted key
  or, where that is allowed, by having none. Those are the policy and the keys
  now in force, unless a scan or a change of them failed or is unfinished since.\<close>

theorem plugin_enabled_earned:
  assumes "history_reach E ((r, fs), h)" "Get_plugin i r = Some e" "pe_Status e = StatusEnabled"
  shows "i \<in> ph_asked h \<and>
    (\<exists>data m. manifest_at E (ph_fs h) i = Some data \<and> gx_manifest E data = Some m \<and>
       Manifest_Validate (Some m) = None \<and> mf_ID m = i \<and> pe_Manifest e = m\<lparr>mf_Trust := pe_TrustLevel e\<rparr> \<and>
       endorsed_manifest E (ph_trust h) m) \<and>
    (ph_stale h \<or> rg_trust r = ph_trust h)"
  using enabled_known [OF assms(1) assms(2) [unfolded Get_plugin_def] assms(3)] by (simp add: taken_def)


theorem plugin_enabled_earned_witness:
  "\<exists>e. Get_plugin ''p'' strict_registry = Some e \<and> pe_Status e = StatusEnabled \<and> ''p'' \<in> ph_asked sample_history \<and>
    manifest_at sample_registry (ph_fs sample_history) ''p'' \<noteq> None \<and> ph_stale sample_history"
proof -
  obtain e where e: "Get_plugin ''p'' strict_registry = Some e" "pe_Status e = StatusEnabled"
    using sample_enable(2) by (auto simp: Get_plugin_def strict_registry_def)
  from plugin_enabled_earned [OF sample_history_reached e] e show ?thesis
    by (auto simp: sample_history_def scanned_def)
qed


text \<open>C33. Installing from the marketplace. A success leaves in the directory of the plugin exactly the
  payload, whose hash is the one listed and which is within the limit, and the manifest; everything else is as it was,
  except that missing directories on the way to the plugins are made, and that the neighbour named like the plugin with
  \<open>.old\<close> is gone, whatever it was. An error
  of any step leaves everything but that neighbour as it was, again up to directories on the way. There is one exception: when
  the plugin was not installed, that neighbour exists, and the last rename fails, then the neighbour takes
  the plugin's place (a fault of the code). Assumed: the staging directory is new, and the calls that look for files, restore the previous installation and
  clean up succeed.\<close>

theorem market_install_outcome:
  assumes "Install E c l dest fs = (r, fs')" "fresh_stage (stage_dir E dest l) fs" "mx_ok E KDropOld"
    "mx_ok E KStatFinal" "mx_ok E KStatOld" "mx_ok E KRestore" "mx_ok E KCleanup"
  shows "case r of
    None \<Rightarrow> (\<exists>body. EqualFold (hex_encode (mx_sha E body)) (lt_SHA256 l) \<and> length body \<le> unat (downloadMaxBytes c) \<and>
        (\<forall>q. fs' (dest @ lt_ID l # q) = staged l body q)) \<and>
      (\<forall>q. fs' (dest @ (lt_ID l @ ''.old'') # q) = None) \<and>
      (\<forall>p. has_prefix p (dest @ [lt_ID l]) \<or> has_prefix p (dest @ [lt_ID l @ ''.old'']) \<or> fs' p = mkdir_all dest fs p)
  | Some e \<Rightarrow> if first_with_old l dest fs \<and> e = RenameStage
      then \<forall>p. only_dirs dest (rename_tree (dest @ [lt_ID l @ ''.old'']) (dest @ [lt_ID l]) fs) fs' p
      else \<forall>p. has_prefix p (dest @ [lt_ID l @ ''.old'']) \<or> only_dirs dest fs fs' p"
proof (cases r)
  case None
  from Install_ok [OF assms(1) [unfolded None] assms(2)] assms(3) show ?thesis unfolding None by auto
next
  case (Some e)
  from Install_error_keeps [OF assms(1) [unfolded Some] assms(2,4-7)] show ?thesis unfolding Some by (auto split: if_splits)
qed


theorem market_install_outcome_witness:
  "\<exists>fs'. Install sample_market NewClient sample_listing [''plugins''] Map.empty = (None, fs') \<and>
    fs' [''plugins'', ''p'', ''manifest.json''] = Some (RFile [5])"
proof -
  obtain fs' where i: "Install sample_market NewClient sample_listing [''plugins''] Map.empty = (None, fs')"
    using sample_install by blast
  have "fresh_stage (stage_dir sample_market [''plugins''] sample_listing) Map.empty" by (simp add: fresh_stage_def)
  from market_install_outcome [OF i this] obtain body
    where "\<forall>q. fs' ([''plugins''] @ lt_ID sample_listing # q) = staged sample_listing body q"
    by (auto simp: sample_fields)
  from this [rule_format, of "[''manifest.json'']"] i show ?thesis by (simp add: staged_def sample_fields)
qed


text \<open>C34. The marketplace and the registry together, for a plugin about which nothing is saved yet: the completed scan that follows its
  installation does not list it, if the listing came without a manifest or the file could not be opened; otherwise it lists it under its own name, either disabled,
  with its own version, or broken, because the strict decoder of the registry refuses the manifest or because policy and keys do not
  accept it. It is never enabled and never taken for something else. (Assumed: what the strict decoder accepts it
  reads as the decoder of the marketplace does; the staging directory is new.)\<close>

theorem installed_plugin_starts_disabled:
  assumes "Install E c l (gx_root R) fs = (None, fs')" "fresh_stage (stage_dir E (gx_root R) l) fs"
    "decodes_strictly R E (lt_Manifest l)" "rg_state r (lt_ID l) = None"
    "Refresh R listed opened fs' r = (None, r')"
  shows "case Get_plugin (lt_ID l) r' of
    None \<Rightarrow> lt_Manifest l = [] \<or> \<not> opened (lt_ID l)
  | Some e \<Rightarrow> lt_Manifest l \<noteq> [] \<and> opened (lt_ID l) \<and>
     (pe_Status e = StatusDisabled \<and> mf_ID (pe_Manifest e) = lt_ID l \<and> mf_Version (pe_Manifest e) = lt_Version l \<or>
      pe_Status e = StatusBroken \<and> (pe_Error e = Some ManifestDecode \<or> (\<exists>x. pe_Error e = Some (NotTrusted x))))"
proof -
  have r': "Get_plugin (lt_ID l) r' = scan_dir R opened (rg_state r) (rg_trust r) fs' (lt_ID l)"
    using Refresh_ok [OF assms(5)] by (simp add: Get_plugin_def)
  show ?thesis
  proof (cases "lt_Manifest l = [] \<or> \<not> opened (lt_ID l)")
    case True
    with Install_unlisted [where opened = opened and st = "rg_state r" and t = "rg_trust r", OF assms(1,2) True] True show ?thesis
      by (simp add: r')
  next
    case False
    with Install_starts_disabled [where opened = opened and st = "rg_state r" and t = "rg_trust r",
        OF assms(1,2) _ _ assms(3,4)] show ?thesis by (auto simp: r')
  qed
qed


theorem installed_plugin_starts_disabled_witness:
  "\<exists>fs' e. Install sample_market NewClient sample_listing [''plugins''] Map.empty = (None, fs') \<and>
    Get_plugin ''p'' (snd (Refresh sample_registry True (\<lambda>_. True) fs' opened_registry)) = Some e \<and>
    pe_Status e \<noteq> StatusEnabled"
proof -
  obtain fs' where i: "Install sample_market NewClient sample_listing [''plugins''] Map.empty = (None, fs')"
    using sample_install by blast
  have root: "gx_root sample_registry = [''plugins'']" and m: "decodes_strictly sample_registry sample_market b" for b
    by (simp_all add: sample_registry_def decodes_strictly_def sample_fields)
  have f: "fresh_stage (stage_dir sample_market [''plugins''] sample_listing) Map.empty" by (simp add: fresh_stage_def)
  let ?r' = "snd (Refresh sample_registry True (\<lambda>_. True) fs' opened_registry)"
  have "Refresh sample_registry True (\<lambda>_. True) fs' opened_registry = (None, ?r')" by (simp add: Refresh_def)
  then have "case Get_plugin ''p'' ?r' of None \<Rightarrow> False
      | Some e \<Rightarrow> pe_Status e = StatusDisabled \<or> pe_Status e = StatusBroken"
    using installed_plugin_starts_disabled [of sample_market NewClient sample_listing sample_registry Map.empty fs'
      opened_registry True "\<lambda>_. True" ?r'] i f m
    by (auto simp: root sample_fields opened_registry_def split: option.splits)
  then obtain e where e: "Get_plugin ''p'' ?r' = Some e" "pe_Status e = StatusDisabled \<or> pe_Status e = StatusBroken"
    by (auto split: option.splits)
  moreover have "StatusDisabled \<noteq> StatusEnabled" "StatusBroken \<noteq> StatusEnabled"
    by (simp_all add: StatusEnabled_def StatusBroken_def StatusDisabled_def)
  ultimately have "pe_Status e \<noteq> StatusEnabled" by auto
  with i e(1) show ?thesis by blast
qed


text \<open>C35. A connection that is created from the user interface can be read back there: the text that is
  returned names it, and its view shows every value that was given (with a copy of the settings), under the parent that was given. (A
  creation that fails leaves the application as it was.)\<close>

theorem created_connection_reads_back:
  assumes "wf_tree (a_tree a)" "bd_CreateConnection ctx rnd now parent c a = Returns (r, a')"
  shows "case r of Inl e \<Rightarrow> a' = a
    | Inr tx \<Rightarrow> \<exists>v p. bd_GetConnection True tx a' = Returns (Inr v) \<and> parseID parent = Inr p \<and> cv_ID v = tx \<and>
        cv_ParentID v = parent_text p \<and> cv_Name v = ci_Name c \<and> cv_Description v = ci_Description c \<and>
        cv_Tags v = ci_Tags c \<and> cv_Protocol v = ci_ProtocolID c \<and> cv_Host v = ci_Host c \<and> cv_Port v = ci_Port c \<and>
        cv_Username v = ci_Username c \<and> cv_AuthMethod v = ci_AuthMethod c \<and> cv_Favorite v = ci_Favorite c \<and>
        cv_Settings v = app_cloneSettings (ci_Settings c) \<and> cv_Icon v = ci_Icon c \<and> cv_Color v = ci_Color c \<and>
        cv_Environment v = ci_Environment c \<and> cv_CredentialRef v =
          \<lparr>rv_ProviderID = cr_ProviderID (ci_CredentialRef c), rv_EntryID = cr_Key (ci_CredentialRef c), rv_Hints = None\<rparr>"
proof (cases r)
  case (Inl e)
  have "\<And>i x. CreateConnection ctx rnd now i (toAppOpts c) a = Returns (x, a') \<Longrightarrow> outcome wf_tree a x a'"
    by (rule CreateConnection_outcome [OF assms(1)])
  with with_id_outcome [OF assms(2) [unfolded bd_CreateConnection_def]] Inl show ?thesis by simp
next
  case (Inr tx)
  with bd_create_get [OF assms(1) assms(2) [unfolded Inr]] show ?thesis by simp
qed

theorem created_connection_reads_back_witness:
  "\<exists>tx a' v. bd_CreateConnection True 10 (\<lambda>_. 0) (id_String 1) sample_input sample_app = Returns (Inr tx, a') \<and>
    bd_GetConnection True tx a' = Returns (Inr v) \<and> cv_Name v = ''n'' \<and> cv_Port v = 22 \<and> cv_ParentID v = id_String 1"
proof -
  obtain tx a' where c: "bd_CreateConnection True 10 (\<lambda>_. 0) (id_String 1) sample_input sample_app = Returns (Inr tx, a')"
    using sample_bd_create by blast
  have "wf_tree (a_tree sample_app)" by (simp add: wf_sample)
  from created_connection_reads_back [OF this c] c show ?thesis
    by (auto simp: sample_input_def parent_text_def NilID_def)
qed

text \<open>C36. The recent connections follow the sessions: after a session was opened from the user interface, its
  connection is shown first, as the tree shows it, followed by the earlier ones that still exist, in
  their order, without it and within the limit. (The store of the workspace works, and the
  document that is saved can be read back.)\<close>

theorem recents_follow_sessions:
  assumes "wf_tree (a_tree a)" "store_load E fs = (None, w)" "recents_ok w"
    "good_store E ((TouchRecent (we_now E) (id_String n) (we_now E) w)\<lparr>wk_UpdatedAt := we_stamp E\<rparr>)"
    "bd_OpenSession E ul ctx rnd now creds mopen (id_String n) a h (Some fs) = Returns (Inr t, r, so)"
  shows "\<exists>c. conn_at (a_tree a) n = Some c \<and> bd_ListRecents E a so = Returns (connectionNodeView c #
    List.map_filter (shown (a_tree a)) (take (MaxRecents - 1)
      (filter (\<lambda>k. k \<noteq> id_String n) (map re_ConnectionID (wk_Recents w)))))"
  by (rule recents_after_open [OF assms])

theorem recents_follow_sessions_witness:
  "\<exists>so. bd_ListRecents sample_store open_app so = Returns [connectionNodeView conn_p]"
proof -
  obtain t r so where "bd_OpenSession sample_store (\<lambda>s. s) True 9 0 (\<lambda>_. Inl ''none'') (sample_open True) (id_String 4)
      open_app sample_proto (Some no_tabs) = Returns (Inr t, r, so)" using sample_bd_open by blast
  from recents_follow_sessions [OF wf_open_app sample_store_facts this] open_app_conn show ?thesis
    by (auto simp: Default_workspace_def map_filter_simps)
qed

text \<open>C37. Whatever the state's directory holds, the application starts, provided that the directory can be
  moved away and the missing files are reported as such: it starts with the loaded state, or with an
  empty tree, and then what could not be loaded is kept as it was.\<close>

theorem start_recovers:
  assumes "dir \<noteq> ''''" "renamed" "\<forall>n. rok2 n"
  shows "\<exists>s q. newAppWithRecovery J rok rok2 renamed dir v = (Inr s, q) \<and>
    (case q of None \<Rightarrow> New_app J rok dir v = Inr s | Some old \<Rightarrow> old = v \<and> a_tree (ps_app s) = NewTree)"
  by (rule recovery_starts [OF assms])

theorem start_recovers_witness:
  "\<forall>fl. \<exists>s q. newAppWithRecovery (sample_json fl) (\<lambda>_. False) (\<lambda>_. True) True ''d'' fresh_state = (Inr s, q) \<and>
    q = Some fresh_state"
proof
  fix fl
  have n: "New_app (sample_json fl) (\<lambda>_. False) ''d'' fresh_state = Inl (LoadFailed (store_error.ReadFailed (hd known_files)))"
    by (simp add: New_app_def Load_def known_files_def)
  obtain s q where s: "newAppWithRecovery (sample_json fl) (\<lambda>_. False) (\<lambda>_. True) True ''d'' fresh_state = (Inr s, q)"
    "case q of None \<Rightarrow> New_app (sample_json fl) (\<lambda>_. False) ''d'' fresh_state = Inr s
      | Some old \<Rightarrow> old = fresh_state \<and> a_tree (ps_app s) = NewTree"
    using start_recovers [of "''d''" True "\<lambda>_. True" "sample_json fl" "\<lambda>_. False" fresh_state] by auto
  then show "\<exists>s q. newAppWithRecovery (sample_json fl) (\<lambda>_. False) (\<lambda>_. True) True ''d'' fresh_state = (Inr s, q) \<and>
    q = Some fresh_state" using n by (cases q) auto
qed

text \<open>C38. Every active plugin went through all the gates, whatever registrations and removals ran
  at the same time: it is listed under its own ID, its manifest is valid, its major version
  and platform fit, a community or untrusted plugin was approved by the hook, and a protocol
  plugin is granted neither process spawning nor the external launcher.\<close>

theorem active_plugins_admitted:
  assumes "reach (\<lambda>h. h = New_host) (host_step cfg) h" "Get i h = Some l"
  shows "mf_ID (ld_Manifest l) = i \<and> admitted cfg (ld_Manifest l) (ld_Trust l) \<and>
    (if mf_Kind (ld_Manifest l) = KindProtocol
     then EnforceCapability i CapProcessSpawn h = Some ErrCapabilityNotGranted \<and>
       EnforceCapability i CapExternalLauncher h = Some ErrCapabilityNotGranted
     else True)"
proof -
  have "host_inv cfg h" by (rule host_sys.reach_inv [OF assms(1)])
  from host_invD(1) [OF this, of i l] assms(2) have l: "mf_ID (ld_Manifest l) = i"
    "admitted cfg (ld_Manifest l) (ld_Trust l)" by (simp_all add: Get_def)
  then have "Manifest_Validate (Some (ld_Manifest l)) = None" by (simp add: admitted_def)
  with l assms(2) show ?thesis by (simp add: Validate_ok EnforceCapability_def)
qed

theorem active_plugins_admitted_witness:
  "EnforceCapability ''p'' CapProcessSpawn (sample_active KindProtocol) = Some ErrCapabilityNotGranted"
proof -
  have "reach (\<lambda>h. h = New_host) (host_step sample_host) (sample_active KindProtocol)"
    unfolding sample_active_def
    by (rule reach_step [OF sample_pending_reach host_step.finish_register]) (simp add: sample_pending_def)
  moreover have "\<exists>l. Get ''p'' (sample_active KindProtocol) = Some l \<and> mf_Kind (ld_Manifest l) = KindProtocol"
    by (simp add: sample_active_def Register_finish_def sample_pending_def Get_def New_host_def)
      (simp add: sample_manifest_def)
  ultimately show ?thesis using active_plugins_admitted by fastforce
qed




text \<open>C40. Whatever a support bundle is built from, and whatever input is missing or entry refused: in the copies of the settings and of the workspace that it holds
  every value under a key that looks secret, at any depth, is null, the empty text or the placeholder; and in the settings a text at the top
  level is no URL with user information, or was made from one by removing that. (Assumed: the
  placeholder and the empty text are no URLs with user information. The tails of the log files and the manifests of the plugins are copied as they are.)\<close>

theorem bundle_has_no_secrets:
  assumes "url_ok E" "Build E i = (r, b)"
  shows "list_all (safe_entry E) b"
  by (rule Build_safe [OF assms])


theorem bundle_has_no_secrets_witness:
  "safe_entry sample_bundle_env (''settings.json'', BundleJSON (JMap [(''token'', JText redactedPlaceholder), (''remote'', JText ''https://h'')]))"
  using bundle_has_no_secrets [OF sample_bundle_url sample_bundle_result] by simp

section \<open>Further facts\<close>

text \<open>A session that ends at once can be reported closed before it is reported opened.\<close>

theorem closed_may_precede_opened:
  "\<exists>e. life_reach m e \<and> l_events e = [SClosed, SOpened]"
  by (rule closed_before_opened)

text \<open>Removing a connection at the root succeeds but leaves its ID in the root's child
  index, so the tree is not well-formed any more.\<close>

theorem remove_root_connection_dangles:
  assumes "wf_tree t" "conn_at t i = Some c" "c_ParentID c = NilID"
  shows "\<exists>t'. Remove i t = Some (None, t') \<and> conn_at t' i = None \<and>
    i \<in> set (connectionChildren t' NilID) \<and> \<not> wf_tree t'"
proof -
  let ?t = "t\<lparr>connections := fmdrop i (connections t)\<rparr>"
  have "i \<in> set (connectionChildren ?t NilID)" "conn_at ?t i = None"
    using Remove_root_conn(2) [OF assms] by simp_all
  then have "\<not> wf_tree ?t" using wf_connectionChildren [of ?t i NilID] by auto
  with Remove_root_conn [OF assms] show ?thesis by simp
qed

theorem remove_root_connection_dangles_witness:
  "\<exists>t'. Remove 4 sample_tree = Some (None, t') \<and> conn_at t' 4 = None \<and>
    4 \<in> set (connectionChildren t' NilID) \<and> \<not> wf_tree t'"
  by (rule remove_root_connection_dangles [OF wf_sample sample_lookup(6)]) (simp add: node_defs)

text \<open>A name filter matches a node exactly when the folded text occurs in the folded name
  and is no longer than the name; for ASCII names the second condition follows from the first.\<close>

theorem match_name_spec:
  "MatchName ul q (NConn c) = Some (let name = to_lower ul (c_Name c); sub = to_lower ul q in
     if is_ascii (c_Name c) then contains name sub
     else sub = [] \<or> length sub \<le> length (c_Name c) \<and> contains name sub)"
proof -
  have "contains s []" for s :: string by (cases s) auto
  then show ?thesis
    using contains_length [of "to_lower ul (c_Name c)" "to_lower ul q"]
      to_lower_length_ascii [of "c_Name c" ul]
    by (auto simp: MatchName_def Let_def containsFoldASCII_spec)
qed

text \<open>A name whose folded form is longer than the name does not match itself.\<close>

theorem match_name_misses_itself:
  assumes "length (to_lower ul (c_Name c)) > length (c_Name c)"
  shows "MatchName ul (c_Name c) (NConn c) = Some False"
  using assms by (auto simp: MatchName_def Let_def containsFoldASCII_spec)

text \<open>The capital letter A with stroke folds from two bytes to three.\<close>

theorem match_name_misses_itself_witness:
  "MatchName (\<lambda>_. bytes_str [226, 177, 165]) (bytes_str [200, 186])
     (NConn (zero_conn\<lparr>c_Name := bytes_str [200, 186]\<rparr>)) = Some False"
  using match_name_misses_itself [where ul = "\<lambda>_. bytes_str [226, 177, 165]"
      and c = "zero_conn\<lparr>c_Name := bytes_str [200, 186]\<rparr>"]
  by (simp add: to_lower_def is_ascii_def bytes_str_def ord8_def)

text \<open>Resolving an already resolved connection under the same profile and folders changes
  nothing.\<close>

theorem resolve_idempotent:
  "rc_node (Resolve p (Some (rc_node (Resolve p (Some n) as))) as) = rc_node (Resolve p (Some n) as)"
  by (rule Resolve_idem)

text \<open>A snapshot whose tree is well-formed is validated without errors.\<close>

theorem wellformed_snapshot_validates:
  assumes "wf_tree t" "s_Tree snap = Some t"
  shows "\<exists>issues. Validate (Some snap) = Some issues \<and> no_errors issues"
  by (rule Validate_wf [OF assms])

theorem wellformed_snapshot_validates_witness:
  "\<exists>issues. Validate (Some \<lparr>s_Tree = Some sample_tree, s_Templates = [], s_Workspace = zero_workspace,
     s_Meta = zero_meta\<rparr>) = Some issues \<and> no_errors issues"
  by (rule wellformed_snapshot_validates [OF wf_sample]) simp

text \<open>A save that fails between the four files leaves a prefix of the new files in place, the
  others as they were, and no temporary file.\<close>

theorem failed_save_is_prefix:
  "case write_all ok ws d of (e, d') \<Rightarrow> d_temps d' = d_temps d \<and>
     (\<exists>k \<le> length ws. d_files d' = written (take k ws) (d_files d) \<and> k = (if e = None then length ws else k))"
  using write_all_prefix [of ok ws d] by (cases "write_all ok ws d") auto

text \<open>A migration that fails leaves the files and the meta record as they were; one that
  succeeds changes nothing of the meta record but the version, which is then the current one.\<close>

theorem migration_rolls_back:
  "case Run um mi steps (Some m) fs of
     (fs', mo, Some e) \<Rightarrow> fs' = fs \<and> mo = Some m
   | (fs', mo, None) \<Rightarrow> mo = Some (m\<lparr>m_Version := CurrentVersion\<rparr>)"
proof -
  obtain fs' mo e where r: "Run um mi steps (Some m) fs = (fs', mo, e)"
    by (cases "Run um mi steps (Some m) fs")
  show ?thesis
  proof (cases e)
    case None
    obtain m' where mo: "mo = Some m'" using Run_meta [of um mi steps m fs] r by (cases mo) simp_all
    from Run_current [OF r [unfolded None mo]] show ?thesis unfolding r None mo by simp
  next
    case (Some x)
    from Run_rollback [OF r [unfolded Some]] show ?thesis unfolding r Some by simp
  qed
qed

text \<open>The window size that is announced is the one a peer reads, clamped to 16 bits, even
  when a byte of it has to be escaped.\<close>

theorem telnet_window_size:
  assumes "ng_mode s = stNormal"
  shows "\<exists>s'. feed s (buildNAWS c r) = (s', [], []) \<and> ng_mode s' = stNormal \<and>
    ng_sbOpt s' = OptNAWS \<and> parseNAWS (ng_sbBuf s') = Some (clamp16 c, clamp16 r)"
  by (rule naws_roundtrip [OF assms])

theorem telnet_window_size_witness:
  "\<exists>s'. feed (NewNegotiator [] 80 24) (buildNAWS 255 (-1)) = (s', [], []) \<and>
    parseNAWS (ng_sbBuf s') = Some (255, 0)"
  using telnet_window_size [of "NewNegotiator [] 80 24" 255 "-1"]
  by (auto simp: NewNegotiator_def clamp16_def)

text \<open>Negotiation replies are complete commands: a peer that reads them sees no data byte and
  is back in its normal state.\<close>

theorem telnet_replies_are_commands:
  "case feed s bs of (s', os, rs) \<Rightarrow> length os \<le> length bs \<and>
     (\<forall>t. \<exists>t' r. feed (t\<lparr>ng_mode := stNormal\<rparr>) rs = (t', [], r) \<and> ng_mode t' = stNormal)"
proof -
  obtain s' os rs where f: "feed s bs = (s', os, rs)" by (cases "feed s bs")
  show ?thesis using feed_silent [OF f] feed_length [of s bs] by (simp add: f silent_def)
qed

text \<open>While it waits for a prompt the session stops right after the first occurrence of the
  prompt, in any capitalisation, and leaves the rest of the input unread.\<close>

theorem telnet_prompt_found:
  assumes "needle \<noteq> []" "prompt_at (map lower_byte needle) s k"
    "\<forall>j < k. \<not> prompt_at (map lower_byte needle) s j" "k \<le> limit" "\<forall>j. ctx j" "\<forall>j. wok j"
  shows "expectPrompt needle limit ctx wok (map (\<lambda>b. (Some b, False)) s) =
    Some (PromptSeen, take k s, map (\<lambda>b. (Some b, False)) (drop k s))"
  by (rule expectPrompt_found [OF assms])

theorem telnet_prompt_found_witness:
  "expectPrompt [111, 58] 10 (\<lambda>_. True) (\<lambda>_. True) (map (\<lambda>b. (Some b, False)) [76, 79, 58, 32]) =
    Some (PromptSeen, [76, 79, 58], [(Some 32, False)])"
proof -
  have "\<forall>j < 3. \<not> prompt_at (map lower_byte [111, 58]) [76, 79, 58, 32] j"
    by (simp add: prompt_at_def has_suffix_def lower_byte_def numeral_3_eq_3 All_less_Suc)
  from telnet_prompt_found [OF _ _ this, of 10 "\<lambda>_. True" "\<lambda>_. True"] show ?thesis
    by (simp add: prompt_at_def has_suffix_def lower_byte_def)
qed

text \<open>A registration that got its reservation is never refused as a duplicate afterwards: it
  fails exactly when \<open>Init\<close> does, and else the plugin is active with its trust recorded.\<close>

theorem reserved_id_registers:
  assumes "reach (\<lambda>h. h = New_host) (host_step cfg) h" "pending h g = Some (m, x, t)"
  shows "Register_finish cfg g e h =
    (case (if lifecycle cfg x then e else None) of
       Some err \<Rightarrow> (Some (InitFailed err), emit EventCrashed (mf_ID m) (Some err)
         (h\<lparr>registering := registering h - {mf_ID m}, pending := (pending h)(g := None)\<rparr>))
     | None \<Rightarrow> (None, emit EventLoaded (mf_ID m) None
         (h\<lparr>registering := registering h - {mf_ID m}, pending := (pending h)(g := None),
            plugins := (plugins h)(mf_ID m \<mapsto>
              \<lparr>ld_Manifest = m\<lparr>mf_Trust := t\<rparr>, ld_Module = x, ld_Trust = t\<rparr>)\<rparr>)))"
  using Register_finish_cases [OF host_sys.reach_inv [OF assms(1)] assms(2), of e]
  by (simp split: option.split)

theorem reserved_id_registers_witness:
  "fst (Register_finish sample_host 0 (Some ''no'') (sample_pending KindProtocol)) = Some (InitFailed ''no'') \<and>
   fst (Register_finish sample_host 0 None (sample_pending KindProtocol)) = None"
  using reserved_id_registers [OF sample_pending_reach, of 0 "sample_manifest KindProtocol" 7 TrustCore]
  by (simp add: sample_pending_def sample_host_def)

text \<open>However often a session is closed, the plugin's own session is closed once, by the first
  call; the others return no error.\<close>

theorem session_closed_once:
  "Close_all (c # cs) (s\<lparr>ss_closed := False\<rparr>, h) = True # replicate (length cs) False"
  by (rule Close_all_once) simp

text \<open>The gate of \<open>Resolve\<close>: a registered provider is called exactly when it is not in
  quarantine any more, with the default timeout if none is given.\<close>

theorem quarantine_gate:
  assumes "ProviderID ref = i" "i \<noteq> ''''" "CredentialHost.providers h i = Some (Some p)"
  shows "fst (Resolve_begin g now ref t h) =
    (case quarantined h i of
       Some u \<Rightarrow> if now < u then Inl (ErrQuarantined i u) else Inr (p, call_timeout t)
     | None \<Rightarrow> Inr (p, call_timeout t))"
  by (rule Resolve_begin_gate [OF assms])

theorem quarantine_gate_witness:
  "fst (Resolve_begin 0 50 (zero_ref\<lparr>ProviderID := ''p''\<rparr>) 0 sample_cred) = Inl (ErrQuarantined ''p'' 100) \<and>
   fst (Resolve_begin 0 100 (zero_ref\<lparr>ProviderID := ''p''\<rparr>) 0 sample_cred) = Inr (7, DefaultCallTimeout)"
  using quarantine_gate [of "zero_ref\<lparr>ProviderID := ''p''\<rparr>" "''p''" sample_cred 7]
  by (simp add: sample_cred_def call_timeout_def)

text \<open>As many failures in a row as the threshold, all within a window of the first, put the
  provider in quarantine until the configured time after the last.\<close>

theorem threshold_quarantines:
  assumes "firstFailAt h i = None" "int (length ts) = failureThreshold c" "1 < failureThreshold c"
    "\<forall>t \<in> set ts. time_sub t (hd ts) \<le> failureWindow c"
  shows "quarantined (fail_at c i ts h) i = Some (last ts + quarantineFor c)"
  using assms by (intro fail_at_quarantines) auto

theorem threshold_quarantines_witness:
  "quarantined (fail_at (New_config []) ''p'' [0, 10, 20] New_cred) ''p'' = Some (20 + DefaultQuarantineFor)"
  using threshold_quarantines [of New_cred "''p''" "[0, 10, 20]" "New_config []"]
  by (simp add: New_cred_def New_config_def DefaultFailureThreshold_def DefaultFailureWindow_def time_sub_def)

text \<open>The window does not roll: failures at 0, 50, 70 and 100 seconds do not quarantine,
  although the last three are within a window and the threshold is three.\<close>

theorem failure_window_tumbles:
  "quarantined (fail_at (New_config []) i [0, 50 * 10 ^ 9, 70 * 10 ^ 9, 100 * 10 ^ 9] New_cred) i = None \<and>
   time_sub (100 * 10 ^ 9) (50 * 10 ^ 9) \<le> failureWindow (New_config []) \<and> failureThreshold (New_config []) = 3"
  by (simp add: fail_at_def recordFailure_def bump_failure_def New_cred_def New_config_def Let_def
      DefaultFailureThreshold_def DefaultFailureWindow_def time_sub_def)

text \<open>Searching with a predicate that does not panic returns the matching nodes, in the
  order of the walk; the conjunction, disjunction and negation of such predicates are the
  Boolean ones.\<close>

theorem search_is_filter:
  assumes "wf_tree t" "list_all total_pred ps" "total_pred p"
  shows "Search (Some (And ps)) t =
      WDone (filter (\<lambda>n. \<forall>q \<in> set ps. matches q n) (preorder t)) \<and>
    Search (Some (Or ps)) t =
      WDone (filter (\<lambda>n. \<exists>q \<in> set ps. q \<noteq> None \<and> matches q n) (preorder t)) \<and>
    Search (Some (Not p)) t = WDone (filter (\<lambda>n. p = None \<or> \<not> matches p n) (preorder t))"
  using Search_filter [OF assms(1) total_And [OF assms(2)]]
    Search_filter [OF assms(1) total_Or [OF assms(2)]]
    Search_filter [OF assms(1) total_Not [OF assms(3)]]
    matches_And [OF assms(1) _ assms(2)] matches_Or [OF assms(1) _ assms(2)]
    matches_Not [OF assms(1) _ assms(3)]
  by (simp cong: filter_cong)

theorem search_is_filter_witness:
  "Search (Some (And [Some (MatchProtocol ''ssh''), None])) sample_tree =
     WDone (filter (\<lambda>n. \<forall>q \<in> set [Some (MatchProtocol ''ssh''), None]. matches q n) (preorder sample_tree))"
  using search_is_filter [OF wf_sample, of "[Some (MatchProtocol ''ssh''), None]" None] total_preds(3)
  by (simp add: total_pred_def)

text \<open>A visitor that does not change the tree sees, in one fixed order, every folder and
  every connection exactly once, a folder before everything in it; the walk never panics,
  and it returns when the visitor does: it is the visitor run along that list.\<close>

theorem walk_visits_each_once:
  assumes "wf_tree (g s)" "read_only g v"
  shows "Walk g v s = visit_all v (preorder (g s)) s \<and>
    distinct (map NodeID (preorder (g s))) \<and> parents_first {NilID} (preorder (g s)) \<and>
    set (preorder (g s)) = {NFolder f | f i. folder_at (g s) i = Some f} \<union>
      {NConn c | c k. conn_at (g s) k = Some c}"
  using Walk_preorder [of g s v, OF assms] preorder_once [OF assms(1)]
    preorder_parents_first [OF assms(1)] set_preorder [OF assms(1)] by simp

theorem walk_visits_each_once_witness:
  "Walk (\<lambda>_. sample_tree) (\<lambda>n s. WDone (n # s) :: (unit, node list) walk_result) [] =
     visit_all (\<lambda>n s. WDone (n # s)) (preorder sample_tree) [] \<and>
   distinct (map NodeID (preorder sample_tree))"
  using walk_visits_each_once [of "\<lambda>_. sample_tree" "[]"
      "\<lambda>n s. WDone (n # s) :: (unit, node list) walk_result"] wf_sample
  by (simp add: read_only_def)

text \<open>Pruning keeps the newest archives: it deletes as many as there are too many, none of
  them newer than one that stays, and nothing else.\<close>

theorem prune_keeps_newest:
  assumes "\<forall>n. rm n" "distinct (map e_Name es)" "keep < length (filter is_archive es)"
  shows "\<exists>gone. pruneBackups rm keep es = (filter (\<lambda>e. e \<notin> gone) es, None) \<and>
    gone \<subseteq> set (filter is_archive es) \<and> card gone = length (filter is_archive es) - keep \<and>
    (\<forall>e \<in> gone. \<forall>e' \<in> set (filter is_archive es) - gone. e_ModTime e \<le> e_ModTime e')"
  by (rule pruneBackups_keeps_newest [OF assms])

theorem prune_keeps_newest_witness:
  "\<exists>gone. pruneBackups (\<lambda>_. True) 1 sample_backups = (filter (\<lambda>e. e \<notin> gone) sample_backups, None) \<and>
    card gone = 1"
proof -
  have "distinct (map e_Name sample_backups)" "length (filter is_archive sample_backups) = 2"
    by (simp_all add: sample_backups_def is_archive_def has_suffix_def)
  with prune_keeps_newest [of "\<lambda>_. True" sample_backups 1] show ?thesis by auto
qed

text \<open>The default authentication method of an alias is not the one of the protocol that is
  opened: \<open>SSH\<close> is opened as the built-in SSH module, but without a password it gets no
  authentication at all where the module's own identifier gets the key or the agent.\<close>

theorem alias_default_differs:
  "canonicalBuiltInProtocolID ul ''SSH'' = Some ''io.goremote.protocol.ssh'' \<and>
   (if cm_Password mat = '''' then defaultAuthMethod ''SSH'' mat = AuthNone \<and>
     defaultAuthMethod ''io.goremote.protocol.ssh'' mat \<in> {AuthPublicKey, AuthAgent} else True)"
proof -
  have "to_lower ul (trim_space ''SSH'') = ''ssh''"
    by (simp add: to_lower_def is_ascii_def trim_SSH lower_char_SSH)
  then have c: "canonicalBuiltInProtocolID ul ''SSH'' = Some ''io.goremote.protocol.ssh''"
    by (simp add: canonicalBuiltInProtocolID_def built_in_protocols_def)
  moreover have "after_last_dot ''SSH'' = ''SSH''" by (simp add: after_last_dot_def)
  ultimately show ?thesis
    using canonical_default [OF c \<open>to_lower ul (trim_space ''SSH'') = ''ssh''\<close>, of mat] alias_default [of "''SSH''" mat]
    by simp
qed

text \<open>The decoder does not depend on the order of the file: any listing of a tree's folders
  and connections, children before parents included, is decoded to that tree.\<close>

theorem decoding_ignores_order:
  assumes "wf_tree t" "lists_tree file t"
  shows "\<exists>t'. decodeInventory file = Inr t' \<and> wf_tree t' \<and>
    folders t' = folders t \<and> connections t' = connections t"
  by (rule decode_lists_tree [OF assms])

theorem decoding_ignores_order_witness:
  "\<exists>t'. decodeInventory (flat_file [folder_2, folder_1] [conn_4, conn_3]) = Inr t' \<and>
    folders t' = folders sample_tree"
proof -
  have "lists_tree (flat_file [folder_2, folder_1] [conn_4, conn_3]) sample_tree"
    by (auto simp: lists_tree_def flat_file_def sample_tree_def List.map_filter_def)
  from decoding_ignores_order [OF wf_sample this] show ?thesis by blast
qed

text \<open>Whatever order registrations, removals and crash reports come in, the protocol host
  holds only modules with a valid protocol manifest, each under its own ID; none of them
  declares process spawning or the external launcher, and no entry is nil.\<close>

theorem protocol_modules_confined:
  assumes "reach (\<lambda>h. h = New_proto) (proto_step pc man) h" "modules h i = Some q"
  shows "\<exists>x. q = Some x \<and> mf_ID (man x) = i \<and> mf_Kind (man x) = KindProtocol \<and>
    \<not> HasCapability (man x) CapProcessSpawn \<and> \<not> HasCapability (man x) CapExternalLauncher"
proof -
  have "reg_inv pc man KindProtocol (pph h) (padding h) (modules h)"
    using proto_sys.reach_inv [OF assms(1)] by (simp add: proto_inv_def)
  from reg_invD(4) [OF this assms(2)] obtain x where "q = Some x" "mf_ID (man x) = i"
    "valid_manifest KindProtocol (man x)" by blast
  then show ?thesis by (simp add: valid_manifest_def Validate_ok)
qed

theorem protocol_modules_confined_witness:
  "modules sample_proto ''p'' = Some (Some 7) \<and> \<not> HasCapability (sample_manifest KindProtocol) CapProcessSpawn"
proof -
  have "modules sample_proto ''p'' = Some (Some 7)"
    by (simp add: sample_proto_def proto_Register_add_def) (simp add: sample_manifest_def)
  with protocol_modules_confined [OF sample_proto_reach, of "''p''"] show ?thesis by auto
qed

text \<open>A provider is quarantined only after as many failures as the threshold, all at most a
  window after the first of them, and for the configured time after the last; the counters
  stay below the threshold; and every attempt to resolve is answered by one audit record or
  still running.\<close>

theorem quarantine_earned:
  assumes "reach (\<lambda>h. h = New_cred) (cred_step pc (New_config opts) man) h" "quarantined h i = Some u"
  shows "(\<exists>first t. u = t + quarantineFor (New_config opts) \<and> (i, t) \<in> set (fail_log h) \<and>
      time_sub t first \<le> failureWindow (New_config opts) \<and>
      failureThreshold (New_config opts) \<le> int (recent (New_config opts) i first (fail_log h))) \<and>
    length (filter (\<lambda>(m, _). m = ResolveAttempt) (audit h)) =
      length (filter (\<lambda>(m, _). m \<in> outcomes) (audit h)) + card (dom (calls h))"
  using cred_sys.reach_inv [OF assms(1)] assms(2)
  by (auto simp: cred_inv_def fail_ok_def blame_def audit_ok_def)

theorem quarantine_earned_witness:
  "\<exists>u. quarantined sample_failed ''p'' = Some u \<and>
    (\<exists>first t. u = t + quarantineFor (New_config [WithFailureThreshold 1]) \<and> (''p'', t) \<in> set (fail_log sample_failed))"
proof -
  have "\<exists>u. quarantined sample_failed ''p'' = Some u"
    by (simp add: sample_failed_def cred_Register_add_def sample_registered_def New_cred_def Resolve_begin_def
        isQuarantinedLocked_def log_audit_def sample_manifest_def Let_def Resolve_end_def recordFailure_def
        bump_failure_def New_config_def)
  with quarantine_earned [OF sample_failed_reach, of "''p''"] show ?thesis by blast
qed

text \<open>A registration and a removal of the same provider that overlap can leave the provider in
  the credential host's map although its plugin is shut down and removed, with no operation
  left running.\<close>

theorem provider_outlives_plugin:
  "\<exists>h. cred_reach opts h \<and> CredentialHost.providers h ''p'' = Some (Some 7) \<and> Get ''p'' (ph h) = None \<and>
    adding h = Map.empty \<and> pending (ph h) = Map.empty \<and> stopping (ph h) = Map.empty"
proof -
  let ?man = "\<lambda>_::nat. sample_manifest KindCredential"
  let ?step = "cred_step sample_host (New_config opts) ?man"
  let ?h1 = "cred_Unregister_lock ''p'' sample_registered"
  let ?p = "(ph ?h1)\<lparr>plugins := (plugins (ph ?h1))(''p'' := None), stopping := [1 \<mapsto> (''p'', 7)]\<rparr>"
  let ?h2 = "?h1\<lparr>ph := ?p\<rparr>"
  let ?h3 = "?h2\<lparr>ph := snd (Unregister_finish sample_host 1 None (ph ?h2))\<rparr>"
  let ?h4 = "cred_Register_add ?man 0 7 ?h3"
  have a: "sample_active KindCredential = emit EventLoaded ''p'' None (New_host\<lparr>plugins := [''p'' \<mapsto>
      \<lparr>ld_Manifest = sample_manifest KindCredential\<lparr>mf_Trust := TrustCore\<rparr>, ld_Module = 7, ld_Trust = TrustCore\<rparr>]\<rparr>)"
    by (simp add: sample_active_def Register_finish_def sample_pending_def New_host_def)
      (simp add: sample_manifest_def)
  have "cred_reach opts ?h1"
    by (rule reach_step [where s = sample_registered]) (rule sample_registered_reach, rule cred_step.unregister)
  moreover have "?step ?h1 ?h2"
    by (rule cred_step.ph_unregister [where g = 1 and i = "''p''"])
      (simp_all add: cred_Unregister_lock_def sample_registered_def a Unregister_begin_def New_host_def emit_def)
  ultimately have "cred_reach opts ?h2" by (rule reach_step)
  moreover have "?step ?h2 ?h3" by (rule cred_step.ph_shutdown) simp
  ultimately have "cred_reach opts ?h3" by (rule reach_step)
  moreover have "?step ?h3 ?h4"
    by (rule cred_step.add) (simp add: cred_Unregister_lock_def sample_registered_def)
  ultimately have "cred_reach opts ?h4" by (rule reach_step)
  then show ?thesis
    by (intro exI [of _ ?h4])
      (simp add: cred_Register_add_def cred_Unregister_lock_def sample_registered_def a Unregister_finish_def
        Get_def New_host_def emit_def sample_manifest_def sample_host_def)
qed

text \<open>Deleting a connection at the root succeeds, and every later listing of the tree panics.\<close>

theorem delete_root_connection_crashes:
  assumes "wf_tree (a_tree a)" "conn_at (a_tree a) i = Some c" "c_ParentID c = NilID"
    "\<not> (a_started a \<and> a_sig_closed a)"
  shows "\<exists>a'. DeleteNode True now i a = Returns (Inr (), a') \<and> ListTree a' = Panics"
  using DeleteNode_root_conn [OF assms] ListTree_after_delete [OF assms(1-3)] by metis

theorem delete_root_connection_crashes_witness:
  "\<exists>a'. DeleteNode True (\<lambda>_. 5) 4 sample_app = Returns (Inr (), a') \<and> ListTree a' = Panics"
  using delete_root_connection_crashes [of sample_app 4 conn_4 "\<lambda>_. 5"] by (simp add: wf_sample NilID_def)

text \<open>A stream of frames is read back as the frames that were written, one after the other,
  with whatever follows left in the stream; no frame that is read has a longer body than the
  limit.\<close>

theorem frames_roundtrip:
  assumes "list_all (frame_ok m u) fs"
  shows "read_frames (length fs) isz u (concat (map (\<lambda>f. fst (WriteFrame m True True f)) fs) @ rest) =
    Inr (fs, rest)"
  by (rule read_frames_concat [OF assms])

theorem frames_roundtrip_witness:
  "read_frames (length [sample_frame, sample_frame]) 64 (\<lambda>_. Some sample_frame)
     (concat (map (\<lambda>f. fst (WriteFrame (\<lambda>_. Some [7, 8]) True True f)) [sample_frame, sample_frame]) @ [1]) =
   Inr ([sample_frame, sample_frame], [1])"
  by (rule frames_roundtrip) (simp add: frame_ok_def maxFrameSize_def)

text \<open>A recent connection that is touched moves to the front of the list with its counter one
  higher; the others keep their order, no connection is listed twice, and the list holds at most
  twenty.\<close>

theorem recents_bounded:
  assumes "recents_ok w" "i \<noteq> ''''"
  shows "recents_ok (TouchRecent now i at w) \<and>
    map re_ConnectionID (wk_Recents (TouchRecent now i at w)) =
      take MaxRecents (i # filter (\<lambda>k. k \<noteq> i) (map re_ConnectionID (wk_Recents w))) \<and>
    re_OpenCount (hd (wk_Recents (TouchRecent now i at w))) =
      (case find (\<lambda>e. re_ConnectionID e = i) (wk_Recents w) of None \<Rightarrow> 1 | Some e \<Rightarrow> re_OpenCount e + 1)"
  using TouchRecent_spec [OF assms] by blast

theorem recents_bounded_witness:
  "map re_ConnectionID (wk_Recents (TouchRecent 1 ''a'' 0 (TouchRecent 1 ''b'' 0 (TouchRecent 1 ''a'' 0 Default_workspace)))) =
     [''a'', ''b'']"
proof -
  have ok: "recents_ok Default_workspace" by (simp add: recents_ok_def Default_workspace_def)
  note a = recents_bounded [OF ok, of "''a''" 1 0]
  note b = recents_bounded [of "TouchRecent 1 ''a'' 0 Default_workspace" "''b''" 1 0]
  note c = recents_bounded [of "TouchRecent 1 ''b'' 0 (TouchRecent 1 ''a'' 0 Default_workspace)" "''a''" 1 0]
  show ?thesis using a b c by (simp add: Default_workspace_def MaxRecents_def)
qed

text \<open>At the retention limit the oldest archive cannot be restored: the safety backup that a
  restore takes first prunes the very archive it was asked for.\<close>

theorem oldest_backup_unrestorable:
  assumes "backupLocked bok rm ts now v = ((q, None), v1)" "\<forall>n. rm n"
    "DefaultBackupRetention \<le> length (filter is_archive (archives v))" "distinct (map e_Name (archives v))"
    "e \<in> set (archives v)" "is_archive e" "e_ModTime e < now"
    "\<forall>e' \<in> set (archives v). is_archive e' \<and> e' \<noteq> e \<longrightarrow> e_ModTime e < e_ModTime e'"
  shows "fst (RestoreFrom lim ok io rd bok rm ts now (e_Name e) v) = Some restore_error.OpenFailed"
  by (rule oldest_backup_pruned(2) [OF assms])

theorem oldest_backup_unrestorable_witness:
  "archive_at ''a.zip'' full_vault \<noteq> None \<and>
   fst (RestoreFrom default_limits (\<lambda>_. True) (\<lambda>_. True) (\<lambda>_. True) (\<lambda>_. True) (\<lambda>_. True) ''t'' 100 ''a.zip'' full_vault) =
     Some restore_error.OpenFailed"
proof -
  obtain q v1 where "backupLocked (\<lambda>_. True) (\<lambda>_. True) ''t'' 100 full_vault = ((q, None), v1)"
    using backupLocked_succeeds by blast
  from oldest_backup_unrestorable [OF this, of "sample_archive (''a'', 1)"] full_vault_facts show ?thesis
    by (simp add: sample_archive_def)
qed

text \<open>Every output channel of a session is closed in the end: once the watchers of the
  subscribers are through, no subscriber is left, also none that subscribed while the session
  was ending.\<close>

theorem subscribers_released:
  assumes "life_reach m e" "l_watch e = {}" "l_leaving e = {}" "s < l_next e"
  shows "s \<in> l_shut e"
  by (rule no_subscriber_left [OF assms])

theorem subscribers_released_witness: "0 \<in> l_shut (sample_life None)"
  by (rule subscribers_released [OF sample_life_reach]) (simp_all add: sample_life_facts)

text \<open>A search returns the views of the nodes that pass every filter that was given, and the
  favorites are the connections so marked, both from the whole tree.\<close>

theorem queries_filter:
  assumes "wf_tree (a_tree a)"
  shows "SearchNodes ul q a = Returns (map (the \<circ> node_view) (filter (accepts ul q) (preorder (a_tree a)))) \<and>
    ListFavorites ul srt True a = Returns (srt (\<lambda>v. to_lower ul (nv_Name v))
      (map (the \<circ> node_view) (filter favorite (preorder (a_tree a)))))"
  using SearchNodes_filter [OF assms] ListFavorites_filter [OF assms] by simp

theorem queries_filter_witness:
  "SearchNodes (\<lambda>s. s) \<lparr>sq_Name = ''db'', sq_Tag = '''', sq_Protocol = ''''\<rparr> sample_app =
    Returns (map (the \<circ> node_view) (filter (accepts (\<lambda>s. s) \<lparr>sq_Name = ''db'', sq_Tag = '''', sq_Protocol = ''''\<rparr>)
      (preorder sample_tree)))"
  using queries_filter [of sample_app "\<lambda>s. s" "\<lparr>sq_Name = ''db'', sq_Tag = '''', sq_Protocol = ''''\<rparr>" "\<lambda>_ vs. vs"]
  by (simp add: wf_sample)

text \<open>When the protocol host does not open the session, the secret is wiped, whether it was
  resolved or handed in; after an earlier error the caller's secret is left as it was.\<close>

theorem session_failure_wipes:
  assumes "openSessionInternal ul ctx rnd now creds mopen i inline a h = Returns r" "res_out r = Inl e"
  shows "wiped (res_material r) \<and> (case e of OpenProtocol _ \<Rightarrow> wiped (res_inline r) | _ \<Rightarrow> res_inline r = inline)"
  by (rule openSession_failure [OF assms])

theorem session_failure_wipes_witness:
  "\<exists>r. sample_session False (Some sample_secret) = Returns r \<and> wiped (res_inline r)"
proof -
  obtain r e where r: "sample_session False (Some sample_secret) = Returns r" "res_out r = Inl (OpenProtocol e)"
    using sample_session_result(2) by blast
  from session_failure_wipes [OF this] r(1) show ?thesis by auto
qed

text \<open>The verifier accepts a manifest as verified only when a trusted key signs the manifest's
  body, and an unsigned one only under the permissive policy, as a community plugin; apart
  from the trust it leaves the manifest as it was.\<close>

theorem verify_accepts_only_signed:
  assumes "Verify b64 json ed store policy (Some m) = (Some m', None)"
  shows "m' = m\<lparr>mf_Trust := mf_Trust m'\<rparr> \<and>
    (mf_Trust m' = TrustVerified \<and> (\<exists>sig body l pub. b64 (mf_SignatureB64 m) = Some sig \<and>
        json (manifestBody m) = Some body \<and> (l, pub) \<in> set store \<and> ed pub body sig) \<or>
     mf_Trust m' = TrustCommunity \<and> mf_SignatureB64 m = '''' \<and> policy = PolicyPermissive)"
  by (rule Verify_accepts [OF assms])

theorem verify_accepts_only_signed_witness:
  "\<exists>m'. Verify (\<lambda>_. Some [9]) (\<lambda>_. Some [1]) (\<lambda>k b s. k = (3::nat) \<and> s = [9]) [(''k'', 3)] PolicyStrict
      (Some (sample_manifest KindProtocol\<lparr>mf_SignatureB64 := ''CQ==''\<rparr>)) = (Some m', None) \<and>
    mf_Trust m' = TrustVerified"
proof -
  have "\<exists>m'. Verify (\<lambda>_. Some [9]) (\<lambda>_. Some [1]) (\<lambda>k b s. k = (3::nat) \<and> s = [9]) [(''k'', 3)] PolicyStrict
      (Some (sample_manifest KindProtocol\<lparr>mf_SignatureB64 := ''CQ==''\<rparr>)) = (Some m', None)"
    by (simp add: Verify_def)
  with verify_accepts_only_signed show ?thesis by blast
qed

text \<open>Applying an update does not compare versions: whatever version is running, the target that is
  offered and signed is installed, also when the check for updates finds nothing newer.\<close>

theorem update_can_downgrade:
  assumes "verified_target E = Inr (m, t)" "Download (ue_sha256 E) (ue_lower E) (ue_download E) (Some t) = Inr data"
  shows "(\<exists>i. CheckForUpdate version E = Inr i \<and>
      ui_Available i = IsNewer (um_Version m) (trim_space (currentAppVersion version))) \<and>
    (\<exists>tr. ApplyUpdate E (\<lambda>_. True) False part fs = (None, tr) \<and> installed data (xf_dst (hd tr)))"
  using ApplyUpdate_unchecked [OF assms] assms(1) by (simp add: CheckForUpdate_def Let_def)

theorem update_can_downgrade_witness:
  "(\<exists>i. CheckForUpdate ''2.0'' sample_update_env = Inr i \<and> \<not> ui_Available i) \<and>
   (\<exists>tr. ApplyUpdate sample_update_env (\<lambda>_. True) False [] sample_program = (None, tr) \<and> installed [1, 2] (xf_dst (hd tr)))"
  using update_can_downgrade [OF sample_verified sample_download, of "''2.0''" "[]" sample_program] not_newer(1)
  by (auto simp: sample_offer_def currentAppVersion_def trim_versions)

text \<open>Versions are compared like numbered parts, the first difference deciding and missing parts
  being zero; being newer is a strict order, and two versions of which neither is newer agree in
  every part.\<close>

theorem newer_is_strict_order:
  "(IsNewer a b \<longleftrightarrow> newer_parts (splitSemver a) (splitSemver b)) \<and> \<not> IsNewer a a \<and>
   (IsNewer a b \<and> IsNewer b c \<longrightarrow> IsNewer a c) \<and>
   (\<not> IsNewer a b \<and> \<not> IsNewer b a \<longrightarrow> part_at (splitSemver a) = part_at (splitSemver b))"
  using newer_parts_irrefl newer_parts_trans newer_parts_total by (simp add: IsNewer_parts fun_eq_iff) blast

theorem newer_is_strict_order_witness: "IsNewer ''2.0'' ''v1.9''"
  using newer_is_strict_order [of "''2.0''" "''1.10''" "''v1.9''"] not_newer by blast

text \<open>The exception is real: a folder that is created between the save and the clearing of the
  flag leaves a state that is marked clean, with no flush running, but is not in the store.\<close>

theorem gap_loses_command:
  "\<exists>(J :: unit json) s. reach (fresh_start J) (persist_step J) (s, True) \<and> \<not> a_dirty (ps_app s) \<and>
    ps_flush s = NoFlush \<and> \<not> stored J s"
proof -
  obtain fl where "encodeInventory (Some NewTree) = WDone fl" using inventory_roundtrip [OF wf_NewTree] by blast
  from gap_reached [OF this] show ?thesis by blast
qed

text \<open>Every well-formed tree is encoded, and decoding what was written gives a well-formed
  tree with the same folders and connections, walked in the same order.\<close>

theorem tree_survives_encoding:
  assumes "wf_tree t"
  shows "\<exists>file t'. encodeInventory (Some t) = WDone file \<and> decodeInventory file = Inr t' \<and>
    wf_tree t' \<and> folders t' = folders t \<and> connections t' = connections t \<and> preorder t' = preorder t"
  by (rule inventory_roundtrip [OF assms])

theorem tree_survives_encoding_witness:
  "\<exists>file t'. encodeInventory (Some sample_tree) = WDone file \<and> decodeInventory file = Inr t' \<and>
    preorder t' = preorder sample_tree"
  using tree_survives_encoding [OF wf_sample] by blast

text \<open>The view of a connection shows the values that a session would use: those of the
  inheritance along the chain of folders above it.\<close>

theorem connection_view_effective:
  assumes "wf_tree (a_tree a)" "conn_at (a_tree a) i = Some c"
  shows "\<exists>fs v. chain (folders (a_tree a)) (c_ParentID c) fs \<and> GetConnection True i a = Returns (Inr v) \<and>
    cv_ID v = id_String i \<and> cv_Name v = c_Name c \<and>
    FStr (cv_EffectiveProtocol v) = fst (effective (c_Inheritance c) c fs FieldProtocolID) \<and>
    FStr (cv_EffectiveHost v) = fst (effective (c_Inheritance c) c fs FieldHost) \<and>
    FInt (cv_EffectivePort v) = fst (effective (c_Inheritance c) c fs FieldPort) \<and>
    FStr (cv_EffectiveUsername v) = fst (effective (c_Inheritance c) c fs FieldUsername)"
  by (rule GetConnection_effective [OF assms])

theorem connection_view_effective_witness:
  "\<exists>fs v. chain (folders sample_tree) 2 fs \<and> GetConnection True 3 sample_app = Returns (Inr v) \<and>
    cv_Name v = ''DB-1'' \<and> FInt (cv_EffectivePort v) = fst (effective (c_Inheritance conn_3) conn_3 fs FieldPort)"
  using connection_view_effective [of sample_app 3 conn_3] by (auto simp: wf_sample conn_3_def)

end
